(* ===== verification/Hades_Prelude.thy ===== *)
theory Hades_Prelude
  imports Main "HOL-Library.Char_ord" "HOL-Library.List_Lexorder" "HOL-Library.Multiset"
begin

text \<open>
  Shared vocabulary of the development: how Go values are represented, the reachability
  predicate and the invariant contract used by every stateful component, and the generic
  lemmas on lists, association lists and decimal numerals that the component proofs share.

  \<^item> A Go \<open>string\<close> or \<open>[]byte\<close> is a HOL \<open>string\<close>, a list of bytes; the order on it is the
    bytewise lexicographic one, as Go's \<open><\<close> on strings.
  \<^item> A Go \<open>int64\<close> or \<open>int\<close> whose overflow matters is an \<open>int\<close> with the wrap-around written
    out by \<open>i64\<close>.
  \<^item> A \<open>time.Time\<close> is the number of nanoseconds since the zero time (January 1, year 1, UTC), so
    \<open>IsZero\<close> is \<open>t = 0\<close>; a \<open>time.Duration\<close> is a number of nanoseconds.
  \<^item> A function that returns \<open>(T, error)\<close> returns a sum, \<open>Inl\<close> for the error.
\<close>

named_theorems go_defs "definitions of straight-line Go code, unfolded together"
named_theorems inv_simps "unfolding rules of component invariants"

subsection \<open>Machine integers\<close>

definition i64 :: "int \<Rightarrow> int" where
  "i64 x = (x + 2 ^ 63) mod 2 ^ 64 - 2 ^ 63"

definition in_i64 :: "int \<Rightarrow> bool" where
  "in_i64 x \<longleftrightarrow> - (2 ^ 63) \<le> x \<and> x < 2 ^ 63"

lemma i64_id [simp]: "in_i64 x \<Longrightarrow> i64 x = x"
  by (simp add: i64_def in_i64_def)

lemma in_i64_i64 [simp]: "in_i64 (i64 x)"
proof -
  have "0 \<le> (x + 2 ^ 63) mod (2 ^ 64 :: int)" "(x + 2 ^ 63) mod (2 ^ 64 :: int) < 2 ^ 64"
    by simp_all
  then show ?thesis by (simp add: i64_def in_i64_def)
qed

text \<open>Go's integer division truncates towards zero.\<close>

definition go_quot :: "int \<Rightarrow> int \<Rightarrow> int" where
  "go_quot a b = sgn a * sgn b * (\<bar>a\<bar> div \<bar>b\<bar>)"

lemma go_quot_nonneg: "0 \<le> a \<Longrightarrow> 0 < b \<Longrightarrow> go_quot a b = a div b"
  by (cases "a = 0") (auto simp: go_quot_def)

subsection \<open>Time\<close>

type_synonym time = int
type_synonym duration = int

abbreviation second :: duration where "second \<equiv> 1000000000"
abbreviation minute :: duration where "minute \<equiv> 60 * second"
abbreviation hour :: duration where "hour \<equiv> 60 * minute"

text \<open>\<open>time.Time.Sub\<close> saturates at the bounds of a 64-bit duration.\<close>

definition tsub :: "time \<Rightarrow> time \<Rightarrow> duration" where
  "tsub a b = max (- (2 ^ 63)) (min (2 ^ 63 - 1) (a - b))"

lemma tsub_ge_iff: "0 \<le> d \<Longrightarrow> d < 2 ^ 63 \<Longrightarrow> d \<le> tsub a b \<longleftrightarrow> d \<le> a - b"
  by (auto simp: tsub_def)

text \<open>\<open>Unix\<close>: the epoch is 719162 days after the zero time.\<close>

definition unix_sec :: "time \<Rightarrow> int" where
  "unix_sec t = (t - 719162 * (24 * hour)) div second"

definition of_unix :: "int \<Rightarrow> time" where
  "of_unix u = u * second + 719162 * (24 * hour)"

lemma unix_of_unix [simp]: "unix_sec (of_unix u) = u"
  by (simp add: unix_sec_def of_unix_def)

subsection \<open>Reachable states and invariants\<close>

inductive reach :: "('s \<Rightarrow> bool) \<Rightarrow> ('s \<Rightarrow> 's \<Rightarrow> bool) \<Rightarrow> 's \<Rightarrow> bool"
  for init :: "'s \<Rightarrow> bool" and step :: "'s \<Rightarrow> 's \<Rightarrow> bool" where
  reach_init: "init s \<Longrightarrow> reach init step s"
| reach_step: "reach init step s \<Longrightarrow> step s t \<Longrightarrow> reach init step t"

text \<open>
  The contract of a stateful component: its initial states satisfy the invariant and every
  step keeps it. Each component interprets it on its own step relation.
\<close>

locale safety =
  fixes init :: "'s \<Rightarrow> bool"
    and step :: "'s \<Rightarrow> 's \<Rightarrow> bool"
    and inv :: "'s \<Rightarrow> bool"
  assumes init_inv: "init s \<Longrightarrow> inv s"
    and step_inv: "inv s \<Longrightarrow> step s t \<Longrightarrow> inv t"
begin

lemma reach_inv: "reach init step s \<Longrightarrow> inv s"
  by (induction rule: reach.induct) (auto intro: init_inv step_inv)

lemma steps_inv: "inv s \<Longrightarrow> step\<^sup>*\<^sup>* s t \<Longrightarrow> inv t"
  by (rotate_tac 1, induction rule: rtranclp_induct) (auto intro: step_inv)

end

subsection \<open>Refinement of a specification\<close>

text \<open>The run of a machine over a list of inputs: the final state and the outputs.\<close>

fun run_io :: "('s \<Rightarrow> 'i \<Rightarrow> 's \<times> 'o) \<Rightarrow> 's \<Rightarrow> 'i list \<Rightarrow> 's \<times> 'o list" where
  "run_io step s [] = (s, [])"
| "run_io step s (i # is) =
     (let (s', out) = step s i; (s'', outs) = run_io step s' is in (s'', out # outs))"

text \<open>
  The contract between a machine and its abstract specification: through the abstraction, a step
  from a state of the invariant on an admissible input is a step of the specification with the
  same output. Runs then have the same outputs.
\<close>

locale refinement =
  fixes cstep :: "'s \<Rightarrow> 'i \<Rightarrow> 's \<times> 'o"
    and astep :: "'a \<Rightarrow> 'i \<Rightarrow> 'a \<times> 'o"
    and abs :: "'s \<Rightarrow> 'a"
    and inv :: "'s \<Rightarrow> bool"
    and ok :: "'i \<Rightarrow> bool"
  assumes sim: "inv s \<Longrightarrow> ok i \<Longrightarrow> inv (fst (cstep s i)) \<and> astep (abs s) i = (abs (fst (cstep s i)), snd (cstep s i))"
begin

lemma run_refines:
  assumes "inv s" "list_all ok is"
  shows "inv (fst (run_io cstep s is))
    \<and> run_io astep (abs s) is = (abs (fst (run_io cstep s is)), snd (run_io cstep s is))"
  using assms
proof (induction "is" arbitrary: s)
  case (Cons i "is")
  from Cons.prems sim [of s i]
  have "inv (fst (cstep s i))" "astep (abs s) i = (abs (fst (cstep s i)), snd (cstep s i))" by simp_all
  with Cons.IH [of "fst (cstep s i)"] Cons.prems show ?case by (simp add: case_prod_beta Let_def)
qed simp

lemma run_answers: "inv s \<Longrightarrow> list_all ok is \<Longrightarrow> snd (run_io cstep s is) = snd (run_io astep (abs s) is)"
  using run_refines by simp

end

subsection \<open>Lists\<close>

lemma sorted_key_stable_head:
  assumes "xs \<noteq> []" and "x \<in> set xs"
  shows "f (hd (sort_key f xs)) \<le> f x"
proof -
  let ?ys = "sort_key f xs"
  have ne: "?ys \<noteq> []" using assms(1) by (metis length_0_conv length_sort)
  have "x \<in> set ?ys" using assms(2) by simp
  moreover have "sorted (map f ?ys)" by simp
  ultimately show ?thesis using ne
    by (cases ?ys) auto
qed

lemma hd_sort_key_in: "xs \<noteq> [] \<Longrightarrow> hd (sort_key f xs) \<in> set xs"
  by (metis hd_in_set length_0_conv length_sort set_sort)

subsection \<open>Decimal numerals (strconv.FormatInt base 10, fmt's d verb)\<close>

definition digit_char :: "nat \<Rightarrow> char" where
  "digit_char d = char_of (48 + d)"

fun dec_nat :: "nat \<Rightarrow> string" where
  "dec_nat n = (if n < 10 then [digit_char n] else dec_nat (n div 10) @ [digit_char (n mod 10)])"

declare dec_nat.simps [simp del]

definition dec_int :: "int \<Rightarrow> string" where
  "dec_int n = (if n < 0 then CHR ''-'' # dec_nat (nat (- n)) else dec_nat (nat n))"

fun undec :: "nat \<Rightarrow> string \<Rightarrow> nat" where
  "undec acc [] = acc"
| "undec acc (c # cs) = undec (10 * acc + (of_char c - 48)) cs"

lemma undec_append: "undec acc (xs @ ys) = undec (undec acc xs) ys"
  by (induction xs arbitrary: acc) auto

lemma of_digit_char [simp]: "d < 10 \<Longrightarrow> (of_char (digit_char d) :: nat) = 48 + d"
  by (simp add: digit_char_def of_char_of take_bit_eq_mod)

lemma undec_dec_nat: "undec 0 (dec_nat n) = n"
proof (induction n rule: dec_nat.induct)
  case (1 n)
  show ?case
  proof (cases "n < 10")
    case True
    then show ?thesis by (simp add: dec_nat.simps [of n])
  next
    case False
    with "1.IH" show ?thesis by (simp add: dec_nat.simps [of n] undec_append)
  qed
qed

lemma dec_nat_inj: "dec_nat m = dec_nat n \<Longrightarrow> m = n"
  by (metis undec_dec_nat)

lemma dec_nat_digits: "c \<in> set (dec_nat n) \<Longrightarrow> 48 \<le> (of_char c :: nat) \<and> (of_char c :: nat) < 58"
proof (induction n rule: dec_nat.induct)
  case (1 n)
  show ?case
  proof (cases "n < 10")
    case True
    with "1.prems" show ?thesis by (simp add: dec_nat.simps [of n])
  next
    case False
    with "1.prems" have "c \<in> set (dec_nat (n div 10)) \<or> c = digit_char (n mod 10)"
      by (auto simp: dec_nat.simps [of n])
    with False "1.IH" show ?thesis by auto
  qed
qed

lemma dec_nat_nonempty [simp]: "dec_nat n \<noteq> []"
  by (simp add: dec_nat.simps [of n])

lemma dec_int_inj: "dec_int m = dec_int n \<Longrightarrow> m = n"
proof -
  have minus: "CHR ''-'' # dec_nat j \<noteq> dec_nat k" for j k
  proof
    assume "CHR ''-'' # dec_nat j = dec_nat k"
    then have "CHR ''-'' \<in> set (dec_nat k)" by (metis list.set_intros(1))
    from dec_nat_digits [OF this] show False by simp
  qed
  assume eq: "dec_int m = dec_int n"
  consider "m < 0" "n < 0" | "m < 0" "\<not> n < 0" | "\<not> m < 0" "n < 0" | "\<not> m < 0" "\<not> n < 0" by blast
  then show ?thesis
  proof cases
    case 1
    with eq dec_nat_inj [of "nat (- m)" "nat (- n)"] show ?thesis by (simp add: dec_int_def)
  next
    case 2
    with eq minus [of "nat (- m)" "nat n"] show ?thesis by (simp add: dec_int_def)
  next
    case 3
    with eq minus [of "nat (- n)" "nat m"] show ?thesis by (simp add: dec_int_def)
  next
    case 4
    with eq dec_nat_inj [of "nat m" "nat n"] show ?thesis by (simp add: dec_int_def)
  qed
qed

subsection \<open>strings.Split\<close>

text \<open>\<open>strings.Split\<close> with a one-byte separator.\<close>

fun Split :: "string \<Rightarrow> char \<Rightarrow> string list" where
  "Split [] c = [[]]"
| "Split (x # xs) c = (if x = c then [] # Split xs c
     else (case Split xs c of [] \<Rightarrow> [[x]] | w # ws \<Rightarrow> (x # w) # ws))"

lemma Split_nonempty [simp]: "Split s c \<noteq> []"
  by (cases s) (auto split: list.splits)

lemma Split_no_sep: "c \<notin> set s \<Longrightarrow> Split s c = [s]"
  by (induction s) auto

lemma Split_append: "c \<notin> set n \<Longrightarrow> Split (n @ c # s) c = n # Split s c"
  by (induction n) auto

lemma Split_parts: "p \<in> set (Split s c) \<Longrightarrow> c \<notin> set p"
  by (induction s arbitrary: p) (auto split: if_splits list.splits)

lemma Split_lines: "\<forall>l \<in> set ls. c \<notin> set l \<Longrightarrow> Split (concat (map (\<lambda>l. l @ [c]) ls) @ s) c = ls @ Split s c"
  by (induction ls) (auto simp: Split_append)

subsection \<open>strings.TrimSpace\<close>

text \<open>
  White space as \<open>unicode.IsSpace\<close> has it, on the UTF-8 bytes: the six ASCII spaces, the
  two-byte encodings of U+0085 and U+00A0, and the three-byte encodings of the others.
\<close>

definition space1 :: "char \<Rightarrow> bool" where
  "space1 c \<longleftrightarrow> (of_char c :: nat) \<in> {9, 10, 11, 12, 13, 32}"

definition space2 :: "char \<Rightarrow> char \<Rightarrow> bool" where
  "space2 a b \<longleftrightarrow> (of_char a :: nat) = 194 \<and> (of_char b :: nat) \<in> {133, 160}"

definition space3 :: "char \<Rightarrow> char \<Rightarrow> char \<Rightarrow> bool" where
  "space3 a b c \<longleftrightarrow>
     (let x = (of_char a :: nat); y = (of_char b :: nat); z = (of_char c :: nat)
      in (x = 225 \<and> y = 154 \<and> z = 128)
       \<or> (x = 226 \<and> y = 128 \<and> (128 \<le> z \<and> z \<le> 138 \<or> z = 168 \<or> z = 169 \<or> z = 175))
       \<or> (x = 226 \<and> y = 129 \<and> z = 159)
       \<or> (x = 227 \<and> y = 128 \<and> z = 128))"

fun trim_with :: "(char \<Rightarrow> char \<Rightarrow> bool) \<Rightarrow> (char \<Rightarrow> char \<Rightarrow> char \<Rightarrow> bool) \<Rightarrow> string \<Rightarrow> string" where
  "trim_with p2 p3 [] = []"
| "trim_with p2 p3 (a # s) =
     (if space1 a then trim_with p2 p3 s
      else (case s of
        [] \<Rightarrow> [a]
      | b # s' \<Rightarrow>
          (if p2 a b then trim_with p2 p3 s'
           else (case s' of
             [] \<Rightarrow> [a, b]
           | c # s'' \<Rightarrow> (if p3 a b c then trim_with p2 p3 s'' else a # s)))))"

definition trim_space :: "string \<Rightarrow> string" where
  "trim_space s =
     rev (trim_with (\<lambda>a b. space2 b a) (\<lambda>a b c. space3 c b a)
           (rev (trim_with space2 space3 s)))"

end
