(* ===== verification/Supervisor.thy ===== *)
theory Supervisor
  imports Hades_Prelude "HOL-Library.Word"
begin

text \<open>
  The supervisor state machine of the orchestrator,
  \<^verbatim>\<open>src/internal/orchestrator/state_machine.go\<close>: the nine states, the transition
  table, \<open>Transition\<close> with its early returns, and the event each accepted transition
  appends to the event log.

  \<open>State\<close> is Go's \<open>uint8\<close>, so values outside the nine constants exist and are covered. A call
  of \<open>Transition\<close> runs under the mutex; what it takes from outside (the context error, the outcome
  of the appender, the clock) is the record \<open>sm_env\<close>, one per call.
\<close>

subsection \<open>States\<close>

type_synonym State = "8 word"

definition stateInvalid :: State where "stateInvalid = 0"
definition StateIdle :: State where "StateIdle = 1"
definition StateInitializing :: State where "StateInitializing = 2"
definition StateRunning :: State where "StateRunning = 3"
definition StateWaitingForConfirmation :: State where "StateWaitingForConfirmation = 4"
definition StateDegradedTier :: State where "StateDegradedTier = 5"
definition StateHardPaused :: State where "StateHardPaused = 6"
definition StateRecoveringFromReplay :: State where "StateRecoveringFromReplay = 7"
definition StateEmergencyTier :: State where "StateEmergencyTier = 8"
definition StateAborting :: State where "StateAborting = 9"

lemmas state_consts = stateInvalid_def StateIdle_def StateInitializing_def StateRunning_def
  StateWaitingForConfirmation_def StateDegradedTier_def StateHardPaused_def
  StateRecoveringFromReplay_def StateEmergencyTier_def StateAborting_def

definition State_String :: "State \<Rightarrow> string" where
  "State_String s =
     (if s = StateIdle then ''idle''
      else if s = StateInitializing then ''initializing''
      else if s = StateRunning then ''running''
      else if s = StateWaitingForConfirmation then ''waiting_for_confirmation''
      else if s = StateDegradedTier then ''degraded_tier''
      else if s = StateHardPaused then ''hard_paused''
      else if s = StateRecoveringFromReplay then ''recovering_from_replay''
      else if s = StateEmergencyTier then ''emergency_tier''
      else if s = StateAborting then ''aborting''
      else ''state('' @ dec_nat (unat s) @ '')'')"

datatype sm_error =
    ErrUnknownState string
  | ErrIllegalTransition State State
  | CtxCancelled string
  | AppendFailed string

definition ParseState :: "string \<Rightarrow> sm_error + State" where
  "ParseState s =
     (if s = ''idle'' then Inr StateIdle
      else if s = ''initializing'' then Inr StateInitializing
      else if s = ''running'' then Inr StateRunning
      else if s = ''waiting_for_confirmation'' then Inr StateWaitingForConfirmation
      else if s = ''degraded_tier'' then Inr StateDegradedTier
      else if s = ''hard_paused'' then Inr StateHardPaused
      else if s = ''recovering_from_replay'' then Inr StateRecoveringFromReplay
      else if s = ''emergency_tier'' then Inr StateEmergencyTier
      else if s = ''aborting'' then Inr StateAborting
      else Inl (ErrUnknownState s))"

definition ValidStates :: "State list" where
  "ValidStates =
     [StateIdle, StateInitializing, StateRunning, StateWaitingForConfirmation, StateDegradedTier,
      StateHardPaused, StateRecoveringFromReplay, StateEmergencyTier, StateAborting]"

subsection \<open>The transition table\<close>

definition TransitionTable :: "(State \<times> State list) list" where
  "TransitionTable =
     [(StateIdle, [StateInitializing]),
      (StateInitializing, [StateRunning, StateAborting]),
      (StateRunning,
        [StateWaitingForConfirmation, StateDegradedTier, StateHardPaused, StateEmergencyTier,
         StateAborting, StateIdle]),
      (StateWaitingForConfirmation, [StateRunning, StateDegradedTier, StateAborting]),
      (StateDegradedTier,
        [StateRunning, StateWaitingForConfirmation, StateHardPaused, StateEmergencyTier,
         StateAborting]),
      (StateHardPaused, [StateWaitingForConfirmation, StateAborting, StateRunning]),
      (StateEmergencyTier, [StateHardPaused, StateAborting, StateWaitingForConfirmation]),
      (StateRecoveringFromReplay,
        [StateRunning, StateDegradedTier, StateWaitingForConfirmation, StateAborting]),
      (StateAborting, [StateIdle])]"

definition ValidTransitionCount :: nat where
  "ValidTransitionCount = sum_list (map (\<lambda>(_, tos). length tos) TransitionTable)"

definition IsLegal :: "State \<Rightarrow> State \<Rightarrow> bool" where
  "IsLegal from to =
     (case map_of TransitionTable from of
        None \<Rightarrow> False
      | Some tos \<Rightarrow> to \<in> set tos)"

subsection \<open>The machine\<close>

record sm_event =
  ev_session :: string
  ev_project :: string
  ev_time :: time
  ev_from :: string
  ev_to :: string
  ev_reason :: string

record StateMachine =
  current :: State
  sessionID :: string
  projectID :: string
  app :: "sm_event list"

record sm_env =
  ctx_err :: "string option"
  now_v :: time
  append_err :: "string option"

text \<open>The constructor panics on an empty identifier; \<open>None\<close> is the panic.\<close>

definition NewStateMachine :: "sm_event list \<Rightarrow> string \<Rightarrow> string \<Rightarrow> StateMachine option" where
  "NewStateMachine log sid pid =
     (if sid = '''' then None
      else if pid = '''' then None
      else Some \<lparr>current = StateIdle, sessionID = sid, projectID = pid, app = log\<rparr>)"

definition Transition :: "sm_env \<Rightarrow> StateMachine \<Rightarrow> State \<Rightarrow> string \<Rightarrow> StateMachine \<times> sm_error option" where
  "Transition env sm to reason =
     (case ctx_err env of
        Some e \<Rightarrow> (sm, Some (CtxCancelled e))
      | None \<Rightarrow>
          let from = current sm in
          case map_of TransitionTable from of
            None \<Rightarrow> (sm, Some (ErrIllegalTransition from to))
          | Some tos \<Rightarrow>
              if to \<notin> set tos then (sm, Some (ErrIllegalTransition from to))
              else
                let ev = \<lparr>ev_session = sessionID sm, ev_project = projectID sm,
                          ev_time = now_v env, ev_from = State_String from,
                          ev_to = State_String to, ev_reason = reason\<rparr> in
                case append_err env of
                  Some e \<Rightarrow> (sm, Some (AppendFailed e))
                | None \<Rightarrow> (sm\<lparr>app := app sm @ [ev], current := to\<rparr>, None))"

inductive sm_step :: "StateMachine \<Rightarrow> StateMachine \<Rightarrow> bool" where
  call: "sm_step sm (fst (Transition env sm to reason))"

inductive_cases sm_stepE: "sm_step sm sm'"

definition sm_init :: "StateMachine \<Rightarrow> bool" where
  "sm_init sm \<longleftrightarrow> (\<exists>sid pid. NewStateMachine [] sid pid = Some sm)"

subsection \<open>Abstract specification: the log replays to the current state\<close>

text \<open>
  What the supervisor promises its recovery path: parsing the logged events and following them from
  \<open>Idle\<close> along legal edges only ends in the current state.
\<close>

fun replay :: "State \<Rightarrow> sm_event list \<Rightarrow> State option" where
  "replay s [] = Some s"
| "replay s (e # es) =
     (case (ParseState (ev_from e), ParseState (ev_to e)) of
        (Inr a, Inr b) \<Rightarrow> if a = s \<and> IsLegal a b then replay b es else None
      | _ \<Rightarrow> None)"

definition sm_inv :: "StateMachine \<Rightarrow> bool" where
  "sm_inv sm \<longleftrightarrow>
     replay StateIdle (app sm) = Some (current sm)
     \<and> current sm \<in> set ValidStates
     \<and> current sm \<noteq> StateRecoveringFromReplay
     \<and> (\<forall>e \<in> set (app sm). ev_session e = sessionID sm \<and> ev_project e = projectID sm)"

subsection \<open>Lemmas\<close>

lemma Parse_String: "s \<in> set ValidStates \<Longrightarrow> ParseState (State_String s) = Inr s"
  by (auto simp: ValidStates_def ParseState_def State_String_def state_consts)

lemma ParseState_InrD: "ParseState str = Inr s \<Longrightarrow> s \<in> set ValidStates \<and> State_String s = str"
  by (auto simp: ValidStates_def ParseState_def State_String_def state_consts split: if_splits)

lemma IsLegalE:
  assumes "IsLegal a b"
  shows "a \<in> set ValidStates \<and> b \<in> set ValidStates \<and> b \<noteq> StateRecoveringFromReplay \<and> a \<noteq> b"
  using assms
  by (auto simp: IsLegal_def TransitionTable_def ValidStates_def state_consts
      split: if_splits)

lemma IsLegal_iff: "IsLegal a b \<longleftrightarrow> (\<exists>tos. (a, tos) \<in> set TransitionTable \<and> b \<in> set tos)"
proof -
  have "distinct (map fst TransitionTable)" by (simp add: TransitionTable_def state_consts)
  then have "(a, tos) \<in> set TransitionTable \<longleftrightarrow> map_of TransitionTable a = Some tos" for tos
    by (simp add: map_of_eq_Some_iff)
  then show ?thesis by (simp add: IsLegal_def split: option.splits)
qed

lemma replay_append:
  "replay s (xs @ [e]) =
     (case replay s xs of None \<Rightarrow> None
      | Some m \<Rightarrow> (case (ParseState (ev_from e), ParseState (ev_to e)) of
          (Inr a, Inr b) \<Rightarrow> if a = m \<and> IsLegal a b then Some b else None
        | _ \<Rightarrow> None))"
  by (induction xs arbitrary: s) (auto split: option.splits sum.splits)

lemma Transition_cases:
  "Transition env sm to reason =
     (if ctx_err env \<noteq> None then (sm, Some (CtxCancelled (the (ctx_err env))))
      else if \<not> IsLegal (current sm) to then (sm, Some (ErrIllegalTransition (current sm) to))
      else if append_err env \<noteq> None then (sm, Some (AppendFailed (the (append_err env))))
      else (sm\<lparr>app := app sm @
              [\<lparr>ev_session = sessionID sm, ev_project = projectID sm, ev_time = now_v env,
                ev_from = State_String (current sm), ev_to = State_String to,
                ev_reason = reason\<rparr>], current := to\<rparr>, None))"
  by (auto simp: Transition_def IsLegal_def Let_def split: option.splits)

lemma sm_inv_init: "sm_init sm \<Longrightarrow> sm_inv sm"
  by (auto simp: sm_init_def NewStateMachine_def sm_inv_def ValidStates_def state_consts
      split: if_splits)

lemma sm_inv_step:
  assumes "sm_inv sm" and "sm_step sm sm'"
  shows "sm_inv sm'"
proof -
  from assms(2) obtain env to reason where sm': "sm' = fst (Transition env sm to reason)"
    by (rule sm_stepE)
  show ?thesis
  proof (cases "ctx_err env = None \<and> IsLegal (current sm) to \<and> append_err env = None")
    case False
    then have "sm' = sm" by (auto simp: sm' Transition_cases)
    with assms(1) show ?thesis by simp
  next
    case True
    then have legal: "IsLegal (current sm) to" by simp
    from IsLegalE [OF legal] True assms(1) show ?thesis
      by (simp add: sm' Transition_cases sm_inv_def replay_append Parse_String)
  qed
qed

interpretation supervisor: safety sm_init sm_step sm_inv
  by unfold_locales (auto intro: sm_inv_init sm_inv_step)

subsection \<open>Properties\<close>

text \<open>C3: in every reachable supervisor, the event log replays from \<open>idle\<close> through legal
  transitions to exactly the current state, which is one of the nine valid states and never
  \<open>recovering_from_replay\<close> (entered only by the restart path), and every event carries the
  machine's identifiers.\<close>

theorem supervisor_log_replays_to_current:
  assumes "reach sm_init sm_step sm"
  shows "replay StateIdle (app sm) = Some (current sm)
    \<and> current sm \<in> set ValidStates \<and> current sm \<noteq> StateRecoveringFromReplay
    \<and> (\<forall>e \<in> set (app sm). ev_session e = sessionID sm \<and> ev_project e = projectID sm)"
  using supervisor.reach_inv [OF assms] by (simp add: sm_inv_def)

definition sm_demo :: StateMachine where
  "sm_demo = \<lparr>current = StateIdle, sessionID = ''s'', projectID = ''p'', app = []\<rparr>"

definition env_ok :: sm_env where
  "env_ok = \<lparr>ctx_err = None, now_v = 7, append_err = None\<rparr>"

lemma sm_demo_reach:
  "reach sm_init sm_step (fst (Transition env_ok sm_demo StateInitializing ''go''))"
proof -
  have "sm_init sm_demo"
    unfolding sm_init_def
    by (intro exI [of _ "''s''"] exI [of _ "''p''"]) (simp add: NewStateMachine_def sm_demo_def)
  then show ?thesis by (rule reach_step [OF reach_init]) (rule sm_step.call)
qed

theorem supervisor_log_replays_to_current_witness:
  "replay StateIdle (app (fst (Transition env_ok sm_demo StateInitializing ''go'')))
     = Some (current (fst (Transition env_ok sm_demo StateInitializing ''go'')))"
  using supervisor_log_replays_to_current [OF sm_demo_reach] by simp

text \<open>A rejected transition (cancelled context, an edge not in the table, a failing
  appender) changes neither the state nor the log, and a transition is accepted exactly when
  the context is live, the edge is legal and the append succeeds; then it appends one event and
  moves to the target.\<close>

lemma Transition_all_or_nothing:
  "(snd (Transition env sm to reason) = None \<longleftrightarrow>
      ctx_err env = None \<and> IsLegal (current sm) to \<and> append_err env = None)
   \<and> fst (Transition env sm to reason) =
      (if snd (Transition env sm to reason) = None
       then sm\<lparr>current := to,
               app := app sm @ [\<lparr>ev_session = sessionID sm, ev_project = projectID sm,
                 ev_time = now_v env, ev_from = State_String (current sm),
                 ev_to = State_String to, ev_reason = reason\<rparr>]\<rparr>
       else sm)"
  by (auto simp: Transition_cases)

text \<open>The textual state names round-trip: \<open>ParseState\<close> accepts exactly the nine names
  \<open>String\<close> prints for valid states, and inverts it.\<close>

lemma ParseState_inverts_String:
  "ParseState str = Inr s \<longleftrightarrow> s \<in> set ValidStates \<and> str = State_String s"
  using Parse_String ParseState_InrD by fastforce

text \<open>The table holds exactly the 28 documented transitions, none a self-loop and none
  into \<open>recovering_from_replay\<close>; every state that is not idle or already aborting can abort in one
  step, and aborting returns to idle.\<close>

lemma TransitionTable_shape:
  "ValidTransitionCount = 28
   \<and> card {(a, b). IsLegal a b} = 28
   \<and> (\<forall>a. \<not> IsLegal a a) \<and> (\<forall>a. \<not> IsLegal a StateRecoveringFromReplay)
   \<and> (\<forall>s. IsLegal s StateAborting \<longleftrightarrow> s \<in> set ValidStates - {StateIdle, StateAborting})
   \<and> (\<forall>s. IsLegal StateAborting s \<longleftrightarrow> s = StateIdle)"
proof -
  have set_eq: "{(a, b). IsLegal a b} =
      set (concat (map (\<lambda>(a, bs). map (Pair a) bs) TransitionTable))"
    by (force simp: IsLegal_iff)
  have "card {(a, b). IsLegal a b} = 28"
    unfolding set_eq by (simp add: TransitionTable_def state_consts)
  moreover have "ValidTransitionCount = 28"
    by (simp add: ValidTransitionCount_def TransitionTable_def)
  moreover have "IsLegal s StateAborting \<longleftrightarrow> s \<in> set ValidStates - {StateIdle, StateAborting}" for s
    by (auto simp: IsLegal_def TransitionTable_def ValidStates_def state_consts split: if_splits)
  moreover have "IsLegal StateAborting s \<longleftrightarrow> s = StateIdle" for s
    by (auto simp: IsLegal_def TransitionTable_def state_consts)
  ultimately show ?thesis using IsLegalE by blast
qed

end
