(* ===== verification/Go_Float.thy ===== *)
theory Go_Float
  imports Hades_Prelude Complex_Main
begin

text \<open>
  Go's \<open>float64\<close> (IEEE 754 binary64, round to nearest, ties to even) as an executable type: a
  finite value is the rational number it denotes, and every operation rounds the exact result. The
  sign of a zero is not kept (the modelled code never divides by a zero and never prints one). The
  lemmas are the ones the fair queue, the budget gate and the scorer rest on: rounding is monotone
  and is the identity on representable numbers.
\<close>

datatype f64 = NaN | Inf bool | Fin rat

subsection \<open>Binary logarithm\<close>

fun blen :: "nat \<Rightarrow> nat" where
  "blen n = (if n = 0 then 0 else Suc (blen (n div 2)))"

declare blen.simps [simp del]

definition lg :: "rat \<Rightarrow> int" where
  "lg q =
     (case quotient_of q of (n, d) \<Rightarrow>
        let e = int (blen (nat n)) - int (blen (nat d))
        in if 2 powi e \<le> q then e else e - 1)"

lemma blen_bounds: "0 < n \<Longrightarrow> 0 < blen n \<and> 2 ^ (blen n - 1) \<le> n \<and> n < 2 ^ blen n"
proof (induction n rule: blen.induct)
  case (1 n)
  show ?case
  proof (cases "n div 2 = 0")
    case True
    with "1.prems" have "n = 1" by auto
    then show ?thesis by (simp add: blen.simps)
  next
    case False
    with "1.IH" "1.prems" have ih: "0 < blen (n div 2)" "2 ^ (blen (n div 2) - 1) \<le> n div 2"
      "n div 2 < 2 ^ blen (n div 2)" by auto
    obtain k where k: "blen (n div 2) = Suc k" using ih(1) gr0_conv_Suc by blast
    have two: "2 * (n div 2) \<le> n" "n < 2 * (n div 2) + 2" by presburger+
    have "blen n = Suc (Suc k)" using "1.prems" k by (simp add: blen.simps [of n])
    moreover have "2 ^ k \<le> n div 2" "n div 2 < 2 ^ Suc k" using ih k by simp_all
    ultimately show ?thesis using two by auto
  qed
qed

lemma powi_le_iff [simp]: "(2 :: rat) powi a \<le> 2 powi b \<longleftrightarrow> a \<le> b"
  using power_int_strict_increasing [of b a "2 :: rat"] power_int_increasing [of a b "2 :: rat"]
  by (auto simp: not_le [symmetric])

lemma powi_mult: "(2 :: rat) powi a * 2 powi b = 2 powi (a + b)"
  by (simp add: power_int_add)

lemma powi_pos [simp]: "0 < (2 :: rat) powi a"
  by simp

lemma lg_bounds:
  assumes "0 < q"
  shows "2 powi lg q \<le> q \<and> q < 2 powi (lg q + 1)"
proof -
  obtain n d where nd: "quotient_of q = (n, d)" by (cases "quotient_of q")
  have d: "0 < d" and q: "q = of_int n / of_int d"
    using nd quotient_of_denom_pos quotient_of_div by blast+
  with assms have n: "0 < n" by (simp add: zero_less_divide_iff)
  let ?a = "blen (nat n)" and ?b = "blen (nat d)"
  have nb: "0 < ?a" "2 ^ (?a - 1) \<le> nat n" "nat n < 2 ^ ?a" using blen_bounds [of "nat n"] n by auto
  have db: "0 < ?b" "2 ^ (?b - 1) \<le> nat d" "nat d < 2 ^ ?b" using blen_bounds [of "nat d"] d by auto
  have N: "2 powi (int ?a - 1) \<le> (of_int n :: rat)" "(of_int n :: rat) < 2 powi int ?a"
  proof -
    have "(of_nat (2 ^ (?a - 1)) :: rat) \<le> of_nat (nat n)" "(of_nat (nat n) :: rat) < of_nat (2 ^ ?a)"
      using nb by (simp_all only: of_nat_le_iff of_nat_less_iff)
    then show "2 powi (int ?a - 1) \<le> (of_int n :: rat)" "(of_int n :: rat) < 2 powi int ?a"
      using n nb(1) by (simp_all add: power_int_def nat_diff_distrib)
  qed
  have D: "2 powi (int ?b - 1) \<le> (of_int d :: rat)" "(of_int d :: rat) < 2 powi int ?b"
  proof -
    have "(of_nat (2 ^ (?b - 1)) :: rat) \<le> of_nat (nat d)" "(of_nat (nat d) :: rat) < of_nat (2 ^ ?b)"
      using db by (simp_all only: of_nat_le_iff of_nat_less_iff)
    then show "2 powi (int ?b - 1) \<le> (of_int d :: rat)" "(of_int d :: rat) < 2 powi int ?b"
      using d db(1) by (simp_all add: power_int_def nat_diff_distrib)
  qed
  let ?e = "int ?a - int ?b"
  have "(2 :: rat) powi (?e - 1) * of_int d \<le> 2 powi (?e - 1) * 2 powi int ?b"
    using D(2) by (intro mult_left_mono) auto
  also have "\<dots> = 2 powi (int ?a - 1)" by (simp only: powi_mult) simp
  also have "\<dots> \<le> of_int n" by (rule N)
  finally have lo: "2 powi (?e - 1) \<le> q" using d by (simp add: q pos_le_divide_eq)
  have "(of_int n :: rat) < 2 powi int ?a" by (rule N)
  also have "\<dots> = 2 powi (?e + 1) * 2 powi (int ?b - 1)" by (simp only: powi_mult) simp
  also have "\<dots> \<le> 2 powi (?e + 1) * of_int d" using D(1) by (intro mult_left_mono) auto
  finally have hi: "q < 2 powi (?e + 1)" using d by (simp add: q pos_divide_less_eq)
  show ?thesis using lo hi by (auto simp: lg_def nd Let_def)
qed

lemma lg_mono: "0 < a \<Longrightarrow> a \<le> b \<Longrightarrow> lg a \<le> lg b"
proof -
  assume "0 < a" "a \<le> b"
  then have "(2 :: rat) powi lg a < 2 powi (lg b + 1)"
    using lg_bounds [of a] lg_bounds [of b] by linarith
  then have "lg a < lg b + 1" by (metis not_less powi_le_iff)
  then show ?thesis by simp
qed

lemma lg_le: "0 < q \<Longrightarrow> q < 2 powi k \<Longrightarrow> lg q < k"
  using lg_bounds [of q] by (metis le_less_trans not_less powi_le_iff)

lemma lg_powi [simp]: "lg (2 powi k) = k"
proof -
  have a: "2 powi lg (2 powi k) \<le> (2::rat) powi k" "(2::rat) powi k < 2 powi (lg (2 powi k) + 1)"
    using lg_bounds [of "2 powi k"] by auto
  from a(1) have "lg (2 powi k) \<le> k" by (simp only: powi_le_iff)
  moreover from a(2) have "k < lg (2 powi k) + 1" by (metis not_less powi_le_iff)
  ultimately show ?thesis by simp
qed

subsection \<open>Rounding\<close>

definition rhe :: "rat \<Rightarrow> int" where
  "rhe x =
     (let f = \<lfloor>x\<rfloor>; r = x - of_int f
      in if r < 1 / 2 then f else if 1 / 2 < r then f + 1 else if even f then f else f + 1)"

definition ulp_exp :: "rat \<Rightarrow> int" where
  "ulp_exp q = max (lg q - 52) (- 1074)"

definition rnd_pos :: "rat \<Rightarrow> rat" where
  "rnd_pos q = of_int (rhe (q / 2 powi ulp_exp q)) * 2 powi ulp_exp q"

definition rnd :: "rat \<Rightarrow> rat" where
  "rnd q = (if q = 0 then 0 else if q < 0 then - rnd_pos (- q) else rnd_pos q)"

lemma rhe_of_int [simp]: "rhe (of_int n) = n"
  by (simp add: rhe_def)

lemma rhe_bounds: "\<lfloor>x\<rfloor> \<le> rhe x \<and> rhe x \<le> \<lfloor>x\<rfloor> + 1"
  by (simp add: rhe_def Let_def)

lemma rhe_mono:
  assumes "x \<le> y"
  shows "rhe x \<le> rhe y"
proof (cases "\<lfloor>x\<rfloor> = \<lfloor>y\<rfloor>")
  case True
  with assms show ?thesis by (auto simp: rhe_def Let_def)
next
  case False
  with floor_mono [OF assms] rhe_bounds [of x] rhe_bounds [of y] show ?thesis by linarith
qed

lemma rnd_pos_mono:
  assumes "0 < a" and "a \<le> b"
  shows "rnd_pos a \<le> rnd_pos b"
proof (cases "ulp_exp a = ulp_exp b")
  case True
  have "rhe (a / 2 powi ulp_exp b) \<le> rhe (b / 2 powi ulp_exp b)"
    using assms(2) by (intro rhe_mono divide_right_mono) auto
  then show ?thesis using True by (simp add: rnd_pos_def)
next
  case False
  with lg_mono [OF assms] have ub: "ulp_exp b = lg b - 52" and less: "ulp_exp a < lg b - 52"
    and lg: "lg a + 1 \<le> lg b"
    by (auto simp: ulp_exp_def)
  let ?k = "nat (lg b - ulp_exp a)"
  have k: "(2 :: rat) powi (lg b) / 2 powi ulp_exp a = of_int (2 ^ ?k)"
  proof -
    have "(2 :: rat) powi (lg b) / 2 powi ulp_exp a = 2 powi (lg b - ulp_exp a)"
      by (simp add: power_int_diff)
    also have "\<dots> = of_int (2 ^ ?k)" using less by (simp add: power_int_def)
    finally show ?thesis .
  qed
  have "a \<le> 2 powi lg b"
    using lg_bounds [OF assms(1)] lg powi_le_iff [of "lg a + 1" "lg b"] by linarith
  then have "rhe (a / 2 powi ulp_exp a) \<le> rhe (of_int (2 ^ ?k))"
    unfolding k [symmetric] by (intro rhe_mono divide_right_mono) auto
  then have "of_int (rhe (a / 2 powi ulp_exp a)) \<le> (of_int (2 ^ ?k) :: rat)"
    by (simp only: rhe_of_int of_int_le_iff)
  then have "rnd_pos a \<le> of_int (2 ^ ?k) * 2 powi ulp_exp a"
    unfolding rnd_pos_def by (rule mult_right_mono) simp
  also have "\<dots> = 2 powi lg b" unfolding k [symmetric] by simp
  also have "2 powi lg b = of_int (2 ^ 52) * (2 :: rat) powi ulp_exp b"
    unfolding ub by (simp add: power_int_diff)
  also have "\<dots> \<le> rnd_pos b"
  proof -
    have "b / 2 powi ulp_exp b \<ge> of_int (2 ^ 52)"
      using lg_bounds [of b] assms by (simp add: ub power_int_diff pos_le_divide_eq)
    then have "rhe (of_int (2 ^ 52)) \<le> rhe (b / 2 powi ulp_exp b)" by (rule rhe_mono)
    then have "(of_int (2 ^ 52) :: rat) \<le> of_int (rhe (b / 2 powi ulp_exp b))"
      by (simp only: rhe_of_int of_int_le_iff)
    then show ?thesis unfolding rnd_pos_def by (rule mult_right_mono) simp
  qed
  finally show ?thesis .
qed

lemma rnd_pos_nonneg: "0 < a \<Longrightarrow> 0 \<le> rnd_pos a"
  using rhe_mono [of 0 "a / 2 powi ulp_exp a"] rhe_of_int [of 0]
  by (simp add: rnd_pos_def)

lemma rnd_mono: "a \<le> b \<Longrightarrow> rnd a \<le> rnd b"
  using rnd_pos_mono [of a b] rnd_pos_mono [of "- b" "- a"]
    rnd_pos_nonneg [of b] rnd_pos_nonneg [of "- a"] by (auto simp: rnd_def)

lemma rnd_0 [simp]: "rnd 0 = 0"
  by (simp add: rnd_def)

lemma rnd_minus: "rnd (- q) = - rnd q"
  by (simp add: rnd_def)

text \<open>A multiple of its own unit in the last place, or of a coarser one, is exact.\<close>

lemma rnd_pos_exact:
  assumes "0 < q" and "q = of_int m * 2 powi k" and "ulp_exp q \<le> k"
  shows "rnd_pos q = q"
proof -
  have "q / 2 powi ulp_exp q = of_int m * 2 powi (k - ulp_exp q)"
    using assms(2) by (simp add: power_int_diff)
  also have "\<dots> = of_int (m * 2 ^ nat (k - ulp_exp q))"
    using assms(3) by (simp add: power_int_def)
  finally have "rhe (q / 2 powi ulp_exp q) = m * 2 ^ nat (k - ulp_exp q)"
    by (simp only: rhe_of_int)
  then have "rnd_pos q = of_int m * (2 ^ nat (k - ulp_exp q) * 2 powi ulp_exp q)"
    by (simp add: rnd_pos_def)
  also have "(2 :: rat) ^ nat (k - ulp_exp q) = 2 powi (k - ulp_exp q)"
    using assms(3) by (simp add: power_int_def)
  finally show ?thesis using assms(2) by (simp only: powi_mult) simp
qed

lemma rnd_of_int:
  assumes "\<bar>n\<bar> \<le> 2 ^ 53"
  shows "rnd (of_int n) = of_int n"
proof -
  have pos: "rnd_pos (of_int m) = of_int m" if m: "0 < m" "m \<le> 2 ^ 53" for m
  proof (cases "m = 2 ^ 53")
    case True
    then have "lg (of_int m) = 53" using lg_powi [of 53] by simp
    then show ?thesis using True rnd_pos_exact [of "of_int m" 1 53] by (simp add: ulp_exp_def)
  next
    case False
    with m have "(of_int m :: rat) < of_int (2 ^ 53)" by (simp only: of_int_less_iff)
    then have "lg (of_int m) < 53" using m(1) by (intro lg_le) auto
    then show ?thesis using rnd_pos_exact [of "of_int m" m 0] m by (simp add: ulp_exp_def)
  qed
  show ?thesis using pos [of n] pos [of "- n"] assms by (auto simp: rnd_def)
qed

lemma rhe_pow: "q < 2 powi (ulp_exp q + 53) \<Longrightarrow> rhe (q / 2 powi ulp_exp q) \<le> 2 ^ 53"
proof -
  assume "q < 2 powi (ulp_exp q + 53)"
  then have "q / 2 powi ulp_exp q \<le> of_int (2 ^ 53)"
    by (simp add: pos_divide_le_eq power_int_add mult.commute)
  then have "rhe (q / 2 powi ulp_exp q) \<le> rhe (of_int (2 ^ 53))" by (rule rhe_mono)
  then show ?thesis by (simp only: rhe_of_int)
qed

lemma rnd_pos_idem:
  assumes "0 < q" and "rnd_pos q \<noteq> 0"
  shows "rnd_pos (rnd_pos q) = rnd_pos q"
proof -
  let ?u = "ulp_exp q" and ?m = "rhe (q / 2 powi ulp_exp q)"
  have r: "rnd_pos q = of_int ?m * 2 powi ?u" by (simp add: rnd_pos_def)
  have pos: "0 < rnd_pos q" using rnd_pos_nonneg [OF assms(1)] assms(2) by simp
  have "2 powi (lg q + 1) \<le> (2 :: rat) powi (?u + 53)" by (simp only: powi_le_iff) (simp add: ulp_exp_def)
  then have "?m \<le> 2 ^ 53" using lg_bounds [OF assms(1)] by (intro rhe_pow) linarith
  then consider "?m = 2 ^ 53" | "?m < 2 ^ 53" by linarith
  then show ?thesis
  proof cases
    case 1
    have "of_int (2 ^ 53) = (2 :: rat) powi 53" by simp
    then have p: "rnd_pos q = 2 powi (53 + ?u)" unfolding r 1 by (simp only: powi_mult)
    have "ulp_exp (rnd_pos q) \<le> 53 + ?u"
      unfolding p ulp_exp_def [of "2 powi (53 + ulp_exp q)"] lg_powi by (simp add: ulp_exp_def)
    then show ?thesis using rnd_pos_exact [OF pos, of 1 "53 + ?u"] p by simp
  next
    case 2
    then have "(of_int ?m :: rat) < of_int (2 ^ 53)" by (simp only: of_int_less_iff)
    then have "rnd_pos q < of_int (2 ^ 53) * 2 powi ?u"
      unfolding r by (rule mult_strict_right_mono) simp
    also have "\<dots> = 2 powi (?u + 53)" by (simp add: power_int_add)
    finally have "lg (rnd_pos q) < ?u + 53" by (rule lg_le [OF pos])
    then have "ulp_exp (rnd_pos q) \<le> ?u" by (simp add: ulp_exp_def)
    then show ?thesis using rnd_pos_exact [OF pos r] by simp
  qed
qed

lemma rnd_idem [simp]: "rnd (rnd q) = rnd q"
  using rnd_pos_idem [of q] rnd_pos_idem [of "- q"] rnd_pos_nonneg [of q] rnd_pos_nonneg [of "- q"]
  by (auto simp: rnd_def)

subsection \<open>Operations\<close>

definition f_round :: "rat \<Rightarrow> f64" where
  "f_round q =
     (let r = rnd q in if 2 ^ 1024 \<le> r then Inf True else if r \<le> - (2 ^ 1024) then Inf False else Fin r)"

definition f_of_int :: "int \<Rightarrow> f64" where
  "f_of_int n = f_round (of_int n)"

fun f_neg :: "f64 \<Rightarrow> f64" where
  "f_neg NaN = NaN"
| "f_neg (Inf s) = Inf (\<not> s)"
| "f_neg (Fin q) = Fin (- q)"

fun f_add :: "f64 \<Rightarrow> f64 \<Rightarrow> f64" where
  "f_add NaN _ = NaN"
| "f_add _ NaN = NaN"
| "f_add (Inf s) (Inf t) = (if s = t then Inf s else NaN)"
| "f_add (Inf s) (Fin _) = Inf s"
| "f_add (Fin _) (Inf s) = Inf s"
| "f_add (Fin a) (Fin b) = f_round (a + b)"

definition f_sub :: "f64 \<Rightarrow> f64 \<Rightarrow> f64" where
  "f_sub x y = f_add x (f_neg y)"

fun f_mul :: "f64 \<Rightarrow> f64 \<Rightarrow> f64" where
  "f_mul NaN _ = NaN"
| "f_mul _ NaN = NaN"
| "f_mul (Inf s) (Inf t) = Inf (s = t)"
| "f_mul (Inf s) (Fin b) = (if b = 0 then NaN else Inf (s = (0 < b)))"
| "f_mul (Fin a) (Inf s) = (if a = 0 then NaN else Inf (s = (0 < a)))"
| "f_mul (Fin a) (Fin b) = f_round (a * b)"

fun f_div :: "f64 \<Rightarrow> f64 \<Rightarrow> f64" where
  "f_div NaN _ = NaN"
| "f_div _ NaN = NaN"
| "f_div (Inf s) (Inf t) = NaN"
| "f_div (Inf s) (Fin b) = Inf (s = (0 \<le> b))"
| "f_div (Fin a) (Inf s) = Fin 0"
| "f_div (Fin a) (Fin b) = (if b = 0 then if a = 0 then NaN else Inf (0 < a) else f_round (a / b))"

fun f_lt :: "f64 \<Rightarrow> f64 \<Rightarrow> bool" where
  "f_lt NaN _ = False"
| "f_lt _ NaN = False"
| "f_lt (Inf s) (Inf t) = (\<not> s \<and> t)"
| "f_lt (Inf s) (Fin _) = (\<not> s)"
| "f_lt (Fin _) (Inf t) = t"
| "f_lt (Fin a) (Fin b) = (a < b)"

fun f_le :: "f64 \<Rightarrow> f64 \<Rightarrow> bool" where
  "f_le NaN _ = False"
| "f_le _ NaN = False"
| "f_le (Inf s) (Inf t) = (\<not> s \<or> t)"
| "f_le (Inf s) (Fin _) = (\<not> s)"
| "f_le (Fin _) (Inf t) = t"
| "f_le (Fin a) (Fin b) = (a \<le> b)"

text \<open>The values a \<open>float64\<close> variable can hold.\<close>

fun f_ok :: "f64 \<Rightarrow> bool" where
  "f_ok (Fin q) = (rnd q = q \<and> \<bar>q\<bar> < 2 ^ 1024)"
| "f_ok _ = True"

lemma f_ok_round [simp]: "f_ok (f_round q)"
  by (auto simp: f_round_def Let_def abs_if)

lemma f_round_not_NaN [simp]: "f_round q \<noteq> NaN"
  by (simp add: f_round_def Let_def)

lemma f_round_id: "f_ok (Fin q) \<Longrightarrow> f_round q = Fin q"
  by (auto simp: f_round_def Let_def abs_if split: if_splits)

lemma f_round_mono: "a \<le> b \<Longrightarrow> f_le (f_round a) (f_round b)"
  using rnd_mono [of a b] by (auto simp: f_round_def Let_def)

lemma f_le_refl [simp]: "x \<noteq> NaN \<Longrightarrow> f_le x x"
  by (cases x) auto

lemma f_le_trans: "f_le x y \<Longrightarrow> f_le y z \<Longrightarrow> f_le x z"
  by (cases x; cases y; cases z) auto

lemma f_le_not_NaN: "f_le x y \<Longrightarrow> x \<noteq> NaN \<and> y \<noteq> NaN"
  by (cases x; cases y) auto

lemma f_lt_le: "x \<noteq> NaN \<Longrightarrow> y \<noteq> NaN \<Longrightarrow> f_lt x y \<longleftrightarrow> \<not> f_le y x"
  by (cases x; cases y) auto

lemma f_le_linear: "x \<noteq> NaN \<Longrightarrow> y \<noteq> NaN \<Longrightarrow> f_le x y \<or> f_le y x"
  by (cases x; cases y) auto

lemma f_lt_imp_le: "f_lt x y \<Longrightarrow> f_le x y"
  by (cases x; cases y) auto

lemma f_le_antisym: "f_le x y \<Longrightarrow> f_le y x \<Longrightarrow> x = y"
  by (cases x; cases y) auto

text \<open>Integers up to 2 to the 53 are exact.\<close>

lemma f_of_int_small: "\<bar>n\<bar> \<le> 2 ^ 53 \<Longrightarrow> f_of_int n = Fin (of_int n)"
proof -
  assume a: "\<bar>n\<bar> \<le> 2 ^ 53"
  then have "\<bar>of_int n :: rat\<bar> \<le> of_int (2 ^ 53)" by (metis of_int_abs of_int_le_iff)
  then have "\<bar>of_int n :: rat\<bar> \<le> 2 ^ 53" by simp
  then have "\<bar>of_int n :: rat\<bar> < 2 ^ 1024" by (rule le_less_trans) (simp add: power_strict_increasing)
  with rnd_of_int [OF a] have "f_ok (Fin (of_int n))" by (simp only: f_ok.simps simp_thms)
  then show ?thesis unfolding f_of_int_def by (rule f_round_id)
qed

text \<open>Adding a non-negative amount never decreases a float.\<close>

lemma f_add_ge:
  assumes "f_ok x" and "f_le (Fin 0) d" and "x \<noteq> NaN" and "x \<noteq> Inf False"
  shows "f_le x (f_add x d)"
proof (cases x)
  case (Fin a)
  show ?thesis
  proof (cases d)
    case (Fin b)
    with assms \<open>x = Fin a\<close> have "f_le (f_round a) (f_round (a + b))"
      by (intro f_round_mono) simp
    then show ?thesis using Fin \<open>x = Fin a\<close> assms(1) f_round_id [of a] by simp
  qed (use assms Fin in auto)
qed (use assms in \<open>cases d; auto\<close>)+

lemma f_div_nonneg: "f_lt (Fin 0) x \<Longrightarrow> f_lt (Fin 0) y \<Longrightarrow> y \<noteq> Inf True \<Longrightarrow> f_le (Fin 0) (f_div x y)"
  using f_round_mono [of 0] f_round_id [of 0] by (cases x; cases y) auto

lemma rnd_powi:
  assumes "- 1074 \<le> k"
  shows "rnd (2 powi k) = 2 powi k"
proof -
  have "ulp_exp (2 powi k) \<le> k" using assms by (simp add: ulp_exp_def)
  then have "rnd_pos (2 powi k) = 2 powi k" by (intro rnd_pos_exact [of _ 1 k]) auto
  moreover have "\<not> (2 :: rat) powi k < 0" "(2 :: rat) powi k \<noteq> 0"
    using powi_pos [of k] by (simp_all only: not_less less_imp_le)
  ultimately show ?thesis by (simp add: rnd_def)
qed

end
