(* ===== verification/Quota.thy ===== *)
theory Quota
  imports Go_Float
begin

text \<open>
  The three quota layers of \<^verbatim>\<open>src/internal/quota\<close>: cap classification and thresholds
  (quota.go), the weighted fair queue (wfq.go), operator overrides (override.go), the starvation
  detector (starvation.go) and the pre-flight decision that combines them (preflight.go).

  A Go map is a partial function; where the code ranges over one, the iteration order is an
  argument. The free-text \<open>Reason\<close> of a decision is kept as the list of its structured fragments.
\<close>

subsection \<open>Thresholds (quota.go)\<close>

datatype Mode = ModeWarnOnly | ModeSoftHard | ModeExtraMargin

record Thresholds =
  SoftCapPct :: int
  HardCapPct :: int
  th_Mode :: Mode

definition NameMaxScope :: string where "NameMaxScope = ''max-scope''"
definition NameDefault :: string where "NameDefault = ''default''"
definition NameCapaFirewall :: string where "NameCapaFirewall = ''capa-firewall''"

definition DoctrineDefaults :: "string \<Rightarrow> Thresholds" where
  "DoctrineDefaults d =
     (if d = NameMaxScope then \<lparr>SoftCapPct = 80, HardCapPct = 100, th_Mode = ModeWarnOnly\<rparr>
      else if d = NameCapaFirewall then \<lparr>SoftCapPct = 80, HardCapPct = 95, th_Mode = ModeExtraMargin\<rparr>
      else if d = NameDefault then \<lparr>SoftCapPct = 80, HardCapPct = 100, th_Mode = ModeSoftHard\<rparr>
      else \<lparr>SoftCapPct = 80, HardCapPct = 100, th_Mode = ModeSoftHard\<rparr>)"

record ProjectQuotaOverride =
  po_SoftCapPct :: int
  po_HardCapPct :: int

definition validProjectQuotaOverride :: "ProjectQuotaOverride \<Rightarrow> bool" where
  "validProjectQuotaOverride v =
     (if po_SoftCapPct v < 1 \<or> po_SoftCapPct v > 100 then False
      else if po_HardCapPct v < 1 \<or> po_HardCapPct v > 100 then False
      else if po_SoftCapPct v > po_HardCapPct v then False
      else True)"

definition ResolveThresholds :: "string \<Rightarrow> ProjectQuotaOverride option \<Rightarrow> Thresholds" where
  "ResolveThresholds d override =
     (let base = DoctrineDefaults d in
      case override of
        None \<Rightarrow> base
      | Some v \<Rightarrow>
          if \<not> validProjectQuotaOverride v then base
          else \<lparr>SoftCapPct = po_SoftCapPct v, HardCapPct = po_HardCapPct v, th_Mode = th_Mode base\<rparr>)"

datatype CapStatus = CapStatusOK | CapStatusSoftWarn | CapStatusHardDeny | CapStatusHardLogOnly

text \<open>\<open>used\<close> and \<open>capUSDCents\<close> are 64-bit; the product with 100 wraps.\<close>

definition ClassifyUsage :: "int \<Rightarrow> int \<Rightarrow> Thresholds \<Rightarrow> CapStatus" where
  "ClassifyUsage used capUSDCents t =
     (if capUSDCents \<le> 0 then CapStatusOK
      else
        (let used' = (if used < 0 then 0 else used);
             pct = go_quot (i64 (used' * 100)) capUSDCents in
         if pct < SoftCapPct t then CapStatusOK
         else if pct < HardCapPct t then CapStatusSoftWarn
         else if th_Mode t = ModeWarnOnly then CapStatusHardLogOnly
         else CapStatusHardDeny))"

subsection \<open>Weighted fair queue (wfq.go)\<close>

definition minWeight :: f64 where "minWeight = f_round (1 / 100)"

record WorkItem =
  wi_ID :: string
  wi_ProjectAlias :: string
  wi_EnqueuedAt :: time
  wi_Cost :: f64

record virtualItem =
  vi_work :: WorkItem
  vi_vft :: f64

record projectQueue =
  pq_weight :: f64
  pq_items :: "virtualItem list"
  pq_lastVFT :: f64

record WfqQueue =
  queues :: "string \<rightharpoonup> projectQueue"
  virtualClock :: f64
  defaultWeight :: f64

definition clampWeight :: "f64 \<Rightarrow> f64" where
  "clampWeight w = (if f_le w (Fin 0) then minWeight else w)"

definition NewWfqQueue :: "(string \<rightharpoonup> f64) \<Rightarrow> WfqQueue" where
  "NewWfqQueue weights =
     \<lparr>queues = (\<lambda>alias. case weights alias of None \<Rightarrow> None
        | Some w \<Rightarrow> Some \<lparr>pq_weight = clampWeight w, pq_items = [], pq_lastVFT = Fin 0\<rparr>),
      virtualClock = Fin 0, defaultWeight = Fin 1\<rparr>"

definition Enqueue :: "WfqQueue \<Rightarrow> string \<Rightarrow> WorkItem \<Rightarrow> WfqQueue \<times> bool" where
  "Enqueue q projectAlias work =
     (if wi_ProjectAlias work \<noteq> projectAlias then (q, False)
      else
        (let pq = (case queues q projectAlias of
                     Some pq \<Rightarrow> pq
                   | None \<Rightarrow> \<lparr>pq_weight = defaultWeight q, pq_items = [], pq_lastVFT = Fin 0\<rparr>);
             cost = (if f_le (wi_Cost work) (Fin 0) then Fin 1 else wi_Cost work);
             start = (if f_lt (virtualClock q) (pq_lastVFT pq) then pq_lastVFT pq
                      else virtualClock q);
             vft = f_add start (f_div cost (pq_weight pq));
             pq' = pq\<lparr>pq_lastVFT := vft, pq_items := pq_items pq @ [\<lparr>vi_work = work, vi_vft = vft\<rparr>]\<rparr>
         in (q\<lparr>queues := (queues q)(projectAlias \<mapsto> pq')\<rparr>, True)))"

text \<open>The scan for the smallest head, over the map in the given order.\<close>

fun scan_best :: "(string \<rightharpoonup> projectQueue) \<Rightarrow> string list \<Rightarrow> (string \<times> f64) option \<Rightarrow> (string \<times> f64) option" where
  "scan_best qs [] best = best"
| "scan_best qs (alias # rest) best =
     (case qs alias of
        None \<Rightarrow> scan_best qs rest best
      | Some pq \<Rightarrow>
          (case pq_items pq of
             [] \<Rightarrow> scan_best qs rest best
           | it # _ \<Rightarrow>
               (case best of
                  None \<Rightarrow> scan_best qs rest (Some (alias, vi_vft it))
                | Some (_, bestVFT) \<Rightarrow>
                    if f_lt (vi_vft it) bestVFT then scan_best qs rest (Some (alias, vi_vft it))
                    else scan_best qs rest best)))"

definition TryDispatch :: "string list \<Rightarrow> WfqQueue \<Rightarrow> WfqQueue \<times> WorkItem option" where
  "TryDispatch order q =
     (case scan_best (queues q) order None of
        None \<Rightarrow> (q, None)
      | Some (bestAlias, bestVFT) \<Rightarrow>
          (let pq = the (queues q bestAlias);
               item = hd (pq_items pq);
               q1 = q\<lparr>queues := (queues q)(bestAlias \<mapsto> pq\<lparr>pq_items := tl (pq_items pq)\<rparr>)\<rparr>;
               q2 = (if f_lt (virtualClock q) bestVFT then q1\<lparr>virtualClock := bestVFT\<rparr> else q1)
           in (q2, Some (vi_work item))))"

definition Depth :: "WfqQueue \<Rightarrow> string \<Rightarrow> int" where
  "Depth q alias = (case queues q alias of None \<Rightarrow> 0 | Some pq \<Rightarrow> int (length (pq_items pq)))"

definition SetWeight :: "WfqQueue \<Rightarrow> string \<Rightarrow> f64 \<Rightarrow> WfqQueue" where
  "SetWeight q alias w =
     (let w' = clampWeight w in
      case queues q alias of
        None \<Rightarrow> q\<lparr>queues := (queues q)(alias \<mapsto>
                  \<lparr>pq_weight = w', pq_items = [], pq_lastVFT = Fin 0\<rparr>)\<rparr>
      | Some pq \<Rightarrow> q\<lparr>queues := (queues q)(alias \<mapsto> pq\<lparr>pq_weight := w'\<rparr>)\<rparr>)"

subsection \<open>Operator overrides (override.go)\<close>

record Override =
  ov_Alias :: string
  ov_Multiplier :: f64
  ov_ExpiresAt :: time
  ov_Reason :: string

definition IsActive :: "Override \<Rightarrow> time \<Rightarrow> bool" where
  "IsActive v now \<longleftrightarrow> now < ov_ExpiresAt v"

datatype override_error = EmptyAlias | NonPositiveMultiplier | MultiplierTooLarge | NotInFuture | EmptyReason

definition validateOverrideArgs :: "string \<Rightarrow> f64 \<Rightarrow> time \<Rightarrow> string \<Rightarrow> time \<Rightarrow> override_error option" where
  "validateOverrideArgs alias multi expiresAt reason now =
     (if trim_space alias = '''' then Some EmptyAlias
      else if f_le multi (Fin 0) then Some NonPositiveMultiplier
      else if f_lt (Fin 100) multi then Some MultiplierTooLarge
      else if \<not> expiresAt > now then Some NotInFuture
      else if trim_space reason = '''' then Some EmptyReason
      else None)"

definition ApplyOverride :: "time \<Rightarrow> f64 \<Rightarrow> Override option \<Rightarrow> f64" where
  "ApplyOverride now baseWeight ovr =
     (case ovr of
        None \<Rightarrow> baseWeight
      | Some v \<Rightarrow>
          if \<not> IsActive v now then baseWeight
          else if f_le (ov_Multiplier v) (Fin 0) then baseWeight
          else f_mul baseWeight (ov_Multiplier v))"

subsection \<open>Starvation detector (starvation.go)\<close>

definition DefaultStarveDepthThreshold :: int where "DefaultStarveDepthThreshold = 50"
definition DefaultStarveWindow :: duration where "DefaultStarveWindow = hour"

record projectStarvationState =
  enqueues :: int
  dispatches :: int
  lastEnqueueAt :: time
  lastDispatchAt :: time

record StarvationDetector =
  sd_state :: "string \<rightharpoonup> projectStarvationState"
  depthThreshold :: int
  window :: duration

definition NewStarvationDetector :: "int \<Rightarrow> duration \<Rightarrow> StarvationDetector" where
  "NewStarvationDetector depth win =
     \<lparr>sd_state = Map.empty,
      depthThreshold = (if depth < 1 then DefaultStarveDepthThreshold else depth),
      window = (if win \<le> 0 then DefaultStarveWindow else win)\<rparr>"

definition getOrInitLocked :: "StarvationDetector \<Rightarrow> string \<Rightarrow> projectStarvationState" where
  "getOrInitLocked d alias =
     (case sd_state d alias of
        Some st \<Rightarrow> st
      | None \<Rightarrow> \<lparr>enqueues = 0, dispatches = 0, lastEnqueueAt = 0, lastDispatchAt = 0\<rparr>)"

definition RecordEnqueue :: "time \<Rightarrow> StarvationDetector \<Rightarrow> string \<Rightarrow> StarvationDetector" where
  "RecordEnqueue now d alias =
     (let st = getOrInitLocked d alias in
      d\<lparr>sd_state := (sd_state d)(alias \<mapsto>
          st\<lparr>enqueues := i64 (enqueues st + 1), lastEnqueueAt := now\<rparr>)\<rparr>)"

definition RecordDispatch :: "time \<Rightarrow> StarvationDetector \<Rightarrow> string \<Rightarrow> StarvationDetector" where
  "RecordDispatch now d alias =
     (let st = getOrInitLocked d alias in
      d\<lparr>sd_state := (sd_state d)(alias \<mapsto>
          st\<lparr>dispatches := i64 (dispatches st + 1), lastDispatchAt := now\<rparr>)\<rparr>)"

definition Check :: "time \<Rightarrow> StarvationDetector \<Rightarrow> string \<Rightarrow> bool" where
  "Check now d alias =
     (case sd_state d alias of
        None \<Rightarrow> False
      | Some st \<Rightarrow>
          (let depth = i64 (enqueues st - dispatches st) in
           if depth < depthThreshold d then False
           else
             (let cutoff = now - window d in
              if lastDispatchAt st = 0
              then lastEnqueueAt st < cutoff \<or> lastEnqueueAt st = cutoff
              else lastDispatchAt st < cutoff)))"

definition starving_entry :: "time \<Rightarrow> StarvationDetector \<Rightarrow> projectStarvationState \<Rightarrow> bool" where
  "starving_entry cutoff d st =
     (let depth = i64 (enqueues st - dispatches st) in
      if depth < depthThreshold d then False
      else if lastDispatchAt st = 0 then (if lastEnqueueAt st > cutoff then False else True)
      else lastDispatchAt st < cutoff)"

definition ListStarving :: "time \<Rightarrow> string list \<Rightarrow> StarvationDetector \<Rightarrow> string list" where
  "ListStarving now order d =
     sort (filter (\<lambda>alias. case sd_state d alias of
                             None \<Rightarrow> False
                           | Some st \<Rightarrow> starving_entry (now - window d) d st) order)"

subsection \<open>Pre-flight decision (preflight.go)\<close>

datatype reason_detail =
    ProjectCapUsage int int
  | DaemonCapUsage int int
  | PerTierUsage string int
  | PerTierCap string int int
  | BoostMultiplier f64 time
  | CongestionBypass int
  | QueueDepth int time

record reason =
  rs_layer :: string
  rs_doctrine :: string
  rs_status :: string
  rs_detail :: reason_detail

record PreFlightDecision =
  Allowed :: bool
  SoftWarn :: bool
  pd_Reason :: "reason list"
  NextRetryAt :: time

record PreFlightDeps =
  pf_Thresholds :: Thresholds
  Used :: int
  Cap :: int
  GlobalCap :: int
  GlobalUsed :: int
  PerTierCaps :: "string \<rightharpoonup> int"
  PerTierUsed :: "string \<rightharpoonup> int"
  RequestTier :: string
  Wfq :: "WfqQueue option"
  CongestionThreshold :: int
  pf_Override :: "Override option"
  Now :: "nat \<Rightarrow> time"

definition pctOf :: "int \<Rightarrow> int \<Rightarrow> int" where
  "pctOf used c = (if c \<le> 0 then 0 else if used < 0 then 0 else go_quot (i64 (used * 100)) c)"

definition normaliseDoctrine :: "string \<Rightarrow> string" where
  "normaliseDoctrine d =
     (if d = NameMaxScope then NameMaxScope
      else if d = NameCapaFirewall then NameCapaFirewall
      else if d = NameDefault then NameDefault
      else NameDefault)"

definition appendReason ::
  "PreFlightDecision \<Rightarrow> string \<Rightarrow> string \<Rightarrow> string \<Rightarrow> reason_detail \<Rightarrow> PreFlightDecision" where
  "appendReason dec layer label status detail =
     dec\<lparr>pd_Reason := pd_Reason dec @
       [\<lparr>rs_layer = layer, rs_doctrine = label, rs_status = status, rs_detail = detail\<rparr>]\<rparr>"

text \<open>
  The four checks in the order of the code; the boolean says that the check returned early. The
  k-th call of the injected clock is \<open>Now deps k\<close>; the first is made only when an override exists.
\<close>

definition overrideActive :: "PreFlightDeps \<Rightarrow> bool" where
  "overrideActive deps = (case pf_Override deps of None \<Rightarrow> False | Some v \<Rightarrow> IsActive v (Now deps 0))"

definition preflight_project :: "PreFlightDeps \<Rightarrow> string \<Rightarrow> PreFlightDecision \<Rightarrow> PreFlightDecision \<times> bool" where
  "preflight_project deps label dec =
     (let detail = ProjectCapUsage (pctOf (Used deps) (Cap deps)) (Cap deps) in
      case ClassifyUsage (Used deps) (Cap deps) (pf_Thresholds deps) of
        CapStatusOK \<Rightarrow> (dec, False)
      | CapStatusSoftWarn \<Rightarrow>
          (appendReason (dec\<lparr>SoftWarn := True\<rparr>) ''layer1'' label ''soft-warn'' detail, False)
      | CapStatusHardLogOnly \<Rightarrow>
          (appendReason (dec\<lparr>SoftWarn := True\<rparr>) ''layer1'' label ''hard-log-only'' detail, False)
      | CapStatusHardDeny \<Rightarrow>
          (if overrideActive deps
           then (appendReason dec ''layer3'' label ''boost-applied''
                   (BoostMultiplier (ov_Multiplier (the (pf_Override deps)))
                      (ov_ExpiresAt (the (pf_Override deps)))), False)
           else (appendReason (dec\<lparr>Allowed := False\<rparr>) ''layer1'' label ''hard-deny'' detail, True)))"

definition preflight_global :: "PreFlightDeps \<Rightarrow> PreFlightDecision \<Rightarrow> PreFlightDecision \<times> bool" where
  "preflight_global deps dec =
     (let detail = DaemonCapUsage (pctOf (GlobalUsed deps) (GlobalCap deps)) (GlobalCap deps) in
      case ClassifyUsage (GlobalUsed deps) (GlobalCap deps) (DoctrineDefaults NameDefault) of
        CapStatusOK \<Rightarrow> (dec, False)
      | CapStatusSoftWarn \<Rightarrow>
          (appendReason (dec\<lparr>SoftWarn := True\<rparr>) ''layer1'' ''default'' ''soft-warn'' detail, False)
      | CapStatusHardDeny \<Rightarrow>
          (dec\<lparr>Allowed := False,
               pd_Reason := [\<lparr>rs_layer = ''layer1'', rs_doctrine = ''default'',
                 rs_status = ''hard-deny'', rs_detail = detail\<rparr>]\<rparr>, True)
      | CapStatusHardLogOnly \<Rightarrow> (dec, False))"

definition preflight_tier :: "PreFlightDeps \<Rightarrow> PreFlightDecision \<Rightarrow> PreFlightDecision \<times> bool" where
  "preflight_tier deps dec =
     (if RequestTier deps = '''' then (dec, False)
      else case PerTierCaps deps (RequestTier deps) of
        None \<Rightarrow> (dec, False)
      | Some tierCap \<Rightarrow>
          (if tierCap \<le> 0 then (dec, False)
           else
             (let used = (case PerTierUsed deps (RequestTier deps) of None \<Rightarrow> 0 | Some u \<Rightarrow> u) in
              case ClassifyUsage used tierCap (DoctrineDefaults NameDefault) of
                CapStatusHardDeny \<Rightarrow>
                  (dec\<lparr>Allowed := False,
                       pd_Reason := [\<lparr>rs_layer = ''layer1'', rs_doctrine = ''default'',
                         rs_status = ''hard-deny'',
                         rs_detail = PerTierCap (RequestTier deps) (pctOf used tierCap) tierCap\<rparr>]\<rparr>, True)
              | CapStatusSoftWarn \<Rightarrow>
                  (appendReason (dec\<lparr>SoftWarn := True\<rparr>) ''layer1'' ''default'' ''soft-warn''
                     (PerTierUsage (RequestTier deps) (pctOf used tierCap)), False)
              | CapStatusOK \<Rightarrow> (dec, False)
              | CapStatusHardLogOnly \<Rightarrow> (dec, False))))"

definition congest_threshold :: "int \<Rightarrow> int" where
  "congest_threshold n = (if n \<le> 0 then DefaultStarveDepthThreshold else n)"

definition IsCongested :: "WfqQueue option \<Rightarrow> string \<Rightarrow> int \<Rightarrow> bool" where
  "IsCongested wfq alias threshold =
     (case wfq of None \<Rightarrow> False | Some q \<Rightarrow> Depth q alias \<ge> congest_threshold threshold)"

definition preflight_congestion ::
  "PreFlightDeps \<Rightarrow> string \<Rightarrow> string \<Rightarrow> PreFlightDecision \<Rightarrow> PreFlightDecision" where
  "preflight_congestion deps alias label dec =
     (case Wfq deps of
        None \<Rightarrow> dec
      | Some q \<Rightarrow>
          (let depth = Depth q alias in
           if depth \<ge> congest_threshold (CongestionThreshold deps)
           then
             (if overrideActive deps
              then appendReason dec ''layer3'' label ''boost-applied'' (CongestionBypass depth)
              else
                (let retry = Now deps (if pf_Override deps = None then 0 else 1) + 30 * second in
                 dec\<lparr>Allowed := False, NextRetryAt := retry,
                     pd_Reason := [\<lparr>rs_layer = ''layer2'', rs_doctrine = label,
                       rs_status = ''wfq-congested'', rs_detail = QueueDepth depth retry\<rparr>]\<rparr>))
           else dec))"

definition PreFlight :: "string \<Rightarrow> string \<Rightarrow> PreFlightDeps \<Rightarrow> string + PreFlightDecision" where
  "PreFlight projectAlias d deps =
     (if projectAlias = '''' then Inl ''quota.PreFlight: projectAlias is empty''
      else
        (let label = normaliseDoctrine d;
             dec = \<lparr>Allowed = True, SoftWarn = False, pd_Reason = [], NextRetryAt = 0\<rparr> in
         case preflight_project deps label dec of
           (dec1, True) \<Rightarrow> Inr dec1
         | (dec1, False) \<Rightarrow>
             (case preflight_global deps dec1 of
                (dec2, True) \<Rightarrow> Inr dec2
              | (dec2, False) \<Rightarrow>
                  (case preflight_tier deps dec2 of
                     (dec3, True) \<Rightarrow> Inr dec3
                   | (dec3, False) \<Rightarrow> Inr (preflight_congestion deps projectAlias label dec3)))))"

subsection \<open>Cap classification\<close>

text \<open>The exact meaning of the four states, in the units of the cap and without division.\<close>

lemma go_quot_less_iff:
  assumes "0 \<le> a" and "0 < c"
  shows "go_quot a c < p \<longleftrightarrow> a < p * c"
proof -
  have a: "a = a div c * c + a mod c" "0 \<le> a mod c" "a mod c < c" using assms(2) by simp_all
  have "a < p * c" if "a div c + 1 \<le> p"
  proof -
    have "a div c * c + c \<le> p * c" using mult_right_mono [OF that, of c] assms(2) by (simp add: distrib_right)
    then show ?thesis using a by linarith
  qed
  moreover have "p * c \<le> a" if "p \<le> a div c"
    using mult_right_mono [OF that, of c] a assms(2) by linarith
  ultimately show ?thesis using assms by (fastforce simp: go_quot_nonneg)
qed

lemma i64_usage: "0 \<le> used \<Longrightarrow> used * 100 < 2 ^ 63 \<Longrightarrow> i64 (used * 100) = used * 100"
  by (rule i64_id) (simp add: in_i64_def)

lemma ClassifyUsage_cases:
  assumes "0 < c" and "0 \<le> used" and "used * 100 < 2 ^ 63"
  shows "ClassifyUsage used c t =
    (if used * 100 < SoftCapPct t * c then CapStatusOK
     else if used * 100 < HardCapPct t * c then CapStatusSoftWarn
     else if th_Mode t = ModeWarnOnly then CapStatusHardLogOnly else CapStatusHardDeny)"
  using assms i64_usage [of used] by (simp add: ClassifyUsage_def Let_def go_quot_less_iff)

lemma ClassifyUsage_deny_mode:
  "ClassifyUsage used c t = CapStatusHardDeny \<Longrightarrow> th_Mode t \<noteq> ModeWarnOnly"
  by (auto simp: ClassifyUsage_def Let_def split: if_splits)

text \<open>Usage is classified exactly by the configured percentages, without rounding: below
  the soft share of the cap it is OK, below the hard share it is a soft warning, and from there
  on it is denied, or only logged in warn-only mode. The bound on \<open>used\<close> is the one below which the
  64-bit product with 100 does not wrap.\<close>

lemma ClassifyUsage_exact:
  assumes "0 < c" and "0 \<le> used" and "used * 100 < 2 ^ 63" and "SoftCapPct t \<le> HardCapPct t"
  shows "(ClassifyUsage used c t = CapStatusOK \<longleftrightarrow> used * 100 < SoftCapPct t * c)
    \<and> (ClassifyUsage used c t = CapStatusSoftWarn \<longleftrightarrow>
         SoftCapPct t * c \<le> used * 100 \<and> used * 100 < HardCapPct t * c)
    \<and> (ClassifyUsage used c t = CapStatusHardLogOnly \<longleftrightarrow>
         HardCapPct t * c \<le> used * 100 \<and> th_Mode t = ModeWarnOnly)
    \<and> (ClassifyUsage used c t = CapStatusHardDeny \<longleftrightarrow>
         HardCapPct t * c \<le> used * 100 \<and> th_Mode t \<noteq> ModeWarnOnly)"
proof -
  have "SoftCapPct t * c \<le> HardCapPct t * c" using assms(1,4) by (intro mult_right_mono) auto
  then show ?thesis by (simp add: ClassifyUsage_cases [OF assms(1-3)])
qed

text \<open>Whatever override a project configures, the resolved thresholds satisfy
  \<open>0 < soft \<le> hard \<le> 100\<close> and the mode stays the one of the doctrine: an override can neither turn
  denial off nor on.\<close>

lemma ResolveThresholds_wellformed:
  "0 < SoftCapPct (ResolveThresholds d override)
   \<and> SoftCapPct (ResolveThresholds d override) \<le> HardCapPct (ResolveThresholds d override)
   \<and> HardCapPct (ResolveThresholds d override) \<le> 100
   \<and> th_Mode (ResolveThresholds d override) = th_Mode (DoctrineDefaults d)
   \<and> (HardCapPct (DoctrineDefaults d) = 100 \<longleftrightarrow> th_Mode (DoctrineDefaults d) \<noteq> ModeExtraMargin)"
  by (auto simp: ResolveThresholds_def DoctrineDefaults_def validProjectQuotaOverride_def Let_def
      split: option.splits if_splits)

subsection \<open>The pre-flight decision\<close>

lemma appendReason_simps [simp]:
  "Allowed (appendReason dec l d s x) = Allowed dec"
  "SoftWarn (appendReason dec l d s x) = SoftWarn dec"
  "NextRetryAt (appendReason dec l d s x) = NextRetryAt dec"
  "pd_Reason (appendReason dec l d s x) \<noteq> []"
  by (simp_all add: appendReason_def)

definition tier_denied :: "PreFlightDeps \<Rightarrow> bool" where
  "tier_denied deps \<longleftrightarrow> RequestTier deps \<noteq> '''' \<and>
     (\<exists>c. PerTierCaps deps (RequestTier deps) = Some c \<and> 0 < c \<and>
        ClassifyUsage (case PerTierUsed deps (RequestTier deps) of None \<Rightarrow> 0 | Some u \<Rightarrow> u) c
          (DoctrineDefaults NameDefault) = CapStatusHardDeny)"

definition project_denied :: "PreFlightDeps \<Rightarrow> bool" where
  "project_denied deps \<longleftrightarrow>
     ClassifyUsage (Used deps) (Cap deps) (pf_Thresholds deps) = CapStatusHardDeny
     \<and> \<not> overrideActive deps"

definition global_denied :: "PreFlightDeps \<Rightarrow> bool" where
  "global_denied deps \<longleftrightarrow>
     ClassifyUsage (GlobalUsed deps) (GlobalCap deps) (DoctrineDefaults NameDefault) = CapStatusHardDeny"

lemma preflight_project_spec:
  "snd (preflight_project deps label dec) = project_denied deps
   \<and> Allowed (fst (preflight_project deps label dec)) = (Allowed dec \<and> \<not> project_denied deps)
   \<and> NextRetryAt (fst (preflight_project deps label dec)) = NextRetryAt dec"
  by (simp add: preflight_project_def project_denied_def Let_def split: CapStatus.splits)

lemma preflight_global_spec:
  "snd (preflight_global deps dec) = global_denied deps
   \<and> Allowed (fst (preflight_global deps dec)) = (Allowed dec \<and> \<not> global_denied deps)
   \<and> NextRetryAt (fst (preflight_global deps dec)) = NextRetryAt dec"
  by (simp add: preflight_global_def global_denied_def Let_def split: CapStatus.splits)

lemma preflight_tier_spec:
  "snd (preflight_tier deps dec) = tier_denied deps
   \<and> Allowed (fst (preflight_tier deps dec)) = (Allowed dec \<and> \<not> tier_denied deps)
   \<and> NextRetryAt (fst (preflight_tier deps dec)) = NextRetryAt dec"
  by (auto simp: preflight_tier_def tier_denied_def Let_def split: CapStatus.splits option.splits)

lemma preflight_congestion_spec:
  "Allowed (preflight_congestion deps alias label dec) =
     (Allowed dec \<and> \<not> (IsCongested (Wfq deps) alias (CongestionThreshold deps) \<and> \<not> overrideActive deps))
   \<and> NextRetryAt (preflight_congestion deps alias label dec) =
     (if IsCongested (Wfq deps) alias (CongestionThreshold deps) \<and> \<not> overrideActive deps
      then Now deps (if pf_Override deps = None then 0 else 1) + 30 * second else NextRetryAt dec)"
  by (auto simp: preflight_congestion_def IsCongested_def Let_def split: option.splits)

lemmas preflight_specs = preflight_project_spec preflight_global_spec preflight_tier_spec
  preflight_congestion_spec

lemma PreFlight_exact:
  assumes "projectAlias \<noteq> ''''"
  shows "\<exists>dec. PreFlight projectAlias d deps = Inr dec
    \<and> (\<not> Allowed dec \<longleftrightarrow> project_denied deps \<or> global_denied deps \<or> tier_denied deps
         \<or> (IsCongested (Wfq deps) projectAlias (CongestionThreshold deps) \<and> \<not> overrideActive deps))
    \<and> (th_Mode (pf_Thresholds deps) = ModeWarnOnly \<longrightarrow> \<not> project_denied deps)
    \<and> NextRetryAt dec =
        (if \<not> project_denied deps \<and> \<not> global_denied deps \<and> \<not> tier_denied deps
            \<and> IsCongested (Wfq deps) projectAlias (CongestionThreshold deps) \<and> \<not> overrideActive deps
         then Now deps (if pf_Override deps = None then 0 else 1) + 30 * second else 0)"
proof -
  let ?dec = "\<lparr>Allowed = True, SoftWarn = False, pd_Reason = [], NextRetryAt = 0\<rparr>"
  let ?l = "normaliseDoctrine d"
  obtain d1 b1 where 1: "preflight_project deps ?l ?dec = (d1, b1)" by (cases "preflight_project deps ?l ?dec")
  obtain d2 b2 where 2: "preflight_global deps d1 = (d2, b2)" by (cases "preflight_global deps d1")
  obtain d3 b3 where 3: "preflight_tier deps d2 = (d3, b3)" by (cases "preflight_tier deps d2")
  have "b1 = project_denied deps" "Allowed d1 = (\<not> project_denied deps)" "NextRetryAt d1 = 0"
    using preflight_project_spec [of deps ?l ?dec] 1 by simp_all
  moreover have "b2 = global_denied deps" "Allowed d2 = (Allowed d1 \<and> \<not> global_denied deps)"
    "NextRetryAt d2 = NextRetryAt d1" using preflight_global_spec [of deps d1] 2 by simp_all
  moreover have "b3 = tier_denied deps" "Allowed d3 = (Allowed d2 \<and> \<not> tier_denied deps)"
    "NextRetryAt d3 = NextRetryAt d2" using preflight_tier_spec [of deps d2] 3 by simp_all
  moreover have "PreFlight projectAlias d deps =
      (if b1 then Inr d1 else if b2 then Inr d2 else if b3 then Inr d3
       else Inr (preflight_congestion deps projectAlias ?l d3))"
    using assms by (auto simp: PreFlight_def Let_def 1 2 3 split: bool.splits)
  ultimately show ?thesis
    using preflight_congestion_spec [of deps projectAlias ?l d3] ClassifyUsage_deny_mode
    by (auto simp: project_denied_def)
qed

text \<open>A pre-flight check with a project alias always decides, and denies exactly when one
  of the four gates does: the project cap (unless an override is active), the daemon cap, the tier
  cap, or congestion of the project's queue (unless an override is active). An override never
  lifts the daemon or the tier cap, warn-only doctrines are never denied by the project cap, and
  a retry time is set exactly for congestion.\<close>

lemma PreFlight_denies_iff:
  assumes "projectAlias \<noteq> ''''"
  shows "\<exists>dec. PreFlight projectAlias d deps = Inr dec
    \<and> (\<not> Allowed dec \<longleftrightarrow> project_denied deps \<or> global_denied deps \<or> tier_denied deps
         \<or> (IsCongested (Wfq deps) projectAlias (CongestionThreshold deps) \<and> \<not> overrideActive deps))
    \<and> (th_Mode (pf_Thresholds deps) = ModeWarnOnly \<longrightarrow> \<not> project_denied deps)
    \<and> NextRetryAt dec =
        (if \<not> project_denied deps \<and> \<not> global_denied deps \<and> \<not> tier_denied deps
            \<and> IsCongested (Wfq deps) projectAlias (CongestionThreshold deps) \<and> \<not> overrideActive deps
         then Now deps (if pf_Override deps = None then 0 else 1) + 30 * second else 0)"
  using assms by (rule PreFlight_exact)

definition demo_deps :: PreFlightDeps where
  "demo_deps = \<lparr>pf_Thresholds = DoctrineDefaults NameDefault, Used = 200, Cap = 100, GlobalCap = 0,
     GlobalUsed = 0, PerTierCaps = Map.empty, PerTierUsed = Map.empty, RequestTier = '''',
     Wfq = None, CongestionThreshold = 0, pf_Override = None, Now = (\<lambda>_. 7)\<rparr>"

lemma demo_denied: "project_denied demo_deps"
  by (simp add: project_denied_def demo_deps_def overrideActive_def ClassifyUsage_cases
      DoctrineDefaults_def NameDefault_def NameMaxScope_def NameCapaFirewall_def)

subsection \<open>Starvation\<close>

lemma Check_eq_starving_entry:
  "Check now d alias =
     (case sd_state d alias of None \<Rightarrow> False | Some st \<Rightarrow> starving_entry (now - window d) d st)"
  by (auto simp: Check_def starving_entry_def Let_def split: option.splits)

text \<open>The two starvation queries agree: \<open>ListStarving\<close> lists, in sorted order and without
  duplicates, exactly the tracked aliases for which \<open>Check\<close> answers true, in whatever order the map
  is traversed; and recording a dispatch clears the alias at that moment.\<close>

lemma ListStarving_agrees_with_Check:
  assumes "set order = dom (sd_state d)" and "distinct order"
  shows "set (ListStarving now order d) = {alias. Check now d alias}
    \<and> sorted (ListStarving now order d) \<and> distinct (ListStarving now order d)
    \<and> (0 < window d \<longrightarrow> now \<noteq> 0 \<longrightarrow> \<not> Check now (RecordDispatch now d a) a)"
proof -
  have "set (ListStarving now order d) = {alias. Check now d alias}"
    using assms(1)
    by (auto simp: ListStarving_def Check_eq_starving_entry dom_def split: option.splits)
  then show ?thesis using assms(2)
    by (simp add: ListStarving_def Check_def RecordDispatch_def Let_def)
qed

text \<open>A project whose work was never dispatched is not reported as starving while it keeps
  enqueueing: \<open>Check\<close> measures the wait from the last enqueue, so any enqueue inside the window hides
  an arbitrarily deep queue.\<close>

lemma Check_misses_busy_starved_project:
  assumes "0 < window d" and "now - window d < t" and "t \<le> now"
    and "case sd_state d alias of None \<Rightarrow> True | Some st \<Rightarrow> lastDispatchAt st = 0"
  shows "\<not> Check now (RecordEnqueue t d alias) alias"
  using assms
  by (auto simp: Check_def RecordEnqueue_def Let_def getOrInitLocked_def split: option.splits)

subsection \<open>The fair queue\<close>

text \<open>Weights and costs as the configuration can produce them: numbers, and finite for weights.\<close>

definition weight_ok :: "f64 \<Rightarrow> bool" where
  "weight_ok w \<longleftrightarrow> f_ok w \<and> f_lt (Fin 0) w \<and> w \<noteq> Inf True"

definition time_ok :: "f64 \<Rightarrow> bool" where
  "time_ok v \<longleftrightarrow> f_ok v \<and> f_le (Fin 0) v"

definition pq_inv :: "f64 \<Rightarrow> string \<Rightarrow> projectQueue \<Rightarrow> bool" where
  "pq_inv clk alias pq \<longleftrightarrow>
     weight_ok (pq_weight pq) \<and> time_ok (pq_lastVFT pq)
     \<and> sorted_wrt (\<lambda>a b. f_le (vi_vft a) (vi_vft b)) (pq_items pq)
     \<and> (\<forall>it \<in> set (pq_items pq). f_le clk (vi_vft it) \<and> f_le (vi_vft it) (pq_lastVFT pq)
          \<and> time_ok (vi_vft it) \<and> wi_ProjectAlias (vi_work it) = alias)"

definition wfq_inv :: "WfqQueue \<Rightarrow> bool" where
  "wfq_inv q \<longleftrightarrow> time_ok (virtualClock q) \<and> weight_ok (defaultWeight q)
     \<and> (\<forall>alias pq. queues q alias = Some pq \<longrightarrow> pq_inv (virtualClock q) alias pq)"

inductive wfq_step :: "WfqQueue \<Rightarrow> WfqQueue \<Rightarrow> bool" where
  enqueue: "f_ok (wi_Cost work) \<Longrightarrow> wi_Cost work \<noteq> NaN \<Longrightarrow>
     wfq_step q (fst (Enqueue q alias work))"
| dispatch: "set order = dom (queues q) \<Longrightarrow> wfq_step q (fst (TryDispatch order q))"
| set_weight: "f_ok w \<Longrightarrow> w \<noteq> NaN \<Longrightarrow> w \<noteq> Inf True \<Longrightarrow> wfq_step q (SetWeight q alias w)"

definition wfq_init :: "WfqQueue \<Rightarrow> bool" where
  "wfq_init q \<longleftrightarrow> (\<exists>ws. (\<forall>w \<in> ran ws. f_ok w \<and> w \<noteq> NaN \<and> w \<noteq> Inf True) \<and> q = NewWfqQueue ws)"

lemma rnd_1 [simp]: "rnd 1 = 1"
  using rnd_of_int [of 1] by simp

lemma minWeight_ok: "weight_ok minWeight"
proof -
  have "rnd (1 / 128) \<le> rnd (1 / 100)" "rnd (1 / 100) \<le> rnd 1" by (rule rnd_mono, simp)+
  moreover have "rnd (1 / 128) = 1 / 128"
  proof -
    have "(1 / 128 :: rat) = 2 powi (- 7)" by (simp add: power_int_def power_divide)
    then show ?thesis using rnd_powi [of "- 7"] by (simp only:)
  qed
  ultimately have "1 / 128 \<le> rnd (1 / 100)" "rnd (1 / 100) \<le> 1" by simp_all
  then have "f_round (1 / 100) = Fin (rnd (1 / 100))" "0 < rnd (1 / 100)"
    by (simp_all add: f_round_def Let_def)
  with \<open>rnd (1 / 100) \<le> 1\<close> show ?thesis by (simp add: weight_ok_def minWeight_def)
qed

lemma clampWeight_ok: "f_ok w \<Longrightarrow> w \<noteq> NaN \<Longrightarrow> w \<noteq> Inf True \<Longrightarrow> weight_ok (clampWeight w)"
  using minWeight_ok by (auto simp: clampWeight_def weight_ok_def f_lt_le)

lemma f_div_ok: "f_ok x \<Longrightarrow> f_ok (f_div x y)"
  by (cases x; cases y) auto

lemma f_add_ok: "f_ok x \<Longrightarrow> f_ok y \<Longrightarrow> f_ok (f_add x y)"
  by (cases x; cases y) auto

lemma Enqueue_start_vft:
  assumes "time_ok clk" and "time_ok l" and "weight_ok w" and "c \<noteq> NaN"
  defines "start \<equiv> (if f_lt clk l then l else clk)"
  defines "v \<equiv> f_add start (f_div (if f_le c (Fin 0) then Fin 1 else c) w)"
  shows "f_le clk v \<and> f_le l v \<and> (f_ok c \<longrightarrow> time_ok v)"
proof -
  let ?c = "if f_le c (Fin 0) then Fin 1 else c"
  have s: "time_ok start" "f_le clk start" "f_le l start"
    using assms(1,2) f_lt_imp_le [of clk l] f_lt_le [of clk l] f_le_not_NaN
    by (auto simp: start_def time_ok_def)
  have "f_lt (Fin 0) ?c" using assms(4) by (auto simp: f_lt_le)
  then have "f_le (Fin 0) (f_div ?c w)"
    using assms(3) by (intro f_div_nonneg) (auto simp: weight_ok_def)
  moreover have "start \<noteq> NaN" "start \<noteq> Inf False"
    using s(1) by (auto simp: time_ok_def)
  ultimately have "f_le start v" unfolding v_def using s(1) by (intro f_add_ge) (auto simp: time_ok_def)
  moreover have "f_ok c \<Longrightarrow> f_ok v"
    unfolding v_def using s(1) by (intro f_add_ok f_div_ok) (auto simp: time_ok_def)
  ultimately show ?thesis using s by (auto simp: time_ok_def intro: f_le_trans)
qed

lemma pq_inv_append:
  assumes "pq_inv clk alias pq" and "f_le clk v" and "f_le (pq_lastVFT pq) v" and "time_ok v"
    and "wi_ProjectAlias work = alias"
  shows "pq_inv clk alias (pq\<lparr>pq_lastVFT := v, pq_items := pq_items pq @ [\<lparr>vi_work = work, vi_vft = v\<rparr>]\<rparr>)"
proof -
  have "v \<noteq> NaN" using assms(4) f_le_not_NaN by (auto simp: time_ok_def)
  with assms show ?thesis
    by (auto simp: pq_inv_def sorted_wrt_append intro: f_le_trans)
qed

lemma empty_pq_inv:
  "weight_ok w \<Longrightarrow> pq_inv clk alias \<lparr>pq_weight = w, pq_items = [], pq_lastVFT = Fin 0\<rparr>"
  by (simp add: pq_inv_def time_ok_def)

lemma wfq_inv_enqueue:
  assumes "wfq_inv q" and "f_ok (wi_Cost work)" and "wi_Cost work \<noteq> NaN"
  shows "wfq_inv (fst (Enqueue q alias work))"
proof (cases "wi_ProjectAlias work = alias")
  case False
  with assms(1) show ?thesis by (simp add: Enqueue_def)
next
  case True
  define pq where "pq = (case queues q alias of Some pq \<Rightarrow> pq
     | None \<Rightarrow> \<lparr>pq_weight = defaultWeight q, pq_items = [], pq_lastVFT = Fin 0\<rparr>)"
  have inv: "pq_inv (virtualClock q) alias pq"
    using assms(1) empty_pq_inv by (auto simp: pq_def wfq_inv_def split: option.splits)
  have clk: "time_ok (virtualClock q)" using assms(1) by (simp add: wfq_inv_def)
  have l: "time_ok (pq_lastVFT pq)" "weight_ok (pq_weight pq)" using inv by (auto simp: pq_inv_def)
  note v = Enqueue_start_vft [OF clk l assms(3)]
  show ?thesis
    using assms(1,2) True v pq_inv_append [OF inv _ _ _ True]
    by (auto simp: Enqueue_def Let_def pq_def [symmetric] wfq_inv_def)
qed

text \<open>The scan keeps the best of the heads seen so far.\<close>

definition heads :: "(string \<rightharpoonup> projectQueue) \<Rightarrow> string set \<Rightarrow> (string \<times> f64) set" where
  "heads qs A = {(a, vi_vft it) | a it pq its. a \<in> A \<and> qs a = Some pq \<and> pq_items pq = it # its}"

definition best_of :: "(string \<times> f64) set \<Rightarrow> (string \<times> f64) option \<Rightarrow> bool" where
  "best_of S best = (case best of None \<Rightarrow> S = {} | Some (b, v) \<Rightarrow> (b, v) \<in> S \<and> (\<forall>(a, w) \<in> S. f_le v w))"

lemma heads_insert:
  "heads qs (insert a A) = heads qs A \<union>
     (case qs a of None \<Rightarrow> {} | Some pq \<Rightarrow>
        (case pq_items pq of [] \<Rightarrow> {} | it # _ \<Rightarrow> {(a, vi_vft it)}))"
  by (auto simp: heads_def split: option.splits list.splits)

lemma best_of_insert:
  assumes "best_of S best" and "v \<noteq> NaN" and "\<forall>(a, w) \<in> S. w \<noteq> NaN"
  shows "best_of (insert (a, v) S)
    (case best of None \<Rightarrow> Some (a, v) | Some (b, w) \<Rightarrow> if f_lt v w then Some (a, v) else best)"
proof (cases best)
  case None
  with assms show ?thesis by (simp add: best_of_def)
next
  case (Some bw)
  obtain b w where bw: "bw = (b, w)" by (cases bw)
  have S: "(b, w) \<in> S" "\<forall>(x, y) \<in> S. f_le w y" using assms(1) Some bw by (auto simp: best_of_def)
  have w: "w \<noteq> NaN" using S(1) assms(3) by auto
  show ?thesis
  proof (cases "f_lt v w")
    case True
    have "\<forall>(x, y) \<in> S. f_le v y" using S(2) f_lt_imp_le [OF True] f_le_trans by blast
    then show ?thesis using True Some bw assms(2) by (simp add: best_of_def)
  next
    case False
    then have "f_le w v" using f_lt_le [OF assms(2) w] by simp
    then show ?thesis using False Some bw S by (simp add: best_of_def)
  qed
qed

lemma scan_best_step:
  "scan_best qs (a # rest) best = scan_best qs rest
     (case qs a of None \<Rightarrow> best | Some pq \<Rightarrow> (case pq_items pq of [] \<Rightarrow> best | it # _ \<Rightarrow>
        (case best of None \<Rightarrow> Some (a, vi_vft it)
         | Some (b, w) \<Rightarrow> if f_lt (vi_vft it) w then Some (a, vi_vft it) else best)))"
  by (auto split: option.splits list.splits)

lemma scan_best_spec:
  assumes "best_of S best" and "\<forall>(a, w) \<in> S \<union> heads qs (set order). w \<noteq> NaN"
  shows "best_of (S \<union> heads qs (set order)) (scan_best qs order best)"
  using assms
proof (induction order arbitrary: S best)
  case Nil
  then show ?case by (simp add: heads_def)
next
  case (Cons a rest)
  let ?new = "case qs a of None \<Rightarrow> {} | Some pq \<Rightarrow>
        (case pq_items pq of [] \<Rightarrow> {} | it # _ \<Rightarrow> {(a, vi_vft it)})"
  have nn: "\<forall>(a, w) \<in> S. w \<noteq> NaN" using Cons.prems(2) by blast
  have "best_of (S \<union> ?new) (case qs a of None \<Rightarrow> best | Some pq \<Rightarrow> (case pq_items pq of [] \<Rightarrow> best | it # _ \<Rightarrow>
        (case best of None \<Rightarrow> Some (a, vi_vft it)
         | Some (b, w) \<Rightarrow> if f_lt (vi_vft it) w then Some (a, vi_vft it) else best)))"
  proof (cases "\<exists>pq it its. qs a = Some pq \<and> pq_items pq = it # its")
    case True
    then obtain pq it its where pq: "qs a = Some pq" "pq_items pq = it # its" by blast
    then have "vi_vft it \<noteq> NaN" using Cons.prems(2) by (simp add: heads_insert)
    from best_of_insert [OF Cons.prems(1) this nn, of a] pq show ?thesis by simp
  next
    case False
    then show ?thesis using Cons.prems(1) by (auto split: option.splits list.splits)
  qed
  from Cons.IH [OF this] Cons.prems(2) show ?case
    unfolding scan_best_step by (simp add: heads_insert Un_ac)
qed

text \<open>What a dispatch does: nothing when every queue is empty, otherwise it pops a smallest head.\<close>

lemma TryDispatch_cases:
  assumes "wfq_inv q" and "set order = dom (queues q)"
  obtains (empty) "TryDispatch order q = (q, None)"
      "\<forall>a pq. queues q a = Some pq \<longrightarrow> pq_items pq = []"
    | (pop) b pq it its where "queues q b = Some pq" "pq_items pq = it # its"
      "TryDispatch order q = (q\<lparr>queues := (queues q)(b \<mapsto> pq\<lparr>pq_items := its\<rparr>),
          virtualClock := vi_vft it\<rparr>, Some (vi_work it))"
      "\<forall>a pq' it'. queues q a = Some pq' \<longrightarrow> it' \<in> set (pq_items pq') \<longrightarrow> f_le (vi_vft it) (vi_vft it')"
      "f_le (virtualClock q) (vi_vft it)"
proof -
  have items: "f_le (virtualClock q) (vi_vft it)" if "queues q a = Some pq" "it \<in> set (pq_items pq)"
    for a pq it using assms(1) that by (auto simp: wfq_inv_def pq_inv_def)
  have nn: "\<forall>(a, w) \<in> {} \<union> heads (queues q) (set order). w \<noteq> NaN"
    using items f_le_not_NaN by (fastforce simp: heads_def)
  have best: "best_of (heads (queues q) (set order)) (scan_best (queues q) order None)"
    using scan_best_spec [OF _ nn, of None] by (simp add: best_of_def)
  show thesis
  proof (cases "scan_best (queues q) order None")
    case None
    with best have "heads (queues q) (set order) = {}" by (simp add: best_of_def)
    then have "pq_items pq = []" if "queues q a = Some pq" for a pq
    proof (cases "pq_items pq")
      case (Cons it its)
      then have "(a, vi_vft it) \<in> heads (queues q) (set order)"
        using that assms(2) by (auto simp: heads_def)
      with \<open>heads (queues q) (set order) = {}\<close> show ?thesis by simp
    qed simp
    with None show thesis by (intro empty) (auto simp: TryDispatch_def)
  next
    case (Some bv)
    obtain b v where bv: "bv = (b, v)" by (cases bv)
    with best Some have in_h: "(b, v) \<in> heads (queues q) (set order)"
      and le: "\<forall>(a, w) \<in> heads (queues q) (set order). f_le v w" by (auto simp: best_of_def)
    from in_h obtain pq it its where pq: "queues q b = Some pq" "pq_items pq = it # its" "v = vi_vft it"
      by (auto simp: heads_def)
    have clk: "f_le (virtualClock q) (vi_vft it)" using items [OF pq(1)] pq(2) by simp
    have all: "f_le (vi_vft it) (vi_vft it')"
      if a: "queues q a = Some pq'" "it' \<in> set (pq_items pq')" for a pq' it'
    proof -
      obtain h hs where h: "pq_items pq' = h # hs" using a(2) by (cases "pq_items pq'") auto
      have "sorted_wrt (\<lambda>a b. f_le (vi_vft a) (vi_vft b)) (h # hs)"
        using assms(1) a(1) by (simp add: wfq_inv_def pq_inv_def flip: h)
      moreover have "vi_vft h \<noteq> NaN" using items [OF a(1), of h] f_le_not_NaN h by fastforce
      ultimately have "f_le (vi_vft h) (vi_vft it')" using a(2) h by auto
      moreover have "(a, vi_vft h) \<in> heads (queues q) (set order)"
        using a(1) h assms(2) by (auto simp: heads_def)
      then have "f_le (vi_vft it) (vi_vft h)" using le pq(3) by auto
      ultimately show ?thesis by (rule f_le_trans [rotated])
    qed
    have "(if f_lt (virtualClock q) v then q'\<lparr>virtualClock := v\<rparr> else q') = q'\<lparr>virtualClock := v\<rparr>"
      if "virtualClock q' = virtualClock q" for q' :: WfqQueue
    proof (cases "f_lt (virtualClock q) v")
      case False
      then have "v = virtualClock q" using clk pq(3) f_le_antisym f_lt_le f_le_not_NaN by blast
      then show ?thesis using that by simp
    qed simp
    then show thesis using pq Some bv clk all
      by (intro pop [OF pq(1,2)]) (auto simp: TryDispatch_def Let_def)
  qed
qed

lemma pq_inv_clock:
  "pq_inv clk a pq \<Longrightarrow> (\<forall>it \<in> set (pq_items pq). f_le clk' (vi_vft it)) \<Longrightarrow> pq_inv clk' a pq"
  by (simp add: pq_inv_def)

lemma wfq_inv_dispatch:
  assumes "wfq_inv q" and "set order = dom (queues q)"
  shows "wfq_inv (fst (TryDispatch order q))"
  using assms
proof (cases rule: TryDispatch_cases)
  case empty
  with assms show ?thesis by simp
next
  case (pop b pq it its)
  have pb: "pq_inv (virtualClock q) b pq" using assms(1) pop(1) by (simp add: wfq_inv_def)
  have "sorted_wrt (\<lambda>a b. f_le (vi_vft a) (vi_vft b)) (it # its)"
    using pb by (simp add: pq_inv_def flip: pop(2))
  then have "pq_inv (vi_vft it) b (pq\<lparr>pq_items := its\<rparr>)"
    using pb pop(2) by (auto simp: pq_inv_def)
  moreover have "pq_inv (vi_vft it) a pq'" if "queues q a = Some pq'" for a pq'
    using pq_inv_clock [of "virtualClock q" a pq' "vi_vft it"] assms(1) that pop(4)
    by (auto simp: wfq_inv_def)
  moreover have "time_ok (vi_vft it)" using pb pop(2) by (simp add: pq_inv_def)
  ultimately show ?thesis using assms(1) pop(3) by (auto simp: wfq_inv_def)
qed

lemma wfq_inv_set_weight:
  assumes "wfq_inv q" and "weight_ok (clampWeight w)"
  shows "wfq_inv (SetWeight q alias w)"
  using assms empty_pq_inv
  by (auto simp: SetWeight_def Let_def wfq_inv_def pq_inv_def time_ok_def split: option.splits)

lemma wfq_inv_init: "wfq_init q \<Longrightarrow> wfq_inv q"
  using clampWeight_ok
  by (fastforce simp: wfq_init_def wfq_inv_def NewWfqQueue_def time_ok_def weight_ok_def ran_def
      intro!: empty_pq_inv split: option.splits)

lemma wfq_inv_step: "wfq_inv q \<Longrightarrow> wfq_step q q' \<Longrightarrow> wfq_inv q'"
  by (erule wfq_step.cases)
    (auto intro: wfq_inv_enqueue wfq_inv_dispatch wfq_inv_set_weight clampWeight_ok)

interpretation wfq: safety wfq_init wfq_step wfq_inv
  by unfold_locales (auto intro: wfq_inv_init wfq_inv_step)


definition demo_item :: "string \<Rightarrow> string \<Rightarrow> rat \<Rightarrow> WorkItem" where
  "demo_item i a c = \<lparr>wi_ID = i, wi_ProjectAlias = a, wi_EnqueuedAt = 0, wi_Cost = Fin c\<rparr>"

definition demo_wfq :: WfqQueue where
  "demo_wfq = fst (Enqueue (NewWfqQueue Map.empty) ''a'' (demo_item ''i1'' ''a'' 1))"

lemma demo_wfq_reach: "reach wfq_init wfq_step demo_wfq"
  unfolding demo_wfq_def
proof (rule reach_step)
  show "reach wfq_init wfq_step (NewWfqQueue Map.empty)"
    by (rule reach_init) (auto simp: wfq_init_def intro!: exI [of _ Map.empty])
  show "wfq_step (NewWfqQueue Map.empty)
      (fst (Enqueue (NewWfqQueue Map.empty) ''a'' (demo_item ''i1'' ''a'' 1)))"
    by (rule wfq_step.enqueue) (simp_all add: demo_item_def)
qed


end
