(* ===== verification/Scheduler.thy ===== *)
theory Scheduler
  imports Sha256 Go_Float
begin

text \<open>
  The scheduler of \<^verbatim>\<open>src/internal/scheduler\<close>: schedules and their validation (scheduler.go),
  cron expressions with the doctrine's granularity floor (cron.go), jitter (jitter.go), one-shot
  tasks and routines (task.go, routine.go), the count of missed ticks and its coalescing
  (coalesce.go), the miss policies (miss_policy.go), one fire attempt (fire.go), git polling
  (gitpoll.go) and the bearer token of an HTTP trigger (http_trigger.go).

  The cron library is a parameter: \<open>parse\<close> maps an expression to the function that gives the next
  tick strictly after a time, or \<open>None\<close> for an expression it refuses. That function returns the
  zero time when it finds no tick.
\<close>

subsection \<open>Schedules (scheduler.go)\<close>

datatype Tier = TierRoutine | TierTask | TierLoop | TierOther int

fun Tier_String :: "Tier \<Rightarrow> string" where
  "Tier_String TierRoutine = ''routine''"
| "Tier_String TierTask = ''task''"
| "Tier_String TierLoop = ''loop''"
| "Tier_String (TierOther n) = ''tier('' @ dec_int n @ '')''"

datatype TriggerType = TriggerCron | TriggerHTTP | TriggerGitPoll | TriggerOther int

fun TriggerType_String :: "TriggerType \<Rightarrow> string" where
  "TriggerType_String TriggerCron = ''cron''"
| "TriggerType_String TriggerHTTP = ''http''"
| "TriggerType_String TriggerGitPoll = ''git-poll''"
| "TriggerType_String (TriggerOther n) = ''trigger('' @ dec_int n @ '')''"

datatype MissPolicy =
    MissPolicySkip | MissPolicyCatchUpBounded | MissPolicyCoalesce | MissPolicyNotifyOnly | MissPolicyOther int

datatype Status = StatusEnabled | StatusDisabled | StatusFailed | StatusOther int

datatype Outcome = OutcomeSuccess | OutcomeFailed | OutcomeSkipped | OutcomeRateLimited

record TriggerConfig =
  CronExpr :: string
  tc_BearerTokenHash :: string
  RepoURL :: string
  tc_Branch :: string
  PollIntervalSeconds :: int
  LastSeenSHA :: string

record Schedule =
  sch_ID :: string
  sch_Tier :: Tier
  ProjectAlias :: string
  Action :: string
  sch_TriggerType :: TriggerType
  sch_TriggerConfig :: TriggerConfig
  sch_MissPolicy :: MissPolicy
  MissLookback :: duration
  CoalesceWindow :: duration
  LastRunAt :: time
  NextRunAt :: time
  sch_Status :: Status
  CreatedAt :: time

datatype sched_err =
    ErrInvalidSchedule string
  | ErrInvalidCron string
  | ErrRateLimited
  | ErrQuotaCap string
  | QuotaFailed string
  | DispatchFailed string
  | PollFailed string

definition DueAt :: "Schedule \<Rightarrow> time \<Rightarrow> bool" where
  "DueAt s t \<longleftrightarrow> sch_Status s = StatusEnabled \<and> NextRunAt s \<noteq> 0 \<and> \<not> t < NextRunAt s"

definition trigger_error :: "Schedule \<Rightarrow> string option" where
  "trigger_error s =
     (case sch_TriggerType s of
        TriggerCron \<Rightarrow> if CronExpr (sch_TriggerConfig s) = '''' then Some ''TriggerCron requires CronExpr'' else None
      | TriggerHTTP \<Rightarrow>
          if tc_BearerTokenHash (sch_TriggerConfig s) = '''' then Some ''TriggerHTTP requires BearerTokenHash'' else None
      | TriggerGitPoll \<Rightarrow> if RepoURL (sch_TriggerConfig s) = '''' then Some ''TriggerGitPoll requires RepoURL'' else None
      | TriggerOther n \<Rightarrow> Some (''unknown TriggerType '' @ dec_int n))"

definition Schedule_Validate :: "Schedule \<Rightarrow> sched_err option" where
  "Schedule_Validate s =
     (if sch_ID s = '''' then Some (ErrInvalidSchedule ''empty ID'')
      else if ProjectAlias s = '''' then Some (ErrInvalidSchedule ''empty ProjectAlias'')
      else if Action s = '''' then Some (ErrInvalidSchedule ''empty Action'')
      else if MissLookback s < 0 then Some (ErrInvalidSchedule ''negative MissLookback'')
      else if CoalesceWindow s < 0 then Some (ErrInvalidSchedule ''negative CoalesceWindow'')
      else case trigger_error s of Some e \<Rightarrow> Some (ErrInvalidSchedule e)
      | None \<Rightarrow>
        (case sch_MissPolicy s of
           MissPolicyOther n \<Rightarrow> Some (ErrInvalidSchedule (''unknown MissPolicy '' @ dec_int n))
         | _ \<Rightarrow>
           (case sch_Status s of
              StatusOther n \<Rightarrow> Some (ErrInvalidSchedule (''unknown Status '' @ dec_int n))
            | _ \<Rightarrow> if CreatedAt s = 0 then Some (ErrInvalidSchedule ''zero CreatedAt'') else None)))"

record HistoryEntry =
  he_ScheduleID :: string
  FiredAt :: time
  he_Outcome :: Outcome
  he_Reason :: string
  he_CostUSD :: f64
  he_DurationMs :: int

record MissedFire =
  mf_ScheduleID :: string
  MissedCount :: nat
  LookbackUsed :: duration
  mf_From :: time
  mf_To :: time

record BackfillWindow =
  bw_From :: time
  bw_To :: time

subsection \<open>Doctrine names and cron expressions (cron.go)\<close>

abbreviation NameDefault :: string where "NameDefault \<equiv> ''default''"
abbreviation NameMaxScope :: string where "NameMaxScope \<equiv> ''max-scope''"
abbreviation NameCapaFirewall :: string where "NameCapaFirewall \<equiv> ''capa-firewall''"

definition granularityFloor :: "string \<Rightarrow> duration" where
  "granularityFloor d =
     (if d = NameMaxScope then 30 * second else if d = NameCapaFirewall then 5 * minute else minute)"

definition extendedTokens :: "string list" where
  "extendedTokens =
     [''L'', ''W'', ''?'', ''JAN'', ''FEB'', ''MAR'', ''APR'', ''MAY'', ''JUN'', ''JUL'', ''AUG'', ''SEP'',
      ''OCT'', ''NOV'', ''DEC'', ''MON'', ''TUE'', ''WED'', ''THU'', ''FRI'', ''SAT'', ''SUN'']"

definition isCronDelim :: "char \<Rightarrow> bool" where
  "isCronDelim c \<longleftrightarrow> c = CHR '' '' \<or> c = CHR '','' \<or> c = CHR ''/'' \<or> c = CHR ''-''"

text \<open>\<open>prev\<close> is the byte before the scanned rest, \<open>None\<close> at the start of the string.\<close>

fun containsToken :: "char option \<Rightarrow> string \<Rightarrow> string \<Rightarrow> bool" where
  "containsToken prev [] tok = False"
| "containsToken prev (c # s) tok =
     (take (length tok) (c # s) = tok
        \<and> (case prev of None \<Rightarrow> True | Some p \<Rightarrow> isCronDelim p)
        \<and> (case drop (length tok) (c # s) of [] \<Rightarrow> True | e # _ \<Rightarrow> isCronDelim e)
      \<or> containsToken (Some c) s tok)"

definition is_digit :: "char \<Rightarrow> bool" where
  "is_digit c \<longleftrightarrow> 48 \<le> (of_char c :: nat) \<and> (of_char c :: nat) \<le> 57"

fun containsAttachedExtension :: "char option \<Rightarrow> string \<Rightarrow> string \<Rightarrow> bool" where
  "containsAttachedExtension prev [] ext = False"
| "containsAttachedExtension prev (c # s) ext =
     (take (length ext) (c # s) = ext
        \<and> (case prev of None \<Rightarrow> False | Some p \<Rightarrow> is_digit p)
        \<and> (case drop (length ext) (c # s) of [] \<Rightarrow> True | e # _ \<Rightarrow> isCronDelim e)
      \<or> containsAttachedExtension (Some c) s ext)"

text \<open>The number of bytes of the white space a string starts with, 0 if it does not.\<close>

definition space_len :: "string \<Rightarrow> nat" where
  "space_len s =
     (case s of
        [] \<Rightarrow> 0
      | a # s1 \<Rightarrow>
          (if space1 a then 1
           else (case s1 of
             [] \<Rightarrow> 0
           | b # s2 \<Rightarrow>
               (if space2 a b then 2
                else (case s2 of [] \<Rightarrow> 0 | c # _ \<Rightarrow> if space3 a b c then 3 else 0)))))"

text \<open>\<open>strings.Fields\<close>.\<close>

function fields_from :: "string \<Rightarrow> string \<Rightarrow> string list" where
  "fields_from acc s =
     (if s = [] then (if acc = [] then [] else [acc])
      else if space_len s > 0
      then (if acc = [] then [] else [acc]) @ fields_from [] (drop (space_len s) s)
      else fields_from (acc @ [hd s]) (tl s))"
  by pat_completeness auto
termination
  by (relation "measure (\<lambda>(acc, s). length s)") (auto simp: length_greater_0_conv)

declare fields_from.simps [simp del]

text \<open>\<open>strings.ToUpper\<close> on ASCII letters.\<close>

definition to_upper :: "char \<Rightarrow> char" where
  "to_upper c = (if 97 \<le> (of_char c :: nat) \<and> (of_char c :: nat) \<le> 122 then char_of ((of_char c :: nat) - 32) else c)"

type_synonym cron_lib = "string \<Rightarrow> (time \<Rightarrow> time) option"

text \<open>January 1, 2030, midnight UTC: 741077 days after the zero time.\<close>

definition cron_t0 :: time where
  "cron_t0 = 741077 * (24 * hour)"

definition ParseCron :: "cron_lib \<Rightarrow> string \<Rightarrow> string \<Rightarrow> sched_err + (time \<Rightarrow> time)" where
  "ParseCron parse expr d =
     (if expr = '''' then Inl (ErrInvalidCron ''empty expression'')
      else if expr \<noteq> trim_space expr then Inl (ErrInvalidCron ''leading/trailing whitespace not allowed'')
      else if CHR ''#'' \<in> set expr then Inl (ErrInvalidCron ''embedded comments not allowed'')
      else if take 1 expr = ''@'' then Inl (ErrInvalidCron ''descriptor not allowed'')
      else if length (fields_from [] expr) \<noteq> 5 then Inl (ErrInvalidCron ''expected 5-field cron'')
      else if list_ex (containsToken None (map to_upper expr)) extendedTokens
      then Inl (ErrInvalidCron ''extended token not allowed'')
      else if list_ex (containsAttachedExtension None (map to_upper expr)) [''L'', ''W'']
      then Inl (ErrInvalidCron ''extended modifier not allowed'')
      else case parse expr of
        None \<Rightarrow> Inl (ErrInvalidCron ''cron'')
      | Some sched \<Rightarrow>
          (let t1 = sched cron_t0; t2 = sched t1 in
           if tsub t2 t1 < granularityFloor d then Inl (ErrInvalidCron ''tick interval below doctrine floor'')
           else Inr sched))"

subsection \<open>Jitter (jitter.go)\<close>

abbreviation jitterRecurringCap :: duration where "jitterRecurringCap \<equiv> 15 * minute"
abbreviation jitterOneShotCap :: duration where "jitterOneShotCap \<equiv> 90 * second"
abbreviation jitterRecurringThreshold :: duration where "jitterRecurringThreshold \<equiv> hour"

text \<open>\<open>binary.BigEndian.Uint64\<close> of the first eight bytes.\<close>

definition be_uint64 :: "string \<Rightarrow> int" where
  "be_uint64 b = foldl (\<lambda>acc c. 256 * acc + of_char c) 0 (take 8 b)"

definition ComputeJitter :: "string \<Rightarrow> duration \<Rightarrow> duration" where
  "ComputeJitter routineID period =
     (if period \<le> 0 then 0
      else
        (let h = be_uint64 (sha256 routineID);
             bucket0 = go_quot period 10;
             bucket = (if bucket0 \<le> 0 then 1 else bucket0);
             raw = h mod bucket;
             maxOffset = (if period \<ge> jitterRecurringThreshold then jitterRecurringCap else jitterOneShotCap)
         in if raw > maxOffset then maxOffset else raw))"

subsection \<open>Tasks and routines (task.go, routine.go)\<close>

record TaskParams =
  tp_ID :: string
  tp_ProjectAlias :: string
  tp_Action :: string
  FireAt :: time
  tp_MissPolicy :: MissPolicy
  tp_MissLookback :: duration

definition empty_trigger :: TriggerConfig where
  "empty_trigger = \<lparr>CronExpr = '''', tc_BearerTokenHash = '''', RepoURL = '''', tc_Branch = '''',
     PollIntervalSeconds = 0, LastSeenSHA = ''''\<rparr>"

definition NewTask :: "TaskParams \<Rightarrow> time \<Rightarrow> sched_err + Schedule" where
  "NewTask p now =
     (if tp_ID p = '''' then Inl (ErrInvalidSchedule ''empty ID'')
      else if tp_ProjectAlias p = '''' then Inl (ErrInvalidSchedule ''empty ProjectAlias'')
      else if tp_Action p = '''' then Inl (ErrInvalidSchedule ''empty Action'')
      else if \<not> now < FireAt p then Inl (ErrInvalidSchedule ''FireAt must be after now'')
      else
        (let period = tsub (FireAt p) now;
             jitter = ComputeJitter (tp_ID p) period;
             s = \<lparr>sch_ID = tp_ID p, sch_Tier = TierTask, ProjectAlias = tp_ProjectAlias p, Action = tp_Action p,
                  sch_TriggerType = TriggerCron,
                  sch_TriggerConfig = empty_trigger\<lparr>CronExpr := ''* * * * *''\<rparr>,
                  sch_MissPolicy = tp_MissPolicy p, MissLookback = tp_MissLookback p, CoalesceWindow = 0,
                  LastRunAt = 0, NextRunAt = FireAt p + jitter, sch_Status = StatusEnabled, CreatedAt = now\<rparr>
         in case Schedule_Validate s of Some e \<Rightarrow> Inl e | None \<Rightarrow> Inr s))"

definition MarkTaskFired :: "Schedule option \<Rightarrow> Schedule option" where
  "MarkTaskFired s =
     (case s of None \<Rightarrow> None
      | Some x \<Rightarrow> if sch_Tier x \<noteq> TierTask then Some x else Some (x\<lparr>sch_Status := StatusDisabled\<rparr>))"

definition NewRoutine :: "cron_lib \<Rightarrow> Schedule option \<Rightarrow> string \<Rightarrow> sched_err + Schedule \<times> (time \<Rightarrow> time)" where
  "NewRoutine parse s d =
     (case s of None \<Rightarrow> Inl (ErrInvalidSchedule ''nil Schedule'')
      | Some x \<Rightarrow>
          (if sch_Tier x \<noteq> TierRoutine then Inl (ErrInvalidSchedule ''tier != TierRoutine'')
           else if sch_TriggerType x \<noteq> TriggerCron then Inl (ErrInvalidSchedule ''routine requires TriggerCron'')
           else case Schedule_Validate x of Some e \<Rightarrow> Inl e
           | None \<Rightarrow>
             (case ParseCron parse (CronExpr (sch_TriggerConfig x)) d of
                Inl e \<Rightarrow> Inl e
              | Inr expr \<Rightarrow> Inr (x, expr))))"

definition Plan :: "Schedule \<times> (time \<Rightarrow> time) \<Rightarrow> time \<Rightarrow> time" where
  "Plan r now =
     (let base = snd r now; period = tsub base now
      in base + ComputeJitter (sch_ID (fst r)) period)"

definition Advance :: "Schedule \<times> (time \<Rightarrow> time) \<Rightarrow> time \<Rightarrow> Schedule \<times> (time \<Rightarrow> time)" where
  "Advance r after = ((fst r)\<lparr>NextRunAt := Plan r after\<rparr>, snd r)"

subsection \<open>Missed ticks (coalesce.go)\<close>

text \<open>The walk over the ticks; it returns them in order, or never.\<close>

partial_function (option) tick_walk :: "(time \<Rightarrow> time) \<Rightarrow> time \<Rightarrow> time \<Rightarrow> time list \<Rightarrow> time list option" where
  "tick_walk nxt now t ticks =
     (if t < now \<or> t = now then tick_walk nxt now (nxt t) (ticks @ [t]) else Some ticks)"

definition no_missed :: "Schedule \<Rightarrow> MissedFire" where
  "no_missed s = \<lparr>mf_ScheduleID = sch_ID s, MissedCount = 0, LookbackUsed = 0, mf_From = 0, mf_To = 0\<rparr>"

text \<open>Start of the walk and the lookback used.\<close>

definition clamp_gap :: "Schedule \<Rightarrow> time \<Rightarrow> time \<times> duration" where
  "clamp_gap s now =
     (if MissLookback s > 0 \<and> tsub now (LastRunAt s) > MissLookback s
      then (now - MissLookback s, MissLookback s)
      else (LastRunAt s, tsub now (LastRunAt s)))"

definition ComputeMissed :: "cron_lib \<Rightarrow> Schedule \<Rightarrow> time \<Rightarrow> MissedFire option" where
  "ComputeMissed parse s now =
     (if LastRunAt s = 0 then Some (no_missed s)
      else if sch_TriggerType s = TriggerHTTP then Some (no_missed s)
      else if \<not> LastRunAt s < now then Some (no_missed s)
      else
        (let (clampedFrom, used) = clamp_gap s now;
             out = (no_missed s)\<lparr>LookbackUsed := used\<rparr> in
         case sch_TriggerType s of
           TriggerCron \<Rightarrow>
             (case ParseCron parse (CronExpr (sch_TriggerConfig s)) NameMaxScope of
                Inl _ \<Rightarrow> Some out
              | Inr expr \<Rightarrow>
                  map_option (\<lambda>ticks.
                    out\<lparr>MissedCount := length ticks - 1,
                        mf_From := (if ticks \<noteq> [] then hd ticks else 0), mf_To := now\<rparr>)
                    (tick_walk expr now (expr clampedFrom) []))
         | TriggerGitPoll \<Rightarrow>
             (let interval0 = i64 (PollIntervalSeconds (sch_TriggerConfig s) * second);
                  interval = (if interval0 < minute then minute else interval0);
                  gap = tsub now clampedFrom;
                  n = go_quot gap interval - 1
              in Some (out\<lparr>MissedCount := nat n, mf_From := clampedFrom + interval, mf_To := now\<rparr>))
         | _ \<Rightarrow> Some out))"

definition Coalesce :: "Schedule option \<Rightarrow> MissedFire \<Rightarrow> BackfillWindow option" where
  "Coalesce s missed =
     (case s of None \<Rightarrow> None
      | Some x \<Rightarrow>
          (if sch_MissPolicy x \<noteq> MissPolicyCoalesce then None
           else if MissedCount missed = 0 then None
           else Some \<lparr>bw_From = mf_From missed, bw_To = mf_To missed\<rparr>))"

subsection \<open>Miss policies (miss_policy.go)\<close>

definition DoctrineMissPolicy :: "string \<Rightarrow> MissPolicy" where
  "DoctrineMissPolicy d =
     (if d = NameDefault then MissPolicySkip
      else if d = NameMaxScope then MissPolicyCatchUpBounded
      else if d = NameCapaFirewall then MissPolicyNotifyOnly
      else MissPolicySkip)"

definition EffectiveMissPolicy :: "Schedule option \<Rightarrow> string \<Rightarrow> MissPolicy" where
  "EffectiveMissPolicy s d =
     (case s of None \<Rightarrow> DoctrineMissPolicy d
      | Some x \<Rightarrow>
          (if d \<noteq> NameDefault \<and> sch_MissPolicy x = MissPolicySkip then DoctrineMissPolicy d
           else sch_MissPolicy x))"

subsection \<open>One fire attempt (fire.go)\<close>

datatype EventKind =
    EventRoutineFired | EventRoutineFailed | EventRoutineSkipped | EventMissedFire | EventQuotaCapReached
  | EventRateLimited | EventLoopBound | EventLoopReleased

record sched_event =
  se_Kind :: EventKind
  se_ScheduleID :: string
  se_ProjectAlias :: string
  se_At :: time
  se_Reason :: string
  se_CostUSD :: f64

record DispatchInput =
  di_ProjectAlias :: string
  di_Action :: string
  di_BackfillWindow :: "BackfillWindow option"
  di_Metadata :: "(string \<times> string) list"

text \<open>
  What a fire attempt asks of others: the k-th dispatch, the k-th question to the rate limiter, the
  quota pre-flight, the cron library, and the milliseconds a dispatch takes.
\<close>

record FireDeps =
  fd_Now :: time
  fd_Doctrine :: string
  fd_Quota :: "string + bool \<times> string"
  fd_Dispatch :: "nat \<Rightarrow> DispatchInput \<Rightarrow> string + f64 \<times> int"
  fd_Allow :: "nat \<Rightarrow> bool"
  fd_Cron :: cron_lib
  fd_Elapsed :: "nat \<Rightarrow> int"

record fire_world =
  fw_sched :: Schedule
  fw_events :: "sched_event list"
  fw_history :: "HistoryEntry list"
  fw_dispatched :: "DispatchInput list"
  fw_asked :: nat
  fw_next_runs :: "(time \<times> time) list"

definition sched_emit :: "fire_world \<Rightarrow> EventKind \<Rightarrow> time \<Rightarrow> string \<Rightarrow> f64 \<Rightarrow> fire_world" where
  "sched_emit w k now reason cost =
     w\<lparr>fw_events := fw_events w @ [\<lparr>se_Kind = k, se_ScheduleID = sch_ID (fw_sched w),
         se_ProjectAlias = ProjectAlias (fw_sched w), se_At = now, se_Reason = reason, se_CostUSD = cost\<rparr>]\<rparr>"

definition AppendHistory :: "fire_world \<Rightarrow> time \<Rightarrow> Outcome \<Rightarrow> string \<Rightarrow> f64 \<Rightarrow> int \<Rightarrow> fire_world" where
  "AppendHistory w now oc reason cost dur =
     w\<lparr>fw_history := fw_history w @ [\<lparr>he_ScheduleID = sch_ID (fw_sched w), FiredAt = now, he_Outcome = oc,
         he_Reason = reason, he_CostUSD = cost, he_DurationMs = dur\<rparr>]\<rparr>"

definition RateLimit_Allow :: "FireDeps \<Rightarrow> fire_world \<Rightarrow> bool \<times> fire_world" where
  "RateLimit_Allow deps w = (fd_Allow deps (fw_asked w), w\<lparr>fw_asked := Suc (fw_asked w)\<rparr>)"

definition nextRunAfter :: "cron_lib \<Rightarrow> Schedule \<Rightarrow> string \<Rightarrow> time \<Rightarrow> time" where
  "nextRunAfter parse s d now =
     (if sch_Tier s \<noteq> TierRoutine \<or> sch_TriggerType s \<noteq> TriggerCron then 0
      else case ParseCron parse (CronExpr (sch_TriggerConfig s)) d of
        Inl _ \<Rightarrow> 0
      | Inr expr \<Rightarrow> (let base = expr now in base + ComputeJitter (sch_ID s) (tsub base now)))"

definition dispatch_input :: "Schedule \<Rightarrow> BackfillWindow option \<Rightarrow> DispatchInput" where
  "dispatch_input s backfill =
     \<lparr>di_ProjectAlias = ProjectAlias s, di_Action = Action s, di_BackfillWindow = backfill,
      di_Metadata = [(''schedule_id'', sch_ID s), (''tier'', Tier_String (sch_Tier s)),
                     (''trigger_type'', TriggerType_String (sch_TriggerType s))]\<rparr>"

definition dispatchOne ::
  "FireDeps \<Rightarrow> time \<Rightarrow> BackfillWindow option \<Rightarrow> fire_world \<Rightarrow> fire_world \<times> sched_err option" where
  "dispatchOne deps now backfill w =
     (let k = length (fw_dispatched w);
          inp = dispatch_input (fw_sched w) backfill;
          w1 = w\<lparr>fw_dispatched := fw_dispatched w @ [inp]\<rparr>;
          durationMs = fd_Elapsed deps k in
      case fd_Dispatch deps k inp of
        Inl e \<Rightarrow>
          (AppendHistory (sched_emit w1 EventRoutineFailed now e (Fin 0)) now OutcomeFailed e (Fin 0) durationMs,
           Some (DispatchFailed e))
      | Inr (cost, dur) \<Rightarrow>
          (let w2 = AppendHistory (sched_emit w1 EventRoutineFired now '''' cost) now OutcomeSuccess '''' cost
                      (if dur = 0 then durationMs else dur);
               s1 = (fw_sched w2)\<lparr>LastRunAt := now\<rparr>;
               nxt = nextRunAfter (fd_Cron deps) s1 (fd_Doctrine deps) now in
           if nxt \<noteq> 0
           then (w2\<lparr>fw_sched := s1\<lparr>NextRunAt := nxt\<rparr>, fw_next_runs := fw_next_runs w2 @ [(now, nxt)]\<rparr>, None)
           else (w2\<lparr>fw_sched := s1\<rparr>, None)))"

definition fireCurrentTick ::
  "FireDeps \<Rightarrow> time \<Rightarrow> BackfillWindow option \<Rightarrow> fire_world \<Rightarrow> fire_world \<times> sched_err option" where
  "fireCurrentTick deps now backfill w =
     (case fd_Quota deps of
        Inl e \<Rightarrow> (w, Some (QuotaFailed e))
      | Inr (allowed, reason) \<Rightarrow>
          (if \<not> allowed
           then (sched_emit w EventQuotaCapReached now reason (Fin 0), Some (ErrQuotaCap reason))
           else
             (let (ok, w1) = RateLimit_Allow deps w in
              if \<not> ok
              then (AppendHistory (sched_emit w1 EventRateLimited now ''1/30s/project rate limit'' (Fin 0))
                      now OutcomeRateLimited ''rate-limited'' (Fin 0) 0,
                    Some ErrRateLimited)
              else dispatchOne deps now backfill w1)))"

text \<open>The catch-up loop; an error of a dispatch leaves \<open>Fire\<close>.\<close>

fun catch_up :: "FireDeps \<Rightarrow> time \<Rightarrow> nat \<Rightarrow> fire_world \<Rightarrow> fire_world \<times> sched_err option" where
  "catch_up deps now 0 w = (w, None)"
| "catch_up deps now (Suc n) w =
     (let (ok, w1) = RateLimit_Allow deps w in
      if \<not> ok then (sched_emit w1 EventRateLimited now ''1/30s/project rate limit (catch-up)'' (Fin 0), None)
      else (case dispatchOne deps now None w1 of
              (w2, Some e) \<Rightarrow> (w2, Some e)
            | (w2, None) \<Rightarrow> catch_up deps now n w2))"

fun skip_missed :: "time \<Rightarrow> nat \<Rightarrow> fire_world \<Rightarrow> fire_world" where
  "skip_missed now 0 w = w"
| "skip_missed now (Suc n) w = skip_missed now n (sched_emit w EventRoutineSkipped now ''miss-policy=skip'' (Fin 0))"

text \<open>Applying the miss policy: the world, the error that ends \<open>Fire\<close>, and the window to backfill.\<close>

definition apply_missed ::
  "FireDeps \<Rightarrow> time \<Rightarrow> MissedFire \<Rightarrow> MissPolicy \<Rightarrow> fire_world \<Rightarrow> (fire_world \<times> sched_err option) \<times> BackfillWindow option" where
  "apply_missed deps now missed policy w =
     (if MissedCount missed > 0
      then (case policy of
              MissPolicySkip \<Rightarrow> ((skip_missed now (MissedCount missed) w, None), None)
            | MissPolicyNotifyOnly \<Rightarrow>
                ((sched_emit w EventMissedFire now
                    (''missed='' @ dec_nat (MissedCount missed) @ '' (capa-firewall: action needed)'') (Fin 0), None), None)
            | MissPolicyCoalesce \<Rightarrow> ((w, None), Coalesce (Some (fw_sched w)) missed)
            | MissPolicyCatchUpBounded \<Rightarrow> (catch_up deps now (MissedCount missed) w, None)
            | MissPolicyOther _ \<Rightarrow> ((w, None), None))
      else ((w, None), None))"

text \<open>\<open>None\<close> is a fire attempt that does not return.\<close>

definition Fire :: "FireDeps \<Rightarrow> fire_world \<Rightarrow> (fire_world \<times> sched_err option) option" where
  "Fire deps w =
     (let s = fw_sched w in
      case Schedule_Validate s of
        Some e \<Rightarrow> Some (w, Some e)
      | None \<Rightarrow>
          (let now = fd_Now deps in
           case ComputeMissed (fd_Cron deps) s now of
             None \<Rightarrow> None
           | Some missed \<Rightarrow>
               (case apply_missed deps now missed (EffectiveMissPolicy (Some s) (fd_Doctrine deps)) w of
                  ((w1, Some e), _) \<Rightarrow> Some (w1, Some e)
                | ((w1, None), backfill) \<Rightarrow> Some (fireCurrentTick deps now backfill w1))))"

subsection \<open>Git polling (gitpoll.go)\<close>

definition isHexSHA :: "string \<Rightarrow> bool" where
  "isHexSHA s \<longleftrightarrow>
     (length s = 40 \<or> length s = 64)
     \<and> list_all (\<lambda>c. is_digit c \<or> 97 \<le> (of_char c :: nat) \<and> (of_char c :: nat) \<le> 102
                      \<or> 65 \<le> (of_char c :: nat) \<and> (of_char c :: nat) \<le> 70) s"

text \<open>\<open>poll\<close> is what \<open>HeadSHA\<close> returns.\<close>

definition GitPollOnce :: "Schedule \<Rightarrow> string + string \<Rightarrow> Schedule \<times> (sched_err + bool)" where
  "GitPollOnce s poll =
     (if sch_TriggerType s \<noteq> TriggerGitPoll then (s, Inl (ErrInvalidSchedule ''trigger type != GitPoll''))
      else case poll of
        Inl e \<Rightarrow> (s, Inl (PollFailed e))
      | Inr sha \<Rightarrow>
          (let previous = LastSeenSHA (sch_TriggerConfig s);
               s1 = s\<lparr>sch_TriggerConfig := (sch_TriggerConfig s)\<lparr>LastSeenSHA := sha\<rparr>\<rparr> in
           if previous = '''' then (s1, Inr False)
           else if previous = sha then (s1, Inr False)
           else (s1, Inr True)))"

subsection \<open>Bearer tokens (http_trigger.go)\<close>

definition b64_char :: "nat \<Rightarrow> char" where
  "b64_char n =
     (if n < 26 then char_of (65 + n) else if n < 52 then char_of (71 + n)
      else if n < 62 then char_of (n - 4) else if n = 62 then CHR ''-'' else CHR ''_'')"

text \<open>\<open>base64.RawURLEncoding\<close>.\<close>

fun b64_encode :: "string \<Rightarrow> string" where
  "b64_encode [] = []"
| "b64_encode [a] =
     (let x = (of_char a :: nat) in [b64_char (x div 4), b64_char ((x mod 4) * 16)])"
| "b64_encode [a, b] =
     (let x = (of_char a :: nat); y = (of_char b :: nat)
      in [b64_char (x div 4), b64_char ((x mod 4) * 16 + y div 16), b64_char ((y mod 16) * 4)])"
| "b64_encode (a # b # c # s) =
     (let x = (of_char a :: nat); y = (of_char b :: nat); z = (of_char c :: nat)
      in [b64_char (x div 4), b64_char ((x mod 4) * 16 + y div 16), b64_char ((y mod 16) * 4 + z div 64),
          b64_char (z mod 64)] @ b64_encode s)"

definition hex_val :: "char \<Rightarrow> nat option" where
  "hex_val c =
     (let n = (of_char c :: nat) in
      if 48 \<le> n \<and> n \<le> 57 then Some (n - 48)
      else if 97 \<le> n \<and> n \<le> 102 then Some (n - 87)
      else if 65 \<le> n \<and> n \<le> 70 then Some (n - 55)
      else None)"

text \<open>\<open>hex.DecodeString\<close>.\<close>

fun hex_decode :: "string \<Rightarrow> string option" where
  "hex_decode [] = Some []"
| "hex_decode [c] = None"
| "hex_decode (a # b # s) =
     (case (hex_val a, hex_val b, hex_decode s) of
        (Some x, Some y, Some r) \<Rightarrow> Some (char_of (16 * x + y) # r)
      | _ \<Rightarrow> None)"

text \<open>\<open>rand\<close> is what the random source returns for 32 bytes.\<close>

definition GenerateBearerToken :: "string option \<Rightarrow> (string \<times> string) option" where
  "GenerateBearerToken rand =
     map_option (\<lambda>buf. let raw = b64_encode buf in (raw, hex_encode (sha256 raw))) rand"

definition VerifyHttpTrigger :: "Schedule option \<Rightarrow> string \<Rightarrow> sched_err option" where
  "VerifyHttpTrigger s providedRaw =
     (case s of None \<Rightarrow> Some (ErrInvalidSchedule ''nil Schedule'')
      | Some x \<Rightarrow>
          (if sch_TriggerType x \<noteq> TriggerHTTP then Some (ErrInvalidSchedule ''trigger type != HTTP'')
           else if tc_BearerTokenHash (sch_TriggerConfig x) = '''' then Some (ErrInvalidSchedule ''empty BearerTokenHash'')
           else case hex_decode (tc_BearerTokenHash (sch_TriggerConfig x)) of
             None \<Rightarrow> Some (ErrInvalidSchedule ''invalid BearerTokenHash hex'')
           | Some stored \<Rightarrow>
               (if stored \<noteq> sha256 providedRaw then Some (ErrInvalidSchedule ''bearer token mismatch'')
                else None)))"

subsection \<open>The walk over the ticks\<close>

text \<open>
  What the cron library documents of the next-tick function: it is the least tick strictly after
  its argument. The law is asked for times up to \<open>now\<close> only.
\<close>

definition cron_law :: "(time \<Rightarrow> time) \<Rightarrow> (time \<Rightarrow> bool) \<Rightarrow> time \<Rightarrow> bool" where
  "cron_law nxt tick now \<longleftrightarrow>
     (\<forall>t \<le> now. t < nxt t \<and> tick (nxt t) \<and> (\<forall>u. t < u \<and> tick u \<longrightarrow> nxt t \<le> u))"

lemma tick_walk_from:
  assumes law: "cron_law nxt tick now" and "tick t"
  shows "\<exists>ts. tick_walk nxt now t acc = Some (acc @ ts) \<and> sorted_wrt (<) ts
    \<and> set ts = {u. t \<le> u \<and> u \<le> now \<and> tick u}"
  using assms(2)
proof (induction "nat (now + 1 - t)" arbitrary: t acc rule: less_induct)
  case less
  show ?case
  proof (cases "t \<le> now")
    case False
    then show ?thesis by (subst tick_walk.simps) (intro exI [of _ "[]"], auto)
  next
    case True
    with law have n: "t < nxt t" "tick (nxt t)" "\<And>u. t < u \<Longrightarrow> tick u \<Longrightarrow> nxt t \<le> u"
      by (auto simp: cron_law_def)
    have "nat (now + 1 - nxt t) < nat (now + 1 - t)" using n(1) True by linarith
    from less.hyps [OF this n(2), of "acc @ [t]"] obtain ts where
      ts: "tick_walk nxt now (nxt t) (acc @ [t]) = Some (acc @ t # ts)" "sorted_wrt (<) ts"
        "set ts = {u. nxt t \<le> u \<and> u \<le> now \<and> tick u}" by auto
    have "tick_walk nxt now t acc = Some (acc @ t # ts)" using True ts(1) by (subst tick_walk.simps) auto
    moreover have "sorted_wrt (<) (t # ts)" using ts(2,3) n(1) by auto
    moreover have "set (t # ts) = {u. t \<le> u \<and> u \<le> now \<and> tick u}"
      using ts(3) n less.prems True by force
    ultimately show ?thesis by blast
  qed
qed

lemma tick_walk_total:
  assumes law: "cron_law nxt tick now" and "from \<le> now"
  shows "\<exists>ts. tick_walk nxt now (nxt from) [] = Some ts \<and> sorted_wrt (<) ts
    \<and> set ts = {u. from < u \<and> u \<le> now \<and> tick u}"
proof -
  have n: "from < nxt from" "tick (nxt from)" "\<And>u. from < u \<Longrightarrow> tick u \<Longrightarrow> nxt from \<le> u"
    using assms by (auto simp: cron_law_def)
  have "{u. nxt from \<le> u \<and> u \<le> now \<and> tick u} = {u. from < u \<and> u \<le> now \<and> tick u}" using n by force
  with tick_walk_from [OF law n(2), of "[]"] show ?thesis by simp
qed

lemma sorted_hd_Min: "sorted_wrt (<) (xs :: int list) \<Longrightarrow> xs \<noteq> [] \<Longrightarrow> hd xs = Min (set xs)"
proof (cases xs)
  case (Cons a ys)
  assume "sorted_wrt (<) xs"
  with Cons have "\<forall>y \<in> set xs. a \<le> y" by auto
  then have "Min (set xs) = a" using Cons by (intro Min_eqI) auto
  with Cons show ?thesis by simp
qed simp

lemma sorted_length_card: "sorted_wrt (<) (xs :: int list) \<Longrightarrow> length xs = card (set xs)"
  by (metis distinct_card strict_sorted_iff)

text \<open>Where the count starts: the last run, or the lookback's horizon if that is later.\<close>

definition count_from :: "Schedule \<Rightarrow> time \<Rightarrow> time" where
  "count_from s now = (if MissLookback s > 0 then max (LastRunAt s) (now - MissLookback s) else LastRunAt s)"

lemma clamp_gap_from:
  assumes "LastRunAt s < now" "0 \<le> MissLookback s" "MissLookback s < 2 ^ 63 - 1"
  shows "fst (clamp_gap s now) = count_from s now"
  using assms by (auto simp: clamp_gap_def count_from_def tsub_def max_def min_def)

text \<open>The walk of \<open>ComputeMissed\<close> over a cron schedule's ticks ends, and its result is exact:
  the ticks after the last run (or after the lookback's horizon) and up to now, less one for the
  tick that is firing; the reported start is the first of them and the end is now.\<close>

lemma ComputeMissed_counts_ticks:
  assumes trig: "sch_TriggerType s = TriggerCron" and last: "LastRunAt s \<noteq> 0" "LastRunAt s < now"
    and look: "0 \<le> MissLookback s" "MissLookback s < 2 ^ 63 - 1"
    and parse: "ParseCron parse (CronExpr (sch_TriggerConfig s)) NameMaxScope = Inr nxt"
    and law: "cron_law nxt tick now"
    and due: "due = {u. count_from s now < u \<and> u \<le> now \<and> tick u}"
  shows "\<exists>m. ComputeMissed parse s now = Some m \<and> MissedCount m = card due - 1
    \<and> mf_To m = now \<and> mf_From m = (if due = {} then 0 else Min due)"
proof -
  have start: "fst (clamp_gap s now) = count_from s now" using clamp_gap_from last(2) look by blast
  have "count_from s now \<le> now" using last(2) look by (auto simp: count_from_def)
  from tick_walk_total [OF law this] obtain ts where ts:
    "tick_walk nxt now (nxt (count_from s now)) [] = Some ts" "sorted_wrt (<) ts" "set ts = due"
    unfolding due by blast
  obtain used where cg: "clamp_gap s now = (count_from s now, used)" using start by (metis prod.collapse)
  let ?m = "(no_missed s)\<lparr>LookbackUsed := used, MissedCount := length ts - 1,
              mf_From := (if ts \<noteq> [] then hd ts else 0), mf_To := now\<rparr>"
  have "ComputeMissed parse s now = Some ?m"
    using trig last parse ts(1) by (simp add: ComputeMissed_def cg)
  moreover have "MissedCount ?m = card due - 1" "mf_From ?m = (if due = {} then 0 else Min due)"
    using sorted_hd_Min [OF ts(2)] sorted_length_card [OF ts(2)] ts(3) by auto
  ultimately show ?thesis by (intro exI [of _ ?m]) simp
qed

text \<open>The ticks of the expression a task carries, one a minute.\<close>

definition every_minute :: "time \<Rightarrow> time" where
  "every_minute t = (t div minute + 1) * minute"

lemma next_multiple:
  assumes "0 < (m :: int)"
  shows "t < (t div m + 1) * m" and "t < u \<Longrightarrow> u mod m = 0 \<Longrightarrow> (t div m + 1) * m \<le> u"
proof -
  have t: "t = t div m * m + t mod m" "0 \<le> t mod m" "t mod m < m" using assms by simp_all
  show lt: "t < (t div m + 1) * m" unfolding distrib_right using t by linarith
  assume u: "t < u" "u mod m = 0"
  have um: "u = u div m * m" using u(2) by (metis add.right_neutral div_mult_mod_eq)
  have "t div m * m < u div m * m" using t u(1) um by linarith
  then have "t div m + 1 \<le> u div m" using assms by simp
  then show "(t div m + 1) * m \<le> u" using um assms by (metis mult_right_mono less_imp_le)
qed

lemma every_minute_law: "cron_law every_minute (\<lambda>t. t mod minute = 0) now"
proof -
  have "0 < minute" by simp
  from next_multiple [OF this] show ?thesis unfolding cron_law_def every_minute_def by simp
qed

lemma minutely_shape:
  "fields_from [] ''* * * * *'' = [''*'', ''*'', ''*'', ''*'', ''*'']" "trim_space ''* * * * *'' = ''* * * * *''"
  "\<not> list_ex (containsToken None (map to_upper ''* * * * *'')) extendedTokens"
  "\<not> list_ex (containsAttachedExtension None (map to_upper ''* * * * *'')) [''L'', ''W'']"
  by code_simp+

lemma minutely_parses: "d \<noteq> NameCapaFirewall \<Longrightarrow> ParseCron (\<lambda>_. Some every_minute) ''* * * * *'' d = Inr every_minute"
  using minutely_shape
  by (simp add: ParseCron_def granularityFloor_def every_minute_def cron_t0_def tsub_def Let_def)

definition demo_sched :: Schedule where
  "demo_sched =
     \<lparr>sch_ID = ''r1'', sch_Tier = TierRoutine, ProjectAlias = ''p'', Action = ''go'', sch_TriggerType = TriggerCron,
      sch_TriggerConfig = empty_trigger\<lparr>CronExpr := ''* * * * *''\<rparr>, sch_MissPolicy = MissPolicySkip,
      MissLookback = 0, CoalesceWindow = 0, LastRunAt = minute, NextRunAt = 2 * minute, sch_Status = StatusEnabled,
      CreatedAt = 1\<rparr>"

subsection \<open>The granularity floor\<close>

text \<open>Ticks at the start of every period \<open>p\<close> and \<open>d\<close> after it.\<close>

definition two_ticks :: "duration \<Rightarrow> duration \<Rightarrow> time \<Rightarrow> time" where
  "two_ticks p d t = (if t mod p < d then t div p * p + d else (t div p + 1) * p)"

lemma two_ticks_law:
  assumes "0 < d" "d < p"
  shows "cron_law (two_ticks p d) (\<lambda>t. t mod p = 0 \<or> t mod p = d) now"
  unfolding cron_law_def
proof (intro allI impI conjI)
  fix t :: int
  have p: "0 < p" using assms by simp
  have t: "t = t div p * p + t mod p" "0 \<le> t mod p" "t mod p < p" using p by simp_all
  have s1: "(t div p + 1) * p = t div p * p + p" by (simp only: distrib_right mult_1)
  show "t < two_ticks p d t" unfolding two_ticks_def s1 using t by (simp, linarith)
  have "(t div p * p + d) mod p = d" using assms by (simp add: mod_add_left_eq)
  then show "two_ticks p d t mod p = 0 \<or> two_ticks p d t mod p = d" by (simp add: two_ticks_def)
  fix u :: int
  assume u: "t < u \<and> (u mod p = 0 \<or> u mod p = d)"
  have um: "u = u div p * p + u mod p" by simp
  have le: "t div p \<le> u div p" using u p by (simp add: zdiv_mono1)
  show "two_ticks p d t \<le> u"
  proof (cases "u div p = t div p")
    case True
    have um': "u = t div p * p + u mod p" using um unfolding True .
    then have lt: "t mod p < u mod p" using u t(1) by linarith
    with u t(2) have "u mod p = d" by linarith
    with lt um' show ?thesis by (simp add: two_ticks_def)
  next
    case False
    with le have "t div p + 1 \<le> u div p" by simp
    then have "(t div p + 1) * p \<le> u div p * p" using p by (intro mult_right_mono) simp_all
    moreover have "0 \<le> u mod p" using p by simp
    ultimately show ?thesis unfolding two_ticks_def s1 using um assms by (simp, linarith)
  qed
qed

text \<open>The expression \<open>0,1 * * * *\<close> ticks on minutes 0 and 1 of every hour.\<close>

abbreviation close_pair :: "time \<Rightarrow> time" where
  "close_pair \<equiv> two_ticks hour minute"

lemma close_pair_shape:
  "length (fields_from [] ''0,1 * * * *'') = 5" "trim_space ''0,1 * * * *'' = ''0,1 * * * *''"
  "\<not> list_ex (containsToken None (map to_upper ''0,1 * * * *'')) extendedTokens"
  "\<not> list_ex (containsAttachedExtension None (map to_upper ''0,1 * * * *'')) [''L'', ''W'']"
  by code_simp+

text \<open>The granularity floor is checked on one interval only. A schedule that ticks on minutes
  0 and 1 of every hour is accepted under the doctrine that asks for five minutes between ticks:
  the first interval after the sampled instant is 59 minutes long, and every hour has two ticks a
  minute apart.\<close>

lemma ParseCron_floor_misses_close_ticks:
  "ParseCron (\<lambda>_. Some close_pair) ''0,1 * * * *'' NameCapaFirewall = Inr close_pair
   \<and> cron_law close_pair (\<lambda>t. t mod hour = 0 \<or> t mod hour = minute) now
   \<and> close_pair (k * hour) - k * hour = minute \<and> minute < granularityFloor NameCapaFirewall"
proof -
  have "ParseCron (\<lambda>_. Some close_pair) ''0,1 * * * *'' NameCapaFirewall = Inr close_pair"
    using close_pair_shape
    by (simp add: ParseCron_def granularityFloor_def two_ticks_def cron_t0_def tsub_def Let_def)
  moreover have "cron_law close_pair (\<lambda>t. t mod hour = 0 \<or> t mod hour = minute) now"
    by (rule two_ticks_law) simp_all
  moreover have "close_pair (k * hour) - k * hour = minute" by (simp add: two_ticks_def)
  ultimately show ?thesis by (simp add: granularityFloor_def)
qed

subsection \<open>The ledger of a fire attempt\<close>

definition events_of :: "EventKind \<Rightarrow> fire_world \<Rightarrow> nat" where
  "events_of k w = length (filter (\<lambda>e. se_Kind e = k) (fw_events w))"

definition entries_of :: "Outcome \<Rightarrow> fire_world \<Rightarrow> nat" where
  "entries_of oc w = length (filter (\<lambda>h. he_Outcome h = oc) (fw_history w))"

text \<open>Every dispatch has its event and its history entry, and they agree.\<close>

definition ledger :: "fire_world \<Rightarrow> bool" where
  "ledger w \<longleftrightarrow>
     events_of EventRoutineFired w = entries_of OutcomeSuccess w
     \<and> events_of EventRoutineFailed w = entries_of OutcomeFailed w
     \<and> length (fw_dispatched w) = entries_of OutcomeSuccess w + entries_of OutcomeFailed w"

text \<open>What a step of a fire attempt may do: it keeps the ledger, it leaves the schedule alone when
  no dispatch succeeded, and it dispatches for the schedule's project and action only.\<close>

definition fire_rel :: "nat \<Rightarrow> fire_world \<Rightarrow> fire_world \<Rightarrow> bool" where
  "fire_rel n w w' \<longleftrightarrow>
     (ledger w \<longrightarrow> ledger w')
     \<and> entries_of OutcomeSuccess w \<le> entries_of OutcomeSuccess w'
     \<and> (entries_of OutcomeSuccess w' = entries_of OutcomeSuccess w \<longrightarrow>
          fw_sched w' = fw_sched w \<and> fw_next_runs w' = fw_next_runs w)
     \<and> sch_ID (fw_sched w') = sch_ID (fw_sched w) \<and> ProjectAlias (fw_sched w') = ProjectAlias (fw_sched w)
     \<and> Action (fw_sched w') = Action (fw_sched w)
     \<and> (\<exists>ds. fw_dispatched w' = fw_dispatched w @ ds \<and> length ds \<le> n
          \<and> (\<forall>d \<in> set ds. di_ProjectAlias d = ProjectAlias (fw_sched w) \<and> di_Action d = Action (fw_sched w)))"

lemma fire_rel_refl: "fire_rel n w w"
  by (simp add: fire_rel_def)

lemma fire_rel_trans:
  assumes "fire_rel m w w1" "fire_rel n w1 w2"
  shows "fire_rel (m + n) w w2"
proof -
  from assms obtain ds1 ds2 where
    "fw_dispatched w1 = fw_dispatched w @ ds1" "length ds1 \<le> m"
    "\<forall>d \<in> set ds1. di_ProjectAlias d = ProjectAlias (fw_sched w) \<and> di_Action d = Action (fw_sched w)"
    "fw_dispatched w2 = fw_dispatched w1 @ ds2" "length ds2 \<le> n"
    "\<forall>d \<in> set ds2. di_ProjectAlias d = ProjectAlias (fw_sched w1) \<and> di_Action d = Action (fw_sched w1)"
    unfolding fire_rel_def by blast
  then have "\<exists>ds. fw_dispatched w2 = fw_dispatched w @ ds \<and> length ds \<le> m + n
      \<and> (\<forall>d \<in> set ds. di_ProjectAlias d = ProjectAlias (fw_sched w) \<and> di_Action d = Action (fw_sched w))"
    using assms by (intro exI [of _ "ds1 @ ds2"]) (auto simp: fire_rel_def)
  then show ?thesis using assms unfolding fire_rel_def by auto
qed

lemma fire_rel_mono: "fire_rel m w w' \<Longrightarrow> m \<le> n \<Longrightarrow> fire_rel n w w'"
  unfolding fire_rel_def using le_trans by blast

lemma fire_rel_trans0: "fire_rel 0 w w1 \<Longrightarrow> fire_rel n w1 w2 \<Longrightarrow> fire_rel n w w2"
  using fire_rel_trans [of 0 w w1 n w2] by simp

lemma sched_emit_rel: "k \<noteq> EventRoutineFired \<Longrightarrow> k \<noteq> EventRoutineFailed \<Longrightarrow> fire_rel 0 w (sched_emit w k now r c)"
  by (simp add: fire_rel_def sched_emit_def ledger_def events_of_def entries_of_def)

lemma allow_rel: "fire_rel 0 w (snd (RateLimit_Allow deps w))"
  by (simp add: fire_rel_def RateLimit_Allow_def ledger_def events_of_def entries_of_def)

lemma limited_history_rel: "fire_rel 0 w (AppendHistory w now OutcomeRateLimited r c d)"
  by (simp add: fire_rel_def AppendHistory_def ledger_def events_of_def entries_of_def)

lemma dispatchOne_rel:
  assumes "dispatchOne deps now bf w = (w', err)"
  shows "fire_rel 1 w w'"
    and "err = None \<longleftrightarrow> entries_of OutcomeSuccess w' = Suc (entries_of OutcomeSuccess w)"
    and "err = None \<Longrightarrow> LastRunAt (fw_sched w') = now \<and> fw_dispatched w' = fw_dispatched w @ [dispatch_input (fw_sched w) bf]"
  using assms
  by (auto simp: dispatchOne_def fire_rel_def AppendHistory_def sched_emit_def ledger_def events_of_def
      entries_of_def dispatch_input_def Let_def split: sum.splits prod.splits if_splits)

lemma fireCurrentTick_rel:
  assumes "fireCurrentTick deps now bf w = (w', err)"
  shows "fire_rel 1 w w'"
    and "err = None \<Longrightarrow> LastRunAt (fw_sched w') = now
      \<and> fw_dispatched w' = fw_dispatched w @ [dispatch_input (fw_sched w) bf] \<and> fd_Quota deps \<in> range (\<lambda>r. Inr (True, r))"
proof -
  obtain ok w1 where al: "RateLimit_Allow deps w = (ok, w1)" by (metis surj_pair)
  have r1: "fire_rel 0 w w1" using allow_rel [of w deps] al by simp
  have same: "fw_sched w1 = fw_sched w" "fw_dispatched w1 = fw_dispatched w" using al by (auto simp: RateLimit_Allow_def)
  have lim: "fire_rel 1 w (AppendHistory (sched_emit w1 EventRateLimited now r c) now OutcomeRateLimited r' c' d)" for r c r' c' d
    by (rule fire_rel_mono [OF fire_rel_trans0 [OF r1 fire_rel_trans0 [OF sched_emit_rel limited_history_rel]]]) simp_all
  have deny: "fire_rel 1 w (sched_emit w EventQuotaCapReached now r c)" for r c
    by (rule fire_rel_mono [OF sched_emit_rel]) simp_all
  have disp: "fire_rel 1 w w2" if "dispatchOne deps now bf w1 = (w2, e)" for w2 e
    by (rule fire_rel_trans0 [OF r1 dispatchOne_rel(1) [OF that]])
  show "fire_rel 1 w w'"
    using assms al deny lim fire_rel_refl disp
    by (auto simp: fireCurrentTick_def split: sum.splits prod.splits if_splits)
  show "LastRunAt (fw_sched w') = now \<and> fw_dispatched w' = fw_dispatched w @ [dispatch_input (fw_sched w) bf]
      \<and> fd_Quota deps \<in> range (\<lambda>r. Inr (True, r))"
    if "err = None"
    using assms al that dispatchOne_rel(3) [of deps now bf w1 w' err] same
    by (auto simp: fireCurrentTick_def split: sum.splits prod.splits if_splits)
qed

lemma skip_missed_rel: "fire_rel 0 w (skip_missed now n w)"
proof (induction n arbitrary: w)
  case (Suc n)
  show ?case unfolding skip_missed.simps by (rule fire_rel_trans0 [OF sched_emit_rel Suc]) simp_all
qed (simp add: fire_rel_refl)

lemma catch_up_rel: "catch_up deps now n w = (w', err) \<Longrightarrow> fire_rel n w w'"
proof (induction n arbitrary: w)
  case (Suc n)
  obtain ok w1 where al: "RateLimit_Allow deps w = (ok, w1)" by (metis surj_pair)
  have r1: "fire_rel 0 w w1" using allow_rel [of w deps] al by simp
  obtain w2 e where d: "dispatchOne deps now None w1 = (w2, e)" by (metis surj_pair)
  have r2: "fire_rel 1 w w2" by (rule fire_rel_trans0 [OF r1 dispatchOne_rel(1) [OF d]])
  consider "\<not> ok" | "ok" "e \<noteq> None" | "ok" "e = None" by blast
  then show ?case
  proof cases
    case 1
    with Suc.prems al have "w' = sched_emit w1 EventRateLimited now ''1/30s/project rate limit (catch-up)'' (Fin 0)" by simp
    then show ?thesis by (auto intro: fire_rel_mono [OF fire_rel_trans0 [OF r1 sched_emit_rel]])
  next
    case 2
    with Suc.prems al d have "w' = w2" by auto
    then show ?thesis using fire_rel_mono [OF r2] by simp
  next
    case 3
    with Suc.prems al d have "catch_up deps now n w2 = (w', err)" by simp
    from fire_rel_trans [OF r2 Suc.IH [OF this]] show ?thesis by simp
  qed
qed (simp add: fire_rel_refl)

lemma apply_missed_rel:
  assumes "apply_missed deps now missed policy w = ((w', err), bf)"
  shows "fire_rel (MissedCount missed) w w'"
    and "policy \<noteq> MissPolicyCatchUpBounded \<Longrightarrow> fire_rel 0 w w' \<and> err = None"
proof -
  have emitted: "fire_rel 0 w (sched_emit w EventMissedFire now r c)" for r c
    by (rule sched_emit_rel) simp_all
  have zero: "fire_rel 0 w w' \<and> err = None" if "policy \<noteq> MissPolicyCatchUpBounded"
    using assms that emitted skip_missed_rel
    by (auto simp: apply_missed_def fire_rel_refl split: if_splits MissPolicy.splits)
  then show "policy \<noteq> MissPolicyCatchUpBounded \<Longrightarrow> fire_rel 0 w w' \<and> err = None" .
  show "fire_rel (MissedCount missed) w w'"
  proof (cases "policy = MissPolicyCatchUpBounded \<and> MissedCount missed > 0")
    case True
    with assms have "catch_up deps now (MissedCount missed) w = (w', err)" by (simp add: apply_missed_def)
    then show ?thesis by (rule catch_up_rel)
  next
    case False
    show ?thesis
    proof (cases "policy = MissPolicyCatchUpBounded")
      case True
      with False assms have "w' = w" by (simp add: apply_missed_def)
      then show ?thesis by (simp add: fire_rel_refl)
    next
      case False
      from fire_rel_mono [OF conjunct1 [OF zero [OF this]]] show ?thesis by simp
    qed
  qed
qed

text \<open>One fire attempt keeps the books: every dispatch has exactly one event and one history
  entry of the same outcome, all dispatches are for the schedule's own project and action, and
  there are at most the missed ticks and one. If no dispatch succeeded the schedule's cursor has
  not moved; if the attempt reports success, the quota had allowed it, the last dispatch is the
  current tick and the last run is now.\<close>

lemma Fire_keeps_ledger:
  assumes run: "Fire deps w = Some (w', err)" and led: "ledger w"
    and missed: "ComputeMissed (fd_Cron deps) (fw_sched w) (fd_Now deps) = Some m"
  shows "ledger w'
    \<and> (\<exists>ds. fw_dispatched w' = fw_dispatched w @ ds \<and> length ds \<le> MissedCount m + 1
         \<and> (\<forall>d \<in> set ds. di_ProjectAlias d = ProjectAlias (fw_sched w) \<and> di_Action d = Action (fw_sched w)))
    \<and> (entries_of OutcomeSuccess w' = entries_of OutcomeSuccess w \<longrightarrow>
         fw_sched w' = fw_sched w \<and> fw_next_runs w' = fw_next_runs w)
    \<and> (err = None \<longrightarrow> LastRunAt (fw_sched w') = fd_Now deps \<and> (\<exists>r. fd_Quota deps = Inr (True, r)))"
proof (cases "Schedule_Validate (fw_sched w)")
  case (Some e)
  with run led show ?thesis by (auto simp: Fire_def)
next
  case None
  obtain w1 e bf where am: "apply_missed deps (fd_Now deps) m
      (EffectiveMissPolicy (Some (fw_sched w)) (fd_Doctrine deps)) w = ((w1, e), bf)"
    by (metis surj_pair)
  note r1 = apply_missed_rel(1) [OF am]
  have "fire_rel (MissedCount m + 1) w w' \<and> (err = None \<longrightarrow> LastRunAt (fw_sched w') = fd_Now deps
      \<and> (\<exists>r. fd_Quota deps = Inr (True, r)))"
  proof (cases e)
    case (Some x)
    with run None missed am have "w' = w1" "err = Some x" by (auto simp: Fire_def)
    with fire_rel_mono [OF r1] show ?thesis by simp
  next
    case n: None
    with run None missed am have ct: "fireCurrentTick deps (fd_Now deps) bf w1 = (w', err)" by (simp add: Fire_def)
    from fire_rel_trans [OF r1 fireCurrentTick_rel(1) [OF ct]] fireCurrentTick_rel(2) [OF ct] show ?thesis by auto
  qed
  with led show ?thesis unfolding fire_rel_def by blast
qed

lemma Fire_returns:
  assumes "ComputeMissed (fd_Cron deps) (fw_sched w) (fd_Now deps) = Some m"
  shows "\<exists>r. Fire deps w = Some r"
proof -
  obtain w1 e bf where "apply_missed deps (fd_Now deps) m
      (EffectiveMissPolicy (Some (fw_sched w)) (fd_Doctrine deps)) w = ((w1, e), bf)"
    by (metis surj_pair)
  with assms show ?thesis
    by (cases e; cases "Schedule_Validate (fw_sched w)") (simp_all add: Fire_def Let_def del: split_paired_Ex)
qed

definition demo_deps :: "time \<Rightarrow> bool \<Rightarrow> FireDeps" where
  "demo_deps now allowed =
     \<lparr>fd_Now = now, fd_Doctrine = NameMaxScope, fd_Quota = Inr (allowed, ''cap''),
      fd_Dispatch = (\<lambda>_ _. Inr (Fin 0, 5)), fd_Allow = (\<lambda>_. True), fd_Cron = (\<lambda>_. Some every_minute),
      fd_Elapsed = (\<lambda>_. 5)\<rparr>"

definition demo_fire :: fire_world where
  "demo_fire = \<lparr>fw_sched = demo_sched, fw_events = [], fw_history = [], fw_dispatched = [], fw_asked = 0, fw_next_runs = []\<rparr>"

lemma demo_sched_valid: "Schedule_Validate demo_sched = None"
  by (simp add: Schedule_Validate_def trigger_error_def demo_sched_def)

lemma demo_missed:
  "ComputeMissed (\<lambda>_. Some every_minute) demo_sched (3 * minute) =
     Some \<lparr>mf_ScheduleID = ''r1'', MissedCount = 1, LookbackUsed = 2 * minute, mf_From = 2 * minute, mf_To = 3 * minute\<rparr>"
  by (simp add: ComputeMissed_def demo_sched_def minutely_parses clamp_gap_def tsub_def no_missed_def every_minute_def
      tick_walk.simps)

lemma demo_ledger: "ledger demo_fire"
  by (simp add: ledger_def demo_fire_def events_of_def entries_of_def)

text \<open>The quota is asked for the current tick only. A project at its cap whose schedule missed
  a tick under the catch-up policy is dispatched for the missed tick first, its cursor moves, and
  only then does the attempt report that the cap was reached.\<close>

lemma catch_up_bypasses_quota:
  "\<exists>w'. Fire (demo_deps (3 * minute) False) demo_fire = Some (w', Some (ErrQuotaCap ''cap''))
     \<and> fw_dispatched w' = [dispatch_input demo_sched None] \<and> LastRunAt (fw_sched w') = 3 * minute
     \<and> fd_Quota (demo_deps (3 * minute) False) = Inr (False, ''cap'')"
proof -
  let ?deps = "demo_deps (3 * minute) False" and ?now = "3 * minute :: int"
  have pol: "EffectiveMissPolicy (Some demo_sched) NameMaxScope = MissPolicyCatchUpBounded"
    by (simp add: EffectiveMissPolicy_def DoctrineMissPolicy_def demo_sched_def)
  obtain ok w1 where al: "RateLimit_Allow ?deps demo_fire = (ok, w1)" by (metis surj_pair)
  have w1: "ok" "fw_sched w1 = demo_sched" "fw_dispatched w1 = []"
    using al by (auto simp: RateLimit_Allow_def demo_deps_def demo_fire_def)
  obtain w2 e where d: "dispatchOne ?deps ?now None w1 = (w2, e)" by (metis surj_pair)
  have e: "e = None" using d by (auto simp: dispatchOne_def demo_deps_def Let_def split: if_splits)
  have w2: "fw_dispatched w2 = [dispatch_input demo_sched None]" "LastRunAt (fw_sched w2) = ?now"
    using dispatchOne_rel(3) [OF d e] w1 by auto
  have cu: "catch_up ?deps ?now 1 demo_fire = (w2, None)" using al w1 d e by simp
  have ct: "fireCurrentTick ?deps ?now None w2 = (sched_emit w2 EventQuotaCapReached ?now ''cap'' (Fin 0), Some (ErrQuotaCap ''cap''))"
    by (simp add: fireCurrentTick_def demo_deps_def)
  have deps: "fd_Now ?deps = ?now" "fd_Doctrine ?deps = NameMaxScope" "fd_Cron ?deps = (\<lambda>_. Some every_minute)"
      "fd_Quota ?deps = Inr (False, ''cap'')" "fw_sched demo_fire = demo_sched"
    by (simp_all add: demo_deps_def demo_fire_def)
  have "Fire ?deps demo_fire = Some (sched_emit w2 EventQuotaCapReached ?now ''cap'' (Fin 0), Some (ErrQuotaCap ''cap''))"
    unfolding Fire_def deps Let_def demo_sched_valid demo_missed pol apply_missed_def
    using cu ct by simp
  then show ?thesis using w2 deps(4) by (simp add: sched_emit_def)
qed

subsection \<open>Git polling\<close>

text \<open>A poll as a machine: its output is whether the schedule fires.\<close>

definition poll_step :: "Schedule \<Rightarrow> string + string \<Rightarrow> Schedule \<times> bool" where
  "poll_step s p = (let (s1, r) = GitPollOnce s p in (s1, case r of Inl _ \<Rightarrow> False | Inr b \<Rightarrow> b))"

text \<open>The specification: a watcher that remembers the last head it saw and reports each change of it;
  a failed poll is not seen, and the first head is no change.\<close>

fun watch :: "string option \<Rightarrow> string + string \<Rightarrow> string option \<times> bool" where
  "watch cur (Inl _) = (cur, False)"
| "watch cur (Inr sha) = (Some sha, cur \<noteq> None \<and> cur \<noteq> Some sha)"

definition cursor :: "Schedule \<Rightarrow> string option" where
  "cursor s = (if LastSeenSHA (sch_TriggerConfig s) = '''' then None else Some (LastSeenSHA (sch_TriggerConfig s)))"

interpretation gitpoll: refinement poll_step watch cursor "\<lambda>s. sch_TriggerType s = TriggerGitPoll" "\<lambda>p. p \<noteq> Inr ''''"
proof
  fix s :: Schedule and p :: "string + string"
  assume "sch_TriggerType s = TriggerGitPoll" "p \<noteq> Inr ''''"
  then show "sch_TriggerType (fst (poll_step s p)) = TriggerGitPoll
      \<and> watch (cursor s) p = (cursor (fst (poll_step s p)), snd (poll_step s p))"
    by (cases p) (auto simp: poll_step_def cursor_def GitPollOnce_def Let_def split: if_splits)
qed

definition good_polls :: "(string + string) list \<Rightarrow> string list" where
  "good_polls ps = concat (map (\<lambda>p. case p of Inl _ \<Rightarrow> [] | Inr sha \<Rightarrow> [sha]) ps)"

lemma good_polls_simps [simp]:
  "good_polls [] = []" "good_polls (Inl e # ps) = good_polls ps" "good_polls (Inr sha # ps) = sha # good_polls ps"
  by (simp_all add: good_polls_def)

text \<open>The watcher counts the changes of the heads it sees.\<close>

lemma watch_known:
  "Suc (count_list (snd (run_io watch (Some sha) ps)) True) = length (remdups_adj (sha # good_polls ps))"
proof (induction ps arbitrary: sha)
  case (Cons p ps)
  show ?case
  proof (cases p)
    case (Inl e)
    with Cons.IH [of sha] show ?thesis by (simp add: case_prod_beta Let_def)
  next
    case (Inr sha')
    with Cons.IH [of sha'] show ?thesis by (simp add: case_prod_beta Let_def)
  qed
qed simp

lemma watch_changes:
  "count_list (snd (run_io watch cur ps)) True = length (remdups_adj (case_option [] (\<lambda>sha. [sha]) cur @ good_polls ps)) - 1"
proof (induction ps arbitrary: cur)
  case Nil
  then show ?case by (cases cur) simp_all
next
  case (Cons p ps)
  show ?case
  proof (cases cur)
    case (Some sha)
    with watch_known [of sha "p # ps"] show ?thesis by simp
  next
    case None
    show ?thesis
    proof (cases p)
      case (Inl e)
      with None Cons.IH [of None] show ?thesis by (simp add: case_prod_beta Let_def)
    next
      case (Inr sha)
      with None watch_known [of sha ps] show ?thesis by (simp add: case_prod_beta Let_def)
    qed
  qed
qed

text \<open>Polling refines a change watcher. Over any sequence of polls, failed ones included, the
  schedule fires on exactly the polls on which a watcher that starts at the stored cursor sees its
  head change, and ends with the watcher's cursor; so the number of fires is the number of changes
  among the heads seen, and a change during an outage fires on the first poll that succeeds.\<close>

lemma GitPoll_refines_change_count:
  assumes "sch_TriggerType s = TriggerGitPoll" and "list_all (\<lambda>p. p \<noteq> Inr '''') ps"
    and "run_io poll_step s ps = (s', fs)"
  shows "run_io watch (cursor s) ps = (cursor s', fs)
    \<and> count_list fs True = length (remdups_adj (case_option [] (\<lambda>sha. [sha]) (cursor s) @ good_polls ps)) - 1"
  using gitpoll.run_refines [OF assms(1,2)] assms(3) watch_changes [of "cursor s" ps] by simp

definition demo_poll :: Schedule where
  "demo_poll = demo_sched\<lparr>sch_TriggerType := TriggerGitPoll\<rparr>"

subsection \<open>Tasks and jitter\<close>

lemma ComputeJitter_bounds:
  "0 \<le> ComputeJitter i period
   \<and> ComputeJitter i period \<le> (if period \<ge> jitterRecurringThreshold then jitterRecurringCap else jitterOneShotCap)
   \<and> (0 < period \<longrightarrow> ComputeJitter i period \<le> period div 10)"
proof (cases "period \<le> 0")
  case True
  then show ?thesis by (simp add: ComputeJitter_def)
next
  case False
  let ?b = "if go_quot period 10 \<le> 0 then 1 else go_quot period 10"
  let ?raw = "be_uint64 (sha256 i) mod ?b"
  have "0 < ?b" by simp
  then have raw: "0 \<le> ?raw" "?raw < ?b" by (metis pos_mod_sign, metis pos_mod_bound)
  have q: "go_quot period 10 = period div 10" using False by (simp add: go_quot_nonneg)
  have "0 \<le> period div 10" using False by simp
  then have "?raw \<le> period div 10" using raw(2) unfolding q by (cases "period div 10 \<le> 0") (auto simp: less_imp_le)
  with raw False show ?thesis by (simp add: ComputeJitter_def Let_def)
qed

text \<open>A new one-shot task is a valid schedule; it is not due before its fire time, it is due at
  the latest 90 seconds after it (15 minutes for a task an hour or more ahead, and never more than a
  tenth of the wait later), and once marked fired it is never due again.\<close>

lemma task_fires_once_and_never_early:
  assumes new: "NewTask p now = Inr s" and created: "0 < now" and near: "FireAt p - now < 2 ^ 63"
  shows "Schedule_Validate s = None
    \<and> (\<forall>t < FireAt p. \<not> DueAt s t)
    \<and> (\<exists>late. 0 \<le> late \<and> late \<le> (FireAt p - now) div 10
         \<and> late \<le> (if FireAt p - now \<ge> jitterRecurringThreshold then jitterRecurringCap else jitterOneShotCap)
         \<and> (\<forall>t. DueAt s t \<longleftrightarrow> FireAt p + late \<le> t))
    \<and> (\<forall>t. \<not> DueAt (the (MarkTaskFired (Some s))) t)"
proof -
  let ?j = "ComputeJitter (tp_ID p) (tsub (FireAt p) now)"
  have s: "NextRunAt s = FireAt p + ?j" "sch_Status s = StatusEnabled" "sch_Tier s = TierTask" "Schedule_Validate s = None"
      and lt: "now < FireAt p"
    using new by (auto simp: NewTask_def Let_def split: if_splits option.splits)
  have per: "tsub (FireAt p) now = FireAt p - now" using lt near by (simp add: tsub_def)
  have j: "0 \<le> ?j" "?j \<le> (FireAt p - now) div 10"
      "?j \<le> (if FireAt p - now \<ge> jitterRecurringThreshold then jitterRecurringCap else jitterOneShotCap)"
    using ComputeJitter_bounds [of "tp_ID p" "FireAt p - now"] lt unfolding per by auto
  have due: "DueAt s t \<longleftrightarrow> FireAt p + ?j \<le> t" for t
    using s(1,2) created lt j(1) by (auto simp: DueAt_def)
  have "\<not> DueAt (the (MarkTaskFired (Some s))) t" for t using s(3) by (simp add: MarkTaskFired_def DueAt_def)
  moreover have "\<not> DueAt s t" if "t < FireAt p" for t using that due j(1) by simp
  moreover have "\<exists>late. 0 \<le> late \<and> late \<le> (FireAt p - now) div 10
         \<and> late \<le> (if FireAt p - now \<ge> jitterRecurringThreshold then jitterRecurringCap else jitterOneShotCap)
         \<and> (\<forall>t. DueAt s t \<longleftrightarrow> FireAt p + late \<le> t)"
    using due j by (intro exI [of _ ?j]) blast
  ultimately show ?thesis using s(4) by blast
qed

subsection \<open>Bearer tokens\<close>

lemma hex_val_digit: "n < 16 \<Longrightarrow> hex_val (hex_digit n) = Some n"
  by (auto simp: hex_val_def of_hex_digit Let_def)

lemma hex_decode_encode: "hex_decode (hex_encode s) = Some s"
proof (induction s)
  case Nil
  then show ?case by (simp add: hex_encode_def)
next
  case (Cons c s)
  have "(of_char c :: nat) = 16 * (of_char c div 16) + of_char c mod 16" by simp
  then have c: "char_of (16 * ((of_char c :: nat) div 16) + of_char c mod 16) = c" by (metis char_of_char)
  show ?case using Cons c by (simp add: hex_encode_def hex_byte_def hex_val_digit of_char_div16)
qed

text \<open>The token that is generated is the token that is accepted: a trigger that stores the
  generated hash accepts the raw token, and it accepts another string only if the two have the same
  digest; no other schedule type accepts anything.\<close>

lemma bearer_token_roundtrip:
  assumes gen: "GenerateBearerToken rand = Some (raw, hash)"
    and stored: "tc_BearerTokenHash (sch_TriggerConfig s) = hash"
  shows "(VerifyHttpTrigger (Some s) raw = None \<longleftrightarrow> sch_TriggerType s = TriggerHTTP)
    \<and> (\<forall>other. VerifyHttpTrigger (Some s) other = None \<longrightarrow> sha256 other = sha256 raw)"
proof -
  have hash: "hash = hex_encode (sha256 raw)" using gen by (auto simp: GenerateBearerToken_def Let_def)
  have "length hash = 64" by (simp add: hash)
  then have "hash \<noteq> ''''" by auto
  then show ?thesis using stored hex_decode_encode [of "sha256 raw"] hash
    by (auto simp: VerifyHttpTrigger_def split: if_splits)
qed

end
