(* ===== verification/Recovery.thy ===== *)
theory Recovery
  imports Hades_Prelude
begin

text \<open>
  Crash recovery of the orchestrator: the replay of the event log
  (\<^verbatim>\<open>src/internal/orchestrator/eventlog/replay.go\<close>), the recovery engine that answers worker
  deaths (recovery.go), the reconstruction of the tasks in flight after a restart
  (recovery_replay.go) and the heartbeat sweep (recovery_heartbeat.go) of
  \<^verbatim>\<open>src/internal/orchestrator\<close>.

  A row of the log holds its payload as \<open>Decode\<close> returns it; a row that \<open>Decode\<close> refuses has no
  payload. A log is the list of the rows of one session, in the order of their ids. The doctrine
  and the tier chain are the values the engine is built with; Go's missing map entries read as 0.
\<close>

subsection \<open>Rows of the event log\<close>

record WorkerDispatched =
  wd_WorkerID :: string
  wd_TaskID :: string
  wd_Tier :: string

datatype payload =
    OrchestratorStateTransition string string string
  | EvWorkerDispatched WorkerDispatched
  | WorkerCheckpoint string string string string
  | WorkerDeath string string string string int
  | WorkerRedispatched string string string string int int string
  | ReviewerWaveStarted string "string list"
  | ReviewerWaveComplete string string
  | ConfirmationRequested string string
  | OperatorConfirmation string string
  | OrchestratorRestoreFromReplay string int int int bool string
  | ReplayCorruptionDetected int int
  | EvOther int

record Record =
  EventID :: int
  EventType :: int
  Timestamp :: int
  Payload :: "payload option"

type_synonym log = "Record list"

text \<open>\<open>Append\<close>: the next id; a write that fails changes nothing.\<close>

definition Append :: "bool \<Rightarrow> log \<Rightarrow> int \<Rightarrow> int \<Rightarrow> payload \<Rightarrow> log" where
  "Append written log et ts p =
     (if written
      then log @ [\<lparr>EventID = int (length log) + 1, EventType = et, Timestamp = ts, Payload = Some p\<rparr>]
      else log)"

subsection \<open>Replay of a session (eventlog/replay.go)\<close>

definition ReplayCorruptionBudget :: int where
  "ReplayCorruptionBudget = 5"

record ReplayState =
  EventsReplayed :: int
  EventsCorrupted :: int
  LastEventID :: int
  LastTransition :: string
  InFlightWorkers :: "string \<rightharpoonup> WorkerDispatched"
  PendingWaves :: "string \<rightharpoonup> string list"
  OpenConfirmations :: "string \<rightharpoonup> string"

definition empty_replay :: ReplayState where
  "empty_replay =
     \<lparr>EventsReplayed = 0, EventsCorrupted = 0, LastEventID = 0, LastTransition = '''',
      InFlightWorkers = Map.empty, PendingWaves = Map.empty, OpenConfirmations = Map.empty\<rparr>"

fun applyToState :: "ReplayState \<Rightarrow> payload \<Rightarrow> ReplayState" where
  "applyToState st (OrchestratorStateTransition frm to reason) = st\<lparr>LastTransition := to\<rparr>"
| "applyToState st (EvWorkerDispatched e) =
     st\<lparr>InFlightWorkers := (InFlightWorkers st)(wd_WorkerID e \<mapsto> e)\<rparr>"
| "applyToState st (WorkerCheckpoint w t sha summary) = st\<lparr>InFlightWorkers := (InFlightWorkers st)(w := None)\<rparr>"
| "applyToState st (WorkerDeath w t cls reason n) = st\<lparr>InFlightWorkers := (InFlightWorkers st)(w := None)\<rparr>"
| "applyToState st (ReviewerWaveStarted layer rs) = st\<lparr>PendingWaves := (PendingWaves st)(layer \<mapsto> rs)\<rparr>"
| "applyToState st (ReviewerWaveComplete layer v) = st\<lparr>PendingWaves := (PendingWaves st)(layer := None)\<rparr>"
| "applyToState st (ConfirmationRequested i cls) = st\<lparr>OpenConfirmations := (OpenConfirmations st)(i \<mapsto> cls)\<rparr>"
| "applyToState st (OperatorConfirmation i d) = st\<lparr>OpenConfirmations := (OpenConfirmations st)(i := None)\<rparr>"
| "applyToState st _ = st"

datatype replay_err = ReplayCancelled nat | ErrCorruptionBudgetExceeded | ReplayQuery string

text \<open>
  The loop over the rows: \<open>live\<close> answers the check of the context every 256 rows; the rows that
  cannot be decoded are audited, which is the last component.
\<close>

fun replay_rows ::
  "(nat \<Rightarrow> bool) \<Rightarrow> nat \<Rightarrow> ReplayState \<Rightarrow> log \<Rightarrow> payload list \<Rightarrow> ReplayState \<times> replay_err option \<times> payload list" where
  "replay_rows live i st [] audit = (st, None, audit)"
| "replay_rows live i st (r # rs) audit =
     (if i > 0 \<and> i mod 256 = 0 \<and> \<not> live i then (st, Some (ReplayCancelled i), audit)
      else
        (let st1 = st\<lparr>EventsReplayed := EventsReplayed st + 1, LastEventID := EventID r\<rparr> in
         case Payload r of
           None \<Rightarrow>
             (let st2 = st1\<lparr>EventsCorrupted := EventsCorrupted st1 + 1\<rparr>;
                  audit' = audit @ [ReplayCorruptionDetected (EventID r) (EventType r)] in
              if EventsCorrupted st2 > ReplayCorruptionBudget
              then (st2, Some ErrCorruptionBudgetExceeded, audit')
              else replay_rows live (Suc i) st2 rs audit')
         | Some p \<Rightarrow> replay_rows live (Suc i) (applyToState st1 p) rs audit))"

definition Replay :: "(nat \<Rightarrow> bool) \<Rightarrow> log \<Rightarrow> ReplayState \<times> replay_err option \<times> payload list" where
  "Replay live log = replay_rows live 0 empty_replay log []"

subsection \<open>Classification of failures (recovery.go)\<close>

datatype FailureClass =
    FailureTransientLLM | FailureTransientInfra | FailurePermanentTask | FailurePermanentInfra

fun FailureClass_String :: "FailureClass \<Rightarrow> string" where
  "FailureClass_String FailureTransientLLM = ''TRANSIENT_LLM''"
| "FailureClass_String FailureTransientInfra = ''TRANSIENT_INFRA''"
| "FailureClass_String FailurePermanentTask = ''PERMANENT_TASK''"
| "FailureClass_String FailurePermanentInfra = ''PERMANENT_INFRA''"

text \<open>
  The errors the engine tells apart. \<open>DeadlineExceeded\<close> is the context's error, which is itself a
  network error that timed out; \<open>NetError\<close> is any other \<open>net.Error\<close>; \<open>Wrapped\<close> is an error
  wrapped with a message, \<open>OtherError\<close> any error none of the tests recognises.
\<close>

datatype werr =
    ErrHeartbeatTimeout
  | ErrAllTiersDown
  | HTTPStatusError int string
  | LLMCallError werr
  | WorkerSubprocessError string int
  | QueueWriteError werr
  | DiskFullError string
  | RepoCorruptError string
  | AuditWriteError werr
  | DeadlineExceeded
  | NetError bool string
  | Wrapped string werr
  | OtherError string

text \<open>\<open>errors.Is\<close> and \<open>errors.As\<close> walk the chain an error unwraps to.\<close>

fun unwrap_chain :: "werr \<Rightarrow> werr list" where
  "unwrap_chain (LLMCallError e) = LLMCallError e # unwrap_chain e"
| "unwrap_chain (QueueWriteError e) = QueueWriteError e # unwrap_chain e"
| "unwrap_chain (AuditWriteError e) = AuditWriteError e # unwrap_chain e"
| "unwrap_chain (Wrapped msg e) = Wrapped msg e # unwrap_chain e"
| "unwrap_chain e = [e]"

fun Error :: "werr \<Rightarrow> string" where
  "Error ErrHeartbeatTimeout = ''worker/reviewer heartbeat timeout''"
| "Error ErrAllTiersDown = ''all dispatch tiers exhausted (no LLM reachable)''"
| "Error (HTTPStatusError code endpoint) = endpoint @ '': http '' @ dec_int code"
| "Error (LLMCallError e) = ''llm call: '' @ Error e"
| "Error (WorkerSubprocessError reason code) = ''worker subprocess: '' @ reason"
| "Error (QueueWriteError e) = ''queue write: '' @ Error e"
| "Error (DiskFullError path) = ''disk full at '' @ path"
| "Error (RepoCorruptError repo) = ''repo corrupt: '' @ repo"
| "Error (AuditWriteError e) = ''audit write: '' @ Error e"
| "Error DeadlineExceeded = ''context deadline exceeded''"
| "Error (NetError t msg) = msg"
| "Error (Wrapped msg e) = msg @ Error e"
| "Error (OtherError msg) = msg"

fun errString :: "werr option \<Rightarrow> string" where
  "errString None = ''<nil>''"
| "errString (Some e) = Error e"

definition http_class :: "int \<Rightarrow> FailureClass option" where
  "http_class code =
     (if code \<ge> 500 \<and> code < 600 then Some FailureTransientLLM
      else if code = 429 then Some FailureTransientLLM
      else if code = 401 \<or> code = 403 then Some FailurePermanentInfra
      else if code \<ge> 400 \<and> code < 500 then Some FailurePermanentTask
      else None)"

text \<open>The first error of a chain a test accepts, as \<open>errors.As\<close> finds it.\<close>

fun as_first :: "(werr \<Rightarrow> 'a option) \<Rightarrow> werr list \<Rightarrow> 'a option" where
  "as_first f [] = None"
| "as_first f (e # es) = (case f e of Some v \<Rightarrow> Some v | None \<Rightarrow> as_first f es)"

definition as_http :: "werr \<Rightarrow> int option" where
  "as_http e = (case e of HTTPStatusError code _ \<Rightarrow> Some code | _ \<Rightarrow> None)"

definition as_llm :: "werr \<Rightarrow> werr option" where
  "as_llm e = (case e of LLMCallError inner \<Rightarrow> Some inner | _ \<Rightarrow> None)"

definition as_net :: "werr \<Rightarrow> bool option" where
  "as_net e = (case e of DeadlineExceeded \<Rightarrow> Some True | NetError t _ \<Rightarrow> Some t | _ \<Rightarrow> None)"

definition is_subprocess :: "werr \<Rightarrow> bool" where
  "is_subprocess e = (case e of WorkerSubprocessError _ _ \<Rightarrow> True | _ \<Rightarrow> False)"

definition is_queue :: "werr \<Rightarrow> bool" where
  "is_queue e = (case e of QueueWriteError _ \<Rightarrow> True | _ \<Rightarrow> False)"

text \<open>The last tests of the code, for a full disk, a corrupt repository and a failed audit write, all
  give the class of the default and are one with it here.\<close>

fun Classify :: "werr option \<Rightarrow> FailureClass" where
  "Classify None = FailurePermanentInfra"
| "Classify (Some err) =
     (let es = unwrap_chain err in
      if ErrHeartbeatTimeout \<in> set es then FailureTransientInfra
      else if ErrAllTiersDown \<in> set es then FailurePermanentInfra
      else case Option.bind (as_first as_http es) http_class of
        Some c \<Rightarrow> c
      | None \<Rightarrow>
          (if (case as_first as_llm es of Some inner \<Rightarrow> DeadlineExceeded \<in> set (unwrap_chain inner) | None \<Rightarrow> False)
           then FailureTransientLLM
           else if as_first as_net es = Some True then FailureTransientLLM
           else if list_ex is_subprocess es then FailureTransientInfra
           else if list_ex is_queue es then FailureTransientInfra
           else FailurePermanentInfra))"


subsection \<open>The recovery engine (recovery.go)\<close>

datatype RecoveryAction =
    RecoveryActionRedispatchSameTier | RecoveryActionRedispatchNextTier | RecoveryActionEscalateL4
  | RecoveryActionSkipTask | RecoveryActionWaitForConfirmation | RecoveryActionHardPause

fun RecoveryAction_String :: "RecoveryAction \<Rightarrow> string" where
  "RecoveryAction_String RecoveryActionRedispatchSameTier = ''redispatch_same_tier''"
| "RecoveryAction_String RecoveryActionRedispatchNextTier = ''redispatch_next_tier''"
| "RecoveryAction_String RecoveryActionEscalateL4 = ''escalate_l4''"
| "RecoveryAction_String RecoveryActionSkipTask = ''skip_task''"
| "RecoveryAction_String RecoveryActionWaitForConfirmation = ''wait_for_confirmation''"
| "RecoveryAction_String RecoveryActionHardPause = ''hard_pause''"

datatype TierFallbackPolicy = TierFallbackFullChain | TierFallbackPartial | TierFallbackNone | TierFallbackOther int

record WorkerDeathInput =
  in_TaskID :: string
  in_WorkerID :: string
  in_Err :: "werr option"
  in_TierIndex :: int

record Decision =
  Action :: RecoveryAction
  Class :: FailureClass
  NewTierIndex :: int
  RetryCount :: int
  dec_Reason :: string

record DoctrineView =
  TransientLLMRetries :: int
  TransientInfraRetries :: int
  PermanentAfterNRetries :: int
  OnExhaustAction :: "FailureClass \<Rightarrow> RecoveryAction"
  FallbackPolicy :: TierFallbackPolicy

record tierChainAdapter =
  tiers :: "string list"
  partialStopBefore :: int

definition AdaptTierChain :: "string list \<Rightarrow> int \<Rightarrow> tierChainAdapter" where
  "AdaptTierChain ts stop =
     (let chainLen = int (length ts) in
      \<lparr>tiers = ts, partialStopBefore = (if stop \<le> 0 \<or> stop > chainLen then chainLen else stop)\<rparr>)"

definition NextTier :: "tierChainAdapter \<Rightarrow> int \<Rightarrow> TierFallbackPolicy \<Rightarrow> int \<times> bool" where
  "NextTier a tier policy =
     (if tiers a = [] then (0, False)
      else case policy of
        TierFallbackNone \<Rightarrow> (tier, False)
      | TierFallbackFullChain \<Rightarrow>
          (if tier + 1 < int (length (tiers a)) then (tier + 1, True) else (tier, False))
      | TierFallbackPartial \<Rightarrow>
          (if tier + 1 < partialStopBefore a then (tier + 1, True) else (tier, False))
      | TierFallbackOther _ \<Rightarrow> (tier, False))"

type_synonym retryKey = "string \<times> FailureClass"

record RecoveryEngine =
  doc :: DoctrineView
  tierChain :: "tierChainAdapter option"
  retries :: "retryKey \<Rightarrow> int"
  cumulative :: "retryKey \<Rightarrow> int"
  corruptHits :: int

definition NewRecoveryEngine :: "DoctrineView \<Rightarrow> tierChainAdapter option \<Rightarrow> RecoveryEngine" where
  "NewRecoveryEngine d tc = \<lparr>doc = d, tierChain = tc, retries = (\<lambda>_. 0), cumulative = (\<lambda>_. 0), corruptHits = 0\<rparr>"

definition next_tier_of :: "RecoveryEngine \<Rightarrow> FailureClass \<Rightarrow> int \<Rightarrow> int option" where
  "next_tier_of r cls tier =
     (if cls = FailureTransientLLM
      then (let policy = FallbackPolicy (doc r) in
            case tierChain r of
              None \<Rightarrow> None
            | Some tc \<Rightarrow>
                (if policy \<noteq> TierFallbackNone
                 then (let (nxt, ok) = NextTier tc tier policy in if ok then Some nxt else None)
                 else None))
      else None)"

definition handleTransientLocked ::
  "RecoveryEngine \<Rightarrow> FailureClass \<Rightarrow> WorkerDeathInput \<Rightarrow> RecoveryEngine \<times> Decision" where
  "handleTransientLocked r cls inp =
     (let key = (in_TaskID inp, cls);
          r1 = r\<lparr>retries := (retries r)(key := retries r key + 1), cumulative := (cumulative r)(key := cumulative r key + 1)\<rparr>;
          cnt = retries r1 key;
          totalCount = cumulative r1 key;
          budget = (if cls = FailureTransientInfra then TransientInfraRetries (doc r) else TransientLLMRetries (doc r));
          dec = \<lparr>Action = RecoveryActionHardPause, Class = cls, NewTierIndex = in_TierIndex inp,
                 RetryCount = totalCount, dec_Reason = ''''\<rparr> in
      if cnt \<le> budget
      then (r1, dec\<lparr>Action := RecoveryActionRedispatchSameTier, dec_Reason := ''within_budget''\<rparr>)
      else case next_tier_of r cls (in_TierIndex inp) of
        Some nxt \<Rightarrow>
          (r1\<lparr>retries := (retries r1)(key := 0)\<rparr>,
           dec\<lparr>Action := RecoveryActionRedispatchNextTier, NewTierIndex := nxt, dec_Reason := ''tier_fallback''\<rparr>)
      | None \<Rightarrow>
          (if totalCount \<ge> PermanentAfterNRetries (doc r)
           then (r1, dec\<lparr>Class := FailurePermanentTask, Action := OnExhaustAction (doc r) FailurePermanentTask,
                         dec_Reason := ''reclassified_permanent_task''\<rparr>)
           else (r1, dec\<lparr>Action := OnExhaustAction (doc r) cls, dec_Reason := ''exhausted_no_fallback''\<rparr>)))"

definition computeDecisionLocked ::
  "RecoveryEngine \<Rightarrow> FailureClass \<Rightarrow> WorkerDeathInput \<Rightarrow> RecoveryEngine \<times> Decision" where
  "computeDecisionLocked r cls inp =
     (let dec = \<lparr>Action = RecoveryActionHardPause, Class = cls, NewTierIndex = in_TierIndex inp,
                 RetryCount = 0, dec_Reason = ''''\<rparr> in
      case cls of
        FailurePermanentInfra \<Rightarrow>
          (r, dec\<lparr>Action := RecoveryActionHardPause, dec_Reason := ''permanent_infra: '' @ errString (in_Err inp)\<rparr>)
      | FailurePermanentTask \<Rightarrow>
          (r, dec\<lparr>Action := OnExhaustAction (doc r) cls, dec_Reason := ''permanent_task: '' @ errString (in_Err inp)\<rparr>)
      | _ \<Rightarrow> handleTransientLocked r cls inp)"

definition redispatches :: "RecoveryAction \<Rightarrow> bool" where
  "redispatches a \<longleftrightarrow> a = RecoveryActionRedispatchSameTier \<or> a = RecoveryActionRedispatchNextTier"

text \<open>The event type of a redispatch row; the audit write may fail, which is ignored.\<close>

definition EvtWorkerRedispatched :: int where
  "EvtWorkerRedispatched = 9"

definition HandleWorkerDeath ::
  "bool \<Rightarrow> int \<Rightarrow> RecoveryEngine \<Rightarrow> log \<Rightarrow> WorkerDeathInput \<Rightarrow> (RecoveryEngine \<times> log) \<times> Decision" where
  "HandleWorkerDeath written now r log inp =
     (let (r1, dec) = computeDecisionLocked r (Classify (in_Err inp)) inp in
      ((r1, if redispatches (Action dec)
            then Append written log EvtWorkerRedispatched now
                   (WorkerRedispatched (in_TaskID inp) (in_WorkerID inp) (FailureClass_String (Class dec))
                     (RecoveryAction_String (Action dec)) (NewTierIndex dec) (RetryCount dec) (dec_Reason dec))
            else log), dec))"

definition OnCorruption :: "RecoveryEngine \<Rightarrow> RecoveryEngine \<times> RecoveryAction" where
  "OnCorruption r =
     (let r1 = r\<lparr>corruptHits := corruptHits r + 1\<rparr> in
      (r1, if corruptHits r1 > 5 then RecoveryActionHardPause else RecoveryActionRedispatchSameTier))"

text \<open>The last dispatch of a worker, newest first.\<close>

fun last_assignment :: "string \<Rightarrow> log \<Rightarrow> string" where
  "last_assignment workerID [] = ''''"
| "last_assignment workerID (r # rs) =
     (case Payload r of
        Some (EvWorkerDispatched wd) \<Rightarrow> (if wd_WorkerID wd = workerID then wd_TaskID wd else last_assignment workerID rs)
      | _ \<Rightarrow> last_assignment workerID rs)"

definition LastAssignmentFor :: "log \<Rightarrow> string \<Rightarrow> string" where
  "LastAssignmentFor log workerID = (if workerID = '''' then '''' else last_assignment workerID (rev log))"

subsection \<open>The heartbeat sweep (recovery_heartbeat.go)\<close>

definition EvtWorkerDeath :: int where
  "EvtWorkerDeath = 8"

definition sweep_worker ::
  "bool \<Rightarrow> int \<Rightarrow> duration \<Rightarrow> string \<times> int \<Rightarrow> RecoveryEngine \<times> log \<Rightarrow> RecoveryEngine \<times> log" where
  "sweep_worker written now timeout beat st =
     (case (beat, st) of ((workerID, lastBeat), (r, log)) \<Rightarrow>
        if tsub now lastBeat \<le> timeout then (r, log)
        else
          (let taskID = LastAssignmentFor log workerID;
               log1 = Append written log EvtWorkerDeath now
                        (WorkerDeath workerID taskID (FailureClass_String FailureTransientInfra) ''heartbeat_timeout'' 0) in
           fst (HandleWorkerDeath written now r log1
                  \<lparr>in_TaskID = taskID, in_WorkerID = workerID, in_Err = Some ErrHeartbeatTimeout, in_TierIndex = 0\<rparr>)))"

definition checkOnce ::
  "bool \<Rightarrow> int \<Rightarrow> duration \<Rightarrow> string + (string \<times> int) list \<Rightarrow> RecoveryEngine \<times> log \<Rightarrow> RecoveryEngine \<times> log" where
  "checkOnce written now timeout beats st =
     (case beats of Inl _ \<Rightarrow> st | Inr bs \<Rightarrow> fold (sweep_worker written now timeout) bs st)"


subsection \<open>Reconstruction after a restart (recovery_replay.go)\<close>

definition corruptionBudget :: int where
  "corruptionBudget = 5"

record Redispatch =
  rd_TaskID :: string
  rd_WorkerID :: string
  rd_Tier :: string
  rd_Cause :: string

record ReconstructPlan =
  Redispatches :: "Redispatch list"
  HardPause :: bool
  plan_Reason :: string

text \<open>The decoded rows with their timestamps, and the number of rows that do not decode.\<close>

definition decoded :: "log \<Rightarrow> (int \<times> payload) list" where
  "decoded log = List.map_filter (\<lambda>r. map_option (Pair (Timestamp r)) (Payload r)) log"

definition corrupt_count :: "log \<Rightarrow> int" where
  "corrupt_count log = int (length (filter (\<lambda>r. Payload r = None) log))"

record scan =
  checkpointByTask :: "string \<rightharpoonup> int"
  dispatchTaskByWorker :: "string \<Rightarrow> string"
  dispatchTaskByWorkerTs :: "string \<rightharpoonup> int"
  redispatchByWorker :: "string \<rightharpoonup> int"

definition empty_scan :: scan where
  "empty_scan = \<lparr>checkpointByTask = Map.empty, dispatchTaskByWorker = (\<lambda>_. ''''),
     dispatchTaskByWorkerTs = Map.empty, redispatchByWorker = Map.empty\<rparr>"

definition newer :: "int option \<Rightarrow> int \<Rightarrow> bool" where
  "newer old ts = (case old of None \<Rightarrow> True | Some existing \<Rightarrow> ts > existing)"

definition scan_row :: "int \<times> payload \<Rightarrow> scan \<Rightarrow> scan" where
  "scan_row d s =
     (case d of (ts, ev) \<Rightarrow>
        case ev of
          WorkerCheckpoint w t sha summary \<Rightarrow>
            (let tid = (if t = '''' then dispatchTaskByWorker s w else t) in
             if tid = '''' then s
             else if newer (checkpointByTask s tid) ts
             then s\<lparr>checkpointByTask := (checkpointByTask s)(tid \<mapsto> ts)\<rparr> else s)
        | WorkerRedispatched t w cls act tier n reason \<Rightarrow>
            (if newer (redispatchByWorker s w) ts
             then s\<lparr>redispatchByWorker := (redispatchByWorker s)(w \<mapsto> ts)\<rparr> else s)
        | EvWorkerDispatched wd \<Rightarrow>
            (if newer (dispatchTaskByWorkerTs s (wd_WorkerID wd)) ts
             then s\<lparr>dispatchTaskByWorkerTs := (dispatchTaskByWorkerTs s)(wd_WorkerID wd \<mapsto> ts),
                    dispatchTaskByWorker := (dispatchTaskByWorker s)(wd_WorkerID wd := wd_TaskID wd)\<rparr> else s)
        | _ \<Rightarrow> s)"

definition scan_rows :: "(int \<times> payload) list \<Rightarrow> scan" where
  "scan_rows ds = fold scan_row ds empty_scan"

definition later :: "int option \<Rightarrow> int \<Rightarrow> bool" where
  "later seen_ts ts = (case seen_ts of None \<Rightarrow> False | Some u \<Rightarrow> u > ts)"

fun find_tier :: "string \<Rightarrow> string \<Rightarrow> (int \<times> payload) list \<Rightarrow> string" where
  "find_tier w t [] = ''''"
| "find_tier w t ((ts, ev) # ds) =
     (case ev of
        EvWorkerDispatched wd \<Rightarrow> (if wd_WorkerID wd = w \<and> wd_TaskID wd = t then wd_Tier wd else find_tier w t ds)
      | _ \<Rightarrow> find_tier w t ds)"

text \<open>The pass over the deaths and the pass over the dispatches; the state is the set of tasks seen and
  the plan so far.\<close>

definition death_row ::
  "(int \<times> payload) list \<Rightarrow> scan \<Rightarrow> int \<times> payload \<Rightarrow> string set \<times> Redispatch list \<Rightarrow> string set \<times> Redispatch list" where
  "death_row dec s d st =
     (case (d, st) of ((deathTs, ev), (seenTasks, plan)) \<Rightarrow>
        case ev of
          WorkerDeath w t cls reason n \<Rightarrow>
            (if later (redispatchByWorker s w) deathTs then st
             else
               (let taskID = (if t = '''' then dispatchTaskByWorker s w else t) in
                if taskID = '''' then st
                else if taskID \<in> seenTasks then st
                else if later (checkpointByTask s taskID) deathTs then st
                else (insert taskID seenTasks,
                      plan @ [\<lparr>rd_TaskID = taskID, rd_WorkerID = w, rd_Tier = find_tier w taskID dec,
                               rd_Cause = ''worker_death_unrecovered''\<rparr>])))
        | _ \<Rightarrow> st)"

definition dispatch_row ::
  "scan \<Rightarrow> int \<times> payload \<Rightarrow> string set \<times> Redispatch list \<Rightarrow> string set \<times> Redispatch list" where
  "dispatch_row s d st =
     (case (d, st) of ((dispatchTs, ev), (seenTasks, plan)) \<Rightarrow>
        case ev of
          EvWorkerDispatched wd \<Rightarrow>
            (if later (checkpointByTask s (wd_TaskID wd)) dispatchTs then st
             else if wd_TaskID wd \<in> seenTasks then st
             else (insert (wd_TaskID wd) seenTasks,
                   plan @ [\<lparr>rd_TaskID = wd_TaskID wd, rd_WorkerID = wd_WorkerID wd, rd_Tier = wd_Tier wd,
                            rd_Cause = ''unmatched_dispatch''\<rparr>]))
        | _ \<Rightarrow> st)"

definition plan_of :: "(int \<times> payload) list \<Rightarrow> Redispatch list" where
  "plan_of dec =
     (let s = scan_rows dec;
          st = fold (death_row dec s) dec ({}, [])
      in snd (fold (dispatch_row s) dec st))"

definition EvtOrchestratorRestoreFromReplay :: int where
  "EvtOrchestratorRestoreFromReplay = 4"

definition emitRestoreFromReplay :: "bool \<Rightarrow> int \<Rightarrow> string \<Rightarrow> ReconstructPlan \<Rightarrow> log \<Rightarrow> int \<Rightarrow> log" where
  "emitRestoreFromReplay written now sessionID plan log decodeErrors =
     Append written log EvtOrchestratorRestoreFromReplay now
       (OrchestratorRestoreFromReplay sessionID (int (length log)) decodeErrors
          (int (length (Redispatches plan))) (HardPause plan) (plan_Reason plan))"

text \<open>\<open>Inl\<close> is a failed query of the log.\<close>

definition ReconstructInFlight ::
  "bool \<Rightarrow> int \<Rightarrow> string \<Rightarrow> string + log \<Rightarrow> string + log \<times> ReconstructPlan" where
  "ReconstructInFlight written now sessionID queried =
     (case queried of
        Inl e \<Rightarrow> Inl e
      | Inr log \<Rightarrow>
          (let n = corrupt_count log in
           if n > corruptionBudget
           then (let plan = \<lparr>Redispatches = [], HardPause = True,
                             plan_Reason = ''invariant corruption budget breached: '' @ dec_int n @ '' decode failures''\<rparr>
                 in Inr (emitRestoreFromReplay written now sessionID plan log n, plan))
           else (let rds = plan_of (decoded log);
                     plan = \<lparr>Redispatches = rds, HardPause = False,
                             plan_Reason = (if rds = [] then ''no in-flight tasks''
                                            else ''recovered '' @ dec_int (int (length rds)) @ '' in-flight tasks'')\<rparr>
                 in Inr (emitRestoreFromReplay written now sessionID plan log n, plan))))"

fun worker_tasks :: "log \<Rightarrow> (string \<rightharpoonup> string) \<Rightarrow> (string \<rightharpoonup> string)" where
  "worker_tasks [] m = m"
| "worker_tasks (r # rs) m =
     (case Payload r of
        Some (EvWorkerDispatched wd) \<Rightarrow>
          worker_tasks rs (if wd_TaskID wd \<noteq> '''' \<and> wd_WorkerID wd \<noteq> '''' then m(wd_WorkerID wd \<mapsto> wd_TaskID wd) else m)
      | _ \<Rightarrow> worker_tasks rs m)"

definition completes :: "(string \<rightharpoonup> string) \<Rightarrow> string \<Rightarrow> Record \<Rightarrow> bool" where
  "completes m taskID r =
     (case Payload r of
        Some (WorkerCheckpoint w t sha summary) \<Rightarrow>
          t = taskID \<or> (t = '''' \<and> w \<noteq> '''' \<and> m w = Some taskID)
      | _ \<Rightarrow> False)"

definition IsTaskAlreadyComplete :: "string + log \<Rightarrow> string \<Rightarrow> bool" where
  "IsTaskAlreadyComplete queried taskID =
     (if taskID = '''' then False
      else case queried of Inl _ \<Rightarrow> False
      | Inr log \<Rightarrow> list_ex (completes (worker_tasks log Map.empty) taskID) log)"


subsection \<open>Replay reads off the tasks in flight\<close>

definition payloads :: "log \<Rightarrow> payload list" where
  "payloads log = List.map_filter Payload log"

lemma payloads_simps [simp]:
  "payloads [] = []"
  "payloads (r # rs) = (case Payload r of None \<Rightarrow> payloads rs | Some p \<Rightarrow> p # payloads rs)"
  by (simp_all add: payloads_def List.map_filter_def split: option.splits)

lemma corrupt_count_simps [simp]:
  "corrupt_count [] = 0"
  "corrupt_count (r # rs) = (if Payload r = None then 1 else 0) + corrupt_count rs"
  by (simp_all add: corrupt_count_def)

lemma corrupt_count_nonneg: "0 \<le> corrupt_count log"
  by (simp add: corrupt_count_def)

text \<open>An event that ends the present dispatch of a worker, or starts another.\<close>

fun touches :: "string \<Rightarrow> payload \<Rightarrow> bool" where
  "touches w (EvWorkerDispatched wd) = (wd_WorkerID wd = w)"
| "touches w (WorkerCheckpoint v t sha summary) = (v = w)"
| "touches w (WorkerDeath v t cls reason n) = (v = w)"
| "touches w _ = False"

lemma applyToState_counts [simp]:
  "EventsReplayed (applyToState st p) = EventsReplayed st"
  "EventsCorrupted (applyToState st p) = EventsCorrupted st"
  "LastEventID (applyToState st p) = LastEventID st"
  by (cases p; simp)+

lemma applyToState_frame:
  "applyToState (st\<lparr>EventsReplayed := n, LastEventID := i\<rparr>) p = (applyToState st p)\<lparr>EventsReplayed := n, LastEventID := i\<rparr>"
  "applyToState (st\<lparr>EventsCorrupted := n\<rparr>) p = (applyToState st p)\<lparr>EventsCorrupted := n\<rparr>"
  by (cases p; simp)+

text \<open>The part of the replay state the events build, apart from the counters.\<close>

definition view :: "ReplayState \<Rightarrow> string \<times> (string \<rightharpoonup> WorkerDispatched) \<times> (string \<rightharpoonup> string list) \<times> (string \<rightharpoonup> string)" where
  "view st = (LastTransition st, InFlightWorkers st, PendingWaves st, OpenConfirmations st)"

lemma view_frame [simp]:
  "view (st\<lparr>EventsReplayed := n, LastEventID := i\<rparr>) = view st" "view (st\<lparr>EventsCorrupted := c\<rparr>) = view st"
  "view (st\<lparr>EventsReplayed := n, LastEventID := i, EventsCorrupted := c\<rparr>) = view st"
  by (simp_all add: view_def)

lemma view_apply: "view st = view st' \<Longrightarrow> view (applyToState st p) = view (applyToState st' p)"
  by (cases p) (simp_all add: view_def)

lemma view_fold: "view st = view st' \<Longrightarrow> view (fold (\<lambda>p s. applyToState s p) ps st) = view (fold (\<lambda>p s. applyToState s p) ps st')"
proof (induction ps arbitrary: st st')
  case (Cons p ps)
  from Cons.IH [OF view_apply [OF Cons.prems]] show ?case by simp
qed simp

lemma replay_rows_within:
  assumes "\<forall>i. live i" "EventsCorrupted st + corrupt_count log \<le> 5"
  shows "\<exists>st' audit'. replay_rows live i st log audit = (st', None, audit')
    \<and> view st' = view (fold (\<lambda>p s. applyToState s p) (payloads log) st)
    \<and> EventsCorrupted st' = EventsCorrupted st + corrupt_count log
    \<and> EventsReplayed st' = EventsReplayed st + int (length log)
    \<and> int (length audit') = int (length audit) + corrupt_count log"
  using assms(2)
proof (induction log arbitrary: i st audit)
  case (Cons r rs)
  let ?st = "st\<lparr>EventsReplayed := EventsReplayed st + 1, LastEventID := EventID r\<rparr>"
  show ?case
  proof (cases "Payload r")
    case (Some p)
    have "view (fold (\<lambda>p s. applyToState s p) (payloads rs) (applyToState ?st p))
        = view (fold (\<lambda>p s. applyToState s p) (payloads rs) (applyToState st p))"
      by (intro view_fold view_apply) simp
    with Some Cons.IH [of "applyToState ?st p" "Suc i" audit] Cons.prems assms(1) show ?thesis by (auto simp: Let_def)
  next
    case None
    let ?st2 = "?st\<lparr>EventsCorrupted := EventsCorrupted st + 1\<rparr>"
    have "view (fold (\<lambda>p s. applyToState s p) (payloads rs) ?st2) = view (fold (\<lambda>p s. applyToState s p) (payloads rs) st)"
      by (intro view_fold) simp
    with None Cons.IH [of ?st2 "Suc i" "audit @ [ReplayCorruptionDetected (EventID r) (EventType r)]"] Cons.prems
      assms(1) corrupt_count_nonneg [of rs] show ?thesis
      by (auto simp: Let_def ReplayCorruptionBudget_def)
  qed
qed simp

lemma replay_rows_breach:
  assumes "\<forall>i. live i" "EventsCorrupted st \<le> 5" "EventsCorrupted st + corrupt_count log > 5"
  shows "\<exists>st' audit'. replay_rows live i st log audit = (st', Some ErrCorruptionBudgetExceeded, audit')
    \<and> EventsCorrupted st' = 6 \<and> int (length audit') = int (length audit) + (6 - EventsCorrupted st)"
  using assms(2,3)
proof (induction log arbitrary: i st audit)
  case (Cons r rs)
  let ?st = "st\<lparr>EventsReplayed := EventsReplayed st + 1, LastEventID := EventID r\<rparr>"
  show ?case
  proof (cases "Payload r")
    case (Some p)
    with Cons.IH [of "applyToState ?st p" "Suc i" audit] Cons.prems assms(1) show ?thesis by (auto simp: Let_def)
  next
    case None
    let ?st2 = "?st\<lparr>EventsCorrupted := EventsCorrupted st + 1\<rparr>"
    show ?thesis
    proof (cases "EventsCorrupted st = 5")
      case True
      with None assms(1) show ?thesis by (auto simp: Let_def ReplayCorruptionBudget_def)
    next
      case False
      with None Cons.IH [of ?st2 "Suc i" "audit @ [ReplayCorruptionDetected (EventID r) (EventType r)]"] Cons.prems
        assms(1) show ?thesis
        by (auto simp: Let_def ReplayCorruptionBudget_def)
    qed
  qed
qed simp

lemma in_flight_fold:
  "InFlightWorkers (fold (\<lambda>p s. applyToState s p) ps st) w = Some d \<longleftrightarrow>
     (\<exists>xs ys. ps = xs @ EvWorkerDispatched d # ys \<and> wd_WorkerID d = w \<and> (\<forall>e \<in> set ys. \<not> touches w e))
   \<or> (InFlightWorkers st w = Some d \<and> (\<forall>e \<in> set ps. \<not> touches w e))"
proof (induction ps rule: rev_induct)
  case (snoc p ps)
  let ?st = "fold (\<lambda>p s. applyToState s p) ps st"
  have split: "(\<exists>xs ys. ps @ [p] = xs @ EvWorkerDispatched d # ys \<and> wd_WorkerID d = w \<and> (\<forall>e \<in> set ys. \<not> touches w e)) \<longleftrightarrow>
      (p = EvWorkerDispatched d \<and> wd_WorkerID d = w)
      \<or> (\<not> touches w p \<and> (\<exists>xs ys. ps = xs @ EvWorkerDispatched d # ys \<and> wd_WorkerID d = w \<and> (\<forall>e \<in> set ys. \<not> touches w e)))"
    (is "?L \<longleftrightarrow> ?R")
  proof
    assume ?L
    then obtain xs ys where e: "ps @ [p] = xs @ EvWorkerDispatched d # ys" "wd_WorkerID d = w" "\<forall>e \<in> set ys. \<not> touches w e"
      by blast
    show ?R
    proof (cases ys rule: rev_cases)
      case Nil
      with e show ?thesis by simp
    next
      case (snoc zs z)
      with e have "ps = xs @ EvWorkerDispatched d # zs" "p = z" by (simp_all flip: append_assoc append_Cons)
      with e snoc show ?thesis by auto
    qed
  next
    assume ?R
    then show ?L
    proof (elim disjE conjE exE)
      fix xs ys assume "\<not> touches w p" "ps = xs @ EvWorkerDispatched d # ys" "wd_WorkerID d = w" "\<forall>e \<in> set ys. \<not> touches w e"
      then show ?L by (intro exI [of _ xs] exI [of _ "ys @ [p]"]) auto
    next
      assume "p = EvWorkerDispatched d" "wd_WorkerID d = w"
      then show ?L by (intro exI [of _ ps] exI [of _ "[]"]) auto
    qed
  qed
  have step: "InFlightWorkers (applyToState ?st p) w = Some d \<longleftrightarrow>
      (p = EvWorkerDispatched d \<and> wd_WorkerID d = w) \<or> (\<not> touches w p \<and> InFlightWorkers ?st w = Some d)"
    by (cases p) auto
  show ?case unfolding split by (auto simp: step snoc.IH)
qed simp


text \<open>An uncancelled replay of a session tolerates at most five rows that do not decode. Within
  that budget it ends without error, counts every row, and holds as in flight exactly the workers
  whose last dispatch is followed by no checkpoint, death or new dispatch of theirs; beyond it,
  it stops at the sixth such row with the budget error, having audited all six.\<close>

lemma Replay_reads_in_flight:
  assumes "\<forall>i. live i"
  shows "(corrupt_count log \<le> 5 \<longrightarrow>
       (\<exists>st audit. Replay live log = (st, None, audit) \<and> EventsReplayed st = int (length log)
          \<and> EventsCorrupted st = corrupt_count log \<and> int (length audit) = corrupt_count log
          \<and> (\<forall>w d. InFlightWorkers st w = Some d \<longleftrightarrow>
               (\<exists>xs ys. payloads log = xs @ EvWorkerDispatched d # ys \<and> wd_WorkerID d = w
                  \<and> (\<forall>e \<in> set ys. \<not> touches w e)))))
    \<and> (corrupt_count log > 5 \<longrightarrow>
       (\<exists>st audit. Replay live log = (st, Some ErrCorruptionBudgetExceeded, audit) \<and> EventsCorrupted st = 6
          \<and> length audit = 6))"
proof (intro conjI impI)
  assume le: "corrupt_count log \<le> 5"
  obtain st audit where r: "replay_rows live 0 empty_replay log [] = (st, None, audit)"
      "view st = view (fold (\<lambda>p s. applyToState s p) (payloads log) empty_replay)"
      "EventsCorrupted st = corrupt_count log" "EventsReplayed st = int (length log)" "int (length audit) = corrupt_count log"
    using replay_rows_within [OF assms, of empty_replay log 0 "[]"] le by (auto simp: empty_replay_def)
  have "InFlightWorkers st = InFlightWorkers (fold (\<lambda>p s. applyToState s p) (payloads log) empty_replay)"
    using r(2) by (simp add: view_def)
  then have "\<forall>w d. InFlightWorkers st w = Some d \<longleftrightarrow>
      (\<exists>xs ys. payloads log = xs @ EvWorkerDispatched d # ys \<and> wd_WorkerID d = w \<and> (\<forall>e \<in> set ys. \<not> touches w e))"
    by (simp add: in_flight_fold empty_replay_def)
  with r show "\<exists>st audit. Replay live log = (st, None, audit) \<and> EventsReplayed st = int (length log)
          \<and> EventsCorrupted st = corrupt_count log \<and> int (length audit) = corrupt_count log
          \<and> (\<forall>w d. InFlightWorkers st w = Some d \<longleftrightarrow>
               (\<exists>xs ys. payloads log = xs @ EvWorkerDispatched d # ys \<and> wd_WorkerID d = w
                  \<and> (\<forall>e \<in> set ys. \<not> touches w e)))"
    unfolding Replay_def by blast
next
  assume "corrupt_count log > 5"
  with replay_rows_breach [OF assms, of empty_replay log 0 "[]"]
  show "\<exists>st audit. Replay live log = (st, Some ErrCorruptionBudgetExceeded, audit) \<and> EventsCorrupted st = 6
          \<and> length audit = 6"
    by (auto simp: Replay_def empty_replay_def)
qed

definition demo_log :: log where
  "demo_log =
     [\<lparr>EventID = 1, EventType = 6, Timestamp = 10, Payload = Some (EvWorkerDispatched \<lparr>wd_WorkerID = ''w1'', wd_TaskID = ''t1'', wd_Tier = ''a''\<rparr>)\<rparr>,
      \<lparr>EventID = 2, EventType = 6, Timestamp = 11, Payload = Some (EvWorkerDispatched \<lparr>wd_WorkerID = ''w2'', wd_TaskID = ''t2'', wd_Tier = ''b''\<rparr>)\<rparr>,
      \<lparr>EventID = 3, EventType = 7, Timestamp = 12, Payload = None\<rparr>,
      \<lparr>EventID = 4, EventType = 7, Timestamp = 13, Payload = Some (WorkerCheckpoint ''w1'' ''t1'' ''sha'' ''ok'')\<rparr>]"

subsection \<open>Reconstruction loses no task in flight\<close>

text \<open>Rows of a session in which every checkpoint and death names its task.\<close>

fun tagged :: "payload \<Rightarrow> bool" where
  "tagged (WorkerCheckpoint w t sha summary) = (t \<noteq> '''')"
| "tagged (WorkerDeath w t cls reason n) = (t \<noteq> '''')"
| "tagged _ = True"

text \<open>What the plan is to contain: a task whose checkpoint after a time is in the log, a worker that
  was redispatched after a time, and the tasks in flight.\<close>

fun checkpoint_of :: "string \<Rightarrow> payload \<Rightarrow> bool" where
  "checkpoint_of t (WorkerCheckpoint w t' sha summary) = (t' = t)"
| "checkpoint_of t _ = False"

fun redispatch_of :: "string \<Rightarrow> payload \<Rightarrow> bool" where
  "redispatch_of w (WorkerRedispatched t w' cls act tier n reason) = (w' = w)"
| "redispatch_of w _ = False"

definition checkpointed_after :: "(int \<times> payload) list \<Rightarrow> string \<Rightarrow> int \<Rightarrow> bool" where
  "checkpointed_after ds t ts \<longleftrightarrow> list_ex (\<lambda>(u, ev). checkpoint_of t ev \<and> u > ts) ds"

definition redispatched_after :: "(int \<times> payload) list \<Rightarrow> string \<Rightarrow> int \<Rightarrow> bool" where
  "redispatched_after ds w ts \<longleftrightarrow> list_ex (\<lambda>(u, ev). redispatch_of w ev \<and> u > ts) ds"

fun unrecovered_death :: "(int \<times> payload) list \<Rightarrow> string \<Rightarrow> int \<times> payload \<Rightarrow> bool" where
  "unrecovered_death ds t (ts, WorkerDeath w t' cls reason n) =
     (t' = t \<and> \<not> redispatched_after ds w ts \<and> \<not> checkpointed_after ds t ts)"
| "unrecovered_death ds t _ = False"

fun unmatched_dispatch :: "(int \<times> payload) list \<Rightarrow> string \<Rightarrow> int \<times> payload \<Rightarrow> bool" where
  "unmatched_dispatch ds t (ts, EvWorkerDispatched wd) = (wd_TaskID wd = t \<and> \<not> checkpointed_after ds t ts)"
| "unmatched_dispatch ds t _ = False"

definition in_flight :: "(int \<times> payload) list \<Rightarrow> string \<Rightarrow> bool" where
  "in_flight ds t \<longleftrightarrow> list_ex (unrecovered_death ds t) ds \<or> list_ex (unmatched_dispatch ds t) ds"

lemma later_simps [simp]: "later (Some u) ts \<longleftrightarrow> u > ts" "\<not> later None ts"
  by (simp_all add: later_def)

lemma newer_later: "newer old u \<Longrightarrow> later old ts \<Longrightarrow> u > ts"
  by (auto simp: later_def newer_def split: option.splits)

lemma not_newer_later: "\<not> newer old u \<Longrightarrow> u > ts \<Longrightarrow> later old ts"
  by (auto simp: later_def newer_def split: option.splits)

lemma scan_checkpoints:
  assumes "list_all (tagged \<circ> snd) ds"
  shows "later (checkpointByTask (fold scan_row ds s) t) ts \<longleftrightarrow> later (checkpointByTask s t) ts \<or> (checkpointed_after ds t ts)"
  using assms
proof (induction ds arbitrary: s)
  case (Cons d ds)
  obtain u ev where d: "d = (u, ev)" by force
  have step: "later (checkpointByTask (scan_row d s) t) ts \<longleftrightarrow> later (checkpointByTask s t) ts \<or> checkpoint_of t ev \<and> u > ts"
    using Cons.prems d
    by (cases ev) (auto simp: scan_row_def Let_def split: if_splits dest: newer_later not_newer_later)
  with Cons d show ?case by (auto simp: checkpointed_after_def)
qed (simp add: checkpointed_after_def)

lemma scan_redispatches:
  "later (redispatchByWorker (fold scan_row ds s) w) ts \<longleftrightarrow> later (redispatchByWorker s w) ts \<or> redispatched_after ds w ts"
proof (induction ds arbitrary: s)
  case (Cons d ds)
  obtain u ev where d: "d = (u, ev)" by force
  have step: "later (redispatchByWorker (scan_row d s) w) ts \<longleftrightarrow> later (redispatchByWorker s w) ts \<or> redispatch_of w ev \<and> u > ts"
    using d by (cases ev) (auto simp: scan_row_def Let_def split: if_splits dest: newer_later not_newer_later)
  with Cons d show ?case by (auto simp: redispatched_after_def)
qed (simp add: redispatched_after_def)

lemma scan_rows_later:
  "list_all (tagged \<circ> snd) ds \<Longrightarrow> later (checkpointByTask (scan_rows ds) t) ts \<longleftrightarrow> checkpointed_after ds t ts"
  "later (redispatchByWorker (scan_rows ds) w) ts \<longleftrightarrow> redispatched_after ds w ts"
  by (simp_all add: scan_rows_def scan_checkpoints scan_redispatches empty_scan_def)

text \<open>Both passes only add tasks not seen before, and the tasks seen are those of the plan.\<close>

definition plan_ok :: "string set \<times> Redispatch list \<Rightarrow> bool" where
  "plan_ok st \<longleftrightarrow> fst st = set (map rd_TaskID (snd st)) \<and> distinct (map rd_TaskID (snd st))"

lemma death_row_step:
  assumes "list_all (tagged \<circ> snd) dec" "tagged (snd d)" "plan_ok st"
  shows "plan_ok (death_row dec (scan_rows dec) d st)
    \<and> fst (death_row dec (scan_rows dec) d st) = fst st \<union> {t. unrecovered_death dec t d}"
proof -
  obtain ts ev sn pl where d: "d = (ts, ev)" "st = (sn, pl)" by (metis surj_pair)
  show ?thesis
    using assms
    by (cases ev) (auto simp: d death_row_def scan_rows_later plan_ok_def Let_def)
qed

lemma dispatch_row_step:
  assumes "list_all (tagged \<circ> snd) dec" "plan_ok st"
  shows "plan_ok (dispatch_row (scan_rows dec) d st)
    \<and> fst (dispatch_row (scan_rows dec) d st) = fst st \<union> {t. unmatched_dispatch dec t d}"
proof -
  obtain ts ev sn pl where d: "d = (ts, ev)" "st = (sn, pl)" by (metis surj_pair)
  show ?thesis
    using assms
    by (cases ev) (auto simp: d dispatch_row_def scan_rows_later plan_ok_def Let_def)
qed

text \<open>The two passes share the shape of their loop.\<close>

lemma pass_collects:
  assumes "\<And>d st. d \<in> set ds \<Longrightarrow> plan_ok st \<Longrightarrow> plan_ok (f d st) \<and> fst (f d st) = fst st \<union> {t. P t d}" "plan_ok st"
  shows "plan_ok (fold f ds st) \<and> fst (fold f ds st) = fst st \<union> {t. list_ex (P t) ds}"
  using assms
proof (induction ds arbitrary: st)
  case (Cons d ds)
  have "plan_ok (f d st)" "fst (f d st) = fst st \<union> {t. P t d}" using Cons.prems by auto
  with Cons.IH [of "f d st"] Cons.prems(1) show ?case by auto
qed simp

lemma plan_of_tasks:
  assumes "list_all (tagged \<circ> snd) dec"
  shows "distinct (map rd_TaskID (plan_of dec)) \<and> set (map rd_TaskID (plan_of dec)) = {t. in_flight dec t}"
proof -
  let ?st = "fold (death_row dec (scan_rows dec)) dec ({}, [])"
  have tg: "d \<in> set dec \<Longrightarrow> tagged (snd d)" for d using assms by (auto simp: list_all_iff)
  have "plan_ok ({}, [])" by (simp add: plan_ok_def)
  then have one: "plan_ok ?st \<and> fst ?st = fst ({} :: string set, [] :: Redispatch list) \<union> {t. list_ex (unrecovered_death dec t) dec}"
    by (intro pass_collects) (use death_row_step [OF assms] tg in blast)
  let ?st2 = "fold (dispatch_row (scan_rows dec)) dec ?st"
  have two: "plan_ok ?st2 \<and> fst ?st2 = fst ?st \<union> {t. list_ex (unmatched_dispatch dec t) dec}"
    by (intro pass_collects) (use dispatch_row_step [OF assms] one in blast)+
  have "fst ?st2 = {t. in_flight dec t}" using one two by (simp add: in_flight_def Collect_disj_eq)
  with two show ?thesis unfolding plan_of_def Let_def by (simp only: plan_ok_def)
qed


lemma decoded_snoc [simp]:
  "decoded (log @ [r]) = decoded log @ (case Payload r of None \<Rightarrow> [] | Some p \<Rightarrow> [(Timestamp r, p)])"
  by (simp add: decoded_def List.map_filter_def split: option.splits)

lemma corrupt_count_snoc [simp]: "corrupt_count (log @ [r]) = corrupt_count log + (if Payload r = None then 1 else 0)"
  by (simp add: corrupt_count_def)

lemma find_tier_snoc: "find_tier w t (ds @ [(ts, OrchestratorRestoreFromReplay a b c d e f)]) = find_tier w t ds"
  by (induction ds) (auto split: payload.splits)

text \<open>The audit row a reconstruction appends changes no later plan.\<close>

lemma plan_of_audit: "plan_of (ds @ [(ts, OrchestratorRestoreFromReplay a b c d e f)]) = plan_of ds"
proof -
  let ?x = "(ts, OrchestratorRestoreFromReplay a b c d e f)"
  have sc: "scan_rows (ds @ [?x]) = scan_rows ds" by (simp add: scan_rows_def scan_row_def)
  have "death_row (ds @ [?x]) s = death_row ds s" for s
    unfolding death_row_def find_tier_snoc ..
  then show ?thesis
    unfolding plan_of_def sc by (simp add: Let_def death_row_def dispatch_row_def case_prod_beta)
qed

lemma Reconstruct_cases:
  "\<exists>log' plan. ReconstructInFlight written now sid (Inr log) = Inr (log', plan)
    \<and> (log' = log \<or> (\<exists>r a b c d e f. log' = log @ [r] \<and> Payload r = Some (OrchestratorRestoreFromReplay a b c d e f)))
    \<and> HardPause plan = (corrupt_count log > 5)
    \<and> Redispatches plan = (if corrupt_count log > 5 then [] else plan_of (decoded log))"
  by (auto simp: ReconstructInFlight_def Let_def corruptionBudget_def emitRestoreFromReplay_def Append_def)




subsection \<open>Retries end\<close>

text \<open>A task whose workers keep dying with the same failure: each new worker runs on the tier the
  last decision chose.\<close>

fun drive :: "RecoveryEngine \<times> log \<Rightarrow> WorkerDeathInput \<Rightarrow> nat \<Rightarrow> Decision list" where
  "drive st inp 0 = []"
| "drive st inp (Suc n) =
     (let (st', d) = HandleWorkerDeath True 0 (fst st) (snd st) inp
      in d # drive st' (inp\<lparr>in_TierIndex := NewTierIndex d\<rparr>) n)"

definition retry_budget :: "RecoveryEngine \<Rightarrow> FailureClass \<Rightarrow> int" where
  "retry_budget r cls = max 0 (if cls = FailureTransientInfra then TransientInfraRetries (doc r) else TransientLLMRetries (doc r))"

text \<open>One past the last tier that falling back from a tier can reach.\<close>

definition tier_limit :: "RecoveryEngine \<Rightarrow> FailureClass \<Rightarrow> int \<Rightarrow> int" where
  "tier_limit r cls tier =
     (if cls \<noteq> FailureTransientLLM then tier + 1
      else case tierChain r of
        None \<Rightarrow> tier + 1
      | Some tc \<Rightarrow>
          (if tiers tc = [] then tier + 1
           else case FallbackPolicy (doc r) of
             TierFallbackFullChain \<Rightarrow> max (tier + 1) (int (length (tiers tc)))
           | TierFallbackPartial \<Rightarrow> max (tier + 1) (partialStopBefore tc)
           | _ \<Rightarrow> tier + 1))"

lemma next_tier_limit:
  "next_tier_of r cls tier = (if tier + 1 < tier_limit r cls tier then Some (tier + 1) else None)"
  by (auto simp: next_tier_of_def tier_limit_def NextTier_def Let_def split: option.splits TierFallbackPolicy.splits)

lemma tier_limit_next: "tier + 1 < tier_limit r cls tier \<Longrightarrow> tier_limit r cls (tier + 1) = tier_limit r cls tier"
  by (auto simp: tier_limit_def split: option.splits TierFallbackPolicy.splits if_splits)

lemma tier_limit_gt: "tier < tier_limit r cls tier"
  by (auto simp: tier_limit_def split: option.splits TierFallbackPolicy.splits)

lemma limit_cong:
  "doc r' = doc r \<Longrightarrow> tierChain r' = tierChain r \<Longrightarrow> tier_limit r' cls tier = tier_limit r cls tier \<and> retry_budget r' cls = retry_budget r cls"
  by (simp only: tier_limit_def retry_budget_def)

definition transient :: "FailureClass \<Rightarrow> bool" where
  "transient cls \<longleftrightarrow> cls = FailureTransientLLM \<or> cls = FailureTransientInfra"

lemma HandleWorkerDeath_transient:
  assumes "transient (Classify (in_Err inp))" and "HandleWorkerDeath w now r log inp = ((r', log'), d)"
  shows "handleTransientLocked r (Classify (in_Err inp)) inp = (r', d)"
  using assms by (auto simp: HandleWorkerDeath_def computeDecisionLocked_def transient_def Let_def split: prod.splits)

lemma transient_cases:
  assumes "handleTransientLocked r cls inp = (r', d)" and "0 \<le> retries r (in_TaskID inp, cls)"
  shows "doc r' = doc r \<and> tierChain r' = tierChain r
    \<and> cumulative r' (in_TaskID inp, cls) = cumulative r (in_TaskID inp, cls) + 1
    \<and> RetryCount d = cumulative r (in_TaskID inp, cls) + 1
    \<and> (if retries r (in_TaskID inp, cls) < retry_budget r cls
       then Action d = RecoveryActionRedispatchSameTier \<and> NewTierIndex d = in_TierIndex inp
          \<and> retries r' (in_TaskID inp, cls) = retries r (in_TaskID inp, cls) + 1
       else if in_TierIndex inp + 1 < tier_limit r cls (in_TierIndex inp)
       then Action d = RecoveryActionRedispatchNextTier \<and> NewTierIndex d = in_TierIndex inp + 1
          \<and> retries r' (in_TaskID inp, cls) = 0
       else Class d = (if RetryCount d \<ge> PermanentAfterNRetries (doc r) then FailurePermanentTask else cls)
          \<and> Action d = OnExhaustAction (doc r) (Class d))"
  using assms
  by (auto simp: handleTransientLocked_def Let_def next_tier_limit retry_budget_def split: if_splits)


definition deaths_left :: "RecoveryEngine \<Rightarrow> FailureClass \<Rightarrow> WorkerDeathInput \<Rightarrow> int" where
  "deaths_left r cls inp =
     (tier_limit r cls (in_TierIndex inp) - in_TierIndex inp) * (retry_budget r cls + 1) - retries r (in_TaskID inp, cls)"

definition walk_ends :: "RecoveryEngine \<Rightarrow> FailureClass \<Rightarrow> WorkerDeathInput \<Rightarrow> Decision list \<Rightarrow> bool" where
  "walk_ends r cls inp ds \<longleftrightarrow>
     ds \<noteq> [] \<and> list_all (redispatches \<circ> Action) (butlast ds)
     \<and> Action (last ds) = OnExhaustAction (doc r) (Class (last ds))
     \<and> Class (last ds) = (if cumulative r (in_TaskID inp, cls) + int (length ds) \<ge> PermanentAfterNRetries (doc r)
                          then FailurePermanentTask else cls)"

lemma walk_ends_Cons:
  assumes "walk_ends r' cls inp' ds" "redispatches (Action d)" "doc r' = doc r" "in_TaskID inp' = in_TaskID inp"
    and "cumulative r' (in_TaskID inp, cls) = cumulative r (in_TaskID inp, cls) + 1"
  shows "walk_ends r cls inp (d # ds)"
  using assms by (auto simp: walk_ends_def)

lemma deaths_left_pos:
  assumes "0 \<le> retry_budget r cls" "retries r (in_TaskID inp, cls) \<le> retry_budget r cls"
  shows "0 < deaths_left r cls inp"
proof -
  define p where "p = (tier_limit r cls (in_TierIndex inp) - in_TierIndex inp) * (retry_budget r cls + 1)"
  have "1 * (retry_budget r cls + 1) \<le> p" unfolding p_def
    using tier_limit_gt [of "in_TierIndex inp" r cls] assms(1) by (intro mult_right_mono) simp_all
  then have "retries r (in_TaskID inp, cls) < p" using assms(2) by simp
  then show ?thesis by (simp add: deaths_left_def p_def)
qed

lemma drive_ends:
  assumes "Classify (in_Err inp) = cls" "transient cls"
    and "0 \<le> retries r (in_TaskID inp, cls)" "retries r (in_TaskID inp, cls) \<le> retry_budget r cls"
    and "int n = deaths_left r cls inp"
  shows "walk_ends r cls inp (drive (r, log) inp n)"
  using assms
proof (induction n arbitrary: r log inp)
  case 0
  then show ?case using deaths_left_pos [of r cls inp] by (simp add: retry_budget_def)
next
  case (Suc n)
  let ?key = "(in_TaskID inp, cls)" and ?t = "in_TierIndex inp"
  obtain r' log' d where h: "HandleWorkerDeath True 0 r log inp = ((r', log'), d)" by (metis surj_pair)
  have ht: "handleTransientLocked r cls inp = (r', d)"
    using HandleWorkerDeath_transient [OF _ h] Suc.prems(1,2) by simp
  note step = transient_cases [OF ht Suc.prems(3)]
  let ?inp = "inp\<lparr>in_TierIndex := NewTierIndex d\<rparr>"
  have frame: "doc r' = doc r" "tierChain r' = tierChain r" "cumulative r' ?key = cumulative r ?key + 1"
    using step by auto
  have lim: "tier_limit r' cls u = tier_limit r cls u" and bud: "retry_budget r' cls = retry_budget r cls" for u
    using limit_cong [OF frame(1,2)] by auto
  have dr: "drive (r, log) inp (Suc n) = d # drive (r', log') ?inp n" using h by simp
  have cont: "walk_ends r cls inp (d # drive (r', log') ?inp n)"
    if "redispatches (Action d)" "0 \<le> retries r' ?key" "retries r' ?key \<le> retry_budget r cls" "int n = deaths_left r' cls ?inp"
  proof -
    have "walk_ends r' cls ?inp (drive (r', log') ?inp n)"
      using Suc.prems(1,2) that by (intro Suc.IH) (simp_all add: bud)
    then show ?thesis by (rule walk_ends_Cons) (use that(1) frame in simp_all)
  qed
  consider (same) "retries r ?key < retry_budget r cls"
    | (nxt) "retries r ?key = retry_budget r cls" "?t + 1 < tier_limit r cls ?t"
    | (fin) "retries r ?key = retry_budget r cls" "tier_limit r cls ?t = ?t + 1"
    using Suc.prems(4) tier_limit_gt [of ?t r cls] by linarith
  then have "walk_ends r cls inp (d # drive (r', log') ?inp n)"
  proof cases
    case same
    with step have "Action d = RecoveryActionRedispatchSameTier" "NewTierIndex d = ?t"
        "retries r' ?key = retries r ?key + 1" by auto
    with Suc.prems(3,5) same show ?thesis by (intro cont) (simp_all add: redispatches_def deaths_left_def lim bud)
  next
    case nxt
    with step have "Action d = RecoveryActionRedispatchNextTier" "NewTierIndex d = ?t + 1" "retries r' ?key = 0" by auto
    moreover have "int n = (tier_limit r cls ?t - (?t + 1)) * (retry_budget r cls + 1)"
      using Suc.prems(5) nxt(1) by (simp add: deaths_left_def algebra_simps)
    ultimately show ?thesis using Suc.prems(3) nxt
      by (intro cont) (simp_all add: redispatches_def deaths_left_def lim bud tier_limit_next)
  next
    case fin
    with Suc.prems(5) have "n = 0" by (simp add: deaths_left_def)
    with step fin show ?thesis by (simp add: walk_ends_def)
  qed
  then show ?case unfolding dr .
qed


text \<open>C28: retries of a task end. From an engine that has not seen the task, a task whose workers die
  again and again with one transient failure, each running where the last decision put it, is
  redispatched for exactly the tiers left times the retry budget and one, less one, deaths; the
  next decision is the doctrine's action for an exhausted task, of the permanent class once the
  total number of retries reaches the doctrine's bound.\<close>

theorem retries_end:
  fixes d :: DoctrineView and tc :: "tierChainAdapter option" and log :: log
  assumes "Classify (in_Err inp) = cls" and "transient cls"
  defines "r \<equiv> NewRecoveryEngine d tc"
  defines "n \<equiv> (tier_limit r cls (in_TierIndex inp) - in_TierIndex inp) * (retry_budget r cls + 1)"
  defines "ds \<equiv> drive (r, log) inp (nat n)"
  shows "n > 0 \<and> list_all (redispatches \<circ> Action) (butlast ds)
    \<and> Action (last ds) = OnExhaustAction d (Class (last ds))
    \<and> Class (last ds) = (if n \<ge> PermanentAfterNRetries d then FailurePermanentTask else cls)"
proof -
  have z: "retries r key = 0" "cumulative r key = 0" "doc r = d" for key by (simp_all add: r_def NewRecoveryEngine_def)
  have n: "n = deaths_left r cls inp" by (simp add: n_def deaths_left_def z)
  have b: "0 \<le> retry_budget r cls" by (simp add: retry_budget_def)
  then have pos: "n > 0" using deaths_left_pos [of r cls inp] n z by simp
  have "walk_ends r cls inp ds"
    unfolding ds_def using assms(1,2) b pos n by (intro drive_ends) (simp_all add: z)
  moreover have "length ds = nat n"
  proof -
    have "length (drive st i m) = m" for st i m by (induction m arbitrary: st i) (simp_all add: case_prod_beta Let_def)
    then show ?thesis by (simp add: ds_def)
  qed
  ultimately show ?thesis using pos by (simp add: walk_ends_def z)
qed

definition demo_doctrine :: DoctrineView where
  "demo_doctrine = \<lparr>TransientLLMRetries = 2, TransientInfraRetries = 1, PermanentAfterNRetries = 5,
     OnExhaustAction = (\<lambda>c. if c = FailurePermanentTask then RecoveryActionSkipTask else RecoveryActionEscalateL4),
     FallbackPolicy = TierFallbackFullChain\<rparr>"

theorem retries_end_witness:
  "let ds = drive (NewRecoveryEngine demo_doctrine (Some (AdaptTierChain [''a'', ''b''] 0)), [])
              \<lparr>in_TaskID = ''t'', in_WorkerID = ''w'', in_Err = Some (HTTPStatusError 503 ''api''), in_TierIndex = 0\<rparr> 6
   in list_all (redispatches \<circ> Action) (butlast ds) \<and> Action (last ds) = RecoveryActionSkipTask"
proof -
  let ?r = "NewRecoveryEngine demo_doctrine (Some (AdaptTierChain [''a'', ''b''] 0))"
  let ?inp = "\<lparr>in_TaskID = ''t'', in_WorkerID = ''w'', in_Err = Some (HTTPStatusError 503 ''api''), in_TierIndex = 0\<rparr>"
  have c: "Classify (in_Err ?inp) = FailureTransientLLM" "transient FailureTransientLLM"
    by (simp_all add: Let_def as_http_def http_class_def transient_def)
  have b: "tier_limit ?r FailureTransientLLM 0 = 2" "retry_budget ?r FailureTransientLLM = 2"
    by (simp_all add: tier_limit_def retry_budget_def NewRecoveryEngine_def AdaptTierChain_def demo_doctrine_def Let_def)
  have "PermanentAfterNRetries demo_doctrine = 5" "OnExhaustAction demo_doctrine FailurePermanentTask = RecoveryActionSkipTask"
    by (simp_all add: demo_doctrine_def)
  then show ?thesis using retries_end [OF c, of demo_doctrine "Some (AdaptTierChain [''a'', ''b''] 0)" "[]"]
    by (simp add: b Let_def del: drive.simps)
qed


subsection \<open>The last transition\<close>

definition transitions :: "payload list \<Rightarrow> (string \<times> string \<times> string) list" where
  "transitions ps = List.map_filter (\<lambda>p. case p of OrchestratorStateTransition frm to reason \<Rightarrow> Some (frm, to, reason) | _ \<Rightarrow> None) ps"

lemma transitions_snoc:
  "transitions (ps @ [p]) = transitions ps @ (case p of OrchestratorStateTransition frm to reason \<Rightarrow> [(frm, to, reason)] | _ \<Rightarrow> [])"
  by (simp add: transitions_def List.map_filter_def split: payload.splits)

lemma last_transition_fold:
  "LastTransition (fold (\<lambda>p s. applyToState s p) ps st) =
     (if transitions ps = [] then LastTransition st else fst (snd (last (transitions ps))))"
proof (induction ps rule: rev_induct)
  case (snoc p ps)
  then show ?case by (cases p) (simp_all add: transitions_snoc)
qed (simp add: transitions_def List.map_filter_def)

lemma Replay_last_transition:
  assumes "\<forall>i. live i" "corrupt_count log \<le> 5"
  shows "\<exists>st audit. Replay live log = (st, None, audit)
    \<and> LastTransition st = (if transitions (payloads log) = [] then '''' else fst (snd (last (transitions (payloads log)))))"
proof -
  obtain st audit where r: "replay_rows live 0 empty_replay log [] = (st, None, audit)"
      "view st = view (fold (\<lambda>p s. applyToState s p) (payloads log) empty_replay)"
    using replay_rows_within [OF assms(1), of empty_replay log 0 "[]"] assms(2) by (auto simp: empty_replay_def)
  then show ?thesis using last_transition_fold [of "payloads log" empty_replay]
    by (simp add: Replay_def view_def empty_replay_def)
qed

end
