(* ===== verification/Composition.thy ===== *)
theory Composition
  imports Supervisor Quota Scheduler Recovery
begin

text \<open>
  Where components meet: the supervisor's log as the replay of a restart reads it, and the
  scheduler's fire attempt with the quota layer's pre-flight check behind its quota interface.
\<close>

subsection \<open>The supervisor's state survives a restart\<close>

text \<open>A session log in which the state transitions are those the supervisor appended; the rows of
  workers and reviewers lie between them.\<close>

definition logs_supervisor :: "log \<Rightarrow> StateMachine \<Rightarrow> bool" where
  "logs_supervisor rows sm \<longleftrightarrow>
     transitions (payloads rows) = map (\<lambda>e. (ev_from e, ev_to e, ev_reason e)) (app sm)"

lemma replay_last:
  "replay s0 es = Some s \<Longrightarrow> es \<noteq> [] \<Longrightarrow> ParseState (ev_to (last es)) = Inr s"
proof (induction es arbitrary: s0)
  case (Cons e es)
  then show ?case by (cases es) (auto split: sum.splits if_splits)
qed simp

text \<open>A restart finds the supervisor's state. For every reachable supervisor, an uncancelled
  replay of a session log that holds its transitions among other rows, at most five of which do not
  decode, ends without error, and the last transition it reports parses to the supervisor's current
  state; it reports none exactly when the supervisor never left idle.\<close>

lemma restart_finds_supervisor_state:
  assumes sm: "reach sm_init sm_step sm" and log: "logs_supervisor rows sm"
    and live: "\<forall>i. live i" and corrupt: "corrupt_count rows \<le> 5"
  shows "\<exists>st audit. Replay live rows = (st, None, audit)
    \<and> (if app sm = [] then LastTransition st = '''' \<and> current sm = StateIdle
       else ParseState (LastTransition st) = Inr (current sm))"
proof -
  obtain st audit where r: "Replay live rows = (st, None, audit)"
      "LastTransition st = (if transitions (payloads rows) = [] then '''' else fst (snd (last (transitions (payloads rows)))))"
    using Replay_last_transition [OF live corrupt] by blast
  have inv: "replay StateIdle (app sm) = Some (current sm)"
    using supervisor.reach_inv [OF sm] by (simp add: sm_inv_def)
  have "app sm \<noteq> [] \<Longrightarrow> LastTransition st = ev_to (last (app sm))"
    using r(2) log by (simp add: logs_supervisor_def last_map)
  moreover have "app sm = [] \<Longrightarrow> LastTransition st = ''''" using r(2) log by (simp add: logs_supervisor_def)
  ultimately show ?thesis using r(1) inv replay_last [OF inv] by auto
qed

definition started :: StateMachine where
  "started = fst (Transition \<lparr>ctx_err = None, now_v = 3, append_err = None\<rparr>
     \<lparr>current = StateIdle, sessionID = ''s'', projectID = ''p'', app = []\<rparr> StateInitializing ''boot'')"

definition started_log :: log where
  "started_log =
     [\<lparr>EventID = 1, EventType = 6, Timestamp = 1,
       Payload = Some (EvWorkerDispatched \<lparr>wd_WorkerID = ''w'', wd_TaskID = ''t'', wd_Tier = ''a''\<rparr>)\<rparr>,
      \<lparr>EventID = 2, EventType = 2, Timestamp = 3,
       Payload = Some (OrchestratorStateTransition ''idle'' ''initializing'' ''boot'')\<rparr>]"

subsection \<open>The scheduler asks the quota layer\<close>

text \<open>The quota interface of a fire attempt answered by the pre-flight check; \<open>render\<close> writes out the
  reason of a decision.\<close>

definition with_quota :: "(reason list \<Rightarrow> string) \<Rightarrow> PreFlightDeps \<Rightarrow> string \<Rightarrow> FireDeps \<Rightarrow> FireDeps" where
  "with_quota render q alias deps =
     deps\<lparr>fd_Quota := map_sum id (\<lambda>dec. (Allowed dec, render (pd_Reason dec))) (PreFlight alias (fd_Doctrine deps) q)\<rparr>"

definition quota_denied :: "PreFlightDeps \<Rightarrow> string \<Rightarrow> bool" where
  "quota_denied q alias \<longleftrightarrow> project_denied q \<or> global_denied q \<or> tier_denied q
     \<or> (IsCongested (Wfq q) alias (CongestionThreshold q) \<and> \<not> overrideActive q)"

lemma with_quota_simps [simp]:
  "fd_Now (with_quota render q alias deps) = fd_Now deps" "fd_Doctrine (with_quota render q alias deps) = fd_Doctrine deps"
  "fd_Cron (with_quota render q alias deps) = fd_Cron deps" "fd_Allow (with_quota render q alias deps) = fd_Allow deps"
  by (simp_all add: with_quota_def)

text \<open>Miss policies other than catch-up only write events.\<close>

lemma skip_missed_frame:
  "fw_sched (skip_missed now n w) = fw_sched w \<and> fw_dispatched (skip_missed now n w) = fw_dispatched w
   \<and> fw_asked (skip_missed now n w) = fw_asked w \<and> fw_history (skip_missed now n w) = fw_history w"
  by (induction n arbitrary: w) (simp_all add: sched_emit_def)

lemma apply_missed_frame:
  assumes "MissedCount missed = 0 \<or> policy \<noteq> MissPolicyCatchUpBounded"
  shows "\<exists>w1 bf. apply_missed deps now missed policy w = ((w1, None), bf) \<and> fw_sched w1 = fw_sched w
    \<and> fw_dispatched w1 = fw_dispatched w \<and> fw_asked w1 = fw_asked w \<and> fw_history w1 = fw_history w"
  using assms skip_missed_frame [of now "MissedCount missed" w]
  by (auto simp: apply_missed_def sched_emit_def split: MissPolicy.splits)

lemma dispatchOne_once: "length (fw_dispatched (fst (dispatchOne deps now bf w))) = Suc (length (fw_dispatched w))"
  by (simp add: dispatchOne_def Let_def AppendHistory_def sched_emit_def split: sum.split prod.split)

text \<open>C40: with the quota layer behind it, a fire attempt of a valid schedule that has nothing to
  catch up always returns, and dispatches exactly when it may: if a project, daemon or tier cap or
  congestion denies the project, nothing is dispatched or recorded and the attempt ends with the
  quota error and its event; if not, and the rate limiter agrees, there is exactly one dispatch;
  if the rate limiter refuses, there is none.\<close>

theorem fire_obeys_quota:
  assumes valid: "Schedule_Validate (fw_sched w) = None"
    and missed: "ComputeMissed (fd_Cron deps) (fw_sched w) (fd_Now deps) = Some missed"
    and policy: "MissedCount missed = 0 \<or> EffectiveMissPolicy (Some (fw_sched w)) (fd_Doctrine deps) \<noteq> MissPolicyCatchUpBounded"
  shows "\<exists>w' err. Fire (with_quota render q (ProjectAlias (fw_sched w)) deps) w = Some (w', err)
    \<and> (if quota_denied q (ProjectAlias (fw_sched w))
       then fw_dispatched w' = fw_dispatched w \<and> fw_history w' = fw_history w \<and> (\<exists>reason. err = Some (ErrQuotaCap reason))
          \<and> se_Kind (last (fw_events w')) = EventQuotaCapReached
       else if fd_Allow deps (fw_asked w) then length (fw_dispatched w') = Suc (length (fw_dispatched w))
       else fw_dispatched w' = fw_dispatched w \<and> err = Some ErrRateLimited)"
proof -
  let ?p = "ProjectAlias (fw_sched w)"
  let ?deps = "with_quota render q ?p deps"
  have "?p \<noteq> ''''" using valid by (auto simp: Schedule_Validate_def split: if_splits)
  then obtain dec where dec: "PreFlight ?p (fd_Doctrine deps) q = Inr dec" "\<not> Allowed dec \<longleftrightarrow> quota_denied q ?p"
    using PreFlight_exact [of ?p "fd_Doctrine deps" q] unfolding quota_denied_def by blast
  have quota: "fd_Quota ?deps = Inr (Allowed dec, render (pd_Reason dec))" by (simp add: with_quota_def dec(1))
  obtain w1 bf where w1: "apply_missed ?deps (fd_Now deps) missed (EffectiveMissPolicy (Some (fw_sched w)) (fd_Doctrine deps)) w
        = ((w1, None), bf)" "fw_dispatched w1 = fw_dispatched w" "fw_asked w1 = fw_asked w" "fw_history w1 = fw_history w"
    using apply_missed_frame [OF policy] by blast
  have fire: "Fire ?deps w = Some (fireCurrentTick ?deps (fd_Now deps) bf w1)"
    using valid missed w1(1) by (simp add: Fire_def Let_def)
  let ?r = "fireCurrentTick ?deps (fd_Now deps) bf w1"
  have "if quota_denied q ?p
       then fw_dispatched (fst ?r) = fw_dispatched w \<and> fw_history (fst ?r) = fw_history w \<and> (\<exists>reason. snd ?r = Some (ErrQuotaCap reason))
          \<and> se_Kind (last (fw_events (fst ?r))) = EventQuotaCapReached
       else if fd_Allow deps (fw_asked w) then length (fw_dispatched (fst ?r)) = Suc (length (fw_dispatched w))
       else fw_dispatched (fst ?r) = fw_dispatched w \<and> snd ?r = Some ErrRateLimited"
    using dec(2) w1
    by (auto simp: fireCurrentTick_def quota RateLimit_Allow_def dispatchOne_once sched_emit_def AppendHistory_def)
  with fire show ?thesis by (metis prod.collapse)
qed


theorem fire_obeys_quota_witness:
  "\<exists>w' reason. Fire (with_quota (\<lambda>_. ''cap'') Quota.demo_deps ''p'' ((Scheduler.demo_deps (3 * minute) True)\<lparr>fd_Doctrine := ''default''\<rparr>))
       demo_fire = Some (w', Some (ErrQuotaCap reason))
     \<and> fw_dispatched w' = []"
proof -
  let ?deps = "(Scheduler.demo_deps (3 * minute) True)\<lparr>fd_Doctrine := ''default''\<rparr>"
  let ?m = "\<lparr>mf_ScheduleID = ''r1'', MissedCount = 1, LookbackUsed = 2 * minute, mf_From = 2 * minute, mf_To = 3 * minute\<rparr>"
  have w: "fw_sched demo_fire = demo_sched" "fw_dispatched demo_fire = []" "ProjectAlias demo_sched = ''p''"
    by (simp_all add: demo_fire_def demo_sched_def)
  have m: "ComputeMissed (fd_Cron ?deps) (fw_sched demo_fire) (fd_Now ?deps) = Some ?m"
    unfolding w by (simp only: Scheduler.demo_deps_def FireDeps.simps demo_missed)
  have p: "EffectiveMissPolicy (Some (fw_sched demo_fire)) (fd_Doctrine ?deps) \<noteq> MissPolicyCatchUpBounded"
    unfolding w by (simp add: EffectiveMissPolicy_def demo_sched_def)
  have "quota_denied Quota.demo_deps ''p''" using demo_denied by (simp add: quota_denied_def)
  then show ?thesis
    using fire_obeys_quota [OF _ m disjI2 [OF p], of "\<lambda>_. ''cap''" Quota.demo_deps] demo_sched_valid
    unfolding w by auto
qed

end
