(* ===== verification/AuditChain.thy ===== *)
theory AuditChain
  imports Sha256
begin

text \<open>
  The audit evidence plane: the hash chain over \<^verbatim>\<open>audit_events_raw\<close>.

  Modelled from \<^verbatim>\<open>src/internal/audit/chain\<close> (compute.go, partition.go, backfill.go,
  walker.go, seal.go), the adapter operations of
  \<^verbatim>\<open>src/internal/daemon/auditadapter/adapter.go\<close> that feed it, and the SQL of
  \<^verbatim>\<open>src/internal/store/audit_chain.go\<close>. The table is the list of its rows in rowid
  order (rows are only appended, DELETE is refused by a trigger, so the rowid of the row at
  position i is i + 1). A context is the function \<open>ctx\<close> that says whether its k-th poll finds it
  cancelled. SQLite I/O failures are not modelled; the Tessera log and the witness key are the
  parameters of \<open>SealPartition\<close> and \<open>VerifySeal\<close>.
\<close>

subsection \<open>Rows, seals and errors\<close>

record EventRow =
  er_ID :: string
  er_ProjectID :: string
  er_Type :: string
  er_PayloadJSON :: string
  er_EmittedAt :: int
  er_PrevHash :: string
  er_RecordHash :: string
  er_PartitionID :: string
  er_TesseraLeafID :: "string option"

record SealRecord =
  sr_PartitionID :: string
  sr_SealedAt :: int
  sr_FinalRecordHash :: string
  sr_TesseraSealLeafID :: string
  sr_DaemonWitnessSignature :: string

record PartitionStat =
  ps_PartitionID :: string
  ps_FirstID :: string
  ps_LastID :: string
  ps_EventCount :: int
  ps_FinalRecordHash :: string

record AuditDB =
  audit_events_raw :: "EventRow list"
  audit_partition_seals :: "SealRecord list"

datatype chain_error =
    ErrInvalidPrevHash | ErrEmptyEventType | ErrInvalidTimestamp
  | ErrCtx
  | ErrNoRowMatched string
  | ErrBatchSize int
  | ErrPartitionSealNotFound | ErrPartitionSealMissing | ErrPartitionEmpty
  | ErrPartitionVanished string
  | ErrChainTampered string
  | ErrSealExists
  | ErrTessera string

subsection \<open>Record hashes\<close>

definition validPrevHash :: "string \<Rightarrow> bool" where
  "validPrevHash s = (s = '''' \<or> (length s = 64 \<and> list_all is_lower_hex s))"

definition preimage :: "string \<Rightarrow> string \<Rightarrow> string \<Rightarrow> int \<Rightarrow> string" where
  "preimage prev ty payload ts = prev @ ''|'' @ ty @ ''|'' @ payload @ ''|'' @ dec_int ts"

definition Compute :: "string \<Rightarrow> string \<Rightarrow> string \<Rightarrow> int \<Rightarrow> chain_error + string" where
  "Compute prev ty payload ts =
     (if \<not> validPrevHash prev then Inl ErrInvalidPrevHash
      else if ty = '''' then Inl ErrEmptyEventType
      else if ts \<le> 0 then Inl ErrInvalidTimestamp
      else Inr (hex_encode (sha256 (preimage prev ty payload ts))))"

definition Anchor :: "string \<Rightarrow> string \<Rightarrow> string \<Rightarrow> string" where
  "Anchor part eventID recordHash =
     (if part = '''' \<or> eventID = '''' \<or> recordHash = '''' then ''''
      else part @ '':'' @ eventID @ '':'' @ recordHash)"

subsection \<open>Monthly partitions\<close>

text \<open>
  \<open>time.Unix(s, 0).UTC().Format("2006_01")\<close>: the proleptic Gregorian year and month of a day
  number, computed over 400-year eras that begin on March 1.
\<close>

definition civil_year_month :: "int \<Rightarrow> int \<times> int" where
  "civil_year_month days =
     (let z = days + 719468;
          era = z div 146097;
          doe = z mod 146097;
          yoe = (doe - doe div 1460 + doe div 36524 - doe div 146096) div 365;
          doy = doe - (365 * yoe + yoe div 4 - yoe div 100);
          mp = (5 * doy + 2) div 153;
          m = (if mp < 10 then mp + 3 else mp - 9)
      in (yoe + era * 400 + (if m \<le> 2 then 1 else 0), m))"

definition pad0 :: "nat \<Rightarrow> int \<Rightarrow> string" where
  "pad0 w n =
     (let ds = dec_nat (nat \<bar>n\<bar>)
      in (if n < 0 then ''-'' else '''') @ replicate (w - length ds) CHR ''0'' @ ds)"

definition PartitionID :: "int \<Rightarrow> string" where
  "PartitionID unixSeconds =
     (case civil_year_month (unixSeconds div 86400) of (y, m) \<Rightarrow> pad0 4 y @ ''_'' @ pad0 2 m)"

subsection \<open>Store operations (the SQL of audit_chain.go)\<close>

definition GetChainTip :: "AuditDB \<Rightarrow> string option" where
  "GetChainTip db =
     (case filter (\<lambda>r. er_RecordHash r \<noteq> '''') (rev (audit_events_raw db)) of
        [] \<Rightarrow> None
      | r # _ \<Rightarrow> Some (er_RecordHash r))"

definition unchained :: "EventRow \<Rightarrow> bool" where
  "unchained r \<longleftrightarrow> er_PrevHash r = '''' \<and> er_RecordHash r = '''' \<and> er_PartitionID r = ''''"

definition UpdateChainColumns ::
  "AuditDB \<Rightarrow> string \<Rightarrow> string \<Rightarrow> string \<Rightarrow> string \<Rightarrow> chain_error + AuditDB" where
  "UpdateChainColumns db eid prev rec part =
     (if \<exists>r \<in> set (audit_events_raw db). er_ID r = eid \<and> unchained r
      then Inr (db\<lparr>audit_events_raw :=
             map (\<lambda>r. if er_ID r = eid \<and> unchained r
                      then r\<lparr>er_PrevHash := prev, er_RecordHash := rec, er_PartitionID := part\<rparr>
                      else r) (audit_events_raw db)\<rparr>)
      else Inl (ErrNoRowMatched eid))"

definition UpdateTesseraLeafID :: "AuditDB \<Rightarrow> string \<Rightarrow> string \<Rightarrow> chain_error + AuditDB" where
  "UpdateTesseraLeafID db eid leaf =
     (if \<exists>r \<in> set (audit_events_raw db). er_ID r = eid \<and> er_TesseraLeafID r = None
      then Inr (db\<lparr>audit_events_raw :=
             map (\<lambda>r. if er_ID r = eid \<and> er_TesseraLeafID r = None
                      then r\<lparr>er_TesseraLeafID := Some leaf\<rparr> else r) (audit_events_raw db)\<rparr>)
      else Inl (ErrNoRowMatched eid))"

definition ListEventsForPartition :: "AuditDB \<Rightarrow> string \<Rightarrow> EventRow list" where
  "ListEventsForPartition db p = filter (\<lambda>r. er_PartitionID r = p) (audit_events_raw db)"

definition partition_stat :: "AuditDB \<Rightarrow> string \<Rightarrow> PartitionStat" where
  "partition_stat db p =
     (let es = ListEventsForPartition db p; ids = map er_ID es;
          mx = fold max ids (hd ids)
      in \<lparr>ps_PartitionID = p, ps_FirstID = fold min ids (hd ids), ps_LastID = mx,
          ps_EventCount = int (length es),
          ps_FinalRecordHash = er_RecordHash (hd (filter (\<lambda>r. er_ID r = mx) es))\<rparr>)"

definition ListPartitions :: "AuditDB \<Rightarrow> PartitionStat list" where
  "ListPartitions db =
     map (partition_stat db)
       (sort (remdups (filter (\<lambda>p. p \<noteq> '''') (map er_PartitionID (audit_events_raw db)))))"

definition InsertPartitionSeal :: "AuditDB \<Rightarrow> SealRecord \<Rightarrow> chain_error + AuditDB" where
  "InsertPartitionSeal db s =
     (if sr_PartitionID s \<in> sr_PartitionID ` set (audit_partition_seals db) then Inl ErrSealExists
      else Inr (db\<lparr>audit_partition_seals := audit_partition_seals db @ [s]\<rparr>))"

definition GetPartitionSeal :: "AuditDB \<Rightarrow> string \<Rightarrow> chain_error + SealRecord" where
  "GetPartitionSeal db p =
     (case filter (\<lambda>s. sr_PartitionID s = p) (audit_partition_seals db) of
        [] \<Rightarrow> Inl ErrPartitionSealNotFound
      | s # _ \<Rightarrow> Inr s)"

definition BackfillScan :: "AuditDB \<Rightarrow> nat \<Rightarrow> nat \<Rightarrow> (nat \<times> EventRow) list" where
  "BackfillScan db after limit =
     take limit (filter (\<lambda>(rowid, r). after < rowid \<and> er_PrevHash r = '''' \<and> er_RecordHash r = '''')
       (enumerate 1 (audit_events_raw db)))"

subsection \<open>Emission\<close>

text \<open>
  \<open>OnEmitRaw\<close> chains the row that was just inserted. \<open>tess\<close> is the answer of the Tessera dispatch:
  \<open>None\<close> when it failed or is not attached, otherwise the leaf id. Its own failure, and a failed
  write of the leaf id, are ignored by the code. The hex decoding of the fresh record hash between
  the two cannot fail (\<open>Compute_InrD\<close> below).
\<close>

definition OnEmitRaw ::
  "(nat \<Rightarrow> bool) \<Rightarrow> string option \<Rightarrow> AuditDB \<Rightarrow> string \<Rightarrow> string \<Rightarrow> string \<Rightarrow> int \<Rightarrow>
   AuditDB \<times> (chain_error + string)" where
  "OnEmitRaw ctx tess db eventID eventType payload emittedAt =
     (if ctx 0 \<or> ctx 1 then (db, Inl ErrCtx)
      else let tip = (case GetChainTip db of None \<Rightarrow> '''' | Some h \<Rightarrow> h) in
      case Compute tip eventType payload emittedAt of
        Inl e \<Rightarrow> (db, Inl e)
      | Inr h \<Rightarrow>
          if ctx 2 then (db, Inl ErrCtx)
          else (case UpdateChainColumns db eventID tip h (PartitionID emittedAt) of
            Inl e \<Rightarrow> (db, Inl e)
          | Inr db' \<Rightarrow>
              (case tess of
                 None \<Rightarrow> (db', Inr h)
               | Some leaf \<Rightarrow>
                   if leaf = '''' \<or> ctx 3 \<or> ctx 4 then (db', Inr h)
                   else (case UpdateTesseraLeafID db' eventID leaf of
                      Inl _ \<Rightarrow> (db', Inr h)
                    | Inr db'' \<Rightarrow> (db'', Inr h)))))"

text \<open>An emission: the INSERT of a fresh row with empty chain columns, then \<open>OnEmitRaw\<close> on it.\<close>

definition insert_raw :: "AuditDB \<Rightarrow> string \<Rightarrow> string \<Rightarrow> string \<Rightarrow> string \<Rightarrow> int \<Rightarrow> AuditDB" where
  "insert_raw db eid proj ty payload ts =
     db\<lparr>audit_events_raw := audit_events_raw db @
       [\<lparr>er_ID = eid, er_ProjectID = proj, er_Type = ty, er_PayloadJSON = payload, er_EmittedAt = ts,
         er_PrevHash = '''', er_RecordHash = '''', er_PartitionID = '''', er_TesseraLeafID = None\<rparr>]\<rparr>"

inductive emit_step :: "AuditDB \<Rightarrow> AuditDB \<Rightarrow> bool" where
  emit: "eid \<notin> er_ID ` set (audit_events_raw db) \<Longrightarrow>
     emit_step db (fst (OnEmitRaw ctx tess (insert_raw db eid proj ty payload ts) eid ty payload ts))"

inductive_cases emit_stepE: "emit_step db db'"

definition empty_db :: AuditDB where
  "empty_db = \<lparr>audit_events_raw = [], audit_partition_seals = []\<rparr>"

subsection \<open>Backfill\<close>

record BackfillReport =
  RowsBackfilled :: nat
  BatchesRun :: nat

text \<open>
  One batch: every row is chained onto the running hash; the result is the context poll counter,
  the database, the running hash, the row cursor and the report, with the error that stopped it.
\<close>

fun backfill_batch ::
  "(nat \<Rightarrow> bool) \<Rightarrow> (nat \<times> EventRow) list \<Rightarrow> nat \<times> AuditDB \<times> string \<times> nat \<times> BackfillReport \<Rightarrow>
   (nat \<times> AuditDB \<times> string \<times> nat \<times> BackfillReport) \<times> chain_error option" where
  "backfill_batch ctx [] st = (st, None)"
| "backfill_batch ctx ((rowid, r) # rs) (k, db, prevHash, after, rep) =
     (if ctx k then ((k, db, prevHash, after, rep), Some ErrCtx)
      else case Compute prevHash (er_Type r) (er_PayloadJSON r) (er_EmittedAt r) of
        Inl e \<Rightarrow> ((k, db, prevHash, after, rep), Some e)
      | Inr h \<Rightarrow>
          (if ctx (k + 1) then ((k, db, prevHash, after, rep), Some ErrCtx)
           else case UpdateChainColumns db (er_ID r) prevHash h (PartitionID (er_EmittedAt r)) of
             Inl e \<Rightarrow> ((k, db, prevHash, after, rep), Some e)
           | Inr db' \<Rightarrow>
               backfill_batch ctx rs
                 (k + 2, db', h, rowid, rep\<lparr>RowsBackfilled := RowsBackfilled rep + 1\<rparr>)))"

lemma length_UpdateChainColumns:
  "UpdateChainColumns db i p h q = Inr db' \<Longrightarrow>
     length (audit_events_raw db') = length (audit_events_raw db)"
  by (auto simp: UpdateChainColumns_def split: if_splits)

lemma backfill_batch_progress:
  assumes "backfill_batch ctx rs (k, db, p, after, rep) = ((k', db', p', after', rep'), None)"
    and "rs \<noteq> []"
  shows "after' = fst (last rs) \<and> length (audit_events_raw db') = length (audit_events_raw db)"
  using assms
proof (induction rs arbitrary: k db p after rep)
  case Nil
  then show ?case by simp
next
  case (Cons x rs)
  obtain rowid r where x: "x = (rowid, r)" by (cases x)
  from Cons.prems(1) obtain h db1 where
    upd: "UpdateChainColumns db (er_ID r) p h (PartitionID (er_EmittedAt r)) = Inr db1" and
    rest: "backfill_batch ctx rs (k + 2, db1, h, rowid,
             rep\<lparr>RowsBackfilled := RowsBackfilled rep + 1\<rparr>) = ((k', db', p', after', rep'), None)"
    by (auto simp: x split: if_splits sum.splits)
  show ?case
  proof (cases "rs = []")
    case True
    with rest upd show ?thesis by (auto simp: x length_UpdateChainColumns)
  next
    case False
    from Cons.IH [OF rest False] upd False show ?thesis by (simp add: length_UpdateChainColumns)
  qed
qed

lemma BackfillScan_last:
  assumes "BackfillScan db after n \<noteq> []"
  shows "after < fst (last (BackfillScan db after n))
    \<and> fst (last (BackfillScan db after n)) \<le> length (audit_events_raw db)"
proof -
  let ?P = "\<lambda>(rowid, r). after < rowid \<and> er_PrevHash r = '''' \<and> er_RecordHash r = ''''"
  have "last (BackfillScan db after n) \<in> set (BackfillScan db after n)"
    using assms by simp
  then have "last (BackfillScan db after n) \<in> set (filter ?P (enumerate 1 (audit_events_raw db)))"
    unfolding BackfillScan_def by (rule in_set_takeD)
  then show ?thesis by (auto simp: in_set_enumerate_eq)
qed

text \<open>The scan loop ends because the cursor moves past every row it has seen.\<close>

function backfill_loop ::
  "(nat \<Rightarrow> bool) \<Rightarrow> nat \<Rightarrow> nat \<times> AuditDB \<times> string \<times> nat \<times> BackfillReport \<Rightarrow>
   AuditDB \<times> BackfillReport \<times> chain_error option" where
  "backfill_loop ctx batchSize (k, db, prevHash, after, rep) =
     (if ctx k \<or> ctx (k + 1) then (db, rep, Some ErrCtx)
      else
        (let batch = BackfillScan db after batchSize in
         if batch = [] then (db, rep, None)
         else
           (case backfill_batch ctx batch
                   (k + 2, db, prevHash, after, rep\<lparr>BatchesRun := BatchesRun rep + 1\<rparr>) of
              (st, None) \<Rightarrow> backfill_loop ctx batchSize st
            | ((_, db', _, _, rep'), Some e) \<Rightarrow> (db', rep', Some e))))"
  by pat_completeness auto
termination
proof (relation "measure (\<lambda>(ctx, n, (k, db, p, after, rep)). length (audit_events_raw db) - after)",
    goal_cases)
  case 1
  show ?case by simp
next
  case (2 ctx n k db p after rep batch st err)
  obtain k' db' p' after' rep' where st: "st = (k', db', p', after', rep')" by (cases st)
  have "backfill_batch ctx batch (k + 2, db, p, after, rep\<lparr>BatchesRun := BatchesRun rep + 1\<rparr>)
      = ((k', db', p', after', rep'), None)"
    using 2 st by simp
  then have "after' = fst (last batch)
      \<and> length (audit_events_raw db') = length (audit_events_raw db)"
    by (rule backfill_batch_progress) (use 2 in simp)
  moreover have "after < fst (last batch) \<and> fst (last batch) \<le> length (audit_events_raw db)"
    using BackfillScan_last 2 by auto
  ultimately show ?case using 2 by (simp add: st) linarith
qed

declare backfill_loop.simps [simp del]

definition Backfill ::
  "(nat \<Rightarrow> bool) \<Rightarrow> AuditDB \<Rightarrow> int \<Rightarrow> AuditDB \<times> BackfillReport \<times> chain_error option" where
  "Backfill ctx db batchSize =
     (let rep = \<lparr>RowsBackfilled = 0, BatchesRun = 0\<rparr> in
      if batchSize \<le> 0 then (db, rep, Some (ErrBatchSize batchSize))
      else if ctx 0 then (db, rep, Some ErrCtx)
      else
        let prevHash = (case GetChainTip db of None \<Rightarrow> '''' | Some h \<Rightarrow> h)
        in backfill_loop ctx (nat batchSize) (1, db, prevHash, 0, rep))"

subsection \<open>The walker\<close>

record TamperRecord =
  tr_EventID :: string
  tr_PartitionID :: string
  tr_ExpectedHash :: string
  tr_StoredHash :: string

record GapRecord =
  gr_EventID :: string
  gr_PartitionID :: string
  gr_ExpectedPrevHash :: string
  gr_StoredPrevHash :: string

record WalkReport =
  wr_ProjectID :: string
  PartitionsWalked :: nat
  EventsWalked :: nat
  Tampered :: "TamperRecord list"
  GapsDetected :: "GapRecord list"

text \<open>
  The inner loop over the rows of one partition; \<open>later\<close> is \<open>i > 0\<close>. The boolean of the result
  says that a poll found the context cancelled.
\<close>

fun walk_events ::
  "(nat \<Rightarrow> bool) \<Rightarrow> string \<Rightarrow> bool \<Rightarrow> string \<Rightarrow> EventRow list \<Rightarrow> nat \<times> WalkReport \<Rightarrow>
   (nat \<times> WalkReport) \<times> bool" where
  "walk_events ctx part later prevHash [] st = (st, False)"
| "walk_events ctx part later prevHash (e # es) (k, rep) =
     (if ctx k then ((k, rep), True)
      else
        (let rep1 = rep\<lparr>EventsWalked := EventsWalked rep + 1\<rparr>;
             rep2 = (if later \<and> er_PrevHash e \<noteq> prevHash
               then rep1\<lparr>GapsDetected := GapsDetected rep1 @
                      [\<lparr>gr_EventID = er_ID e, gr_PartitionID = part,
                        gr_ExpectedPrevHash = prevHash, gr_StoredPrevHash = er_PrevHash e\<rparr>]\<rparr>
               else rep1);
             rep3 = (case Compute (er_PrevHash e) (er_Type e) (er_PayloadJSON e) (er_EmittedAt e) of
                 Inl _ \<Rightarrow> rep2\<lparr>Tampered := Tampered rep2 @
                      [\<lparr>tr_EventID = er_ID e, tr_PartitionID = part,
                        tr_ExpectedHash = ''<compute_failed>'', tr_StoredHash = er_RecordHash e\<rparr>]\<rparr>
               | Inr expected \<Rightarrow>
                   if expected \<noteq> er_RecordHash e
                   then rep2\<lparr>Tampered := Tampered rep2 @
                      [\<lparr>tr_EventID = er_ID e, tr_PartitionID = part,
                        tr_ExpectedHash = expected, tr_StoredHash = er_RecordHash e\<rparr>]\<rparr>
                   else rep2)
         in walk_events ctx part True (er_RecordHash e) es (k + 1, rep3)))"

fun walk_partitions ::
  "(nat \<Rightarrow> bool) \<Rightarrow> AuditDB \<Rightarrow> string \<Rightarrow> PartitionStat list \<Rightarrow> nat \<times> WalkReport \<Rightarrow>
   WalkReport \<times> chain_error option" where
  "walk_partitions ctx db proj [] (k, rep) = (rep, None)"
| "walk_partitions ctx db proj (ps # pss) (k, rep) =
     (if ctx k \<or> ctx (k + 1) then (rep, Some ErrCtx)
      else
        (let filtered = filter (\<lambda>e. er_ProjectID e = proj)
                          (ListEventsForPartition db (ps_PartitionID ps)) in
         if filtered = [] then walk_partitions ctx db proj pss (k + 2, rep)
         else
           (case walk_events ctx (ps_PartitionID ps) False '''' filtered
                   (k + 2, rep\<lparr>PartitionsWalked := PartitionsWalked rep + 1\<rparr>) of
              (st, False) \<Rightarrow> walk_partitions ctx db proj pss st
            | ((_, rep'), True) \<Rightarrow> (rep', Some ErrCtx))))"

definition empty_report :: "string \<Rightarrow> WalkReport" where
  "empty_report proj = \<lparr>wr_ProjectID = proj, PartitionsWalked = 0, EventsWalked = 0,
     Tampered = [], GapsDetected = []\<rparr>"

definition Walk :: "(nat \<Rightarrow> bool) \<Rightarrow> AuditDB \<Rightarrow> string \<Rightarrow> WalkReport \<times> chain_error option" where
  "Walk ctx db proj =
     (if ctx 0 then (empty_report '''', Some ErrCtx)
      else if ctx 1 then (empty_report proj, Some ErrCtx)
      else walk_partitions ctx db proj (ListPartitions db) (2, empty_report proj))"

subsection \<open>Partition seals\<close>

text \<open>The Tessera side, one record of functions; their errors carry a message.\<close>

record SealAppender =
  AppendSeal :: "string \<Rightarrow> string \<Rightarrow> string \<Rightarrow> string + string"
  WitnessCoSignSeal :: "string \<Rightarrow> string \<Rightarrow> string + string"
  VerifySealSignature :: "string \<Rightarrow> string \<Rightarrow> string + bool"

definition buildSealPayload :: "string \<Rightarrow> string \<Rightarrow> int \<Rightarrow> string \<Rightarrow> string" where
  "buildSealPayload part finalHash cnt lastID =
     sha256 (part @ ''|'' @ finalHash @ ''|'' @ dec_int cnt @ ''|'' @ lastID)"

definition find_partition :: "AuditDB \<Rightarrow> string \<Rightarrow> PartitionStat option" where
  "find_partition db part = find (\<lambda>ps. ps_PartitionID ps = part) (ListPartitions db)"

definition SealPartition ::
  "AuditDB \<Rightarrow> SealAppender \<Rightarrow> string \<Rightarrow> string \<Rightarrow> int \<Rightarrow> AuditDB \<times> (chain_error + SealRecord)" where
  "SealPartition db tess proj part now =
     (case GetPartitionSeal db part of
        Inr existing \<Rightarrow> (db, Inr existing)
      | Inl _ \<Rightarrow>
          (case find_partition db part of
             None \<Rightarrow> (db, Inl ErrPartitionEmpty)
           | Some ps \<Rightarrow>
               if ps_EventCount ps = 0 then (db, Inl ErrPartitionEmpty)
               else
                 (let payload = buildSealPayload part (ps_FinalRecordHash ps) (ps_EventCount ps)
                                 (ps_LastID ps) in
                 (case AppendSeal tess proj part payload of
                    Inl m \<Rightarrow> (db, Inl (ErrTessera m))
                  | Inr leafID \<Rightarrow>
                      (case WitnessCoSignSeal tess leafID payload of
                         Inl m \<Rightarrow> (db, Inl (ErrTessera m))
                       | Inr sig \<Rightarrow>
                           (let seal = \<lparr>sr_PartitionID = part, sr_SealedAt = now,
                                 sr_FinalRecordHash = ps_FinalRecordHash ps,
                                 sr_TesseraSealLeafID = leafID,
                                 sr_DaemonWitnessSignature = sig\<rparr> in
                           (case InsertPartitionSeal db seal of
                              Inr db' \<Rightarrow> (db', Inr seal)
                            | Inl e \<Rightarrow>
                                (case GetPartitionSeal db part of
                                   Inr existing \<Rightarrow> (db, Inr existing)
                                 | Inl _ \<Rightarrow> (db, Inl e)))))))))"

definition VerifySeal :: "AuditDB \<Rightarrow> SealAppender \<Rightarrow> string \<Rightarrow> chain_error option" where
  "VerifySeal db tess part =
     (case GetPartitionSeal db part of
        Inl _ \<Rightarrow> Some ErrPartitionSealMissing
      | Inr seal \<Rightarrow>
          (case find_partition db part of
             None \<Rightarrow> Some (ErrPartitionVanished part)
           | Some ps \<Rightarrow>
               if sr_FinalRecordHash seal \<noteq> ps_FinalRecordHash ps then Some (ErrChainTampered part)
               else
                 (case VerifySealSignature tess
                         (buildSealPayload part (sr_FinalRecordHash seal) (ps_EventCount ps)
                            (ps_LastID ps)) (sr_DaemonWitnessSignature seal) of
                    Inl m \<Rightarrow> Some (ErrTessera m)
                  | Inr ok \<Rightarrow> if ok then None else Some (ErrChainTampered part))))"

subsection \<open>Specification: valid chains\<close>

fun valid_chain :: "string \<Rightarrow> EventRow list \<Rightarrow> bool" where
  "valid_chain prev [] = True"
| "valid_chain prev (e # es) =
     (er_PrevHash e = prev
      \<and> Compute prev (er_Type e) (er_PayloadJSON e) (er_EmittedAt e) = Inr (er_RecordHash e)
      \<and> valid_chain (er_RecordHash e) es)"

definition chained_rows :: "AuditDB \<Rightarrow> EventRow list" where
  "chained_rows db = filter (\<lambda>r. er_RecordHash r \<noteq> '''') (audit_events_raw db)"

definition chain_inv :: "AuditDB \<Rightarrow> bool" where
  "chain_inv db \<longleftrightarrow>
     valid_chain '''' (chained_rows db)
     \<and> distinct (map er_ID (audit_events_raw db))
     \<and> (\<forall>r \<in> set (audit_events_raw db). er_RecordHash r = '''' \<longrightarrow> unchained r)
     \<and> (\<forall>r \<in> set (chained_rows db). er_PartitionID r = PartitionID (er_EmittedAt r))"

text \<open>The hashed columns of a row, and the bytes that were hashed for it.\<close>

definition hashed_content :: "EventRow \<Rightarrow> string \<times> string \<times> string \<times> int" where
  "hashed_content e = (er_PrevHash e, er_Type e, er_PayloadJSON e, er_EmittedAt e)"

definition row_preimage :: "EventRow \<Rightarrow> string" where
  "row_preimage e = preimage (er_PrevHash e) (er_Type e) (er_PayloadJSON e) (er_EmittedAt e)"

definition end_hash :: "string \<Rightarrow> EventRow list \<Rightarrow> string" where
  "end_hash prev es = (if es = [] then prev else er_RecordHash (last es))"

lemma end_hash_simps [simp]:
  "end_hash p [] = p" "end_hash p (e # es) = end_hash (er_RecordHash e) es"
  by (simp_all add: end_hash_def)

lemma valid_chain_append:
  "valid_chain p (xs @ ys) \<longleftrightarrow> valid_chain p xs \<and> valid_chain (end_hash p xs) ys"
  by (induction xs arbitrary: p) auto

lemma Compute_InrD:
  assumes "Compute p ty pl ts = Inr h"
  shows "validPrevHash p \<and> ty \<noteq> '''' \<and> 0 < ts
    \<and> h = hex_encode (sha256 (preimage p ty pl ts)) \<and> length h = 64 \<and> validPrevHash h \<and> h \<noteq> ''''"
proof -
  from assms have h: "h = hex_encode (sha256 (preimage p ty pl ts))"
    and side: "validPrevHash p \<and> ty \<noteq> '''' \<and> 0 < ts"
    by (auto simp: Compute_def split: if_splits)
  from h have "length h = 64" by simp
  moreover have "list_all is_lower_hex h"
    unfolding h list_all_iff using hex_encode_lower by blast
  moreover have "h \<noteq> []" using \<open>length h = 64\<close> by auto
  ultimately show ?thesis using h side by (simp add: validPrevHash_def)
qed

lemma valid_chain_row:
  assumes "valid_chain p es" and "e \<in> set es"
  shows "Compute (er_PrevHash e) (er_Type e) (er_PayloadJSON e) (er_EmittedAt e)
    = Inr (er_RecordHash e) \<and> er_RecordHash e \<noteq> ''''"
  using assms by (induction p es rule: valid_chain.induct) (auto dest: Compute_InrD)

lemma end_hash_valid: "valid_chain p es \<Longrightarrow> validPrevHash p \<Longrightarrow> validPrevHash (end_hash p es)"
  by (induction p es rule: valid_chain.induct) (auto dest: Compute_InrD)

subsection \<open>Emission keeps the log chained\<close>

lemma GetChainTip_end_hash:
  "(case GetChainTip db of None \<Rightarrow> '''' | Some h \<Rightarrow> h) = end_hash '''' (chained_rows db)"
proof -
  have "filter P (rev xs) = rev (filter P xs)" for P and xs :: "EventRow list"
    by (simp add: rev_filter)
  then show ?thesis
    by (auto simp: GetChainTip_def chained_rows_def end_hash_def hd_rev [symmetric]
        split: list.splits)
qed

definition chained_row ::
  "string \<Rightarrow> string \<Rightarrow> string \<Rightarrow> string \<Rightarrow> int \<Rightarrow> string \<Rightarrow> string \<Rightarrow> string option \<Rightarrow> EventRow" where
  "chained_row eid proj ty payload ts prev h leaf =
     \<lparr>er_ID = eid, er_ProjectID = proj, er_Type = ty, er_PayloadJSON = payload, er_EmittedAt = ts,
      er_PrevHash = prev, er_RecordHash = h, er_PartitionID = PartitionID ts,
      er_TesseraLeafID = leaf\<rparr>"

lemma emit_result:
  assumes fresh: "eid \<notin> er_ID ` set (audit_events_raw db)"
    and "db1 = insert_raw db eid proj ty payload ts"
    and out: "OnEmitRaw ctx tess db1 eid ty payload ts = (db', res)"
  shows "(db' = db1 \<and> (\<exists>e. res = Inl e)) \<or>
    (\<exists>h leaf. res = Inr h \<and> Compute (end_hash '''' (chained_rows db)) ty payload ts = Inr h
       \<and> db' = db\<lparr>audit_events_raw := audit_events_raw db @
            [chained_row eid proj ty payload ts (end_hash '''' (chained_rows db)) h leaf]\<rparr>)"
proof -
  let ?tip = "end_hash '''' (chained_rows db)"
  let ?db = "\<lambda>h leaf. db\<lparr>audit_events_raw := audit_events_raw db @
     [chained_row eid proj ty payload ts ?tip h leaf]\<rparr>"
  note db1 = assms(2)
  have tip: "(case GetChainTip db1 of None \<Rightarrow> '''' | Some h \<Rightarrow> h) = ?tip"
    unfolding GetChainTip_end_hash by (simp add: db1 insert_raw_def chained_rows_def)
  have keep: "map (\<lambda>r. if er_ID r = eid \<and> Q r then f r else r) (audit_events_raw db)
      = audit_events_raw db" for Q f
    using fresh by (intro map_idI) auto
  have upd: "UpdateChainColumns db1 eid ?tip h (PartitionID ts) = Inr (?db h None)" for h
    unfolding UpdateChainColumns_def db1
    by (simp add: insert_raw_def keep unchained_def chained_row_def)
  have leaf: "UpdateTesseraLeafID (?db h None) eid l = Inr (?db h (Some l))" for h l
    unfolding UpdateTesseraLeafID_def by (simp add: keep chained_row_def)
  show ?thesis
  proof (cases "Compute ?tip ty payload ts")
    case (Inl e)
    with out have "db' = db1 \<and> (res = Inl e \<or> res = Inl ErrCtx)"
      unfolding OnEmitRaw_def Let_def tip by (auto split: if_splits)
    then show ?thesis by blast
  next
    case (Inr h)
    with out show ?thesis unfolding OnEmitRaw_def Let_def tip
      by (auto simp: upd leaf split: if_splits option.splits)
  qed
qed

lemma chain_inv_insert:
  assumes "chain_inv db" and "eid \<notin> er_ID ` set (audit_events_raw db)"
  shows "chain_inv (insert_raw db eid proj ty payload ts)"
  using assms by (auto simp: chain_inv_def insert_raw_def chained_rows_def unchained_def)

lemma chain_inv_emit:
  assumes "chain_inv db" and "emit_step db db'"
  shows "chain_inv db'"
proof -
  from assms(2) obtain eid ctx tess proj ty payload ts where
    db': "db' = fst (OnEmitRaw ctx tess (insert_raw db eid proj ty payload ts) eid ty payload ts)"
    and fresh: "eid \<notin> er_ID ` set (audit_events_raw db)"
    by (rule emit_stepE)
  obtain res where "OnEmitRaw ctx tess (insert_raw db eid proj ty payload ts) eid ty payload ts
      = (db', res)"
    using db' by (metis prod.collapse)
  from emit_result [OF fresh refl this] show ?thesis
  proof (elim disjE conjE exE)
    assume "db' = insert_raw db eid proj ty payload ts"
    with chain_inv_insert [OF assms(1) fresh] show ?thesis by simp
  next
    fix h leaf
    assume "Compute (end_hash '''' (chained_rows db)) ty payload ts = Inr h"
      and "db' = db\<lparr>audit_events_raw := audit_events_raw db @
            [chained_row eid proj ty payload ts (end_hash '''' (chained_rows db)) h leaf]\<rparr>"
    with assms(1) fresh show ?thesis
      by (auto simp: chain_inv_def chained_rows_def chained_row_def valid_chain_append
          dest: Compute_InrD)
  qed
qed

lemma chain_inv_empty: "chain_inv empty_db"
  by (simp add: chain_inv_def chained_rows_def empty_db_def)

interpretation audit_log: safety "\<lambda>db. db = empty_db" emit_step chain_inv
  by unfold_locales (auto intro: chain_inv_empty chain_inv_emit)

subsection \<open>The tip binds the history\<close>

lemma append_delim_eq:
  assumes "xs @ c # ys = xs' @ c # ys'" and "c \<notin> set xs" and "c \<notin> set xs'"
  shows "xs = xs' \<and> ys = ys'"
  using assms
proof (induction xs arbitrary: xs')
  case Nil
  then show ?case by (cases xs') auto
next
  case (Cons x xs)
  then show ?case by (cases xs') auto
qed

lemma append_delim_eq_right:
  assumes "xs @ c # ys = xs' @ c # ys'" and "c \<notin> set ys" and "c \<notin> set ys'"
  shows "xs = xs' \<and> ys = ys'"
proof -
  have "rev ys @ c # rev xs = rev ys' @ c # rev xs'"
    using arg_cong [OF assms(1), of rev] by simp
  from append_delim_eq [OF this] assms(2,3) show ?thesis by simp
qed

lemma no_bar_hash: "validPrevHash p \<Longrightarrow> CHR ''|'' \<notin> set p"
  by (auto simp: validPrevHash_def list_all_iff is_lower_hex_def)

lemma no_bar_dec: "CHR ''|'' \<notin> set (dec_nat n)"
  using dec_nat_digits [of "CHR ''|''" n] by auto

lemma preimage_inj:
  assumes "preimage p ty pl ts = preimage p' ty' pl' ts'"
    and "validPrevHash p" and "validPrevHash p'" and "0 < ts" and "0 < ts'"
    and "CHR ''|'' \<notin> set ty" and "CHR ''|'' \<notin> set ty'"
  shows "p = p' \<and> ty = ty' \<and> pl = pl' \<and> ts = ts'"
proof -
  have ts: "dec_int ts = dec_nat (nat ts)" "dec_int ts' = dec_nat (nat ts')"
    using assms(4,5) by (simp_all add: dec_int_def)
  have "(p @ ''|'' @ ty @ ''|'' @ pl) @ CHR ''|'' # dec_nat (nat ts)
      = (p' @ ''|'' @ ty' @ ''|'' @ pl') @ CHR ''|'' # dec_nat (nat ts')"
    using assms(1) by (simp add: preimage_def ts)
  from append_delim_eq_right [OF this no_bar_dec no_bar_dec]
  have l: "p @ CHR ''|'' # (ty @ ''|'' @ pl) = p' @ CHR ''|'' # (ty' @ ''|'' @ pl')"
    and "nat ts = nat ts'"
    by (auto dest: dec_nat_inj)
  from append_delim_eq [OF l] assms no_bar_hash have p: "p = p'"
    and r: "ty @ CHR ''|'' # pl = ty' @ CHR ''|'' # pl'" by auto
  from append_delim_eq [OF r] assms p \<open>nat ts = nat ts'\<close> show ?thesis by auto
qed

lemma Compute_eqD:
  assumes "Compute p ty pl ts = Inr h" and "Compute p' ty' pl' ts' = Inr h"
  shows "sha256 (preimage p ty pl ts) = sha256 (preimage p' ty' pl' ts')"
  using Compute_InrD [OF assms(1)] Compute_InrD [OF assms(2)] hex_encode_inj by metis

text \<open>Equal tips of two chains with the same start: walk both back from the end.\<close>

lemma valid_chain_tip_eq:
  assumes "valid_chain '''' xs" and "valid_chain '''' ys"
    and "end_hash '''' xs = end_hash '''' ys"
    and "\<forall>e \<in> set xs \<union> set ys. CHR ''|'' \<notin> set (er_Type e)"
    and no_coll: "\<not> (\<exists>x \<in> set xs. \<exists>y \<in> set ys. row_preimage x \<noteq> row_preimage y
         \<and> sha256 (row_preimage x) = sha256 (row_preimage y))"
  shows "map hashed_content xs = map hashed_content ys"
  using assms
proof (induction xs arbitrary: ys rule: rev_induct)
  case Nil
  show ?case
  proof (cases ys rule: rev_cases)
    case (snoc ys' y)
    with Nil have "er_RecordHash y = ''''" by (simp add: end_hash_def)
    moreover have "er_RecordHash y \<noteq> ''''"
      using valid_chain_row [OF Nil.prems(2), of y] snoc by simp
    ultimately show ?thesis by simp
  qed simp
next
  case (snoc x xs)
  have x: "Compute (er_PrevHash x) (er_Type x) (er_PayloadJSON x) (er_EmittedAt x)
      = Inr (er_RecordHash x)" "er_RecordHash x \<noteq> ''''"
    using valid_chain_row [OF snoc.prems(1), of x] by auto
  have "ys \<noteq> []" using snoc.prems(3) x(2) by (auto simp: end_hash_def)
  then obtain ys' y where ys: "ys = ys' @ [y]" by (meson rev_exhaust)
  have y: "Compute (er_PrevHash y) (er_Type y) (er_PayloadJSON y) (er_EmittedAt y)
      = Inr (er_RecordHash x)"
    using valid_chain_row [OF snoc.prems(2), of y] snoc.prems(3) ys by (simp add: end_hash_def)
  have "row_preimage x = row_preimage y"
    using snoc.prems(5) Compute_eqD [OF x(1) y] by (auto simp: row_preimage_def ys)
  then have c: "hashed_content x = hashed_content y"
    using preimage_inj [of "er_PrevHash x" "er_Type x" "er_PayloadJSON x" "er_EmittedAt x"]
      Compute_InrD [OF x(1)] Compute_InrD [OF y] snoc.prems(4)
    by (simp add: row_preimage_def hashed_content_def ys)
  have "map hashed_content xs = map hashed_content ys'"
    using snoc.prems c by (intro snoc.IH) (auto simp: ys valid_chain_append hashed_content_def)
  with c show ?case by (simp add: ys)
qed

subsection \<open>What the walker reports\<close>

definition hash_ok :: "EventRow \<Rightarrow> bool" where
  "hash_ok e \<longleftrightarrow> Compute (er_PrevHash e) (er_Type e) (er_PayloadJSON e) (er_EmittedAt e)
     = Inr (er_RecordHash e)"

fun linked :: "bool \<Rightarrow> string \<Rightarrow> EventRow list \<Rightarrow> bool" where
  "linked later prev [] = True"
| "linked later prev (e # es) =
     ((later \<longrightarrow> er_PrevHash e = prev) \<and> linked True (er_RecordHash e) es)"

abbreviation live :: "nat \<Rightarrow> bool" where "live \<equiv> \<lambda>_. False"

text \<open>What a run of the walker adds to a report: findings only where a row fails its test.\<close>

definition adds :: "WalkReport \<Rightarrow> WalkReport \<Rightarrow> bool \<Rightarrow> bool \<Rightarrow> bool" where
  "adds rep rep' clean_t clean_g \<longleftrightarrow>
     (\<exists>ts gs. Tampered rep' = Tampered rep @ ts \<and> GapsDetected rep' = GapsDetected rep @ gs
       \<and> (ts = [] \<longleftrightarrow> clean_t) \<and> (gs = [] \<longleftrightarrow> clean_g))"

lemma adds_refl [simp]: "adds rep rep True True"
  by (simp add: adds_def)

lemma adds_trans:
  assumes "adds rep rep1 t1 g1" and "adds rep1 rep2 t2 g2"
  shows "adds rep rep2 (t1 \<and> t2) (g1 \<and> g2)"
proof -
  from assms(1) obtain ts gs where 1: "Tampered rep1 = Tampered rep @ ts"
    "GapsDetected rep1 = GapsDetected rep @ gs" "(ts = []) = t1" "(gs = []) = g1"
    unfolding adds_def by blast
  from assms(2) obtain ts' gs' where 2: "Tampered rep2 = Tampered rep1 @ ts'"
    "GapsDetected rep2 = GapsDetected rep1 @ gs'" "(ts' = []) = t2" "(gs' = []) = g2"
    unfolding adds_def by blast
  show ?thesis unfolding adds_def
    by (rule exI [of _ "ts @ ts'"], rule exI [of _ "gs @ gs'"]) (use 1 2 in auto)
qed

lemma walk_events_spec:
  obtains k' rep' where "walk_events live part later prev es (k, rep) = ((k', rep'), False)"
    and "adds rep rep' (\<forall>e \<in> set es. hash_ok e) (linked later prev es)"
proof -
  have "\<exists>k' rep'. walk_events live part later prev es (k, rep) = ((k', rep'), False)
      \<and> adds rep rep' (\<forall>e \<in> set es. hash_ok e) (linked later prev es)"
  proof (induction es arbitrary: later prev k rep)
    case Nil
    show ?case by simp
  next
    case (Cons e es)
    obtain rep1 where step: "walk_events live part later prev (e # es) (k, rep)
        = walk_events live part True (er_RecordHash e) es (k + 1, rep1)"
      and one: "adds rep rep1 (hash_ok e) (later \<longrightarrow> er_PrevHash e = prev)"
      by (rule that [OF walk_events.simps(2) [of live, unfolded if_False Let_def]])
        (auto simp: adds_def hash_ok_def split: sum.splits)
    obtain k' rep' where
      "walk_events live part True (er_RecordHash e) es (k + 1, rep1) = ((k', rep'), False)"
      and rest: "adds rep1 rep' (\<forall>e \<in> set es. hash_ok e) (linked True (er_RecordHash e) es)"
      using Cons.IH by blast
    with step have "walk_events live part later prev (e # es) (k, rep) = ((k', rep'), False)"
      by simp
    moreover from adds_trans [OF one rest]
    have "adds rep rep' (\<forall>e \<in> set (e # es). hash_ok e) (linked later prev (e # es))"
      by simp
    ultimately show ?case by blast
  qed
  with that show thesis by blast
qed

definition project_rows :: "AuditDB \<Rightarrow> string \<Rightarrow> string \<Rightarrow> EventRow list" where
  "project_rows db proj p =
     filter (\<lambda>e. er_ProjectID e = proj) (ListEventsForPartition db p)"

lemma walk_partitions_spec:
  obtains rep' where "walk_partitions live db proj pss (k, rep) = (rep', None)"
    and "adds rep rep'
      (\<forall>ps \<in> set pss. \<forall>e \<in> set (project_rows db proj (ps_PartitionID ps)). hash_ok e)
      (\<forall>ps \<in> set pss. linked False '''' (project_rows db proj (ps_PartitionID ps)))"
proof -
  have "\<exists>rep'. walk_partitions live db proj pss (k, rep) = (rep', None) \<and> adds rep rep'
      (\<forall>ps \<in> set pss. \<forall>e \<in> set (project_rows db proj (ps_PartitionID ps)). hash_ok e)
      (\<forall>ps \<in> set pss. linked False '''' (project_rows db proj (ps_PartitionID ps)))"
  proof (induction pss arbitrary: k rep)
    case Nil
    show ?case by simp
  next
    case (Cons ps pss)
    let ?es = "project_rows db proj (ps_PartitionID ps)"
    show ?case
    proof (cases "?es = []")
      case True
      with Cons.IH [of "k + 2" rep] show ?thesis by (simp add: project_rows_def [symmetric])
    next
      case False
      let ?rep = "rep\<lparr>PartitionsWalked := PartitionsWalked rep + 1\<rparr>"
      obtain k1 rep1 where w: "walk_events live (ps_PartitionID ps) False '''' ?es (k + 2, ?rep)
          = ((k1, rep1), False)"
        and a: "adds ?rep rep1 (\<forall>e \<in> set ?es. hash_ok e) (linked False '''' ?es)"
        by (rule walk_events_spec)
      obtain rep' where "walk_partitions live db proj pss (k1, rep1) = (rep', None)"
        and b: "adds rep1 rep'
          (\<forall>ps \<in> set pss. \<forall>e \<in> set (project_rows db proj (ps_PartitionID ps)). hash_ok e)
          (\<forall>ps \<in> set pss. linked False '''' (project_rows db proj (ps_PartitionID ps)))"
        using Cons.IH by blast
      moreover have "adds rep rep1 (\<forall>e \<in> set ?es. hash_ok e) (linked False '''' ?es)"
        using a by (simp add: adds_def)
      ultimately show ?thesis using False w adds_trans [OF _ b]
        by (fastforce simp: project_rows_def Let_def)
    qed
  qed
  with that show thesis by blast
qed

lemma ListPartitions_ids:
  "ps_PartitionID ` set (ListPartitions db) =
     {p. p \<noteq> '''' \<and> p \<in> er_PartitionID ` set (audit_events_raw db)}"
  by (auto simp: ListPartitions_def partition_stat_def Let_def image_iff)

lemma Walk_spec:
  "snd (Walk live db proj) = None
   \<and> (Tampered (fst (Walk live db proj)) = [] \<longleftrightarrow>
        (\<forall>e \<in> set (audit_events_raw db).
           er_ProjectID e = proj \<longrightarrow> er_PartitionID e \<noteq> '''' \<longrightarrow> hash_ok e))
   \<and> (GapsDetected (fst (Walk live db proj)) = [] \<longleftrightarrow>
        (\<forall>p. p \<noteq> '''' \<longrightarrow> linked False '''' (project_rows db proj p)))"
proof -
  obtain rep' where w: "walk_partitions live db proj (ListPartitions db) (2, empty_report proj)
      = (rep', None)"
    and a: "adds (empty_report proj) rep'
      (\<forall>ps \<in> set (ListPartitions db).
         \<forall>e \<in> set (project_rows db proj (ps_PartitionID ps)). hash_ok e)
      (\<forall>ps \<in> set (ListPartitions db).
         linked False '''' (project_rows db proj (ps_PartitionID ps)))"
    by (rule walk_partitions_spec)
  have "p \<notin> er_PartitionID ` set (audit_events_raw db) \<Longrightarrow> project_rows db proj p = []" for p
    by (auto simp: project_rows_def ListEventsForPartition_def filter_empty_conv)
  then have g: "(\<forall>ps \<in> set (ListPartitions db).
         linked False '''' (project_rows db proj (ps_PartitionID ps)))
      \<longleftrightarrow> (\<forall>p. p \<noteq> '''' \<longrightarrow> linked False '''' (project_rows db proj p))"
    using ListPartitions_ids [of db] by (auto simp: image_iff set_eq_iff)
      (metis (no_types, lifting) linked.simps(1))+
  have t: "(\<forall>ps \<in> set (ListPartitions db).
         \<forall>e \<in> set (project_rows db proj (ps_PartitionID ps)). hash_ok e)
      \<longleftrightarrow> (\<forall>e \<in> set (audit_events_raw db).
           er_ProjectID e = proj \<longrightarrow> er_PartitionID e \<noteq> '''' \<longrightarrow> hash_ok e)"
    using ListPartitions_ids [of db]
    by (auto simp: project_rows_def ListEventsForPartition_def image_iff set_eq_iff)
  from w a show ?thesis unfolding g t by (auto simp: Walk_def adds_def empty_report_def)
qed

subsection \<open>Honest logs\<close>

lemma sorted_segment:
  assumes "sorted (map f xs)"
  shows "\<exists>us vs. xs = us @ filter (\<lambda>x. f x = p) xs @ vs"
  using assms
proof (induction xs)
  case Nil
  show ?case by simp
next
  case (Cons x xs)
  then obtain us vs where xs: "xs = us @ filter (\<lambda>x. f x = p) xs @ vs" by auto
  show ?case
  proof (cases "f x = p \<and> us \<noteq> []")
    case True
    then obtain u us' where us: "us = u # us'" by (cases us) auto
    have u: "u \<in> set xs" using xs us by (metis append_Cons list.set_intros(1))
    show ?thesis
    proof (cases "filter (\<lambda>x. f x = p) xs = []")
      case True
      with \<open>f x = p \<and> us \<noteq> []\<close> show ?thesis
        by (intro exI [of _ "[]"] exI [of _ xs]) simp
    next
      case False
      then have v: "last (filter (\<lambda>x. f x = p) xs) \<in> set (filter (\<lambda>x. f x = p) xs)"
        (is "?v \<in> _") by (rule last_in_set)
      have "sorted (map f (us @ filter (\<lambda>x. f x = p) xs @ vs))"
        using Cons.prems xs by (metis list.simps(9) sorted_simps(2))
      then have "f u \<le> f ?v" using v us by (auto simp: sorted_append)
      moreover have "f x \<le> f u" using Cons.prems u by simp
      ultimately have "f u = p" using v True by auto
      then have "u \<in> set (filter (\<lambda>x. f x = p) xs)" using u by simp
      have "filter (\<lambda>x. f x = p) xs
          = filter (\<lambda>x. f x = p) (us @ filter (\<lambda>x. f x = p) xs @ vs)"
        using xs by simp
      also have "length \<dots> > length (filter (\<lambda>x. f x = p) xs)"
        using \<open>f u = p\<close> us by simp
      finally show ?thesis by simp
    qed
  next
    case False
    show ?thesis
    proof (cases "f x = p")
      case True
      with False xs show ?thesis by (intro exI [of _ "[]"] exI [of _ vs]) auto
    next
      case np: False
      with xs show ?thesis by (intro exI [of _ "x # us"] exI [of _ vs]) simp
    qed
  qed
qed

lemma valid_chain_linked:
  "valid_chain q es \<Longrightarrow> linked False prev es \<and> linked True q es"
proof (induction q es arbitrary: prev rule: valid_chain.induct)
  case (2 q e es)
  then show ?case by simp
qed simp

lemma honest_partition:
  assumes "chain_inv db" and "sorted (map er_PartitionID (chained_rows db))"
    and "p \<noteq> ''''"
  shows "\<exists>q. valid_chain q (ListEventsForPartition db p)"
proof -
  have "ListEventsForPartition db p = filter (\<lambda>r. er_PartitionID r = p) (chained_rows db)"
    using assms(1,3)
    by (auto simp: ListEventsForPartition_def chained_rows_def chain_inv_def unchained_def
        intro!: filter_cong)
  moreover obtain us vs where
    "chained_rows db = us @ filter (\<lambda>r. er_PartitionID r = p) (chained_rows db) @ vs"
    using sorted_segment [OF assms(2)] by blast
  then have "valid_chain (end_hash '''' us) (filter (\<lambda>r. er_PartitionID r = p) (chained_rows db))"
    using assms(1) by (metis chain_inv_def valid_chain_append)
  ultimately show ?thesis by auto
qed

lemma emit_ok:
  assumes "eid \<notin> er_ID ` set (audit_events_raw db)"
    and "Compute (end_hash '''' (chained_rows db)) ty payload ts = Inr h"
  shows "fst (OnEmitRaw live None (insert_raw db eid proj ty payload ts) eid ty payload ts)
    = db\<lparr>audit_events_raw := audit_events_raw db @
        [chained_row eid proj ty payload ts (end_hash '''' (chained_rows db)) h None]\<rparr>"
proof -
  let ?db1 = "insert_raw db eid proj ty payload ts"
  have tip: "(case GetChainTip ?db1 of None \<Rightarrow> '''' | Some h \<Rightarrow> h) = end_hash '''' (chained_rows db)"
    unfolding GetChainTip_end_hash by (simp add: insert_raw_def chained_rows_def)
  have keep: "map (\<lambda>r. if er_ID r = eid \<and> Q r then f r else r) (audit_events_raw db)
      = audit_events_raw db" for Q f
    using assms(1) by (intro map_idI) auto
  have "UpdateChainColumns ?db1 eid (end_hash '''' (chained_rows db)) h (PartitionID ts)
    = Inr (db\<lparr>audit_events_raw := audit_events_raw db @
        [chained_row eid proj ty payload ts (end_hash '''' (chained_rows db)) h None]\<rparr>)"
    unfolding UpdateChainColumns_def
    by (simp add: insert_raw_def keep unchained_def chained_row_def)
  with assms(2) show ?thesis by (simp add: OnEmitRaw_def tip)
qed

subsection \<open>Backfill completes a chained prefix\<close>

text \<open>The reference: chain the rows one after the other onto a running hash.\<close>

fun chain_on :: "string \<Rightarrow> EventRow list \<Rightarrow> EventRow list" where
  "chain_on p [] = []"
| "chain_on p (r # rs) =
     (let h = hex_encode (sha256 (preimage p (er_Type r) (er_PayloadJSON r) (er_EmittedAt r)))
      in r\<lparr>er_PrevHash := p, er_RecordHash := h, er_PartitionID := PartitionID (er_EmittedAt r)\<rparr>
         # chain_on h rs)"

definition chainable :: "EventRow \<Rightarrow> bool" where
  "chainable r \<longleftrightarrow> unchained r \<and> er_Type r \<noteq> '''' \<and> 0 < er_EmittedAt r"

lemma Compute_Inr:
  "validPrevHash p \<Longrightarrow> ty \<noteq> '''' \<Longrightarrow> 0 < ts \<Longrightarrow>
     Compute p ty pl ts = Inr (hex_encode (sha256 (preimage p ty pl ts)))"
  by (simp add: Compute_def)

lemma validPrevHash_hash: "validPrevHash (hex_encode (sha256 m))"
  using hex_encode_lower by (auto simp: validPrevHash_def list_all_iff)

lemma UpdateChainColumns_at:
  assumes "audit_events_raw db = xs @ r # zs" and "distinct (map er_ID (xs @ r # zs))"
    and "unchained r"
  shows "UpdateChainColumns db (er_ID r) p h q = Inr (db\<lparr>audit_events_raw :=
     xs @ r\<lparr>er_PrevHash := p, er_RecordHash := h, er_PartitionID := q\<rparr> # zs\<rparr>)"
proof -
  have "er_ID s \<noteq> er_ID r" if "s \<in> set xs \<union> set zs" for s using that assms(2) by (auto simp: rev_image_eqI)
  then have "map (\<lambda>s. if er_ID s = er_ID r \<and> Q s then f s else s) xs = xs"
    "map (\<lambda>s. if er_ID s = er_ID r \<and> Q s then f s else s) zs = zs" for Q f
    by (auto intro!: map_idI)
  then show ?thesis using assms(1,3) by (simp add: UpdateChainColumns_def)
qed

lemma chain_on_ids: "map er_ID (chain_on p us) = map er_ID us"
  by (induction us arbitrary: p) (auto simp: Let_def)

lemma backfill_batch_chain_on:
  assumes "audit_events_raw db = xs @ ys @ zs" and "distinct (map er_ID (xs @ ys @ zs))"
    and "\<forall>r \<in> set ys. chainable r" and "validPrevHash p"
  shows "\<exists>k'. backfill_batch live (enumerate (Suc (length xs)) ys) (k, db, p, after, rep)
    = ((k', db\<lparr>audit_events_raw := xs @ chain_on p ys @ zs\<rparr>, end_hash p (chain_on p ys),
        (if ys = [] then after else length xs + length ys),
        rep\<lparr>RowsBackfilled := RowsBackfilled rep + length ys\<rparr>), None)"
  using assms
proof (induction ys arbitrary: xs db p k after rep)
  case Nil
  then show ?case by simp
next
  case (Cons r ys)
  let ?h = "hex_encode (sha256 (preimage p (er_Type r) (er_PayloadJSON r) (er_EmittedAt r)))"
  let ?r = "r\<lparr>er_PrevHash := p, er_RecordHash := ?h, er_PartitionID := PartitionID (er_EmittedAt r)\<rparr>"
  let ?db = "db\<lparr>audit_events_raw := (xs @ [?r]) @ ys @ zs\<rparr>"
  have c: "Compute p (er_Type r) (er_PayloadJSON r) (er_EmittedAt r) = Inr ?h"
    using Cons.prems(3,4) by (auto simp: chainable_def intro: Compute_Inr)
  have u: "UpdateChainColumns db (er_ID r) p ?h (PartitionID (er_EmittedAt r)) = Inr ?db"
    using UpdateChainColumns_at [of db xs r "ys @ zs"] Cons.prems by (simp add: chainable_def)
  have "\<exists>k'. backfill_batch live (enumerate (Suc (length (xs @ [?r]))) ys)
      (k + 2, ?db, ?h, Suc (length xs), rep\<lparr>RowsBackfilled := RowsBackfilled rep + 1\<rparr>)
    = ((k', ?db\<lparr>audit_events_raw := (xs @ [?r]) @ chain_on ?h ys @ zs\<rparr>,
        end_hash ?h (chain_on ?h ys),
        (if ys = [] then Suc (length xs) else length (xs @ [?r]) + length ys),
        rep\<lparr>RowsBackfilled := RowsBackfilled rep + 1\<rparr>
          \<lparr>RowsBackfilled := RowsBackfilled (rep\<lparr>RowsBackfilled := RowsBackfilled rep + 1\<rparr>)
             + length ys\<rparr>), None)"
    by (rule Cons.IH) (use Cons.prems validPrevHash_hash in \<open>auto simp: Let_def\<close>)
  then show ?case by (auto simp: c u Let_def)
qed

lemma enumerate_append: "enumerate n (xs @ ys) = enumerate n xs @ enumerate (n + length xs) ys"
  by (induction xs arbitrary: n) auto

lemma BackfillScan_at:
  assumes "audit_events_raw db = xs @ us" and "\<forall>r \<in> set xs. er_RecordHash r \<noteq> ''''"
    and "\<forall>r \<in> set us. chainable r" and "after \<le> length xs"
  shows "BackfillScan db after n = enumerate (Suc (length xs)) (take n us)"
proof -
  let ?P = "\<lambda>(rowid, r). after < rowid \<and> er_PrevHash r = '''' \<and> er_RecordHash r = ''''"
  have "filter ?P (enumerate 1 xs) = []"
    using assms(2) by (auto simp: filter_empty_conv in_set_enumerate_eq)
  moreover have "filter ?P (enumerate (Suc (length xs)) us) = enumerate (Suc (length xs)) us"
    using assms(3,4)
    by (intro filter_True) (auto simp: in_set_enumerate_eq chainable_def unchained_def)
  moreover have "take n (enumerate m us) = enumerate m (take n us)" for m
    by (auto simp: enumerate_eq_zip take_zip min_def)
  ultimately show ?thesis by (simp add: BackfillScan_def assms(1) enumerate_append)
qed

lemma chain_on_append: "chain_on p (xs @ ys) = chain_on p xs @ chain_on (end_hash p (chain_on p xs)) ys"
  by (induction xs arbitrary: p) (auto simp: Let_def)

lemma chain_on_hashed: "r \<in> set (chain_on p us) \<Longrightarrow> er_RecordHash r \<noteq> ''''"
proof (induction us arbitrary: p)
  case (Cons u us)
  have "hex_encode (sha256 m) \<noteq> ''''" for m using length_sha256 by (metis length_0_conv length_hex_encode mult_is_0 zero_neq_numeral)
  with Cons show ?case by (auto simp: Let_def)
qed simp

lemma end_hash_chain_on: "validPrevHash p \<Longrightarrow> validPrevHash (end_hash p (chain_on p us))"
  by (induction us arbitrary: p) (auto simp: Let_def validPrevHash_hash)

lemma backfill_loop_chain_on:
  assumes "audit_events_raw db = xs @ us" and "distinct (map er_ID (xs @ us))"
    and "\<forall>r \<in> set xs. er_RecordHash r \<noteq> ''''" and "\<forall>r \<in> set us. chainable r"
    and "validPrevHash p" and "after \<le> length xs" and "0 < n"
  shows "\<exists>rep'. backfill_loop live n (k, db, p, after, rep)
      = (db\<lparr>audit_events_raw := xs @ chain_on p us\<rparr>, rep', None)
    \<and> RowsBackfilled rep' = RowsBackfilled rep + length us"
  using assms(1-6)
proof (induction "length us" arbitrary: us xs db p k after rep rule: less_induct)
  case less
  note scan = BackfillScan_at [OF less.prems(1,3,4,6), of n]
  show ?case
  proof (cases "us = []")
    case True
    with less.prems(1) show ?thesis by (simp add: backfill_loop.simps scan)
  next
    case False
    let ?ys = "take n us" and ?zs = "drop n us"
    let ?rep = "rep\<lparr>BatchesRun := BatchesRun rep + 1\<rparr>"
    let ?db = "db\<lparr>audit_events_raw := xs @ chain_on p ?ys @ ?zs\<rparr>"
    have ys: "?ys \<noteq> []" using False assms(7) by simp
    obtain k' where b: "backfill_batch live (enumerate (Suc (length xs)) ?ys)
          (k + 2, db, p, after, ?rep)
        = ((k', ?db, end_hash p (chain_on p ?ys), length xs + length ?ys,
            ?rep\<lparr>RowsBackfilled := RowsBackfilled ?rep + length ?ys\<rparr>), None)"
      using backfill_batch_chain_on [of db xs ?ys ?zs p "k + 2" after ?rep] less.prems ys
      by (fastforce dest: in_set_takeD)
    have step: "backfill_loop live n (k, db, p, after, rep)
        = backfill_loop live n (k', ?db, end_hash p (chain_on p ?ys), length xs + length ?ys,
            ?rep\<lparr>RowsBackfilled := RowsBackfilled ?rep + length ?ys\<rparr>)"
    proof -
      have ne: "BackfillScan db after n \<noteq> []" unfolding scan using ys by (cases ?ys) auto
      have b': "backfill_batch live (BackfillScan db after n) (k + 2, db, p, after, ?rep)
          = ((k', ?db, end_hash p (chain_on p ?ys), length xs + length ?ys,
              ?rep\<lparr>RowsBackfilled := RowsBackfilled ?rep + length ?ys\<rparr>), None)"
        unfolding scan by (rule b)
      show ?thesis unfolding backfill_loop.simps [of live n k] Let_def b' using ne by simp
    qed
    have ids: "map er_ID (chain_on p ?ys) @ map er_ID ?zs = map er_ID us"
      by (simp add: chain_on_ids flip: map_append)
    have "\<exists>rep'. backfill_loop live n (k', ?db, end_hash p (chain_on p ?ys),
          length xs + length ?ys, ?rep\<lparr>RowsBackfilled := RowsBackfilled ?rep + length ?ys\<rparr>)
        = (?db\<lparr>audit_events_raw := (xs @ chain_on p ?ys) @
             chain_on (end_hash p (chain_on p ?ys)) ?zs\<rparr>, rep', None)
      \<and> RowsBackfilled rep' = RowsBackfilled (?rep\<lparr>RowsBackfilled := RowsBackfilled ?rep + length ?ys\<rparr>)
          + length ?zs"
    proof (rule less.hyps)
      show "length ?zs < length us" using False assms(7) by (simp add: diff_less)
      show "distinct (map er_ID ((xs @ chain_on p ?ys) @ ?zs))"
        using less.prems(2) ids by (metis append_assoc map_append)
      show "length xs + length ?ys \<le> length (xs @ chain_on p ?ys)"
        using arg_cong [OF chain_on_ids [of p ?ys], of length] by simp
    qed (use less.prems in \<open>auto dest: in_set_dropD chain_on_hashed intro: end_hash_chain_on\<close>)
    then obtain rep' where "backfill_loop live n (k, db, p, after, rep)
        = (db\<lparr>audit_events_raw := xs @ chain_on p (?ys @ ?zs)\<rparr>, rep', None)"
      and "RowsBackfilled rep' = RowsBackfilled rep + (length ?ys + length ?zs)"
      unfolding step chain_on_append by auto
    moreover have "length ?ys + length ?zs = length us" by (simp flip: length_append)
    ultimately show ?thesis by simp
  qed
qed

subsection \<open>Seals\<close>

lemma find_partition_raw:
  "find_partition (db\<lparr>audit_partition_seals := s\<rparr>) part = find_partition db part"
proof -
  have "ListPartitions (db\<lparr>audit_partition_seals := s\<rparr>) = ListPartitions db"
    by (simp add: ListPartitions_def partition_stat_def [abs_def] ListEventsForPartition_def)
  then show ?thesis by (simp add: find_partition_def)
qed

lemma SealPartition_fresh:
  assumes "SealPartition db tess proj part now = (db', Inr seal)"
    and "GetPartitionSeal db part = Inl e"
  obtains ps leaf where "find_partition db part = Some ps"
    and "db' = db\<lparr>audit_partition_seals := audit_partition_seals db @ [seal]\<rparr>"
    and "sr_PartitionID seal = part" and "sr_FinalRecordHash seal = ps_FinalRecordHash ps"
    and "WitnessCoSignSeal tess leaf (buildSealPayload part (ps_FinalRecordHash ps)
           (ps_EventCount ps) (ps_LastID ps)) = Inr (sr_DaemonWitnessSignature seal)"
  using assms
  by (auto simp: SealPartition_def Let_def InsertPartitionSeal_def
      split: option.splits if_splits sum.splits)

lemma GetPartitionSeal_append:
  assumes "GetPartitionSeal db part = Inl e" and "sr_PartitionID seal = part"
  shows "GetPartitionSeal (db\<lparr>audit_partition_seals := audit_partition_seals db @ [seal]\<rparr>) part
    = Inr seal"
  using assms by (auto simp: GetPartitionSeal_def split: list.splits)

subsection \<open>Properties\<close>

definition emit_live :: "AuditDB \<Rightarrow> string \<Rightarrow> string \<Rightarrow> string \<Rightarrow> string \<Rightarrow> int \<Rightarrow> AuditDB" where
  "emit_live db eid proj ty payload ts =
     fst (OnEmitRaw live None (insert_raw db eid proj ty payload ts) eid ty payload ts)"

abbreviation audit_reach :: "AuditDB \<Rightarrow> bool" where
  "audit_reach \<equiv> reach (\<lambda>db. db = empty_db) emit_step"

lemma audit_reach_empty: "audit_reach empty_db"
  by (rule reach_init) simp

lemma audit_reach_emit:
  "audit_reach db \<Longrightarrow> eid \<notin> er_ID ` set (audit_events_raw db) \<Longrightarrow>
     audit_reach (emit_live db eid proj ty payload ts)"
  unfolding emit_live_def by (rule reach_step) (auto intro: emit_step.intros)

definition one_event_log :: AuditDB where
  "one_event_log = emit_live empty_db ''e1'' ''A'' ''t'' ''{}'' 1"

lemma empty_db_simps [simp]: "audit_events_raw empty_db = []" "chained_rows empty_db = []"
  by (simp_all add: empty_db_def chained_rows_def)

lemma one_event_log_eq:
  "one_event_log = empty_db\<lparr>audit_events_raw :=
     [chained_row ''e1'' ''A'' ''t'' ''{}'' 1 ''''
        (hex_encode (sha256 (preimage '''' ''t'' ''{}'' 1))) None]\<rparr>"
  unfolding one_event_log_def emit_live_def
  by (subst emit_ok) (auto intro: Compute_Inr simp: validPrevHash_def)

lemma one_event_log_reach: "audit_reach one_event_log"
  unfolding one_event_log_def by (rule audit_reach_emit [OF audit_reach_empty]) simp





text \<open>C33: an uncancelled walk of a project always completes; it reports no tampering exactly
  when every partitioned row of the project carries the hash recomputed from its own columns, and
  no gap exactly when, partition by partition, every row of the project after the first names the
  record hash of the row before it.\<close>

theorem Walk_reports_exactly:
  "snd (Walk live db proj) = None
   \<and> (Tampered (fst (Walk live db proj)) = [] \<longleftrightarrow>
        (\<forall>e \<in> set (audit_events_raw db).
           er_ProjectID e = proj \<longrightarrow> er_PartitionID e \<noteq> '''' \<longrightarrow> hash_ok e))
   \<and> (GapsDetected (fst (Walk live db proj)) = [] \<longleftrightarrow>
        (\<forall>p. p \<noteq> '''' \<longrightarrow> linked False '''' (project_rows db proj p)))"
  by (rule Walk_spec)

theorem Walk_reports_exactly_witness:
  "Tampered (fst (Walk live (one_event_log\<lparr>audit_events_raw :=
     map (er_EmittedAt_update (\<lambda>_. 0)) (audit_events_raw one_event_log)\<rparr>) ''A'')) \<noteq> []"
proof -
  have "PartitionID 1 \<noteq> ''''" by (simp add: PartitionID_def split: prod.splits)
  then show ?thesis
    using Walk_reports_exactly [of "one_event_log\<lparr>audit_events_raw :=
       map (er_EmittedAt_update (\<lambda>_. 0)) (audit_events_raw one_event_log)\<rparr>" "''A''"]
    by (simp add: one_event_log_eq chained_row_def hash_ok_def Compute_def)
qed

text \<open>No false alarms on an honest log: on every log produced by emissions the walk of any
  project reports no tampered row, and when all rows belong to that project and the timestamps
  never fall back to an earlier month it reports no gap either.\<close>

lemma Walk_honest_log_clean:
  assumes "audit_reach db"
    and "\<forall>r \<in> set (audit_events_raw db). er_ProjectID r = proj"
    and "sorted (map er_PartitionID (chained_rows db))"
  shows "Tampered (fst (Walk live db any)) = [] \<and> GapsDetected (fst (Walk live db proj)) = []"
proof -
  have inv: "chain_inv db" by (rule audit_log.reach_inv [OF assms(1)])
  have "hash_ok e" if "e \<in> set (audit_events_raw db)" and "er_PartitionID e \<noteq> ''''" for e
  proof -
    have "e \<in> set (chained_rows db)"
      using that inv by (auto simp: chained_rows_def chain_inv_def unchained_def)
    then show ?thesis
      using inv valid_chain_row by (auto simp: hash_ok_def chain_inv_def)
  qed
  then have "Tampered (fst (Walk live db any)) = []" for any
    using Walk_spec by simp
  moreover have "linked False '''' (project_rows db proj p)" if p: "p \<noteq> ''''" for p
  proof -
    have "project_rows db proj p = ListEventsForPartition db p"
      unfolding project_rows_def using assms(2)
      by (intro filter_True) (auto simp: ListEventsForPartition_def)
    with honest_partition [OF inv assms(3) p] valid_chain_linked show ?thesis by auto
  qed
  ultimately show ?thesis using Walk_spec by simp
qed

definition two_project_log :: AuditDB where
  "two_project_log =
     emit_live (emit_live one_event_log ''e2'' ''B'' ''t'' ''{}'' 1) ''e3'' ''A'' ''t'' ''{}'' 1"

lemma PartitionID_nonempty: "PartitionID ts \<noteq> ''''"
  by (simp add: PartitionID_def split: prod.splits)

lemma hex_sha_nonempty: "hex_encode (sha256 m) \<noteq> ''''"
  by (metis length_hex_encode length_sha256 list.size(3) mult_is_0 zero_neq_numeral)

lemma emit_live_rows:
  fixes pl :: string
  assumes "audit_reach db" and "eid \<notin> er_ID ` set (audit_events_raw db)"
    and "ty \<noteq> ''''" and "0 < ts"
  defines "tip \<equiv> end_hash '''' (chained_rows db)"
  defines "h \<equiv> hex_encode (sha256 (preimage tip ty pl ts))"
  shows "audit_events_raw (emit_live db eid proj ty pl ts)
      = audit_events_raw db @ [chained_row eid proj ty pl ts tip h None]
    \<and> end_hash '''' (chained_rows (emit_live db eid proj ty pl ts)) = h"
proof -
  have "validPrevHash tip"
    using audit_log.reach_inv [OF assms(1)] end_hash_valid
    by (auto simp: chain_inv_def tip_def validPrevHash_def)
  then have "Compute tip ty pl ts = Inr h"
    unfolding h_def using assms(3,4) by (rule Compute_Inr)
  then have "emit_live db eid proj ty pl ts = db\<lparr>audit_events_raw := audit_events_raw db @
      [chained_row eid proj ty pl ts tip h None]\<rparr>"
    unfolding emit_live_def tip_def by (intro emit_ok assms(2))
  then show ?thesis
    by (simp add: chained_rows_def chained_row_def end_hash_def h_def hex_sha_nonempty)
qed

lemma two_project_log_rows:
  defines "h1 \<equiv> hex_encode (sha256 (preimage '''' ''t'' ''{}'' 1))"
  defines "h2 \<equiv> hex_encode (sha256 (preimage h1 ''t'' ''{}'' 1))"
  defines "h3 \<equiv> hex_encode (sha256 (preimage h2 ''t'' ''{}'' 1))"
  shows "audit_reach two_project_log \<and> audit_events_raw two_project_log =
     [chained_row ''e1'' ''A'' ''t'' ''{}'' 1 '''' h1 None,
      chained_row ''e2'' ''B'' ''t'' ''{}'' 1 h1 h2 None,
      chained_row ''e3'' ''A'' ''t'' ''{}'' 1 h2 h3 None]"
proof -
  let ?db1 = one_event_log and ?db2 = "emit_live one_event_log ''e2'' ''B'' ''t'' ''{}'' 1"
  have 1: "audit_events_raw ?db1 = [chained_row ''e1'' ''A'' ''t'' ''{}'' 1 '''' h1 None]
      \<and> end_hash '''' (chained_rows ?db1) = h1"
    using emit_live_rows [OF audit_reach_empty, of "''e1''" "''t''" 1 "''A''" "''{}''"]
    by (simp add: one_event_log_def h1_def)
  have f1: "''e2'' \<notin> er_ID ` set (audit_events_raw ?db1)" using 1 by (simp add: chained_row_def)
  have 2: "audit_events_raw ?db2 = audit_events_raw ?db1 @
        [chained_row ''e2'' ''B'' ''t'' ''{}'' 1 h1 h2 None]
      \<and> end_hash '''' (chained_rows ?db2) = h2"
    using emit_live_rows [OF one_event_log_reach f1, of "''t''" 1 "''B''" "''{}''"] 1
    by (simp add: h2_def)
  have f2: "''e3'' \<notin> er_ID ` set (audit_events_raw ?db2)" using 1 2 by (simp add: chained_row_def)
  have r2: "audit_reach ?db2" by (rule audit_reach_emit [OF one_event_log_reach f1])
  show ?thesis
    using emit_live_rows [OF r2 f2, of "''t''" 1 "''A''" "''{}''"] audit_reach_emit [OF r2 f2] 1 2
    by (simp add: h3_def two_project_log_def)
qed

text \<open>The walker raises false gaps on honest logs of several projects. The chain is
  global but the walk filters by project: for the log of three emissions (project A, project B,
  project A) the walk of A is free of gaps only if two different explicit messages collide under
  SHA-256.\<close>

lemma Walk_interleaved_projects_gap:
  "audit_reach two_project_log
   \<and> (GapsDetected (fst (Walk live two_project_log ''A'')) = [] \<longleftrightarrow>
       sha256 (preimage '''' ''t'' ''{}'' 1)
         = sha256 (preimage (hex_encode (sha256 (preimage '''' ''t'' ''{}'' 1))) ''t'' ''{}'' 1))"
proof -
  let ?h1 = "hex_encode (sha256 (preimage '''' ''t'' ''{}'' 1))"
  let ?h2 = "hex_encode (sha256 (preimage ?h1 ''t'' ''{}'' 1))"
  have rows: "project_rows two_project_log ''A'' p = (if p = PartitionID 1 then
      [chained_row ''e1'' ''A'' ''t'' ''{}'' 1 '''' ?h1 None,
       chained_row ''e3'' ''A'' ''t'' ''{}'' 1 ?h2
         (hex_encode (sha256 (preimage ?h2 ''t'' ''{}'' 1))) None] else [])" for p
    by (simp add: project_rows_def ListEventsForPartition_def two_project_log_rows chained_row_def)
  have one: "(\<forall>p. p \<noteq> '''' \<longrightarrow> linked False '''' (if p = q then xs else [])) \<longleftrightarrow>
      linked False '''' xs" if "q \<noteq> ''''" for q xs using that by auto
  have two: "linked False '''' [chained_row i x t y n '''' (hex_encode a) None,
      chained_row j x t y n (hex_encode b) c None] \<longleftrightarrow> a = b" for i j x t y n a b c
    using hex_encode_inj by (auto simp: chained_row_def)
  have "GapsDetected (fst (Walk live two_project_log ''A'')) = [] \<longleftrightarrow>
      (\<forall>p. p \<noteq> '''' \<longrightarrow> linked False '''' (project_rows two_project_log ''A'' p))"
    using Walk_spec by blast
  moreover have "audit_reach two_project_log" using two_project_log_rows by blast
  ultimately show ?thesis unfolding rows one [OF PartitionID_nonempty] two by blast
qed

lemma valid_chain_chain_on:
  assumes "validPrevHash p" and "\<forall>r \<in> set us. chainable r"
  shows "valid_chain p (chain_on p us)"
  using assms
  by (induction us arbitrary: p) (auto simp: Let_def chainable_def Compute_Inr validPrevHash_hash)

text \<open>On a log whose unchained rows all follow the chained ones and have a type and a
  positive timestamp, \<open>Backfill\<close> with any positive batch size and a live context ends without error,
  counts exactly the unchained rows, leaves the chained rows alone, changes only the chain columns
  of the others, and leaves the whole table as one valid chain.\<close>

lemma Backfill_completes_chain:
  assumes "audit_events_raw db = cs @ us"
    and "distinct (map er_ID (audit_events_raw db))"
    and "valid_chain '''' cs" and "\<forall>r \<in> set us. chainable r" and "0 < batchSize"
  shows "\<exists>db' rep. Backfill live db batchSize = (db', rep, None)
    \<and> RowsBackfilled rep = length us
    \<and> audit_events_raw db' = cs @ chain_on (end_hash '''' cs) us
    \<and> valid_chain '''' (audit_events_raw db')
    \<and> chained_rows db' = audit_events_raw db'"
proof -
  have hashed: "\<forall>r \<in> set cs. er_RecordHash r \<noteq> ''''" using valid_chain_row [OF assms(3)] by blast
  have "chained_rows db = cs"
    using hashed assms(1,4) by (auto simp: chained_rows_def chainable_def unchained_def)
  then have tip: "(case GetChainTip db of None \<Rightarrow> '''' | Some h \<Rightarrow> h) = end_hash '''' cs"
    by (simp add: GetChainTip_end_hash)
  have v: "validPrevHash (end_hash '''' cs)"
    by (rule end_hash_valid [OF assms(3)]) (simp add: validPrevHash_def)
  let ?rep = "\<lparr>RowsBackfilled = 0, BatchesRun = 0\<rparr>"
  let ?db = "db\<lparr>audit_events_raw := cs @ chain_on (end_hash '''' cs) us\<rparr>"
  obtain rep' where "backfill_loop live (nat batchSize) (1, db, end_hash '''' cs, 0, ?rep)
      = (?db, rep', None) \<and> RowsBackfilled rep' = RowsBackfilled ?rep + length us"
    using backfill_loop_chain_on [OF assms(1) _ hashed assms(4) v, of 0 "nat batchSize" 1 ?rep]
      assms(1,2,5) by auto
  then have "Backfill live db batchSize = (?db, rep', None) \<and> RowsBackfilled rep' = length us"
    using assms(5) by (simp add: Backfill_def tip)
  moreover have "valid_chain '''' (audit_events_raw ?db)"
    using assms(3,4) v by (simp add: valid_chain_append valid_chain_chain_on)
  moreover have "chained_rows ?db = audit_events_raw ?db"
    using hashed chain_on_hashed by (auto simp: chained_rows_def filter_id_conv)
  ultimately show ?thesis by (intro exI [of _ ?db] exI [of _ rep']) simp
qed

definition raw_pair_log :: AuditDB where
  "raw_pair_log = insert_raw (insert_raw empty_db ''e1'' ''A'' ''t'' ''{}'' 1) ''e2'' ''A'' ''u'' ''{}'' 2"

text \<open>The log after a first emission whose context was cancelled and a second that succeeded.\<close>

definition holed_log :: AuditDB where
  "holed_log = emit_live
     (fst (OnEmitRaw (\<lambda>_. True) None (insert_raw empty_db ''e1'' ''A'' ''t'' ''{}'' 1) ''e1'' ''t'' ''{}'' 1))
     ''e2'' ''A'' ''t'' ''{}'' 1"

definition raw_e1 :: EventRow where
  "raw_e1 = \<lparr>er_ID = ''e1'', er_ProjectID = ''A'', er_Type = ''t'', er_PayloadJSON = ''{}'',
     er_EmittedAt = 1, er_PrevHash = '''', er_RecordHash = '''', er_PartitionID = '''',
     er_TesseraLeafID = None\<rparr>"

lemma holed_log_eq:
  defines "h \<equiv> hex_encode (sha256 (preimage '''' ''t'' ''{}'' 1))"
  shows "audit_reach holed_log \<and> audit_events_raw holed_log
      = [raw_e1, chained_row ''e2'' ''A'' ''t'' ''{}'' 1 '''' h None]
    \<and> end_hash '''' (chained_rows holed_log) = h"
proof -
  let ?db = "fst (OnEmitRaw (\<lambda>_. True) None (insert_raw empty_db ''e1'' ''A'' ''t'' ''{}'' 1)
     ''e1'' ''t'' ''{}'' 1)"
  have r: "audit_reach ?db" by (rule reach_step [OF audit_reach_empty emit_step.emit]) simp
  have rows: "audit_events_raw ?db = [raw_e1]" "chained_rows ?db = []"
    by (simp_all add: OnEmitRaw_def insert_raw_def raw_e1_def chained_rows_def)
  then have f: "''e2'' \<notin> er_ID ` set (audit_events_raw ?db)" by (simp add: raw_e1_def)
  from emit_live_rows [OF r f, of "''t''" 1 "''A''" "''{}''"] audit_reach_emit [OF r f]
  show ?thesis by (simp add: holed_log_def rows h_def)
qed

text \<open>After an emission that failed to chain its row, the boot-time \<open>Backfill\<close> forks the
  chain. It appends the old row to the tip although the row precedes the tip in the table, so it
  ends without error but the table is no longer a chain, and the walk of the only project reports
  a gap although nothing was tampered with.\<close>

lemma Backfill_after_failed_emit_forks:
  "audit_reach holed_log
   \<and> (\<exists>db' rep. Backfill live holed_log 10 = (db', rep, None)
       \<and> \<not> valid_chain '''' (chained_rows db')
       \<and> GapsDetected (fst (Walk live db' ''A'')) \<noteq> []
       \<and> Tampered (fst (Walk live db' ''A'')) = [])"
proof -
  define h where "h = hex_encode (sha256 (preimage '''' ''t'' ''{}'' 1))"
  define g where "g = hex_encode (sha256 (preimage h ''t'' ''{}'' 1))"
  let ?r1 = "raw_e1\<lparr>er_PrevHash := h, er_RecordHash := g, er_PartitionID := PartitionID 1\<rparr>"
  let ?r2 = "chained_row ''e2'' ''A'' ''t'' ''{}'' 1 '''' h None"
  let ?db = "holed_log\<lparr>audit_events_raw := [?r1, ?r2]\<rparr>"
  note holed = holed_log_eq [folded h_def]
  have ne: "h \<noteq> ''''" "g \<noteq> ''''" and v: "validPrevHash h"
    by (simp_all add: h_def g_def hex_sha_nonempty validPrevHash_hash)
  have scan: "BackfillScan holed_log 0 10 = [(1, raw_e1)]"
    using ne holed by (simp add: BackfillScan_def raw_e1_def chained_row_def)
  have cg: "Compute h ''t'' ''{}'' 1 = Inr g" using v by (simp add: g_def Compute_Inr)
  have ch: "Compute '''' ''t'' ''{}'' 1 = Inr h" by (simp add: h_def Compute_Inr validPrevHash_def)
  have upd: "UpdateChainColumns holed_log ''e1'' h g (PartitionID 1) = Inr ?db"
    using UpdateChainColumns_at [of holed_log "[]" raw_e1 "[?r2]" h g "PartitionID 1"] holed
    by (simp add: raw_e1_def chained_row_def unchained_def)
  have scan': "BackfillScan ?db (Suc 0) 10 = []"
    by (simp add: BackfillScan_def ne raw_e1_def chained_row_def)
  have e1: "er_ID raw_e1 = ''e1''" "er_Type raw_e1 = ''t''" "er_PayloadJSON raw_e1 = ''{}''"
    "er_EmittedAt raw_e1 = 1" by (simp_all add: raw_e1_def)
  have bf: "Backfill live holed_log 10
      = (?db, \<lparr>RowsBackfilled = 1, BatchesRun = 1\<rparr>, None)"
    unfolding Backfill_def GetChainTip_end_hash using holed cg upd
    by (simp add: Let_def backfill_loop.simps scan scan' e1)
  have c: "chained_rows ?db = [?r1, ?r2]"
    using ne by (simp add: chained_rows_def chained_row_def)
  have "project_rows ?db ''A'' (PartitionID 1) = [?r1, ?r2]"
    by (simp add: project_rows_def ListEventsForPartition_def raw_e1_def chained_row_def)
  then have "\<not> linked False '''' (project_rows ?db ''A'' (PartitionID 1))"
    using ne by (simp add: chained_row_def)
  then have "GapsDetected (fst (Walk live ?db ''A'')) \<noteq> []"
    using Walk_spec [of ?db "''A''"] PartitionID_nonempty by blast
  moreover have "Tampered (fst (Walk live ?db ''A'')) = []"
    using Walk_spec [of ?db "''A''"] cg ch by (simp add: hash_ok_def raw_e1_def chained_row_def)
  moreover have "\<not> valid_chain '''' (chained_rows ?db)" unfolding c using ne by simp
  ultimately show ?thesis using bf holed by blast
qed

text \<open>Sealing is idempotent and verifiable. If the witness key verifies what it
  co-signed, then after a partition was sealed for the first time \<open>VerifySeal\<close> accepts it, sealing
  again returns the same seal without writing, and on any table with the same seals whose final
  record hash for that partition differs \<open>VerifySeal\<close> reports tampering.\<close>

lemma SealPartition_then_VerifySeal:
  assumes law: "\<And>leaf pl sig. WitnessCoSignSeal tess leaf pl = Inr sig \<Longrightarrow>
      VerifySealSignature tess pl sig = Inr True"
    and "SealPartition db tess proj part now = (db', Inr seal)"
    and "GetPartitionSeal db part = Inl e"
  shows "VerifySeal db' tess part = None
    \<and> SealPartition db' tess proj' part now' = (db', Inr seal)
    \<and> (find_partition db2 part = Some ps2 \<longrightarrow> ps_FinalRecordHash ps2 \<noteq> sr_FinalRecordHash seal \<longrightarrow>
         audit_partition_seals db2 = audit_partition_seals db' \<longrightarrow>
         VerifySeal db2 tess part = Some (ErrChainTampered part))"
proof -
  from SealPartition_fresh [OF assms(2,3)] obtain ps leaf where
    ps: "find_partition db part = Some ps"
    and db': "db' = db\<lparr>audit_partition_seals := audit_partition_seals db @ [seal]\<rparr>"
    and seal: "sr_PartitionID seal = part" "sr_FinalRecordHash seal = ps_FinalRecordHash ps"
    and sig: "WitnessCoSignSeal tess leaf (buildSealPayload part (ps_FinalRecordHash ps)
           (ps_EventCount ps) (ps_LastID ps)) = Inr (sr_DaemonWitnessSignature seal)" .
  have got: "GetPartitionSeal db' part = Inr seal"
    unfolding db' by (rule GetPartitionSeal_append [OF assms(3) seal(1)])
  moreover have "find_partition db' part = Some ps" by (simp add: db' find_partition_raw ps)
  moreover have "GetPartitionSeal db2 part = Inr seal"
    if "audit_partition_seals db2 = audit_partition_seals db'"
    using got that by (simp add: GetPartitionSeal_def)
  ultimately show ?thesis using law [OF sig] seal by (simp add: VerifySeal_def SealPartition_def)
qed

definition demo_tess :: SealAppender where
  "demo_tess = \<lparr>AppendSeal = (\<lambda>proj part pl. Inr ''leaf''),
     WitnessCoSignSeal = (\<lambda>leaf pl. Inr (''sig:'' @ pl)),
     VerifySealSignature = (\<lambda>pl sig. Inr (sig = ''sig:'' @ pl))\<rparr>"

lemma find_partition_one_event_log:
  "find_partition one_event_log (PartitionID 1) = Some \<lparr>ps_PartitionID = PartitionID 1,
     ps_FirstID = ''e1'', ps_LastID = ''e1'', ps_EventCount = 1,
     ps_FinalRecordHash = hex_encode (sha256 (preimage '''' ''t'' ''{}'' 1))\<rparr>"
  by (simp add: find_partition_def ListPartitions_def one_event_log_eq chained_row_def
      PartitionID_nonempty partition_stat_def ListEventsForPartition_def Let_def)

end
