(* ===== verification/Review.thy ===== *)
theory Review
  imports Go_Float "HOL-Library.Product_Lexorder"
begin

text \<open>
  The hierarchical reviewer assembly of \<^verbatim>\<open>src/internal/orchestrator/hra\<close>: plurality and
  early-stopping votes (voting.go), functional majority voting on fix proposals (voting_fmv.go),
  window aggregation (aggregation.go), escalation (escalation.go) and the coordinator's review
  handlers (coordinator.go).

  The worktree pool, the apply engine and the test runner that functional voting calls are the
  fields of \<open>fmv_env\<close>, indexed by the number of the call. An audit append that fails is ignored by
  the code; the event lists below are the events handed to the log. A record's payload is the
  JSON object it decodes to, \<open>None\<close> when it is empty or not an object.
\<close>

subsection \<open>Classification votes (voting.go)\<close>

definition ClassAck :: string where "ClassAck = ''ack''"
definition ClassNeedsFix :: string where "ClassNeedsFix = ''needs_fix''"

record ClassificationVote =
  cv_ReviewerID :: string
  cv_Class :: string

record Decision =
  Winner :: string
  Threshold :: int
  ForCount :: int
  AgainstCount :: int

datatype vote_error =
    ErrNoVotes | ErrUnknownClass string | ErrPluralityTie
  | ErrTotalExpected int | ErrTooManySamples int int

definition majorityThreshold :: "int \<Rightarrow> int" where
  "majorityThreshold n = go_quot (n + 1 + 1) 2"

text \<open>The counting loop shared by both votes; it stops at the first unknown class.\<close>

fun tally :: "ClassificationVote list \<Rightarrow> int \<times> int \<Rightarrow> vote_error + int \<times> int" where
  "tally [] (ack, fix_n) = Inr (ack, fix_n)"
| "tally (v # vs) (ack, fix_n) =
     (if cv_Class v = ClassAck then tally vs (ack + 1, fix_n)
      else if cv_Class v = ClassNeedsFix then tally vs (ack, fix_n + 1)
      else Inl (ErrUnknownClass (cv_Class v)))"

definition Plurality :: "ClassificationVote list \<Rightarrow> vote_error + Decision" where
  "Plurality votes =
     (if votes = [] then Inl ErrNoVotes
      else case tally votes (0, 0) of
        Inl e \<Rightarrow> Inl e
      | Inr (ack, fix_n) \<Rightarrow>
          (let thr = majorityThreshold (int (length votes)) in
           if ack \<ge> thr \<and> ack > fix_n
           then Inr \<lparr>Winner = ClassAck, Threshold = thr, ForCount = ack, AgainstCount = fix_n\<rparr>
           else if fix_n \<ge> thr \<and> fix_n > ack
           then Inr \<lparr>Winner = ClassNeedsFix, Threshold = thr, ForCount = fix_n, AgainstCount = ack\<rparr>
           else Inl ErrPluralityTie))"

text \<open>\<open>Inr None\<close> asks for more samples.\<close>

definition EMSDecide :: "ClassificationVote list \<Rightarrow> int \<Rightarrow> vote_error + Decision option" where
  "EMSDecide samples totalExpected =
     (if totalExpected \<le> 0 then Inl (ErrTotalExpected totalExpected)
      else if int (length samples) > totalExpected
      then Inl (ErrTooManySamples (int (length samples)) totalExpected)
      else if samples = [] then Inl ErrNoVotes
      else case tally samples (0, 0) of
        Inl e \<Rightarrow> Inl e
      | Inr (ack, fix_n) \<Rightarrow>
          (let thr = majorityThreshold totalExpected in
           if ack \<ge> thr \<and> ack > fix_n
           then Inr (Some \<lparr>Winner = ClassAck, Threshold = thr, ForCount = ack, AgainstCount = fix_n\<rparr>)
           else if fix_n \<ge> thr \<and> fix_n > ack
           then Inr (Some \<lparr>Winner = ClassNeedsFix, Threshold = thr, ForCount = fix_n, AgainstCount = ack\<rparr>)
           else if int (length samples) = totalExpected then Inl ErrPluralityTie
           else Inr None))"

subsection \<open>Functional majority voting (voting\_fmv.go)\<close>

record FixProposal =
  fp_ID :: string
  fp_Patch :: string
  SupportingReviewers :: int

definition no_fix :: FixProposal where
  "no_fix = \<lparr>fp_ID = '''', fp_Patch = '''', SupportingReviewers = 0\<rparr>"

datatype BudgetMode = BudgetNormal | BudgetPressure

record FMVTrace =
  ft_Candidate :: FixProposal
  PassCount :: int
  FailCount :: int
  ApplyErr :: "string option"
  RunErr :: "string list"

record FMVResult =
  fr_Winner :: FixProposal
  fr_Trace :: "FMVTrace list"
  Degraded :: bool
  fr_Reason :: string

datatype lease_outcome = Leased string | LeaseExhausted | LeaseFailed string

record fmv_env =
  fe_lease :: "nat \<Rightarrow> lease_outcome"
  fe_apply :: "nat \<Rightarrow> string \<Rightarrow> FixProposal \<Rightarrow> string option"
  fe_run :: "nat \<Rightarrow> string \<Rightarrow> int \<times> int \<times> string option"
  fe_release :: "nat \<Rightarrow> string option"

datatype fmv_error = FMVNoVotes | ErrFMVTie | ErrFMVAllFailed | ErrFMVLease nat string string

datatype fmv_event =
    EvtVotingDecisionMade string
  | EvtFMVAllFailed int int
  | EvtFMVDegraded string int int string bool

text \<open>What one run does: result, error, emitted events, and the leases released.\<close>

type_synonym fmv_out = "FMVResult \<times> fmv_error option \<times> fmv_event list"

definition evaluateCandidate :: "fmv_env \<Rightarrow> nat \<Rightarrow> string \<Rightarrow> FixProposal \<Rightarrow> FMVTrace" where
  "evaluateCandidate env i dir c =
     (let row = (case fe_apply env i dir c of
                   Some e \<Rightarrow> \<lparr>ft_Candidate = c, PassCount = 0, FailCount = 0, ApplyErr = Some e, RunErr = []\<rparr>
                 | None \<Rightarrow>
                     (case fe_run env i dir of (pass, fail, runErr) \<Rightarrow>
                        \<lparr>ft_Candidate = c, PassCount = pass, FailCount = fail, ApplyErr = None,
                         RunErr = (case runErr of None \<Rightarrow> [] | Some e \<Rightarrow> [e])\<rparr>))
      in case fe_release env i of None \<Rightarrow> row | Some e \<Rightarrow> row\<lparr>RunErr := RunErr row @ [e]\<rparr>)"

definition fmv_key :: "FMVTrace \<Rightarrow> int \<times> int" where
  "fmv_key r = (- PassCount r, - SupportingReviewers (ft_Candidate r))"

definition passed :: "FMVTrace \<Rightarrow> bool" where
  "passed r \<longleftrightarrow> ApplyErr r = None \<and> PassCount r > 0"

definition pickWinner :: "FMVTrace list \<Rightarrow> fmv_out" where
  "pickWinner trace =
     (let totalFailures = sum_list (map FailCount trace);
          res = \<lparr>fr_Winner = no_fix, fr_Trace = trace, Degraded = False, fr_Reason = ''''\<rparr> in
      if \<not> list_ex passed trace
      then (res, Some ErrFMVAllFailed, [EvtFMVAllFailed (int (length trace)) totalFailures])
      else
        (let sorted_trace = sort_key fmv_key trace;
             res' = res\<lparr>fr_Trace := sorted_trace\<rparr>;
             top = sorted_trace ! 0 in
         if length sorted_trace \<ge> 2
            \<and> passed (sorted_trace ! 1)
            \<and> PassCount (sorted_trace ! 1) = PassCount top
            \<and> SupportingReviewers (ft_Candidate (sorted_trace ! 1))
                = SupportingReviewers (ft_Candidate top)
         then (res', Some ErrFMVTie, [])
         else (res'\<lparr>fr_Winner := ft_Candidate top\<rparr>, None,
               [EvtVotingDecisionMade (fp_ID (ft_Candidate top))])))"

definition pickByAgreementOnly ::
  "FixProposal list \<Rightarrow> FMVTrace list \<Rightarrow> string \<Rightarrow> FMVResult \<times> fmv_error option" where
  "pickByAgreementOnly all partial_trace reason =
     (let ranked = sort_key (\<lambda>c. - SupportingReviewers c) all;
          res = \<lparr>fr_Winner = no_fix, fr_Trace = partial_trace, Degraded = True, fr_Reason = reason\<rparr> in
      if length ranked \<ge> 2
         \<and> SupportingReviewers (ranked ! 0) = SupportingReviewers (ranked ! 1)
      then (res, Some ErrFMVTie)
      else (res\<lparr>fr_Winner := ranked ! 0\<rparr>, None))"

definition emitDegraded :: "string \<Rightarrow> int \<Rightarrow> int \<Rightarrow> FMVResult \<Rightarrow> fmv_error option \<Rightarrow> fmv_event" where
  "emitDegraded reason candidateCount completed res err =
     EvtFMVDegraded reason candidateCount completed (fp_ID (fr_Winner res)) (err = Some ErrFMVTie)"

definition degradeMidRun ::
  "FixProposal list \<Rightarrow> FMVTrace list \<Rightarrow> nat \<Rightarrow> string \<Rightarrow> fmv_out" where
  "degradeMidRun all partial_trace atIdx reason =
     (case pickByAgreementOnly all partial_trace reason of (res, err) \<Rightarrow>
        (res, err, [emitDegraded reason (int (length all)) (int atIdx) res err]))"

definition degradeToPlurality :: "FixProposal list \<Rightarrow> string \<Rightarrow> fmv_out" where
  "degradeToPlurality candidates reason =
     (case pickByAgreementOnly candidates [] reason of (res, err) \<Rightarrow>
        (res, err, [emitDegraded reason (int (length candidates)) 0 res err]))"

fun fmv_loop ::
  "fmv_env \<Rightarrow> FixProposal list \<Rightarrow> nat \<Rightarrow> FixProposal list \<Rightarrow> FMVTrace list \<Rightarrow> nat list \<Rightarrow>
   fmv_out \<times> nat list" where
  "fmv_loop env all i [] trace released = (pickWinner trace, released)"
| "fmv_loop env all i (c # cs) trace released =
     (case fe_lease env i of
        LeaseExhausted \<Rightarrow> (degradeMidRun all trace i ''pool_exhausted'', released)
      | LeaseFailed e \<Rightarrow>
          ((\<lparr>fr_Winner = no_fix, fr_Trace = trace, Degraded = False, fr_Reason = ''''\<rparr>,
            Some (ErrFMVLease i (fp_ID c) e), []), released)
      | Leased dir \<Rightarrow>
          fmv_loop env all (Suc i) cs (trace @ [evaluateCandidate env i dir c]) (released @ [i]))"

definition FMV_Run :: "fmv_env \<Rightarrow> FixProposal list \<Rightarrow> BudgetMode \<Rightarrow> fmv_out \<times> nat list" where
  "FMV_Run env candidates mode =
     (if candidates = []
      then ((\<lparr>fr_Winner = no_fix, fr_Trace = [], Degraded = False, fr_Reason = ''''\<rparr>,
             Some FMVNoVotes, []), [])
      else if mode = BudgetPressure then (degradeToPlurality candidates ''cost_pressure'', [])
      else fmv_loop env candidates 0 candidates [] [])"

subsection \<open>Aggregation (aggregation.go)\<close>

datatype Layer = LayerTactical | LayerStrategic | LayerArchitectural | LayerOther int

record Record =
  rec_Timestamp :: int
  rec_Payload :: "(string \<rightharpoonup> string option) option"

record Finding =
  fd_Layer :: Layer
  EventCount :: int
  Verdict :: string
  NeedsFix :: bool
  Disagreement :: bool
  FixProposals :: "string list"
  Split :: "int \<times> int"
  Summary :: string

definition unix_epoch :: time where "unix_epoch = 62135596800 * second"

definition UnixNano :: "time \<Rightarrow> int" where
  "UnixNano t = i64 (t - unix_epoch)"

definition Unix :: "time \<Rightarrow> int" where
  "Unix t = (t - unix_epoch) div second"

text \<open>\<open>None\<close> is the panic on an inverted window.\<close>

definition WindowOf :: "Record list \<Rightarrow> time \<Rightarrow> time \<Rightarrow> Record list option" where
  "WindowOf records since until =
     (if since > until then None
      else Some (filter (\<lambda>r. rec_Timestamp r \<ge> UnixNano since \<and> rec_Timestamp r < UnixNano until) records))"

definition payloadString :: "Record \<Rightarrow> string \<Rightarrow> string" where
  "payloadString r key =
     (case rec_Payload r of
        None \<Rightarrow> ''''
      | Some obj \<Rightarrow>
          (case obj key of
             None \<Rightarrow> ''''
           | Some v \<Rightarrow> (case v of None \<Rightarrow> '''' | Some s \<Rightarrow> s)))"

definition classify :: "Finding \<Rightarrow> int \<Rightarrow> int \<Rightarrow> Finding" where
  "classify f ack fix_n =
     (if ack = 0 \<and> fix_n = 0 then f\<lparr>Verdict := ''ack''\<rparr>
      else if ack > fix_n then f\<lparr>Verdict := ''ack''\<rparr>
      else if fix_n > ack then f\<lparr>Verdict := ''needs_fix'', NeedsFix := True\<rparr>
      else f\<lparr>Verdict := ''needs_fix'', NeedsFix := True, Disagreement := True\<rparr>)"

definition verdict_count :: "string \<Rightarrow> Record list \<Rightarrow> int" where
  "verdict_count v rs = int (length (filter (\<lambda>r. payloadString r ''verdict'' = v) rs))"

definition fix_texts :: "string \<Rightarrow> Record list \<Rightarrow> string list" where
  "fix_texts key rs =
     filter (\<lambda>p. p \<noteq> '''') (map (\<lambda>r. payloadString r key)
       (filter (\<lambda>r. payloadString r ''verdict'' = ''needs_fix'') rs))"

definition base_finding :: "Layer \<Rightarrow> Record list \<Rightarrow> Finding" where
  "base_finding layer rs =
     \<lparr>fd_Layer = layer, EventCount = int (length rs), Verdict = '''', NeedsFix = False,
      Disagreement = False, FixProposals = [],
      Split = (verdict_count ''ack'' rs, verdict_count ''needs_fix'' rs), Summary = ''''\<rparr>"

text \<open>\<open>shuffle\<close> is the iteration order of the proposal set, a Go map.\<close>

definition aggregateTactical ::
  "(string list \<Rightarrow> string list) \<Rightarrow> Record list \<Rightarrow> time \<Rightarrow> time \<Rightarrow> Finding option" where
  "aggregateTactical shuffle records since until =
     (case WindowOf records since until of
        None \<Rightarrow> None
      | Some rs \<Rightarrow>
          Some (classify ((base_finding LayerTactical rs)\<lparr>FixProposals :=
                  shuffle (remdups (fix_texts ''proposal'' rs))\<rparr>)
                (verdict_count ''ack'' rs) (verdict_count ''needs_fix'' rs)))"

definition aggregateStrategic :: "Record list \<Rightarrow> time \<Rightarrow> time \<Rightarrow> Finding option" where
  "aggregateStrategic records since until =
     (case WindowOf records since until of
        None \<Rightarrow> None
      | Some rs \<Rightarrow>
          Some (classify (base_finding LayerStrategic rs)
                (verdict_count ''ack'' rs) (verdict_count ''needs_fix'' rs)))"

fun join_with :: "string \<Rightarrow> string list \<Rightarrow> string" where
  "join_with sep [] = ''''"
| "join_with sep [s] = s"
| "join_with sep (s # t # rest) = s @ sep @ join_with sep (t # rest)"

definition aggregateArchitectural :: "Record list \<Rightarrow> time \<Rightarrow> time \<Rightarrow> Finding option" where
  "aggregateArchitectural records since until =
     (case WindowOf records since until of
        None \<Rightarrow> None
      | Some rs \<Rightarrow>
          (let ack = verdict_count ''ack'' rs; fix_n = verdict_count ''needs_fix'' rs;
               f = base_finding LayerArchitectural rs;
               f1 = (if fix_n > 0
                     then f\<lparr>Verdict := ''needs_fix'', NeedsFix := True, Disagreement := ack > 0\<rparr>
                     else f\<lparr>Verdict := ''ack''\<rparr>)
           in Some (f1\<lparr>Summary := join_with ''; '' (fix_texts ''summary'' rs)\<rparr>)))"

subsection \<open>Escalation (escalation.go)\<close>

datatype hra_event =
    EvtTacticalAggregation time Finding int int
  | EvtStrategicAggregation time Finding int int
  | EvtArchitecturalReview time Finding int int
  | EvtEscalationDecision time string string string Finding
  | EvtEscalationToOperator time Layer Finding
  | EvtPhaseBoundaryRecorded time string

record EscalationRules =
  l3Escalations :: int
  l3Acks :: int
  esc_log :: "hra_event list"

definition L3Counters :: "EscalationRules \<Rightarrow> int \<times> int \<times> f64" where
  "L3Counters r =
     (let e = l3Escalations r; a = l3Acks r; total = i64 (e + a) in
      if total = 0 then (e, a, Fin 0)
      else (e, a, f_div (f_of_int e) (f_of_int total)))"

definition L3DeadlockThreshold :: f64 where "L3DeadlockThreshold = f_round (1 / 2)"

definition IsL3Deadlock :: "EscalationRules \<Rightarrow> f64 \<Rightarrow> bool" where
  "IsL3Deadlock r threshold =
     (case L3Counters r of (e, _, ratio) \<Rightarrow> if e = 0 then False else f_le threshold ratio)"

definition routeEscalation :: "Layer \<Rightarrow> string \<times> string \<times> string" where
  "routeEscalation layer =
     (case layer of
        LayerTactical \<Rightarrow> (''tactical'', ''strategic'', ''tactical_disagreement'')
      | LayerStrategic \<Rightarrow> (''strategic'', ''architectural'', ''strategic_deadlock'')
      | LayerArchitectural \<Rightarrow> (''architectural'', ''operator'', ''architectural'')
      | LayerOther _ \<Rightarrow> ('''', '''', ''''))"

definition HandleDisagreement :: "time \<Rightarrow> EscalationRules \<Rightarrow> Layer \<Rightarrow> Finding \<Rightarrow> EscalationRules" where
  "HandleDisagreement now r layer f =
     (case routeEscalation layer of (from, target, cls) \<Rightarrow>
        if from = '''' then r
        else
          (let r1 = (if layer = LayerStrategic
                     then r\<lparr>l3Escalations := i64 (l3Escalations r + 1)\<rparr> else r);
               cls' = (if layer = LayerStrategic \<and> IsL3Deadlock r1 L3DeadlockThreshold
                       then ''strategic_persistent_deadlock'' else cls)
           in r1\<lparr>esc_log := esc_log r1 @ [EvtEscalationDecision now from target cls' f]\<rparr>))"

definition AckedAtLayer :: "EscalationRules \<Rightarrow> Layer \<Rightarrow> EscalationRules" where
  "AckedAtLayer r layer =
     (if layer = LayerStrategic then r\<lparr>l3Acks := i64 (l3Acks r + 1)\<rparr> else r)"

text \<open>The summary text is the argument \<open>text\<close>: a fixed sentence, with the formatted score and
  list when there are affected files.\<close>

definition HighBlastRadius ::
  "time \<Rightarrow> (f64 \<Rightarrow> string list \<Rightarrow> string) \<Rightarrow> EscalationRules \<Rightarrow> string \<Rightarrow> f64 \<Rightarrow> string list \<Rightarrow> EscalationRules" where
  "HighBlastRadius now text r level score topAffected =
     (if level \<noteq> ''high'' then r
      else HandleDisagreement now r LayerStrategic
        \<lparr>fd_Layer = LayerStrategic, EventCount = 0, Verdict = ''needs_fix'', NeedsFix = True,
         Disagreement = True, FixProposals = topAffected, Split = (0, 1),
         Summary = (if topAffected \<noteq> [] then text score topAffected
                    else ''high blast-radius change requires strategic review'')\<rparr>)"

subsection \<open>The coordinator (coordinator.go)\<close>

record CadenceMatrix =
  cad_Tactical :: duration
  cad_Strategic :: duration
  cad_Architectural :: duration

definition CadenceFor :: "string \<Rightarrow> CadenceMatrix option" where
  "CadenceFor doctrine =
     (if doctrine = ''max-scope''
      then Some \<lparr>cad_Tactical = 3 * minute, cad_Strategic = 10 * minute, cad_Architectural = 30 * minute\<rparr>
      else if doctrine = ''default''
      then Some \<lparr>cad_Tactical = 5 * minute, cad_Strategic = 0, cad_Architectural = 0\<rparr>
      else if doctrine = ''capa-firewall''
      then Some \<lparr>cad_Tactical = 0, cad_Strategic = 0, cad_Architectural = 0\<rparr>
      else None)"

text \<open>
  The running coordinator: the clock, the three subscription channels, the loop-local buffers,
  the ticks waiting in the ticker channels (capacity one), and the event log inside \<open>escalator\<close>.
  \<open>panicked\<close> is set when a handler panics.
\<close>

record HRACoordinator =
  cadence :: CadenceMatrix
  hra_clock :: time
  stopped :: bool
  lastArchAt :: time
  escalator :: EscalationRules
  chan :: "Layer \<Rightarrow> Record list"
  buf :: "Layer \<Rightarrow> Record list"
  tick :: "Layer \<Rightarrow> time option"
  panicked :: bool

definition log_event :: "HRACoordinator \<Rightarrow> hra_event \<Rightarrow> HRACoordinator" where
  "log_event h e = h\<lparr>escalator := (escalator h)\<lparr>esc_log := esc_log (escalator h) @ [e]\<rparr>\<rparr>"

definition handle_h :: "HRACoordinator \<Rightarrow> Layer \<Rightarrow> Finding \<Rightarrow> HRACoordinator" where
  "handle_h h layer f = h\<lparr>escalator := HandleDisagreement (hra_clock h) (escalator h) layer f\<rparr>"

definition runTacticalReview ::
  "(string list \<Rightarrow> string list) \<Rightarrow> HRACoordinator \<Rightarrow> time \<Rightarrow> Record list \<Rightarrow> HRACoordinator" where
  "runTacticalReview shuffle h fireAt events =
     (if events = [] then h
      else
        (let since = (if cad_Tactical (cadence h) = 0 then fireAt - hour
                      else fireAt - cad_Tactical (cadence h)) in
         case aggregateTactical shuffle events since fireAt of
           None \<Rightarrow> h\<lparr>panicked := True\<rparr>
         | Some f \<Rightarrow>
             (let h1 = log_event h (EvtTacticalAggregation fireAt f (Unix since) (Unix fireAt))
              in if Disagreement f then handle_h h1 LayerTactical f else h1)))"

definition runStrategicReview :: "HRACoordinator \<Rightarrow> time \<Rightarrow> Record list \<Rightarrow> HRACoordinator" where
  "runStrategicReview h fireAt events =
     (if events = [] then h
      else
        (let since = (if cad_Strategic (cadence h) = 0 then fireAt - hour
                      else fireAt - cad_Strategic (cadence h)) in
         case aggregateStrategic events since fireAt of
           None \<Rightarrow> h\<lparr>panicked := True\<rparr>
         | Some f \<Rightarrow>
             (let h1 = log_event h (EvtStrategicAggregation fireAt f (Unix since) (Unix fireAt))
              in if Disagreement f then handle_h h1 LayerStrategic f else h1)))"

definition runArchitecturalReview :: "HRACoordinator \<Rightarrow> time \<Rightarrow> Record list \<Rightarrow> HRACoordinator" where
  "runArchitecturalReview h fireAt events =
     (let since = (if lastArchAt h = 0
                   then (if cad_Architectural (cadence h) > 0 then fireAt - cad_Architectural (cadence h)
                         else fireAt - hour)
                   else lastArchAt h) in
      if events = [] then h
      else
        (let h0 = h\<lparr>lastArchAt := fireAt\<rparr> in
         case aggregateArchitectural events since fireAt of
           None \<Rightarrow> h0\<lparr>panicked := True\<rparr>
         | Some f \<Rightarrow>
             (let h1 = log_event h0 (EvtArchitecturalReview fireAt f (Unix since) (Unix fireAt))
              in if Disagreement f \<or> NeedsFix f
                 then handle_h (log_event h1 (EvtEscalationToOperator fireAt LayerArchitectural f))
                        LayerArchitectural f
                 else h1)))"

definition OnPhaseBoundary :: "HRACoordinator \<Rightarrow> string \<Rightarrow> HRACoordinator" where
  "OnPhaseBoundary h phaseID =
     (if stopped h then h
      else
        (let now = hra_clock h;
             h1 = log_event h (EvtPhaseBoundaryRecorded now phaseID);
             drained = chan h LayerArchitectural;
             h2 = h1\<lparr>chan := (chan h1)(LayerArchitectural := [])\<rparr>
         in runArchitecturalReview h2 now drained))"

text \<open>\<open>None\<close> is the returned error (stopped, or not an aggregable layer).\<close>

definition Tick :: "(string list \<Rightarrow> string list) \<Rightarrow> HRACoordinator \<Rightarrow> Layer \<Rightarrow> HRACoordinator option" where
  "Tick shuffle h layer =
     (if stopped h then None
      else
        (let now = hra_clock h; drained = chan h layer;
             h1 = h\<lparr>chan := (chan h)(layer := [])\<rparr> in
         case layer of
           LayerTactical \<Rightarrow> Some (runTacticalReview shuffle h1 now drained)
         | LayerStrategic \<Rightarrow> Some (runStrategicReview h1 now drained)
         | LayerArchitectural \<Rightarrow> Some (runArchitecturalReview h1 now drained)
         | LayerOther _ \<Rightarrow> None))"

definition cadence_of :: "HRACoordinator \<Rightarrow> Layer \<Rightarrow> duration" where
  "cadence_of h layer =
     (case layer of
        LayerTactical \<Rightarrow> cad_Tactical (cadence h)
      | LayerStrategic \<Rightarrow> cad_Strategic (cadence h)
      | LayerArchitectural \<Rightarrow> cad_Architectural (cadence h)
      | LayerOther _ \<Rightarrow> 0)"

text \<open>The tick branch of the three loops: review the buffer at the fire time, then empty it.\<close>

definition loop_tick ::
  "(string list \<Rightarrow> string list) \<Rightarrow> HRACoordinator \<Rightarrow> Layer \<Rightarrow> time \<Rightarrow> HRACoordinator" where
  "loop_tick shuffle h layer fireAt =
     (let h1 = (case layer of
                  LayerTactical \<Rightarrow> runTacticalReview shuffle h fireAt (buf h layer)
                | LayerStrategic \<Rightarrow> runStrategicReview h fireAt (buf h layer)
                | LayerArchitectural \<Rightarrow> runArchitecturalReview h fireAt (buf h layer)
                | LayerOther _ \<Rightarrow> h)
      in h1\<lparr>buf := (buf h1)(layer := [])\<rparr>)"

inductive hra_step :: "HRACoordinator \<Rightarrow> HRACoordinator \<Rightarrow> bool" where
  time_passes: "hra_clock h \<le> t \<Longrightarrow> hra_step h (h\<lparr>hra_clock := t\<rparr>)"
| publish: "hra_step h (h\<lparr>chan := (chan h)(layer := chan h layer @ [r])\<rparr>)"
| receive: "\<not> stopped h \<Longrightarrow> 0 < cadence_of h layer \<Longrightarrow> chan h layer = r # rs \<Longrightarrow>
     hra_step h (h\<lparr>chan := (chan h)(layer := rs), buf := (buf h)(layer := buf h layer @ [r])\<rparr>)"
| ticker: "0 < cadence_of h layer \<Longrightarrow> tick h layer = None \<Longrightarrow>
     hra_step h (h\<lparr>tick := (tick h)(layer := Some (hra_clock h))\<rparr>)"
| fire: "\<not> stopped h \<Longrightarrow> 0 < cadence_of h layer \<Longrightarrow> tick h layer = Some fireAt \<Longrightarrow>
     \<forall>xs. mset (shuffle xs) = mset xs \<Longrightarrow>
     hra_step h (loop_tick shuffle (h\<lparr>tick := (tick h)(layer := None)\<rparr>) layer fireAt)"
| boundary: "hra_step h (OnPhaseBoundary h phaseID)"
| manual: "\<forall>xs. mset (shuffle xs) = mset xs \<Longrightarrow> Tick shuffle h layer = Some h' \<Longrightarrow> hra_step h h'"
| stop: "hra_step h (h\<lparr>stopped := True\<rparr>)"

definition hra_init :: "HRACoordinator \<Rightarrow> bool" where
  "hra_init h \<longleftrightarrow> (\<exists>c t. 0 \<le> cad_Tactical c \<and> 0 \<le> cad_Strategic c \<and> 0 \<le> cad_Architectural c
     \<and> 0 < t \<and> h =
     \<lparr>cadence = c, hra_clock = t, stopped = False, lastArchAt = 0,
      escalator = \<lparr>l3Escalations = 0, l3Acks = 0, esc_log = []\<rparr>,
      chan = (\<lambda>_. []), buf = (\<lambda>_. []), tick = (\<lambda>_. None), panicked = False\<rparr>)"

subsection \<open>Votes\<close>

definition class_count :: "string \<Rightarrow> ClassificationVote list \<Rightarrow> int" where
  "class_count c vs = int (length (filter (\<lambda>v. cv_Class v = c) vs))"

definition known_votes :: "ClassificationVote list \<Rightarrow> bool" where
  "known_votes vs \<longleftrightarrow> (\<forall>v \<in> set vs. cv_Class v = ClassAck \<or> cv_Class v = ClassNeedsFix)"

lemma class_neq [simp]: "ClassAck \<noteq> ClassNeedsFix" "ClassNeedsFix \<noteq> ClassAck"
  by (simp_all add: ClassAck_def ClassNeedsFix_def)

lemma tally_known:
  "known_votes vs \<Longrightarrow>
     tally vs (a, f) = Inr (a + class_count ClassAck vs, f + class_count ClassNeedsFix vs)"
  by (induction vs arbitrary: a f) (auto simp: known_votes_def class_count_def)

lemma tally_InrD: "tally vs (a, f) = Inr r \<Longrightarrow> known_votes vs"
  by (induction vs arbitrary: a f) (auto simp: known_votes_def split: if_splits)

lemma known_counts:
  "known_votes vs \<Longrightarrow> class_count ClassAck vs + class_count ClassNeedsFix vs = int (length vs)"
  by (induction vs) (auto simp: known_votes_def class_count_def)

lemma class_count_append: "class_count c (xs @ ys) = class_count c xs + class_count c ys"
  by (simp add: class_count_def)

lemma class_count_nonneg [simp]: "0 \<le> class_count c vs"
  by (simp add: class_count_def)

lemma majorityThreshold_iff: "0 \<le> n \<Longrightarrow> majorityThreshold n \<le> k \<longleftrightarrow> n < 2 * k"
  by (simp add: majorityThreshold_def go_quot_nonneg) presburger

lemma Plurality_known:
  assumes "known_votes vs" and "vs \<noteq> []"
  shows "Plurality vs =
    (let a = class_count ClassAck vs; f = class_count ClassNeedsFix vs;
         thr = majorityThreshold (int (length vs)) in
     if int (length vs) < 2 * a
     then Inr \<lparr>Winner = ClassAck, Threshold = thr, ForCount = a, AgainstCount = f\<rparr>
     else if int (length vs) < 2 * f
     then Inr \<lparr>Winner = ClassNeedsFix, Threshold = thr, ForCount = f, AgainstCount = a\<rparr>
     else Inl ErrPluralityTie)"
proof -
  have "class_count ClassAck vs + class_count ClassNeedsFix vs = int (length vs)"
    by (rule known_counts [OF assms(1)])
  then show ?thesis
    using assms(2) majorityThreshold_iff [of "int (length vs)"]
    by (auto simp: Plurality_def tally_known [OF assms(1)] Let_def)
qed

text \<open>Plurality on non-empty valid votes is strict majority: a class wins exactly when more
  than half of the votes name it, the counts reported are the real ones, and the vote ties exactly
  when both classes have the same number of votes.\<close>

lemma Plurality_is_strict_majority:
  assumes "known_votes votes" and "votes \<noteq> []"
  shows "((\<exists>d. Plurality votes = Inr d \<and> Winner d = c \<and> ForCount d = class_count c votes
            \<and> AgainstCount d = int (length votes) - class_count c votes)
         \<longleftrightarrow> int (length votes) < 2 * class_count c votes \<and> (c = ClassAck \<or> c = ClassNeedsFix))
    \<and> (Plurality votes = Inl ErrPluralityTie \<longleftrightarrow>
          class_count ClassAck votes = class_count ClassNeedsFix votes)"
  using known_counts [OF assms(1)] by (auto simp: Plurality_known [OF assms] Let_def)

lemma EMSDecide_full:
  assumes "known_votes vs" and "vs \<noteq> []"
  shows "EMSDecide vs (int (length vs)) =
    (case Plurality vs of Inl e \<Rightarrow> Inl e | Inr d \<Rightarrow> Inr (Some d))"
  using assms(2) by (simp add: EMSDecide_def Plurality_def tally_known [OF assms(1)] Let_def)

text \<open>Early stopping is sound and complete: if \<open>EMSDecide\<close> converges on a prefix of the
  votes, then plurality over every completion to the expected number of valid votes has the same
  winner and threshold; and with all votes in, it decides exactly as plurality does.\<close>

lemma EMSDecide_agrees_with_Plurality:
  assumes "known_votes (samples @ rest)" and "int (length (samples @ rest)) = K" and "samples \<noteq> []"
  shows "(\<forall>d. EMSDecide samples K = Inr (Some d) \<longrightarrow>
      (\<exists>d'. Plurality (samples @ rest) = Inr d' \<and> Winner d' = Winner d \<and> Threshold d' = Threshold d))
    \<and> EMSDecide (samples @ rest) K =
      (case Plurality (samples @ rest) of Inl e \<Rightarrow> Inl e | Inr d \<Rightarrow> Inr (Some d))"
proof -
  have ks: "known_votes samples" using assms(1) by (auto simp: known_votes_def)
  have "0 < int (length samples)" "K = int (length samples) + int (length rest)"
    using assms(2,3) by simp_all
  then have K: "0 < K" "int (length samples) \<le> K" by linarith+

  note thr = majorityThreshold_iff [of K]
  have ne: "samples @ rest \<noteq> []" using assms(3) by simp
  have "\<exists>d'. Plurality (samples @ rest) = Inr d' \<and> Winner d' = Winner d \<and> Threshold d' = Threshold d"
    if e: "EMSDecide samples K = Inr (Some d)" for d
  proof -
    have "(majorityThreshold K \<le> class_count ClassAck samples \<and> Winner d = ClassAck
         \<or> majorityThreshold K \<le> class_count ClassNeedsFix samples \<and> Winner d = ClassNeedsFix)
        \<and> Threshold d = majorityThreshold K"
      using e K assms(3) by (auto simp: EMSDecide_def tally_known [OF ks] Let_def split: if_splits)
    moreover have "class_count c samples \<le> class_count c (samples @ rest)" for c
      by (simp add: class_count_append)
    ultimately have "(K < 2 * class_count ClassAck (samples @ rest) \<and> Winner d = ClassAck
         \<or> K < 2 * class_count ClassNeedsFix (samples @ rest) \<and> Winner d = ClassNeedsFix)
        \<and> Threshold d = majorityThreshold K"
      using thr K(1) by (smt (verit, best))
    then show ?thesis
      using known_counts [OF assms(1)]
      by (auto simp: Plurality_known [OF assms(1) ne] Let_def assms(2) simp del: length_append)
  qed
  moreover have "EMSDecide (samples @ rest) K =
      (case Plurality (samples @ rest) of Inl e \<Rightarrow> Inl e | Inr d \<Rightarrow> Inr (Some d))"
    using EMSDecide_full [OF assms(1) ne] assms(2) by simp
  ultimately show ?thesis by blast
qed

subsection \<open>Functional majority voting\<close>

lemma sort_key_top:
  assumes "xs \<noteq> []" and "x \<in> set xs"
  shows "f (sort_key f xs ! 0) \<le> f x"
  using sorted_key_stable_head [OF assms] assms(1)
  by (metis hd_conv_nth length_0_conv length_sort)

lemma sort_key_two_min:
  assumes "2 \<le> length xs" and "f (sort_key f xs ! 0) < f (sort_key f xs ! 1)"
  shows "\<exists>x. mset xs = add_mset x (mset xs - {#x#}) \<and> x = sort_key f xs ! 0
    \<and> (\<forall>y \<in># mset xs - {#x#}. f x < f y)"
proof -
  let ?ys = "sort_key f xs"
  have len: "length ?ys = length xs" by simp
  then obtain a b rest where ys: "?ys = a # b # rest"
    using assms(1) by (metis Suc_le_length_iff numeral_2_eq_2)
  have m: "mset xs = add_mset a (mset (b # rest))"
    using ys by (metis mset.simps(2) mset_sort)
  have "sorted (map f (a # b # rest))" using sorted_sort_key [of f xs] ys by simp
  then have "\<forall>y \<in> set rest. f b \<le> f y" by simp
  moreover have "f a < f b" using assms(2) ys by simp
  ultimately have "\<forall>y \<in> set (b # rest). f a < f y" by auto
  with m ys show ?thesis by (intro exI [of _ a]) (simp add: ys)
qed

text \<open>The rows of the trace other than the winning one (by position, not by value).\<close>

definition beats :: "FMVTrace \<Rightarrow> FMVTrace \<Rightarrow> bool" where
  "beats r s \<longleftrightarrow> PassCount s < PassCount r
     \<or> PassCount s = PassCount r \<and> SupportingReviewers (ft_Candidate s) < SupportingReviewers (ft_Candidate r)"

lemma fmv_key_less: "fmv_key r < fmv_key s \<longleftrightarrow> beats r s"
  by (auto simp: fmv_key_def beats_def less_prod_def')

lemma fmv_key_le: "fmv_key r \<le> fmv_key s \<longleftrightarrow> \<not> beats s r"
  by (simp add: fmv_key_less [symmetric] not_less)

text \<open>A failed application leaves the pass count at zero, so it never outranks a passing row.\<close>

definition trace_ok :: "FMVTrace list \<Rightarrow> bool" where
  "trace_ok trace \<longleftrightarrow> (\<forall>r \<in> set trace. ApplyErr r \<noteq> None \<longrightarrow> PassCount r = 0)"

lemma pickWinner_outcome:
  assumes "trace_ok trace" and "pickWinner trace = (res, err, evs)"
  shows "(\<not> list_ex passed trace \<and> err = Some ErrFMVAllFailed
            \<and> evs = [EvtFMVAllFailed (int (length trace)) (sum_list (map FailCount trace))])
    \<or> (\<exists>w. w \<in> set trace \<and> passed w \<and> (\<forall>s \<in> set trace. \<not> beats s w)
         \<and> ((err = None \<and> fr_Winner res = ft_Candidate w
               \<and> evs = [EvtVotingDecisionMade (fp_ID (ft_Candidate w))]
               \<and> (\<forall>s \<in># mset trace - {#w#}. beats w s))
            \<or> (err = Some ErrFMVTie \<and> evs = []
               \<and> (\<exists>s \<in># mset trace - {#w#}. passed s \<and> \<not> beats w s))))"
proof (cases "list_ex passed trace")
  case False
  with assms(2) show ?thesis by (auto simp: pickWinner_def Let_def)
next
  case True
  let ?ys = "sort_key fmv_key trace"
  let ?w = "?ys ! 0"
  from True obtain p where p: "p \<in> set trace" "passed p" by (auto simp: list_ex_iff)
  then have ne: "trace \<noteq> []" by auto
  have w_in: "?w \<in> set trace" using ne by (metis hd_conv_nth hd_sort_key_in length_0_conv length_sort)
  have top: "\<not> beats s ?w" if "s \<in> set trace" for s
    using sort_key_top [OF ne that, of fmv_key] by (simp add: fmv_key_le)
  have "PassCount p \<le> PassCount ?w" using top [OF p(1)] by (auto simp: beats_def)
  then have pos: "0 < PassCount ?w" using p(2) by (auto simp: passed_def)
  have wp: "passed ?w" using assms(1) w_in pos by (auto simp: trace_ok_def passed_def)
  have m: "mset ?ys = mset trace" by simp
  show ?thesis
  proof (cases "length ?ys \<ge> 2 \<and> passed (?ys ! 1) \<and> PassCount (?ys ! 1) = PassCount ?w
      \<and> SupportingReviewers (ft_Candidate (?ys ! 1)) = SupportingReviewers (ft_Candidate ?w)")
    case tie: True
    then obtain a b rest where ys: "?ys = a # b # rest"
      by (metis Suc_le_length_iff numeral_2_eq_2)
    then have "mset trace - {#?w#} = mset (b # rest)" unfolding m [symmetric] by simp
    then have "\<exists>s \<in># mset trace - {#?w#}. passed s \<and> \<not> beats ?w s"
      using tie ys by (auto simp: beats_def)
    moreover have "err = Some ErrFMVTie" "evs = []"
      using assms(2) True tie by (auto simp: pickWinner_def Let_def)
    ultimately show ?thesis using w_in wp top by blast
  next
    case no_tie: False
    have "\<forall>s \<in># mset trace - {#?w#}. beats ?w s"
    proof (cases "length trace \<ge> 2")
      case False
      with ne obtain x where "trace = [x]" by (cases trace) (auto simp: Suc_le_eq)
      then show ?thesis by simp
    next
      case two: True
      then obtain a b rest where ys: "?ys = a # b # rest"
        by (metis Suc_le_length_iff length_sort numeral_2_eq_2)
      have b: "b \<in> set trace" using ys by (metis insert_iff list.set(2) set_sort)
      have "beats a b"
      proof (rule ccontr)
        assume "\<not> beats a b"
        moreover have "\<not> beats b a" using top [OF b] ys by simp
        ultimately have eq: "PassCount b = PassCount a"
          "SupportingReviewers (ft_Candidate b) = SupportingReviewers (ft_Candidate a)"
          by (auto simp: beats_def)
        then have "passed b" using pos ys b assms(1) by (auto simp: trace_ok_def passed_def)
        with eq no_tie ys show False by simp
      qed
      then have "fmv_key (?ys ! 0) < fmv_key (?ys ! 1)" using ys by (simp add: fmv_key_less)
      from sort_key_two_min [OF two this] show ?thesis by (auto simp: fmv_key_less)
    qed
    moreover have "err = None" "fr_Winner res = ft_Candidate ?w"
      "evs = [EvtVotingDecisionMade (fp_ID (ft_Candidate ?w))]"
      using assms(2) True no_tie by (auto simp: pickWinner_def Let_def)
    ultimately show ?thesis using w_in wp top by blast
  qed
qed

lemma fmv_loop_leased:
  assumes "\<forall>j. i \<le> j \<longrightarrow> j < i + length cs \<longrightarrow> (\<exists>dir. fe_lease env j = Leased dir)"
  shows "\<exists>rows. fmv_loop env all i cs trace rel = (pickWinner (trace @ rows), rel @ [i..<i + length cs])
    \<and> map ft_Candidate rows = cs \<and> trace_ok rows"
  using assms
proof (induction cs arbitrary: i trace rel)
  case Nil
  show ?case by (simp add: trace_ok_def)
next
  case (Cons c cs)
  from Cons.prems obtain dir where dir: "fe_lease env i = Leased dir" by force
  let ?row = "evaluateCandidate env i dir c"
  have row: "ft_Candidate ?row = c" "ApplyErr ?row \<noteq> None \<longrightarrow> PassCount ?row = 0"
    by (auto simp: evaluateCandidate_def Let_def split: option.splits prod.splits)
  from Cons.IH [of "Suc i" "trace @ [?row]" "rel @ [i]"] Cons.prems obtain rows where
    "fmv_loop env all (Suc i) cs (trace @ [?row]) (rel @ [i])
      = (pickWinner ((trace @ [?row]) @ rows), (rel @ [i]) @ [Suc i..<Suc i + length cs])"
    "map ft_Candidate rows = cs" "trace_ok rows" by force
  moreover have "i # [Suc i..<Suc i + length cs] = [i..<i + length (c # cs)]"
    by (simp add: upt_conv_Cons del: upt_Suc)
  ultimately show ?case using row
    by (intro exI [of _ "?row # rows"]) (auto simp: dir trace_ok_def simp del: upt_Suc)
qed

text \<open>When every lease is granted, functional majority voting evaluates every candidate once
  and releases every lease exactly once. If it returns a winner, that candidate applied cleanly,
  passed at least one test and strictly outranks every other row by passed tests, then by
  supporting reviewers, and exactly one decision event is emitted; if it reports a tie, a best row
  is matched by another passing row; if it reports that all failed, no candidate both applied and
  passed a test.\<close>

lemma FMV_Run_outcome:
  assumes "candidates \<noteq> []"
    and "\<forall>i < length candidates. \<exists>dir. fe_lease env i = Leased dir"
    and "FMV_Run env candidates BudgetNormal = ((res, err, evs), released)"
  shows "\<exists>rows. map ft_Candidate rows = candidates \<and> released = [0..<length candidates]
    \<and> ((\<not> list_ex passed rows \<and> err = Some ErrFMVAllFailed
          \<and> evs = [EvtFMVAllFailed (int (length candidates)) (sum_list (map FailCount rows))])
      \<or> (\<exists>w. w \<in> set rows \<and> passed w \<and> (\<forall>s \<in> set rows. \<not> beats s w)
           \<and> ((err = None \<and> fr_Winner res = ft_Candidate w
                 \<and> evs = [EvtVotingDecisionMade (fp_ID (ft_Candidate w))]
                 \<and> (\<forall>s \<in># mset rows - {#w#}. beats w s))
              \<or> (err = Some ErrFMVTie \<and> evs = []
                 \<and> (\<exists>s \<in># mset rows - {#w#}. passed s \<and> \<not> beats w s)))))"
proof -
  from assms(2) have "\<forall>j. 0 \<le> j \<longrightarrow> j < 0 + length candidates \<longrightarrow> (\<exists>dir. fe_lease env j = Leased dir)"
    by simp
  from fmv_loop_leased [OF this, of candidates "[]" "[]"] obtain rows where
    loop: "fmv_loop env candidates 0 candidates [] [] = (pickWinner rows, [0..<length candidates])"
    and rows': "map ft_Candidate rows = candidates" "trace_ok rows" by auto
  have run: "FMV_Run env candidates BudgetNormal = (pickWinner rows, [0..<length candidates])"
    using assms(1) loop by (simp add: FMV_Run_def)
  then have rows: "pickWinner rows = (res, err, evs)" "released = [0..<length candidates]"
    "map ft_Candidate rows = candidates" "trace_ok rows"
    using rows' assms(3) by (auto simp del: upt_Suc)
  moreover have "length rows = length candidates" using rows(3) by (metis length_map)
  ultimately show ?thesis using pickWinner_outcome [OF rows(4,1)] by (intro exI [of _ rows]) auto
qed

definition demo_fix :: "string \<Rightarrow> int \<Rightarrow> FixProposal" where
  "demo_fix i n = \<lparr>fp_ID = i, fp_Patch = '''', SupportingReviewers = n\<rparr>"

definition demo_fmv_env :: fmv_env where
  "demo_fmv_env = \<lparr>fe_lease = (\<lambda>_. Leased ''d''), fe_apply = (\<lambda>_ _ _. None),
     fe_run = (\<lambda>_ _. (3, 0, None)), fe_release = (\<lambda>_. None)\<rparr>"

lemma pickByAgreementOnly_spec:
  assumes "all \<noteq> []" and "pickByAgreementOnly all tr reason = (res, err)"
  shows "Degraded res \<and> fr_Trace res = tr \<and> fr_Reason res = reason
    \<and> (err = None \<and> fr_Winner res \<in> set all
          \<and> (\<forall>c \<in># mset all - {#fr_Winner res#}. SupportingReviewers c < SupportingReviewers (fr_Winner res))
       \<or> err = Some ErrFMVTie
          \<and> (\<exists>c. c \<in> set all \<and> (\<exists>d \<in># mset all - {#c#}. SupportingReviewers d = SupportingReviewers c)
               \<and> (\<forall>d \<in> set all. SupportingReviewers d \<le> SupportingReviewers c)))"
proof -
  let ?k = "\<lambda>c. - SupportingReviewers c"
  let ?ys = "sort_key ?k all"
  have top: "SupportingReviewers d \<le> SupportingReviewers (?ys ! 0)" if "d \<in> set all" for d
    using sort_key_top [OF assms(1) that, of ?k] by simp
  have w_in: "?ys ! 0 \<in> set all"
    using assms(1) by (metis hd_conv_nth hd_sort_key_in length_0_conv length_sort)
  show ?thesis
  proof (cases "length all \<ge> 2")
    case False
    with assms(1) obtain x where "all = [x]" by (cases all) (auto simp: Suc_le_eq)
    with assms(2) show ?thesis by (auto simp: pickByAgreementOnly_def)
  next
    case two: True
    then obtain a b rest where ys: "?ys = a # b # rest"
      by (metis Suc_le_length_iff length_sort numeral_2_eq_2)
    have m: "mset all - {#a#} = mset (b # rest)" using ys by (metis add_mset_remove_trivial mset.simps(2) mset_sort)
    show ?thesis
    proof (cases "SupportingReviewers a = SupportingReviewers b")
      case True
      then have "\<exists>d \<in># mset all - {#a#}. SupportingReviewers d = SupportingReviewers a"
        unfolding m by simp
      moreover have "err = Some ErrFMVTie" "Degraded res" "fr_Trace res = tr" "fr_Reason res = reason"
        using True two ys assms(2) by (auto simp: pickByAgreementOnly_def)
      moreover have "a \<in> set all" "\<forall>d \<in> set all. SupportingReviewers d \<le> SupportingReviewers a"
        using top w_in ys by simp_all
      ultimately show ?thesis by blast
    next
      case False
      have "b \<in> set all" using ys by (metis insert_iff list.set(2) set_sort)
      then have "?k (?ys ! 0) < ?k (?ys ! 1)" using False top [of b] ys by simp
      from sort_key_two_min [OF two this]
      have "\<forall>y \<in># mset all - {#a#}. SupportingReviewers y < SupportingReviewers a" using ys by auto
      moreover have "err = None" "fr_Winner res = a" "Degraded res" "fr_Trace res = tr" "fr_Reason res = reason"
        using False two ys assms(2) by (auto simp: pickByAgreementOnly_def)
      moreover have "a \<in> set all" using w_in ys by simp
      ultimately show ?thesis by simp
    qed
  qed
qed

text \<open>Under budget pressure functional voting takes no worktree at all and decides by
  reviewer agreement: it always emits exactly one degradation event, which says whether it tied;
  a winner has strictly more supporting reviewers than every other candidate, and a tie means that
  the highest support is shared.\<close>

lemma FMV_Run_under_pressure:
  assumes "candidates \<noteq> []"
    and "FMV_Run env candidates BudgetPressure = ((res, err, evs), released)"
  shows "released = [] \<and> Degraded res \<and> fr_Trace res = []
    \<and> evs = [EvtFMVDegraded ''cost_pressure'' (int (length candidates)) 0 (fp_ID (fr_Winner res))
              (err = Some ErrFMVTie)]
    \<and> (err = None \<and> fr_Winner res \<in> set candidates
          \<and> (\<forall>c \<in># mset candidates - {#fr_Winner res#}.
               SupportingReviewers c < SupportingReviewers (fr_Winner res))
       \<or> err = Some ErrFMVTie
          \<and> (\<exists>c. c \<in> set candidates
               \<and> (\<exists>d \<in># mset candidates - {#c#}. SupportingReviewers d = SupportingReviewers c)
               \<and> (\<forall>d \<in> set candidates. SupportingReviewers d \<le> SupportingReviewers c)))"
proof -
  obtain r e where p: "pickByAgreementOnly candidates [] ''cost_pressure'' = (r, e)"
    by (cases "pickByAgreementOnly candidates [] ''cost_pressure''")
  then have "res = r" "err = e" "released = []"
    "evs = [EvtFMVDegraded ''cost_pressure'' (int (length candidates)) 0 (fp_ID (fr_Winner r)) (e = Some ErrFMVTie)]"
    using assms by (auto simp: FMV_Run_def degradeToPlurality_def emitDegraded_def)
  with pickByAgreementOnly_spec [OF assms(1) p] show ?thesis by simp
qed

subsection \<open>Deadlock detection\<close>

lemma rnd_below_half: "rnd (1 / 2 - 1 / 2 ^ 54) = 1 / 2 - 1 / 2 ^ 54"
proof -
  let ?r = "1 / 2 - 1 / 2 ^ 54 :: rat"
  have r: "?r = of_int (2 ^ 53 - 1) * 2 powi (- 54)" by (simp add: power_int_def power_divide)
  have "?r < 2 powi (- 1)" by (simp add: power_int_def)
  then have "lg ?r < - 1" by (intro lg_le) simp_all
  then have "ulp_exp ?r \<le> - 54" by (simp add: ulp_exp_def)
  from rnd_pos_exact [OF _ r this] show ?thesis by (simp add: rnd_def)
qed

lemma half_le_round_ratio:
  fixes e t :: int
  assumes "0 < t" and "t \<le> 2 ^ 53"
  shows "f_le (f_round (1 / 2)) (f_round (of_int e / of_int t)) \<longleftrightarrow> t \<le> 2 * e"
proof
  assume "t \<le> 2 * e"
  then have "(of_int t :: rat) \<le> of_int (2 * e)" by (simp only: of_int_le_iff)
  then have "(1 / 2 :: rat) \<le> of_int e / of_int t" using assms(1) by (simp add: field_simps)
  then show "f_le (f_round (1 / 2)) (f_round (of_int e / of_int t))" by (rule f_round_mono)
next
  let ?r = "1 / 2 - 1 / 2 ^ 54 :: rat"
  assume le: "f_le (f_round (1 / 2)) (f_round (of_int e / of_int t))"
  show "t \<le> 2 * e"
  proof (rule ccontr)
    assume "\<not> t \<le> 2 * e"
    then have "2 * e + 1 \<le> t" by simp
    then have "(of_int (2 * e + 1) :: rat) \<le> of_int t" by (simp only: of_int_le_iff)
    then have a: "2 * (of_int e :: rat) + 1 \<le> of_int t" by simp
    have "(of_int t :: rat) \<le> of_int (2 ^ 53)" using assms(2) by (simp only: of_int_le_iff)
    then have "of_int t / 2 ^ 53 \<le> (1 :: rat)" by simp
    moreover have "of_int e \<le> of_int t / 2 - x / 2" if "x \<le> 1" for x :: rat using a that by linarith
    ultimately have "(of_int e :: rat) \<le> of_int t / 2 - of_int t / 2 ^ 53 / 2" by blast
    also have "\<dots> = ?r * of_int t" by (simp add: left_diff_distrib)
    finally have "(of_int e :: rat) \<le> ?r * of_int t" .
    then have "of_int e / of_int t \<le> ?r" using assms(1) by (simp only: pos_divide_le_eq of_int_0_less_iff)
    then have "f_le (f_round (of_int e / of_int t)) (f_round ?r)" by (rule f_round_mono)
    with le have "f_le (f_round (1 / 2)) (f_round ?r)" by (rule f_le_trans)
    moreover have "f_round ?r = Fin ?r"
      by (rule f_round_id) (unfold f_ok.simps, intro conjI rnd_below_half, simp)
    moreover have "rnd (1 / 2) = 1 / 2" using rnd_powi [of "- 1"] by (simp add: power_int_def)
    then have "f_round (1 / 2) = Fin (1 / 2)" by (simp add: f_round_def Let_def)
    ultimately show False by simp
  qed
qed

text \<open>The persistent-deadlock test on doubles is exact: with up to 2^53 recorded outcomes
  the rounded ratio reaches 0.5 exactly when there was an escalation and there were at least as
  many escalations as acknowledgements.\<close>

lemma IsL3Deadlock_exact:
  assumes "0 \<le> l3Escalations r" and "0 \<le> l3Acks r" and "l3Escalations r + l3Acks r \<le> 2 ^ 53"
  shows "IsL3Deadlock r L3DeadlockThreshold \<longleftrightarrow>
    0 < l3Escalations r \<and> l3Acks r \<le> l3Escalations r"
proof (cases "l3Escalations r = 0")
  case True
  then show ?thesis by (simp add: IsL3Deadlock_def L3Counters_def Let_def)
next
  case False
  let ?e = "l3Escalations r" and ?t = "l3Escalations r + l3Acks r"
  have t: "0 < ?t" "i64 ?t = ?t" using assms False by (auto intro: i64_id simp: in_i64_def)
  have "f_of_int ?e = Fin (of_int ?e)" "f_of_int ?t = Fin (of_int ?t)"
    using assms by (intro f_of_int_small; simp)+
  then have "IsL3Deadlock r L3DeadlockThreshold \<longleftrightarrow>
      f_le (f_round (1 / 2)) (f_round (of_int ?e / of_int ?t))"
    using False t by (simp add: IsL3Deadlock_def L3Counters_def L3DeadlockThreshold_def Let_def)
  also have "\<dots> \<longleftrightarrow> ?t \<le> 2 * ?e" by (rule half_le_round_ratio [OF t(1) assms(3)])
  finally show ?thesis using assms(1) False by auto
qed

subsection \<open>The coordinator\<close>

fun strategic_row_ok :: "hra_event \<Rightarrow> bool" where
  "strategic_row_ok (EvtEscalationDecision _ from _ cls _) =
     (from = ''strategic'' \<longrightarrow> cls = ''strategic_persistent_deadlock'')"
| "strategic_row_ok _ = True"

definition esc_inv :: "EscalationRules \<Rightarrow> bool" where
  "esc_inv r \<longleftrightarrow> l3Acks r = 0 \<and> (int (length (esc_log r)) < 2 ^ 63 \<longrightarrow>
     0 \<le> l3Escalations r \<and> l3Escalations r \<le> int (length (esc_log r))
     \<and> list_all strategic_row_ok (esc_log r))"

definition hra_inv :: "HRACoordinator \<Rightarrow> bool" where
  "hra_inv h \<longleftrightarrow> esc_inv (escalator h)"

lemma IsL3Deadlock_no_acks:
  assumes "l3Acks r = 0" and "0 < l3Escalations r" and "l3Escalations r < 2 ^ 63"
  shows "IsL3Deadlock r L3DeadlockThreshold"
proof -
  let ?e = "l3Escalations r"
  have "(of_int 1 :: rat) \<le> of_int ?e" "(of_int ?e :: rat) \<le> of_int (2 ^ 63)"
    using assms(2,3) by (simp_all only: of_int_le_iff)
  then have "rnd 1 \<le> rnd (of_int ?e)" "rnd (of_int ?e) \<le> rnd (2 powi 63)"
    by (auto intro!: rnd_mono)
  then have b: "1 \<le> rnd (of_int ?e)" "rnd (of_int ?e) \<le> 2 ^ 63"
    using rnd_of_int [of 1] rnd_powi [of 63] by simp_all
  then have "f_of_int ?e = Fin (rnd (of_int ?e))"
    by (simp add: f_of_int_def f_round_def Let_def)
  moreover have "f_round 1 = Fin 1" "f_round (1 / 2) = Fin (1 / 2)"
    using rnd_of_int [of 1] rnd_powi [of "- 1"] by (simp_all add: f_round_def Let_def power_int_def)
  moreover have "i64 ?e = ?e" using assms by (intro i64_id) (simp add: in_i64_def)
  ultimately show ?thesis
    using assms b by (simp add: IsL3Deadlock_def L3Counters_def L3DeadlockThreshold_def Let_def)
qed

lemma esc_inv_append:
  "esc_inv r \<Longrightarrow> strategic_row_ok e \<Longrightarrow> esc_inv (r\<lparr>esc_log := esc_log r @ [e]\<rparr>)"
  by (auto simp: esc_inv_def)

lemma esc_inv_handle:
  assumes "esc_inv r"
  shows "esc_inv (HandleDisagreement now r layer f)"
proof (cases layer)
  case LayerStrategic
  let ?r = "r\<lparr>l3Escalations := i64 (l3Escalations r + 1)\<rparr>"
  show ?thesis
  proof (cases "int (length (esc_log r)) + 1 < 2 ^ 63")
    case True
    with assms have e: "0 \<le> l3Escalations r" "l3Escalations r \<le> int (length (esc_log r))"
      "list_all strategic_row_ok (esc_log r)" "l3Acks r = 0" by (auto simp: esc_inv_def)
    with True have "i64 (l3Escalations r + 1) = l3Escalations r + 1"
      by (intro i64_id) (simp add: in_i64_def)
    moreover from this have "IsL3Deadlock ?r L3DeadlockThreshold"
      using e True by (intro IsL3Deadlock_no_acks) auto
    ultimately show ?thesis using LayerStrategic e
      by (simp add: HandleDisagreement_def routeEscalation_def esc_inv_def Let_def)
  next
    case False
    with assms LayerStrategic show ?thesis
      by (simp add: HandleDisagreement_def routeEscalation_def esc_inv_def Let_def)
  qed
qed (use assms in \<open>auto simp: HandleDisagreement_def routeEscalation_def Let_def intro: esc_inv_append\<close>)

lemma hra_inv_log: "hra_inv h \<Longrightarrow> strategic_row_ok e \<Longrightarrow> hra_inv (log_event h e)"
  by (simp add: hra_inv_def log_event_def esc_inv_append)

lemma hra_inv_handle: "hra_inv h \<Longrightarrow> hra_inv (handle_h h layer f)"
  by (simp add: hra_inv_def handle_h_def esc_inv_handle)

lemma hra_inv_same: "hra_inv h \<Longrightarrow> escalator h' = escalator h \<Longrightarrow> hra_inv h'"
  by (simp add: hra_inv_def)

lemma hra_inv_reviews:
  assumes "hra_inv h"
  shows "hra_inv (runTacticalReview shuffle h t es)" "hra_inv (runStrategicReview h t es)"
    "hra_inv (runArchitecturalReview h t es)"
  using assms hra_inv_same [OF assms, of "h\<lparr>panicked := True\<rparr>"]
    hra_inv_same [OF assms, of "h\<lparr>lastArchAt := t\<rparr>"]
    hra_inv_same [OF assms, of "h\<lparr>lastArchAt := t, panicked := True\<rparr>"]
  by (auto simp: runTacticalReview_def runStrategicReview_def runArchitecturalReview_def Let_def
      intro!: hra_inv_log hra_inv_handle split: option.splits)

lemma hra_inv_step: "hra_inv h \<Longrightarrow> hra_step h h' \<Longrightarrow> hra_inv h'"
proof (erule hra_step.cases, goal_cases)
  case (5 h layer fireAt shuffle)
  let ?h = "h\<lparr>tick := (tick h)(layer := None)\<rparr>"
  have "hra_inv ?h" using 5 by (auto intro: hra_inv_same)
  then show ?case using 5
    by (auto simp: loop_tick_def Let_def split: Layer.splits
        intro: hra_inv_reviews hra_inv_same [where h = "runTacticalReview shuffle ?h fireAt (buf h layer)"]
          hra_inv_same [where h = "runStrategicReview ?h fireAt (buf h layer)"]
          hra_inv_same [where h = "runArchitecturalReview ?h fireAt (buf h layer)"]
          hra_inv_same [where h = ?h])
next
  case (6 h phaseID)
  then have "hra_inv (log_event h (EvtPhaseBoundaryRecorded (hra_clock h) phaseID))"
    by (auto intro: hra_inv_log)
  with 6 show ?case
    by (auto simp: OnPhaseBoundary_def Let_def intro!: hra_inv_reviews elim: hra_inv_same)
next
  case (7 shuffle h layer h')
  have "hra_inv (h\<lparr>chan := (chan h)(layer := [])\<rparr>)" using 7 by (auto intro: hra_inv_same)
  with 7 show ?case
    by (auto simp: Tick_def Let_def split: if_splits Layer.splits intro: hra_inv_reviews)
qed (auto simp: hra_inv_def)

lemma hra_inv_init: "hra_init h \<Longrightarrow> hra_inv h"
  by (auto simp: hra_init_def hra_inv_def esc_inv_def)

interpretation hra: safety hra_init hra_step hra_inv
  by unfold_locales (auto intro: hra_inv_init hra_inv_step)

text \<open>The class \<open>strategic_deadlock\<close> is never emitted. No handler records an
  acknowledgement, so in every reachable coordinator every escalation row from the strategic layer,
  the very first one included, is classified as a persistent deadlock.\<close>

lemma strategic_escalations_always_persistent:
  assumes "reach hra_init hra_step h" and "int (length (esc_log (escalator h))) < 2 ^ 63"
    and "EvtEscalationDecision t ''strategic'' target cls f \<in> set (esc_log (escalator h))"
  shows "cls = ''strategic_persistent_deadlock''"
  using hra.reach_inv [OF assms(1)] assms(2,3)
  by (auto simp: hra_inv_def esc_inv_def list_all_iff)

definition demo_hra :: "CadenceMatrix \<Rightarrow> HRACoordinator" where
  "demo_hra c = \<lparr>cadence = c, hra_clock = unix_epoch + 10, stopped = False, lastArchAt = 0,
      escalator = \<lparr>l3Escalations = 0, l3Acks = 0, esc_log = []\<rparr>,
      chan = (\<lambda>_. []), buf = (\<lambda>_. []), tick = (\<lambda>_. None), panicked = False\<rparr>"

definition demo_cad :: "duration \<Rightarrow> CadenceMatrix" where
  "demo_cad a = \<lparr>cad_Tactical = 0, cad_Strategic = 0, cad_Architectural = a\<rparr>"

definition demo_rec :: "int \<Rightarrow> string \<Rightarrow> Record" where
  "demo_rec t v = \<lparr>rec_Timestamp = t, rec_Payload = Some [''verdict'' \<mapsto> Some v]\<rparr>"

lemma demo_hra_init: "0 \<le> a \<Longrightarrow> reach hra_init hra_step (demo_hra (demo_cad a))"
  by (intro reach_init) (auto simp: hra_init_def demo_hra_def demo_cad_def unix_epoch_def)

definition demo_publish :: "HRACoordinator \<Rightarrow> Layer \<Rightarrow> Record \<Rightarrow> HRACoordinator" where
  "demo_publish h layer r = h\<lparr>chan := (chan h)(layer := chan h layer @ [r])\<rparr>"

lemma demo_publish_reach: "reach hra_init hra_step h \<Longrightarrow> reach hra_init hra_step (demo_publish h layer r)"
  unfolding demo_publish_def by (erule reach_step) (rule hra_step.publish)

definition demo_split :: HRACoordinator where
  "demo_split = demo_publish (demo_publish (demo_hra (demo_cad 0)) LayerStrategic (demo_rec 5 ''ack''))
     LayerStrategic (demo_rec 6 ''needs_fix'')"

lemma demo_split_reach: "reach hra_init hra_step demo_split"
  unfolding demo_split_def by (intro demo_publish_reach demo_hra_init) simp

lemma demo_split_eq:
  "chan demo_split LayerStrategic = [demo_rec 5 ''ack'', demo_rec 6 ''needs_fix'']"
  "hra_clock demo_split = unix_epoch + 10" "stopped demo_split = False"
  "cad_Strategic (cadence demo_split) = 0" "esc_log (escalator demo_split) = []"
  by (simp_all add: demo_split_def demo_publish_def demo_hra_def demo_cad_def)

text \<open>Frame of the architectural review.\<close>

lemma arch_frame:
  "buf (runArchitecturalReview h t es) = buf h" "tick (runArchitecturalReview h t es) = tick h"
  "stopped (runArchitecturalReview h t es) = stopped h" "cadence (runArchitecturalReview h t es) = cadence h"
  "es \<noteq> [] \<Longrightarrow> lastArchAt (runArchitecturalReview h t es) = t"
  by (auto simp: runArchitecturalReview_def Let_def log_event_def handle_h_def split: option.splits)

text \<open>The architectural loop can panic. A stage boundary that runs between a ticker firing and
  the loop handling that tick moves \<open>lastArchAt\<close> past the fire time, so the loop then asks for an
  inverted window: a coordinator with an architectural cadence reaches a panic although the clock
  only moves forward.\<close>

lemma architectural_loop_can_panic:
  "\<exists>h. reach hra_init hra_step h \<and> panicked h"
proof -
  let ?L = LayerArchitectural
  define h0 where "h0 = demo_hra (demo_cad (30 * minute))"
  define h1 where "h1 = h0\<lparr>chan := (chan h0)(?L := chan h0 ?L @ [demo_rec 5 ''ack''])\<rparr>"
  define h2 where "h2 = h1\<lparr>chan := (chan h1)(?L := []), buf := (buf h1)(?L := buf h1 ?L @ [demo_rec 5 ''ack''])\<rparr>"
  define h3 where "h3 = h2\<lparr>tick := (tick h2)(?L := Some (hra_clock h2))\<rparr>"
  define h4 where "h4 = h3\<lparr>chan := (chan h3)(?L := chan h3 ?L @ [demo_rec 6 ''ack''])\<rparr>"
  define h5 where "h5 = h4\<lparr>hra_clock := hra_clock h4 + 1\<rparr>"
  define h6 where "h6 = OnPhaseBoundary h5 ''p''"
  note defs = h0_def h1_def h2_def h3_def h4_def h5_def demo_hra_def demo_cad_def cadence_of_def
  have "reach hra_init hra_step h0" unfolding h0_def by (rule demo_hra_init) simp
  then have "reach hra_init hra_step h1" unfolding h1_def by (rule reach_step) (rule hra_step.publish)
  then have "reach hra_init hra_step h2"
    unfolding h2_def by (rule reach_step) (rule hra_step.receive, simp_all add: defs)
  then have "reach hra_init hra_step h3"
    unfolding h3_def by (rule reach_step) (rule hra_step.ticker, simp_all add: defs)
  then have "reach hra_init hra_step h4" unfolding h4_def by (rule reach_step) (rule hra_step.publish)
  then have "reach hra_init hra_step h5"
    unfolding h5_def by (rule reach_step) (rule hra_step.time_passes, simp)
  then have r6: "reach hra_init hra_step h6" unfolding h6_def by (rule reach_step) (rule hra_step.boundary)
  have h6: "\<not> stopped h6" "0 < cadence_of h6 ?L" "tick h6 ?L = Some (unix_epoch + 10)"
    "buf h6 ?L = [demo_rec 5 ''ack'']" "lastArchAt h6 = unix_epoch + 11"
    by (simp_all add: h6_def OnPhaseBoundary_def Let_def arch_frame log_event_def defs)
  let ?h7 = "loop_tick id (h6\<lparr>tick := (tick h6)(?L := None)\<rparr>) ?L (unix_epoch + 10)"
  have "hra_step h6 ?h7" by (rule hra_step.fire [OF h6(1,2,3)]) simp
  then have "reach hra_init hra_step ?h7" by (rule reach_step [OF r6])
  moreover have "panicked ?h7"
    using h6 by (simp add: loop_tick_def runArchitecturalReview_def Let_def aggregateArchitectural_def
        WindowOf_def unix_epoch_def)
  ultimately show ?thesis by blast
qed

definition calm_inv :: "HRACoordinator \<Rightarrow> bool" where
  "calm_inv h \<longleftrightarrow> \<not> panicked h \<and> 0 \<le> cad_Tactical (cadence h) \<and> 0 \<le> cad_Strategic (cadence h)
     \<and> cad_Architectural (cadence h) = 0 \<and> lastArchAt h \<le> hra_clock h"

lemma WindowOf_Some: "since \<le> until \<Longrightarrow> \<exists>rs. WindowOf es since until = Some rs"
  by (simp add: WindowOf_def)

lemma calm_reviews:
  assumes "calm_inv h"
  shows "calm_inv (runTacticalReview shuffle h t es)" "calm_inv (runStrategicReview h t es)"
    "t = hra_clock h \<Longrightarrow> calm_inv (runArchitecturalReview h t es)"
  using assms
  by (auto simp: calm_inv_def runTacticalReview_def runStrategicReview_def runArchitecturalReview_def
      aggregateTactical_def aggregateStrategic_def aggregateArchitectural_def WindowOf_def
      Let_def log_event_def handle_h_def split: option.splits)

lemma calm_step: "calm_inv h \<Longrightarrow> hra_step h h' \<Longrightarrow> calm_inv h'"
proof (erule hra_step.cases, goal_cases)
  case (5 h layer fireAt shuffle)
  let ?h = "h\<lparr>tick := (tick h)(layer := None)\<rparr>"
  have c: "calm_inv ?h" using 5 by (simp add: calm_inv_def)
  have "layer \<noteq> LayerArchitectural" using 5 by (auto simp: cadence_of_def calm_inv_def)
  then show ?case using 5 c calm_reviews(1) [OF c, of shuffle fireAt] calm_reviews(2) [OF c, of fireAt]
    by (auto simp: loop_tick_def calm_inv_def Let_def split: Layer.splits)
next
  case (6 h phaseID)
  let ?h = "log_event h (EvtPhaseBoundaryRecorded (hra_clock h) phaseID)"
  have "calm_inv (?h\<lparr>chan := (chan ?h)(LayerArchitectural := [])\<rparr>)"
    using 6 by (simp add: calm_inv_def log_event_def)
  from calm_reviews(3) [OF this] 6 show ?case
    by (auto simp: OnPhaseBoundary_def Let_def log_event_def)
next
  case (7 shuffle h layer h')
  have "calm_inv (h\<lparr>chan := (chan h)(layer := [])\<rparr>)" using 7 by (simp add: calm_inv_def)
  from calm_reviews [OF this] 7 show ?case
    by (auto simp: Tick_def Let_def split: if_splits Layer.splits)
qed (auto simp: calm_inv_def)

lemma calm_init: "hra_init h \<Longrightarrow> cad_Architectural (cadence h) = 0 \<Longrightarrow> calm_inv h"
  by (auto simp: hra_init_def calm_inv_def)

interpretation calm: safety "\<lambda>h. hra_init h \<and> cad_Architectural (cadence h) = 0" hra_step calm_inv
  by unfold_locales (auto intro: calm_init calm_step)

text \<open>Under the doctrines without an architectural cadence (\<open>default\<close> and \<open>capa-firewall\<close>)
  the coordinator never panics, whatever the interleaving of clock, events, ticks, manual reviews
  and stage boundaries.\<close>

lemma coordinator_without_architectural_loop_never_panics:
  assumes "reach (\<lambda>h. hra_init h \<and> cad_Architectural (cadence h) = 0) hra_step h"
  shows "\<not> panicked h"
  using calm.reach_inv [OF assms] by (simp add: calm_inv_def)

text \<open>A tactical tick over a non-empty buffer appends one aggregation row that counts exactly
  the buffered records stamped in the half-open window before the fire time, appends one
  escalation row exactly when acknowledgements and fix requests in that window tie at a positive
  number, and empties the buffer. Records stamped at or after the fire time are thereby dropped:
  they are counted neither now nor by any later tick.\<close>

lemma tactical_tick_counts_window:
  fixes fireAt :: time and shuffle :: "string list \<Rightarrow> string list"
  assumes "0 < cad_Tactical (cadence h)" and "buf h LayerTactical \<noteq> []"
  defines "inside \<equiv> filter (\<lambda>r. UnixNano (fireAt - cad_Tactical (cadence h)) \<le> rec_Timestamp r
      \<and> rec_Timestamp r < UnixNano fireAt) (buf h LayerTactical)"
  defines "h' \<equiv> loop_tick shuffle h LayerTactical fireAt"
  shows "buf h' LayerTactical = []
    \<and> (\<exists>f. EventCount f = int (length inside)
        \<and> Split f = (verdict_count ''ack'' inside, verdict_count ''needs_fix'' inside)
        \<and> (Disagreement f \<longleftrightarrow> verdict_count ''ack'' inside = verdict_count ''needs_fix'' inside
             \<and> verdict_count ''ack'' inside \<noteq> 0)
        \<and> esc_log (escalator h') = esc_log (escalator h) @
             [EvtTacticalAggregation fireAt f (Unix (fireAt - cad_Tactical (cadence h))) (Unix fireAt)]
             @ (if Disagreement f then [EvtEscalationDecision (hra_clock h) ''tactical'' ''strategic''
                  ''tactical_disagreement'' f] else []))"
proof -
  let ?since = "fireAt - cad_Tactical (cadence h)"
  let ?f = "classify ((base_finding LayerTactical inside)\<lparr>FixProposals :=
      shuffle (remdups (fix_texts ''proposal'' inside))\<rparr>)
      (verdict_count ''ack'' inside) (verdict_count ''needs_fix'' inside)"
  have "aggregateTactical shuffle (buf h LayerTactical) ?since fireAt = Some ?f"
    using assms(1) by (simp add: aggregateTactical_def WindowOf_def inside_def)
  then have "esc_log (escalator h') = esc_log (escalator h) @
      [EvtTacticalAggregation fireAt ?f (Unix ?since) (Unix fireAt)]
      @ (if Disagreement ?f then [EvtEscalationDecision (hra_clock h) ''tactical'' ''strategic''
           ''tactical_disagreement'' ?f] else [])"
    using assms(1,2)
    by (simp add: h'_def loop_tick_def runTacticalReview_def Let_def log_event_def handle_h_def
        HandleDisagreement_def routeEscalation_def)
  moreover have "EventCount ?f = int (length inside)"
    "Split ?f = (verdict_count ''ack'' inside, verdict_count ''needs_fix'' inside)"
    "Disagreement ?f \<longleftrightarrow> verdict_count ''ack'' inside = verdict_count ''needs_fix'' inside
       \<and> verdict_count ''ack'' inside \<noteq> 0"
    by (auto simp: classify_def base_finding_def)
  moreover have "buf h' LayerTactical = []" by (simp add: h'_def loop_tick_def Let_def)
  ultimately show ?thesis by blast
qed

end
