(* ===== verification/Pool.thy ===== *)
theory Pool
  imports Hades_Prelude
begin

text \<open>
  The worktree pool of \<^verbatim>\<open>src/internal/orchestrator/worktreepool\<close> (pool.go,
  prewarm.go): concurrent lease, release, prewarm and close.

  Every critical section under the pool's mutex, and every atomic counter update outside it, is one
  definition on the pool state; \<open>pool_step\<close> interleaves them arbitrarily. The fields below
  \<open>closed\<close> that have no counterpart in the Go struct record where the goroutines are between two
  critical sections: reservations whose spawn has not yet an id, spawned worktrees not yet
  published, worktrees being reset, worktrees taken by the close-time drain, leases blocked on the
  signal channel, leases woken from it, and signals not yet sent. The git subprocesses may succeed
  or fail at each call. A worktree is its id; its branch and directory names are functions of it.
\<close>

subsection \<open>Configuration\<close>

record PoolConfig =
  RepoRoot :: string
  WorktreeDir :: string
  BranchBase :: string
  Floor :: int
  ElasticMax :: int
  GCCadence :: duration
  pc_Doctrine :: string
  PoolID :: string

datatype config_error =
    RepoRootEmpty | WorktreeDirEmpty | RepoRootNotAbs | WorktreeDirNotAbs | BranchBaseEmpty
  | FloorNotPositive | ElasticBelowFloor | ElasticTooLarge | CadenceNegative | CadenceTooSmall
  | UnknownDoctrine

definition minGCCadence :: duration where "minGCCadence = second"
definition maxElasticMax :: int where "maxElasticMax = 1024"

definition IsAbs :: "string \<Rightarrow> bool" where
  "IsAbs p \<longleftrightarrow> p \<noteq> [] \<and> hd p = CHR ''/''"

definition validate :: "PoolConfig \<Rightarrow> config_error option" where
  "validate c =
     (if RepoRoot c = '''' then Some RepoRootEmpty
      else if WorktreeDir c = '''' then Some WorktreeDirEmpty
      else if \<not> IsAbs (RepoRoot c) then Some RepoRootNotAbs
      else if \<not> IsAbs (WorktreeDir c) then Some WorktreeDirNotAbs
      else if BranchBase c = '''' then Some BranchBaseEmpty
      else if Floor c \<le> 0 then Some FloorNotPositive
      else if ElasticMax c < Floor c then Some ElasticBelowFloor
      else if ElasticMax c > maxElasticMax then Some ElasticTooLarge
      else if GCCadence c < 0 then Some CadenceNegative
      else if GCCadence c > 0 \<and> GCCadence c < minGCCadence then Some CadenceTooSmall
      else if pc_Doctrine c \<in> {'''', ''max-scope'', ''default'', ''capa-firewall''} then None
      else Some UnknownDoctrine)"

datatype spawn_error = errClassENOSPC | errClassWorktreeLocked | errClassNetwork | errClassSignal | errOther

definition degradedReason :: "spawn_error \<Rightarrow> string" where
  "degradedReason e =
     (case e of
        errClassENOSPC \<Rightarrow> ''ENOSPC''
      | errClassWorktreeLocked \<Rightarrow> ''WorktreeLocked''
      | errClassNetwork \<Rightarrow> ''Network''
      | errClassSignal \<Rightarrow> ''Signal''
      | errOther \<Rightarrow> ''Unknown'')"

definition is_degraded :: "spawn_error \<Rightarrow> bool" where
  "is_degraded e \<longleftrightarrow> e \<noteq> errOther"

definition exhaustEmitDebounce :: duration where "exhaustEmitDebounce = 100 * 1000000"

subsection \<open>State\<close>

datatype pool_event = EvtWorktreePoolExhausted time | EvtWorktreePoolDegraded string

record concretePool =
  cfg :: PoolConfig
  warm :: "int list"
  leased :: "int set"
  nextID :: int
  total :: int
  lastExhaustedAt :: time
  signalSlot :: nat
  closed :: bool
  pool_log :: "pool_event list"
  pool_clock :: time
  reserved_lease :: nat
  reserved_prewarm :: nat
  inflight_lease :: "int set"
  inflight_prewarm :: "int set"
  releasing :: "int set"
  draining :: "int list"
  waiting :: nat
  retrying :: nat
  unsent :: nat

definition NewPool :: "PoolConfig \<Rightarrow> time \<Rightarrow> config_error + concretePool" where
  "NewPool c now =
     (case validate c of
        Some e \<Rightarrow> Inl e
      | None \<Rightarrow>
          Inr \<lparr>cfg = c\<lparr>PoolID := (if PoolID c = '''' then ''p'' else PoolID c),
                       GCCadence := (if GCCadence c = 0 then 5 * minute else GCCadence c)\<rparr>,
               warm = [], leased = {}, nextID = 0, total = 0, lastExhaustedAt = 0, signalSlot = 0,
               closed = False, pool_log = [], pool_clock = now, reserved_lease = 0,
               reserved_prewarm = 0, inflight_lease = {}, inflight_prewarm = {}, releasing = {},
               draining = [], waiting = 0, retrying = 0, unsent = 0\<rparr>)"

definition branch_name :: "concretePool \<Rightarrow> int \<Rightarrow> string" where
  "branch_name p i = ''hades-pool-'' @ PoolID (cfg p) @ ''-'' @ dec_int i"

definition dir_name :: "concretePool \<Rightarrow> int \<Rightarrow> string" where
  "dir_name p i = PoolID (cfg p) @ ''-'' @ dec_int i"

subsection \<open>Critical sections\<close>

text \<open>The warm fast path of \<open>Lease\<close>, also the first part of the slow path; \<open>None\<close> when there is no
  warm worktree or the pool is closed.\<close>

definition take_warm :: "concretePool \<Rightarrow> (int \<times> concretePool) option" where
  "take_warm p =
     (if closed p \<or> warm p = [] then None
      else Some (last (warm p),
             p\<lparr>warm := butlast (warm p), leased := insert (last (warm p)) (leased p)\<rparr>))"

datatype slow_result = Closed | Got int | Reserved | MustWait

text \<open>One turn of the slow path under the mutex: take a warm worktree, reserve a slot below the
  ceiling, or register to wait, with the debounced exhaustion event.\<close>

definition leaseSlowPath_turn :: "concretePool \<Rightarrow> slow_result \<times> concretePool" where
  "leaseSlowPath_turn p =
     (if closed p then (Closed, p)
      else case take_warm p of
        Some (w, p') \<Rightarrow> (Got w, p')
      | None \<Rightarrow>
          (if total p < ElasticMax (cfg p)
           then (Reserved, p\<lparr>total := total p + 1, reserved_lease := reserved_lease p + 1\<rparr>)
           else
             (let now = pool_clock p;
                  shouldEmit = tsub now (lastExhaustedAt p) \<ge> exhaustEmitDebounce;
                  p1 = (if shouldEmit
                        then p\<lparr>lastExhaustedAt := now,
                               pool_log := pool_log p @ [EvtWorktreePoolExhausted now]\<rparr> else p)
              in (MustWait, p1\<lparr>waiting := waiting p + 1\<rparr>))))"

text \<open>\<open>spawnOne\<close>: the id is allocated first, then git runs.\<close>

definition spawn_start :: "concretePool \<Rightarrow> bool \<Rightarrow> concretePool" where
  "spawn_start p prewarm =
     (let i = nextID p + 1 in
      if prewarm
      then p\<lparr>nextID := i, reserved_prewarm := reserved_prewarm p - 1,
             inflight_prewarm := insert i (inflight_prewarm p)\<rparr>
      else p\<lparr>nextID := i, reserved_lease := reserved_lease p - 1,
             inflight_lease := insert i (inflight_lease p)\<rparr>)"

definition spawn_failed :: "concretePool \<Rightarrow> int \<Rightarrow> spawn_error \<Rightarrow> concretePool" where
  "spawn_failed p i e =
     p\<lparr>total := total p - 1, inflight_lease := inflight_lease p - {i},
       inflight_prewarm := inflight_prewarm p - {i},
       pool_log := pool_log p @ (if is_degraded e then [EvtWorktreePoolDegraded (degradedReason e)] else [])\<rparr>"

definition lease_publish :: "concretePool \<Rightarrow> int \<Rightarrow> concretePool \<times> bool" where
  "lease_publish p i =
     (let p1 = p\<lparr>inflight_lease := inflight_lease p - {i}\<rparr> in
      if closed p then (p1\<lparr>total := total p - 1\<rparr>, False)
      else (p1\<lparr>leased := insert i (leased p)\<rparr>, True))"

definition warmShouldSpawn :: "concretePool \<Rightarrow> concretePool \<times> bool" where
  "warmShouldSpawn p =
     (if closed p then (p, False)
      else if int (length (warm p)) \<ge> Floor (cfg p) then (p, False)
      else if total p \<ge> ElasticMax (cfg p) then (p, False)
      else (p\<lparr>total := total p + 1, reserved_prewarm := reserved_prewarm p + 1\<rparr>, True))"

definition appendWarmAndSignal :: "concretePool \<Rightarrow> int \<Rightarrow> concretePool" where
  "appendWarmAndSignal p i =
     (let p1 = p\<lparr>inflight_prewarm := inflight_prewarm p - {i}\<rparr> in
      if closed p then p1\<lparr>total := total p - 1\<rparr>
      else p1\<lparr>warm := warm p @ [i], unsent := unsent p + 1\<rparr>)"

text \<open>The first section of \<open>Release\<close>; \<open>None\<close> for a closed pool or a worktree that is not leased.\<close>

definition release_begin :: "concretePool \<Rightarrow> int \<Rightarrow> concretePool option" where
  "release_begin p i =
     (if closed p then None
      else if i \<notin> leased p then None
      else Some (p\<lparr>leased := leased p - {i}, releasing := insert i (releasing p)\<rparr>))"

text \<open>After a successful reset and clean.\<close>

definition release_end :: "concretePool \<Rightarrow> int \<Rightarrow> concretePool" where
  "release_end p i =
     (let p1 = p\<lparr>releasing := releasing p - {i}\<rparr> in
      if closed p then p1
      else p1\<lparr>warm := warm p @ [i], unsent := unsent p + 1\<rparr>)"

definition destroyWorktree :: "concretePool \<Rightarrow> int \<Rightarrow> concretePool" where
  "destroyWorktree p i =
     p\<lparr>releasing := releasing p - {i}, total := total p - 1, unsent := unsent p + 1,
       pool_log := pool_log p @ [EvtWorktreePoolDegraded ''release-destroyed'']\<rparr>"

text \<open>The non-blocking send on the buffered channel, of capacity \<open>ElasticMax\<close>.\<close>

definition send_signal :: "concretePool \<Rightarrow> concretePool" where
  "send_signal p =
     p\<lparr>unsent := unsent p - 1,
       signalSlot := (if int (signalSlot p) < ElasticMax (cfg p) then signalSlot p + 1 else signalSlot p)\<rparr>"

definition close_begin :: "concretePool \<Rightarrow> concretePool" where
  "close_begin p = p\<lparr>closed := True\<rparr>"

definition close_clear :: "concretePool \<Rightarrow> concretePool" where
  "close_clear p = p\<lparr>warm := [], leased := {}\<rparr>"

definition drainWarmOnClose :: "concretePool \<Rightarrow> concretePool" where
  "drainWarmOnClose p = p\<lparr>warm := [], draining := draining p @ warm p\<rparr>"

definition drain_one :: "concretePool \<Rightarrow> concretePool" where
  "drain_one p = p\<lparr>draining := tl (draining p), total := total p - 1\<rparr>"

subsection \<open>Interleavings\<close>

inductive pool_step :: "concretePool \<Rightarrow> concretePool \<Rightarrow> bool" where
  clock: "pool_clock p \<le> t \<Longrightarrow> pool_step p (p\<lparr>pool_clock := t\<rparr>)"
| lease_fast: "take_warm p = Some (w, p') \<Longrightarrow> pool_step p p'"
| lease_slow: "pool_step p (snd (leaseSlowPath_turn p))"
| lease_again: "0 < retrying p \<Longrightarrow>
     pool_step p (snd (leaseSlowPath_turn (p\<lparr>retrying := retrying p - 1\<rparr>)))"
| wake: "0 < waiting p \<Longrightarrow> 0 < signalSlot p \<Longrightarrow>
     pool_step p (p\<lparr>waiting := waiting p - 1, signalSlot := signalSlot p - 1, retrying := retrying p + 1\<rparr>)"
| ctx_done: "0 < waiting p \<Longrightarrow> pool_step p (p\<lparr>waiting := waiting p - 1\<rparr>)"
| start_lease: "0 < reserved_lease p \<Longrightarrow> pool_step p (spawn_start p False)"
| start_prewarm: "0 < reserved_prewarm p \<Longrightarrow> pool_step p (spawn_start p True)"
| fail: "i \<in> inflight_lease p \<union> inflight_prewarm p \<Longrightarrow> pool_step p (spawn_failed p i e)"
| publish: "i \<in> inflight_lease p \<Longrightarrow> pool_step p (fst (lease_publish p i))"
| prewarm: "pool_step p (fst (warmShouldSpawn p))"
| prewarmed: "i \<in> inflight_prewarm p \<Longrightarrow> pool_step p (appendWarmAndSignal p i)"
| release: "release_begin p i = Some p' \<Longrightarrow> pool_step p p'"
| released: "i \<in> releasing p \<Longrightarrow> pool_step p (release_end p i)"
| destroyed: "i \<in> releasing p \<Longrightarrow> pool_step p (destroyWorktree p i)"
| signal: "0 < unsent p \<Longrightarrow> pool_step p (send_signal p)"
| close1: "pool_step p (close_begin p)"
| close2: "closed p \<Longrightarrow> pool_step p (close_clear p)"
| drain: "closed p \<Longrightarrow> pool_step p (drainWarmOnClose p)"
| drain1: "draining p \<noteq> [] \<Longrightarrow> pool_step p (drain_one p)"

definition pool_init :: "concretePool \<Rightarrow> bool" where
  "pool_init p \<longleftrightarrow> (\<exists>c now. NewPool c now = Inr p)"

subsection \<open>Invariant\<close>

text \<open>All worktrees the pool accounts for, as a multiset of ids.\<close>

definition live_ids :: "concretePool \<Rightarrow> int multiset" where
  "live_ids p = mset (warm p) + mset_set (leased p) + mset_set (inflight_lease p)
     + mset_set (inflight_prewarm p) + mset_set (releasing p)"

definition in_use :: "concretePool \<Rightarrow> nat" where
  "in_use p = size (live_ids p) + reserved_lease p + reserved_prewarm p + length (draining p)"

definition fin_sets :: "concretePool \<Rightarrow> bool" where
  "fin_sets p \<longleftrightarrow> finite (leased p) \<and> finite (inflight_lease p) \<and> finite (inflight_prewarm p)
     \<and> finite (releasing p)"

definition pool_inv :: "concretePool \<Rightarrow> bool" where
  "pool_inv p \<longleftrightarrow> fin_sets p
     \<and> live_ids p \<subseteq># mset_set {1..nextID p} \<and> 0 \<le> nextID p
     \<and> int (in_use p) \<le> total p \<and> total p \<le> ElasticMax (cfg p)
     \<and> (\<not> closed p \<longrightarrow> int (in_use p) = total p)
     \<and> (\<not> closed p \<longrightarrow> 0 < waiting p \<longrightarrow> length (warm p) \<le> signalSlot p + unsent p + retrying p)"

lemma live_ids_frame [simp]:
  "live_ids (p\<lparr>retrying := x0\<rparr>) = live_ids p" "in_use (p\<lparr>retrying := x0\<rparr>) = in_use p"
  "fin_sets (p\<lparr>retrying := x0\<rparr>) = fin_sets p"
  "live_ids (p\<lparr>waiting := x1\<rparr>) = live_ids p" "in_use (p\<lparr>waiting := x1\<rparr>) = in_use p"
  "fin_sets (p\<lparr>waiting := x1\<rparr>) = fin_sets p"
  "live_ids (p\<lparr>unsent := x2\<rparr>) = live_ids p" "in_use (p\<lparr>unsent := x2\<rparr>) = in_use p"
  "fin_sets (p\<lparr>unsent := x2\<rparr>) = fin_sets p"
  "live_ids (p\<lparr>signalSlot := x3\<rparr>) = live_ids p" "in_use (p\<lparr>signalSlot := x3\<rparr>) = in_use p"
  "fin_sets (p\<lparr>signalSlot := x3\<rparr>) = fin_sets p"
  "live_ids (p\<lparr>pool_clock := x4\<rparr>) = live_ids p" "in_use (p\<lparr>pool_clock := x4\<rparr>) = in_use p"
  "fin_sets (p\<lparr>pool_clock := x4\<rparr>) = fin_sets p"
  "live_ids (p\<lparr>pool_log := x5\<rparr>) = live_ids p" "in_use (p\<lparr>pool_log := x5\<rparr>) = in_use p"
  "fin_sets (p\<lparr>pool_log := x5\<rparr>) = fin_sets p"
  "live_ids (p\<lparr>lastExhaustedAt := x6\<rparr>) = live_ids p" "in_use (p\<lparr>lastExhaustedAt := x6\<rparr>) = in_use p"
  "fin_sets (p\<lparr>lastExhaustedAt := x6\<rparr>) = fin_sets p"
  "live_ids (p\<lparr>closed := x7\<rparr>) = live_ids p" "in_use (p\<lparr>closed := x7\<rparr>) = in_use p"
  "fin_sets (p\<lparr>closed := x7\<rparr>) = fin_sets p"
  "live_ids (p\<lparr>total := x8\<rparr>) = live_ids p" "in_use (p\<lparr>total := x8\<rparr>) = in_use p"
  "fin_sets (p\<lparr>total := x8\<rparr>) = fin_sets p"
  by (simp_all add: live_ids_def in_use_def fin_sets_def)

lemma pool_inv_unique: "pool_inv p \<Longrightarrow> count (live_ids p) i \<le> 1"
proof -
  assume "pool_inv p"
  then have "count (live_ids p) i \<le> count (mset_set {1..nextID p}) i"
    by (auto simp: pool_inv_def intro: mset_subset_eq_count)
  also have "\<dots> \<le> 1" by (simp add: count_mset_set')
  finally show ?thesis .
qed

lemma mset_set_insert_fresh: "finite A \<Longrightarrow> i \<notin> A \<Longrightarrow> mset_set (insert i A) = add_mset i (mset_set A)"
  by simp

lemma mset_set_take: "finite A \<Longrightarrow> i \<in> A \<Longrightarrow> mset_set A = add_mset i (mset_set (A - {i}))"
  by (rule mset_set.remove)

lemma take_warm_live:
  assumes "pool_inv p" and "take_warm p = Some (w, p')"
  shows "live_ids p' = live_ids p" and "w \<notin> leased p" and "w \<in> set (warm p)"
    and "p' = p\<lparr>warm := butlast (warm p), leased := insert w (leased p)\<rparr>"
    and "\<not> closed p"
proof -
  from assms(2) have ne: "warm p \<noteq> []" and w: "w = last (warm p)"
    and p': "p' = p\<lparr>warm := butlast (warm p), leased := insert w (leased p)\<rparr>" and nc: "\<not> closed p"
    by (auto simp: take_warm_def split: if_splits)
  have split: "mset (warm p) = add_mset w (mset (butlast (warm p)))"
    using append_butlast_last_id [OF ne] w by (metis mset.simps(2) mset_append add.commute
        add_mset_add_single mset.simps(1))
  show wl: "w \<notin> leased p"
  proof
    assume "w \<in> leased p"
    then have "1 \<le> count (mset_set (leased p)) w"
      using assms(1) by (simp add: pool_inv_def fin_sets_def)
    moreover have "1 \<le> count (mset (warm p)) w" using split by simp
    ultimately have "2 \<le> count (live_ids p) w" unfolding live_ids_def count_union by linarith
    with pool_inv_unique [OF assms(1), of w] show False by simp
  qed
  show "live_ids p' = live_ids p"
    using assms(1) wl split by (simp add: p' live_ids_def pool_inv_def fin_sets_def)
  show "w \<in> set (warm p)" using ne w by simp
  show "p' = p\<lparr>warm := butlast (warm p), leased := insert w (leased p)\<rparr>" by (rule p')

  show "\<not> closed p" by (rule nc)
qed

lemma pool_inv_take_warm:
  assumes "pool_inv p" and "take_warm p = Some (w, p')"
  shows "pool_inv p'"
proof -
  note t = take_warm_live [OF assms]
  have "in_use p' = in_use p" using t(1) t(4) by (simp add: in_use_def)
  moreover have "length (butlast (warm p)) \<le> length (warm p)" by simp
  ultimately show ?thesis using assms(1) t(1,4) by (auto simp: pool_inv_def fin_sets_def)
qed

lemma pool_inv_turn:
  assumes "pool_inv p"
  shows "pool_inv (snd (leaseSlowPath_turn p))"
proof (cases "closed p")
  case True
  with assms show ?thesis by (simp add: leaseSlowPath_turn_def)
next
  case open_p: False
  show ?thesis
  proof (cases "take_warm p")
    case (Some wp)
    then show ?thesis using assms open_p pool_inv_take_warm [of p "fst wp" "snd wp"]
      by (cases wp) (simp add: leaseSlowPath_turn_def)
  next
    case None
    then have "warm p = []" using open_p by (simp add: take_warm_def split: if_splits)
    then show ?thesis using assms None open_p
      by (auto simp: leaseSlowPath_turn_def pool_inv_def in_use_def live_ids_def fin_sets_def Let_def)
  qed
qed

lemma pool_inv_retry:
  assumes "pool_inv p" and "0 < retrying p"
  shows "pool_inv (snd (leaseSlowPath_turn (p\<lparr>retrying := retrying p - 1\<rparr>)))"
proof -
  let ?p = "p\<lparr>retrying := retrying p - 1\<rparr>"
  show ?thesis
  proof (cases "take_warm ?p")
    case None
    then have "warm p = [] \<or> closed p" by (auto simp: take_warm_def split: if_splits)
    then have "pool_inv ?p" using assms(1) by (auto simp: pool_inv_def)
    then show ?thesis by (rule pool_inv_turn)
  next
    case (Some wp)
    obtain w p' where wp: "wp = (w, p')" by (cases wp)
    have "take_warm p = Some (w, p'\<lparr>retrying := retrying p\<rparr>)"
      using Some wp by (auto simp: take_warm_def split: if_splits)
    note t = take_warm_live [OF assms(1) this]
    have p': "p' = ?p\<lparr>warm := butlast (warm p), leased := insert w (leased p)\<rparr>"
      and nc: "\<not> closed p" and ne: "warm p \<noteq> []"
      using Some wp by (auto simp: take_warm_def split: if_splits)
    have "live_ids p' = live_ids p" "in_use p' = in_use p"
      using t(1) by (simp_all add: p' live_ids_def in_use_def)
    then have "pool_inv p'" using assms ne by (auto simp: pool_inv_def p' fin_sets_def)
    then show ?thesis using Some wp nc by (simp add: leaseSlowPath_turn_def)
  qed
qed

lemma mset_set_atLeast_Suc:
  "0 \<le> (n :: int) \<Longrightarrow> mset_set {1..n + 1} = add_mset (n + 1) (mset_set {1..n})"
proof -
  assume "0 \<le> n"
  then have "{1..n + 1} = insert (n + 1) {1..n}" by auto
  then show ?thesis by simp
qed

lemma live_bound: "pool_inv p \<Longrightarrow> i \<in># live_ids p \<Longrightarrow> 1 \<le> i \<and> i \<le> nextID p"
  by (auto simp: pool_inv_def dest!: mset_subset_eqD)

lemma pool_inv_spawn_start:
  assumes "pool_inv p" and "if pre then 0 < reserved_prewarm p else 0 < reserved_lease p"
  shows "pool_inv (spawn_start p pre)"
proof -
  let ?i = "nextID p + 1"
  have fresh: "?i \<notin># live_ids p" using live_bound [OF assms(1)] by fastforce
  then have "?i \<notin> inflight_lease p" "?i \<notin> inflight_prewarm p"
    using assms(1) by (auto simp: live_ids_def pool_inv_def fin_sets_def)
  then have "live_ids (spawn_start p pre) = add_mset ?i (live_ids p)"
    using assms(1) by (auto simp: spawn_start_def live_ids_def pool_inv_def fin_sets_def Let_def)
  moreover from this have "in_use (spawn_start p pre) = in_use p"
    using assms(2) by (auto simp: in_use_def spawn_start_def Let_def split: if_splits)
  moreover have "live_ids p \<subseteq># mset_set {1..nextID p}" "0 \<le> nextID p"
    using assms(1) by (auto simp: pool_inv_def)
  ultimately show ?thesis using assms(1) mset_set_atLeast_Suc [of "nextID p"]
    by (auto simp: pool_inv_def fin_sets_def spawn_start_def Let_def)
qed

lemma count_two: "finite A \<Longrightarrow> finite B \<Longrightarrow> i \<in> A \<Longrightarrow> i \<in> B \<Longrightarrow>
    count (mset_set A + mset_set B) i = 2"
  by simp

lemma live_disjoint:
  assumes "pool_inv p" and "i \<in># live_ids p"
  shows "(i \<in> set (warm p) \<longrightarrow> i \<notin> leased p \<and> i \<notin> inflight_lease p \<and> i \<notin> inflight_prewarm p \<and> i \<notin> releasing p)
    \<and> (i \<in> leased p \<longrightarrow> i \<notin> inflight_lease p \<and> i \<notin> inflight_prewarm p \<and> i \<notin> releasing p)
    \<and> (i \<in> inflight_lease p \<longrightarrow> i \<notin> inflight_prewarm p \<and> i \<notin> releasing p)
    \<and> (i \<in> inflight_prewarm p \<longrightarrow> i \<notin> releasing p)"
proof -
  have f: "finite (leased p)" "finite (inflight_lease p)" "finite (inflight_prewarm p)"
    "finite (releasing p)" using assms(1) by (auto simp: pool_inv_def fin_sets_def)
  have le: "count (mset (warm p)) i + (if i \<in> leased p then 1 else 0)
      + (if i \<in> inflight_lease p then 1 else 0) + (if i \<in> inflight_prewarm p then 1 else 0)
      + (if i \<in> releasing p then 1 else 0) \<le> 1"
    using pool_inv_unique [OF assms(1), of i] f by (simp add: live_ids_def count_mset_set')
  have w: "i \<in> set (warm p) \<Longrightarrow> 1 \<le> count (mset (warm p)) i"
    by (metis One_nat_def Suc_leI count_greater_zero_iff set_mset_mset)
  show ?thesis using le w by (auto split: if_splits)
qed

lemma live_members:
  assumes "fin_sets p"
  shows "i \<in># live_ids p \<longleftrightarrow> i \<in> set (warm p) \<or> i \<in> leased p \<or> i \<in> inflight_lease p
    \<or> i \<in> inflight_prewarm p \<or> i \<in> releasing p"
  using assms by (auto simp: live_ids_def fin_sets_def)

lemma subset_remove: "add_mset i M \<subseteq># N \<Longrightarrow> M \<subseteq># N"
  by (meson mset_subset_eq_add_mset_cancel mset_subset_eq_insertD subset_mset.less_imp_le)

lemma pool_inv_drop:
  assumes "pool_inv p" and "live_ids p = add_mset i (live_ids p')"
    and "reserved_lease p' = reserved_lease p" "reserved_prewarm p' = reserved_prewarm p"
    and "draining p' = draining p" "fin_sets p'" "nextID p' = nextID p" "cfg p' = cfg p"
    and "total p' = total p - 1" "closed p' = closed p" "waiting p' = waiting p"
    and "warm p' = warm p" "signalSlot p' = signalSlot p" "unsent p \<le> unsent p'" "retrying p' = retrying p"
  shows "pool_inv p'"
proof -
  have "in_use p = Suc (in_use p')" using assms by (simp add: in_use_def)
  then show ?thesis using assms subset_remove [of i "live_ids p'"] by (auto simp: pool_inv_def)
qed

lemma pool_inv_move:
  assumes "pool_inv p" and "live_ids p' = live_ids p"
    and "reserved_lease p' = reserved_lease p" "reserved_prewarm p' = reserved_prewarm p"
    and "draining p' = draining p" "fin_sets p'" "nextID p' = nextID p" "cfg p' = cfg p"
    and "total p' = total p" "closed p' = closed p" "waiting p' = waiting p"
    and "signalSlot p' = signalSlot p" "retrying p' = retrying p"
    and "length (warm p') + unsent p \<le> length (warm p) + unsent p'" "unsent p \<le> unsent p'"
  shows "pool_inv p'"
proof -
  have "in_use p' = in_use p" using assms by (simp add: in_use_def)
  then show ?thesis using assms by (auto simp: pool_inv_def)
qed

lemma pool_inv_fail:
  assumes "pool_inv p" and "i \<in> inflight_lease p \<union> inflight_prewarm p"
  shows "pool_inv (spawn_failed p i e)"
proof (rule pool_inv_drop [OF assms(1)])
  have f: "fin_sets p" using assms(1) by (simp add: pool_inv_def)
  have "i \<in># live_ids p" using assms(2) live_members [OF f] by auto
  note d = live_disjoint [OF assms(1) this]
  show "live_ids p = add_mset i (live_ids (spawn_failed p i e))"
  proof (cases "i \<in> inflight_lease p")
    case True
    then have "inflight_prewarm p - {i} = inflight_prewarm p" using d by auto
    then show ?thesis using f mset_set_take [of "inflight_lease p" i] True
      by (simp add: spawn_failed_def live_ids_def fin_sets_def)
  next
    case False
    then have "inflight_lease p - {i} = inflight_lease p" by auto
    then show ?thesis using f mset_set_take [of "inflight_prewarm p" i] False assms(2)
      by (simp add: spawn_failed_def live_ids_def fin_sets_def)
  qed
  show "fin_sets (spawn_failed p i e)" using f by (simp add: spawn_failed_def fin_sets_def)
qed (simp_all add: spawn_failed_def)

lemma pool_inv_publish:
  assumes "pool_inv p" and "i \<in> inflight_lease p"
  shows "pool_inv (fst (lease_publish p i))"
proof -
  have f: "fin_sets p" using assms(1) by (simp add: pool_inv_def)
  have "i \<in># live_ids p" using assms(2) live_members [OF f] by auto
  note d = live_disjoint [OF assms(1) this]
  have m: "mset_set (inflight_lease p) = add_mset i (mset_set (inflight_lease p - {i}))"
    using f assms(2) by (intro mset_set_take) (auto simp: fin_sets_def)
  show ?thesis
  proof (cases "closed p")
    case True
    show ?thesis
      by (rule pool_inv_drop [OF assms(1), of i])
        (use True f m in \<open>simp_all add: lease_publish_def live_ids_def fin_sets_def Let_def\<close>)
  next
    case False
    have "i \<notin> leased p" using d assms(2) by auto
    then show ?thesis
      by (intro pool_inv_move [OF assms(1)])
        (use False f m in \<open>simp_all add: lease_publish_def live_ids_def fin_sets_def Let_def\<close>)
  qed
qed

lemma pool_inv_prewarmed:
  assumes "pool_inv p" and "i \<in> inflight_prewarm p"
  shows "pool_inv (appendWarmAndSignal p i)"
proof -
  have f: "fin_sets p" using assms(1) by (simp add: pool_inv_def)
  have m: "mset_set (inflight_prewarm p) = add_mset i (mset_set (inflight_prewarm p - {i}))"
    using f assms(2) by (intro mset_set_take) (auto simp: fin_sets_def)
  show ?thesis
  proof (cases "closed p")
    case True
    show ?thesis
      by (rule pool_inv_drop [OF assms(1), of i])
        (use True f m in \<open>simp_all add: appendWarmAndSignal_def live_ids_def fin_sets_def Let_def\<close>)
  next
    case False
    show ?thesis
      by (intro pool_inv_move [OF assms(1)])
        (use False f m in \<open>simp_all add: appendWarmAndSignal_def live_ids_def fin_sets_def Let_def\<close>)
  qed
qed

lemma pool_inv_release:
  assumes "pool_inv p" and "release_begin p i = Some p'"
  shows "pool_inv p'"
proof -
  have f: "fin_sets p" using assms(1) by (simp add: pool_inv_def)
  from assms(2) have i: "i \<in> leased p"
    and p': "p' = p\<lparr>leased := leased p - {i}, releasing := insert i (releasing p)\<rparr>"
    by (auto simp: release_begin_def split: if_splits)
  have "i \<in># live_ids p" using i live_members [OF f] by auto
  with live_disjoint [OF assms(1)] i have "i \<notin> releasing p" by blast
  moreover have "mset_set (leased p) = add_mset i (mset_set (leased p - {i}))"
    using f i by (intro mset_set_take) (auto simp: fin_sets_def)
  ultimately show ?thesis
    by (intro pool_inv_move [OF assms(1)]) (use f in \<open>simp_all add: p' live_ids_def fin_sets_def\<close>)
qed

lemma pool_inv_released:
  assumes "pool_inv p" and "i \<in> releasing p"
  shows "pool_inv (release_end p i)" and "pool_inv (destroyWorktree p i)"
proof -
  have f: "fin_sets p" using assms(1) by (simp add: pool_inv_def)
  have m: "mset_set (releasing p) = add_mset i (mset_set (releasing p - {i}))"
    using f assms(2) by (intro mset_set_take) (auto simp: fin_sets_def)
  show "pool_inv (destroyWorktree p i)"
    by (rule pool_inv_drop [OF assms(1), of i])
      (use f m in \<open>simp_all add: destroyWorktree_def live_ids_def fin_sets_def\<close>)
  show "pool_inv (release_end p i)"
  proof (cases "closed p")
    case False
    then show ?thesis
      by (intro pool_inv_move [OF assms(1)])
        (use f m in \<open>simp_all add: release_end_def live_ids_def fin_sets_def Let_def\<close>)
  next
    case True
    have l: "live_ids p = add_mset i (live_ids (release_end p i))"
      using True m by (simp add: release_end_def live_ids_def Let_def)
    then have "in_use p = Suc (in_use (release_end p i))"
      using True by (simp add: in_use_def release_end_def)
    with True l assms(1) subset_remove [of i "live_ids (release_end p i)"] f show ?thesis
      by (auto simp: pool_inv_def release_end_def fin_sets_def)
  qed
qed

lemma pool_inv_signal:
  assumes "pool_inv p" and "0 < unsent p"
  shows "pool_inv (send_signal p)"
proof -
  have "length (warm p) \<le> in_use p" by (simp add: in_use_def live_ids_def)
  then have "int (length (warm p)) \<le> ElasticMax (cfg p)" using assms(1) by (auto simp: pool_inv_def)
  then show ?thesis using assms by (auto simp: pool_inv_def send_signal_def)
qed

lemma pool_inv_close:
  assumes "pool_inv p" and "closed p"
  shows "pool_inv (close_clear p)" and "pool_inv (drainWarmOnClose p)"
proof -
  have l: "live_ids p = mset (warm p) + live_ids (drainWarmOnClose p)"
    by (simp add: live_ids_def drainWarmOnClose_def)
  moreover have "in_use (drainWarmOnClose p) = in_use p"
    using l by (simp add: in_use_def drainWarmOnClose_def)
  ultimately show "pool_inv (drainWarmOnClose p)"
    using assms by (auto simp: pool_inv_def drainWarmOnClose_def fin_sets_def
        intro: subset_mset.order_trans [OF mset_subset_eq_add_right])
  have c: "live_ids p = mset (warm p) + mset_set (leased p) + live_ids (close_clear p)"
    by (simp add: live_ids_def close_clear_def)
  then have "in_use (close_clear p) \<le> in_use p" by (simp add: in_use_def close_clear_def)
  with c show "pool_inv (close_clear p)"
    using assms by (auto simp: pool_inv_def close_clear_def fin_sets_def
        intro: subset_mset.order_trans [OF mset_subset_eq_add_right])
qed

lemma pool_inv_local:
  assumes "pool_inv p"
  shows "pool_inv (p\<lparr>pool_clock := t\<rparr>)" "pool_inv (close_begin p)"
    "0 < waiting p \<Longrightarrow> pool_inv (p\<lparr>waiting := waiting p - 1\<rparr>)"
    "0 < waiting p \<Longrightarrow> 0 < signalSlot p \<Longrightarrow>
       pool_inv (p\<lparr>waiting := waiting p - 1, signalSlot := signalSlot p - 1, retrying := retrying p + 1\<rparr>)"
    "pool_inv (fst (warmShouldSpawn p))" "draining p \<noteq> [] \<Longrightarrow> pool_inv (drain_one p)"
proof -
  show "pool_inv (p\<lparr>pool_clock := t\<rparr>)" "pool_inv (close_begin p)"
    "0 < waiting p \<Longrightarrow> pool_inv (p\<lparr>waiting := waiting p - 1\<rparr>)"
    "0 < waiting p \<Longrightarrow> 0 < signalSlot p \<Longrightarrow>
       pool_inv (p\<lparr>waiting := waiting p - 1, signalSlot := signalSlot p - 1, retrying := retrying p + 1\<rparr>)"
    using assms by (auto simp: pool_inv_def close_begin_def)
  show "pool_inv (fst (warmShouldSpawn p))"
    using assms
    by (auto simp: warmShouldSpawn_def pool_inv_def in_use_def live_ids_def fin_sets_def)
  assume "draining p \<noteq> []"
  then have "in_use p = Suc (in_use (drain_one p))"
    by (cases "draining p") (auto simp: in_use_def drain_one_def live_ids_def)
  moreover have "live_ids (drain_one p) = live_ids p" by (simp add: drain_one_def live_ids_def)
  ultimately show "pool_inv (drain_one p)"
    using assms by (auto simp: pool_inv_def drain_one_def fin_sets_def)
qed

lemma pool_inv_step: "pool_inv p \<Longrightarrow> pool_step p p' \<Longrightarrow> pool_inv p'"
  by (erule pool_step.cases; hypsubst)
    (rule pool_inv_local(1) pool_inv_take_warm pool_inv_turn pool_inv_retry pool_inv_local(4)
      pool_inv_local(3) pool_inv_spawn_start pool_inv_fail pool_inv_publish pool_inv_local(5)
      pool_inv_prewarmed pool_inv_release pool_inv_released pool_inv_signal pool_inv_local(2)
      pool_inv_close pool_inv_local(6); simp; fail)+

lemma NewPool_InrD:
  assumes "NewPool c now = Inr p"
  shows "pool_inv p \<and> 0 < Floor (cfg p) \<and> Floor (cfg p) \<le> ElasticMax (cfg p)"
proof -
  from assms have v: "validate c = None" by (auto simp: NewPool_def split: option.splits)
  then have "0 < Floor c" "Floor c \<le> ElasticMax c"
    by (auto simp: validate_def split: if_splits)
  with v assms show ?thesis
    by (auto simp: NewPool_def pool_inv_def fin_sets_def live_ids_def in_use_def)
qed

interpretation pool: safety pool_init pool_step pool_inv
  by unfold_locales (auto simp: pool_init_def dest: NewPool_InrD intro: pool_inv_step)

subsection \<open>Properties\<close>

text \<open>C1: under every interleaving of leases, releases, prewarming, failing git calls and close,
  the pool never holds more worktrees than the elastic ceiling, the counter accounts for every
  worktree and reservation (exactly, while the pool is open), and no worktree is in two places:
  not warm twice, not warm and leased, not leased while it is being spawned or reset; distinct live
  worktrees have distinct branches and directories.\<close>

theorem pool_bounded_and_exclusive:
  assumes "reach pool_init pool_step p"
  shows "int (length (warm p) + card (leased p) + card (inflight_lease p) + card (inflight_prewarm p)
            + card (releasing p) + reserved_lease p + reserved_prewarm p) \<le> total p
    \<and> total p \<le> ElasticMax (cfg p)
    \<and> (\<not> closed p \<longrightarrow> int (length (warm p) + card (leased p) + card (inflight_lease p)
            + card (inflight_prewarm p) + card (releasing p) + reserved_lease p + reserved_prewarm p
            + length (draining p)) = total p)
    \<and> distinct (warm p) \<and> set (warm p) \<inter> leased p = {}
    \<and> (set (warm p) \<union> leased p) \<inter> (inflight_lease p \<union> inflight_prewarm p \<union> releasing p) = {}
    \<and> (\<forall>i j. i \<in># live_ids p \<longrightarrow> j \<in># live_ids p \<longrightarrow>
         branch_name p i = branch_name p j \<or> dir_name p i = dir_name p j \<longrightarrow> i = j)"
proof -
  have inv: "pool_inv p" by (rule pool.reach_inv [OF assms])
  then have f: "fin_sets p" by (simp add: pool_inv_def)
  have use_eq: "in_use p = length (warm p) + card (leased p) + card (inflight_lease p)
      + card (inflight_prewarm p) + card (releasing p) + reserved_lease p + reserved_prewarm p
      + length (draining p)"
    by (simp add: in_use_def live_ids_def)
  note d = live_disjoint [OF inv] and mem = live_members [OF f]
  have dw: "distinct (warm p)"
  proof -
    have "count (mset (warm p)) i \<le> 1" for i
      using pool_inv_unique [OF inv, of i] by (simp add: live_ids_def)
    then show ?thesis by (metis distinct_count_atmost_1 count_mset_0_iff le_SucE le_zero_eq One_nat_def)
  qed
  have names: "i = j" if "i \<in># live_ids p" "j \<in># live_ids p"
    "branch_name p i = branch_name p j \<or> dir_name p i = dir_name p j" for i j
    using that live_bound [OF inv, of i] live_bound [OF inv, of j]
    by (auto simp: branch_name_def dir_name_def intro: dec_int_inj)
  have "set (warm p) \<inter> leased p = {}" "(set (warm p) \<union> leased p)
      \<inter> (inflight_lease p \<union> inflight_prewarm p \<union> releasing p) = {}"
    using d mem by blast+
  with dw names inv use_eq show ?thesis by (auto simp: pool_inv_def)
qed

definition demo_cfg :: PoolConfig where
  "demo_cfg = \<lparr>RepoRoot = ''/r'', WorktreeDir = ''/w'', BranchBase = ''main'', Floor = 1, ElasticMax = 1,
     GCCadence = 0, pc_Doctrine = ''default'', PoolID = ''''\<rparr>"

definition demo_pool :: concretePool where
  "demo_pool = (case NewPool demo_cfg 5 of Inr p \<Rightarrow> p)"

lemma demo_pool_new: "NewPool demo_cfg 5 = Inr demo_pool"
  by (simp add: demo_pool_def NewPool_def validate_def demo_cfg_def IsAbs_def maxElasticMax_def)

lemma demo_pool_reach: "reach pool_init pool_step demo_pool"
  using demo_pool_new by (intro reach_init) (auto simp: pool_init_def)

definition demo_busy :: concretePool where
  "demo_busy = fst (lease_publish (spawn_start (snd (leaseSlowPath_turn demo_pool)) False) 1)"

lemma demo_pool_simps:
  "closed demo_pool = False" "warm demo_pool = []" "total demo_pool = 0" "ElasticMax (cfg demo_pool) = 1"
  "nextID demo_pool = 0" "reserved_lease demo_pool = 0" "inflight_lease demo_pool = {}"
  "lastExhaustedAt demo_pool = 0" "pool_clock demo_pool = 5" "waiting demo_pool = 0" "retrying demo_pool = 0"
  "leased demo_pool = {}" "unsent demo_pool = 0" "signalSlot demo_pool = 0" "pool_log demo_pool = []"
  by (simp_all add: demo_pool_def NewPool_def validate_def demo_cfg_def IsAbs_def maxElasticMax_def)

lemma demo_busy_reach: "reach pool_init pool_step demo_busy"
proof -
  have 1: "reach pool_init pool_step (snd (leaseSlowPath_turn demo_pool))"
    by (rule reach_step [OF demo_pool_reach]) (rule pool_step.lease_slow)
  have 2: "reach pool_init pool_step (spawn_start (snd (leaseSlowPath_turn demo_pool)) False)"
    by (rule reach_step [OF 1], rule pool_step.start_lease)
      (simp add: leaseSlowPath_turn_def take_warm_def demo_pool_simps)
  show ?thesis unfolding demo_busy_def
    by (rule reach_step [OF 2], rule pool_step.publish)
      (simp add: leaseSlowPath_turn_def take_warm_def demo_pool_simps spawn_start_def)
qed

lemma demo_busy_simps:
  "leased demo_busy = {1}" "total demo_busy = 1" "warm demo_busy = []" "closed demo_busy = False"
  "ElasticMax (cfg demo_busy) = 1" "waiting demo_busy = 0" "signalSlot demo_busy = 0" "unsent demo_busy = 0"
  "retrying demo_busy = 0" "pool_clock demo_busy = 5" "lastExhaustedAt demo_busy = 0"
  by (simp_all add: demo_busy_def lease_publish_def spawn_start_def leaseSlowPath_turn_def take_warm_def
      demo_pool_simps Let_def)

theorem pool_bounded_and_exclusive_witness:
  "leased demo_busy = {1} \<and> total demo_busy \<le> ElasticMax (cfg demo_busy) \<and> distinct (warm demo_busy)"
  using pool_bounded_and_exclusive [OF demo_busy_reach] by (simp add: demo_busy_simps)

text \<open>A worktree that a lease returns was leased to nobody, is leased afterwards, and can be
  released exactly once: releasing it starts its reset, and releasing again, or releasing a worktree
  that is not leased, is refused without any change.\<close>

lemma lease_release_once:
  assumes "reach pool_init pool_step p" and "take_warm p = Some (w, p')"
  shows "w \<notin> leased p \<and> w \<in> leased p' \<and> warm p = warm p' @ [w]
    \<and> (\<exists>p2. release_begin p' w = Some p2 \<and> w \<in> releasing p2 \<and> release_begin p2 w = None)
    \<and> (\<forall>i. i \<notin> leased p' \<longrightarrow> release_begin p' i = None)"
proof -
  note t = take_warm_live [OF pool.reach_inv [OF assms(1)] assms(2)]
  have "warm p = warm p' @ [w]" using assms(2) by (auto simp: take_warm_def split: if_splits)
  then show ?thesis using t by (auto simp: release_begin_def)
qed

lemma demo_warm_reach:
  "reach pool_init pool_step (release_end (the (release_begin demo_busy 1)) 1)
   \<and> take_warm (release_end (the (release_begin demo_busy 1)) 1) \<noteq> None"
proof -
  have "release_begin demo_busy 1 = Some (the (release_begin demo_busy 1))"
    by (simp add: release_begin_def demo_busy_simps)
  then have "pool_step demo_busy (the (release_begin demo_busy 1))" by (rule pool_step.release)
  from reach_step [OF demo_busy_reach this]
  have "reach pool_init pool_step (release_end (the (release_begin demo_busy 1)) 1)"
    by (rule reach_step, intro pool_step.released) (simp add: release_begin_def demo_busy_simps)
  then show ?thesis by (simp add: take_warm_def release_end_def release_begin_def demo_busy_simps)
qed

text \<open>No wake-up is lost for returned worktrees: while the pool is open and some lease is
  blocked, every warm worktree is matched by a token in the signal channel, a signal about to be
  sent or a lease already woken, so a blocked lease never sleeps past a free worktree.\<close>

lemma no_lost_wakeup:
  assumes "reach pool_init pool_step p" and "\<not> closed p" and "0 < waiting p"
  shows "length (warm p) \<le> signalSlot p + unsent p + retrying p"
  using pool.reach_inv [OF assms(1)] assms(2,3) by (simp add: pool_inv_def)

definition demo_wait :: concretePool where
  "demo_wait = snd (leaseSlowPath_turn demo_busy)"

lemma demo_wait_reach: "reach pool_init pool_step demo_wait"
  unfolding demo_wait_def by (rule reach_step [OF demo_busy_reach]) (rule pool_step.lease_slow)

lemma demo_wait_simps:
  "closed demo_wait = False" "waiting demo_wait = 1" "signalSlot demo_wait = 0" "unsent demo_wait = 0"
  "retrying demo_wait = 0" "warm demo_wait = []" "leased demo_wait = {1}"
  by (simp_all add: demo_wait_def leaseSlowPath_turn_def take_warm_def demo_busy_simps Let_def)

text \<open>Once closed with nothing left that could signal, no lease is ever woken.\<close>

definition silent :: "concretePool \<Rightarrow> bool" where
  "silent p \<longleftrightarrow> closed p \<and> signalSlot p = 0 \<and> unsent p = 0 \<and> releasing p = {} \<and> retrying p = 0"

lemma silent_step: "silent p \<Longrightarrow> pool_step p p' \<Longrightarrow> silent p'"
  by (erule pool_step.cases)
    (auto simp: silent_def take_warm_def leaseSlowPath_turn_def spawn_start_def spawn_failed_def
      lease_publish_def warmShouldSpawn_def appendWarmAndSignal_def release_begin_def Let_def
      close_begin_def close_clear_def drainWarmOnClose_def drain_one_def)

lemma silent_steps: "pool_step\<^sup>*\<^sup>* p p' \<Longrightarrow> silent p \<Longrightarrow> silent p'"
  by (induction rule: rtranclp_induct) (auto intro: silent_step)

text \<open>\<open>Close\<close> does not wake blocked leases. There is a reachable closed pool with a lease
  blocked on the signal channel such that in no continuation is that lease ever woken: it can only
  leave through its own context, and then reports exhaustion instead of the closed pool.\<close>

lemma close_strands_blocked_lease:
  "\<exists>p. reach pool_init pool_step p \<and> closed p \<and> waiting p = 1
     \<and> {p'. pool_step\<^sup>*\<^sup>* p p'} \<subseteq> {p'. retrying p' = 0 \<and> signalSlot p' = 0 \<and> closed p'}"
proof -
  let ?p = "close_clear (close_begin demo_wait)"
  have 1: "reach pool_init pool_step (close_begin demo_wait)"
    by (rule reach_step [OF demo_wait_reach]) (rule pool_step.close1)
  have 2: "reach pool_init pool_step ?p"
    by (rule reach_step [OF 1], rule pool_step.close2) (simp add: close_begin_def)
  have "releasing demo_wait = {}"
    by (simp add: demo_wait_def leaseSlowPath_turn_def take_warm_def demo_busy_def lease_publish_def
        spawn_start_def demo_pool_def NewPool_def validate_def demo_cfg_def IsAbs_def
        maxElasticMax_def Let_def)
  then have s: "silent ?p" by (simp add: silent_def close_clear_def close_begin_def demo_wait_simps)
  have "retrying p' = 0 \<and> signalSlot p' = 0 \<and> closed p'" if "pool_step\<^sup>*\<^sup>* ?p p'" for p'
    using silent_steps [OF that s] by (simp add: silent_def)
  moreover have "closed ?p" "waiting ?p = 1"
    by (simp_all add: close_clear_def close_begin_def demo_wait_simps)
  ultimately show ?thesis using 2 by blast
qed

fun exhaust_times :: "pool_event list \<Rightarrow> time list" where
  "exhaust_times [] = []"
| "exhaust_times (EvtWorktreePoolExhausted t # es) = t # exhaust_times es"
| "exhaust_times (EvtWorktreePoolDegraded _ # es) = exhaust_times es"

lemma exhaust_times_append: "exhaust_times (xs @ ys) = exhaust_times xs @ exhaust_times ys"
  by (induction xs rule: exhaust_times.induct) auto

definition debounced :: "concretePool \<Rightarrow> bool" where
  "debounced p \<longleftrightarrow> sorted_wrt (\<lambda>a b. a + exhaustEmitDebounce \<le> b) (exhaust_times (pool_log p))
     \<and> (\<forall>t \<in> set (exhaust_times (pool_log p)). t \<le> lastExhaustedAt p)"

lemma debounced_same:
  "debounced p \<Longrightarrow> exhaust_times (pool_log p') = exhaust_times (pool_log p) \<Longrightarrow>
     lastExhaustedAt p' = lastExhaustedAt p \<Longrightarrow> debounced p'"
  by (simp add: debounced_def)

lemma debounced_turn: "debounced p \<Longrightarrow> debounced (snd (leaseSlowPath_turn p))"
  using tsub_ge_iff [of exhaustEmitDebounce "pool_clock p" "lastExhaustedAt p"]
  by (fastforce simp: leaseSlowPath_turn_def take_warm_def Let_def debounced_def exhaust_times_append
      sorted_wrt_append exhaustEmitDebounce_def split: if_splits)

lemma debounced_step: "debounced p \<Longrightarrow> pool_step p p' \<Longrightarrow> debounced p'"
proof (erule pool_step.cases, goal_cases)
  case (3 p)
  then show ?case by (simp add: debounced_turn)
next
  case (4 p)
  then have "debounced (p\<lparr>retrying := retrying p - 1\<rparr>)" by (auto intro: debounced_same)
  with 4 show ?case using debounced_turn by blast
qed (auto elim!: debounced_same simp: exhaust_times_append take_warm_def spawn_start_def spawn_failed_def
    lease_publish_def warmShouldSpawn_def appendWarmAndSignal_def release_begin_def release_end_def
    destroyWorktree_def send_signal_def close_begin_def close_clear_def drainWarmOnClose_def drain_one_def
    Let_def split: if_splits)

lemma debounced_init: "pool_init p \<Longrightarrow> debounced p"
  by (auto simp: pool_init_def NewPool_def debounced_def split: option.splits)

interpretation debounce: safety pool_init pool_step debounced
  by unfold_locales (auto intro: debounced_init debounced_step)

text \<open>Exhaustion events are debounced: in every reachable pool any two of them are at least
  100 milliseconds apart, whatever the number of concurrently blocked leases.\<close>

lemma exhausted_events_debounced:
  assumes "reach pool_init pool_step p"
  shows "sorted_wrt (\<lambda>a b. a + 100 * 1000000 \<le> b) (exhaust_times (pool_log p))"
  using debounce.reach_inv [OF assms] by (simp add: debounced_def exhaustEmitDebounce_def)

end
