(* ===== verification/Merge_Run.thy ===== *)
theory Merge_Run
  imports Sha256 Go_Float
begin

text \<open>
  The test runs of the merge engine, \<^verbatim>\<open>src/internal/orchestrator/merge\<close>: modes (mode.go), requests
  and events (events.go), passing sets (cache.go), the baseline run (baseline.go), the run of one
  candidate with its flake reruns (candidate.go, candidate_apply.go, candidate_runner.go) and the
  parallel run of all candidates (runner.go).

  A run takes an environment that says what each call of a collaborator returns: the context, the
  worktree pool, git, and the test executor, whose k-th call is \<open>exec k cmd env\<close>. It returns what the
  Go function returns together with the events it appends, and the lease and the release of its
  worktree, in order. Texts of errors are kept where the code stores them in an outcome.
\<close>

subsection \<open>Modes (mode.go)\<close>

datatype Mode = ModeUnknown | ModeNormal | ModeDegraded60 | ModeDegraded80 | ModeEmergencyOnly | ModeHighRisk

fun Mode_String :: "Mode \<Rightarrow> string" where
  "Mode_String ModeNormal = ''Normal''"
| "Mode_String ModeDegraded60 = ''Degraded60''"
| "Mode_String ModeDegraded80 = ''Degraded80''"
| "Mode_String ModeEmergencyOnly = ''EmergencyOnly''"
| "Mode_String ModeHighRisk = ''HighRisk''"
| "Mode_String ModeUnknown = ''Unknown''"

datatype TestTier = TestTierUnknown | TestTierFull | TestTierSmoke | TestTierSmokeFailFast

fun TestTier_String :: "TestTier \<Rightarrow> string" where
  "TestTier_String TestTierFull = ''Full''"
| "TestTier_String TestTierSmoke = ''Smoke''"
| "TestTier_String TestTierSmokeFailFast = ''SmokeFailFast''"
| "TestTier_String TestTierUnknown = ''Unknown''"

record ModeConfig =
  MaxCandidates :: int
  mc_TestTier :: TestTier
  FlakeRerunBudget :: int

text \<open>\<open>None\<close> is the panic.\<close>

definition ModeFor :: "Mode \<Rightarrow> ModeConfig option" where
  "ModeFor m =
     (case m of
        ModeNormal \<Rightarrow> Some \<lparr>MaxCandidates = 3, mc_TestTier = TestTierFull, FlakeRerunBudget = 2\<rparr>
      | ModeDegraded60 \<Rightarrow> Some \<lparr>MaxCandidates = 2, mc_TestTier = TestTierFull, FlakeRerunBudget = 1\<rparr>
      | ModeDegraded80 \<Rightarrow> Some \<lparr>MaxCandidates = 1, mc_TestTier = TestTierSmoke, FlakeRerunBudget = 0\<rparr>
      | ModeEmergencyOnly \<Rightarrow>
          Some \<lparr>MaxCandidates = 1, mc_TestTier = TestTierSmokeFailFast, FlakeRerunBudget = 0\<rparr>
      | ModeHighRisk \<Rightarrow> Some \<lparr>MaxCandidates = 3, mc_TestTier = TestTierFull, FlakeRerunBudget = 3\<rparr>
      | ModeUnknown \<Rightarrow> None)"

definition EscalateForBlastRadius :: "Mode \<Rightarrow> string \<Rightarrow> Mode" where
  "EscalateForBlastRadius base level = (if level = ''high'' then ModeHighRisk else base)"

subsection \<open>Requests, outcomes and events (events.go, candidate.go)\<close>

record TestSuite =
  Smoke :: "string list"
  Full :: "string list"

record MergeCandidate =
  mc_Branch :: string
  HeadSHA :: string
  Patch :: string
  ReviewerVote :: int
  SubmittedAt :: time

record MergeRequest =
  TargetBranch :: string
  BaseSHA :: string
  rq_Mode :: Mode
  Candidates :: "MergeCandidate list"
  ReviewerVotes :: "(string \<times> int) list"
  rq_TestSuite :: TestSuite
  SessionID :: string
  rq_ProjectID :: string
  EngineVersion :: string
  TriggerEventID :: string

record CandidateOutcome =
  co_Candidate :: MergeCandidate
  TestPassCount :: int
  TestFailCount :: int
  FlakeCount :: int
  HardRejected :: bool
  co_PatchSizeLines :: int
  co_Reason :: string
  co_PassingSet :: "string list"
  co_Stderr :: string
  co_Duration :: duration
  co_BlastRadius :: f64

record MergeOutcome =
  mo_Winner :: MergeCandidate
  IntegrationSHA :: string
  TestsPassed :: bool
  ReviewerSummary :: string
  mo_AllScores :: "(string \<times> f64) list"
  Reverted :: bool

definition zero_candidate :: MergeCandidate where
  "zero_candidate = \<lparr>mc_Branch = '''', HeadSHA = '''', Patch = '''', ReviewerVote = 0, SubmittedAt = 0\<rparr>"

definition zero_outcome :: MergeOutcome where
  "zero_outcome = \<lparr>mo_Winner = zero_candidate, IntegrationSHA = '''', TestsPassed = False,
     ReviewerSummary = '''', mo_AllScores = [], Reverted = False\<rparr>"

datatype CandidateFailureType =
    CandidateFailureUnknown | CandidateFailureTimeout | CandidateFailurePanic | CandidateFailureCrash
  | CandidateFailureBaselineBreaker | CandidateFailurePatchRejected | CandidateFailureGitTransient

datatype merge_err =
    CtxErr string
  | ErrInvalidRequest string
  | ErrCandidatesNotUnique nat nat
  | ErrPoolInsufficient int nat
  | ErrTargetNotExist
  | ErrMergeBase string
  | ErrBaseNotMergeBase string
  | ErrBaselineFailed string
  | ErrAllCandidatesFailed nat
  | ErrNoSurvivors nat
  | ErrWinnerNotCandidate string
  | ErrGit string
  | ErrDecode int

text \<open>What the \<open>Detail\<close> of a failure event is made of.\<close>

datatype fail_detail =
    Detail merge_err
  | WinnerIDNotInCandidates string
  | UpdateRefFailed merge_err
  | CancelledDuringUpdateRef merge_err "merge_err option"
  | CancelledPostFastForward "merge_err option"

text \<open>
  An event carries its generation and its payload. The payload of a completed merge is \<open>None\<close> when
  \<open>json.Marshal\<close> refuses the outcome. \<open>OpLease\<close> and \<open>OpRelease\<close> are the calls to the worktree pool.
\<close>

datatype merge_event =
    EvtMergeStartedWithMode int string string string
  | EvtMergeCacheHit int string string
  | EvtMergeCompleted int string "MergeOutcome option"
  | EvtMergeFailed int string string fail_detail
  | EvtMergeAllCandidatesFailed int "(string \<times> string \<times> string) list"
  | EvtBaselineStarted int string string string
  | EvtBaselineComplete int string string nat duration
  | EvtBaselineFailed int string string int string
  | EvtCandidateStarted int string string string nat
  | EvtCandidateComplete int string int int int bool int string duration
  | EvtCandidateFailed int string CandidateFailureType string int string
  | EvtFlakeRerunStarted int string int string
  | EvtScoringComplete int string string "(string \<times> f64) list" bool "string list"
  | EvtMergeCacheRebuilt nat "merge_err option"
  | OpLease
  | OpRelease

subsection \<open>Passing sets (cache.go)\<close>

definition PassingSet_Hash :: "string list \<Rightarrow> string" where
  "PassingSet_Hash p = hex_encode (sha256 (concat (map (\<lambda>i. i @ [char_of (0 :: nat)]) (sort p))))"

fun Has :: "string list \<Rightarrow> string \<Rightarrow> bool" where
  "Has [] t = False"
| "Has (i # p) t = (i = t \<or> Has p t)"

definition HasAnyMissing :: "string list \<Rightarrow> string list \<Rightarrow> bool" where
  "HasAnyMissing p other = (\<exists>i \<in> set p. i \<notin> set other)"

lemma Has_iff [simp]: "Has p t \<longleftrightarrow> t \<in> set p"
  by (induction p) auto

lemma HasAnyMissing_iff: "HasAnyMissing p other \<longleftrightarrow> \<not> set p \<subseteq> set other"
  by (auto simp: HasAnyMissing_def)

subsection \<open>The test executor and its output (baseline.go)\<close>

record RunResult =
  rr_Stdout :: string
  rr_Stderr :: string
  rr_ExitCode :: int

datatype exec_err = ExecErr (ee_text: string) (ee_timeout: bool)

type_synonym executor = "nat \<Rightarrow> string list \<Rightarrow> string list \<Rightarrow> exec_err option \<times> RunResult"

fun split_on :: "char \<Rightarrow> string \<Rightarrow> string list" where
  "split_on c [] = [[]]"
| "split_on c (x # xs) =
     (if x = c then [] # split_on c xs else (x # hd (split_on c xs)) # tl (split_on c xs))"

abbreviation newline :: char where "newline \<equiv> char_of (10 :: nat)"

definition parseTestIDs :: "string \<Rightarrow> string list" where
  "parseTestIDs stdout =
     filter (\<lambda>line. line \<noteq> '''' \<and> hd line \<notin> {CHR ''-'', CHR ''='', CHR ''#'', CHR ''+''})
       (map trim_space (split_on newline stdout))"

definition trunc :: "int \<Rightarrow> string \<Rightarrow> string" where
  "trunc limit s = (if limit \<le> 0 \<or> int (length s) \<le> limit then s else take (nat limit) s)"

definition selectCommand :: "TestTier \<Rightarrow> TestSuite \<Rightarrow> string list \<times> string list" where
  "selectCommand tier suite =
     (case tier of
        TestTierFull \<Rightarrow> (Full suite, [])
      | TestTierSmoke \<Rightarrow> (Smoke suite, [])
      | TestTierSmokeFailFast \<Rightarrow> (Smoke suite, [''HADES_MERGE_FAIL_FAST=1''])
      | TestTierUnknown \<Rightarrow> ([], []))"

record base_env =
  be_ctx :: "string option"
  be_lease :: "merge_err option"
  be_checkout :: "string option"
  be_exec :: executor
  be_dur :: duration
  be_cap :: int
  be_gen :: int

text \<open>\<open>None\<close> is the panic of \<open>ModeFor\<close>; the worktree is released on every path after the lease.\<close>

definition baseline_body ::
  "base_env \<Rightarrow> string \<Rightarrow> Mode \<Rightarrow> ModeConfig \<Rightarrow> TestSuite \<Rightarrow> (merge_err + string list) \<times> merge_event list" where
  "baseline_body env baseSHA mode cfg suite =
     (let emitFailed = (\<lambda>reason code err. EvtBaselineFailed (be_gen env) baseSHA reason code (trunc (be_cap env) err)) in
      case be_checkout env of
        Some e \<Rightarrow> (Inl (ErrBaselineFailed e), [emitFailed ''git_checkout_failed'' (- 1) e])
      | None \<Rightarrow>
        (let (cmd, ev) = selectCommand (mc_TestTier cfg) suite in
         if cmd = [] then (Inl (ErrBaselineFailed ''empty test command''), [emitFailed ''empty_command'' (- 1) ''''])
         else
           (let started = EvtBaselineStarted (be_gen env) baseSHA (Mode_String mode) (TestTier_String (mc_TestTier cfg));
                (runErr, res) = be_exec env 0 cmd ev in
            case runErr of
              Some e \<Rightarrow>
                (Inl (ErrBaselineFailed (ee_text e)),
                 [started, emitFailed (''executor_error: '' @ ee_text e) (rr_ExitCode res) (trunc (be_cap env) (rr_Stderr res))])
            | None \<Rightarrow>
                (if rr_ExitCode res \<noteq> 0
                 then (Inl (ErrBaselineFailed ''exit code''),
                       [started, emitFailed ''non_zero_exit'' (rr_ExitCode res) (trunc (be_cap env) (rr_Stderr res))])
                 else
                   (let ids = parseTestIDs (rr_Stdout res) in
                    (Inr ids,
                     [started, EvtBaselineComplete (be_gen env) baseSHA (PassingSet_Hash ids) (length ids) (be_dur env)]))))))"

definition Baseline_Run ::
  "base_env \<Rightarrow> string \<Rightarrow> Mode \<Rightarrow> TestSuite \<Rightarrow> ((merge_err + string list) \<times> merge_event list) option" where
  "Baseline_Run env baseSHA mode suite =
     (case be_ctx env of
        Some e \<Rightarrow> Some (Inl (ErrBaselineFailed e), [])
      | None \<Rightarrow>
        (case ModeFor mode of
           None \<Rightarrow> None
         | Some cfg \<Rightarrow>
           (case be_lease env of
              Some e \<Rightarrow> Some (Inl e, [])
            | None \<Rightarrow>
                (let (r, evs) = baseline_body env baseSHA mode cfg suite
                 in Some (r, OpLease # evs @ [OpRelease])))))"

subsection \<open>Applying a patch (candidate_apply.go)\<close>

text \<open>\<open>apply\<close> is how \<open>git apply\<close> ends: \<open>None\<close> for success, else its stderr and its error.\<close>

definition ApplyPatch :: "(string \<times> string) option \<Rightarrow> string \<Rightarrow> int \<Rightarrow> string option" where
  "ApplyPatch apply patch stderrCap =
     (if trim_space patch = '''' then Some ''merge: git apply rejected patch: empty patch''
      else case apply of
        None \<Rightarrow> None
      | Some (stderr, e) \<Rightarrow>
          Some (''merge: git apply rejected patch: git apply: '' @ trim_space (trunc stderrCap stderr) @ '': '' @ e))"

definition PatchSizeLines :: "string \<Rightarrow> int" where
  "PatchSizeLines patch =
     (if patch = '''' then 0
      else int (length (filter (\<lambda>c. c = newline) patch)) + (if last patch \<noteq> newline then 1 else 0))"

subsection \<open>The run of one candidate (candidate_runner.go)\<close>

definition classifyExecError :: "exec_err option \<Rightarrow> int \<Rightarrow> CandidateFailureType" where
  "classifyExecError err exitCode =
     (case err of
        None \<Rightarrow> CandidateFailureUnknown
      | Some e \<Rightarrow>
          (if ee_timeout e then CandidateFailureTimeout
           else if exitCode < 0 then CandidateFailureCrash else CandidateFailurePanic))"

record cand_env =
  ce_ctx :: "string option"
  ce_lease :: "string option"
  ce_checkout :: "string option"
  ce_apply :: "(string \<times> string) option"
  ce_exec :: executor
  ce_dur :: duration
  ce_cap :: int
  ce_gen :: int

fun join_with :: "string \<Rightarrow> string list \<Rightarrow> string" where
  "join_with sep [] = []"
| "join_with sep [x] = x"
| "join_with sep (x # y # ys) = x @ sep @ join_with sep (y # ys)"

definition rerun_env :: "string list \<Rightarrow> string list" where
  "rerun_env failed = [''HADES_MERGE_RERUN_TESTS='' @ join_with '','' failed]"

definition flake_round :: "string list \<Rightarrow> string list \<Rightarrow> CandidateOutcome \<Rightarrow> string list \<times> CandidateOutcome" where
  "flake_round newPass failed out =
     (let recovered = filter (Has newPass) failed
      in (filter (\<lambda>tid. \<not> Has newPass tid) failed,
          out\<lparr>FlakeCount := FlakeCount out + int (length recovered),
              co_PassingSet := co_PassingSet out @ recovered\<rparr>))"

text \<open>
  The retry loop: \<open>n\<close> retries are left of the budget, \<open>retry\<close> is the loop variable and \<open>k\<close> the
  index of the next executor call. The flag is \<open>False\<close> when the loop returns from the function on
  an executor error.
\<close>

fun flake_loop ::
  "cand_env \<Rightarrow> string \<Rightarrow> string list \<Rightarrow> nat \<Rightarrow> int \<Rightarrow> nat \<Rightarrow> string list \<Rightarrow> CandidateOutcome \<Rightarrow>
     bool \<times> string list \<times> CandidateOutcome \<times> merge_event list" where
  "flake_loop env cid cmd 0 retry k failed out = (True, failed, out, [])"
| "flake_loop env cid cmd (Suc n) retry k failed out =
     (if failed = [] then (True, failed, out, [])
      else
        (let evs = map (\<lambda>tid. EvtFlakeRerunStarted (ce_gen env) cid retry tid) failed;
             (err, res) = ce_exec env k cmd (rerun_env failed) in
         if err \<noteq> None then (False, failed, out, evs)
         else
           (let (stillFailing, out') = flake_round (parseTestIDs (rr_Stdout res)) failed out;
                (fin, f, o', evs') = flake_loop env cid cmd n (retry + 1) (Suc k) stillFailing out'
            in (fin, f, o', evs @ evs'))))"

definition flake_finish :: "string list \<Rightarrow> string list \<Rightarrow> CandidateOutcome \<Rightarrow> CandidateOutcome" where
  "flake_finish baseline failed o1 =
     (let o2 = o1\<lparr>TestPassCount := int (length (co_PassingSet o1)), TestFailCount := int (length failed)\<rparr> in
      if HasAnyMissing baseline (co_PassingSet o2)
      then o2\<lparr>HardRejected := True,
              co_Reason := (if co_Reason o2 = '''' \<or> take 12 (co_Reason o2) = ''smoke_failed''
                            then ''baseline_breaker_post_flake'' else co_Reason o2)\<rparr>
      else if co_Reason o2 = ''baseline_breaker''
      then o2\<lparr>HardRejected := False, co_Reason := ''''\<rparr>
      else o2)"

definition applyFlakeRerun ::
  "cand_env \<Rightarrow> string \<Rightarrow> string list \<Rightarrow> TestSuite \<Rightarrow> ModeConfig \<Rightarrow> nat \<Rightarrow> CandidateOutcome \<Rightarrow>
     CandidateOutcome \<times> merge_event list" where
  "applyFlakeRerun env cid baseline suite cfg k out =
     (if FlakeRerunBudget cfg \<le> 0 then (out, [])
      else if TestFailCount out = 0 then (out, [])
      else
        (let failed = filter (\<lambda>i. \<not> Has (co_PassingSet out) i) baseline in
         if failed = [] then (out, [])
         else
           (let rerunCmd = (if mc_TestTier cfg \<noteq> TestTierFull then Smoke suite else Full suite);
                (fin, failed', o1, evs) =
                  flake_loop env cid rerunCmd (nat (FlakeRerunBudget cfg)) 1 k failed out in
            if \<not> fin then (o1, evs) else (flake_finish baseline failed' o1, evs))))"

text \<open>What follows the smoke suite: the full suite where the tier asks for it, the comparison with
  the baseline and the flake reruns.\<close>

definition candidate_tests ::
  "cand_env \<Rightarrow> MergeCandidate \<Rightarrow> string list \<Rightarrow> ModeConfig \<Rightarrow> TestSuite \<Rightarrow> RunResult \<Rightarrow>
     CandidateOutcome \<Rightarrow> CandidateOutcome \<times> merge_event list" where
  "candidate_tests env cand baseline cfg suite smokeRes out =
     (let isFull = (mc_TestTier cfg = TestTierFull);
          (fullErr, fullRes) = (if isFull then ce_exec env 1 (Full suite) [] else (None, smokeRes)) in
      case fullErr of
        Some e \<Rightarrow>
          (out\<lparr>HardRejected := True, co_Reason := ''full_executor_error: '' @ ee_text e,
               co_Stderr := trunc (ce_cap env) (rr_Stderr fullRes), co_Duration := ce_dur env\<rparr>,
           [EvtCandidateFailed (ce_gen env) (HeadSHA cand) (classifyExecError fullErr (rr_ExitCode fullRes))
              (''full: '' @ ee_text e) (rr_ExitCode fullRes) (trunc (ce_cap env) (rr_Stderr fullRes))])
      | None \<Rightarrow>
          (let stdout = (if isFull then rr_Stdout fullRes else rr_Stdout smokeRes);
               candPassing = parseTestIDs stdout;
               o1 = out\<lparr>co_PassingSet := candPassing, TestPassCount := int (length candPassing)\<rparr>;
               o2 = (if HasAnyMissing baseline candPassing
                     then o1\<lparr>HardRejected := True, co_Reason := ''baseline_breaker''\<rparr> else o1);
               o3 = (if rr_ExitCode fullRes \<noteq> 0 \<and> isFull
                     then o2\<lparr>TestFailCount := int (length (filter (\<lambda>i. \<not> Has candPassing i) baseline))\<rparr>
                     else o2);
               o4 = o3\<lparr>co_Duration := ce_dur env\<rparr>;
               (o5, evs) = applyFlakeRerun env (HeadSHA cand) baseline suite cfg (if isFull then 2 else 1) o4
           in (o5\<lparr>co_Stderr := trunc (ce_cap env) (rr_Stderr fullRes)\<rparr>,
               evs @ [EvtCandidateComplete (ce_gen env) (HeadSHA cand) (TestPassCount o5) (TestFailCount o5)
                        (FlakeCount o5) (HardRejected o5) (co_PatchSizeLines o5)
                        (PassingSet_Hash candPassing) (co_Duration o5)])))"

definition candidate_start :: "MergeCandidate \<Rightarrow> CandidateOutcome" where
  "candidate_start cand =
     \<lparr>co_Candidate = cand, TestPassCount = 0, TestFailCount = 0, FlakeCount = 0, HardRejected = False,
      co_PatchSizeLines = PatchSizeLines (Patch cand), co_Reason = '''', co_PassingSet = [],
      co_Stderr = '''', co_Duration = 0, co_BlastRadius = Fin 0\<rparr>"

text \<open>The code between the lease and the release; \<open>None\<close> is the panic of \<open>ModeFor\<close>.\<close>

definition candidate_body ::
  "cand_env \<Rightarrow> MergeCandidate \<Rightarrow> string \<Rightarrow> string list \<Rightarrow> Mode \<Rightarrow> TestSuite \<Rightarrow>
     CandidateOutcome option \<times> merge_event list" where
  "candidate_body env cand baseSHA baseline mode suite =
     (let out = candidate_start cand;
          cid = HeadSHA cand;
          emitFailed = EvtCandidateFailed (ce_gen env) cid in
      case ce_checkout env of
        Some e \<Rightarrow>
          (Some (out\<lparr>HardRejected := True, co_Reason := ''git_checkout: '' @ e, co_Duration := ce_dur env\<rparr>),
           [emitFailed CandidateFailureGitTransient (''git checkout: '' @ e) (- 1) ''''])
      | None \<Rightarrow>
        (case ApplyPatch (ce_apply env) (Patch cand) (ce_cap env) of
           Some e \<Rightarrow>
             (Some (out\<lparr>HardRejected := True, co_Reason := ''patch_rejected: '' @ e, co_Duration := ce_dur env\<rparr>),
              [emitFailed CandidateFailurePatchRejected e (- 1) ''''])
         | None \<Rightarrow>
           (let started = EvtCandidateStarted (ce_gen env) cid (mc_Branch cand) (Mode_String mode) (length (Patch cand));
                (smokeErr, smokeRes) = ce_exec env 0 (Smoke suite) [];
                stderr = trunc (ce_cap env) (rr_Stderr smokeRes) in
            case smokeErr of
              Some e \<Rightarrow>
                (Some (out\<lparr>HardRejected := True, co_Reason := ''smoke_executor_error: '' @ ee_text e,
                           co_Stderr := stderr, co_Duration := ce_dur env\<rparr>),
                 [started, emitFailed (classifyExecError smokeErr (rr_ExitCode smokeRes)) (''smoke: '' @ ee_text e)
                    (rr_ExitCode smokeRes) stderr])
            | None \<Rightarrow>
                (if rr_ExitCode smokeRes \<noteq> 0
                 then (Some (out\<lparr>HardRejected := True, co_Reason := ''smoke_failed'', TestFailCount := 1,
                                 co_Stderr := stderr, co_Duration := ce_dur env\<rparr>),
                       [started, emitFailed CandidateFailureBaselineBreaker ''smoke_failed'' (rr_ExitCode smokeRes) stderr])
                 else
                   (case ModeFor mode of
                      None \<Rightarrow> (None, [started])
                    | Some cfg \<Rightarrow>
                        (let (o', evs) = candidate_tests env cand baseline cfg suite smokeRes out
                         in (Some o', started # evs)))))))"

text \<open>The result is \<open>None\<close> for a panic, else the outcome and the error.\<close>

definition Candidate_Run ::
  "cand_env \<Rightarrow> MergeCandidate \<Rightarrow> string \<Rightarrow> string list \<Rightarrow> Mode \<Rightarrow> TestSuite \<Rightarrow>
     (CandidateOutcome \<times> string option) option \<times> merge_event list" where
  "Candidate_Run env cand baseSHA baseline mode suite =
     (case ce_ctx env of
        Some e \<Rightarrow> (Some (candidate_start cand, Some (''merge.Candidate.Run: ctx cancelled before lease: '' @ e)), [])
      | None \<Rightarrow>
        (case ce_lease env of
           Some e \<Rightarrow> (Some (candidate_start cand, Some (''merge.Candidate.Run: pool.Lease: '' @ e)), [])
         | None \<Rightarrow>
             (let (r, evs) = candidate_body env cand baseSHA baseline mode suite
              in (map_option (\<lambda>out. (out, None)) r, OpLease # evs @ [OpRelease]))))"

subsection \<open>All candidates (runner.go)\<close>

text \<open>
  Each goroutine fills its own slot of \<open>outcomes\<close>; the barrier waits for all of them, so the slots
  do not depend on the interleaving. The events of a candidate are in order; those of different
  candidates are listed one candidate after the other, one of the orders the emitter can see.
\<close>

definition runner_slot ::
  "cand_env \<Rightarrow> MergeCandidate \<Rightarrow> string \<Rightarrow> string list \<Rightarrow> Mode \<Rightarrow> TestSuite \<Rightarrow> CandidateOutcome \<times> merge_event list" where
  "runner_slot env cand baseSHA passingSet mode suite =
     (case Candidate_Run env cand baseSHA passingSet mode suite of
        (None, evs) \<Rightarrow>
          ((candidate_start cand)\<lparr>co_PatchSizeLines := 0, HardRejected := True,
             co_Reason := ''runner_panic: merge.ModeFor: unknown Mode''\<rparr>, evs)
      | (Some (out, None), evs) \<Rightarrow> (out, evs)
      | (Some (out, Some e), evs) \<Rightarrow>
          (let o1 = (if HeadSHA (co_Candidate out) = '''' then out\<lparr>co_Candidate := cand\<rparr> else out)
           in (o1\<lparr>HardRejected := True,
                  co_Reason := (if co_Reason o1 = '''' then ''runner_err: '' @ e else co_Reason o1)\<rparr>, evs)))"

definition RunCandidates ::
  "int \<Rightarrow> (nat \<Rightarrow> cand_env) \<Rightarrow> MergeCandidate list \<Rightarrow> string \<Rightarrow> string list \<Rightarrow> Mode \<Rightarrow> TestSuite \<Rightarrow>
     (CandidateOutcome list \<times> merge_err option) \<times> merge_event list" where
  "RunCandidates g envs candidates baseSHA passingSet mode suite =
     (if candidates = [] then (([], Some (ErrInvalidRequest ''empty candidate slice'')), [])
      else
        (let slots = map (\<lambda>(i, c). runner_slot (envs i) c baseSHA passingSet mode suite) (enumerate 0 candidates);
             outcomes = map fst slots;
             evs = concat (map snd slots) in
         if filter (\<lambda>r. \<not> HardRejected r) outcomes = []
         then ((outcomes, Some (ErrAllCandidatesFailed (length candidates))),
               evs @ [EvtMergeAllCandidatesFailed g
                        (map (\<lambda>r. (HeadSHA (co_Candidate r), co_Reason r, co_Stderr r)) outcomes)])
         else ((outcomes, None), evs)))"

subsection \<open>The flake loop\<close>

definition flake_frame :: "CandidateOutcome \<Rightarrow> CandidateOutcome \<Rightarrow> bool" where
  "flake_frame out o' \<longleftrightarrow>
     co_Candidate o' = co_Candidate out \<and> HardRejected o' = HardRejected out \<and> co_Reason o' = co_Reason out
     \<and> TestPassCount o' = TestPassCount out \<and> TestFailCount o' = TestFailCount out"

lemma flake_loop_SucE:
  assumes "flake_loop env cid cmd (Suc n) retry k failed out = (fin, f, o', evs)"
  obtains (stop) "f = failed" "o' = out" "set evs \<subseteq> EvtFlakeRerunStarted (ce_gen env) cid retry ` set failed"
  | (round) np still out1 evs1 where "flake_round np failed out = (still, out1)"
      "flake_loop env cid cmd n (retry + 1) (Suc k) still out1 = (fin, f, o', evs1)"
      "set evs \<subseteq> EvtFlakeRerunStarted (ce_gen env) cid retry ` set failed \<union> set evs1"
  using assms
  by (auto simp: Let_def split: if_splits prod.splits)

lemma flake_loop_frame:
  "flake_loop env cid cmd n retry k failed out = (fin, f, o', evs) \<Longrightarrow> flake_frame out o'"
proof (induction n arbitrary: retry k failed out evs)
  case (Suc n)
  from Suc.prems show ?case
  proof (cases rule: flake_loop_SucE)
    case stop
    then show ?thesis by (simp add: flake_frame_def)
  next
    case (round np still out1 evs1)
    with Suc.IH [OF round(2)] show ?thesis by (auto simp: flake_frame_def flake_round_def Let_def)
  qed
qed (simp add: flake_frame_def)

text \<open>The tests a loop recovers and those it leaves failing are together those it started with.\<close>

lemma flake_loop_split:
  "flake_loop env cid cmd n retry k failed out = (fin, f, o', evs) \<Longrightarrow>
     \<exists>recovered. co_PassingSet o' = co_PassingSet out @ recovered
       \<and> mset failed = mset recovered + mset f
       \<and> FlakeCount o' = FlakeCount out + int (length recovered)
       \<and> set recovered \<inter> set f = {}"
proof (induction n arbitrary: retry k failed out evs)
  case (Suc n)
  from Suc.prems show ?case
  proof (cases rule: flake_loop_SucE)
    case stop
    then show ?thesis by (intro exI [of _ "[]"]) simp
  next
    case (round np still out1 evs1)
    let ?rec = "filter (Has np) failed"
    from Suc.IH [OF round(2)] obtain r1 where r1: "co_PassingSet o' = co_PassingSet out1 @ r1"
        "mset still = mset r1 + mset f" "FlakeCount o' = FlakeCount out1 + int (length r1)"
        "set r1 \<inter> set f = {}"
      by blast
    have st: "still = filter (\<lambda>t. \<not> Has np t) failed" "co_PassingSet out1 = co_PassingSet out @ ?rec"
        "FlakeCount out1 = FlakeCount out + int (length ?rec)"
      using round(1) by (auto simp: flake_round_def Let_def)
    have "mset failed = mset ?rec + mset still"
      unfolding st(1) mset_filter by (rule multiset_partition)
    then have "mset failed = mset (?rec @ r1) + mset f" using r1(2) by (metis add.assoc mset_append)
    moreover have "set f \<subseteq> set still" using r1(2) by (metis mset_subset_eq_add_right set_mset_mono set_mset_mset)
    ultimately show ?thesis using r1 st by (intro exI [of _ "?rec @ r1"]) auto
  qed
qed simp

lemma flake_loop_events:
  "flake_loop env cid cmd n retry k failed out = (fin, f, o', evs) \<Longrightarrow> e \<in> set evs \<Longrightarrow>
     \<exists>r tid. e = EvtFlakeRerunStarted (ce_gen env) cid r tid \<and> retry \<le> r \<and> r < retry + int n \<and> tid \<in> set failed"
proof (induction n arbitrary: retry k failed out evs)
  case (Suc n)
  from Suc.prems(1) show ?case
  proof (cases rule: flake_loop_SucE)
    case stop
    with Suc.prems(2) show ?thesis by auto
  next
    case (round np still out1 evs1)
    have "set still \<subseteq> set failed" using round(1) by (auto simp: flake_round_def Let_def)
    with Suc.IH [OF round(2)] round(3) Suc.prems(2) show ?thesis by force
  qed
qed simp

lemma flake_loop_unfinished:
  "flake_loop env cid cmd n retry k failed out = (False, f, o', evs) \<Longrightarrow> f \<noteq> []"
proof (induction n arbitrary: retry k failed out evs)
  case (Suc n)
  then show ?case by (auto simp: Let_def split: if_splits prod.splits)
qed simp

subsection \<open>A candidate survives exactly when it keeps the baseline\<close>

text \<open>What holds of an outcome whose suites ran.\<close>

definition judged :: "string list \<Rightarrow> CandidateOutcome \<Rightarrow> bool" where
  "judged baseline r \<longleftrightarrow>
     (HardRejected r \<longleftrightarrow> \<not> set baseline \<subseteq> set (co_PassingSet r))
     \<and> (HardRejected r \<or> TestPassCount r = int (length (co_PassingSet r)))"

lemma flake_finish_frame [simp]: "co_Candidate (flake_finish baseline failed o1) = co_Candidate o1"
  by (simp add: flake_finish_def Let_def)

lemma applyFlakeRerun_frame:
  "applyFlakeRerun env cid baseline suite cfg k out = (o', evs) \<Longrightarrow> co_Candidate o' = co_Candidate out"
  by (auto simp: applyFlakeRerun_def Let_def flake_frame_def split: if_splits prod.splits dest!: flake_loop_frame)

lemma flake_finish_judged:
  "co_Reason o1 = ''baseline_breaker'' \<Longrightarrow> judged baseline (flake_finish baseline failed o1)"
  by (simp add: flake_finish_def judged_def HasAnyMissing_iff Let_def)

lemma applyFlakeRerun_judged:
  assumes run: "applyFlakeRerun env cid baseline suite cfg k out = (o', evs)"
    and out: "judged baseline out" "HardRejected out \<longrightarrow> co_Reason out = ''baseline_breaker''"
  shows "judged baseline o'"
proof (cases "FlakeRerunBudget cfg \<le> 0 \<or> TestFailCount out = 0 \<or> filter (\<lambda>i. \<not> Has (co_PassingSet out) i) baseline = []")
  case True
  then have "o' = out" using run by (auto simp: applyFlakeRerun_def Let_def split: if_splits)
  with out show ?thesis by simp
next
  case False
  let ?failed = "filter (\<lambda>i. \<not> Has (co_PassingSet out) i) baseline"
  let ?cmd = "if mc_TestTier cfg \<noteq> TestTierFull then Smoke suite else Full suite"
  obtain fin f o1 e1 where loop: "flake_loop env cid ?cmd (nat (FlakeRerunBudget cfg)) 1 k ?failed out = (fin, f, o1, e1)"
    by (metis prod_cases4)
  obtain recovered where rc: "co_PassingSet o1 = co_PassingSet out @ recovered" "mset ?failed = mset recovered + mset f"
      "set recovered \<inter> set f = {}"
    using flake_loop_split [OF loop] by blast
  have sets: "set ?failed = set recovered \<union> set f"
    using rc(2) by (metis set_mset_mset set_mset_union)
  have frame: "flake_frame out o1" by (rule flake_loop_frame [OF loop])
  have rej: "HardRejected out" using False out(1) by (auto simp: judged_def filter_empty_conv)
  show ?thesis
  proof (cases fin)
    case True
    then have "o' = flake_finish baseline f o1" using run False loop by (simp add: applyFlakeRerun_def Let_def)
    moreover have "co_Reason o1 = ''baseline_breaker''" using frame rej out(2) by (simp add: flake_frame_def)
    ultimately show ?thesis by (simp add: flake_finish_judged)
  next
    case nfin: False
    then have nfin': "fin = False" by simp
    have "f \<noteq> []" using flake_loop_unfinished [OF loop [unfolded nfin']] .
    then obtain t where t: "t \<in> set f" by (meson list.set_sel(1))
    have "t \<in> set ?failed" using sets t by blast
    moreover have "t \<notin> set recovered" using rc(3) t by blast
    ultimately have "t \<in> set baseline" "t \<notin> set (co_PassingSet o1)" using rc(1) by auto
    moreover have "o' = o1" using run False loop nfin by (simp add: applyFlakeRerun_def Let_def)
    ultimately show ?thesis using frame rej by (auto simp: judged_def flake_frame_def)
  qed
qed

text \<open>The executor calls of a candidate that reaches the comparison with the baseline.\<close>

definition suites_ran :: "cand_env \<Rightarrow> MergeCandidate \<Rightarrow> Mode \<Rightarrow> TestSuite \<Rightarrow> bool" where
  "suites_ran env cand mode suite \<longleftrightarrow>
     ce_ctx env = None \<and> ce_lease env = None \<and> ce_checkout env = None
     \<and> ApplyPatch (ce_apply env) (Patch cand) (ce_cap env) = None
     \<and> fst (ce_exec env 0 (Smoke suite) []) = None \<and> rr_ExitCode (snd (ce_exec env 0 (Smoke suite) [])) = 0
     \<and> (case ModeFor mode of None \<Rightarrow> False
        | Some cfg \<Rightarrow> mc_TestTier cfg = TestTierFull \<longrightarrow> fst (ce_exec env 1 (Full suite) []) = None)"

lemma candidate_tests_frame:
  "candidate_tests env cand baseline cfg suite smokeRes out = (o', evs) \<Longrightarrow> co_Candidate o' = co_Candidate out"
  by (auto simp: candidate_tests_def Let_def split: prod.splits option.splits if_splits
      dest!: applyFlakeRerun_frame)

lemma candidate_tests_judged:
  assumes run: "candidate_tests env cand baseline cfg suite smokeRes out = (o', evs)"
    and out: "\<not> HardRejected out"
  shows "if mc_TestTier cfg = TestTierFull \<longrightarrow> fst (ce_exec env 1 (Full suite) []) = None
         then judged baseline o' else HardRejected o'"
proof -
  obtain fullErr fullRes where full:
    "(if mc_TestTier cfg = TestTierFull then ce_exec env 1 (Full suite) [] else (None, smokeRes)) = (fullErr, fullRes)"
    by (metis surj_pair)
  show ?thesis
  proof (cases fullErr)
    case (Some e)
    with full run show ?thesis by (auto simp: candidate_tests_def Let_def split: if_splits)
  next
    case None
    obtain o4 o5 k evs5 where ap: "applyFlakeRerun env (HeadSHA cand) baseline suite cfg k o4 = (o5, evs5)"
      and o4: "judged baseline o4" "HardRejected o4 \<longrightarrow> co_Reason o4 = ''baseline_breaker''"
      and o': "o' = o5\<lparr>co_Stderr := trunc (ce_cap env) (rr_Stderr fullRes)\<rparr>"
      using run None full out
      by (auto simp: candidate_tests_def judged_def HasAnyMissing_iff Let_def split: prod.splits)
    from applyFlakeRerun_judged [OF ap o4] have "judged baseline o'" by (auto simp: o' judged_def)
    with None full show ?thesis by (auto split: if_splits)
  qed
qed

lemma candidate_start_simps [simp]:
  "\<not> HardRejected (candidate_start cand)" "co_Candidate (candidate_start cand) = cand"
  "co_PassingSet (candidate_start cand) = []" "FlakeCount (candidate_start cand) = 0"
  "co_Reason (candidate_start cand) = ''''"
  by (simp_all add: candidate_start_def)

lemma candidate_body_judged:
  assumes "candidate_body env cand baseSHA baseline mode suite = (r, evs)"
    and "ce_ctx env = None" "ce_lease env = None"
  shows "case r of None \<Rightarrow> \<not> suites_ran env cand mode suite
         | Some o' \<Rightarrow> co_Candidate o' = cand
             \<and> (if suites_ran env cand mode suite then judged baseline o' else HardRejected o')"
  using assms
  by (auto simp: candidate_body_def suites_ran_def Let_def split: prod.splits option.splits if_splits
      dest: candidate_tests_frame candidate_tests_judged)

lemma runner_slot_judged:
  assumes "runner_slot env cand baseSHA baseline mode suite = (o', evs)"
  shows "co_Candidate o' = cand
    \<and> (if suites_ran env cand mode suite then judged baseline o' else HardRejected o')"
proof (cases "ce_ctx env = None \<and> ce_lease env = None")
  case True
  obtain r evs1 where b: "candidate_body env cand baseSHA baseline mode suite = (r, evs1)" by (metis surj_pair)
  from candidate_body_judged [OF b] True assms b show ?thesis
    by (cases r) (auto simp: runner_slot_def Candidate_Run_def)
next
  case False
  then have "\<not> suites_ran env cand mode suite" by (auto simp: suites_ran_def)
  with False assms show ?thesis
    by (auto simp: runner_slot_def Candidate_Run_def Let_def split: option.splits)
qed

lemma RunCandidates_slots:
  assumes "RunCandidates g envs cands baseSHA baseline mode suite = ((outs, err), evs)" and "cands \<noteq> []"
  shows "length outs = length cands
    \<and> (\<forall>i < length cands. outs ! i = fst (runner_slot (envs i) (cands ! i) baseSHA baseline mode suite))
    \<and> (err = None \<longleftrightarrow> (\<exists>r \<in> set outs. \<not> HardRejected r))"
proof -
  let ?slots = "map (\<lambda>(i, c). runner_slot (envs i) c baseSHA baseline mode suite) (enumerate 0 cands)"
  have "outs = map fst ?slots" and "err = None \<longleftrightarrow> filter (\<lambda>r. \<not> HardRejected r) outs \<noteq> []"
    using assms by (auto simp: RunCandidates_def Let_def simp del: map_map split: if_splits)
  then show ?thesis by (simp add: enumerate_eq_zip filter_empty_conv del: set_map)
qed

lemma RunCandidates_facts:
  assumes "RunCandidates g envs cands baseSHA baseline mode suite = ((outs, err), evs)" and "cands \<noteq> []"
  shows "map co_Candidate outs = cands"
    and "\<And>i. i < length cands \<Longrightarrow> \<not> HardRejected (outs ! i) \<longleftrightarrow>
           suites_ran (envs i) (cands ! i) mode suite \<and> set baseline \<subseteq> set (co_PassingSet (outs ! i))"
    and "\<And>r. r \<in> set outs \<Longrightarrow> \<not> HardRejected r \<Longrightarrow> TestPassCount r = int (length (co_PassingSet r))"
proof -
  note slots = RunCandidates_slots [OF assms]
  have judge: "co_Candidate (outs ! i) = cands ! i
      \<and> (if suites_ran (envs i) (cands ! i) mode suite then judged baseline (outs ! i) else HardRejected (outs ! i))"
    if "i < length cands" for i
    using that slots runner_slot_judged by (metis surj_pair fst_conv)
  show "map co_Candidate outs = cands"
    using slots judge by (intro nth_equalityI) auto
  show "\<not> HardRejected (outs ! i) \<longleftrightarrow>
      suites_ran (envs i) (cands ! i) mode suite \<and> set baseline \<subseteq> set (co_PassingSet (outs ! i))"
    if "i < length cands" for i
    using judge [OF that] by (metis judged_def)
  show "TestPassCount r = int (length (co_PassingSet r))" if "r \<in> set outs" "\<not> HardRejected r" for r
    using judge slots that by (metis in_set_conv_nth judged_def)
qed

text \<open>The outcomes of a candidate run are those of the candidates, in their order, and a candidate
  survives exactly when its worktree was leased, its checkout and its patch succeeded, its smoke
  suite and (in a full tier) its full suite ran, and every test of the baseline is in its passing
  set after the flake reruns; the pass count of a survivor is the size of that set. The run as a
  whole succeeds exactly when somebody survives.
\<close>

lemma RunCandidates_survivors:
  assumes "RunCandidates g envs cands baseSHA baseline mode suite = ((outs, err), evs)" and "cands \<noteq> []"
  shows "map co_Candidate outs = cands
    \<and> (\<forall>i < length cands.
         \<not> HardRejected (outs ! i) \<longleftrightarrow>
           suites_ran (envs i) (cands ! i) mode suite \<and> set baseline \<subseteq> set (co_PassingSet (outs ! i)))
    \<and> (\<forall>r \<in> set outs. \<not> HardRejected r \<longrightarrow> TestPassCount r = int (length (co_PassingSet r)))
    \<and> (err = None \<longleftrightarrow> (\<exists>r \<in> set outs. \<not> HardRejected r))"
  using RunCandidates_facts [OF assms] RunCandidates_slots [OF assms] by simp

definition demo_suite :: TestSuite where
  "demo_suite = \<lparr>Smoke = [''smoke''], Full = [''full'']\<rparr>"

definition demo_cand :: MergeCandidate where
  "demo_cand = \<lparr>mc_Branch = ''feature'', HeadSHA = ''c1'', Patch = ''+x'', ReviewerVote = 0, SubmittedAt = 0\<rparr>"

text \<open>An executor whose full suite loses test \<open>T2\<close> and whose rerun finds it again.\<close>

definition demo_env :: cand_env where
  "demo_env =
     \<lparr>ce_ctx = None, ce_lease = None, ce_checkout = None, ce_apply = None,
      ce_exec = (\<lambda>k cmd ev. (None, if k = 1 then \<lparr>rr_Stdout = ''T1'', rr_Stderr = '''', rr_ExitCode = 1\<rparr>
                                    else \<lparr>rr_Stdout = ''T2'', rr_Stderr = '''', rr_ExitCode = 0\<rparr>)),
      ce_dur = 5, ce_cap = 100, ce_gen = 1\<rparr>"

lemma applyFlakeRerun_recovers:
  assumes run: "applyFlakeRerun env cid baseline suite cfg k out = (o', evs)"
    and missing: "missing = filter (\<lambda>i. \<not> Has (co_PassingSet out) i) baseline"
  shows "\<exists>recovered. co_PassingSet o' = co_PassingSet out @ recovered \<and> set recovered \<subseteq> set missing
       \<and> FlakeCount o' = FlakeCount out + int (length recovered) \<and> length recovered \<le> length missing"
    and "\<forall>e \<in> set evs. \<exists>r tid. e = EvtFlakeRerunStarted (ce_gen env) cid r tid
       \<and> 1 \<le> r \<and> r \<le> FlakeRerunBudget cfg \<and> tid \<in> set missing"
proof -
  let ?cmd = "if mc_TestTier cfg \<noteq> TestTierFull then Smoke suite else Full suite"
  obtain fin f o1 e1 where loop: "flake_loop env cid ?cmd (nat (FlakeRerunBudget cfg)) 1 k missing out = (fin, f, o1, e1)"
    by (metis prod_cases4)
  have fields: "co_PassingSet (flake_finish baseline f o1) = co_PassingSet o1"
      "FlakeCount (flake_finish baseline f o1) = FlakeCount o1"
    by (simp_all add: flake_finish_def Let_def)
  have cases3: "o' = out \<and> evs = [] \<or> (o' = o1 \<or> o' = flake_finish baseline f o1) \<and> evs = e1 \<and> 0 < FlakeRerunBudget cfg"
    using run loop unfolding missing by (auto simp: applyFlakeRerun_def Let_def split: if_splits)
  obtain recovered where rc: "co_PassingSet o1 = co_PassingSet out @ recovered" "mset missing = mset recovered + mset f"
      "FlakeCount o1 = FlakeCount out + int (length recovered)"
    using flake_loop_split [OF loop] by blast
  have "set recovered \<subseteq> set missing" "length recovered \<le> length missing"
    using rc(2) by (metis mset_subset_eq_add_left set_mset_mono set_mset_mset,
        metis mset_subset_eq_add_left size_mset size_mset_mono)
  with rc have r1: "\<exists>rs. co_PassingSet o1 = co_PassingSet out @ rs \<and> set rs \<subseteq> set missing
       \<and> FlakeCount o1 = FlakeCount out + int (length rs) \<and> length rs \<le> length missing" by blast
  have r0: "\<exists>rs. co_PassingSet out = co_PassingSet out @ rs \<and> set rs \<subseteq> set missing
       \<and> FlakeCount out = FlakeCount out + int (length rs) \<and> length rs \<le> length missing"
    by (intro exI [of _ "[]"]) simp
  from cases3 show "\<exists>recovered. co_PassingSet o' = co_PassingSet out @ recovered \<and> set recovered \<subseteq> set missing
       \<and> FlakeCount o' = FlakeCount out + int (length recovered) \<and> length recovered \<le> length missing"
  proof (elim disjE conjE)
    assume "o' = out"
    then show ?thesis using r0 by simp
  next
    assume "o' = o1"
    then show ?thesis using r1 by simp
  next
    assume "o' = flake_finish baseline f o1"
    then show ?thesis using r1 by (simp only: fields)
  qed
  show "\<forall>e \<in> set evs. \<exists>r tid. e = EvtFlakeRerunStarted (ce_gen env) cid r tid
       \<and> 1 \<le> r \<and> r \<le> FlakeRerunBudget cfg \<and> tid \<in> set missing"
    using flake_loop_events [OF loop] cases3 by fastforce
qed

text \<open>The flake reruns only ever add tests of the baseline that the candidate was missing; the
  flake count grows by exactly the number of tests added, never by more than were missing, and
  every rerun is one of the retries the mode's budget allows, of a missing test.
\<close>

lemma flake_reruns_accounted:
  assumes "applyFlakeRerun env cid baseline suite cfg k out = (o', evs)"
    and "missing = filter (\<lambda>i. \<not> Has (co_PassingSet out) i) baseline"
  shows "(\<exists>recovered. co_PassingSet o' = co_PassingSet out @ recovered \<and> set recovered \<subseteq> set missing
       \<and> FlakeCount o' = FlakeCount out + int (length recovered) \<and> length recovered \<le> length missing)
    \<and> (\<forall>e \<in> set evs. \<exists>r tid. e = EvtFlakeRerunStarted (ce_gen env) cid r tid
       \<and> 1 \<le> r \<and> r \<le> FlakeRerunBudget cfg \<and> tid \<in> set missing)"
  using applyFlakeRerun_recovers [OF assms] by blast

definition demo_out :: CandidateOutcome where
  "demo_out = (candidate_start demo_cand)\<lparr>co_PassingSet := [''T1''], TestPassCount := 1, TestFailCount := 1,
     HardRejected := True, co_Reason := ''baseline_breaker''\<rparr>"

definition demo_cfg :: ModeConfig where
  "demo_cfg = \<lparr>MaxCandidates = 3, mc_TestTier = TestTierFull, FlakeRerunBudget = 2\<rparr>"

lemma demo_rerun:
  "applyFlakeRerun demo_env ''c1'' [''T1'', ''T2''] demo_suite demo_cfg 2 demo_out =
     (demo_out\<lparr>FlakeCount := 1, co_PassingSet := [''T1'', ''T2''], TestPassCount := 2, TestFailCount := 0,
               HardRejected := False, co_Reason := ''''\<rparr>,
      [EvtFlakeRerunStarted 1 ''c1'' 1 ''T2''])"
proof -
  have [simp]: "parseTestIDs ''T2'' = [''T2'']" by code_simp
  show ?thesis
    by (simp add: applyFlakeRerun_def flake_finish_def flake_round_def demo_out_def demo_cfg_def demo_env_def
        candidate_start_def HasAnyMissing_def numeral_2_eq_2 Let_def)
qed

end
