(* ===== verification/Merge.thy ===== *)
theory Merge
  imports Merge_Run "HOL-Library.AList"
begin

text \<open>
  The merge engine of \<^verbatim>\<open>src/internal/orchestrator/merge\<close>: request validation (validate.go, git.go),
  candidate scoring (scoring.go), the outcome cache and its reconstruction from the event log
  (cache.go) and the pipeline with fast-forward and rollback (engine.go), which calls the runs of
  \<open>Merge_Run\<close>.

  The world of the engine is the map of branch refs, the cache, the generation counter and the
  appended events. The environment of one \<open>Merge\<close> says what \<open>ctx.Err()\<close> returns at its k-th place in
  the code, how the k-th git call ends, and gives the environments of the test runs. The places of
  \<open>ctx.Err()\<close> are, in order: in \<open>Validate\<close> (0), after the started event (1), after a baseline error
  (2), after the baseline (3), after a run error (4), after the run (5), in \<open>Rank\<close> (6), after a rank
  error (7), after the scoring event (8), after an update-ref error (9), after the fast-forward
  (10). The git calls are: rev-parse (0) and merge-base (1) in \<open>Validate\<close>, the rev-parse before the
  fast-forward (2), update-ref (3), the rollback (4). Git does what it documents: rev-parse reads a
  ref, update-ref sets or deletes one; a call that fails may have landed its change before.
\<close>

subsection \<open>The world\<close>

record world =
  refs :: "string \<rightharpoonup> string"
  mcache :: "string \<rightharpoonup> MergeOutcome"
  gen :: int
  mlog :: "merge_event list"

datatype git_end = GitOk | GitErr merge_err | GitErrLanded merge_err

record merge_env =
  me_ctx :: "nat \<Rightarrow> string option"
  me_git :: "nat \<Rightarrow> git_end"
  me_merge_base :: "string list \<Rightarrow> string"
  me_base :: base_env
  me_cands :: "nat \<Rightarrow> cand_env"
  me_blast :: "(string list \<Rightarrow> f64 option) option"

definition emit :: "world \<Rightarrow> merge_event list \<Rightarrow> world" where
  "emit w evs = w\<lparr>mlog := mlog w @ evs\<rparr>"

fun isCtxCancelErr :: "merge_err \<Rightarrow> bool" where
  "isCtxCancelErr (CtxErr _) = True"
| "isCtxCancelErr _ = False"

subsection \<open>Validation (validate.go, git.go)\<close>

definition RevParse :: "git_end \<Rightarrow> world \<Rightarrow> string \<Rightarrow> merge_err + string" where
  "RevParse g w branch =
     (case g of
        GitOk \<Rightarrow> (case refs w branch of None \<Rightarrow> Inl ErrTargetNotExist
                  | Some sha \<Rightarrow> if trim_space sha = '''' then Inl ErrTargetNotExist
                                 else Inr (trim_space sha))
      | _ \<Rightarrow> Inl ErrTargetNotExist)"

definition MergeBase :: "git_end \<Rightarrow> merge_env \<Rightarrow> string list \<Rightarrow> merge_err + string" where
  "MergeBase g env heads =
     (if length heads < 2 then Inl (ErrMergeBase ''heads'')
      else case g of
        GitOk \<Rightarrow> (let sha = trim_space (me_merge_base env heads)
                   in if sha = '''' then Inl (ErrMergeBase ''empty'') else Inr sha)
      | GitErr e \<Rightarrow> Inl e
      | GitErrLanded e \<Rightarrow> Inl e)"

fun bad_candidate :: "nat \<Rightarrow> MergeCandidate list \<Rightarrow> merge_err option" where
  "bad_candidate i [] = None"
| "bad_candidate i (c # cs) =
     (if HeadSHA c = '''' then Some (ErrInvalidRequest (''Candidates['' @ dec_nat i @ ''].HeadSHA empty''))
      else if trim_space (mc_Branch c) = ''''
      then Some (ErrInvalidRequest (''Candidates['' @ dec_nat i @ ''].Branch empty or whitespace''))
      else bad_candidate (Suc i) cs)"

fun duplicate_head :: "(string \<times> nat) list \<Rightarrow> nat \<Rightarrow> MergeCandidate list \<Rightarrow> merge_err option" where
  "duplicate_head seen i [] = None"
| "duplicate_head seen i (c # cs) =
     (case map_of seen (HeadSHA c) of
        Some prior \<Rightarrow> Some (ErrCandidatesNotUnique i prior)
      | None \<Rightarrow> duplicate_head ((HeadSHA c, i) # seen) (Suc i) cs)"

definition Validate :: "merge_env \<Rightarrow> world \<Rightarrow> int \<Rightarrow> MergeRequest \<Rightarrow> merge_err option" where
  "Validate env w poolCapacity req =
     (if trim_space (TargetBranch req) = '''' then Some (ErrInvalidRequest ''TargetBranch empty or whitespace'')
      else if BaseSHA req = '''' then Some (ErrInvalidRequest ''BaseSHA empty'')
      else if rq_Mode req = ModeUnknown then Some (ErrInvalidRequest ''Mode=ModeUnknown'')
      else
        (let n = length (Candidates req) in
         if n < 1 \<or> n > 5 then Some (ErrInvalidRequest ''N'')
         else case bad_candidate 0 (Candidates req) of Some e \<Rightarrow> Some e
         | None \<Rightarrow>
         (case duplicate_head [] 0 (Candidates req) of Some e \<Rightarrow> Some e
          | None \<Rightarrow>
          (if poolCapacity < int n then Some (ErrPoolInsufficient poolCapacity n)
           else case me_ctx env 0 of Some e \<Rightarrow> Some (CtxErr e)
           | None \<Rightarrow>
           (case RevParse (me_git env 0) w (TargetBranch req) of Inl e \<Rightarrow> Some e
            | Inr _ \<Rightarrow>
            (if n \<ge> 2
             then (case MergeBase (me_git env 1) env (map HeadSHA (Candidates req)) of
                     Inl e \<Rightarrow> Some e
                   | Inr mb \<Rightarrow> if mb \<noteq> BaseSHA req then Some (ErrBaseNotMergeBase mb) else None)
             else None))))))"

subsection \<open>Scoring (scoring.go)\<close>

record ScoringConfig =
  AlphaReviewerWeight :: f64
  BetaPatchSizePenalty :: f64
  GammaFlakePenalty :: f64
  DeltaBlastRadiusPenalty :: f64

record ScoringResult =
  WinnerID :: string
  sr_AllScores :: "(string \<times> f64) list"
  TiebreakApplied :: bool
  HardRejectedIDs :: "string list"

definition vote_of :: "(string \<times> int) list \<Rightarrow> string \<Rightarrow> int" where
  "vote_of votes branch = (case map_of votes branch of None \<Rightarrow> 0 | Some v \<Rightarrow> v)"

definition score_of :: "ScoringConfig \<Rightarrow> (string \<times> int) list \<Rightarrow> CandidateOutcome \<Rightarrow> f64" where
  "score_of c votes r =
     f_sub (f_sub (f_sub
       (f_mul (AlphaReviewerWeight c) (f_of_int (vote_of votes (mc_Branch (co_Candidate r)))))
       (f_mul (BetaPatchSizePenalty c) (f_of_int (co_PatchSizeLines r))))
       (f_mul (GammaFlakePenalty c) (f_of_int (FlakeCount r))))
       (f_mul (DeltaBlastRadiusPenalty c) (co_BlastRadius r))"

definition co_id :: "CandidateOutcome \<Rightarrow> string" where
  "co_id r = HeadSHA (co_Candidate r)"

fun pick_best :: "(string \<Rightarrow> f64) \<Rightarrow> string list \<Rightarrow> string \<times> f64 \<times> bool \<Rightarrow> string" where
  "pick_best sc [] (winner, _, _) = winner"
| "pick_best sc (i # is) (winner, winnerScore, first) =
     (if first \<or> f_lt winnerScore (sc i) then pick_best sc is (i, sc i, False)
      else pick_best sc is (winner, winnerScore, first))"

definition max_pass :: "CandidateOutcome list \<Rightarrow> int" where
  "max_pass survivors = fold (\<lambda>r m. if TestPassCount r > m then TestPassCount r else m) survivors (- 1)"

definition tied_candidates :: "CandidateOutcome list \<Rightarrow> CandidateOutcome list" where
  "tied_candidates survivors = filter (\<lambda>r. TestPassCount r = max_pass survivors) survivors"

definition score_map :: "ScoringConfig \<Rightarrow> (string \<times> int) list \<Rightarrow> CandidateOutcome list \<Rightarrow> (string \<times> f64) list" where
  "score_map c votes tied = fold (\<lambda>r m. AList.update (co_id r) (score_of c votes r) m) tied []"

definition Rank ::
  "string option \<Rightarrow> CandidateOutcome list \<Rightarrow> (string \<times> int) list \<Rightarrow> ScoringConfig \<Rightarrow> merge_err + ScoringResult" where
  "Rank ctx outcomes votes c =
     (case ctx of
        Some e \<Rightarrow> Inl (CtxErr e)
      | None \<Rightarrow>
          (let survivors = filter (\<lambda>r. \<not> HardRejected r) outcomes;
               rejected = map co_id (filter HardRejected outcomes) in
           if survivors = [] then Inl (ErrNoSurvivors (length rejected))
           else
             (let tied = tied_candidates survivors in
              if length tied = 1
              then Inr \<lparr>WinnerID = co_id (hd tied), sr_AllScores = [], TiebreakApplied = False,
                        HardRejectedIDs = rejected\<rparr>
              else
                (let scores = score_map c votes tied;
                     ids = sort (map fst scores)
                 in Inr \<lparr>WinnerID = pick_best (\<lambda>i. the (map_of scores i)) ids ('''', Fin 0, True),
                         sr_AllScores = scores, TiebreakApplied = True,
                         HardRejectedIDs = rejected\<rparr>))))"

definition ValidateTightenOnly :: "ScoringConfig \<Rightarrow> ScoringConfig \<Rightarrow> string option" where
  "ValidateTightenOnly base override =
     (if f_lt (BetaPatchSizePenalty override) (BetaPatchSizePenalty base) then Some ''BetaPatchSizePenalty''
      else if f_lt (GammaFlakePenalty override) (GammaFlakePenalty base) then Some ''GammaFlakePenalty''
      else if f_lt (DeltaBlastRadiusPenalty override) (DeltaBlastRadiusPenalty base)
      then Some ''DeltaBlastRadiusPenalty''
      else None)"

subsection \<open>Cache (cache.go)\<close>

definition CacheKey :: "MergeRequest \<Rightarrow> string" where
  "CacheKey req =
     hex_encode (sha256 (TargetBranch req @ [char_of (0 :: nat)] @ BaseSHA req @ [char_of (0 :: nat)]
       @ concat (map (\<lambda>h. h @ [char_of (0 :: nat)]) (sort (map HeadSHA (Candidates req))))
       @ EngineVersion req))"

definition Lookup :: "world \<Rightarrow> MergeRequest \<Rightarrow> MergeOutcome option" where
  "Lookup w req = mcache w (CacheKey req)"

definition Store :: "world \<Rightarrow> MergeRequest \<Rightarrow> MergeOutcome \<Rightarrow> world" where
  "Store w req out = w\<lparr>mcache := (mcache w)(CacheKey req \<mapsto> out)\<rparr>"

definition Clear :: "world \<Rightarrow> world" where
  "Clear w = w\<lparr>mcache := Map.empty\<rparr>"

text \<open>
  \<open>Rebuild\<close> replays the log into the cache: \<open>rebuild_from\<close> gives the cache, the number of events
  read and the error. A completed merge whose payload could not be encoded ends the replay.
\<close>

fun rebuild_from :: "merge_event list \<Rightarrow> (string \<rightharpoonup> MergeOutcome) \<Rightarrow> nat \<Rightarrow> (string \<rightharpoonup> MergeOutcome) \<times> nat \<times> merge_err option" where
  "rebuild_from [] c n = (c, n, None)"
| "rebuild_from (e # es) c n =
     (case e of
        EvtMergeCompleted g key payload \<Rightarrow>
          (case payload of
             None \<Rightarrow> (c, Suc n, Some (ErrDecode g))
           | Some out \<Rightarrow> rebuild_from es (c(key \<mapsto> out)) (Suc n))
      | _ \<Rightarrow> rebuild_from es c (Suc n))"

definition Rebuild :: "merge_event list \<Rightarrow> world \<Rightarrow> world \<times> merge_err option" where
  "Rebuild events w =
     (let (c, n, err) = rebuild_from events (mcache w) 0
      in (emit (w\<lparr>mcache := c\<rparr>) [EvtMergeCacheRebuilt n err], err))"

subsection \<open>The pipeline (engine.go)\<close>

record EngineConfig =
  Scoring :: ScoringConfig
  ec_EngineVersion :: string
  PoolCapacity :: int

definition emitMergeFailed :: "world \<Rightarrow> MergeRequest \<Rightarrow> string \<Rightarrow> fail_detail \<Rightarrow> world" where
  "emitMergeFailed w req reason detail = emit w [EvtMergeFailed (gen w) (CacheKey req) reason detail]"

fun lookupCandidate :: "MergeCandidate list \<Rightarrow> string \<Rightarrow> MergeCandidate option" where
  "lookupCandidate [] headSHA = None"
| "lookupCandidate (c # cs) headSHA = (if HeadSHA c = headSHA then Some c else lookupCandidate cs headSHA)"

definition splitLines :: "string \<Rightarrow> string list" where
  "splitLines b =
     (if b = '''' then []
      else split_on newline (if last b = newline then butlast b else b))"

fun changed_files :: "string list \<Rightarrow> string list \<Rightarrow> string list" where
  "changed_files [] acc = acc"
| "changed_files (line # ls) acc =
     (if length line < 4 \<or> take 4 line \<noteq> ''+++ '' then changed_files ls acc
      else
        (let path0 = drop 4 line;
             path = (if take 2 path0 = ''b/'' then drop 2 path0 else path0) in
         if path = ''/dev/null'' then changed_files ls acc
         else if path \<noteq> '''' \<and> path \<notin> set acc then changed_files ls (acc @ [path])
         else changed_files ls acc))"

definition candidateChangedFiles :: "MergeCandidate \<Rightarrow> string list" where
  "candidateChangedFiles cand = (if Patch cand = '''' then [] else changed_files (splitLines (Patch cand)) [])"

definition signed_dec :: "int \<Rightarrow> string" where
  "signed_dec v = (if v < 0 then dec_int v else CHR ''+'' # dec_int v)"

definition summarizeVotes :: "(string \<times> int) list \<Rightarrow> string" where
  "summarizeVotes votes =
     join_with '', '' (map (\<lambda>k. k @ '':'' @ signed_dec (vote_of votes k)) (sort (remdups (map fst votes))))"

definition score_blast :: "(string list \<Rightarrow> f64 option) option \<Rightarrow> CandidateOutcome \<Rightarrow> CandidateOutcome" where
  "score_blast scorer r =
     (case scorer of None \<Rightarrow> r
      | Some f \<Rightarrow> (case f (candidateChangedFiles (co_Candidate r)) of None \<Rightarrow> r | Some v \<Rightarrow> r\<lparr>co_BlastRadius := v\<rparr>))"

text \<open>\<open>git update-ref\<close> to a value, or with \<open>-d\<close> when the value is \<open>None\<close>.\<close>

definition update_ref :: "git_end \<Rightarrow> world \<Rightarrow> string \<Rightarrow> string option \<Rightarrow> world \<times> merge_err option" where
  "update_ref g w branch sha =
     (let w' = w\<lparr>refs := (refs w)(branch := sha)\<rparr> in
      case g of GitOk \<Rightarrow> (w', None) | GitErr e \<Rightarrow> (w, Some e) | GitErrLanded e \<Rightarrow> (w', Some e))"

definition rollbackFastForward :: "git_end \<Rightarrow> world \<Rightarrow> string \<Rightarrow> string \<Rightarrow> world \<times> merge_err option" where
  "rollbackFastForward g w target preSHA =
     update_ref g w target (if preSHA = '''' then None else Some preSHA)"

text \<open>\<open>json.Marshal\<close> refuses a float that is not finite and a time whose year is outside 0 to 9999.\<close>

definition json_time :: "time \<Rightarrow> bool" where
  "json_time t \<longleftrightarrow> - (366 * 24 * hour) \<le> t \<and> t < 3652059 * (24 * hour)"

fun json_float :: "f64 \<Rightarrow> bool" where
  "json_float (Fin q) = True"
| "json_float _ = False"

definition json_outcome :: "MergeOutcome \<Rightarrow> MergeOutcome option" where
  "json_outcome out =
     (if json_time (SubmittedAt (mo_Winner out)) \<and> list_all (json_float \<circ> snd) (mo_AllScores out)
      then Some out else None)"

abbreviation reverted_outcome :: MergeOutcome where
  "reverted_outcome \<equiv> zero_outcome\<lparr>Reverted := True\<rparr>"

type_synonym merge_result = "world \<times> MergeOutcome \<times> merge_err option"

definition preFF :: "merge_env \<Rightarrow> world \<Rightarrow> string \<Rightarrow> string" where
  "preFF env w branch =
     (case me_git env 2 of
        GitOk \<Rightarrow> (case refs w branch of None \<Rightarrow> '''' | Some sha \<Rightarrow> trim_space sha)
      | _ \<Rightarrow> '''')"

definition integrate :: "merge_env \<Rightarrow> world \<Rightarrow> MergeRequest \<Rightarrow> int \<Rightarrow> ScoringResult \<Rightarrow> merge_result" where
  "integrate env w req g res =
     (case lookupCandidate (Candidates req) (WinnerID res) of
        None \<Rightarrow> (emitMergeFailed w req ''integration_failed'' (WinnerIDNotInCandidates (WinnerID res)),
                 zero_outcome, Some (ErrWinnerNotCandidate (WinnerID res)))
      | Some winner \<Rightarrow>
        (let pre = preFF env w (TargetBranch req);
             (w1, err) = update_ref (me_git env 3) w (TargetBranch req) (Some (HeadSHA winner)) in
         case err of
           Some e \<Rightarrow>
             (if isCtxCancelErr e \<or> me_ctx env 9 \<noteq> None
              then (let (w2, rerr) = rollbackFastForward (me_git env 4) w1 (TargetBranch req) pre
                    in (emitMergeFailed w2 req ''ctx_cancelled'' (CancelledDuringUpdateRef e rerr),
                        reverted_outcome, Some e))
              else (emitMergeFailed w1 req ''integration_failed'' (UpdateRefFailed e), zero_outcome, Some e))
         | None \<Rightarrow>
             (case me_ctx env 10 of
                Some ce \<Rightarrow>
                  (let (w2, rerr) = rollbackFastForward (me_git env 4) w1 (TargetBranch req) pre
                   in (emitMergeFailed w2 req ''ctx_cancelled'' (CancelledPostFastForward rerr),
                       reverted_outcome, Some (CtxErr ce)))
              | None \<Rightarrow>
                  (let out = \<lparr>mo_Winner = winner, IntegrationSHA = HeadSHA winner, TestsPassed = True,
                              ReviewerSummary = summarizeVotes (ReviewerVotes req),
                              mo_AllScores = sr_AllScores res, Reverted = False\<rparr>
                   in (emit (Store w1 req out) [EvtMergeCompleted g (CacheKey req) (json_outcome out)],
                       out, None)))))"

definition fail_stage :: "world \<Rightarrow> MergeRequest \<Rightarrow> bool \<Rightarrow> string \<Rightarrow> merge_err \<Rightarrow> merge_result" where
  "fail_stage w req cancelled reason e =
     (if cancelled then (emitMergeFailed w req ''ctx_cancelled'' (Detail e), reverted_outcome, Some e)
      else (emitMergeFailed w req reason (Detail e), zero_outcome, Some e))"

definition rank_stage :: "EngineConfig \<Rightarrow> merge_env \<Rightarrow> world \<Rightarrow> MergeRequest \<Rightarrow> int \<Rightarrow> CandidateOutcome list \<Rightarrow> merge_result" where
  "rank_stage cfg env w req g outcomes =
     (case Rank (me_ctx env 6) (map (score_blast (me_blast env)) outcomes) (ReviewerVotes req) (Scoring cfg) of
        Inl e \<Rightarrow> fail_stage w req (isCtxCancelErr e \<or> me_ctx env 7 \<noteq> None) ''all_candidates_failed'' e
      | Inr res \<Rightarrow>
          (let w1 = emit w [EvtScoringComplete g (CacheKey req) (WinnerID res) (sr_AllScores res)
                              (TiebreakApplied res) (HardRejectedIDs res)] in
           case me_ctx env 8 of
             Some ce \<Rightarrow> fail_stage w1 req True '''' (CtxErr ce)
           | None \<Rightarrow> integrate env w1 req g res))"

definition run_stage :: "EngineConfig \<Rightarrow> merge_env \<Rightarrow> world \<Rightarrow> MergeRequest \<Rightarrow> int \<Rightarrow> string list \<Rightarrow> merge_result" where
  "run_stage cfg env w req g passingSet =
     (case RunCandidates g (me_cands env) (Candidates req) (BaseSHA req) passingSet (rq_Mode req) (rq_TestSuite req) of
        ((outcomes, Some e), evs) \<Rightarrow>
          fail_stage (emit w evs) req (isCtxCancelErr e \<or> me_ctx env 4 \<noteq> None) ''all_candidates_failed'' e
      | ((outcomes, None), evs) \<Rightarrow>
          (case me_ctx env 5 of
             Some ce \<Rightarrow> fail_stage (emit w evs) req True '''' (CtxErr ce)
           | None \<Rightarrow> rank_stage cfg env (emit w evs) req g outcomes))"

text \<open>\<open>None\<close> is the panic of \<open>ModeFor\<close> in the baseline run.\<close>

definition baseline_stage :: "EngineConfig \<Rightarrow> merge_env \<Rightarrow> world \<Rightarrow> MergeRequest \<Rightarrow> int \<Rightarrow> merge_result option" where
  "baseline_stage cfg env w req g =
     (case Baseline_Run (me_base env) (BaseSHA req) (rq_Mode req) (rq_TestSuite req) of
        None \<Rightarrow> None
      | Some (Inl e, evs) \<Rightarrow>
          Some (fail_stage (emit w evs) req (isCtxCancelErr e \<or> me_ctx env 2 \<noteq> None) ''baseline_failed'' e)
      | Some (Inr passingSet, evs) \<Rightarrow>
          (case me_ctx env 3 of
             Some ce \<Rightarrow> Some (fail_stage (emit w evs) req True '''' (CtxErr ce))
           | None \<Rightarrow> Some (run_stage cfg env (emit w evs) req g passingSet)))"

definition with_version :: "EngineConfig \<Rightarrow> MergeRequest \<Rightarrow> MergeRequest" where
  "with_version cfg req =
     (if EngineVersion req = '''' then req\<lparr>EngineVersion := ec_EngineVersion cfg\<rparr> else req)"

definition Merge :: "EngineConfig \<Rightarrow> merge_env \<Rightarrow> world \<Rightarrow> MergeRequest \<Rightarrow> merge_result option" where
  "Merge cfg env w req0 =
     (case Validate env w (PoolCapacity cfg) req0 of
        Some e \<Rightarrow> Some (fail_stage w req0 (isCtxCancelErr e) ''invalid_request'' e)
      | None \<Rightarrow>
        (let req = with_version cfg req0;
             g = i64 (gen w + 1);
             w1 = w\<lparr>gen := g\<rparr> in
         case Lookup w1 req of
           Some cached \<Rightarrow>
             Some (emit w1 [EvtMergeCacheHit g (CacheKey req) (HeadSHA (mo_Winner cached))], cached, None)
         | None \<Rightarrow>
             (let w2 = emit w1 [EvtMergeStartedWithMode g (CacheKey req) (Mode_String (rq_Mode req)) (TriggerEventID req)] in
              case me_ctx env 1 of
                Some ce \<Rightarrow> Some (fail_stage w2 req True '''' (CtxErr ce))
              | None \<Rightarrow> baseline_stage cfg env w2 req g)))"

subsection \<open>Frames\<close>

lemma emit_simps [simp]:
  "refs (emit w evs) = refs w" "mcache (emit w evs) = mcache w" "gen (emit w evs) = gen w"
  "mlog (emit w evs) = mlog w @ evs"
  by (simp_all add: emit_def)

lemma emitMergeFailed_simps [simp]:
  "refs (emitMergeFailed w req r d) = refs w" "mcache (emitMergeFailed w req r d) = mcache w"
  by (simp_all add: emitMergeFailed_def)

lemma fail_stage_simps [simp]:
  "refs (fst (fail_stage w req b r e)) = refs w" "mcache (fst (fail_stage w req b r e)) = mcache w"
  "snd (snd (fail_stage w req b r e)) = Some e" "fail_stage w req b r e \<noteq> (w', out, None)"
  by (auto simp: fail_stage_def)

lemma Store_simps [simp]: "refs (Store w req out) = refs w" "mlog (Store w req out) = mlog w"
  by (simp_all add: Store_def)

lemma with_version_simps [simp]:
  "TargetBranch (with_version cfg req) = TargetBranch req" "BaseSHA (with_version cfg req) = BaseSHA req"
  "rq_Mode (with_version cfg req) = rq_Mode req" "Candidates (with_version cfg req) = Candidates req"
  "rq_TestSuite (with_version cfg req) = rq_TestSuite req" "ReviewerVotes (with_version cfg req) = ReviewerVotes req"
  by (simp_all add: with_version_def)

lemma score_blast_simps [simp]:
  "co_Candidate (score_blast f r) = co_Candidate r" "HardRejected (score_blast f r) = HardRejected r"
  "TestPassCount (score_blast f r) = TestPassCount r"
  by (auto simp: score_blast_def split: option.splits)

subsection \<open>Validation and scoring\<close>

lemma duplicate_head_None:
  "duplicate_head seen i cs = None \<Longrightarrow> distinct (map HeadSHA cs) \<and> (\<forall>c \<in> set cs. HeadSHA c \<notin> fst ` set seen)"
proof (induction seen i cs rule: duplicate_head.induct)
  case (2 seen i c cs)
  from "2.prems" have "map_of seen (HeadSHA c) = None" by (auto split: option.splits)
  with 2 show ?case by (auto simp: map_of_eq_None_iff)
qed simp

lemma Validate_None:
  assumes "Validate env w cap req = None"
  shows "distinct (map HeadSHA (Candidates req)) \<and> Candidates req \<noteq> [] \<and> rq_Mode req \<noteq> ModeUnknown
    \<and> (\<exists>sha. refs w (TargetBranch req) = Some sha \<and> trim_space sha \<noteq> '''')"
  using assms
  by (auto simp: Validate_def RevParse_def Let_def dest!: duplicate_head_None
      split: if_splits option.splits git_end.splits sum.splits)

lemma lookupCandidate_Some: "lookupCandidate cs h = Some c \<Longrightarrow> c \<in> set cs \<and> HeadSHA c = h"
  by (induction cs) (auto split: if_splits)

lemma lookupCandidate_mem: "c \<in> set cs \<Longrightarrow> \<exists>c' \<in> set cs. lookupCandidate cs (HeadSHA c) = Some c' \<and> HeadSHA c' = HeadSHA c"
  by (induction cs) auto

lemma fold_max_ge: "m \<le> fold (\<lambda>r m. if f r > m then f r else m) xs (m :: int)
    \<and> (\<forall>x \<in> set xs. f x \<le> fold (\<lambda>r m. if f r > m then f r else m) xs m)
    \<and> (fold (\<lambda>r m. if f r > m then f r else m) xs m \<in> insert m (f ` set xs))"
proof (induction xs arbitrary: m)
  case (Cons x xs)
  show ?case using Cons [of "if f x > m then f x else m"] by auto
qed simp

lemma max_pass_bounds:
  assumes "survivors \<noteq> []" "\<forall>r \<in> set survivors. 0 \<le> TestPassCount r"
  shows "(\<forall>r \<in> set survivors. TestPassCount r \<le> max_pass survivors)
    \<and> (\<exists>r \<in> set survivors. TestPassCount r = max_pass survivors)"
proof -
  obtain r where r: "r \<in> set survivors" using assms(1) by (meson list.set_sel(1))
  note b = fold_max_ge [of "- 1" TestPassCount survivors, folded max_pass_def]
  have "0 \<le> TestPassCount r" "TestPassCount r \<le> max_pass survivors" using b r assms(2) by auto
  with b show ?thesis by auto
qed

lemma score_map_of:
  "map_of (fold (\<lambda>r m. AList.update (co_id r) (h r) m) tied m) = fold (\<lambda>r m. m(co_id r \<mapsto> h r)) tied (map_of m)"
  by (induction tied arbitrary: m) (auto simp: update_conv')

lemma score_map_distinct: "distinct (map fst m) \<Longrightarrow> distinct (map fst (fold (\<lambda>r m. AList.update (co_id r) (h r) m) tied m))"
  by (induction tied arbitrary: m) (auto intro: distinct_update)

lemma fold_upd_at: "x \<notin> co_id ` set tied \<Longrightarrow> fold (\<lambda>r m. m(co_id r \<mapsto> h r)) tied m x = m x"
  by (induction tied arbitrary: m) auto

lemma fold_upd_distinct:
  "distinct (map co_id tied) \<Longrightarrow> r \<in> set tied \<Longrightarrow> fold (\<lambda>r m. m(co_id r \<mapsto> h r)) tied m (co_id r) = Some (h r)"
  by (induction tied arbitrary: m) (auto simp: fold_upd_at)

lemma fold_upd_dom: "dom (fold (\<lambda>r m. m(co_id r \<mapsto> h r)) tied m) = dom m \<union> co_id ` set tied"
  by (induction tied arbitrary: m) auto

lemma score_map_keys: "set (map fst (score_map c votes tied)) = co_id ` set tied"
proof -
  have "dom (map_of (score_map c votes tied)) = co_id ` set tied"
    by (simp add: score_map_def score_map_of fold_upd_dom)
  then show ?thesis by (simp add: dom_map_of_conv_image_fst)
qed

lemma score_map_at:
  "distinct (map co_id tied) \<Longrightarrow> r \<in> set tied \<Longrightarrow> map_of (score_map c votes tied) (co_id r) = Some (score_of c votes r)"
  by (simp add: score_map_def score_map_of fold_upd_distinct)

lemma f_lt_trans: "f_lt x y \<Longrightarrow> f_lt y z \<Longrightarrow> f_lt x z"
  by (cases x; cases y; cases z) (auto split: if_splits)

lemma f_trichotomy: "x \<noteq> NaN \<Longrightarrow> y \<noteq> NaN \<Longrightarrow> f_lt x y \<or> x = y \<or> f_lt y x"
  using f_lt_le f_le_antisym by blast

lemma pick_best_running:
  assumes "sorted (w # is)" and "\<forall>i \<in> set (w # is). sc i \<noteq> NaN"
  shows "pick_best sc is (w, sc w, False) \<in> set (w # is)
    \<and> (\<forall>i \<in> set (w # is). f_lt (sc i) (sc (pick_best sc is (w, sc w, False)))
         \<or> sc i = sc (pick_best sc is (w, sc w, False)) \<and> pick_best sc is (w, sc w, False) \<le> i)"
  using assms
proof (induction "is" arbitrary: w)
  case (Cons j js)
  let ?best = "\<lambda>w. pick_best sc js (w, sc w, False)"
  show ?case
  proof (cases "f_lt (sc w) (sc j)")
    case True
    have IH: "?best j \<in> set (j # js) \<and> (\<forall>i \<in> set (j # js). f_lt (sc i) (sc (?best j)) \<or> sc i = sc (?best j) \<and> ?best j \<le> i)"
      using Cons.IH [of j] Cons.prems by simp
    then have "f_lt (sc w) (sc (?best j))" using True f_lt_trans by (metis list.set_intros(1))
    with IH True show ?thesis by simp
  next
    case False
    have IH: "?best w \<in> set (w # js) \<and> (\<forall>i \<in> set (w # js). f_lt (sc i) (sc (?best w)) \<or> sc i = sc (?best w) \<and> ?best w \<le> i)"
      using Cons.IH [of w] Cons.prems by auto
    have j: "f_lt (sc j) (sc w) \<or> sc j = sc w" using f_trichotomy False Cons.prems(2) by auto
    have "f_lt (sc j) (sc (?best w)) \<or> sc j = sc (?best w) \<and> ?best w \<le> j"
    proof -
      have "w \<le> j" using Cons.prems(1) by simp
      moreover have "f_lt (sc w) (sc (?best w)) \<or> sc w = sc (?best w) \<and> ?best w \<le> w" using IH by simp
      ultimately show ?thesis using j f_lt_trans [of "sc j" "sc w"] order_trans [of "?best w" w j] by auto
    qed
    with IH False show ?thesis by auto
  qed
qed simp

lemma pick_best_spec:
  assumes "is \<noteq> []" "sorted is" "\<forall>i \<in> set is. sc i \<noteq> NaN"
  shows "pick_best sc is (w, s, True) \<in> set is
    \<and> (\<forall>i \<in> set is. f_lt (sc i) (sc (pick_best sc is (w, s, True)))
         \<or> sc i = sc (pick_best sc is (w, s, True)) \<and> pick_best sc is (w, s, True) \<le> i)"
proof (cases "is")
  case (Cons j js)
  with pick_best_running [of j js sc] assms show ?thesis by simp
qed (use assms in simp)

lemma pick_best_mem_running: "pick_best sc is (w, s, False) \<in> insert w (set is)"
proof (induction "is" arbitrary: w s)
  case (Cons a as)
  from Cons [of a "sc a"] Cons [of w s] show ?case by auto
qed simp

lemma pick_best_mem: "is \<noteq> [] \<Longrightarrow> pick_best sc is (w, s, True) \<in> set is"
  using pick_best_mem_running by (cases "is") fastforce+

abbreviation survivors_of :: "CandidateOutcome list \<Rightarrow> CandidateOutcome list" where
  "survivors_of outs \<equiv> filter (\<lambda>r. \<not> HardRejected r) outs"

lemma survivors_max:
  assumes "survivors_of outs \<noteq> []" and "\<forall>r \<in> set outs. \<not> HardRejected r \<longrightarrow> 0 \<le> TestPassCount r"
  shows "(\<forall>r \<in> set (survivors_of outs). TestPassCount r \<le> max_pass (survivors_of outs))
      \<and> (\<exists>r \<in> set (survivors_of outs). TestPassCount r = max_pass (survivors_of outs))"
  by (rule max_pass_bounds [OF assms(1)]) (use assms(2) in auto)

lemma tied_nonempty:
  assumes "survivors_of outs \<noteq> []" and "\<forall>r \<in> set outs. \<not> HardRejected r \<longrightarrow> 0 \<le> TestPassCount r"
  shows "tied_candidates (survivors_of outs) \<noteq> []"
  using survivors_max [OF assms] by (auto simp: tied_candidates_def filter_empty_conv)

lemma tied_survives:
  "r \<in> set (tied_candidates (survivors_of outs)) \<Longrightarrow> r \<in> set outs \<and> \<not> HardRejected r"
  by (auto simp: tied_candidates_def)

lemma tied_top:
  assumes "survivors_of outs \<noteq> []" and "\<forall>r \<in> set outs. \<not> HardRejected r \<longrightarrow> 0 \<le> TestPassCount r"
    and "r \<in> set (tied_candidates (survivors_of outs))" and "r' \<in> set outs" "\<not> HardRejected r'"
  shows "TestPassCount r' < TestPassCount r
     \<or> TestPassCount r' = TestPassCount r \<and> r' \<in> set (tied_candidates (survivors_of outs))"
proof -
  have "TestPassCount r' \<le> max_pass (survivors_of outs)" using survivors_max [OF assms(1,2)] assms(4,5) by simp
  moreover have "TestPassCount r = max_pass (survivors_of outs)" using assms(3) by (simp add: tied_candidates_def)
  ultimately show ?thesis using assms(4,5) by (auto simp: tied_candidates_def)
qed

lemma image_set_nonempty: "set xs = f ` set ys \<Longrightarrow> ys \<noteq> [] \<Longrightarrow> xs \<noteq> []"
  by auto

lemma RankE:
  assumes "Rank ctx outs votes c = Inr res"
  obtains (single) r where "survivors_of outs \<noteq> []" "tied_candidates (survivors_of outs) = [r]" "WinnerID res = co_id r"
  | (tiebreak) scores where "survivors_of outs \<noteq> []" "scores = score_map c votes (tied_candidates (survivors_of outs))"
      "WinnerID res = pick_best (\<lambda>i. the (map_of scores i)) (sort (map fst scores)) ('''', Fin 0, True)"
proof (cases "length (tied_candidates (survivors_of outs)) = 1")
  case True
  then obtain r where "tied_candidates (survivors_of outs) = [r]" by (auto simp: length_Suc_conv)
  with assms single show thesis by (auto simp: Rank_def Let_def split: option.splits if_splits)
next
  case False
  with assms tiebreak show thesis by (auto simp: Rank_def Let_def split: option.splits if_splits)
qed

lemma Rank_tied_winner:
  assumes "Rank ctx outs votes c = Inr res" and "tied_candidates (survivors_of outs) \<noteq> []"
  shows "WinnerID res \<in> co_id ` set (tied_candidates (survivors_of outs))"
  using assms(1)
proof (cases rule: RankE)
  case (tiebreak scores)
  have ids: "set (sort (map fst scores)) = co_id ` set (tied_candidates (survivors_of outs))"
    unfolding tiebreak(2) set_sort by (rule score_map_keys)
  from pick_best_mem [OF image_set_nonempty [OF ids assms(2)]] show ?thesis unfolding tiebreak(3) ids .
qed simp

lemma Rank_winner_survives:
  assumes rank: "Rank ctx outs votes c = Inr res"
    and counts: "\<forall>r \<in> set outs. \<not> HardRejected r \<longrightarrow> 0 \<le> TestPassCount r"
  shows "\<exists>r \<in> set outs. \<not> HardRejected r \<and> co_id r = WinnerID res
    \<and> (\<forall>r' \<in> set outs. \<not> HardRejected r' \<longrightarrow> TestPassCount r' \<le> TestPassCount r)"
proof -
  have sv: "survivors_of outs \<noteq> []" using rank by (cases rule: RankE) simp_all
  from Rank_tied_winner [OF rank tied_nonempty [OF sv counts]] obtain r
    where r: "r \<in> set (tied_candidates (survivors_of outs))" "WinnerID res = co_id r" by blast
  have "TestPassCount r' \<le> TestPassCount r" if "r' \<in> set outs" "\<not> HardRejected r'" for r'
    using tied_top [OF sv counts r(1) that] by linarith
  with r tied_survives [OF r(1)] show ?thesis by metis
qed

lemma Rank_tiebreak_best:
  assumes rank: "Rank ctx outs votes c = Inr res" and ids: "distinct (map co_id outs)"
    and scores: "\<forall>r \<in> set outs. score_of c votes r \<noteq> NaN"
    and r: "r \<in> set (tied_candidates (survivors_of outs))" "WinnerID res = co_id r"
    and r': "r' \<in> set (tied_candidates (survivors_of outs))"
  shows "r' = r \<or> f_lt (score_of c votes r') (score_of c votes r)
    \<or> score_of c votes r' = score_of c votes r \<and> co_id r \<le> co_id r'"
  using rank
proof (cases rule: RankE)
  case (single r0)
  then show ?thesis using r r' by simp
next
  case (tiebreak scores')
  let ?tied = "tied_candidates (survivors_of outs)"
  define ids' where "ids' = sort (map fst scores')"
  define sc where "sc = (\<lambda>i. the (map_of scores' i))"
  have dt: "distinct (map co_id ?tied)" using ids by (auto simp: tied_candidates_def distinct_map inj_on_def)
  have sid: "set ids' = co_id ` set ?tied"
    unfolding ids'_def tiebreak(2) set_sort by (rule score_map_keys)
  have sc: "sc (co_id r) = score_of c votes r" if "r \<in> set ?tied" for r
    unfolding sc_def tiebreak(2) score_map_at [OF dt that] by simp
  have "?tied \<noteq> []" using r(1) by force
  then have "ids' \<noteq> []" by (rule image_set_nonempty [OF sid])
  moreover have "sorted ids'" by (simp add: ids'_def)
  moreover have "\<forall>i \<in> set ids'. sc i \<noteq> NaN"
    unfolding sid using sc scores by (auto simp: tied_candidates_def)
  ultimately have "\<forall>i \<in> set ids'. f_lt (sc i) (sc (WinnerID res)) \<or> sc i = sc (WinnerID res) \<and> WinnerID res \<le> i"
    unfolding tiebreak(3) ids'_def [symmetric] sc_def [symmetric] using pick_best_spec by blast
  then show ?thesis using sc [OF r'] sc [OF r(1)] r' unfolding sid r(2) by (metis imageI)
qed

text \<open>When the pass counts are counts, the heads are distinct and no score is NaN, the winner of
  \<open>Rank\<close> is the survivor that is first in the order of the two stages: most passing tests, then the
  highest score, then the smallest head. No rejected candidate can win.
\<close>

lemma Rank_selects_best:
  assumes rank: "Rank ctx outs votes c = Inr res"
    and counts: "\<forall>r \<in> set outs. \<not> HardRejected r \<longrightarrow> 0 \<le> TestPassCount r"
    and ids: "distinct (map co_id outs)"
    and scores: "\<forall>r \<in> set outs. score_of c votes r \<noteq> NaN"
  shows "\<exists>r \<in> set outs. \<not> HardRejected r \<and> co_id r = WinnerID res
    \<and> (\<forall>r' \<in> set outs. \<not> HardRejected r' \<longrightarrow>
         TestPassCount r' < TestPassCount r
       \<or> TestPassCount r' = TestPassCount r
         \<and> (r' = r \<or> f_lt (score_of c votes r') (score_of c votes r)
            \<or> score_of c votes r' = score_of c votes r \<and> co_id r \<le> co_id r'))"
proof -
  have sv: "survivors_of outs \<noteq> []" using rank by (cases rule: RankE) simp_all
  from Rank_tied_winner [OF rank tied_nonempty [OF sv counts]] obtain r
    where r: "r \<in> set (tied_candidates (survivors_of outs))" "WinnerID res = co_id r" by blast
  have "TestPassCount r' < TestPassCount r \<or> TestPassCount r' = TestPassCount r
         \<and> (r' = r \<or> f_lt (score_of c votes r') (score_of c votes r)
            \<or> score_of c votes r' = score_of c votes r \<and> co_id r \<le> co_id r')"
    if "r' \<in> set outs" "\<not> HardRejected r'" for r'
    using tied_top [OF sv counts r(1) that] Rank_tiebreak_best [OF rank ids scores r] by blast
  with r tied_survives [OF r(1)] show ?thesis by metis
qed

definition zero_weights :: ScoringConfig where
  "zero_weights = \<lparr>AlphaReviewerWeight = Fin 0, BetaPatchSizePenalty = Fin 0, GammaFlakePenalty = Fin 0,
     DeltaBlastRadiusPenalty = Fin 0\<rparr>"

definition demo_passed :: "string \<Rightarrow> CandidateOutcome" where
  "demo_passed h = (candidate_start (demo_cand\<lparr>HeadSHA := h\<rparr>))\<lparr>TestPassCount := 2, co_PassingSet := [''T1'', ''T2'']\<rparr>"

lemma demo_patch_size: "PatchSizeLines ''+x'' = 1"
  by code_simp

lemma demo_score: "score_of zero_weights [] (demo_passed h) = Fin 0"
  by (simp add: score_of_def zero_weights_def vote_of_def demo_passed_def candidate_start_def demo_cand_def
      demo_patch_size f_of_int_small f_sub_def f_round_def)

subsection \<open>What a merge does to the refs\<close>

lemma update_ref_simps [simp]:
  "mcache (fst (update_ref g w b sha)) = mcache w" "mlog (fst (update_ref g w b sha)) = mlog w"
  by (auto simp: update_ref_def Let_def split: git_end.splits)

lemma update_ref_Ok: "update_ref g w b sha = (w', None) \<Longrightarrow> refs w' = (refs w)(b := sha)"
  by (auto simp: update_ref_def Let_def split: git_end.splits)

lemma integrate_success:
  assumes "integrate env w req g res = (w', out, None)"
  shows "\<exists>winner. lookupCandidate (Candidates req) (WinnerID res) = Some winner \<and> mo_Winner out = winner
    \<and> IntegrationSHA out = HeadSHA winner \<and> TestsPassed out \<and> \<not> Reverted out
    \<and> mo_AllScores out = sr_AllScores res
    \<and> refs w' = (refs w)(TargetBranch req \<mapsto> HeadSHA winner)
    \<and> mcache w' = (mcache w)(CacheKey req \<mapsto> out)
    \<and> mlog w' = mlog w @ [EvtMergeCompleted g (CacheKey req) (json_outcome out)]"
  using assms
  by (auto simp: integrate_def Store_def Let_def update_ref_def
      split: option.splits prod.splits if_splits git_end.splits)

lemma rank_stage_success:
  assumes "rank_stage cfg env w req g outcomes = (w', out, None)"
  obtains res w1 where "Rank (me_ctx env 6) (map (score_blast (me_blast env)) outcomes) (ReviewerVotes req) (Scoring cfg) = Inr res"
    "integrate env w1 req g res = (w', out, None)" "refs w1 = refs w"
  using assms by (auto simp: rank_stage_def Let_def split: sum.splits option.splits)

lemma run_stage_success:
  assumes "run_stage cfg env w req g passingSet = (w', out, None)"
  obtains outcomes evs w1 where
    "RunCandidates g (me_cands env) (Candidates req) (BaseSHA req) passingSet (rq_Mode req) (rq_TestSuite req) = ((outcomes, None), evs)"
    "rank_stage cfg env w1 req g outcomes = (w', out, None)" "refs w1 = refs w"
  using assms by (auto simp: run_stage_def Let_def split: prod.splits option.splits)

lemma baseline_stage_success:
  assumes "baseline_stage cfg env w req g = Some (w', out, None)"
  obtains baseline evs w1 where
    "Baseline_Run (me_base env) (BaseSHA req) (rq_Mode req) (rq_TestSuite req) = Some (Inr baseline, evs)"
    "run_stage cfg env w1 req g baseline = (w', out, None)" "refs w1 = refs w"
  using assms by (auto simp: baseline_stage_def Let_def split: prod.splits option.splits sum.splits)

lemma Merge_success_stages:
  assumes "Merge cfg env w req = Some (w', out, None)" and "Lookup w (with_version cfg req) = None"
  obtains g w1 where "Validate env w (PoolCapacity cfg) req = None"
    "baseline_stage cfg env w1 (with_version cfg req) g = Some (w', out, None)" "refs w1 = refs w"
  using assms by (auto simp: Merge_def Lookup_def Let_def split: option.splits)

text \<open>The outcomes the engine ranks, as a function of the baseline's passing set.\<close>

definition ranked_outcomes :: "merge_env \<Rightarrow> MergeRequest \<Rightarrow> string list \<Rightarrow> CandidateOutcome list" where
  "ranked_outcomes env req baseline =
     map (\<lambda>(i, c). fst (runner_slot (me_cands env i) c (BaseSHA req) baseline (rq_Mode req) (rq_TestSuite req)))
       (enumerate 0 (Candidates req))"

lemma ranked_outcomes_eq:
  assumes "RunCandidates g (me_cands env) (Candidates req) (BaseSHA req) baseline (rq_Mode req) (rq_TestSuite req) = ((outs, err), evs)"
    and "Candidates req \<noteq> []"
  shows "ranked_outcomes env req baseline = outs"
  using RunCandidates_slots [OF assms]
  by (intro nth_equalityI) (simp_all add: ranked_outcomes_def enumerate_eq_zip)

lemma ranked_outcomes_version [simp]:
  "ranked_outcomes env (with_version cfg req) baseline = ranked_outcomes env req baseline"
  by (simp add: ranked_outcomes_def)

lemma Rank_winner_index:
  assumes run: "RunCandidates g envs (Candidates req) baseSHA baseline mode suite = ((outs, err), evs)"
    and valid: "distinct (map HeadSHA (Candidates req))" "Candidates req \<noteq> []"
    and rank: "Rank ctx (map (score_blast f) outs) votes c = Inr res"
  shows "\<exists>i < length (Candidates req). lookupCandidate (Candidates req) (WinnerID res) = Some (Candidates req ! i)
    \<and> \<not> HardRejected (outs ! i)
    \<and> (\<forall>r \<in> set outs. \<not> HardRejected r \<longrightarrow> length (co_PassingSet r) \<le> length (co_PassingSet (outs ! i)))"
proof -
  note facts = RunCandidates_facts [OF run valid(2)]
  have "\<forall>r \<in> set (map (score_blast f) outs). \<not> HardRejected r \<longrightarrow> 0 \<le> TestPassCount r"
    using facts(3) by auto
  from Rank_winner_survives [OF rank this] obtain r where r: "r \<in> set outs" "\<not> HardRejected r"
      "HeadSHA (co_Candidate r) = WinnerID res" "\<And>r'. r' \<in> set outs \<Longrightarrow> \<not> HardRejected r' \<Longrightarrow> TestPassCount r' \<le> TestPassCount r"
    by (auto simp: co_id_def)
  then obtain i where i: "i < length outs" "outs ! i = r" by (meson in_set_conv_nth)
  have cand: "co_Candidate r = Candidates req ! i" "i < length (Candidates req)"
    using facts(1) i by (metis nth_map, metis length_map)
  then have "co_Candidate r \<in> set (Candidates req)" by simp
  then obtain c' where c': "c' \<in> set (Candidates req)" "lookupCandidate (Candidates req) (WinnerID res) = Some c'"
      "HeadSHA c' = HeadSHA (co_Candidate r)"
    using lookupCandidate_mem r(3) by metis
  then have "c' = Candidates req ! i" using cand valid(1) by (metis distinct_map inj_on_def nth_mem)
  moreover have "length (co_PassingSet r') \<le> length (co_PassingSet r)" if "r' \<in> set outs" "\<not> HardRejected r'" for r'
    using facts(3) [OF that] facts(3) [OF r(1,2)] r(4) [OF that] by simp
  ultimately show ?thesis using c'(2) cand(2) i(2) r(2) by blast
qed

text \<open>C4: a merge that returns success without a cached outcome ran the baseline, and its winner is one
  of the request's candidates whose suites ran and that kept every test of the baseline; no
  surviving candidate passed more tests. The target branch points to the winner's head and no other
  ref has moved.
\<close>

theorem Merge_integrates_best_survivor:
  assumes run: "Merge cfg env w req = Some (w', out, None)" and miss: "Lookup w (with_version cfg req) = None"
  shows "\<exists>baseline evs i.
      Baseline_Run (me_base env) (BaseSHA req) (rq_Mode req) (rq_TestSuite req) = Some (Inr baseline, evs)
    \<and> i < length (Candidates req) \<and> mo_Winner out = Candidates req ! i
    \<and> suites_ran (me_cands env i) (Candidates req ! i) (rq_Mode req) (rq_TestSuite req)
    \<and> set baseline \<subseteq> set (co_PassingSet (ranked_outcomes env req baseline ! i))
    \<and> (\<forall>r \<in> set (ranked_outcomes env req baseline). \<not> HardRejected r \<longrightarrow>
          length (co_PassingSet r) \<le> length (co_PassingSet (ranked_outcomes env req baseline ! i)))
    \<and> refs w' = (refs w)(TargetBranch req \<mapsto> HeadSHA (mo_Winner out))
    \<and> IntegrationSHA out = HeadSHA (mo_Winner out) \<and> TestsPassed out \<and> \<not> Reverted out"
proof -
  let ?req = "with_version cfg req"
  from run miss obtain g w1 where v: "Validate env w (PoolCapacity cfg) req = None"
      and b: "baseline_stage cfg env w1 ?req g = Some (w', out, None)" "refs w1 = refs w"
    by (rule Merge_success_stages)
  from b(1) obtain baseline evs w2 where bl:
      "Baseline_Run (me_base env) (BaseSHA ?req) (rq_Mode ?req) (rq_TestSuite ?req) = Some (Inr baseline, evs)"
      "run_stage cfg env w2 ?req g baseline = (w', out, None)" "refs w2 = refs w1"
    by (rule baseline_stage_success)
  from bl(2) obtain outs evs2 w3 where rs:
      "RunCandidates g (me_cands env) (Candidates ?req) (BaseSHA ?req) baseline (rq_Mode ?req) (rq_TestSuite ?req) = ((outs, None), evs2)"
      "rank_stage cfg env w3 ?req g outs = (w', out, None)" "refs w3 = refs w2"
    by (rule run_stage_success)
  from rs(2) obtain res w4 where rk:
      "Rank (me_ctx env 6) (map (score_blast (me_blast env)) outs) (ReviewerVotes ?req) (Scoring cfg) = Inr res"
      "integrate env w4 ?req g res = (w', out, None)" "refs w4 = refs w3"
    by (rule rank_stage_success)
  have valid: "distinct (map HeadSHA (Candidates ?req))" "Candidates ?req \<noteq> []"
    using Validate_None [OF v] by simp_all
  obtain i where i: "i < length (Candidates ?req)" "lookupCandidate (Candidates ?req) (WinnerID res) = Some (Candidates ?req ! i)"
      "\<not> HardRejected (outs ! i)"
      "\<forall>r \<in> set outs. \<not> HardRejected r \<longrightarrow> length (co_PassingSet r) \<le> length (co_PassingSet (outs ! i))"
    using Rank_winner_index [OF rs(1) valid rk(1)] by blast
  note out = integrate_success [OF rk(2), unfolded i(2)]
  have "ranked_outcomes env ?req baseline = outs" by (rule ranked_outcomes_eq [OF rs(1) valid(2)])
  then have "ranked_outcomes env req baseline = outs" by simp
  moreover have "suites_ran (me_cands env i) (Candidates ?req ! i) (rq_Mode ?req) (rq_TestSuite ?req)
      \<and> set baseline \<subseteq> set (co_PassingSet (outs ! i))"
    using RunCandidates_facts(2) [OF rs(1) valid(2) i(1)] i(3) by blast
  moreover have "refs w4 = refs w" using rk(3) rs(3) bl(3) b(2) by simp
  ultimately show ?thesis using bl(1) i out
    by (intro exI [of _ baseline] exI [of _ evs] exI [of _ i]) simp
qed

subsection \<open>Only the integration completes a merge\<close>

definition no_completion :: "merge_event list \<Rightarrow> bool" where
  "no_completion es \<longleftrightarrow> list_all (\<lambda>e. case e of EvtMergeCompleted _ _ _ \<Rightarrow> False | _ \<Rightarrow> True) es"

lemma no_completion_simps [simp]:
  "no_completion []" "no_completion (es @ fs) \<longleftrightarrow> no_completion es \<and> no_completion fs"
  "no_completion (e # es) \<longleftrightarrow> (case e of EvtMergeCompleted _ _ _ \<Rightarrow> False | _ \<Rightarrow> True) \<and> no_completion es"
  "no_completion (concat ess) \<longleftrightarrow> list_all no_completion ess"
  by (auto simp: no_completion_def list_all_iff)

lemma baseline_body_no_completion:
  "baseline_body env baseSHA mode cfg suite = (r, evs) \<Longrightarrow> no_completion evs"
  by (auto simp: baseline_body_def Let_def split: option.splits prod.splits if_splits)

lemma Baseline_Run_no_completion:
  "Baseline_Run env baseSHA mode suite = Some (r, evs) \<Longrightarrow> no_completion evs"
  by (auto simp: Baseline_Run_def split: option.splits prod.splits dest: baseline_body_no_completion)

lemma flake_loop_no_completion:
  "flake_loop env cid cmd n retry k failed out = (fin, f, o', evs) \<Longrightarrow> no_completion evs"
  using flake_loop_events by (fastforce simp: no_completion_def list_all_iff)

lemma applyFlakeRerun_no_completion:
  "applyFlakeRerun env cid baseline suite cfg k out = (o', evs) \<Longrightarrow> no_completion evs"
  by (auto simp: applyFlakeRerun_def Let_def split: if_splits prod.splits dest: flake_loop_no_completion)

lemma candidate_tests_no_completion:
  "candidate_tests env cand baseline cfg suite smokeRes out = (o', evs) \<Longrightarrow> no_completion evs"
  by (auto simp: candidate_tests_def Let_def split: option.splits prod.splits dest: applyFlakeRerun_no_completion)

lemma candidate_body_no_completion:
  "candidate_body env cand baseSHA baseline mode suite = (r, evs) \<Longrightarrow> no_completion evs"
  by (auto simp: candidate_body_def Let_def split: option.splits prod.splits if_splits dest: candidate_tests_no_completion)

lemma runner_slot_no_completion: "no_completion (snd (runner_slot env cand baseSHA baseline mode suite))"
proof -
  obtain r evs where b: "candidate_body env cand baseSHA baseline mode suite = (r, evs)" by (metis surj_pair)
  then show ?thesis using candidate_body_no_completion [OF b]
    by (auto simp: runner_slot_def Candidate_Run_def Let_def split: option.splits)
qed

lemma RunCandidates_no_completion:
  assumes "RunCandidates g envs cands baseSHA baseline mode suite = (r, evs)"
  shows "no_completion evs"
  using assms
  by (auto simp: RunCandidates_def Let_def list_all_iff runner_slot_no_completion split: if_splits)

subsection \<open>A concrete merge\<close>

definition demo_exec :: executor where
  "demo_exec = (\<lambda>k cmd ev. (None, \<lparr>rr_Stdout = ''T1'', rr_Stderr = '''', rr_ExitCode = 0\<rparr>))"

definition demo_menv :: "(nat \<Rightarrow> string option) \<Rightarrow> (nat \<Rightarrow> git_end) \<Rightarrow> merge_env" where
  "demo_menv ctx git =
     \<lparr>me_ctx = ctx, me_git = git, me_merge_base = (\<lambda>_. ''b0''),
      me_base = \<lparr>be_ctx = None, be_lease = None, be_checkout = None, be_exec = demo_exec, be_dur = 3, be_cap = 100, be_gen = 0\<rparr>,
      me_cands = (\<lambda>_. \<lparr>ce_ctx = None, ce_lease = None, ce_checkout = None, ce_apply = None, ce_exec = demo_exec,
                      ce_dur = 5, ce_cap = 100, ce_gen = 1\<rparr>),
      me_blast = None\<rparr>"

definition demo_world :: world where
  "demo_world = \<lparr>refs = [''main'' \<mapsto> ''b0''], mcache = Map.empty, gen = 0, mlog = []\<rparr>"

definition demo_req :: "Mode \<Rightarrow> MergeRequest" where
  "demo_req mode =
     \<lparr>TargetBranch = ''main'', BaseSHA = ''b0'', rq_Mode = mode, Candidates = [demo_cand],
      ReviewerVotes = [], rq_TestSuite = demo_suite, SessionID = '''', rq_ProjectID = '''',
      EngineVersion = ''v1'', TriggerEventID = ''''\<rparr>"

definition demo_ecfg :: EngineConfig where
  "demo_ecfg = \<lparr>Scoring = zero_weights, ec_EngineVersion = ''v1'', PoolCapacity = 4\<rparr>"

lemma demo_texts:
  "trim_space ''main'' = ''main''" "trim_space ''feature'' = ''feature''" "trim_space ''b0'' = ''b0''"
  "trim_space ''+x'' = ''+x''" "parseTestIDs ''T1'' = [''T1'']"
  by code_simp+

lemma demo_valid:
  "ctx 0 = None \<Longrightarrow> git 0 = GitOk \<Longrightarrow> mode \<noteq> ModeUnknown \<Longrightarrow> refs w ''main'' = Some ''b0'' \<Longrightarrow>
     Validate (demo_menv ctx git) w 4 (demo_req mode) = None"
  by (simp add: Validate_def demo_req_def demo_menv_def demo_cand_def RevParse_def demo_texts Let_def)

lemma demo_version [simp]: "with_version demo_ecfg (demo_req mode) = demo_req mode"
  by (simp add: with_version_def demo_req_def)

lemma demo_baseline:
  "\<exists>evs. Baseline_Run (me_base (demo_menv ctx git)) (BaseSHA (demo_req ModeEmergencyOnly)) (rq_Mode (demo_req ModeEmergencyOnly))
     (rq_TestSuite (demo_req ModeEmergencyOnly)) = Some (Inr [''T1''], evs)"
  by (simp add: Baseline_Run_def baseline_body_def ModeFor_def selectCommand_def demo_menv_def demo_req_def
      demo_suite_def demo_exec_def demo_texts Let_def)

lemma demo_slot:
  "\<exists>r evs. runner_slot (me_cands (demo_menv ctx git) i) demo_cand base [''T1''] ModeEmergencyOnly demo_suite = (r, evs)
     \<and> \<not> HardRejected r \<and> co_Candidate r = demo_cand \<and> TestPassCount r = 1"
  by (simp add: runner_slot_def Candidate_Run_def candidate_body_def candidate_tests_def applyFlakeRerun_def
      ApplyPatch_def ModeFor_def demo_menv_def demo_suite_def demo_exec_def demo_texts HasAnyMissing_def
      Let_def) (simp add: demo_cand_def demo_texts)

lemma demo_run:
  "\<exists>r evs. RunCandidates g (me_cands (demo_menv ctx git)) (Candidates (demo_req ModeEmergencyOnly))
       (BaseSHA (demo_req ModeEmergencyOnly)) [''T1''] (rq_Mode (demo_req ModeEmergencyOnly))
       (rq_TestSuite (demo_req ModeEmergencyOnly)) = (([r], None), evs)
     \<and> \<not> HardRejected r \<and> co_Candidate r = demo_cand \<and> TestPassCount r = 1"
proof -
  obtain r evs where "runner_slot (me_cands (demo_menv ctx git) 0) demo_cand ''b0'' [''T1''] ModeEmergencyOnly demo_suite = (r, evs)"
      "\<not> HardRejected r" "co_Candidate r = demo_cand" "TestPassCount r = 1"
    using demo_slot by blast
  then show ?thesis by (simp add: RunCandidates_def demo_req_def Let_def)
qed

lemma demo_rank:
  "\<not> HardRejected r \<Longrightarrow> TestPassCount r = 1 \<Longrightarrow> co_Candidate r = demo_cand \<Longrightarrow>
     Rank None [r] votes c = Inr \<lparr>WinnerID = ''c1'', sr_AllScores = [], TiebreakApplied = False, HardRejectedIDs = []\<rparr>"
  by (simp add: Rank_def tied_candidates_def max_pass_def co_id_def demo_cand_def Let_def)

text \<open>As long as the context is alive up to the integration, the demo merge gets there.\<close>

lemma demo_reaches_integrate:
  assumes "\<forall>k \<le> 8. ctx k = None" and "git 0 = GitOk"
  shows "\<exists>w1. Merge demo_ecfg (demo_menv ctx git) demo_world (demo_req ModeEmergencyOnly) =
        Some (integrate (demo_menv ctx git) w1 (demo_req ModeEmergencyOnly) 1
                \<lparr>WinnerID = ''c1'', sr_AllScores = [], TiebreakApplied = False, HardRejectedIDs = []\<rparr>)
      \<and> refs w1 = refs demo_world \<and> mcache w1 = mcache demo_world \<and> no_completion (mlog w1)"
proof -
  let ?env = "demo_menv ctx git" and ?req = "demo_req ModeEmergencyOnly"
  have [simp]: "me_ctx ?env k = None" if "k \<le> 8" for k using assms(1) that by (simp add: demo_menv_def)
  have v: "Validate ?env demo_world (PoolCapacity demo_ecfg) ?req = None"
    unfolding demo_ecfg_def EngineConfig.simps
    by (rule demo_valid) (use assms in \<open>simp_all add: demo_world_def\<close>)
  have g: "i64 (gen demo_world + 1) = 1" by (simp add: demo_world_def i64_def)
  obtain evs where b: "Baseline_Run (me_base ?env) (BaseSHA ?req) (rq_Mode ?req) (rq_TestSuite ?req) = Some (Inr [''T1''], evs)"
    using demo_baseline by blast
  obtain r evs' where r: "RunCandidates 1 (me_cands ?env) (Candidates ?req) (BaseSHA ?req) [''T1''] (rq_Mode ?req) (rq_TestSuite ?req) = (([r], None), evs')"
      "\<not> HardRejected r" "co_Candidate r = demo_cand" "TestPassCount r = 1"
    using demo_run by blast
  have blast: "me_blast ?env = None" by (simp add: demo_menv_def)
  have "score_blast None r = r" by (simp add: score_blast_def)
  moreover have "mcache demo_world = Map.empty" "mlog demo_world = []" by (simp_all add: demo_world_def)
  moreover have "no_completion evs" "no_completion evs'"
    using Baseline_Run_no_completion [OF b] RunCandidates_no_completion [OF r(1)] .
  ultimately show ?thesis
    by (simp add: Merge_def v g Lookup_def baseline_stage_def b run_stage_def r(1) rank_stage_def
        demo_rank [OF r(2,4,3)] blast Let_def) (intro exI conjI, rule refl, simp_all)
qed

lemma demo_lookup: "lookupCandidate (Candidates (demo_req mode)) ''c1'' = Some demo_cand"
  by (simp add: demo_req_def demo_cand_def)

lemma demo_merge_log:
  "\<exists>w' out es. Merge demo_ecfg (demo_menv (\<lambda>_. None) (\<lambda>_. GitOk)) demo_world (demo_req ModeEmergencyOnly) = Some (w', out, None)
     \<and> mlog w' = es @ [EvtMergeCompleted 1 (CacheKey (demo_req ModeEmergencyOnly)) (json_outcome out)]
     \<and> no_completion es \<and> json_outcome out \<noteq> None"
proof -
  obtain w1 where w1: "Merge demo_ecfg (demo_menv (\<lambda>_. None) (\<lambda>_. GitOk)) demo_world (demo_req ModeEmergencyOnly) =
        Some (integrate (demo_menv (\<lambda>_. None) (\<lambda>_. GitOk)) w1 (demo_req ModeEmergencyOnly) 1
                \<lparr>WinnerID = ''c1'', sr_AllScores = [], TiebreakApplied = False, HardRejectedIDs = []\<rparr>)"
      "no_completion (mlog w1)"
    using demo_reaches_integrate [of "\<lambda>_. None" "\<lambda>_. GitOk"] by auto
  then show ?thesis
    by (simp add: integrate_def demo_lookup update_ref_def demo_menv_def json_outcome_def json_time_def Let_def)
      (simp add: demo_cand_def)
qed

lemma demo_merge:
  "\<exists>w' out. Merge demo_ecfg (demo_menv (\<lambda>_. None) (\<lambda>_. GitOk)) demo_world (demo_req ModeEmergencyOnly) = Some (w', out, None)"
  using demo_merge_log by blast

theorem Merge_integrates_best_survivor_witness:
  "\<exists>w' out. Merge demo_ecfg (demo_menv (\<lambda>_. None) (\<lambda>_. GitOk)) demo_world (demo_req ModeEmergencyOnly) = Some (w', out, None)
     \<and> mo_Winner out = demo_cand \<and> refs w' ''main'' = Some ''c1''"
proof -
  obtain w' out where m: "Merge demo_ecfg (demo_menv (\<lambda>_. None) (\<lambda>_. GitOk)) demo_world (demo_req ModeEmergencyOnly) = Some (w', out, None)"
    using demo_merge by blast
  have "Lookup demo_world (with_version demo_ecfg (demo_req ModeEmergencyOnly)) = None"
    by (simp add: Lookup_def demo_world_def)
  from Merge_integrates_best_survivor [OF m this] m show ?thesis
    by (auto simp: demo_req_def demo_cand_def)
qed

lemma rollback_Ok:
  "sha \<noteq> '''' \<Longrightarrow> rollbackFastForward GitOk w b sha = (w\<lparr>refs := (refs w)(b \<mapsto> sha)\<rparr>, None)"
  by (simp add: rollbackFastForward_def update_ref_def)

lemma integrate_failure:
  assumes run: "integrate env w req g res = (w', out, Some e)"
    and sha: "refs w (TargetBranch req) = Some sha" "trim_space sha = sha" "sha \<noteq> ''''"
    and git: "me_git env 2 = GitOk" "me_git env 4 = GitOk"
    and landed: "\<And>e. me_git env 3 = GitErrLanded e \<Longrightarrow> isCtxCancelErr e \<or> me_ctx env 9 \<noteq> None"
  shows "refs w' = refs w"
proof -
  have pre: "preFF env w (TargetBranch req) = sha" using sha git by (simp add: preFF_def)
  have same: "(refs w)(TargetBranch req \<mapsto> sha) = refs w" using sha(1) by (simp add: fun_upd_idem)
  show ?thesis
    using run landed
    by (auto simp: integrate_def update_ref_def pre git rollback_Ok [OF sha(3)] same Let_def
        split: option.splits prod.splits if_splits git_end.splits)
qed

text \<open>What the rollback needs of the repository: the target is readable, its name is a plain SHA, the
  reset succeeds, and an update-ref that fails after landing was interrupted by the context.\<close>

definition rollback_ok :: "merge_env \<Rightarrow> world \<Rightarrow> string \<Rightarrow> bool" where
  "rollback_ok env w target \<longleftrightarrow>
     me_git env 2 = GitOk \<and> me_git env 4 = GitOk
     \<and> (case refs w target of None \<Rightarrow> False | Some sha \<Rightarrow> trim_space sha = sha \<and> sha \<noteq> '''')
     \<and> (case me_git env 3 of GitErrLanded e \<Rightarrow> isCtxCancelErr e \<or> me_ctx env 9 \<noteq> None | _ \<Rightarrow> True)"

lemma rollback_ok_frame [simp]:
  "rollback_ok env (emit w evs) target = rollback_ok env w target"
  "rollback_ok env (w\<lparr>gen := g\<rparr>) target = rollback_ok env w target"
  by (simp_all add: rollback_ok_def)

lemma fail_stage_refs: "fail_stage w req b r e = (w', out, err) \<Longrightarrow> refs w' = refs w"
  by (metis fail_stage_simps(1) fst_conv)

lemma integrate_failure_refs:
  assumes "integrate env w req g res = (w', out, Some e)" and "rollback_ok env w (TargetBranch req)"
  shows "refs w' = refs w"
proof -
  obtain sha where "refs w (TargetBranch req) = Some sha" "trim_space sha = sha" "sha \<noteq> ''''"
    using assms(2) by (auto simp: rollback_ok_def split: option.splits)
  moreover have "isCtxCancelErr e' \<or> me_ctx env 9 \<noteq> None" if "me_git env 3 = GitErrLanded e'" for e'
    using assms(2) that by (simp add: rollback_ok_def)
  ultimately show ?thesis using integrate_failure [OF assms(1)] assms(2) by (simp add: rollback_ok_def)
qed

lemma rank_stage_failure_refs:
  assumes "rank_stage cfg env w req g outs = (w', out, Some e)" and "rollback_ok env w (TargetBranch req)"
  shows "refs w' = refs w"
  using assms
  by (auto simp: rank_stage_def Let_def split: sum.splits option.splits
      dest!: fail_stage_refs integrate_failure_refs)

lemma run_stage_failure_refs:
  assumes "run_stage cfg env w req g ps = (w', out, Some e)" and "rollback_ok env w (TargetBranch req)"
  shows "refs w' = refs w"
  using assms
  by (auto simp: run_stage_def Let_def split: prod.splits option.splits
      dest!: fail_stage_refs rank_stage_failure_refs)

lemma baseline_stage_failure_refs:
  assumes "baseline_stage cfg env w req g = Some (w', out, Some e)" and "rollback_ok env w (TargetBranch req)"
  shows "refs w' = refs w"
  using assms
  by (auto simp: baseline_stage_def Let_def split: prod.splits option.splits sum.splits
      dest!: fail_stage_refs run_stage_failure_refs)

text \<open>C22: a merge that returns an error leaves every ref as it found it, at whatever stage it failed or
  was cancelled, provided the target could be read before the fast-forward and the rollback's
  update-ref succeeds.
\<close>

theorem failed_Merge_leaves_refs:
  assumes "Merge cfg env w req = Some (w', out, Some e)" and "rollback_ok env w (TargetBranch req)"
  shows "refs w' = refs w"
  using assms
  by (auto simp: Merge_def Let_def split: option.splits
      dest!: fail_stage_refs baseline_stage_failure_refs)

definition cancelled_at :: "nat \<Rightarrow> nat \<Rightarrow> string option" where
  "cancelled_at n k = (if n \<le> k then Some ''context canceled'' else None)"

lemma demo_cancelled_after_ff:
  "\<exists>w' out. Merge demo_ecfg (demo_menv (cancelled_at 10) (\<lambda>_. GitOk)) demo_world (demo_req ModeEmergencyOnly)
     = Some (w', out, Some (CtxErr ''context canceled''))"
proof -
  obtain w1 where "Merge demo_ecfg (demo_menv (cancelled_at 10) (\<lambda>_. GitOk)) demo_world (demo_req ModeEmergencyOnly) =
        Some (integrate (demo_menv (cancelled_at 10) (\<lambda>_. GitOk)) w1 (demo_req ModeEmergencyOnly) 1
                \<lparr>WinnerID = ''c1'', sr_AllScores = [], TiebreakApplied = False, HardRejectedIDs = []\<rparr>)"
    using demo_reaches_integrate [of "cancelled_at 10" "\<lambda>_. GitOk"] by (auto simp: cancelled_at_def)
  then show ?thesis
    by (simp add: integrate_def demo_lookup update_ref_def rollbackFastForward_def demo_menv_def cancelled_at_def Let_def)
qed

theorem failed_Merge_leaves_refs_witness:
  "\<exists>w' out. Merge demo_ecfg (demo_menv (cancelled_at 10) (\<lambda>_. GitOk)) demo_world (demo_req ModeEmergencyOnly)
     = Some (w', out, Some (CtxErr ''context canceled'')) \<and> refs w' = refs demo_world"
proof -
  obtain w' out where m: "Merge demo_ecfg (demo_menv (cancelled_at 10) (\<lambda>_. GitOk)) demo_world (demo_req ModeEmergencyOnly)
     = Some (w', out, Some (CtxErr ''context canceled''))"
    using demo_cancelled_after_ff by blast
  have "rollback_ok (demo_menv (cancelled_at 10) (\<lambda>_. GitOk)) demo_world (TargetBranch (demo_req ModeEmergencyOnly))"
    by (simp add: rollback_ok_def demo_menv_def demo_world_def demo_req_def demo_texts)
  from failed_Merge_leaves_refs [OF m this] m show ?thesis by blast
qed

definition git_cancelled :: "nat \<Rightarrow> git_end" where
  "git_cancelled k = (if k = 2 \<or> k = 3 then GitErr (CtxErr ''context canceled'') else GitOk)"

lemma rollback_delete: "rollbackFastForward GitOk w b '''' = (w\<lparr>refs := (refs w)(b := None)\<rparr>, None)"
  by (simp add: rollbackFastForward_def update_ref_def)

text \<open>When the context is cancelled after the check that follows scoring, the rev-parse that reads
  the target fails and leaves the recorded SHA empty; the cancelled update-ref then rolls back to
  "no such ref" and deletes the target branch, although \<open>Validate\<close> had just resolved it and the
  fast-forward had not landed. The call reports \<open>Reverted\<close>.
\<close>

lemma cancelled_merge_deletes_target:
  "\<exists>w' out. Merge demo_ecfg (demo_menv (cancelled_at 9) git_cancelled) demo_world (demo_req ModeEmergencyOnly)
      = Some (w', out, Some (CtxErr ''context canceled''))
    \<and> Reverted out \<and> refs demo_world ''main'' = Some ''b0'' \<and> refs w' ''main'' = None"
proof -
  let ?res = "\<lparr>WinnerID = ''c1'', sr_AllScores = [], TiebreakApplied = False, HardRejectedIDs = []\<rparr>"
  obtain w1 where "Merge demo_ecfg (demo_menv (cancelled_at 9) git_cancelled) demo_world (demo_req ModeEmergencyOnly) =
        Some (integrate (demo_menv (cancelled_at 9) git_cancelled) w1 (demo_req ModeEmergencyOnly) 1 ?res)"
    using demo_reaches_integrate [of "cancelled_at 9" git_cancelled] by (auto simp: cancelled_at_def git_cancelled_def)
  moreover have "preFF (demo_menv (cancelled_at 9) git_cancelled) w1 ''main'' = ''''"
    by (simp add: preFF_def demo_menv_def git_cancelled_def)
  moreover have "TargetBranch (demo_req ModeEmergencyOnly) = ''main''" by (simp add: demo_req_def)
  moreover have gits: "me_git (demo_menv (cancelled_at 9) git_cancelled) 3 = GitErr (CtxErr ''context canceled'')"
      "me_git (demo_menv (cancelled_at 9) git_cancelled) 4 = GitOk"
    by (simp_all add: demo_menv_def git_cancelled_def)
  moreover have demo_world_main: "refs demo_world ''main'' = Some ''b0''" by (simp add: demo_world_def)
  ultimately show ?thesis
    by (simp add: integrate_def demo_lookup update_ref_def rollback_delete gits demo_world_main zero_outcome_def)
qed

subsection \<open>The cache\<close>

lemma with_version_update [simp]:
  "with_version cfg (req\<lparr>rq_Mode := m, ReviewerVotes := v, rq_TestSuite := t\<rparr>)
     = (with_version cfg req)\<lparr>rq_Mode := m, ReviewerVotes := v, rq_TestSuite := t\<rparr>"
  by (simp add: with_version_def)

lemma CacheKey_ignores [simp]: "CacheKey (req\<lparr>rq_Mode := m, ReviewerVotes := v, rq_TestSuite := t\<rparr>) = CacheKey req"
  by (simp add: CacheKey_def)

lemma rank_stage_stores:
  "rank_stage cfg env w req g outs = (w', out, None) \<Longrightarrow> mcache w' = (mcache w)(CacheKey req \<mapsto> out)"
  by (auto simp: rank_stage_def Let_def split: sum.splits option.splits dest!: integrate_success)

lemma run_stage_stores:
  "run_stage cfg env w req g ps = (w', out, None) \<Longrightarrow> mcache w' = (mcache w)(CacheKey req \<mapsto> out)"
  by (auto simp: run_stage_def Let_def split: prod.splits option.splits dest!: rank_stage_stores)

lemma baseline_stage_stores:
  "baseline_stage cfg env w req g = Some (w', out, None) \<Longrightarrow> mcache w' = (mcache w)(CacheKey req \<mapsto> out)"
  by (auto simp: baseline_stage_def Let_def split: prod.splits option.splits sum.splits dest!: run_stage_stores)

lemma Merge_stores:
  "Merge cfg env w req = Some (w', out, None) \<Longrightarrow> mcache w' (CacheKey (with_version cfg req)) = Some out"
  by (auto simp: Merge_def Lookup_def Let_def split: option.splits dest!: baseline_stage_stores)

text \<open>The cache key covers the target, the base, the heads and the engine version only. After a
  merge succeeded in one mode, a valid request for the same heads in any other mode, with other
  votes and another test suite, is answered with the first outcome: no baseline and no candidate
  runs, and the refs are not touched, whatever the target points to by then.
\<close>

lemma cached_outcome_crosses_modes:
  assumes first: "Merge cfg env w req = Some (w1, out, None)"
    and later: "mcache w2 = mcache w1"
    and req': "req' = req\<lparr>rq_Mode := m, ReviewerVotes := v, rq_TestSuite := t\<rparr>"
    and valid: "Validate env' w2 (PoolCapacity cfg) req' = None"
  shows "\<exists>w'. Merge cfg env' w2 req' = Some (w', out, None) \<and> refs w' = refs w2
    \<and> mlog w' = mlog w2 @ [EvtMergeCacheHit (gen w') (CacheKey (with_version cfg req)) (HeadSHA (mo_Winner out))]"
  using Merge_stores [OF first] valid unfolding req' later [symmetric]
  by (simp add: Merge_def Lookup_def Let_def)

subsection \<open>Rebuilding the cache from the log\<close>

text \<open>Every event of the log that completes a merge has a payload that could be encoded.\<close>

definition payloads_ok :: "merge_event list \<Rightarrow> bool" where
  "payloads_ok es \<longleftrightarrow> list_all (\<lambda>e. case e of EvtMergeCompleted _ _ p \<Rightarrow> p \<noteq> None | _ \<Rightarrow> True) es"

lemma rebuild_append:
  "payloads_ok es \<Longrightarrow> rebuild_from (es @ fs) c n =
     (let (c', n', _) = rebuild_from es c n in rebuild_from fs c' n')"
  by (induction es arbitrary: c n) (auto simp: payloads_ok_def Let_def split: merge_event.splits option.splits)

lemma payloads_ok_append [simp]: "payloads_ok (es @ fs) \<longleftrightarrow> payloads_ok es \<and> payloads_ok fs"
  by (simp add: payloads_ok_def)

lemma payloads_ok_single [simp]: "payloads_ok [EvtMergeCompleted g key p] \<longleftrightarrow> p \<noteq> None"
  by (simp add: payloads_ok_def)

lemma rebuild_no_completion:
  "no_completion es \<Longrightarrow> payloads_ok es \<and> (\<exists>n'. rebuild_from es c n = (c, n', None))"
  by (induction es arbitrary: n) (auto simp: no_completion_def payloads_ok_def split: merge_event.splits)

definition log_cache :: "world \<Rightarrow> bool" where
  "log_cache w \<longleftrightarrow> (payloads_ok (mlog w) \<longrightarrow> (\<exists>n. rebuild_from (mlog w) Map.empty 0 = (mcache w, n, None)))"

lemma log_cache_emit:
  assumes "log_cache w" "no_completion es" "mcache w' = mcache w" "mlog w' = mlog w @ es"
  shows "log_cache w'"
  unfolding log_cache_def
proof
  assume "payloads_ok (mlog w')"
  then have ok: "payloads_ok (mlog w)" using assms(4) by simp
  then obtain n where "rebuild_from (mlog w) Map.empty 0 = (mcache w, n, None)"
    using assms(1) by (auto simp: log_cache_def)
  moreover obtain n' where "rebuild_from es (mcache w) n = (mcache w, n', None)"
    using rebuild_no_completion [OF assms(2)] by blast
  ultimately show "\<exists>n. rebuild_from (mlog w') Map.empty 0 = (mcache w', n, None)"
    using ok by (simp add: assms(3,4) rebuild_append)
qed

lemma log_cache_emitI: "log_cache w \<Longrightarrow> no_completion es \<Longrightarrow> log_cache (emit w es)"
  by (rule log_cache_emit) simp_all

lemma fail_stage_log_cache: "log_cache w \<Longrightarrow> fail_stage w req b r e = (w', out, err) \<Longrightarrow> log_cache w'"
  by (auto simp: fail_stage_def emitMergeFailed_def split: if_splits intro: log_cache_emitI)

lemma update_ref_frame:
  "update_ref g w b sha = (w', err) \<Longrightarrow> mcache w' = mcache w \<and> mlog w' = mlog w"
  by (metis fst_conv update_ref_simps)

lemma integrate_log_cache:
  assumes w: "log_cache w" and run: "integrate env w req g res = (w', out, err)"
  shows "log_cache w'"
proof (cases err)
  case None
  from integrate_success [OF run [unfolded None]]
  have m: "mcache w' = (mcache w)(CacheKey req \<mapsto> out)"
      "mlog w' = mlog w @ [EvtMergeCompleted g (CacheKey req) (json_outcome out)]" by auto
  show ?thesis
    using w unfolding log_cache_def m
    by (auto simp: rebuild_append payloads_ok_single json_outcome_def split: if_splits)
next
  case (Some e)
  have "\<exists>ev. no_completion [ev] \<and> mcache w' = mcache w \<and> mlog w' = mlog w @ [ev]"
    using run Some
    by (auto simp: integrate_def emitMergeFailed_def rollbackFastForward_def Let_def
        split: option.splits prod.splits if_splits dest!: update_ref_frame)
  with w show ?thesis using log_cache_emit by blast
qed

lemma log_cache_frame [simp]: "log_cache (w\<lparr>gen := g\<rparr>) = log_cache w" "log_cache (w\<lparr>refs := rs\<rparr>) = log_cache w"
  by (simp_all add: log_cache_def)

lemma rank_stage_log_cache:
  "log_cache w \<Longrightarrow> rank_stage cfg env w req g outs = (w', out, err) \<Longrightarrow> log_cache w'"
  by (auto simp: rank_stage_def Let_def split: sum.splits option.splits
      intro: log_cache_emitI elim!: fail_stage_log_cache [rotated] integrate_log_cache [rotated])

lemma run_stage_log_cache:
  "log_cache w \<Longrightarrow> run_stage cfg env w req g ps = (w', out, err) \<Longrightarrow> log_cache w'"
  by (auto simp: run_stage_def split: prod.splits option.splits dest: RunCandidates_no_completion
      intro: log_cache_emitI elim!: fail_stage_log_cache [rotated] rank_stage_log_cache [rotated])

lemma baseline_stage_log_cache:
  "log_cache w \<Longrightarrow> baseline_stage cfg env w req g = Some (w', out, err) \<Longrightarrow> log_cache w'"
  by (auto simp: baseline_stage_def split: prod.splits option.splits sum.splits dest: Baseline_Run_no_completion
      intro: log_cache_emitI elim!: fail_stage_log_cache [rotated] run_stage_log_cache [rotated])

lemma Merge_log_cache:
  "log_cache w \<Longrightarrow> Merge cfg env w req = Some (w', out, err) \<Longrightarrow> log_cache w'"
  by (auto simp: Merge_def Let_def split: option.splits
      intro: log_cache_emitI elim!: fail_stage_log_cache [rotated] baseline_stage_log_cache [rotated])

text \<open>The engine's history: merges, in any environments, and changes of the refs by others.\<close>

inductive engine_step :: "EngineConfig \<Rightarrow> world \<Rightarrow> world \<Rightarrow> bool" for cfg where
  merge: "Merge cfg env w req = Some (w', out, err) \<Longrightarrow> engine_step cfg w w'"
| moved: "engine_step cfg w (w\<lparr>refs := rs\<rparr>)"

definition engine_init :: "world \<Rightarrow> bool" where
  "engine_init w \<longleftrightarrow> mcache w = Map.empty \<and> mlog w = []"

lemma engine_step_log_cache: "log_cache w \<Longrightarrow> engine_step cfg w w' \<Longrightarrow> log_cache w'"
  by (rotate_tac 1, induction rule: engine_step.induct) (auto intro: Merge_log_cache)

lemma engine_init_log_cache: "engine_init w \<Longrightarrow> log_cache w"
  by (simp add: engine_init_def log_cache_def)

interpretation mergelog: safety engine_init "engine_step cfg" log_cache for cfg
  by unfold_locales (auto intro: engine_init_log_cache engine_step_log_cache)



end
