(* ===== verification/Budget.thy ===== *)
theory Budget
  imports Go_Float "HOL-Library.AList"
begin

text \<open>
  Budget control: the axis tags of a cost (axes.go), the pre-call gate (enforce.go) and the pauses
  (pause.go) of \<^verbatim>\<open>src/internal/budget\<close>, over the pause table of
  \<^verbatim>\<open>src/internal/store/budget_pause.go\<close> as the adapter
  \<^verbatim>\<open>src/internal/daemon/dispatcheradapter/budget_hooks.go\<close> exposes it.

  The pause table has one row per scope and scope value, its primary key; it is an association
  list in which an upsert replaces the row. The rolled-up spend of an axis is a parameter.
\<close>

subsection \<open>The pause table (store/budget_pause.go)\<close>

record pause_row =
  pr_Reason :: string
  StartedAtMs :: int
  AutoResumeAtMs :: int

type_synonym scope_key = "string \<times> string"
type_synonym pauses = "(scope_key \<times> pause_row) list"

datatype budget_err =
    ErrInvalidEstimate
  | ErrInvalidScopes
  | ErrUnknownPauseScope string
  | ErrStore string
  | ErrAxisIncomplete "string list" "string option"
  | ErrAxisInsertFailed string
  | ErrCostID

definition UpsertBudgetPause :: "pauses \<Rightarrow> scope_key \<Rightarrow> string \<Rightarrow> int \<Rightarrow> int \<Rightarrow> budget_err + pauses" where
  "UpsertBudgetPause db k reason started auto =
     (if fst k = '''' \<or> snd k = '''' then Inl (ErrStore ''UpsertBudgetPause: scope and scopeValue required'')
      else Inr (AList.update k \<lparr>pr_Reason = reason, StartedAtMs = started, AutoResumeAtMs = auto\<rparr> db))"

definition GetBudgetPause :: "pauses \<Rightarrow> scope_key \<Rightarrow> bool \<times> int" where
  "GetBudgetPause db k = (case map_of db k of None \<Rightarrow> (False, 0) | Some r \<Rightarrow> (True, AutoResumeAtMs r))"

definition DeleteBudgetPause :: "pauses \<Rightarrow> scope_key \<Rightarrow> pauses" where
  "DeleteBudgetPause db k = AList.delete k db"

definition DeleteBudgetPauseIfExpired :: "pauses \<Rightarrow> scope_key \<Rightarrow> int \<Rightarrow> pauses" where
  "DeleteBudgetPauseIfExpired db k before =
     filter (\<lambda>(k', r). \<not> (k' = k \<and> AutoResumeAtMs r > 0 \<and> AutoResumeAtMs r \<le> before)) db"

text \<open>Rows in order of their start, with an unset or negative resume time read as none.\<close>

definition ListActiveBudgetPauses :: "pauses \<Rightarrow> (scope_key \<times> pause_row) list" where
  "ListActiveBudgetPauses db =
     map (\<lambda>(k, r). (k, r\<lparr>AutoResumeAtMs := (if AutoResumeAtMs r > 0 then AutoResumeAtMs r else 0)\<rparr>))
       (sort_key (\<lambda>(k, r). StartedAtMs r) db)"

subsection \<open>Pauses (pause.go)\<close>

definition ValidPauseScopes :: "string list" where
  "ValidPauseScopes = [''project'', ''doctrine'', ''stage'', ''worker_id'']"

fun isValidPauseScope_in :: "string list \<Rightarrow> string \<Rightarrow> bool" where
  "isValidPauseScope_in [] scope = False"
| "isValidPauseScope_in (s # ss) scope = (s = scope \<or> isValidPauseScope_in ss scope)"

definition isValidPauseScope :: "string \<Rightarrow> bool" where
  "isValidPauseScope scope = isValidPauseScope_in ValidPauseScopes scope"

text \<open>\<open>UnixMilli\<close>: the Unix epoch is 719162 days after the zero time.\<close>

definition unix_ms :: "time \<Rightarrow> int" where
  "unix_ms t = (t - 719162 * (24 * hour)) div 1000000"

definition Trigger :: "time \<Rightarrow> pauses \<Rightarrow> scope_key \<Rightarrow> string \<Rightarrow> duration \<Rightarrow> pauses \<times> budget_err option" where
  "Trigger now db k reason dur =
     (if \<not> isValidPauseScope (fst k) then (db, Some (ErrUnknownPauseScope (fst k)))
      else if snd k = '''' then (db, Some (ErrStore ''Trigger: scopeValue is empty''))
      else
        (let started = unix_ms now;
             auto = (if dur > 0 then unix_ms (now + dur) else 0) in
         case UpsertBudgetPause db k (if reason = '''' then ''unspecified'' else reason) started auto of
           Inl e \<Rightarrow> (db, Some e)
         | Inr db' \<Rightarrow> (db', None)))"

definition Resume :: "pauses \<Rightarrow> scope_key \<Rightarrow> pauses \<times> budget_err option" where
  "Resume db k =
     (if \<not> isValidPauseScope (fst k) then (db, Some (ErrUnknownPauseScope (fst k)))
      else (DeleteBudgetPause db k, None))"

definition IsPaused :: "time \<Rightarrow> pauses \<Rightarrow> scope_key \<Rightarrow> bool" where
  "IsPaused now db k =
     (let (active, auto) = GetBudgetPause db k in
      if \<not> active then False
      else if auto = 0 then True
      else auto > unix_ms now)"

definition scheduler_visit :: "int \<Rightarrow> scope_key \<times> pause_row \<Rightarrow> pauses \<Rightarrow> pauses" where
  "scheduler_visit nowMs row db =
     (if AutoResumeAtMs (snd row) = 0 then db
      else if AutoResumeAtMs (snd row) \<le> nowMs then DeleteBudgetPauseIfExpired db (fst row) nowMs
      else db)"

definition RunSchedulerOnce :: "time \<Rightarrow> pauses \<Rightarrow> pauses" where
  "RunSchedulerOnce now db = fold (scheduler_visit (unix_ms now)) (ListActiveBudgetPauses db) db"

subsection \<open>The gate (enforce.go)\<close>

record Scopes =
  sc_Project :: string
  sc_Doctrine :: string
  sc_Stage :: string
  sc_Worker :: string

record Caps =
  cap_Project :: f64
  cap_Doctrine :: f64
  cap_Stage :: f64
  cap_Worker :: f64

record Decision =
  Allowed :: bool
  BlockedScopes :: "string list"
  RemainingPerScope :: "(string \<times> f64) list"

definition scopePrecedence :: "string \<Rightarrow> int" where
  "scopePrecedence name =
     (if name = ''worker_id'' then 0 else if name = ''stage'' then 1 else if name = ''doctrine'' then 2
      else if name = ''project'' then 3 else 2 ^ 31 - 1)"

definition scope_rows :: "Scopes \<Rightarrow> Caps \<Rightarrow> (string \<times> string \<times> f64) list" where
  "scope_rows s c =
     [(''project'', sc_Project s, cap_Project c), (''doctrine'', sc_Doctrine s, cap_Doctrine c),
      (''stage'', sc_Stage s, cap_Stage c), (''worker_id'', sc_Worker s, cap_Worker c)]"

text \<open>The two reads of the store the gate makes, either of which may fail: \<open>rolled\<close> is
  \<open>RolledUSDByAxis\<close> for the window, \<open>pget\<close> is \<open>PauseGet\<close>.\<close>

type_synonym rollup = "scope_key \<Rightarrow> string + f64"
type_synonym pause_get = "scope_key \<Rightarrow> string + bool \<times> int"

fun check_rows ::
  "rollup \<Rightarrow> pause_get \<Rightarrow> f64 \<Rightarrow> (string \<times> string \<times> f64) list \<Rightarrow> string list \<Rightarrow> (string \<times> f64) list \<Rightarrow>
     budget_err + string list \<times> (string \<times> f64) list" where
  "check_rows rolled pget est [] blocked remaining = Inr (blocked, remaining)"
| "check_rows rolled pget est ((name, value, cap) # rows) blocked remaining =
     (case rolled (name, value) of
        Inl e \<Rightarrow> Inl (ErrStore e)
      | Inr r \<Rightarrow>
          (let remaining' = AList.update name (f_sub (f_sub cap r) est) remaining;
               blocked1 = (if f_lt cap (f_add r est) then List.insert name blocked else blocked)
           in case pget (name, value) of
                Inl e \<Rightarrow> Inl (ErrStore e)
              | Inr (paused, _) \<Rightarrow>
                  check_rows rolled pget est rows
                    (if paused then List.insert name blocked1 else blocked1) remaining'))"

definition Check :: "rollup \<Rightarrow> pause_get \<Rightarrow> Scopes \<Rightarrow> Caps \<Rightarrow> f64 \<Rightarrow> budget_err + Decision" where
  "Check rolled pget scopes caps est =
     (if f_lt est (Fin 0) then Inl ErrInvalidEstimate
      else if sc_Project scopes = '''' \<or> sc_Doctrine scopes = '''' \<or> sc_Stage scopes = '''' \<or> sc_Worker scopes = ''''
      then Inl ErrInvalidScopes
      else case check_rows rolled pget est (scope_rows scopes caps) [] [] of
        Inl e \<Rightarrow> Inl e
      | Inr (blocked, remaining) \<Rightarrow>
          (let out = sort_key scopePrecedence blocked
           in Inr \<lparr>Allowed = (out = []), BlockedScopes = out, RemainingPerScope = remaining\<rparr>))"

subsection \<open>Axis tags (axes.go)\<close>

definition requiredAxes :: "string list" where
  "requiredAxes = [''project'', ''doctrine'', ''stage'', ''task'']"

definition optionalAxes :: "string list" where
  "optionalAxes = [''operation'', ''worker_id'', ''augmentation'']"

definition tag_of :: "(string \<times> string) list \<Rightarrow> string \<Rightarrow> string option" where
  "tag_of tags axis = (case map_of tags axis of None \<Rightarrow> None | Some v \<Rightarrow> if v = '''' then None else Some v)"

text \<open>The two tables a tagging writes; \<open>fails\<close> says which writes fail.\<close>

fun insert_tags ::
  "(string \<Rightarrow> string option) \<Rightarrow> (string \<times> string) list \<Rightarrow> string list \<Rightarrow> (string \<times> string) list \<Rightarrow>
     (string \<times> string) list \<times> budget_err option" where
  "insert_tags fails tags [] db = (db, None)"
| "insert_tags fails tags (axis # axes) db =
     (case tag_of tags axis of
        None \<Rightarrow> insert_tags fails tags axes db
      | Some v \<Rightarrow>
          (case fails axis of
             Some e \<Rightarrow> (db, Some (ErrAxisInsertFailed axis))
           | None \<Rightarrow> insert_tags fails tags axes (db @ [(axis, v)])))"

fun emit_losses :: "(string \<Rightarrow> string option) \<Rightarrow> string list \<Rightarrow> string list \<Rightarrow> string list \<times> string option" where
  "emit_losses fails [] losses = (losses, None)"
| "emit_losses fails (axis # axes) losses =
     (case fails axis of
        Some e \<Rightarrow> (losses, Some e)
      | None \<Rightarrow> emit_losses fails axes (losses @ [axis]))"

definition Tag ::
  "(string \<Rightarrow> string option) \<Rightarrow> (string \<Rightarrow> string option) \<Rightarrow> int \<Rightarrow> (string \<times> string) list \<Rightarrow>
     (string \<times> string) list \<times> string list \<times> budget_err option" where
  "Tag insert_fails loss_fails costID tags =
     (if costID \<le> 0 then ([], [], Some ErrCostID)
      else case insert_tags insert_fails tags (requiredAxes @ optionalAxes) [] of
        (db, Some e) \<Rightarrow> (db, [], Some e)
      | (db, None) \<Rightarrow>
          (let missing = sort (filter (\<lambda>a. tag_of tags a = None) requiredAxes) in
           if missing = [] then (db, [], None)
           else (let (losses, failed) = emit_losses loss_fails missing []
                 in (db, losses, Some (ErrAxisIncomplete missing failed)))))"

subsection \<open>The gate is exact\<close>

definition over_cap :: "(scope_key \<Rightarrow> f64) \<Rightarrow> f64 \<Rightarrow> string \<times> string \<times> f64 \<Rightarrow> bool" where
  "over_cap spend est row = (case row of (name, value, cap) \<Rightarrow> f_lt cap (f_add (spend (name, value)) est))"

definition row_blocked :: "(scope_key \<Rightarrow> f64) \<Rightarrow> pauses \<Rightarrow> f64 \<Rightarrow> string \<times> string \<times> f64 \<Rightarrow> bool" where
  "row_blocked spend db est row \<longleftrightarrow> over_cap spend est row \<or> map_of db (fst row, fst (snd row)) \<noteq> None"

lemma GetBudgetPause_active [simp]: "fst (GetBudgetPause db k) \<longleftrightarrow> map_of db k \<noteq> None"
  by (auto simp: GetBudgetPause_def split: option.splits)

lemma check_rows_blocked:
  assumes "distinct (map fst rows)" "set (map fst rows) \<inter> set blocked = {}" "distinct blocked"
  shows "\<exists>rem'. check_rows (\<lambda>k. Inr (spend k)) (\<lambda>k. Inr (GetBudgetPause db k)) est rows blocked rem =
     Inr (rev (map fst (filter (row_blocked spend db est) rows)) @ blocked, rem')"
  using assms
proof (induction rows arbitrary: blocked "rem")
  case (Cons row rows)
  obtain name val cap where row: "row = (name, val, cap)" by (metis prod_cases3)
  let ?rem = "AList.update name (f_sub (f_sub cap (spend (name, val))) est) rem"
  obtain paused auto where get: "GetBudgetPause db (name, val) = (paused, auto)" by force
  then have paused: "paused \<longleftrightarrow> map_of db (name, val) \<noteq> None" using GetBudgetPause_active [of db "(name, val)"] by simp
  show ?case
  proof (cases "row_blocked spend db est row")
    case True
    then have b: "f_lt cap (f_add (spend (name, val)) est) \<or> map_of db (name, val) \<noteq> None"
      by (simp add: row_blocked_def over_cap_def row)
    have "name \<notin> set blocked" using Cons.prems(2) row by auto
    then have "List.insert name blocked = name # blocked" by simp
    with b get paused Cons.IH [of "name # blocked" ?rem] Cons.prems row True show ?thesis by (auto simp: Let_def)
  next
    case False
    then have b: "\<not> f_lt cap (f_add (spend (name, val)) est)" "map_of db (name, val) = None"
      by (auto simp: row_blocked_def over_cap_def row)
    with get paused Cons.IH [of blocked ?rem] Cons.prems row False show ?thesis by (auto simp: Let_def)
  qed
qed simp

lemma scope_rows_names: "map fst (scope_rows s c) = [''project'', ''doctrine'', ''stage'', ''worker_id'']"
  by (simp add: scope_rows_def)

lemma sort_by_precedence:
  assumes "distinct xs" "set xs \<subseteq> {''worker_id'', ''stage'', ''doctrine'', ''project''}"
  shows "sort_key scopePrecedence xs = filter (\<lambda>n. n \<in> set xs) [''worker_id'', ''stage'', ''doctrine'', ''project'']"
    (is "_ = ?ys")
proof (rule sort_key_inj_key_eq)
  have "set xs = set ?ys" unfolding set_filter using assms(2) by fastforce
  moreover have "distinct ?ys" by (intro distinct_filter) simp
  ultimately show "mset xs = mset ?ys" using assms(1) by (simp only: set_eq_iff_mset_eq_distinct)
  have "inj_on scopePrecedence {''worker_id'', ''stage'', ''doctrine'', ''project''}"
    by (simp add: scopePrecedence_def)
  then show "inj_on scopePrecedence (set xs)" using assms(2) by (rule inj_on_subset)
  have "sorted (map scopePrecedence [''worker_id'', ''stage'', ''doctrine'', ''project''])"
    by (simp add: scopePrecedence_def)
  then show "sorted (map scopePrecedence ?ys)" by (rule sorted_filter)
qed

lemma check_exact:
  assumes est: "\<not> f_lt est (Fin 0)"
    and scopes: "sc_Project s \<noteq> ''''" "sc_Doctrine s \<noteq> ''''" "sc_Stage s \<noteq> ''''" "sc_Worker s \<noteq> ''''"
  shows "\<exists>d. Check (\<lambda>k. Inr (spend k)) (\<lambda>k. Inr (GetBudgetPause db k)) s c est = Inr d
    \<and> BlockedScopes d = map fst (filter (row_blocked spend db est)
         [(''worker_id'', sc_Worker s, cap_Worker c), (''stage'', sc_Stage s, cap_Stage c),
          (''doctrine'', sc_Doctrine s, cap_Doctrine c), (''project'', sc_Project s, cap_Project c)])
    \<and> (Allowed d \<longleftrightarrow> BlockedScopes d = [])"
proof -
  let ?blk = "rev (map fst (filter (row_blocked spend db est) (scope_rows s c)))"
  have "\<exists>rem'. check_rows (\<lambda>k. Inr (spend k)) (\<lambda>k. Inr (GetBudgetPause db k)) est (scope_rows s c) [] []
      = Inr (?blk @ [], rem')"
    by (rule check_rows_blocked) (simp_all add: scope_rows_names)
  then obtain rem' where rows: "check_rows (\<lambda>k. Inr (spend k)) (\<lambda>k. Inr (GetBudgetPause db k)) est
      (scope_rows s c) [] [] = Inr (?blk, rem')"
    unfolding append_Nil2 by (elim exE)
  have "distinct ?blk" unfolding distinct_rev by (rule distinct_map_filter) (simp add: scope_rows_names)
  moreover have "set ?blk \<subseteq> {''worker_id'', ''stage'', ''doctrine'', ''project''}"
    by (auto simp: scope_rows_def)
  ultimately have "sort_key scopePrecedence ?blk
      = filter (\<lambda>n. n \<in> set ?blk) [''worker_id'', ''stage'', ''doctrine'', ''project'']"
    by (rule sort_by_precedence)
  also have "\<dots> = map fst (filter (row_blocked spend db est)
         [(''worker_id'', sc_Worker s, cap_Worker c), (''stage'', sc_Stage s, cap_Stage c),
          (''doctrine'', sc_Doctrine s, cap_Doctrine c), (''project'', sc_Project s, cap_Project c)])"
    by (simp add: scope_rows_def)
  finally have srt: "sort_key scopePrecedence ?blk = \<dots>" .
  show ?thesis using est scopes rows srt by (simp add: Check_def Let_def)
qed

subsection \<open>The gate and the pauser agree after a scheduler pass\<close>

definition expired :: "int \<Rightarrow> pause_row \<Rightarrow> bool" where
  "expired nowMs r \<longleftrightarrow> 0 < AutoResumeAtMs r \<and> AutoResumeAtMs r \<le> nowMs"

definition pauses_inv :: "pauses \<Rightarrow> bool" where
  "pauses_inv db \<longleftrightarrow> distinct (map fst db) \<and> (\<forall>(k, r) \<in> set db. 0 \<le> AutoResumeAtMs r)"

definition epoch :: time where
  "epoch = 719162 * (24 * hour)"

inductive pause_step :: "pauses \<Rightarrow> pauses \<Rightarrow> bool" where
  step_trigger: "epoch \<le> now \<Longrightarrow> pause_step db (fst (Trigger now db k reason dur))"
| step_resume: "pause_step db (fst (Resume db k))"
| step_scheduler: "pause_step db (RunSchedulerOnce now db)"

lemma visit_filter:
  "scheduler_visit nowMs row db =
     filter (\<lambda>(k, r). \<not> (expired nowMs r \<and> fst row = k \<and> AutoResumeAtMs (snd row) \<noteq> 0
        \<and> AutoResumeAtMs (snd row) \<le> nowMs)) db"
  by (auto simp: scheduler_visit_def DeleteBudgetPauseIfExpired_def expired_def intro!: filter_cong)

lemma visit_all:
  "fold (scheduler_visit nowMs) rows db =
     filter (\<lambda>(k, r). \<not> (expired nowMs r \<and> (\<exists>row \<in> set rows. fst row = k \<and> AutoResumeAtMs (snd row) \<noteq> 0
        \<and> AutoResumeAtMs (snd row) \<le> nowMs))) db"
proof (induction rows arbitrary: db)
  case (Cons row rows)
  show ?case
    unfolding fold_simps comp_apply Cons.IH unfolding visit_filter filter_filter by (rule filter_cong) auto
qed simp

lemma RunSchedulerOnce_filter:
  "RunSchedulerOnce now db = filter (\<lambda>(k, r). \<not> expired (unix_ms now) r) db"
  unfolding RunSchedulerOnce_def visit_all
proof (rule filter_cong [OF refl], clarify)
  fix scope val r assume "((scope, val), r) \<in> set db"
  then have "((scope, val), r\<lparr>AutoResumeAtMs := (if AutoResumeAtMs r > 0 then AutoResumeAtMs r else 0)\<rparr>)
      \<in> set (ListActiveBudgetPauses db)"
    by (force simp: ListActiveBudgetPauses_def)
  then show "(\<not> (expired (unix_ms now) r \<and> (\<exists>row \<in> set (ListActiveBudgetPauses db). fst row = (scope, val)
      \<and> AutoResumeAtMs (snd row) \<noteq> 0 \<and> AutoResumeAtMs (snd row) \<le> unix_ms now))) = (\<not> expired (unix_ms now) r)"
    by (force simp: expired_def)
qed

lemma set_update_le: "set (AList.update k v al) \<subseteq> insert (k, v) (set al)"
  by (induction al) auto

lemma unix_ms_nonneg: "epoch \<le> t \<Longrightarrow> 0 \<le> unix_ms t"
  by (simp add: unix_ms_def epoch_def)

interpretation pausetab: safety "\<lambda>db. db = []" pause_step pauses_inv
proof
  fix db db' assume inv: "pauses_inv db" and "pause_step db db'"
  from this(2) show "pauses_inv db'"
  proof cases
    case (step_trigger now k reason dur)
    have "dur > 0 \<Longrightarrow> 0 \<le> unix_ms (now + dur)" using step_trigger(2) by (intro unix_ms_nonneg) simp
    with inv show ?thesis unfolding step_trigger(1)
      by (auto simp: Trigger_def UpsertBudgetPause_def pauses_inv_def Let_def distinct_update
          dest!: subsetD [OF set_update_le])
  next
    case (step_resume k)
    with inv show ?thesis
      by (auto simp: Resume_def DeleteBudgetPause_def pauses_inv_def AList.delete_eq distinct_map_filter)
  next
    case (step_scheduler now)
    with inv show ?thesis by (auto simp: RunSchedulerOnce_filter pauses_inv_def distinct_map_filter)
  qed
qed (simp add: pauses_inv_def)


lemma map_of_unexpired:
  assumes "distinct (map fst db)"
  shows "map_of (filter (\<lambda>(k, r). P r) db) k = (case map_of db k of None \<Rightarrow> None | Some r \<Rightarrow> if P r then Some r else None)"
  using assms
  by (induction db) (auto split: option.splits simp: weak_map_of_SomeI map_of_eq_None_iff image_iff)

lemma pauses_inv_row: "pauses_inv db \<Longrightarrow> map_of db k = Some r \<Longrightarrow> 0 \<le> AutoResumeAtMs r"
  by (auto simp: pauses_inv_def dest!: map_of_SomeD)

lemma IsPaused_iff:
  assumes "pauses_inv db"
  shows "IsPaused now db k \<longleftrightarrow> (\<exists>r. map_of db k = Some r \<and> \<not> expired (unix_ms now) r)"
proof (cases "map_of db k")
  case (Some r)
  then have "0 \<le> AutoResumeAtMs r" using assms by (intro pauses_inv_row)
  with Some show ?thesis by (auto simp: IsPaused_def GetBudgetPause_def expired_def)
qed (simp add: IsPaused_def GetBudgetPause_def)

lemma scheduler_active:
  assumes "pauses_inv db"
  shows "map_of (RunSchedulerOnce now db) k \<noteq> None \<longleftrightarrow> IsPaused now db k"
proof -
  have "distinct (map fst db)" using assms by (simp add: pauses_inv_def)
  then show ?thesis unfolding RunSchedulerOnce_filter IsPaused_iff [OF assms]
    by (cases "map_of db k") (simp_all add: map_of_unexpired)
qed

text \<open>After a pass of the auto-resume scheduler, in any state the pause table reaches through
  triggers, resumes and earlier passes, the gate and the pauser agree: the scopes the gate blocks
  are exactly those over their cap and those \<open>IsPaused\<close> held paused at that instant, and the
  pass itself changes no answer of \<open>IsPaused\<close>.\<close>

lemma gate_agrees_after_scheduler:
  assumes db: "reach (\<lambda>db. db = []) pause_step db"
    and est: "\<not> f_lt est (Fin 0)"
    and scopes: "sc_Project s \<noteq> ''''" "sc_Doctrine s \<noteq> ''''" "sc_Stage s \<noteq> ''''" "sc_Worker s \<noteq> ''''"
  shows "(\<exists>d. Check (\<lambda>k. Inr (spend k)) (\<lambda>k. Inr (GetBudgetPause (RunSchedulerOnce now db) k)) s c est = Inr d
    \<and> BlockedScopes d = map fst (filter (\<lambda>row. over_cap spend est row \<or> IsPaused now db (fst row, fst (snd row)))
         [(''worker_id'', sc_Worker s, cap_Worker c), (''stage'', sc_Stage s, cap_Stage c),
          (''doctrine'', sc_Doctrine s, cap_Doctrine c), (''project'', sc_Project s, cap_Project c)])
    \<and> (Allowed d \<longleftrightarrow> BlockedScopes d = []))
    \<and> IsPaused now (RunSchedulerOnce now db) k = IsPaused now db k"
proof -
  have inv: "pauses_inv db" using db by (rule pausetab.reach_inv)
  have row: "row_blocked spend (RunSchedulerOnce now db) est =
      (\<lambda>row. over_cap spend est row \<or> IsPaused now db (fst row, fst (snd row)))"
    by (rule ext) (simp only: row_blocked_def scheduler_active [OF inv])
  have "pauses_inv (RunSchedulerOnce now db)"
    using inv pause_step.step_scheduler by (rule pausetab.step_inv)
  then have "IsPaused now (RunSchedulerOnce now db) k \<longleftrightarrow> map_of (RunSchedulerOnce now (RunSchedulerOnce now db)) k \<noteq> None"
    by (rule scheduler_active [symmetric])
  also have "RunSchedulerOnce now (RunSchedulerOnce now db) = RunSchedulerOnce now db"
    unfolding RunSchedulerOnce_filter filter_filter by (rule filter_cong) auto
  also have "map_of (RunSchedulerOnce now db) k \<noteq> None \<longleftrightarrow> IsPaused now db k" using inv by (rule scheduler_active)
  finally have same: "IsPaused now (RunSchedulerOnce now db) k = IsPaused now db k" .
  have "\<exists>d. Check (\<lambda>k. Inr (spend k)) (\<lambda>k. Inr (GetBudgetPause (RunSchedulerOnce now db) k)) s c est = Inr d
    \<and> BlockedScopes d = map fst (filter (row_blocked spend (RunSchedulerOnce now db) est)
         [(''worker_id'', sc_Worker s, cap_Worker c), (''stage'', sc_Stage s, cap_Stage c),
          (''doctrine'', sc_Doctrine s, cap_Doctrine c), (''project'', sc_Project s, cap_Project c)])
    \<and> (Allowed d \<longleftrightarrow> BlockedScopes d = [])"
    using est scopes by (rule check_exact)
  with same show ?thesis unfolding row by (intro conjI)
qed

text \<open>The pause table after an operator pauses a project without limit.\<close>

definition operator_paused :: pauses where
  "operator_paused = fst (Trigger (epoch + hour) [] (''project'', ''p'') ''operator hold'' 0)"

definition one_scope :: Scopes where
  "one_scope = \<lparr>sc_Project = ''p'', sc_Doctrine = ''d'', sc_Stage = ''s'', sc_Worker = ''w''\<rparr>"

definition hundred :: Caps where
  "hundred = \<lparr>cap_Project = Fin 100, cap_Doctrine = Fin 100, cap_Stage = Fin 100, cap_Worker = Fin 100\<rparr>"

text \<open>Three calls the gate decides against the text of the package. A pause whose time is up
  still blocks the call until a scheduler pass deletes the row, although \<open>IsPaused\<close> already
  answers false. An automatic one-hour pause on a scope the operator paused without limit replaces
  that row, so the next pass lifts the operator's pause. An estimate that is not a number passes
  the sign check and every cap, whatever has been spent.\<close>

lemma gate_pause_gaps:
  "fst (GetBudgetPause (fst (Trigger (epoch + hour) [] (''project'', ''p'') ''z'' hour)) (''project'', ''p''))
   \<and> \<not> IsPaused (epoch + 3 * hour) (fst (Trigger (epoch + hour) [] (''project'', ''p'') ''z'' hour)) (''project'', ''p'')
   \<and> IsPaused (epoch + 3 * hour) operator_paused (''project'', ''p'')
   \<and> \<not> IsPaused (epoch + 3 * hour)
        (RunSchedulerOnce (epoch + 3 * hour)
          (fst (Trigger (epoch + hour) operator_paused (''project'', ''p'') ''z'' hour))) (''project'', ''p'')
   \<and> map_option Allowed (case Check (\<lambda>k. Inr (Inf True)) (\<lambda>k. Inr (GetBudgetPause [] k)) one_scope hundred NaN of
        Inl e \<Rightarrow> None | Inr d \<Rightarrow> Some d) = Some True"
  by (simp add: operator_paused_def Trigger_def isValidPauseScope_def ValidPauseScopes_def Let_def
      UpsertBudgetPause_def IsPaused_def GetBudgetPause_def RunSchedulerOnce_filter expired_def unix_ms_def epoch_def
      Check_def scope_rows_def one_scope_def hundred_def)


subsection \<open>Axis tags are complete or reported\<close>

abbreviation allAxes :: "string list" where
  "allAxes \<equiv> requiredAxes @ optionalAxes"

lemma insert_tags_result:
  "snd (insert_tags f tags axes db) = None \<longleftrightarrow> (\<forall>a \<in> set axes. tag_of tags a \<noteq> None \<longrightarrow> f a = None)"
  by (induction axes arbitrary: db) (auto split: option.splits)

lemma insert_tags_rows:
  "snd (insert_tags f tags axes db) = None \<Longrightarrow>
     fst (insert_tags f tags axes db) = db @ List.map_filter (\<lambda>a. map_option (Pair a) (tag_of tags a)) axes"
  by (induction axes arbitrary: db) (auto simp: List.map_filter_def split: option.splits)

lemma emit_losses_all: "snd (emit_losses g axes ls) = None \<longleftrightarrow> (\<forall>a \<in> set axes. g a = None)"
  by (induction axes arbitrary: ls) (auto split: option.splits)

lemma emit_losses_rows: "snd (emit_losses g axes ls) = None \<Longrightarrow> fst (emit_losses g axes ls) = ls @ axes"
  by (induction axes arbitrary: ls) (auto split: option.splits)

lemma Tag_cases:
  assumes "0 < costID"
  obtains (write_failed) db e where "insert_tags f tags allAxes [] = (db, Some e)" "Tag f g costID tags = (db, [], Some e)"
  | (complete) db where "insert_tags f tags allAxes [] = (db, None)" "Tag f g costID tags = (db, [], None)"
      "\<forall>a \<in> set requiredAxes. tag_of tags a \<noteq> None"
  | (incomplete) db where "insert_tags f tags allAxes [] = (db, None)"
      "Tag f g costID tags = (db, fst (emit_losses g (sort (filter (\<lambda>a. tag_of tags a = None) requiredAxes)) []),
         Some (ErrAxisIncomplete (sort (filter (\<lambda>a. tag_of tags a = None) requiredAxes))
           (snd (emit_losses g (sort (filter (\<lambda>a. tag_of tags a = None) requiredAxes)) []))))"
      "\<not> (\<forall>a \<in> set requiredAxes. tag_of tags a \<noteq> None)"
proof (cases "insert_tags f tags allAxes []")
  case (Pair db res)
  let ?missing = "sort (filter (\<lambda>a. tag_of tags a = None) requiredAxes)"
  have nil: "?missing = [] \<longleftrightarrow> (\<forall>a \<in> set requiredAxes. tag_of tags a \<noteq> None)"
    by (metis (mono_tags, lifting) filter_empty_conv set_empty2 set_sort)
  show thesis
  proof (cases res)
    case (Some e)
    with Pair assms show thesis by (intro write_failed) (simp_all add: Tag_def)
  next
    case None
    show thesis
    proof (cases "?missing = []")
      case True
      with Pair None assms nil show thesis by (intro complete) (simp_all only: Tag_def Let_def if_True if_False, simp_all)
    next
      case False
      with Pair None assms nil show thesis
        by (intro incomplete) (simp_all only: Tag_def Let_def case_prod_beta if_True if_False, simp_all)
    qed
  qed
qed


text \<open>No cost is attributed incompletely in silence. Tagging succeeds exactly when every required
  axis has a value and no write of a tag fails; and when the store accepts the writes, the tags
  written are the axes given in their fixed order and the losses recorded are exactly the required
  axes that are missing, sorted.\<close>

lemma Tag_complete_or_reported:
  assumes "0 < costID"
  shows "(snd (snd (Tag f g costID tags)) = None \<longleftrightarrow>
       (\<forall>a \<in> set requiredAxes. tag_of tags a \<noteq> None) \<and> (\<forall>a \<in> set allAxes. tag_of tags a \<noteq> None \<longrightarrow> f a = None))
    \<and> ((\<forall>a \<in> set allAxes. f a = None \<and> g a = None) \<longrightarrow>
         fst (Tag f g costID tags) = List.map_filter (\<lambda>a. map_option (Pair a) (tag_of tags a)) allAxes
       \<and> fst (snd (Tag f g costID tags)) = sort (filter (\<lambda>a. tag_of tags a = None) requiredAxes))"
  using assms
proof (cases rule: Tag_cases [where f = f and g = g and tags = tags])
  case (write_failed db e)
  then have "\<not> (\<forall>a \<in> set allAxes. tag_of tags a \<noteq> None \<longrightarrow> f a = None)"
    using insert_tags_result [of f tags allAxes "[]"] by simp
  with write_failed show ?thesis by auto
next
  case (complete db)
  then have "\<forall>a \<in> set allAxes. tag_of tags a \<noteq> None \<longrightarrow> f a = None"
    using insert_tags_result [of f tags allAxes "[]"] by simp
  moreover have "db = List.map_filter (\<lambda>a. map_option (Pair a) (tag_of tags a)) allAxes"
    using complete insert_tags_rows [of f tags allAxes "[]"] by simp
  moreover have "filter (\<lambda>a. tag_of tags a = None) requiredAxes = []"
    using complete(3) by (simp only: filter_empty_conv)
  ultimately show ?thesis using complete by simp
next
  case (incomplete db)
  let ?missing = "sort (filter (\<lambda>a. tag_of tags a = None) requiredAxes)"
  have "db = List.map_filter (\<lambda>a. map_option (Pair a) (tag_of tags a)) allAxes"
    using incomplete insert_tags_rows [of f tags allAxes "[]"] by simp
  moreover have "(\<forall>a \<in> set allAxes. f a = None \<and> g a = None) \<Longrightarrow> fst (emit_losses g ?missing []) = ?missing"
    using emit_losses_rows [of g ?missing "[]"] by (simp add: emit_losses_all)
  ultimately show ?thesis using incomplete by simp
qed

subsection \<open>The pauser refines a table of deadlines\<close>

text \<open>The operations of the pauser with the clock; \<open>OpPass\<close> is a pass of the scheduler.\<close>

datatype pause_op =
    OpTrigger scope_key string duration
  | OpResume scope_key
  | OpPass
  | OpAdvance duration
  | OpIsPaused scope_key

datatype pause_out = Done "budget_err option" | Answer bool

fun pause_op_step :: "time \<times> pauses \<Rightarrow> pause_op \<Rightarrow> (time \<times> pauses) \<times> pause_out" where
  "pause_op_step (now, db) (OpTrigger k reason dur) = (let (db', e) = Trigger now db k reason dur in ((now, db'), Done e))"
| "pause_op_step (now, db) (OpResume k) = (let (db', e) = Resume db k in ((now, db'), Done e))"
| "pause_op_step (now, db) OpPass = ((now, RunSchedulerOnce now db), Done None)"
| "pause_op_step (now, db) (OpAdvance d) = ((now + d, db), Done None)"
| "pause_op_step (now, db) (OpIsPaused k) = ((now, db), Answer (IsPaused now db k))"

text \<open>The specification: each scope has no pause, an unlimited one (deadline 0), or one with a deadline
  that is still ahead. Passes of the scheduler do nothing, and time alone ends a pause.\<close>

type_synonym deadlines = "time \<times> (scope_key \<rightharpoonup> int)"

definition running :: "time \<Rightarrow> int \<Rightarrow> bool" where
  "running now t \<longleftrightarrow> t = 0 \<or> t > unix_ms now"

definition trigger_error :: "scope_key \<Rightarrow> budget_err option" where
  "trigger_error k =
     (if \<not> isValidPauseScope (fst k) then Some (ErrUnknownPauseScope (fst k))
      else if snd k = '''' then Some (ErrStore ''Trigger: scopeValue is empty'') else None)"

fun deadline_step :: "deadlines \<Rightarrow> pause_op \<Rightarrow> deadlines \<times> pause_out" where
  "deadline_step (now, m) (OpTrigger k reason dur) =
     (case trigger_error k of
        Some e \<Rightarrow> ((now, m), Done (Some e))
      | None \<Rightarrow>
          (let t = (if dur > 0 then unix_ms (now + dur) else 0)
           in ((now, m(k := if running now t then Some t else None)), Done None)))"
| "deadline_step (now, m) (OpResume k) =
     (if isValidPauseScope (fst k) then ((now, m(k := None)), Done None)
      else ((now, m), Done (Some (ErrUnknownPauseScope (fst k)))))"
| "deadline_step (now, m) OpPass = ((now, m), Done None)"
| "deadline_step (now, m) (OpAdvance d) =
     ((now + d, \<lambda>k. case m k of None \<Rightarrow> None | Some t \<Rightarrow> if running (now + d) t then Some t else None), Done None)"
| "deadline_step (now, m) (OpIsPaused k) = ((now, m), Answer (m k \<noteq> None))"

definition deadline_in :: "time \<Rightarrow> pause_row option \<Rightarrow> int option" where
  "deadline_in now row = (case row of None \<Rightarrow> None
     | Some r \<Rightarrow> if running now (AutoResumeAtMs r) then Some (AutoResumeAtMs r) else None)"

fun deadlines_of :: "time \<times> pauses \<Rightarrow> deadlines" where
  "deadlines_of (now, db) = (now, \<lambda>k. deadline_in now (map_of db k))"

definition pauser_inv :: "time \<times> pauses \<Rightarrow> bool" where
  "pauser_inv st \<longleftrightarrow> pauses_inv (snd st) \<and> epoch \<le> fst st"

fun forward :: "pause_op \<Rightarrow> bool" where
  "forward (OpAdvance d) = (0 \<le> d)"
| "forward _ = True"

lemma valid_scope_nonempty: "isValidPauseScope s \<Longrightarrow> s \<noteq> ''''"
  by (auto simp: isValidPauseScope_def ValidPauseScopes_def)

lemma Trigger_eq:
  "Trigger now db k reason dur =
     (case trigger_error k of
        Some e \<Rightarrow> (db, Some e)
      | None \<Rightarrow> (AList.update k \<lparr>pr_Reason = (if reason = '''' then ''unspecified'' else reason), StartedAtMs = unix_ms now,
                   AutoResumeAtMs = (if dur > 0 then unix_ms (now + dur) else 0)\<rparr> db, None))"
  using valid_scope_nonempty [of "fst k"] by (auto simp: Trigger_def trigger_error_def UpsertBudgetPause_def Let_def)

lemma not_expired_running: "0 \<le> AutoResumeAtMs r \<Longrightarrow> \<not> expired (unix_ms now) r \<longleftrightarrow> running now (AutoResumeAtMs r)"
  by (auto simp: expired_def running_def)

lemma unix_ms_mono: "a \<le> b \<Longrightarrow> unix_ms a \<le> unix_ms b"
  by (simp add: unix_ms_def zdiv_mono1)

lemma running_later: "0 \<le> d \<Longrightarrow> running (now + d) t \<Longrightarrow> running now t"
  using unix_ms_mono [of now "now + d"] by (auto simp: running_def)

lemma pass_deadlines:
  assumes "pauses_inv db"
  shows "deadlines_of (now, RunSchedulerOnce now db) = deadlines_of (now, db)"
proof -
  have "distinct (map fst db)" using assms by (simp add: pauses_inv_def)
  then have "map_of (RunSchedulerOnce now db) k =
      (case map_of db k of None \<Rightarrow> None | Some r \<Rightarrow> if \<not> expired (unix_ms now) r then Some r else None)" for k
    unfolding RunSchedulerOnce_filter by (rule map_of_unexpired)
  moreover note pauses_inv_row [OF assms]
  ultimately show ?thesis
    by (auto simp: deadline_in_def not_expired_running split: option.splits intro!: ext)
qed


lemma trigger_deadlines:
  "deadlines_of (now, fst (Trigger now db k reason dur)) = fst (deadline_step (deadlines_of (now, db)) (OpTrigger k reason dur))
   \<and> Done (snd (Trigger now db k reason dur)) = snd (deadline_step (deadlines_of (now, db)) (OpTrigger k reason dur))"
  by (cases "trigger_error k") (auto simp: Trigger_eq deadline_in_def update_conv' fun_eq_iff Let_def)

lemma resume_deadlines:
  "deadlines_of (now, fst (Resume db k)) = fst (deadline_step (deadlines_of (now, db)) (OpResume k))
   \<and> Done (snd (Resume db k)) = snd (deadline_step (deadlines_of (now, db)) (OpResume k))"
  by (auto simp: Resume_def DeleteBudgetPause_def deadline_in_def delete_conv' fun_eq_iff)

lemma advance_deadlines:
  "0 \<le> d \<Longrightarrow> deadlines_of (now + d, db) = fst (deadline_step (deadlines_of (now, db)) (OpAdvance d))"
  by (auto simp: deadline_in_def fun_eq_iff split: option.splits dest: running_later)

interpretation pauser: refinement pause_op_step deadline_step deadlines_of pauser_inv forward
proof
  fix st :: "time \<times> pauses" and p
  assume inv: "pauser_inv st" and fwd: "forward p"
  obtain now db where st: "st = (now, db)" by force
  have pi: "pauses_inv db" "epoch \<le> now" using inv by (simp_all add: pauser_inv_def st)
  have inv': "pauser_inv (fst (pause_op_step st p))"
    using pi fwd pausetab.step_inv [OF pi(1)]
    by (cases p) (auto simp: st pauser_inv_def case_prod_beta Let_def intro: pause_step.intros)
  have "deadline_step (deadlines_of (now, db)) p
      = (deadlines_of (fst (pause_op_step (now, db) p)), snd (pause_op_step (now, db) p))"
  proof (cases p)
    case (OpTrigger k reason dur)
    with trigger_deadlines [of now db k reason dur] show ?thesis by (simp add: case_prod_beta Let_def prod_eq_iff del: deadline_step.simps)
  next
    case (OpResume k)
    with resume_deadlines [of now db k] show ?thesis by (simp add: case_prod_beta Let_def prod_eq_iff del: deadline_step.simps)
  next
    case OpPass
    with pass_deadlines [OF pi(1), of now] show ?thesis by (cases "deadlines_of (now, db)") simp
  next
    case (OpAdvance d)
    with advance_deadlines [of d now db] fwd show ?thesis by simp
  next
    case (OpIsPaused k)
    have "IsPaused now db k \<longleftrightarrow> snd (deadlines_of (now, db)) k \<noteq> None"
      using pauses_inv_row [OF pi(1)] by (cases "map_of db k") (simp_all add: IsPaused_iff [OF pi(1)] deadline_in_def not_expired_running)
    with OpIsPaused show ?thesis by (cases "deadlines_of (now, db)") simp
  qed
  with inv' show "pauser_inv (fst (pause_op_step st p))
      \<and> deadline_step (deadlines_of st) p = (deadlines_of (fst (pause_op_step st p)), snd (pause_op_step st p))"
    by (simp only: st)
qed

text \<open>C37: the pauser over its table refines a map of deadlines. From an empty table, whatever
  triggers, resumes, clock advances, scheduler passes and queries come in whatever order, every
  result and every answer of \<open>IsPaused\<close> is that of the map, in which a pass of the scheduler does
  nothing: when the scheduler runs, and whether it runs at all, is invisible to \<open>IsPaused\<close>.\<close>

theorem pauser_refines_deadlines:
  assumes "epoch \<le> now" and "list_all forward ops"
  shows "snd (run_io pause_op_step (now, []) ops) = snd (run_io deadline_step (now, Map.empty) ops)"
proof -
  have "pauser_inv (now, [])" using assms(1) by (simp add: pauser_inv_def pauses_inv_def)
  moreover have "deadlines_of (now, []) = (now, Map.empty)" by (simp add: deadline_in_def)
  ultimately show ?thesis using pauser.run_answers assms(2) by metis
qed

theorem pauser_refines_deadlines_witness:
  "snd (run_io pause_op_step (epoch, [])
     [OpTrigger (''project'', ''p'') ''z'' hour, OpAdvance (2 * hour), OpPass, OpIsPaused (''project'', ''p'')])
   = [Done None, Done None, Done None, Answer False]"
proof -
  let ?ops = "[OpTrigger (''project'', ''p'') ''z'' hour, OpAdvance (2 * hour), OpPass, OpIsPaused (''project'', ''p'')]"
  have "snd (run_io deadline_step (epoch, Map.empty) ?ops) = [Done None, Done None, Done None, Answer False]"
    by (simp add: trigger_error_def isValidPauseScope_def ValidPauseScopes_def Let_def running_def unix_ms_def epoch_def)
  then show ?thesis using pauser_refines_deadlines [of epoch ?ops] by simp
qed

end
