(* ===== verification/CostGating.thy ===== *)
theory CostGating
  imports Go_Float
begin

text \<open>
  The cost-gating engine of \<^verbatim>\<open>src/internal/orchestrator/cost_gating.go\<close> and
  cost_gating_actions.go: the threshold table of a doctrine with a tighten-only project override,
  the evaluation of a budget snapshot, the application of an action at an atomic boundary, and the
  recovery walk that runs beside the evaluator once the budget is back under its thresholds.

  The evaluator's tick is three steps, as the code blocks or locks between them: evaluating and
  waiting for the boundary, the call of the actuator, and the bookkeeping with its audit row. The
  recovery walk is a goroutine of its own whose body is one step each time its timer fires. The
  budget reader, the boundary, the actuator and the event log answer as the environment says.
\<close>

subsection \<open>Actions and tables\<close>

type_synonym CostAction = string

abbreviation CostActionContinue :: CostAction where "CostActionContinue \<equiv> ''continue''"
abbreviation CostActionDropL3Strategic :: CostAction where "CostActionDropL3Strategic \<equiv> ''drop_l3_strategic''"
abbreviation CostActionTierDegradeL2 :: CostAction where "CostActionTierDegradeL2 \<equiv> ''tier_degrade_l2''"
abbreviation CostActionTierDegradeL1L2 :: CostAction where "CostActionTierDegradeL1L2 \<equiv> ''tier_degrade_l1_l2''"
abbreviation CostActionReduceParallelism :: CostAction where "CostActionReduceParallelism \<equiv> ''reduce_parallelism''"
abbreviation CostActionHardPause :: CostAction where "CostActionHardPause \<equiv> ''hard_pause''"
abbreviation CostActionEmergencyOnlyTier :: CostAction where "CostActionEmergencyOnlyTier \<equiv> ''emergency_only_tier''"
abbreviation CostActionEscalateL4 :: CostAction where "CostActionEscalateL4 \<equiv> ''escalate_l4''"
abbreviation CostActionWaitingForConfirmation :: CostAction where
  "CostActionWaitingForConfirmation \<equiv> ''waiting_for_confirmation''"
abbreviation CostActionWaiting :: CostAction where "CostActionWaiting \<equiv> ''waiting''"

definition severityRanks :: "(CostAction \<times> int) list" where
  "severityRanks =
     [(CostActionContinue, 0), (CostActionEscalateL4, 1), (CostActionDropL3Strategic, 2),
      (CostActionTierDegradeL2, 3), (CostActionTierDegradeL1L2, 4), (CostActionReduceParallelism, 5),
      (CostActionEmergencyOnlyTier, 6), (CostActionWaitingForConfirmation, 7), (CostActionWaiting, 8),
      (CostActionHardPause, 9)]"

text \<open>A missing key of the Go map reads as 0.\<close>

definition severityRank :: "CostAction \<Rightarrow> int" where
  "severityRank a = (case map_of severityRanks a of None \<Rightarrow> 0 | Some n \<Rightarrow> n)"

definition knownActions :: "CostAction list" where
  "knownActions =
     [CostActionContinue, CostActionDropL3Strategic, CostActionTierDegradeL2, CostActionTierDegradeL1L2,
      CostActionReduceParallelism, CostActionHardPause, CostActionEmergencyOnlyTier, CostActionEscalateL4,
      CostActionWaitingForConfirmation, CostActionWaiting]"

abbreviation PctPAYG :: int where "PctPAYG \<equiv> - 1"

record ThresholdRow =
  Pct :: int
  Action :: CostAction

record CostProfile =
  DoctrineName :: string
  Actions :: "(string \<rightharpoonup> string) option"
  AtomicityTimeout :: duration
  RecoveryStepInterval :: duration

type_synonym ProjectOverride = "(string \<rightharpoonup> string) option"

datatype cg_err =
    ErrUnknownCostAction string
  | ErrTightenOnlyViolation string
  | ErrMissingCostActionRow string
  | ErrUnknownDoctrine string
  | ActuatorErr string
  | MarshalErr
  | AppendErr string
  | CtxErr

definition thresholdKeyOrder :: "string list" where
  "thresholdKeyOrder = [''60'', ''80'', ''90'', ''100'', ''payg'']"

definition pctFromKey :: "string \<Rightarrow> int" where
  "pctFromKey k = (if k = ''payg'' then PctPAYG else int (undec 0 k))"

definition action_map :: "string \<Rightarrow> string \<Rightarrow> string \<Rightarrow> string \<Rightarrow> string \<Rightarrow> (string \<rightharpoonup> string)" where
  "action_map a60 a80 a90 a100 payg =
     [''60'' \<mapsto> a60, ''80'' \<mapsto> a80, ''90'' \<mapsto> a90, ''100'' \<mapsto> a100, ''payg'' \<mapsto> payg]"

definition BuiltinCostProfile :: "string \<Rightarrow> cg_err + CostProfile" where
  "BuiltinCostProfile name =
     (let mk = (\<lambda>m. Inr \<lparr>DoctrineName = name, Actions = Some m, AtomicityTimeout = 30 * second,
                         RecoveryStepInterval = 60 * second\<rparr>) in
      if name = ''max-scope''
      then mk (action_map CostActionDropL3Strategic CostActionTierDegradeL2 CostActionReduceParallelism
                 CostActionHardPause CostActionEmergencyOnlyTier)
      else if name = ''default''
      then mk (action_map CostActionContinue CostActionTierDegradeL1L2 CostActionHardPause CostActionHardPause
                 CostActionHardPause)
      else if name = ''capa-firewall''
      then mk (action_map CostActionEscalateL4 CostActionWaitingForConfirmation CostActionWaiting
                 CostActionHardPause CostActionHardPause)
      else Inl (ErrUnknownDoctrine name))"

text \<open>One key of the table: the action of the doctrine, replaced by a known override of no lower
  severity.\<close>

definition load_row :: "(string \<rightharpoonup> string) \<Rightarrow> ProjectOverride \<Rightarrow> string \<Rightarrow> cg_err + ThresholdRow" where
  "load_row acts ov k =
     (case acts k of
        None \<Rightarrow> Inl (ErrMissingCostActionRow k)
      | Some act \<Rightarrow>
          (if act \<notin> set knownActions then Inl (ErrUnknownCostAction act)
           else case Option.bind ov (\<lambda>m. m k) of
             None \<Rightarrow> Inr \<lparr>Pct = pctFromKey k, Action = act\<rparr>
           | Some oact \<Rightarrow>
               (if oact \<notin> set knownActions then Inl (ErrUnknownCostAction oact)
                else if severityRank oact < severityRank act then Inl (ErrTightenOnlyViolation k)
                else Inr \<lparr>Pct = pctFromKey k, Action = oact\<rparr>)))"

fun load_rows :: "(string \<rightharpoonup> string) \<Rightarrow> ProjectOverride \<Rightarrow> string list \<Rightarrow> cg_err + ThresholdRow list" where
  "load_rows acts ov [] = Inr []"
| "load_rows acts ov (k # ks) =
     (case load_row acts ov k of
        Inl e \<Rightarrow> Inl e
      | Inr row \<Rightarrow> (case load_rows acts ov ks of Inl e \<Rightarrow> Inl e | Inr rows \<Rightarrow> Inr (row # rows)))"

text \<open>The stable sort by \<open>thresholdLess\<close>: by percentage, the pay-as-you-go rows last.\<close>

definition sort_rows :: "ThresholdRow list \<Rightarrow> ThresholdRow list" where
  "sort_rows rows = sort_key Pct (filter (\<lambda>r. Pct r \<noteq> PctPAYG) rows) @ filter (\<lambda>r. Pct r = PctPAYG) rows"

definition LoadThresholdTable :: "CostProfile \<Rightarrow> ProjectOverride \<Rightarrow> cg_err + ThresholdRow list" where
  "LoadThresholdTable p ov =
     (case Actions p of
        None \<Rightarrow> Inl (ErrMissingCostActionRow ''Actions map is nil'')
      | Some acts \<Rightarrow> map_sum id sort_rows (load_rows acts ov thresholdKeyOrder))"

subsection \<open>Evaluation of a snapshot\<close>

record BudgetSnapshot =
  CumulativeUSD :: f64
  DailyCapUSD :: f64
  ProjectedEODUSD :: f64
  PAYGActive :: bool

definition continue_row :: ThresholdRow where
  "continue_row = \<lparr>Pct = 0, Action = CostActionContinue\<rparr>"

text \<open>The conversion \<open>int(x)\<close> truncates; outside the range of an \<open>int\<close>, and for values that are not
  finite, Go leaves the result to the implementation, which is the parameter.\<close>

definition go_int :: "(f64 \<Rightarrow> int) \<Rightarrow> f64 \<Rightarrow> int" where
  "go_int impl x =
     (case x of
        Fin q \<Rightarrow> (let n = (if q \<ge> 0 then \<lfloor>q\<rfloor> else \<lceil>q\<rceil>) in if in_i64 n then n else impl x)
      | _ \<Rightarrow> impl x)"

fun last_reached :: "int \<Rightarrow> ThresholdRow list \<Rightarrow> ThresholdRow option \<Rightarrow> ThresholdRow option" where
  "last_reached pct [] m = m"
| "last_reached pct (r # rs) m =
     (if Pct r = PctPAYG then m else last_reached pct rs (if Pct r \<le> pct then Some r else m))"

definition spent_pct :: "(f64 \<Rightarrow> int) \<Rightarrow> BudgetSnapshot \<Rightarrow> int" where
  "spent_pct impl s =
     (let cum = (if f_lt (CumulativeUSD s) (Fin 0) then Fin 0 else CumulativeUSD s)
      in go_int impl (f_mul (f_div cum (DailyCapUSD s)) (Fin 100)))"

definition Evaluate :: "(f64 \<Rightarrow> int) \<Rightarrow> ThresholdRow list \<Rightarrow> BudgetSnapshot \<Rightarrow> ThresholdRow" where
  "Evaluate impl table s =
     (if PAYGActive s
      then (case find (\<lambda>r. Pct r = PctPAYG) table of Some r \<Rightarrow> r | None \<Rightarrow> continue_row)
      else if f_le (DailyCapUSD s) (Fin 0) then continue_row
      else (case last_reached (spent_pct impl s) table None of None \<Rightarrow> continue_row | Some r \<Rightarrow> r))"

subsection \<open>The engine\<close>

datatype act_call =
    RestoreDefaults
  | DropAtDepth int
  | SetTier int
  | SetParallelism int int
  | HardPause
  | EmergencyOnlyTier
  | EscalateL4
  | WaitForConfirmation
  | Waiting

text \<open>\<open>ApplyAction\<close>: the method of the actuator an action calls, \<open>None\<close> for an unknown action. The
  reason and the snapshot passed along are not kept.\<close>

definition actuator_call :: "CostAction \<Rightarrow> act_call option" where
  "actuator_call a =
     (if a = CostActionContinue then Some RestoreDefaults
      else if a = CostActionDropL3Strategic then Some (DropAtDepth 3)
      else if a = CostActionTierDegradeL2 then Some (SetTier 2)
      else if a = CostActionTierDegradeL1L2 then Some (SetTier 1)
      else if a = CostActionReduceParallelism then Some (SetParallelism 1 2)
      else if a = CostActionHardPause then Some HardPause
      else if a = CostActionEmergencyOnlyTier then Some EmergencyOnlyTier
      else if a = CostActionEscalateL4 then Some EscalateL4
      else if a = CostActionWaitingForConfirmation then Some WaitForConfirmation
      else if a = CostActionWaiting then Some Waiting
      else None)"

datatype cg_event =
    BudgetSnapshotError string
  | BudgetDegradationFailed CostAction cg_err
  | BudgetDegradationApplied int CostAction CostAction
  | BudgetRecoveryHeld CostAction
  | BudgetFullyRecovered
  | BudgetRecovered CostAction CostAction int
  | CostGatingAtomicityTimeout

text \<open>Where the evaluator is: between ticks, before the actuator call of a row, or after it.\<close>

datatype tick_state = Idle | Decided ThresholdRow BudgetSnapshot | Acted ThresholdRow BudgetSnapshot

record CostGatingEngine =
  table :: "ThresholdRow list"
  currentRow :: "ThresholdRow option"
  recoveryActive :: bool
  walkRow :: ThresholdRow
  tick :: tick_state
  calls :: "act_call list"
  cg_events :: "cg_event list"

definition NewCostGatingEngine :: "CostProfile \<Rightarrow> ProjectOverride \<Rightarrow> cg_err + CostGatingEngine" where
  "NewCostGatingEngine p ov =
     map_sum id (\<lambda>tab. \<lparr>table = tab, currentRow = None, recoveryActive = False, walkRow = continue_row,
                       tick = Idle, calls = [], cg_events = []\<rparr>)
       (LoadThresholdTable p ov)"

definition cg_emit :: "CostGatingEngine \<Rightarrow> cg_event \<Rightarrow> CostGatingEngine" where
  "cg_emit e ev = e\<lparr>cg_events := cg_events e @ [ev]\<rparr>"

text \<open>The call of the actuator, which may answer with an error.\<close>

definition ApplyAction :: "string option \<Rightarrow> CostGatingEngine \<Rightarrow> CostAction \<Rightarrow> CostGatingEngine \<times> cg_err option" where
  "ApplyAction answer e a =
     (case actuator_call a of
        None \<Rightarrow> (e, Some (ErrUnknownCostAction a))
      | Some m \<Rightarrow> (e\<lparr>calls := calls e @ [m]\<rparr>, map_option ActuatorErr answer))"

definition emitApplyFailed :: "CostGatingEngine \<Rightarrow> ThresholdRow \<Rightarrow> cg_err \<Rightarrow> CostGatingEngine" where
  "emitApplyFailed e row err = (cg_emit e (BudgetDegradationFailed (Action row) err))\<lparr>tick := Idle\<rparr>"

text \<open>The first part of a tick: the snapshot, the comparison with the current row and, for any
  action but continue, the wait for the boundary.\<close>

datatype boundary = Boundary | TimedOut | CtxDone

definition tick_begin :: "(f64 \<Rightarrow> int) \<Rightarrow> string + BudgetSnapshot \<Rightarrow> boundary \<Rightarrow> CostGatingEngine \<Rightarrow> CostGatingEngine" where
  "tick_begin impl snap b e =
     (case snap of
        Inl err \<Rightarrow> cg_emit e (BudgetSnapshotError err)
      | Inr s \<Rightarrow>
          (let row = Evaluate impl (table e) s in
           if currentRow e = Some row then e
           else if Action row = CostActionContinue then e\<lparr>tick := Decided row s\<rparr>
           else (case b of
                   Boundary \<Rightarrow> e\<lparr>tick := Decided row s\<rparr>
                 | TimedOut \<Rightarrow> (cg_emit e CostGatingAtomicityTimeout)\<lparr>tick := Decided row s\<rparr>
                 | CtxDone \<Rightarrow> emitApplyFailed e row CtxErr)))"

definition tick_act :: "string option \<Rightarrow> CostGatingEngine \<Rightarrow> CostGatingEngine" where
  "tick_act answer e =
     (case tick e of
        Decided row s \<Rightarrow>
          (case ApplyAction answer e (Action row) of
             (e1, Some err) \<Rightarrow> emitApplyFailed e1 row err
           | (e1, None) \<Rightarrow> e1\<lparr>tick := Acted row s\<rparr>)
      | _ \<Rightarrow> e)"

definition recoveryHoldActions :: "CostAction list" where
  "recoveryHoldActions = [CostActionWaitingForConfirmation, CostActionWaiting]"

definition triggerRecovery :: "CostGatingEngine \<Rightarrow> ThresholdRow \<Rightarrow> CostGatingEngine" where
  "triggerRecovery e prior =
     (if recoveryActive e then e
      else if Action prior \<in> set recoveryHoldActions then cg_emit e (BudgetRecoveryHeld (Action prior))
      else e\<lparr>recoveryActive := True, walkRow := prior\<rparr>)"

text \<open>\<open>json.Marshal\<close> refuses a snapshot with a float that is not finite.\<close>

definition marshals :: "BudgetSnapshot \<Rightarrow> bool" where
  "marshals s \<longleftrightarrow>
     (\<forall>x \<in> set [CumulativeUSD s, DailyCapUSD s, ProjectedEODUSD s]. (case x of Fin _ \<Rightarrow> True | _ \<Rightarrow> False))"

definition tick_end :: "string option \<Rightarrow> CostGatingEngine \<Rightarrow> CostGatingEngine" where
  "tick_end append_err e =
     (case tick e of
        Acted row s \<Rightarrow>
          (let prior = (case currentRow e of None \<Rightarrow> CostActionContinue | Some r \<Rightarrow> Action r);
               priorDegradation = (case currentRow e of Some r \<Rightarrow> (if Action r \<noteq> CostActionContinue then Some r else None)
                                   | None \<Rightarrow> None);
               e1 = e\<lparr>currentRow := Some row\<rparr> in
           if \<not> marshals s then emitApplyFailed e1 row MarshalErr
           else case append_err of
             Some err \<Rightarrow> emitApplyFailed e1 row (AppendErr err)
           | None \<Rightarrow>
               (let e2 = (cg_emit e1 (BudgetDegradationApplied (Pct row) (Action row) prior))\<lparr>tick := Idle\<rparr> in
                case priorDegradation of
                  Some r \<Rightarrow> (if Action row = CostActionContinue then triggerRecovery e2 r else e2)
                | None \<Rightarrow> e2))
      | _ \<Rightarrow> e)"

text \<open>One firing of the timer of the recovery walk.\<close>

definition next_down :: "ThresholdRow list \<Rightarrow> int \<Rightarrow> ThresholdRow" where
  "next_down tab pct =
     (case find (\<lambda>r. Pct r \<noteq> PctPAYG \<and> Pct r < pct) (rev tab) of Some r \<Rightarrow> r | None \<Rightarrow> continue_row)"

definition walk_fire :: "string option \<Rightarrow> CostGatingEngine \<Rightarrow> CostGatingEngine" where
  "walk_fire answer e =
     (if \<not> recoveryActive e then e
      else if Action (walkRow e) = CostActionContinue then (cg_emit e BudgetFullyRecovered)\<lparr>recoveryActive := False\<rparr>
      else if Action (walkRow e) \<in> set recoveryHoldActions
      then (cg_emit e (BudgetRecoveryHeld (Action (walkRow e))))\<lparr>recoveryActive := False\<rparr>
      else
        (let nxt = next_down (table e) (Pct (walkRow e));
             e1 = cg_emit e (BudgetRecovered (Action (walkRow e)) (Action nxt) (Pct nxt));
             (e2, _) = ApplyAction answer e1 (Action nxt)
         in e2\<lparr>walkRow := nxt\<rparr>))"

definition walk_cancel :: "CostGatingEngine \<Rightarrow> CostGatingEngine" where
  "walk_cancel e = e\<lparr>recoveryActive := False\<rparr>"

inductive cg_step :: "(f64 \<Rightarrow> int) \<Rightarrow> CostGatingEngine \<Rightarrow> CostGatingEngine \<Rightarrow> bool" for impl where
  begin_tick: "tick e = Idle \<Longrightarrow> cg_step impl e (tick_begin impl snap b e)"
| act_tick: "cg_step impl e (tick_act answer e)"
| end_tick: "cg_step impl e (tick_end append_err e)"
| fire_walk: "cg_step impl e (walk_fire answer e)"
| cancel_walk: "cg_step impl e (walk_cancel e)"


text \<open>A tick that no step of the walk interrupts.\<close>

definition tickOnce ::
  "(f64 \<Rightarrow> int) \<Rightarrow> string + BudgetSnapshot \<Rightarrow> boundary \<Rightarrow> string option \<Rightarrow> string option \<Rightarrow> CostGatingEngine \<Rightarrow> CostGatingEngine" where
  "tickOnce impl snap b answer append_err e = tick_end append_err (tick_act answer (tick_begin impl snap b e))"

subsection \<open>Overrides only tighten\<close>

definition row_ok :: "(string \<rightharpoonup> string) \<Rightarrow> ProjectOverride \<Rightarrow> string \<Rightarrow> bool" where
  "row_ok acts ov k \<longleftrightarrow>
     (case acts k of
        None \<Rightarrow> False
      | Some a \<Rightarrow> a \<in> set knownActions
          \<and> (case Option.bind ov (\<lambda>m. m k) of None \<Rightarrow> True | Some ova \<Rightarrow> ova \<in> set knownActions \<and> severityRank a \<le> severityRank ova))"

definition chosen :: "(string \<rightharpoonup> string) \<Rightarrow> ProjectOverride \<Rightarrow> string \<Rightarrow> ThresholdRow" where
  "chosen acts ov k =
     \<lparr>Pct = pctFromKey k, Action = (case Option.bind ov (\<lambda>m. m k) of None \<Rightarrow> the (acts k) | Some ova \<Rightarrow> ova)\<rparr>"

lemma load_row_iff: "load_row acts ov k = Inr row \<longleftrightarrow> row_ok acts ov k \<and> row = chosen acts ov k"
  by (auto simp: load_row_def row_ok_def chosen_def split: option.splits if_splits)

lemma load_rows_iff: "load_rows acts ov ks = Inr rows \<longleftrightarrow> list_all (row_ok acts ov) ks \<and> rows = map (chosen acts ov) ks"
proof (induction ks arbitrary: rows)
  case (Cons k ks)
  show ?case
  proof (cases "load_row acts ov k")
    case (Inl err)
    then have "\<not> row_ok acts ov k" using load_row_iff [of acts ov k "chosen acts ov k"] by auto
    with Inl show ?thesis by simp
  next
    case (Inr row)
    then have row: "row_ok acts ov k" "row = chosen acts ov k" by (simp_all add: load_row_iff)
    show ?thesis
    proof (cases "load_rows acts ov ks")
      case (Inl err)
      then have "\<not> list_all (row_ok acts ov) ks" using Cons.IH [of "map (chosen acts ov) ks"] by simp
      with Inl Inr show ?thesis by simp
    next
      case (Inr rows')
      with Cons.IH [of rows'] \<open>load_row acts ov k = Inr row\<close> row show ?thesis by auto
    qed
  qed
qed auto

lemma pct_keys: "map pctFromKey thresholdKeyOrder = [60, 80, 90, 100, -1]"
  by (simp add: thresholdKeyOrder_def pctFromKey_def)

lemma sort_rows_id:
  assumes "map Pct rows = [60, 80, 90, 100, -1]"
  shows "sort_rows rows = rows"
proof -
  obtain a b c d p where r: "rows = [a, b, c, d, p]" "Pct a = 60" "Pct b = 80" "Pct c = 90" "Pct d = 100" "Pct p = -1"
    using assms by (auto simp: map_eq_Cons_conv)
  then show ?thesis by (simp add: sort_rows_def)
qed

lemma LoadThresholdTable_iff:
  "LoadThresholdTable p ov = Inr rows \<longleftrightarrow>
     (\<exists>acts. Actions p = Some acts \<and> list_all (row_ok acts ov) thresholdKeyOrder \<and> rows = map (chosen acts ov) thresholdKeyOrder)"
proof (cases "Actions p")
  case None
  then show ?thesis by (simp add: LoadThresholdTable_def)
next
  case (Some acts)
  let ?rows = "map (chosen acts ov) thresholdKeyOrder"
  have "map Pct ?rows = map pctFromKey thresholdKeyOrder" by (simp add: chosen_def)
  then have srt: "sort_rows ?rows = ?rows" by (intro sort_rows_id) (simp only: pct_keys)
  have "map_sum id sort_rows (load_rows acts ov thresholdKeyOrder) = Inr rows \<longleftrightarrow>
      load_rows acts ov thresholdKeyOrder = Inr rows"
  proof (cases "load_rows acts ov thresholdKeyOrder")
    case (Inr rows')
    then have "rows' = ?rows" by (simp only: load_rows_iff)
    with Inr srt show ?thesis by simp
  qed simp
  then show ?thesis using Some load_rows_iff [of acts ov thresholdKeyOrder rows] by (simp add: LoadThresholdTable_def)
qed

lemma loaded_table:
  assumes "LoadThresholdTable p ov = Inr rows"
  shows "map Pct rows = [60, 80, 90, 100, -1]"
proof -
  obtain acts where "rows = map (chosen acts ov) thresholdKeyOrder" using assms unfolding LoadThresholdTable_iff by blast
  then have "map Pct rows = map pctFromKey thresholdKeyOrder" by (simp add: chosen_def)
  then show ?thesis by (simp only: pct_keys)
qed

text \<open>A threshold table loads exactly when the doctrine gives each of the five thresholds a known
  action and every override is a known action of no lower severity; the table then has one row per
  threshold, in ascending order with pay-as-you-go last, each with the override if there is one and
  the doctrine's action otherwise, and so never with a less severe action than the doctrine's.\<close>

lemma LoadThresholdTable_tightens_only:
  assumes "Actions p = Some acts"
  shows "(LoadThresholdTable p ov = Inr rows \<longleftrightarrow>
       list_all (row_ok acts ov) thresholdKeyOrder \<and> rows = map (chosen acts ov) thresholdKeyOrder)
    \<and> (LoadThresholdTable p ov = Inr rows \<longrightarrow>
         map Pct rows = [60, 80, 90, 100, PctPAYG]
       \<and> list_all2 (\<lambda>k r. Action r \<in> set knownActions \<and> severityRank (the (acts k)) \<le> severityRank (Action r))
           thresholdKeyOrder rows)"
proof -
  have tight: "row_ok acts ov k \<Longrightarrow> Action (chosen acts ov k) \<in> set knownActions
      \<and> severityRank (the (acts k)) \<le> severityRank (Action (chosen acts ov k))" for k
    by (auto simp: row_ok_def chosen_def split: option.splits)
  have "list_all (row_ok acts ov) ks \<Longrightarrow> list_all2 (\<lambda>k r. Action r \<in> set knownActions
      \<and> severityRank (the (acts k)) \<le> severityRank (Action r)) ks (map (chosen acts ov) ks)" for ks
    by (induction ks) (auto dest: tight)
  then show ?thesis using assms loaded_table [of p ov rows] by (auto simp: LoadThresholdTable_iff)
qed


definition default_profile :: CostProfile where
  "default_profile = \<lparr>DoctrineName = ''default'',
     Actions = Some (action_map CostActionContinue CostActionTierDegradeL1L2 CostActionHardPause CostActionHardPause CostActionHardPause),
     AtomicityTimeout = 30 * second, RecoveryStepInterval = 60 * second\<rparr>"

subsection \<open>More spending never lowers the threshold\<close>

definition pct_value :: "BudgetSnapshot \<Rightarrow> f64" where
  "pct_value s = f_mul (f_div (if f_lt (CumulativeUSD s) (Fin 0) then Fin 0 else CumulativeUSD s) (DailyCapUSD s)) (Fin 100)"

text \<open>The percentage of a snapshot is a number that fits an \<open>int\<close>.\<close>

definition pct_fits :: "BudgetSnapshot \<Rightarrow> bool" where
  "pct_fits s \<longleftrightarrow> (case pct_value s of Fin q \<Rightarrow> q < 2 ^ 63 | _ \<Rightarrow> False)"

lemma f_le_Inf: "x \<noteq> NaN \<Longrightarrow> f_le x (Inf True)" "x \<noteq> NaN \<Longrightarrow> f_le (Inf False) x"
  by (cases x; simp)+

lemma f_mul_mono: "f_le x y \<Longrightarrow> 0 < k \<Longrightarrow> f_le (f_mul x (Fin k)) (f_mul y (Fin k))"
  by (cases x; cases y) (auto intro: f_round_mono mult_right_mono f_le_Inf)

lemma clip_Fin: "(if f_lt (Fin x) (Fin 0) then Fin 0 else Fin x) = Fin (max 0 x)"
  by auto

lemma f_div_mono: "f_le (Fin a) (Fin b) \<Longrightarrow> 0 < c \<Longrightarrow> f_le (f_div (Fin a) (Fin c)) (f_div (Fin b) (Fin c))"
  by (auto intro!: f_round_mono divide_right_mono)

lemma f_round_ge0: "0 \<le> q \<Longrightarrow> f_le (Fin 0) (f_round q)"
  using f_round_mono [of 0 q] f_round_id [of 0] by simp

lemma pct_value_nonneg:
  assumes "DailyCapUSD s = Fin c" "0 < c" "CumulativeUSD s = Fin a"
  shows "f_le (Fin 0) (pct_value s)"
proof -
  have "f_le (Fin 0) (f_div (Fin (max 0 a)) (Fin c))" using assms(2) by (auto intro: f_round_ge0)
  then have "f_le (f_mul (Fin 0) (Fin 100)) (f_mul (f_div (Fin (max 0 a)) (Fin c)) (Fin 100))" by (rule f_mul_mono) simp
  moreover have "f_mul (Fin 0) (Fin 100) = Fin 0" using f_round_id [of 0] by simp
  ultimately show ?thesis unfolding pct_value_def assms(1,3) clip_Fin by simp
qed

lemma pct_value_mono:
  assumes "DailyCapUSD s = Fin c" "DailyCapUSD s' = Fin c" "0 < c" "CumulativeUSD s = Fin a" "CumulativeUSD s' = Fin b" "a \<le> b"
  shows "f_le (pct_value s) (pct_value s')"
proof -
  have "f_le (f_div (Fin (max 0 a)) (Fin c)) (f_div (Fin (max 0 b)) (Fin c))"
    using assms(3,6) by (intro f_div_mono) auto
  then have "f_le (f_mul (f_div (Fin (max 0 a)) (Fin c)) (Fin 100)) (f_mul (f_div (Fin (max 0 b)) (Fin c)) (Fin 100))"
    by (rule f_mul_mono) simp
  then show ?thesis unfolding pct_value_def assms(1,2,4,5) clip_Fin .
qed

lemma spent_pct_floor:
  assumes "pct_fits s" "f_le (Fin 0) (pct_value s)"
  obtains q where "pct_value s = Fin q" "spent_pct impl s = \<lfloor>q\<rfloor>"
proof -
  obtain q where q: "pct_value s = Fin q" "q < 2 ^ 63" using assms(1) by (auto simp: pct_fits_def split: f64.splits)
  have "0 \<le> q" using assms(2) q by simp
  then have "0 \<le> \<lfloor>q\<rfloor>" "\<lfloor>q\<rfloor> < 2 ^ 63" using q(2) by (simp, simp add: floor_less_iff)
  then have "in_i64 \<lfloor>q\<rfloor>" by (simp add: in_i64_def)
  with q \<open>0 \<le> q\<close> that show ?thesis by (simp add: spent_pct_def go_int_def pct_value_def [symmetric] Let_def)
qed

lemma last_reached_table:
  assumes "map Pct tab = [60, 80, 90, 100, -1]"
  shows "last_reached pct tab None =
    (if pct < 60 then None else Some (tab ! (if pct < 80 then 0 else if pct < 90 then 1 else if pct < 100 then 2 else 3)))"
proof -
  obtain a b c d p where "tab = [a, b, c, d, p]" "Pct a = 60" "Pct b = 80" "Pct c = 90" "Pct d = 100" "Pct p = -1"
    using assms by (auto simp: map_eq_Cons_conv)
  then show ?thesis by simp
qed

lemma table_pct:
  assumes "map Pct tab = [60, 80, 90, 100, -1]"
  shows "Pct (tab ! 0) = 60" "Pct (tab ! 1) = 80" "Pct (tab ! 2) = 90" "Pct (tab ! 3) = 100" "length tab = 5"
proof -
  obtain a b c d p where "tab = [a, b, c, d, p]" "Pct a = 60" "Pct b = 80" "Pct c = 90" "Pct d = 100" "Pct p = -1"
    using assms by (auto simp: map_eq_Cons_conv)
  then show "Pct (tab ! 0) = 60" "Pct (tab ! 1) = 80" "Pct (tab ! 2) = 90" "Pct (tab ! 3) = 100" "length tab = 5" by simp_all
qed


lemma Evaluate_pct:
  assumes "map Pct tab = [60, 80, 90, 100, -1]" "\<not> PAYGActive s" "DailyCapUSD s = Fin c" "0 < c"
  shows "Evaluate impl tab s = (let pct = spent_pct impl s in if pct < 60 then continue_row
      else tab ! (if pct < 80 then 0 else if pct < 90 then 1 else if pct < 100 then 2 else 3))"
  using assms by (simp add: Evaluate_def last_reached_table Let_def)

text \<open>With a loaded table and a positive cap, the threshold is monotone in the spending under
  IEEE arithmetic: more spent never gives a lower row, and spending the cap or more always gives the
  row of the full cap, as long as the percentage fits an \<open>int\<close>.\<close>

lemma Evaluate_monotone:
  assumes tab: "LoadThresholdTable p ov = Inr tab"
    and cap: "DailyCapUSD s = Fin c" "DailyCapUSD s' = Fin c" "0 < c"
    and cum: "CumulativeUSD s = Fin a" "CumulativeUSD s' = Fin b" "a \<le> b"
    and payg: "\<not> PAYGActive s" "\<not> PAYGActive s'"
    and fits: "pct_fits s" "pct_fits s'"
  shows "Pct (Evaluate impl tab s) \<le> Pct (Evaluate impl tab s')
    \<and> (c \<le> b \<longrightarrow> Evaluate impl tab s' = tab ! 3)"
proof -
  note t = loaded_table [OF tab]
  obtain q where q: "pct_value s = Fin q" "spent_pct impl s = \<lfloor>q\<rfloor>"
    using spent_pct_floor [OF fits(1) pct_value_nonneg [OF cap(1,3) cum(1)]] .
  obtain q' where q': "pct_value s' = Fin q'" "spent_pct impl s' = \<lfloor>q'\<rfloor>"
    using spent_pct_floor [OF fits(2) pct_value_nonneg [OF cap(2,3) cum(2)]] .
  have "q \<le> q'" using pct_value_mono [OF cap cum] q(1) q'(1) by simp
  then have le: "spent_pct impl s \<le> spent_pct impl s'" unfolding q(2) q'(2) by (rule floor_mono)
  have full: "100 \<le> spent_pct impl s'" if "c \<le> b"
  proof -
    let ?full = "s'\<lparr>CumulativeUSD := Fin c\<rparr>"
    have "f_round 1 = Fin 1" "f_round 100 = Fin 100"
      using rnd_of_int [of 1] rnd_of_int [of 100] by (simp_all add: f_round_def Let_def)
    then have "pct_value ?full = Fin 100" using cap by (simp add: pct_value_def)
    moreover have "f_le (pct_value ?full) (pct_value s')"
      using cap(2,3) cum(2) that by (intro pct_value_mono [of _ c _ c b]) simp_all
    ultimately have "100 \<le> q'" using q'(1) by simp
    then show ?thesis unfolding q'(2) by (simp add: le_floor_iff)
  qed
  have "Evaluate impl tab s' = tab ! 3" if "c \<le> b"
    using full [OF that] by (simp add: Evaluate_pct [OF t payg(2) cap(2,3)])
  moreover have "Pct (Evaluate impl tab s) \<le> Pct (Evaluate impl tab s')"
    unfolding Evaluate_pct [OF t payg(1) cap(1,3)] Evaluate_pct [OF t payg(2) cap(2,3)]
    using le table_pct [OF t] by (simp add: Let_def continue_row_def)
  ultimately show ?thesis by blast
qed

definition snap_of :: "rat \<Rightarrow> rat \<Rightarrow> BudgetSnapshot" where
  "snap_of cum cap = \<lparr>CumulativeUSD = Fin cum, DailyCapUSD = Fin cap, ProjectedEODUSD = Fin 0, PAYGActive = False\<rparr>"

lemma snap_full: "pct_value (snap_of 16 16) = Fin 100" "spent_pct impl (snap_of 16 16) = 100"
  using rnd_of_int [of 1] rnd_of_int [of 100]
  by (simp_all add: snap_of_def pct_value_def spent_pct_def go_int_def f_round_def Let_def in_i64_def)

lemma snap_zero: "pct_value (snap_of 0 16) = Fin 0" "spent_pct impl (snap_of 0 16) = 0"
  by (simp_all add: snap_of_def pct_value_def spent_pct_def go_int_def f_round_def Let_def in_i64_def)

definition default_table :: "ThresholdRow list" where
  "default_table =
     [\<lparr>Pct = 60, Action = CostActionContinue\<rparr>, \<lparr>Pct = 80, Action = CostActionTierDegradeL1L2\<rparr>,
      \<lparr>Pct = 90, Action = CostActionHardPause\<rparr>, \<lparr>Pct = 100, Action = CostActionHardPause\<rparr>,
      \<lparr>Pct = -1, Action = CostActionHardPause\<rparr>]"

lemma default_loads: "LoadThresholdTable default_profile None = Inr default_table"
  unfolding LoadThresholdTable_iff
  by (simp add: default_profile_def default_table_def thresholdKeyOrder_def row_ok_def chosen_def action_map_def
      knownActions_def pctFromKey_def)

subsection \<open>The engine applies or retries\<close>

definition cg_init :: "CostGatingEngine \<Rightarrow> bool" where
  "cg_init e \<longleftrightarrow> (\<exists>p ov. NewCostGatingEngine p ov = Inr e)"

definition known_row :: "ThresholdRow list \<Rightarrow> ThresholdRow \<Rightarrow> bool" where
  "known_row tab r \<longleftrightarrow> r \<in> set tab \<or> r = continue_row"

definition table_ok :: "ThresholdRow list \<Rightarrow> bool" where
  "table_ok tab \<longleftrightarrow> map Pct tab = [60, 80, 90, 100, -1] \<and> list_all (\<lambda>r. Action r \<in> set knownActions) tab"

fun tick_ok :: "ThresholdRow list \<Rightarrow> tick_state \<Rightarrow> bool" where
  "tick_ok tab Idle = True"
| "tick_ok tab (Decided r s) = known_row tab r"
| "tick_ok tab (Acted r s) = known_row tab r"

definition cg_inv :: "CostGatingEngine \<Rightarrow> bool" where
  "cg_inv e \<longleftrightarrow> table_ok (table e) \<and> known_row (table e) (walkRow e)
     \<and> pred_option (known_row (table e)) (currentRow e) \<and> tick_ok (table e) (tick e)"

lemma map_sum_InrE: "map_sum f g x = Inr y \<Longrightarrow> (\<And>z. x = Inr z \<Longrightarrow> y = g z \<Longrightarrow> P) \<Longrightarrow> P"
  by (cases x) auto

lemma cg_emit_simps [simp]:
  "table (cg_emit e ev) = table e" "currentRow (cg_emit e ev) = currentRow e" "walkRow (cg_emit e ev) = walkRow e"
  "recoveryActive (cg_emit e ev) = recoveryActive e" "tick (cg_emit e ev) = tick e" "calls (cg_emit e ev) = calls e"
  "cg_events (cg_emit e ev) = cg_events e @ [ev]"
  by (simp_all add: cg_emit_def)

lemma emitApplyFailed_simps [simp]:
  "table (emitApplyFailed e r x) = table e" "currentRow (emitApplyFailed e r x) = currentRow e"
  "walkRow (emitApplyFailed e r x) = walkRow e" "recoveryActive (emitApplyFailed e r x) = recoveryActive e"
  "tick (emitApplyFailed e r x) = Idle" "calls (emitApplyFailed e r x) = calls e"
  by (simp_all add: emitApplyFailed_def)

lemma last_reached_in: "last_reached pct rs m = Some r \<Longrightarrow> r \<in> set rs \<or> m = Some r"
  by (induction rs arbitrary: m) (auto split: if_splits)

lemma find_in: "find P xs = Some x \<Longrightarrow> x \<in> set xs \<and> P x"
  by (induction xs) (auto split: if_splits)

lemma Evaluate_known: "known_row tab (Evaluate impl tab s)"
  by (auto simp: Evaluate_def known_row_def split: option.splits dest: last_reached_in find_in)

lemma next_down_known: "known_row tab (next_down tab pct)"
  by (auto simp: next_down_def known_row_def split: option.splits dest: find_in)

lemma ApplyAction_frame:
  assumes "ApplyAction answer e a = (e', err)"
  shows "table e' = table e \<and> currentRow e' = currentRow e \<and> walkRow e' = walkRow e \<and> recoveryActive e' = recoveryActive e
    \<and> tick e' = tick e \<and> cg_events e' = cg_events e"
  using assms by (auto simp: ApplyAction_def split: option.splits)

lemma known_row_action: "cg_inv e \<Longrightarrow> known_row (table e) r \<Longrightarrow> Action r \<in> set knownActions"
  by (auto simp: cg_inv_def table_ok_def known_row_def list_all_iff continue_row_def knownActions_def)

lemma actuator_call_known: "a \<in> set knownActions \<Longrightarrow> actuator_call a \<noteq> None"
  by (auto simp: knownActions_def actuator_call_def)

lemma cg_inv_begin: "cg_inv e \<Longrightarrow> cg_inv (tick_begin impl snap b e)"
  using Evaluate_known [of "table e" impl]
  by (auto simp: tick_begin_def cg_inv_def Let_def split: sum.splits boundary.splits)

lemma cg_inv_act: "cg_inv e \<Longrightarrow> cg_inv (tick_act answer e)"
  by (auto simp: tick_act_def cg_inv_def split: tick_state.splits prod.splits option.splits dest!: ApplyAction_frame)

lemma cg_inv_end: "cg_inv e \<Longrightarrow> cg_inv (tick_end err e)"
  by (auto simp: tick_end_def cg_inv_def triggerRecovery_def Let_def split: tick_state.splits option.splits)

lemma cg_inv_walk: "cg_inv e \<Longrightarrow> cg_inv (walk_fire answer e)"
  using next_down_known [of "table e" "Pct (walkRow e)"]
  by (auto simp: walk_fire_def cg_inv_def Let_def split: tick_state.splits option.splits prod.splits dest!: ApplyAction_frame)

interpretation costgate: safety cg_init "cg_step impl" cg_inv for impl
proof
  fix e assume "cg_init e"
  then obtain p ov rows where l: "LoadThresholdTable p ov = Inr rows"
      and e: "table e = rows" "currentRow e = None" "walkRow e = continue_row" "tick e = Idle"
    by (auto simp: cg_init_def NewCostGatingEngine_def elim!: map_sum_InrE)
  obtain acts where a: "Actions p = Some acts" "list_all (row_ok acts ov) thresholdKeyOrder" "rows = map (chosen acts ov) thresholdKeyOrder"
    using l unfolding LoadThresholdTable_iff by blast
  have "row_ok acts ov k \<Longrightarrow> Action (chosen acts ov k) \<in> set knownActions" for k
    by (auto simp: row_ok_def chosen_def split: option.splits)
  then have "list_all (\<lambda>r. Action r \<in> set knownActions) rows" using a by (auto simp: list_all_iff)
  with loaded_table [OF l] e show "cg_inv e" by (simp add: cg_inv_def table_ok_def known_row_def)
next
  fix e e' assume "cg_inv e" and "cg_step impl e e'"
  from this(2,1) show "cg_inv e'"
    by cases (auto intro: cg_inv_begin cg_inv_act cg_inv_end cg_inv_walk simp: walk_cancel_def, simp add: cg_inv_def)
qed


lemma tick_idle [simp]: "tick e = Idle \<Longrightarrow> tick_act answer e = e" "tick e = Idle \<Longrightarrow> tick_end err e = e"
  by (simp_all add: tick_act_def tick_end_def)

lemma tick_end_acted:
  assumes "tick e = Acted row s"
  shows "tick (tick_end err e) = Idle \<and> calls (tick_end err e) = calls e \<and> currentRow (tick_end err e) = Some row"
proof -
  have tr: "tick (triggerRecovery x q) = tick x" "calls (triggerRecovery x q) = calls x"
      "currentRow (triggerRecovery x q) = currentRow x" for x q
    by (simp_all add: triggerRecovery_def)
  show ?thesis using assms by (simp add: tick_end_def tr Let_def split: option.split)
qed

lemma tick_act_decided:
  assumes "tick e = Decided row s" "actuator_call (Action row) = Some m"
  shows "calls (tick_act answer e) = calls e @ [m] \<and> currentRow (tick_act answer e) = currentRow e
    \<and> (case answer of
         Some err \<Rightarrow> tick (tick_act answer e) = Idle
           \<and> last (cg_events (tick_act answer e)) = BudgetDegradationFailed (Action row) (ActuatorErr err)
       | None \<Rightarrow> tick (tick_act answer e) = Acted row s)"
  using assms by (cases answer) (simp_all add: tick_act_def ApplyAction_def emitApplyFailed_def)

lemma tick_rest:
  assumes "tick e = Decided row s" "actuator_call (Action row) = Some m"
  shows "tick (tick_end err (tick_act answer e)) = Idle \<and> calls (tick_end err (tick_act answer e)) = calls e @ [m]
    \<and> (case answer of
         Some x \<Rightarrow> currentRow (tick_end err (tick_act answer e)) = currentRow e
           \<and> last (cg_events (tick_end err (tick_act answer e))) = BudgetDegradationFailed (Action row) (ActuatorErr x)
       | None \<Rightarrow> currentRow (tick_end err (tick_act answer e)) = Some row)"
  using tick_act_decided [OF assms, of answer] tick_end_acted [of "tick_act answer e" row s err]
  by (cases answer) auto

text \<open>An undisturbed tick between ticks applies the row of the snapshot or leaves it to be tried
  again. If the row is the current one nothing happens. Otherwise, with a boundary or a timeout,
  the actuator method of the row is called exactly once; if it succeeds the row becomes current
  whatever happens to the audit row, and if it fails, or the context ends while waiting, the
  current row stays and the failure is logged, so that the next tick decides the same again.\<close>

lemma tick_applies_or_retries:
  assumes "reach cg_init (cg_step impl) e" and "tick e = Idle"
  defines "e' s b answer append_err \<equiv> tickOnce impl (Inr s) b answer append_err e"
    and "row s \<equiv> Evaluate impl (table e) s"
  shows "tick (e' s b answer append_err) = Idle
    \<and> (if currentRow e = Some (row s) then e' s b answer append_err = e
       else if b = CtxDone \<and> Action (row s) \<noteq> CostActionContinue
       then calls (e' s b answer append_err) = calls e \<and> currentRow (e' s b answer append_err) = currentRow e
          \<and> last (cg_events (e' s b answer append_err)) = BudgetDegradationFailed (Action (row s)) CtxErr
       else (\<exists>m. actuator_call (Action (row s)) = Some m \<and> calls (e' s b answer append_err) = calls e @ [m])
          \<and> (case answer of
               Some err \<Rightarrow> currentRow (e' s b answer append_err) = currentRow e
                 \<and> last (cg_events (e' s b answer append_err)) = BudgetDegradationFailed (Action (row s)) (ActuatorErr err)
             | None \<Rightarrow> currentRow (e' s b answer append_err) = Some (row s)))"
proof -
  have "cg_inv e" using costgate.reach_inv assms(1) .
  then have "Action (row s) \<in> set knownActions"
    using Evaluate_known [of "table e" impl s] known_row_action unfolding row_def by blast
  then obtain m where m: "actuator_call (Action (Evaluate impl (table e) s)) = Some m"
    using actuator_call_known unfolding row_def by blast
  let ?b = "tick_begin impl (Inr s) b e"
  show ?thesis
  proof (cases "currentRow e = Some (row s)")
    case True
    then show ?thesis using assms(2) by (simp add: e'_def row_def tickOnce_def tick_begin_def)
  next
    case False
    show ?thesis
    proof (cases "b = CtxDone \<and> Action (row s) \<noteq> CostActionContinue")
      case True
      then have "?b = emitApplyFailed e (row s) CtxErr"
        using False by (simp add: tick_begin_def row_def Let_def)
      then have "e' s b answer append_err = emitApplyFailed e (row s) CtxErr" by (simp add: e'_def tickOnce_def)
      with True False show ?thesis by (simp add: emitApplyFailed_def)
    next
      case n: False
      then have "tick ?b = Decided (row s) s" "calls ?b = calls e" "currentRow ?b = currentRow e"
        using False by (cases b; simp add: tick_begin_def row_def Let_def)+
      with tick_rest [of ?b "row s" s m append_err answer] m n False show ?thesis
        by (simp only: e'_def tickOnce_def row_def if_False) (cases answer; simp)
    qed
  qed
qed


definition fresh_default :: CostGatingEngine where
  "fresh_default = \<lparr>table = default_table, currentRow = None, recoveryActive = False, walkRow = continue_row,
     tick = Idle, calls = [], cg_events = []\<rparr>"

lemma fresh_reach: "reach cg_init (cg_step impl) fresh_default"
proof (rule reach_init)
  have "NewCostGatingEngine default_profile None = Inr fresh_default"
    by (simp add: NewCostGatingEngine_def default_loads fresh_default_def)
  then show "cg_init fresh_default" unfolding cg_init_def by blast
qed

lemma Evaluate_default:
  "Evaluate impl default_table (snap_of 16 16) = \<lparr>Pct = 100, Action = CostActionHardPause\<rparr>"
  "Evaluate impl default_table (snap_of 0 16) = continue_row"
proof -
  have "map Pct default_table = [60, 80, 90, 100, -1]" by (simp add: default_table_def)
  note ev = Evaluate_pct [OF this, of "snap_of _ 16" 16 impl]
  show "Evaluate impl default_table (snap_of 16 16) = \<lparr>Pct = 100, Action = CostActionHardPause\<rparr>"
    using ev [of 16] snap_full(2) [of impl] by (simp add: snap_of_def default_table_def)
  show "Evaluate impl default_table (snap_of 0 16) = continue_row"
    using ev [of 0] snap_zero(2) [of impl] by (simp add: snap_of_def)
qed

subsection \<open>The recovery walk\<close>

definition walk_height :: "ThresholdRow \<Rightarrow> nat" where
  "walk_height r = (if Action r = CostActionContinue then 1 else if Pct r = 100 then 5 else if Pct r = 90 then 4
     else if Pct r = 80 then 3 else 2)"

lemma next_down_height:
  assumes "table_ok tab" "known_row tab r" "Action r \<noteq> CostActionContinue"
  shows "walk_height (next_down tab (Pct r)) < walk_height r"
proof -
  obtain a b c d p where t: "tab = [a, b, c, d, p]" "Pct a = 60" "Pct b = 80" "Pct c = 90" "Pct d = 100" "Pct p = -1"
    using assms(1) by (auto simp: table_ok_def map_eq_Cons_conv)
  have "r \<in> {a, b, c, d, p}" using assms(2,3) t by (auto simp: known_row_def continue_row_def)
  with t assms(3) show ?thesis by (auto simp: next_down_def walk_height_def continue_row_def)
qed

lemma walk_fire_known:
  assumes "table_ok (table e)" "known_row (table e) (walkRow e)"
  shows "table (walk_fire answer e) = table e \<and> known_row (table e) (walkRow (walk_fire answer e))
    \<and> (recoveryActive (walk_fire answer e) \<longrightarrow> recoveryActive e \<and> walk_height (walkRow (walk_fire answer e)) < walk_height (walkRow e))
    \<and> length (calls (walk_fire answer e)) \<le> Suc (length (calls e))
    \<and> (\<not> recoveryActive e \<longrightarrow> calls (walk_fire answer e) = calls e)"
proof -
  let ?nxt = "next_down (table e) (Pct (walkRow e))"
  obtain e2 err where a: "ApplyAction answer (cg_emit e (BudgetRecovered (Action (walkRow e)) (Action ?nxt) (Pct ?nxt))) (Action ?nxt) = (e2, err)"
    by (metis surj_pair)
  have "length (calls e2) \<le> Suc (length (calls e))" using a by (auto simp: ApplyAction_def split: option.splits)
  moreover note ApplyAction_frame [OF a] next_down_known [of "table e" "Pct (walkRow e)"] next_down_height [OF assms]
  ultimately show ?thesis using assms a by (auto simp: walk_fire_def Let_def)
qed

lemma walk_ends_in:
  assumes "table_ok (table e)" "known_row (table e) (walkRow e)" "recoveryActive e \<Longrightarrow> walk_height (walkRow e) \<le> length answers"
  shows "\<not> recoveryActive (fold walk_fire answers e) \<and> length (calls (fold walk_fire answers e)) \<le> length (calls e) + length answers"
  using assms
proof (induction answers arbitrary: e)
  case Nil
  then show ?case by (auto simp: walk_height_def split: if_splits)
next
  case (Cons x answers)
  note w = walk_fire_known [OF Cons.prems(1,2), of x]
  have "\<not> recoveryActive (fold walk_fire answers (walk_fire x e))
      \<and> length (calls (fold walk_fire answers (walk_fire x e))) \<le> length (calls (walk_fire x e)) + length answers"
    by (rule Cons.IH) (use Cons.prems w in auto)
  with w show ?case by auto
qed

text \<open>The recovery walk ends. From any reachable engine, however the actuator answers, at most five
  firings of its timer without cancellation end the walk: each goes to a strictly lower threshold
  until it is fully recovered or held for the operator.\<close>

lemma recovery_walk_ends:
  assumes "reach cg_init (cg_step impl) e" and "5 \<le> length answers"
  shows "\<not> recoveryActive (fold walk_fire answers e)"
proof -
  have "cg_inv e" using costgate.reach_inv assms(1) .
  moreover have "walk_height (walkRow e) \<le> 5" by (simp add: walk_height_def)
  ultimately show ?thesis using walk_ends_in [of e answers] assms(2) by (auto simp: cg_inv_def)
qed


lemma reach_tickOnce:
  assumes "reach cg_init (cg_step impl) e" "tick e = Idle"
  shows "reach cg_init (cg_step impl) (tickOnce impl snap b answer append_err e)"
proof -
  have "reach cg_init (cg_step impl) (tick_begin impl snap b e)"
    using assms(1) cg_step.begin_tick [OF assms(2)] by (rule reach_step)
  then have "reach cg_init (cg_step impl) (tick_act answer (tick_begin impl snap b e))"
    using cg_step.act_tick by (rule reach_step)
  then show ?thesis unfolding tickOnce_def using cg_step.end_tick by (rule reach_step)
qed

lemma reach_walk: "reach cg_init (cg_step impl) e \<Longrightarrow> reach cg_init (cg_step impl) (walk_fire answer e)"
  by (rule reach_step, assumption, rule cg_step.fire_walk)

text \<open>The budget is spent, then free again, then spent again before the walk is over.\<close>

definition spent_engine :: CostGatingEngine where
  "spent_engine = fresh_default\<lparr>currentRow := Some \<lparr>Pct = 100, Action = CostActionHardPause\<rparr>, calls := [HardPause],
     cg_events := [BudgetDegradationApplied 100 CostActionHardPause CostActionContinue]\<rparr>"

definition freed_engine :: CostGatingEngine where
  "freed_engine = spent_engine\<lparr>currentRow := Some continue_row, calls := [HardPause, RestoreDefaults],
     cg_events := cg_events spent_engine @ [BudgetDegradationApplied 0 CostActionContinue CostActionHardPause],
     recoveryActive := True, walkRow := \<lparr>Pct = 100, Action = CostActionHardPause\<rparr>\<rparr>"

lemma marshals_snap: "marshals (snap_of a b)"
  by (simp add: marshals_def snap_of_def)

lemma spent_tick: "tickOnce impl (Inr (snap_of 16 16)) Boundary None None fresh_default = spent_engine"
  by (simp add: tickOnce_def tick_begin_def fresh_default_def Evaluate_default tick_act_def ApplyAction_def actuator_call_def
      tick_end_def marshals_snap cg_emit_def spent_engine_def Let_def)

lemma freed_tick: "tickOnce impl (Inr (snap_of 0 16)) Boundary None None spent_engine = freed_engine"
  by (simp add: tickOnce_def tick_begin_def spent_engine_def fresh_default_def Evaluate_default tick_act_def ApplyAction_def
      actuator_call_def tick_end_def marshals_snap cg_emit_def freed_engine_def continue_row_def triggerRecovery_def
      recoveryHoldActions_def Let_def)

lemma idle_engines: "tick fresh_default = Idle" "tick spent_engine = Idle"
  by (simp_all add: fresh_default_def spent_engine_def)

lemma freed_reach: "reach cg_init (cg_step impl) freed_engine"
proof -
  have "reach cg_init (cg_step impl) spent_engine"
    using reach_tickOnce [OF fresh_reach idle_engines(1)] spent_tick by metis
  then show ?thesis using reach_tickOnce idle_engines(2) freed_tick by metis
qed

lemma next_down_default:
  "next_down default_table 100 = \<lparr>Pct = 90, Action = CostActionHardPause\<rparr>"
  "next_down default_table 90 = \<lparr>Pct = 80, Action = CostActionTierDegradeL1L2\<rparr>"
  "next_down default_table 80 = \<lparr>Pct = 60, Action = CostActionContinue\<rparr>"
  by (simp_all add: next_down_def default_table_def)

definition lifted_engine :: "(f64 \<Rightarrow> int) \<Rightarrow> CostGatingEngine" where
  "lifted_engine impl = fold walk_fire [None, None, None]
     (tickOnce impl (Inr (snap_of 16 16)) Boundary None None (walk_fire None freed_engine))"

lemma spent_again: "tickOnce impl (Inr (snap_of 16 16)) Boundary None None (walk_fire None freed_engine) =
    (walk_fire None freed_engine)\<lparr>currentRow := Some \<lparr>Pct = 100, Action = CostActionHardPause\<rparr>,
       calls := calls (walk_fire None freed_engine) @ [HardPause],
       cg_events := cg_events (walk_fire None freed_engine) @ [BudgetDegradationApplied 100 CostActionHardPause CostActionContinue]\<rparr>"
  by (simp add: tickOnce_def tick_begin_def freed_engine_def spent_engine_def fresh_default_def Evaluate_default tick_act_def
      ApplyAction_def actuator_call_def tick_end_def marshals_snap cg_emit_def walk_fire_def next_down_default continue_row_def
      recoveryHoldActions_def Let_def)

text \<open>The recovery walk undoes the gate. With the default doctrine there is a reachable engine,
  between ticks and with no walk left, whose current row is the hard pause of a fully spent budget,
  while the last call the actuator received was to restore the defaults; every further tick on that
  snapshot changes nothing. The walk had been started when the budget was free, and did not see that
  it was spent again.\<close>

lemma recovery_walk_lifts_hard_cap:
  "reach cg_init (cg_step impl) (lifted_engine impl)
   \<and> tick (lifted_engine impl) = Idle \<and> \<not> recoveryActive (lifted_engine impl)
   \<and> currentRow (lifted_engine impl) = Some \<lparr>Pct = 100, Action = CostActionHardPause\<rparr>
   \<and> last (calls (lifted_engine impl)) = RestoreDefaults
   \<and> tickOnce impl (Inr (snap_of 16 16)) b answer err (lifted_engine impl) = lifted_engine impl"
proof -
  have "tick (walk_fire None freed_engine) = Idle"
    by (simp add: fresh_default_def spent_engine_def freed_engine_def walk_fire_def ApplyAction_def cg_emit_def
        next_down_default actuator_call_def recoveryHoldActions_def Let_def)
  then have r: "reach cg_init (cg_step impl) (lifted_engine impl)"
    unfolding lifted_engine_def fold_simps comp_apply id_apply by (intro reach_walk reach_tickOnce freed_reach)
  have l: "tick (lifted_engine impl) = Idle" "\<not> recoveryActive (lifted_engine impl)"
      "currentRow (lifted_engine impl) = Some \<lparr>Pct = 100, Action = CostActionHardPause\<rparr>"
      "last (calls (lifted_engine impl)) = RestoreDefaults" "table (lifted_engine impl) = default_table"
    unfolding lifted_engine_def spent_again
    by (simp_all add: freed_engine_def spent_engine_def fresh_default_def walk_fire_def next_down_default ApplyAction_def
        actuator_call_def cg_emit_def continue_row_def recoveryHoldActions_def Let_def)
  have "tickOnce impl (Inr (snap_of 16 16)) b answer err (lifted_engine impl) = lifted_engine impl"
    using l by (simp add: tickOnce_def tick_begin_def Evaluate_default)
  with r l show ?thesis by blast
qed


definition capa_table :: "ThresholdRow list" where
  "capa_table =
     [\<lparr>Pct = 60, Action = CostActionEscalateL4\<rparr>, \<lparr>Pct = 80, Action = CostActionWaitingForConfirmation\<rparr>,
      \<lparr>Pct = 90, Action = CostActionWaiting\<rparr>, \<lparr>Pct = 100, Action = CostActionHardPause\<rparr>,
      \<lparr>Pct = -1, Action = CostActionHardPause\<rparr>]"

lemma capa_loads: "map_sum id (\<lambda>p. LoadThresholdTable p None) (BuiltinCostProfile ''capa-firewall'') = Inr (Inr capa_table)"
proof -
  have "LoadThresholdTable p None = Inr capa_table" if "Actions p = Some (action_map CostActionEscalateL4
      CostActionWaitingForConfirmation CostActionWaiting CostActionHardPause CostActionHardPause)" for p
    unfolding LoadThresholdTable_iff that
    by (simp add: capa_table_def thresholdKeyOrder_def row_ok_def chosen_def action_map_def knownActions_def pctFromKey_def)
  then show ?thesis by (simp add: BuiltinCostProfile_def Let_def)
qed

definition waiting_engine :: CostGatingEngine where
  "waiting_engine = \<lparr>table = capa_table, currentRow = Some \<lparr>Pct = 80, Action = CostActionWaitingForConfirmation\<rparr>,
     recoveryActive = False, walkRow = continue_row, tick = Idle, calls = [WaitForConfirmation],
     cg_events = [BudgetDegradationApplied 80 CostActionWaitingForConfirmation CostActionContinue]\<rparr>"

lemma Evaluate_capa:
  "Evaluate impl capa_table (snap_of 14 16) = \<lparr>Pct = 80, Action = CostActionWaitingForConfirmation\<rparr>"
  "Evaluate impl capa_table (snap_of 0 16) = continue_row"
proof -
  have t: "map Pct capa_table = [60, 80, 90, 100, -1]" by (simp add: capa_table_def)
  have "rnd (7 / 8) = 7 / 8" "rnd (175 / 2) = 175 / 2" by code_simp+
  then have "f_round (7 / 8) = Fin (7 / 8)" "f_round (175 / 2) = Fin (175 / 2)" by (auto intro!: f_round_id)
  then have d: "f_div (Fin 14) (Fin 16) = Fin (7 / 8)" and m: "f_mul (Fin (7 / 8)) (Fin 100) = Fin (175 / 2)" by simp_all
  have f: "\<lfloor>175 / 2 :: rat\<rfloor> = 87" by code_simp
  have "spent_pct impl (snap_of 14 16) = go_int impl (f_mul (f_div (Fin 14) (Fin 16)) (Fin 100))"
    by (simp add: snap_of_def spent_pct_def)
  also have "\<dots> = 87" unfolding d m by (simp add: go_int_def f in_i64_def)
  finally have p: "spent_pct impl (snap_of 14 16) = 87" .
  note ev = Evaluate_pct [OF t, of "snap_of _ 16" 16 impl]
  show "Evaluate impl capa_table (snap_of 14 16) = \<lparr>Pct = 80, Action = CostActionWaitingForConfirmation\<rparr>"
    using ev [of 14] p by (simp add: snap_of_def capa_table_def)
  show "Evaluate impl capa_table (snap_of 0 16) = continue_row"
    using ev [of 0] snap_zero(2) [of impl] by (simp add: snap_of_def)
qed

text \<open>What the engine announces is not what it does. With the capa-firewall doctrine, a project
  waiting for confirmation whose budget is free again has its defaults restored at once, in the same
  tick that logs that the operator's confirmation is required for the release. With the default
  doctrine, a minute after the budget is free the walk pauses the project again, and the ticks on the
  free budget leave it paused. And when the audit row of an applied action cannot be written, the
  tick reports a failure but the row is current, so the next tick does not try again.\<close>

lemma recovery_gaps:
  "tickOnce impl (Inr (snap_of 14 16)) Boundary None None
       (waiting_engine\<lparr>currentRow := None, calls := [], cg_events := []\<rparr>) = waiting_engine
   \<and> calls (tickOnce impl (Inr (snap_of 0 16)) Boundary None None waiting_engine) = [WaitForConfirmation, RestoreDefaults]
   \<and> last (cg_events (tickOnce impl (Inr (snap_of 0 16)) Boundary None None waiting_engine))
        = BudgetRecoveryHeld CostActionWaitingForConfirmation
   \<and> calls (tickOnce impl (Inr (snap_of 0 16)) Boundary None None (walk_fire None freed_engine))
        = [HardPause, RestoreDefaults, HardPause]
   \<and> last (cg_events (tickOnce impl (Inr (snap_of 16 16)) Boundary None (Some ''locked'') fresh_default))
        = BudgetDegradationFailed CostActionHardPause (AppendErr ''locked'')
   \<and> currentRow (tickOnce impl (Inr (snap_of 16 16)) Boundary None (Some ''locked'') fresh_default)
        = Some \<lparr>Pct = 100, Action = CostActionHardPause\<rparr>"
proof (intro conjI)
  note defs = tickOnce_def tick_begin_def tick_act_def ApplyAction_def actuator_call_def tick_end_def marshals_snap
    cg_emit_def continue_row_def triggerRecovery_def recoveryHoldActions_def Let_def
  note wait = Evaluate_capa [of impl, unfolded continue_row_def]
  show "tickOnce impl (Inr (snap_of 14 16)) Boundary None None
       (waiting_engine\<lparr>currentRow := None, calls := [], cg_events := []\<rparr>) = waiting_engine"
    by (simp add: waiting_engine_def wait defs)
  show "calls (tickOnce impl (Inr (snap_of 0 16)) Boundary None None waiting_engine) = [WaitForConfirmation, RestoreDefaults]"
    "last (cg_events (tickOnce impl (Inr (snap_of 0 16)) Boundary None None waiting_engine))
        = BudgetRecoveryHeld CostActionWaitingForConfirmation"
    by (simp_all add: waiting_engine_def wait defs)
  have w: "walk_fire None freed_engine = freed_engine\<lparr>calls := [HardPause, RestoreDefaults, HardPause],
      cg_events := cg_events freed_engine @ [BudgetRecovered CostActionHardPause CostActionHardPause 90],
      walkRow := \<lparr>Pct = 90, Action = CostActionHardPause\<rparr>\<rparr>"
    by (simp add: walk_fire_def freed_engine_def spent_engine_def fresh_default_def next_down_default defs)
  show "calls (tickOnce impl (Inr (snap_of 0 16)) Boundary None None (walk_fire None freed_engine))
        = [HardPause, RestoreDefaults, HardPause]"
    unfolding w by (simp add: tickOnce_def tick_begin_def freed_engine_def spent_engine_def fresh_default_def Evaluate_default)
  show "last (cg_events (tickOnce impl (Inr (snap_of 16 16)) Boundary None (Some ''locked'') fresh_default))
        = BudgetDegradationFailed CostActionHardPause (AppendErr ''locked'')"
    "currentRow (tickOnce impl (Inr (snap_of 16 16)) Boundary None (Some ''locked'') fresh_default)
        = Some \<lparr>Pct = 100, Action = CostActionHardPause\<rparr>"
    by (simp_all add: fresh_default_def Evaluate_default emitApplyFailed_def defs)
qed

end
