(* ===== verification/Dispatch.thy ===== *)
theory Dispatch
  imports Pool
begin

text \<open>
  The dispatcher (\<open>orchestrator/dispatcher.go\<close>): it leases worktrees, hands them to the workforce,
  drains the workers' results and gives the worktrees back.

  The pool is reached through its interface only, so the operations here take \<open>lease\<close> and \<open>release\<close>
  as arguments; the locale \<open>worktree_api\<close> states what they promise, and it is interpreted on the
  model of the pool. The select loop of \<open>Dispatch\<close> follows a schedule: the list of the arms that
  were chosen, together with what other goroutines did in between (a \<open>Shutdown\<close>, a lease by another
  client of the pool). A schedule that ends before the loop returns leaves \<open>None\<close>: still blocked.
\<close>

subsection \<open>State and events\<close>

datatype 'w dispatch_event =
    EvDispatched 'w int
  | EvCheckpoint string string "string option"

record WorkerResult =
  WorkerID :: string
  wr_Status :: string
  wr_Err :: "string option"

record DispatchResult =
  WorkersSpawned :: nat
  Completed :: nat
  Errors :: nat
  Aborted :: nat

text \<open>\<open>aborts\<close> counts the calls of \<open>Workforce.AbortAll\<close>.\<close>

record ('p, 'w) dworld =
  pool :: 'p
  dleased :: "'w list"
  dshutdown :: bool
  dlog :: "'w dispatch_event list"
  aborts :: nat

datatype 'x dispatch_err =
    WidthNotPositive
  | CtxBeforeStart string
  | LeaseFailed 'x
  | SpawnFailed string
  | CtxErr string
  | CtxErrAndDrainDeadline string

subsection \<open>Leases\<close>

fun leaseWorktrees ::
  "('e \<Rightarrow> 'p \<Rightarrow> 'p \<times> ('x + 'w)) \<Rightarrow> 'e list \<Rightarrow> 'p \<Rightarrow> 'w list \<Rightarrow> 'p \<times> 'x option \<times> 'w list" where
  "leaseWorktrees lease [] p out = (p, None, out)"
| "leaseWorktrees lease (e # es) p out =
     (case lease e p of
        (p1, Inl x) \<Rightarrow> (p1, Some x, out)
      | (p1, Inr w) \<Rightarrow> leaseWorktrees lease es p1 (out @ [w]))"

definition releaseSlice :: "('p \<Rightarrow> 'w \<Rightarrow> 'p) \<Rightarrow> 'p \<Rightarrow> 'w list \<Rightarrow> 'p" where
  "releaseSlice release p ws = fold (\<lambda>w p. release p w) ws p"

definition removePointerSet :: "'w list \<Rightarrow> 'w list \<Rightarrow> 'w list" where
  "removePointerSet src remove =
     (if src = [] \<or> remove = [] then src else filter (\<lambda>p. \<not> List.member remove p) src)"

definition unregisterAndRelease :: "('p \<Rightarrow> 'w \<Rightarrow> 'p) \<Rightarrow> ('p, 'w) dworld \<Rightarrow> 'w list \<Rightarrow> ('p, 'w) dworld" where
  "unregisterAndRelease release w ws =
     w\<lparr>dleased := removePointerSet (dleased w) ws, pool := releaseSlice release (pool w) ws\<rparr>"

definition Dispatcher_Shutdown :: "('p \<Rightarrow> 'w \<Rightarrow> 'p) \<Rightarrow> ('p, 'w) dworld \<Rightarrow> ('p, 'w) dworld" where
  "Dispatcher_Shutdown release w =
     (if dshutdown w then w
      else w\<lparr>dshutdown := True, dleased := [], pool := releaseSlice release (pool w) (dleased w),
             aborts := aborts w + 1\<rparr>)"

subsection \<open>The drain loop\<close>

text \<open>
  The arms of the select: a result (with whether its checkpoint could be appended), the closed result
  channel, the cancelled context (ready for ever once it is), the drain deadline; and the concurrent
  calls.
\<close>

datatype 'e arm =
    GotResult WorkerResult bool
  | ChannelClosed
  | CtxDone string
  | DrainDeadline
  | ShutdownCall
  | OtherLease 'e

definition recordCompletion :: "bool \<Rightarrow> ('p, 'w) dworld \<Rightarrow> WorkerResult \<Rightarrow> ('p, 'w) dworld" where
  "recordCompletion lands w r =
     (if lands then w\<lparr>dlog := dlog w @ [EvCheckpoint (WorkerID r) (wr_Status r) (wr_Err r)]\<rparr> else w)"

definition count_result :: "WorkerResult \<Rightarrow> DispatchResult \<Rightarrow> DispatchResult" where
  "count_result r res =
     (if wr_Status r = ''ok'' then res\<lparr>Completed := Completed res + 1\<rparr>
      else if wr_Status r = ''aborted'' then res\<lparr>Aborted := Aborted res + 1\<rparr>
      else res\<lparr>Errors := Errors res + 1\<rparr>)"

text \<open>\<open>abort\<close> is \<open>abortInvoked\<close>, with the context's error; the deadline channel is nil, and so never
  ready, until then.\<close>

fun drain ::
  "('e \<Rightarrow> 'p \<Rightarrow> 'p \<times> ('x + 'w)) \<Rightarrow> ('p \<Rightarrow> 'w \<Rightarrow> 'p) \<Rightarrow> 'e arm list \<Rightarrow> string option \<Rightarrow> DispatchResult \<Rightarrow> ('p, 'w) dworld
   \<Rightarrow> (('p, 'w) dworld \<times> DispatchResult \<times> 'x dispatch_err option) option" where
  "drain lease release [] abort res w = None"
| "drain lease release (GotResult r lands # sched) abort res w =
     drain lease release sched abort (count_result r res) (recordCompletion lands w r)"
| "drain lease release (ChannelClosed # sched) abort res w = Some (w, res, map_option CtxErr abort)"
| "drain lease release (CtxDone c # sched) abort res w =
     (case abort of
        None \<Rightarrow> drain lease release sched (Some c) res (w\<lparr>aborts := aborts w + 1\<rparr>)
      | Some _ \<Rightarrow> drain lease release sched abort res w)"
| "drain lease release (DrainDeadline # sched) abort res w =
     (case abort of
        None \<Rightarrow> drain lease release sched None res w
      | Some c \<Rightarrow> Some (w, res, Some (CtxErrAndDrainDeadline c)))"
| "drain lease release (ShutdownCall # sched) abort res w =
     drain lease release sched abort res (Dispatcher_Shutdown release w)"
| "drain lease release (OtherLease e # sched) abort res w =
     drain lease release sched abort res (w\<lparr>pool := fst (lease e (pool w))\<rparr>)"

subsection \<open>Dispatch\<close>

definition zero_result :: DispatchResult where
  "zero_result = \<lparr>WorkersSpawned = 0, Completed = 0, Errors = 0, Aborted = 0\<rparr>"

record 'e disp_env =
  de_ctx :: "string option"
  de_leases :: "nat \<Rightarrow> 'e"
  de_lands :: "nat \<Rightarrow> bool"
  de_spawn :: "string option"
  de_sched :: "'e arm list"

definition appendDispatched :: "(nat \<Rightarrow> bool) \<Rightarrow> int \<Rightarrow> 'w list \<Rightarrow> 'w dispatch_event list" where
  "appendDispatched lands depth ws =
     map (\<lambda>(i, w). EvDispatched w depth) (filter (\<lambda>(i, w). lands i) (enumerate 0 ws))"

definition Dispatch ::
  "('e \<Rightarrow> 'p \<Rightarrow> 'p \<times> ('x + 'w)) \<Rightarrow> ('p \<Rightarrow> 'w \<Rightarrow> 'p) \<Rightarrow> 'e disp_env \<Rightarrow> ('p, 'w) dworld \<Rightarrow> int \<Rightarrow> int
   \<Rightarrow> (('p, 'w) dworld \<times> DispatchResult \<times> 'x dispatch_err option) option" where
  "Dispatch lease release env w width depth =
     (if width \<le> 0 then Some (w, zero_result, Some WidthNotPositive)
      else case de_ctx env of
        Some c \<Rightarrow> Some (w, zero_result, Some (CtxBeforeStart c))
      | None \<Rightarrow>
          (case leaseWorktrees lease (map (de_leases env) [0..<nat width]) (pool w) [] of
             (p1, Some x, out) \<Rightarrow> Some (w\<lparr>pool := releaseSlice release p1 out\<rparr>, zero_result, Some (LeaseFailed x))
           | (p1, None, out) \<Rightarrow>
               (let w1 = w\<lparr>pool := p1, dleased := dleased w @ out,
                           dlog := dlog w @ appendDispatched (de_lands env) depth out\<rparr> in
                map_option (\<lambda>(w2, res, err). (unregisterAndRelease release w2 out, res, err))
                  (case de_spawn env of
                     Some m \<Rightarrow> Some (w1, zero_result, Some (SpawnFailed m))
                   | None \<Rightarrow> drain lease release (de_sched env) None (zero_result\<lparr>WorkersSpawned := length out\<rparr>) w1))))"

subsection \<open>What the dispatcher relies on\<close>

text \<open>
  The contract of the pool: a lease hands out a worktree nobody held, a failed lease holds nothing,
  and a release gives up that worktree and no other; \<open>ok\<close> is the pool's own invariant.
\<close>

locale worktree_api =
  fixes lease :: "'e \<Rightarrow> 'p \<Rightarrow> 'p \<times> ('x + 'w)"
    and release :: "'p \<Rightarrow> 'w \<Rightarrow> 'p"
    and held :: "'p \<Rightarrow> 'w set"
    and ok :: "'p \<Rightarrow> bool"
  assumes lease_Inr: "ok p \<Longrightarrow> lease e p = (p', Inr w) \<Longrightarrow> ok p' \<and> w \<notin> held p \<and> held p' = insert w (held p)"
    and lease_Inl: "ok p \<Longrightarrow> lease e p = (p', Inl x) \<Longrightarrow> ok p' \<and> held p' = held p"
    and release_held: "ok p \<Longrightarrow> ok (release p w) \<and> held (release p w) = held p - {w}"
begin

lemma leaseWorktrees_held:
  assumes "ok p" "leaseWorktrees lease es p out = (p', err, ws)"
  shows "\<exists>new. ws = out @ new \<and> distinct new \<and> set new \<inter> held p = {} \<and> held p' = held p \<union> set new \<and> ok p'
    \<and> (err = None \<longrightarrow> length new = length es)"
  using assms
proof (induction es arbitrary: p out)
  case Nil
  then show ?case by (intro exI [of _ "[]"]) auto
next
  case (Cons e es)
  obtain p1 y where l: "lease e p = (p1, y)" by (metis surj_pair)
  show ?case
  proof (cases y)
    case (Inl x)
    with lease_Inl [OF Cons.prems(1)] l Cons.prems(2) show ?thesis by (intro exI [of _ "[]"]) auto
  next
    case (Inr v)
    with l lease_Inr [OF Cons.prems(1)] have v: "ok p1" "v \<notin> held p" "held p1 = insert v (held p)" by auto
    have "leaseWorktrees lease es p1 (out @ [v]) = (p', err, ws)" using Cons.prems(2) l Inr by simp
    from Cons.IH [OF v(1) this] obtain new where "ws = (out @ [v]) @ new" "distinct new" "set new \<inter> held p1 = {}"
      "held p' = held p1 \<union> set new" "ok p'" "err = None \<longrightarrow> length new = length es" by blast
    with v show ?thesis by (intro exI [of _ "v # new"]) auto
  qed
qed

lemma releaseSlice_held: "ok p \<Longrightarrow> ok (releaseSlice release p ws) \<and> held (releaseSlice release p ws) = held p - set ws"
  unfolding releaseSlice_def
proof (induction ws arbitrary: p)
  case (Cons v ws)
  with Cons.IH [of "release p v"] release_held [OF Cons.prems, of v] show ?case by auto
qed simp

lemma leased_then_released:
  assumes "ok p" "leaseWorktrees lease es p [] = (p', err, ws)"
  shows "ok (releaseSlice release p' ws) \<and> held (releaseSlice release p' ws) = held p"
  using leaseWorktrees_held [OF assms] releaseSlice_held [of p' ws] by auto

end

fun undisturbed :: "'e arm \<Rightarrow> bool" where
  "undisturbed ShutdownCall = False"
| "undisturbed (OtherLease e) = False"
| "undisturbed _ = True"

lemma drain_undisturbed:
  assumes "list_all undisturbed sched" "drain lease release sched abort res w = Some (w', res', err)"
  shows "pool w' = pool w \<and> dleased w' = dleased w \<and> dshutdown w' = dshutdown w"
  using assms
  by (induction lease release sched abort res w rule: drain.induct)
    (auto simp: recordCompletion_def split: option.splits if_splits)

lemma removePointerSet_fresh: "set src \<inter> set new = {} \<Longrightarrow> removePointerSet (src @ new) new = src"
  by (auto simp: removePointerSet_def filter_id_conv filter_empty_conv)

context worktree_api
begin

lemma Dispatch_restores:
  assumes inv: "ok (pool w)" and tracked: "set (dleased w) \<subseteq> held (pool w)"
    and sched: "list_all undisturbed (de_sched env)"
    and d: "Dispatch lease release env w width depth = Some (w', res, err)"
  shows "ok (pool w') \<and> held (pool w') = held (pool w) \<and> dleased w' = dleased w \<and> dshutdown w' = dshutdown w"
proof (cases "width \<le> 0 \<or> de_ctx env \<noteq> None")
  case True
  with d inv show ?thesis by (auto simp: Dispatch_def split: option.splits if_splits)
next
  case False
  let ?es = "map (de_leases env) [0..<nat width]"
  obtain p1 x out where l: "leaseWorktrees lease ?es (pool w) [] = (p1, x, out)" by (metis surj_pair)
  note undone = leased_then_released [OF inv l]
  have disj: "set (dleased w) \<inter> set out = {}" using leaseWorktrees_held [OF inv l] tracked by auto
  show ?thesis
  proof (cases x)
    case (Some e)
    have "w' = w\<lparr>pool := releaseSlice release p1 out\<rparr>" using d False l Some by (simp add: Dispatch_def)
    with undone show ?thesis by simp
  next
    case None
    define w1 where "w1 = w\<lparr>pool := p1, dleased := dleased w @ out,
      dlog := dlog w @ appendDispatched (de_lands env) depth out\<rparr>"
    from d False l None obtain w2 where w2: "w' = unregisterAndRelease release w2 out"
      "(de_spawn env \<noteq> None \<and> w2 = w1)
       \<or> drain lease release (de_sched env) None (zero_result\<lparr>WorkersSpawned := length out\<rparr>) w1 = Some (w2, res, err)"
      unfolding w1_def [symmetric] by (auto simp: Dispatch_def Let_def w1_def split: option.splits)
    have "pool w2 = p1 \<and> dleased w2 = dleased w @ out \<and> dshutdown w2 = dshutdown w"
      using w2(2)
    proof
      assume "drain lease release (de_sched env) None (zero_result\<lparr>WorkersSpawned := length out\<rparr>) w1 = Some (w2, res, err)"
      from drain_undisturbed [OF sched this] show ?thesis by (simp add: w1_def)
    qed (simp add: w1_def)
    with w2(1) undone removePointerSet_fresh [OF disj] show ?thesis by (simp add: unregisterAndRelease_def)
  qed
qed

end

subsection \<open>The pool implements the interface\<close>

datatype lease_err = PoolClosed | SpawnError spawn_error | PoolExhausted

text \<open>
  A call of \<open>Lease\<close> and of \<open>Release\<close> from start to end with no other client in between, composed from
  the critical sections of the pool's model. \<open>e\<close> is what the spawn answers, \<open>git\<close> whether the reset and
  clean of a worktree succeed; a lease that has to wait ends with its context.
\<close>

definition Lease :: "spawn_error option \<Rightarrow> concretePool \<Rightarrow> concretePool \<times> (lease_err + int)" where
  "Lease e p =
     (if closed p then (p, Inl PoolClosed)
      else case take_warm p of
        Some (w, p') \<Rightarrow> (p', Inr w)
      | None \<Rightarrow>
          (case leaseSlowPath_turn p of
             (Closed, p1) \<Rightarrow> (p1, Inl PoolClosed)
           | (Got w, p1) \<Rightarrow> (p1, Inr w)
           | (Reserved, p1) \<Rightarrow>
               (let p2 = spawn_start p1 False; i = nextID p2 in
                case e of
                  Some x \<Rightarrow> (spawn_failed p2 i x, Inl (SpawnError x))
                | None \<Rightarrow> (case lease_publish p2 i of (p3, True) \<Rightarrow> (p3, Inr i) | (p3, False) \<Rightarrow> (p3, Inl PoolClosed)))
           | (MustWait, p1) \<Rightarrow> (p1\<lparr>waiting := waiting p1 - 1\<rparr>, Inl PoolExhausted)))"

definition Release :: "(int \<Rightarrow> bool) \<Rightarrow> concretePool \<Rightarrow> int \<Rightarrow> concretePool" where
  "Release git p i =
     (case release_begin p i of
        None \<Rightarrow> p
      | Some p1 \<Rightarrow> send_signal (if git i then release_end p1 i else destroyWorktree p1 i))"

lemma Release_steps: "pool_inv p \<Longrightarrow> pool_inv (Release git p i)"
proof (cases "release_begin p i")
  case (Some p1)
  assume "pool_inv p"
  then have 1: "pool_inv p1" using Some by (blast intro: pool_inv_step pool_step.release)
  have "i \<in> releasing p1" using Some by (auto simp: release_begin_def split: if_splits)
  with 1 have 2: "pool_inv (if git i then release_end p1 i else destroyWorktree p1 i)"
    using pool_inv_step pool_step.released pool_step.destroyed by metis
  have "\<not> closed p1" using Some by (auto simp: release_begin_def split: if_splits)
  then have "0 < unsent (if git i then release_end p1 i else destroyWorktree p1 i)"
    by (simp add: release_end_def destroyWorktree_def)
  from pool_inv_step [OF 2 pool_step.signal [OF this]] Some show ?thesis by (simp add: Release_def)
qed (simp add: Release_def)

lemma Release_held:
  "\<not> closed p \<Longrightarrow> leased (Release git p i) = leased p - {i} \<and> \<not> closed (Release git p i)"
  by (auto simp: Release_def release_begin_def release_end_def destroyWorktree_def send_signal_def)

text \<open>The ways a lease can end, each with the steps of the pool it took.\<close>

lemma Lease_cases:
  assumes "\<not> closed p" "Lease e p = (p', y)"
  obtains (warm) w where "take_warm p = Some (w, p')" "y = Inr w"
    | (spawned) p1 p2 where "leaseSlowPath_turn p = (Reserved, p1)" "p2 = spawn_start p1 False"
        "p' = fst (lease_publish p2 (nextID p2))" "y = Inr (nextID p2)" "\<not> closed p2"
    | (failed) p1 p2 x where "leaseSlowPath_turn p = (Reserved, p1)" "p2 = spawn_start p1 False"
        "p' = spawn_failed p2 (nextID p2) x" "y = Inl (SpawnError x)" "\<not> closed p2"
    | (waited) p1 where "leaseSlowPath_turn p = (MustWait, p1)" "p' = p1\<lparr>waiting := waiting p1 - 1\<rparr>" "y = Inl PoolExhausted"
proof (cases "take_warm p")
  case (Some wp)
  then show ?thesis using assms that(1) by (cases wp) (simp add: Lease_def)
next
  case None
  show ?thesis
  proof (cases "total p < ElasticMax (cfg p)")
    case True
    obtain p1 where p1: "leaseSlowPath_turn p = (Reserved, p1)" "\<not> closed p1"
      using True None assms(1) by (simp add: leaseSlowPath_turn_def)
    have open2: "\<not> closed (spawn_start p1 False)" using p1(2) by (simp add: spawn_start_def Let_def)
    show ?thesis
    proof (cases e)
      case None
      with assms p1 \<open>take_warm p = None\<close> open2 that(2) [OF p1(1)] show ?thesis
        by (simp add: Lease_def Let_def lease_publish_def)
    next
      case (Some x)
      with assms p1 None open2 that(3) [OF p1(1) refl, of x] show ?thesis by (auto simp: Lease_def Let_def)
    qed
  next
    case False
    obtain p1 where "leaseSlowPath_turn p = (MustWait, p1)"
      using False None assms(1) by (simp add: leaseSlowPath_turn_def Let_def)
    with assms None that(4) show ?thesis by (simp add: Lease_def)
  qed
qed

lemma turn_fields:
  assumes "leaseSlowPath_turn p = (Reserved, p1)"
  shows "0 < reserved_lease p1 \<and> leased p1 = leased p \<and> closed p1 = closed p \<and> nextID p1 = nextID p"
  using assms by (auto simp: leaseSlowPath_turn_def Let_def split: option.splits if_splits)

lemma wait_fields:
  assumes "leaseSlowPath_turn p = (MustWait, p1)"
  shows "0 < waiting p1 \<and> leased p1 = leased p \<and> closed p1 = closed p"
  using assms by (auto simp: leaseSlowPath_turn_def Let_def split: option.splits if_splits)

lemma leased_below_nextID: "pool_inv p \<Longrightarrow> i \<in> leased p \<Longrightarrow> i \<le> nextID p"
proof -
  assume inv: "pool_inv p" and "i \<in> leased p"
  then have "i \<in># live_ids p" by (auto simp: live_ids_def pool_inv_def fin_sets_def)
  with inv have "i \<in># mset_set {1..nextID p}" by (auto simp: pool_inv_def dest: mset_subset_eqD)
  then show ?thesis by simp
qed

lemma Lease_law:
  assumes inv: "pool_inv p" and op: "\<not> closed p" and l: "Lease e p = (p', y)"
  shows "pool_inv p' \<and> \<not> closed p'
    \<and> (case y of Inl _ \<Rightarrow> leased p' = leased p | Inr w \<Rightarrow> w \<notin> leased p \<and> leased p' = insert w (leased p))"
  using op l
proof (cases rule: Lease_cases)
  case (warm w)
  have "pool_inv p'" by (rule pool_inv_step [OF inv pool_step.lease_fast [OF warm(1)]])
  moreover have "\<not> closed p'" using warm(1) op by (auto simp: take_warm_def split: if_splits)
  ultimately show ?thesis using take_warm_live [OF inv warm(1)] warm by (auto simp: take_warm_def split: if_splits)
next
  case (spawned p1 p2)
  note f = turn_fields [OF spawned(1)]
  have 1: "pool_inv p1" using pool_inv_step [OF inv pool_step.lease_slow] spawned(1) by simp
  have 2: "pool_inv p2" using pool_inv_step [OF 1 pool_step.start_lease] f spawned(2) by simp
  have i: "nextID p2 \<in> inflight_lease p2" "leased p2 = leased p" "nextID p2 = nextID p + 1"
    using spawned(2) f by (simp_all add: spawn_start_def Let_def)
  have "pool_inv p'" using pool_inv_step [OF 2 pool_step.publish [OF i(1)]] spawned(3) by simp
  moreover have "nextID p2 \<notin> leased p" using leased_below_nextID [OF inv] i(3) by fastforce
  ultimately show ?thesis using spawned i by (simp add: lease_publish_def Let_def)
next
  case (failed p1 p2 x)
  note f = turn_fields [OF failed(1)]
  have 1: "pool_inv p1" using pool_inv_step [OF inv pool_step.lease_slow] failed(1) by simp
  have 2: "pool_inv p2" using pool_inv_step [OF 1 pool_step.start_lease] f failed(2) by simp
  have i: "nextID p2 \<in> inflight_lease p2 \<union> inflight_prewarm p2" "leased p2 = leased p"
    using failed(2) f by (simp_all add: spawn_start_def Let_def)
  have "pool_inv p'" using pool_inv_step [OF 2 pool_step.fail [OF i(1)]] failed(3) by simp
  then show ?thesis using failed i by (simp add: spawn_failed_def)
next
  case (waited p1)
  note f = wait_fields [OF waited(1)]
  have 1: "pool_inv p1" using pool_inv_step [OF inv pool_step.lease_slow] waited(1) by simp
  have "pool_inv p'" using pool_inv_step [OF 1 pool_step.ctx_done] f waited(2) by simp
  then show ?thesis using waited f op by simp
qed

interpretation poolapi: worktree_api Lease "Release git" leased "\<lambda>p. pool_inv p \<and> \<not> closed p" for git
proof
  show "(pool_inv p' \<and> \<not> closed p') \<and> w \<notin> leased p \<and> leased p' = insert w (leased p)"
    if "pool_inv p \<and> \<not> closed p" "Lease e p = (p', Inr w)" for p e p' w
    using Lease_law [OF _ _ that(2)] that(1) by simp
  show "(pool_inv p' \<and> \<not> closed p') \<and> leased p' = leased p"
    if "pool_inv p \<and> \<not> closed p" "Lease e p = (p', Inl x)" for p e p' x
    using Lease_law [OF _ _ that(2)] that(1) by simp
  show "(pool_inv (Release git p w) \<and> \<not> closed (Release git p w)) \<and> leased (Release git p w) = leased p - {w}"
    if "pool_inv p \<and> \<not> closed p" for p w
    using that Release_steps [of p git w] Release_held [of p git w] by blast
qed

subsection \<open>Properties\<close>


fun delivered :: "'e arm list \<Rightarrow> WorkerResult list" where
  "delivered [] = []"
| "delivered (GotResult r lands # sched) = r # delivered sched"
| "delivered (_ # sched) = delivered sched"

definition tally :: "WorkerResult list \<Rightarrow> DispatchResult \<Rightarrow> DispatchResult" where
  "tally rs res =
     res\<lparr>Completed := Completed res + length (filter (\<lambda>r. wr_Status r = ''ok'') rs),
         Aborted := Aborted res + length (filter (\<lambda>r. wr_Status r = ''aborted'') rs),
         Errors := Errors res + length (filter (\<lambda>r. wr_Status r \<noteq> ''ok'' \<and> wr_Status r \<noteq> ''aborted'') rs)\<rparr>"

definition checkpoint :: "WorkerResult \<Rightarrow> 'w dispatch_event" where
  "checkpoint r = EvCheckpoint (WorkerID r) (wr_Status r) (wr_Err r)"

text \<open>The arms of a run that goes on: no closed channel, no deadline; every checkpoint lands.\<close>

fun draining_arm :: "'e arm \<Rightarrow> bool" where
  "draining_arm (GotResult r lands) = lands"
| "draining_arm (CtxDone c) = True"
| "draining_arm _ = False"

fun cancelled :: "'e arm list \<Rightarrow> string option" where
  "cancelled [] = None"
| "cancelled (CtxDone c # sched) = Some c"
| "cancelled (_ # sched) = cancelled sched"

lemma tally_Cons: "tally (r # rs) res = tally rs (count_result r res)"
  by (simp add: tally_def count_result_def)

lemma drain_closed:
  assumes "list_all draining_arm pre"
  shows "drain lease release (pre @ ChannelClosed # rest) abort res w =
     Some (w\<lparr>dlog := dlog w @ map checkpoint (delivered pre),
             aborts := aborts w + (if abort = None \<and> cancelled pre \<noteq> None then 1 else 0)\<rparr>,
           tally (delivered pre) res,
           map_option CtxErr (if abort = None then cancelled pre else abort))"
  using assms
proof (induction pre arbitrary: abort res w)
  case Nil
  then show ?case by (simp add: tally_def)
next
  case (Cons a pre)
  then show ?case
    by (cases a) (auto simp: recordCompletion_def checkpoint_def tally_Cons split: option.splits)
qed

lemma enumerate_values: "map (\<lambda>(i, v). f v) (enumerate n vs) = map f vs"
  by (induction vs arbitrary: n) simp_all

lemma leaseWorktrees_length: "leaseWorktrees lease es p out = (q, None, ws) \<Longrightarrow> length ws = length out + length es"
proof (induction es arbitrary: p out)
  case (Cons e es)
  then obtain p1 v where "leaseWorktrees lease es p1 (out @ [v]) = (q, None, ws)"
    by (auto split: prod.splits sum.splits)
  from Cons.IH [OF this] show ?case by simp
qed simp

text \<open>When the workforce delivers its results and closes the channel, \<open>Dispatch\<close> returns, and its
  answer accounts for every worker: it leased as many worktrees as the width asked for, the counters
  of completed, aborted and failed workers partition the delivered results, each result is logged as
  a checkpoint in the order it came after one dispatch event per worktree, and the workforce is told
  to abort once if the context was cancelled (however often that arm was chosen) and never otherwise;
  the error is the context's exactly in that case.\<close>

lemma Dispatch_accounts_for_workers:
  assumes "0 < width" "de_ctx env = None" "de_spawn env = None" "\<forall>i. de_lands env i"
    and leases: "leaseWorktrees lease (map (de_leases env) [0..<nat width]) (pool w) [] = (p1, None, ws)"
    and "de_sched env = pre @ ChannelClosed # rest" "list_all draining_arm pre"
  shows "\<exists>w'. Dispatch lease release env w width depth =
       Some (w', tally (delivered pre) \<lparr>WorkersSpawned = length ws, Completed = 0, Errors = 0, Aborted = 0\<rparr>,
             map_option CtxErr (cancelled pre))
     \<and> dlog w' = dlog w @ map (\<lambda>v. EvDispatched v depth) ws @ map checkpoint (delivered pre)
     \<and> aborts w' = aborts w + (if cancelled pre = None then 0 else 1)
     \<and> Completed (tally (delivered pre) zero_result) + Aborted (tally (delivered pre) zero_result)
         + Errors (tally (delivered pre) zero_result) = length (delivered pre)
     \<and> length ws = nat width"
proof -
  have part: "length (filter (\<lambda>r. wr_Status r = ''ok'') rs) + length (filter (\<lambda>r. wr_Status r = ''aborted'') rs)
      + length (filter (\<lambda>r. wr_Status r \<noteq> ''ok'' \<and> wr_Status r \<noteq> ''aborted'') rs) = length rs" for rs
    by (induction rs) auto
  have "map (\<lambda>(i, v). EvDispatched v depth) (filter (\<lambda>(i, v). de_lands env i) (enumerate 0 ws)) = map (\<lambda>v. EvDispatched v depth) ws"
    using assms(4) by (simp add: enumerate_values)
  with assms leaseWorktrees_length [OF leases] part [of "delivered pre"] show ?thesis
    by (simp add: Dispatch_def Let_def appendDispatched_def drain_closed unregisterAndRelease_def zero_result_def tally_def)
qed

subsection \<open>A concrete dispatch\<close>

definition demo_world :: "(concretePool, int) dworld" where
  "demo_world = \<lparr>pool = demo_pool, dleased = [], dshutdown = False, dlog = [], aborts = 0\<rparr>"

definition demo_env :: "spawn_error option arm list \<Rightarrow> spawn_error option disp_env" where
  "demo_env sched = \<lparr>de_ctx = None, de_leases = (\<lambda>_. None), de_lands = (\<lambda>_. True), de_spawn = None, de_sched = sched\<rparr>"

definition demo_result :: "string \<Rightarrow> WorkerResult" where
  "demo_result status = \<lparr>WorkerID = ''w1'', wr_Status = status, wr_Err = None\<rparr>"

lemma demo_lease: "Lease None demo_pool = (demo_busy, Inr 1)"
  by (simp add: Lease_def demo_busy_def leaseSlowPath_turn_def take_warm_def demo_pool_simps spawn_start_def
      lease_publish_def Let_def)

lemma demo_leases: "leaseWorktrees Lease (map (de_leases (demo_env sched)) [0..<nat 1]) (pool demo_world) [] = (demo_busy, None, [1])"
  by (simp add: demo_env_def demo_world_def demo_lease)


text \<open>The dispatcher's \<open>Shutdown\<close> gives the tracked worktrees back before it aborts the workers that
  use them, and \<open>Dispatch\<close>, once its channel closes, releases its worktrees again. The pool refuses a
  double release only while nobody else has leased the worktree: here another client leases worktree 1
  right after the shutdown, and when the dispatch ends, its deferred release takes worktree 1 away from
  that client, and the pool hands it out a second time while the client still has it.\<close>

lemma shutdown_lets_dispatch_release_anothers_lease:
  "\<exists>p1 p2 w' res p3.
     p1 = pool (Dispatcher_Shutdown (Release (\<lambda>_. True)) (demo_world\<lparr>pool := demo_busy, dleased := [1]\<rparr>))
     \<and> Lease None p1 = (p2, Inr 1)
     \<and> Dispatch Lease (Release (\<lambda>_. True)) (demo_env [ShutdownCall, OtherLease None, ChannelClosed]) demo_world 1 2 = Some (w', res, None)
     \<and> Lease None (pool w') = (p3, Inr 1)"
proof -
  define p1 where "p1 = Release (\<lambda>_. True) demo_busy 1"
  have p1: "warm p1 = [1]" "leased p1 = {}" "\<not> closed p1"
    by (simp_all add: p1_def Release_def release_begin_def release_end_def send_signal_def demo_busy_simps Let_def)
  define p2 where "p2 = p1\<lparr>warm := [], leased := {1}\<rparr>"
  have l2: "Lease None p1 = (p2, Inr 1)" using p1 by (simp add: Lease_def take_warm_def p2_def)
  define p4 where "p4 = Release (\<lambda>_. True) p2 1"
  have p4: "warm p4 = [1]" "\<not> closed p4"
    using p1 by (simp_all add: p4_def p2_def Release_def release_begin_def release_end_def send_signal_def Let_def)
  then obtain p3 where l3: "Lease None p4 = (p3, Inr 1)" by (simp add: Lease_def take_warm_def)
  have "\<exists>w' res. Dispatch Lease (Release (\<lambda>_. True)) (demo_env [ShutdownCall, OtherLease None, ChannelClosed]) demo_world 1 2
      = Some (w', res, None) \<and> pool w' = p4"
    using demo_leases [of "[ShutdownCall, OtherLease None, ChannelClosed]"] l2
    by (simp add: Dispatch_def Let_def)
      (simp add: demo_env_def demo_world_def Dispatcher_Shutdown_def releaseSlice_def p1_def unregisterAndRelease_def p4_def)
  moreover have "pool (Dispatcher_Shutdown (Release (\<lambda>_. True)) (demo_world\<lparr>pool := demo_busy, dleased := [1]\<rparr>)) = p1"
    by (simp add: Dispatcher_Shutdown_def demo_world_def releaseSlice_def p1_def)
  ultimately show ?thesis using l2 l3 by blast
qed

end
