(* ===== verification/Confirmation.thy ===== *)
theory Confirmation
  imports Supervisor "HOL-Library.Sublist"
begin

text \<open>
  Operator confirmations: the operator gate (\<open>workforce/gate/gate.go\<close>), the confirmation policy,
  handler, watcher and audit channel (\<open>orchestrator/confirmation_*.go\<close>) and the main loop that
  turns events into transitions of the supervisor (\<open>orchestrator/main_loop.go\<close>), over the state
  machine of \<open>Supervisor\<close>.

  A session is the state machine, the gate, the pending request and the event log. The handler holds
  its mutex over a whole request or decision, so each of them is one operation here; the watcher
  reads the pending request and denies it in two critical sections, and is two steps. What can fail
  (the context, an append, the gate's \<open>SaveState\<close>) is an argument of each operation. The event log
  numbers its rows upwards; other writers may append between two operations, so an append gives the
  id \<open>last + 1 + gap\<close> for a \<open>gap\<close> of the environment.
\<close>

subsection \<open>The operator gate\<close>

datatype GateState = GateRunning | PausedDescriptive | PausedQuiet | PausedAfterApply | GateStateOther string

datatype PauseMode = PauseDescriptive | PauseQuiet | PauseAfterApply | PauseModeOther int

datatype gate_scope = ScopeWorkerDispatch | ScopeLLMPreCall | ScopeAfterCommit | ScopeOther int

record gate_transition =
  gt_At :: time
  gt_From :: GateState
  gt_ToState :: GateState
  gt_Reason :: string

text \<open>\<open>disk\<close> is what the gate's \<open>GatePersist\<close> holds.\<close>

record OperatorGate =
  g_state :: GateState
  g_log :: "gate_transition list"
  disk :: GateState

datatype gate_err = UnknownMode int | PersistFailed string

definition NewOperatorGate :: "GateState \<Rightarrow> OperatorGate" where
  "NewOperatorGate loaded =
     \<lparr>g_state = (case loaded of GateStateOther _ \<Rightarrow> GateRunning | s \<Rightarrow> s), g_log = [], disk = loaded\<rparr>"

definition Gate_IsPaused :: "OperatorGate \<Rightarrow> gate_scope \<Rightarrow> bool" where
  "Gate_IsPaused g scope =
     (case g_state g of
        GateRunning \<Rightarrow> False
      | PausedAfterApply \<Rightarrow> scope = ScopeWorkerDispatch
      | _ \<Rightarrow> True)"

definition SaveState :: "string option \<Rightarrow> OperatorGate \<Rightarrow> GateState \<Rightarrow> gate_err + OperatorGate" where
  "SaveState err g s = (case err of Some e \<Rightarrow> Inl (PersistFailed e) | None \<Rightarrow> Inr (g\<lparr>disk := s\<rparr>))"

definition set_gate :: "time \<Rightarrow> OperatorGate \<Rightarrow> GateState \<Rightarrow> string \<Rightarrow> OperatorGate" where
  "set_gate now g to reason =
     g\<lparr>g_state := to,
       g_log := g_log g @ [\<lparr>gt_At = now, gt_From = g_state g, gt_ToState = to, gt_Reason = reason\<rparr>]\<rparr>"

definition Gate_Pause :: "string option \<Rightarrow> time \<Rightarrow> OperatorGate \<Rightarrow> PauseMode \<Rightarrow> string \<Rightarrow> OperatorGate \<times> gate_err option" where
  "Gate_Pause save now g mode reason =
     (case (case mode of
              PauseDescriptive \<Rightarrow> Inr PausedDescriptive
            | PauseQuiet \<Rightarrow> Inr PausedQuiet
            | PauseAfterApply \<Rightarrow> Inr PausedAfterApply
            | PauseModeOther m \<Rightarrow> Inl (UnknownMode m)) of
        Inl e \<Rightarrow> (g, Some e)
      | Inr to \<Rightarrow>
          (case SaveState save g to of
             Inl e \<Rightarrow> (g, Some e)
           | Inr g' \<Rightarrow> (set_gate now g' to reason, None)))"

definition Gate_Resume :: "string option \<Rightarrow> time \<Rightarrow> OperatorGate \<Rightarrow> OperatorGate \<times> gate_err option" where
  "Gate_Resume save now g =
     (if g_state g = GateRunning then (g, None)
      else case SaveState save g GateRunning of
        Inl e \<Rightarrow> (g, Some e)
      | Inr g' \<Rightarrow> (set_gate now g' GateRunning ''resume'', None))"

text \<open>
  The persist-first rule: what a restarted daemon loads is the state the gate had in memory.
\<close>

inductive gate_step :: "OperatorGate \<Rightarrow> OperatorGate \<Rightarrow> bool" where
  pause: "gate_step g (fst (Gate_Pause save now g mode reason))"
| resume: "gate_step g (fst (Gate_Resume save now g))"

definition gate_inv :: "OperatorGate \<Rightarrow> bool" where
  "gate_inv g \<longleftrightarrow> g_state (NewOperatorGate (disk g)) = g_state g"

lemma gate_inv_pause: "gate_inv g \<Longrightarrow> gate_inv (fst (Gate_Pause save now g mode reason))"
  by (cases mode) (auto simp: gate_inv_def Gate_Pause_def SaveState_def set_gate_def NewOperatorGate_def split: option.splits)

lemma gate_inv_resume: "gate_inv g \<Longrightarrow> gate_inv (fst (Gate_Resume save now g))"
  by (auto simp: gate_inv_def Gate_Resume_def SaveState_def set_gate_def NewOperatorGate_def split: option.splits)

interpretation gate: safety "\<lambda>g. \<exists>loaded. g = NewOperatorGate loaded" gate_step gate_inv
proof
  show "gate_inv g" if "\<exists>loaded. g = NewOperatorGate loaded" for g
    using that by (auto simp: gate_inv_def NewOperatorGate_def)
  show "gate_inv t" if "gate_inv g" "gate_step g t" for g t
    using that(2,1) by (cases rule: gate_step.cases) (auto intro: gate_inv_pause gate_inv_resume)
qed

lemma Gate_Pause_descriptive:
  "Gate_Pause save now g PauseDescriptive reason =
     (case save of
        Some e \<Rightarrow> (g, Some (PersistFailed e))
      | None \<Rightarrow> (set_gate now (g\<lparr>disk := PausedDescriptive\<rparr>) PausedDescriptive reason, None))"
  by (simp add: Gate_Pause_def SaveState_def split: option.splits)

lemma set_gate_simps [simp]: "g_state (set_gate now g to reason) = to" "disk (set_gate now g to reason) = disk g"
  by (simp_all add: set_gate_def)

lemma Gate_Resume_ok: "Gate_Resume None now g = (g', err) \<Longrightarrow> err = None \<and> g_state g' = GateRunning"
  by (auto simp: Gate_Resume_def SaveState_def split: if_splits)

subsection \<open>The confirmation policy\<close>

datatype ConfirmationAction = ConfirmationActionContinue | ConfirmationActionOptionalPause | ConfirmationActionMandatoryPause

record ConfirmationPolicy =
  thresholds :: "string \<rightharpoonup> string"
  optionalEnabled :: bool

definition Evaluate :: "ConfirmationPolicy \<Rightarrow> string \<Rightarrow> ConfirmationAction" where
  "Evaluate cp cls =
     (case thresholds cp cls of
        None \<Rightarrow> ConfirmationActionMandatoryPause
      | Some t \<Rightarrow>
          (if t = ''high'' then ConfirmationActionMandatoryPause
           else if t = ''medium''
           then (if optionalEnabled cp then ConfirmationActionOptionalPause else ConfirmationActionContinue)
           else if t = ''low'' \<or> t = ''ignore'' then ConfirmationActionContinue
           else ConfirmationActionMandatoryPause))"

subsection \<open>The confirmation handler\<close>

datatype session_event =
    EvConfirmationRequested int string string nat string "string list" time
  | EvOperatorConfirmation int string string string nat int time
  | EvOperatorOverrideApplied int int string string

record pendingRequest =
  p_seq :: nat
  p_eventID :: int
  p_class :: string
  previousState :: State
  requestedAt :: time

record session =
  sm :: StateMachine
  gate :: OperatorGate
  slog :: "session_event list"
  lastID :: int
  seq :: nat
  pending :: "pendingRequest option"

record RequestConfirmationInput =
  ci_Class :: string
  ci_Summary :: string
  ci_Alternatives :: "string list"

record RequestConfirmationOutput =
  co_Action :: ConfirmationAction
  co_RequestSeq :: nat
  co_EventID :: int

datatype conf_err =
    CtxCancelledEarly string
  | ErrInvalidTransition sm_error
  | GatePauseFailed gate_err
  | LogAppendFailed string
  | GateResumeFailed gate_err
  | ErrConfirmationStale
  | PeerCredFailed string
  | ErrOperatorIdentityMismatch int int

definition next_seq :: "nat \<Rightarrow> nat" where
  "next_seq n = (n + 1) mod 2 ^ 64"

text \<open>The id the log gives the next row, after \<open>gap\<close> rows of other writers.\<close>

definition next_id :: "session \<Rightarrow> nat \<Rightarrow> int" where
  "next_id s gap = lastID s + 1 + int gap"

text \<open>
  What the environment answers to the calls of one request: the state of the context at the start,
  the transition, the save of the pause, the append, and the save and transition of the rollback.
  The rollback's context is never cancelled.
\<close>

record req_env =
  rq_ctx :: "string option"
  rq_sm :: sm_env
  rq_save :: "string option"
  rq_append :: "string option"
  rq_gap :: nat
  rq_clock :: "nat \<Rightarrow> time"
  rq_unsave :: "string option"
  rq_undo :: sm_env

definition rollback :: "req_env \<Rightarrow> StateMachine \<Rightarrow> State \<Rightarrow> string \<Rightarrow> StateMachine" where
  "rollback env m previous cls =
     fst (Transition ((rq_undo env)\<lparr>ctx_err := None\<rparr>) m previous (''confirmation_rollback:'' @ cls))"

definition RequestConfirmation ::
  "ConfirmationPolicy \<Rightarrow> req_env \<Rightarrow> session \<Rightarrow> RequestConfirmationInput \<Rightarrow> session \<times> (conf_err + RequestConfirmationOutput)" where
  "RequestConfirmation policy env s inp =
     (case rq_ctx env of
        Some e \<Rightarrow> (s, Inl (CtxCancelledEarly e))
      | None \<Rightarrow>
        (let action = Evaluate policy (ci_Class inp) in
         if action = ConfirmationActionContinue
         then (s, Inr \<lparr>co_Action = ConfirmationActionContinue, co_RequestSeq = 0, co_EventID = 0\<rparr>)
         else case pending s of
           Some p \<Rightarrow> (s, Inr \<lparr>co_Action = action, co_RequestSeq = p_seq p, co_EventID = p_eventID p\<rparr>)
         | None \<Rightarrow>
           (let previous = current (sm s);
                (m1, terr) = Transition (rq_sm env) (sm s) StateWaitingForConfirmation
                               (''confirmation_requested:'' @ ci_Class inp) in
            case terr of
              Some e \<Rightarrow> (s\<lparr>sm := m1\<rparr>, Inl (ErrInvalidTransition e))
            | None \<Rightarrow>
              (let (g1, perr) = Gate_Pause (rq_save env) (rq_clock env 0) (gate s) PauseDescriptive
                                  (''confirmation: '' @ ci_Class inp) in
               case perr of
                 Some e \<Rightarrow> (s\<lparr>sm := rollback env m1 previous (ci_Class inp), gate := g1\<rparr>, Inl (GatePauseFailed e))
               | None \<Rightarrow>
                 (let q = next_seq (seq s); eid = next_id s (rq_gap env) in
                  case rq_append env of
                    Some e \<Rightarrow>
                      (let (g2, _) = Gate_Resume (rq_unsave env) (rq_clock env 3) g1
                       in (s\<lparr>sm := rollback env m1 previous (ci_Class inp), gate := g2, seq := q\<rparr>,
                           Inl (LogAppendFailed e)))
                  | None \<Rightarrow>
                      (s\<lparr>sm := m1, gate := g1, seq := q, lastID := eid,
                         slog := slog s @ [EvConfirmationRequested eid (''req-'' @ dec_nat q) (ci_Class inp) q
                                             (ci_Summary inp) (ci_Alternatives inp) (rq_clock env 1)],
                         pending := Some \<lparr>p_seq = q, p_eventID = eid, p_class = ci_Class inp,
                                          previousState = previous, requestedAt = rq_clock env 2\<rparr>\<rparr>,
                       Inr \<lparr>co_Action = action, co_RequestSeq = q, co_EventID = eid\<rparr>))))))"

record dec_env =
  dc_append :: "string option"
  dc_gap :: nat
  dc_now :: time
  dc_sm :: sm_env
  dc_save :: "string option"
  dc_gateNow :: time

definition handle :: "dec_env \<Rightarrow> session \<Rightarrow> int \<Rightarrow> string \<Rightarrow> int \<Rightarrow> bool \<Rightarrow> session \<times> conf_err option" where
  "handle env s eventID rationale uid ack =
     (case pending s of
        None \<Rightarrow> (s, Some ErrConfirmationStale)
      | Some p \<Rightarrow>
        (if p_eventID p \<noteq> eventID then (s, Some ErrConfirmationStale)
         else
           (let decision = (if ack then ''ack'' else ''deny'');
                target = (if ack then previousState p else StateAborting);
                reason = (if ack then ''confirmation_ack'' else ''confirmation_deny'') in
            case dc_append env of
              Some e \<Rightarrow> (s, Some (LogAppendFailed e))
            | None \<Rightarrow>
              (let eid = next_id s (dc_gap env);
                   s1 = s\<lparr>lastID := eid,
                          slog := slog s @ [EvOperatorConfirmation eid (''req-'' @ dec_nat (p_seq p)) decision
                                              rationale (p_seq p) uid (dc_now env)]\<rparr>;
                   (m1, terr) = Transition (dc_sm env) (sm s1) target reason in
               case terr of
                 Some e \<Rightarrow> (s1\<lparr>sm := m1\<rparr>, Some (ErrInvalidTransition e))
               | None \<Rightarrow>
                 (let (g1, gerr) = (if ack then Gate_Resume (dc_save env) (dc_gateNow env) (gate s1) else (gate s1, None)) in
                  case gerr of
                    Some e \<Rightarrow> (s1\<lparr>sm := m1, gate := g1\<rparr>, Some (GateResumeFailed e))
                  | None \<Rightarrow> (s1\<lparr>sm := m1, gate := g1, pending := None\<rparr>, None))))))"

definition HandleAck :: "dec_env \<Rightarrow> session \<Rightarrow> int \<Rightarrow> string \<Rightarrow> int \<Rightarrow> session \<times> conf_err option" where
  "HandleAck env s eventID rationale uid = handle env s eventID rationale uid True"

definition HandleDeny :: "dec_env \<Rightarrow> session \<Rightarrow> int \<Rightarrow> string \<Rightarrow> int \<Rightarrow> session \<times> conf_err option" where
  "HandleDeny env s eventID rationale uid = handle env s eventID rationale uid False"

subsection \<open>The watcher\<close>

record ConfirmationWatcher =
  w_interval :: duration
  w_timeout :: duration

definition NewConfirmationWatcher :: "duration \<Rightarrow> duration \<Rightarrow> string + ConfirmationWatcher" where
  "NewConfirmationWatcher interval timeout =
     (if interval < 0 then Inl ''interval is negative''
      else if timeout < 0 then Inl ''timeout is negative''
      else Inr \<lparr>w_interval = (if interval = 0 then 30 * second else interval),
                w_timeout = (if timeout = 0 then hour else timeout)\<rparr>)"

definition pendingSnapshot :: "session \<Rightarrow> pendingRequest option" where
  "pendingSnapshot s = pending s"

text \<open>\<open>sweepOnce\<close>, first critical section: the id to deny, if the snapshot is past the timeout.\<close>

definition sweep_check :: "ConfirmationWatcher \<Rightarrow> string option \<Rightarrow> time \<Rightarrow> session \<Rightarrow> int option" where
  "sweep_check w ctx now s =
     (if ctx \<noteq> None then None
      else case pendingSnapshot s of
        None \<Rightarrow> None
      | Some p \<Rightarrow> (if tsub now (requestedAt p) < w_timeout w then None else Some (p_eventID p)))"

text \<open>Second critical section; a stale answer is not an error.\<close>

definition sweep_deny :: "dec_env \<Rightarrow> session \<Rightarrow> int \<Rightarrow> string \<Rightarrow> session \<times> conf_err option" where
  "sweep_deny env s eid rationale =
     (let (s', err) = HandleDeny env s eid rationale 0
      in (s', if err = Some ErrConfirmationStale then None else err))"

subsection \<open>The audit channel of operator overrides\<close>

definition Authenticate ::
  "string + int \<Rightarrow> int \<Rightarrow> string option \<Rightarrow> nat \<Rightarrow> session \<Rightarrow> string \<Rightarrow> string \<Rightarrow> session \<times> (conf_err + int \<times> string)" where
  "Authenticate peer processUID appendErr gap s kind reason =
     (case peer of
        Inl e \<Rightarrow> (s, Inl (PeerCredFailed e))
      | Inr uid \<Rightarrow>
          (if uid \<noteq> processUID then (s, Inl (ErrOperatorIdentityMismatch uid processUID))
           else case appendErr of
             Some e \<Rightarrow> (s, Inl (LogAppendFailed e))
           | None \<Rightarrow>
               (let eid = next_id s gap
                in (s\<lparr>lastID := eid, slog := slog s @ [EvOperatorOverrideApplied eid uid reason kind]\<rparr>,
                    Inr (uid, reason)))))"

subsection \<open>The main loop\<close>

text \<open>
  A record the subscription delivers. The payloads of drift and budget records are given decoded:
  the severity and the action, \<open>None\<close> when \<open>eventlog.Decode\<close> fails.
\<close>

datatype loop_record =
    WorkerDeath
  | SubstrateDrift "string option"
  | BudgetDegradation "string option"
  | EmergencyTierActivated
  | OrchestratorStopped
  | OtherRecord

definition i32 :: "int \<Rightarrow> int" where
  "i32 x = (x + 2 ^ 31) mod 2 ^ 32 - 2 ^ 31"

definition mainLoopDeathThreshold :: int where "mainLoopDeathThreshold = 3"

text \<open>\<open>strings.EqualFold\<close> against \<open>"hard"\<close>: none of its letters folds outside ASCII.\<close>

definition lower :: "char \<Rightarrow> char" where
  "lower c = (let n = of_char c :: nat in if 65 \<le> n \<and> n \<le> 90 then char_of (n + 32) else c)"

definition equal_fold_hard :: "string \<Rightarrow> bool" where
  "equal_fold_hard s \<longleftrightarrow> map lower s = ''hard''"

definition handleDrift :: "sm_env \<Rightarrow> StateMachine \<Rightarrow> string option \<Rightarrow> StateMachine" where
  "handleDrift env m severity =
     (case severity of
        None \<Rightarrow> m
      | Some sev \<Rightarrow>
          (if equal_fold_hard sev then fst (Transition env m StateHardPaused ''main_loop:substrate_drift_hard'') else m))"

definition handleBudgetDegradation :: "sm_env \<Rightarrow> StateMachine \<Rightarrow> string option \<Rightarrow> StateMachine" where
  "handleBudgetDegradation env m action =
     (case action of
        None \<Rightarrow> m
      | Some a \<Rightarrow>
          (if a = '''' \<or> a = ''continue'' then m
           else fst (Transition env m StateDegradedTier ''main_loop:budget_degradation'')))"

fun handleRecord :: "sm_env \<Rightarrow> StateMachine \<times> int \<Rightarrow> loop_record \<Rightarrow> StateMachine \<times> int" where
  "handleRecord env (m, streak) WorkerDeath =
     (let k = i32 (streak + 1) in
      (if k \<ge> mainLoopDeathThreshold then fst (Transition env m StateHardPaused ''main_loop:worker_death_streak'') else m, k))"
| "handleRecord env (m, streak) (SubstrateDrift sev) = (handleDrift env m sev, 0)"
| "handleRecord env (m, streak) (BudgetDegradation a) = (handleBudgetDegradation env m a, 0)"
| "handleRecord env (m, streak) EmergencyTierActivated =
     (fst (Transition env m StateEmergencyTier ''main_loop:emergency_tier''), 0)"
| "handleRecord env (m, streak) OrchestratorStopped = (m, 0)"
| "handleRecord env (m, streak) OtherRecord = (m, 0)"

definition MainLoop_Run :: "StateMachine \<Rightarrow> (sm_env \<times> loop_record) list \<Rightarrow> StateMachine \<times> int" where
  "MainLoop_Run m rs = fold (\<lambda>(env, r) st. handleRecord env st r) rs (m, 0)"

subsection \<open>What the main loop reaches: the worst level that was asked for\<close>

lemmas state_defs = StateIdle_def StateInitializing_def StateRunning_def StateWaitingForConfirmation_def
  StateDegradedTier_def StateHardPaused_def StateRecoveringFromReplay_def StateEmergencyTier_def StateAborting_def

definition live :: "sm_env \<Rightarrow> bool" where
  "live env \<longleftrightarrow> ctx_err env = None \<and> append_err env = None"

lemma Transition_live:
  assumes "live env" "Transition env m to reason = (m', err)"
  shows "current m' = (if IsLegal (current m) to then to else current m) \<and> (err = None \<longleftrightarrow> IsLegal (current m) to)"
  using assms by (auto simp: Transition_def live_def IsLegal_def Let_def split: option.splits if_splits)

lemma Transition_live_current:
  "live env \<Longrightarrow> current (fst (Transition env m to reason)) = (if IsLegal (current m) to then to else current m)"
  by (cases "Transition env m to reason") (use Transition_live in auto)

definition asks_hard :: "loop_record \<Rightarrow> bool" where
  "asks_hard r \<longleftrightarrow> (case r of SubstrateDrift (Some sev) \<Rightarrow> equal_fold_hard sev | _ \<Rightarrow> False)"

definition asks_degraded :: "loop_record \<Rightarrow> bool" where
  "asks_degraded r \<longleftrightarrow> (case r of BudgetDegradation (Some a) \<Rightarrow> a \<noteq> '''' \<and> a \<noteq> ''continue'' | _ \<Rightarrow> False)"

definition worst_level :: "loop_record list \<Rightarrow> State" where
  "worst_level rs =
     (if sublist [WorkerDeath, WorkerDeath, WorkerDeath] rs \<or> list_ex asks_hard rs then StateHardPaused
      else if EmergencyTierActivated \<in> set rs then StateEmergencyTier
      else if list_ex asks_degraded rs then StateDegradedTier
      else StateRunning)"

text \<open>The streak counter is the number of deaths at the end of the records, until it pauses.\<close>

definition trailing :: "loop_record list \<Rightarrow> nat" where
  "trailing rs = length (takeWhile (\<lambda>r. r = WorkerDeath) (rev rs))"

lemma trailing_snoc: "trailing (rs @ [r]) = (if r = WorkerDeath then Suc (trailing rs) else 0)"
  by (simp add: trailing_def)

lemma suffix_deaths: "suffix (replicate n WorkerDeath) rs \<longleftrightarrow> n \<le> trailing rs"
proof (induction rs arbitrary: n rule: rev_induct)
  case (snoc r rs)
  show ?case
  proof (cases n)
    case (Suc k)
    have "suffix (replicate (Suc k) WorkerDeath) (rs @ [r]) \<longleftrightarrow> WorkerDeath = r \<and> suffix (replicate k WorkerDeath) rs"
      by (metis replicate_Suc replicate_append_same snoc_suffix_snoc)
    with Suc snoc.IH show ?thesis by (auto simp: trailing_snoc)
  qed simp
qed (simp add: trailing_def)

lemma deaths_snoc:
  "sublist [WorkerDeath, WorkerDeath, WorkerDeath] (rs @ [r])
   \<longleftrightarrow> sublist [WorkerDeath, WorkerDeath, WorkerDeath] rs \<or> (r = WorkerDeath \<and> 2 \<le> trailing rs)"
  using sublist_snoc [of "replicate 3 WorkerDeath" rs r] suffix_deaths [of 3 "rs @ [r]"]
  by (auto simp: trailing_snoc numeral_3_eq_3)

lemma worst_level_snoc:
  "worst_level (rs @ [r]) =
     (let top = worst_level rs in
      if top = StateHardPaused \<or> (r = WorkerDeath \<and> 2 \<le> trailing rs) \<or> asks_hard r then StateHardPaused
      else if top = StateEmergencyTier \<or> r = EmergencyTierActivated then StateEmergencyTier
      else if top = StateDegradedTier \<or> asks_degraded r then StateDegradedTier
      else StateRunning)"
  by (auto simp: worst_level_def deaths_snoc Let_def state_defs)

lemma legal_levels [simp]:
  "IsLegal StateRunning StateHardPaused" "IsLegal StateRunning StateEmergencyTier" "IsLegal StateRunning StateDegradedTier"
  "IsLegal StateDegradedTier StateHardPaused" "IsLegal StateDegradedTier StateEmergencyTier" "\<not> IsLegal StateDegradedTier StateDegradedTier"
  "IsLegal StateEmergencyTier StateHardPaused" "\<not> IsLegal StateEmergencyTier StateEmergencyTier" "\<not> IsLegal StateEmergencyTier StateDegradedTier"
  "\<not> IsLegal StateHardPaused StateHardPaused" "\<not> IsLegal StateHardPaused StateEmergencyTier" "\<not> IsLegal StateHardPaused StateDegradedTier"
  by (simp_all add: IsLegal_def TransitionTable_def state_defs)

lemma worst_level_in: "worst_level rs \<in> {StateRunning, StateDegradedTier, StateEmergencyTier, StateHardPaused}"
  by (simp add: worst_level_def)

lemma level_step:
  assumes "live env" and "current m = worst_level rs"
    and "worst_level rs \<noteq> StateHardPaused \<Longrightarrow> k = int (trailing rs) \<and> trailing rs < 3"
    and "handleRecord env (m, k) r = (m', k')"
  shows "current m' = worst_level (rs @ [r])
    \<and> (worst_level (rs @ [r]) \<noteq> StateHardPaused \<longrightarrow> k' = int (trailing (rs @ [r])) \<and> trailing (rs @ [r]) < 3)"
proof -
  note defs = worst_level_snoc Let_def trailing_snoc asks_hard_def asks_degraded_def Transition_live_current [OF assms(1)]
  have lv: "current m \<in> {StateRunning, StateDegradedTier, StateEmergencyTier, StateHardPaused}"
    using worst_level_in assms(2) by simp
  have ne: "StateRunning \<noteq> StateHardPaused" "StateDegradedTier \<noteq> StateHardPaused" "StateEmergencyTier \<noteq> StateHardPaused"
    "StateRunning \<noteq> StateEmergencyTier" "StateDegradedTier \<noteq> StateEmergencyTier" "StateRunning \<noteq> StateDegradedTier"
    by (simp_all add: state_defs)
  show ?thesis
  proof (cases r)
    case WorkerDeath
    have "i32 (k + 1) = int (trailing rs) + 1" if "worst_level rs \<noteq> StateHardPaused"
      using assms(3) [OF that] by (simp add: i32_def)
    with WorkerDeath assms(2,4) lv ne show ?thesis
      by (cases "worst_level rs = StateHardPaused")
        (auto simp: defs mainLoopDeathThreshold_def split: if_splits)
  next
    case (SubstrateDrift sev)
    with assms(2,4) lv ne show ?thesis
      by (cases sev) (auto simp: defs handleDrift_def)
  next
    case (BudgetDegradation a)
    with assms(2,4) lv ne show ?thesis
      by (cases a) (auto simp: defs handleBudgetDegradation_def)
  next
    case EmergencyTierActivated
    with assms(2,4) lv ne show ?thesis by (auto simp: defs)
  next
    case OrchestratorStopped
    with assms(2,4) lv ne show ?thesis by (auto simp: defs)
  next
    case OtherRecord
    with assms(2,4) lv ne show ?thesis by (auto simp: defs)
  qed
qed

lemma MainLoop_level:
  assumes "current m = StateRunning" "list_all (live \<circ> fst) rs" "MainLoop_Run m rs = (m', k)"
  shows "current m' = worst_level (map snd rs)
    \<and> (worst_level (map snd rs) \<noteq> StateHardPaused \<longrightarrow> k = int (trailing (map snd rs)) \<and> trailing (map snd rs) < 3)"
  using assms(2,3)
proof (induction rs arbitrary: m' k rule: rev_induct)
  case Nil
  then show ?case using assms(1) by (simp add: MainLoop_Run_def worst_level_def trailing_def)
next
  case (snoc er rs)
  obtain m1 k1 where run: "MainLoop_Run m rs = (m1, k1)" by (metis surj_pair)
  have h: "handleRecord (fst er) (m1, k1) (snd er) = (m', k)"
    using snoc.prems(2) run by (simp add: MainLoop_Run_def case_prod_beta)
  have l: "live (fst er)" "list_all (live \<circ> fst) rs" using snoc.prems(1) by (simp_all add: comp_def)
  note ih = snoc.IH [OF l(2) run]
  show ?case using level_step [OF l(1) conjunct1 [OF ih] mp [OF conjunct2 [OF ih]] h] by simp
qed


definition demo_running :: StateMachine where
  "demo_running = \<lparr>current = StateRunning, sessionID = ''s'', projectID = ''p'', app = []\<rparr>"

definition live_env :: sm_env where
  "live_env = \<lparr>ctx_err = None, now_v = 1, append_err = None\<rparr>"


text \<open>Outside those states the loop's transitions can be illegal, and it drops the refusal: while a
  confirmation is pending, a hard drift is lost.\<close>

lemma pending_confirmation_masks_hard_drift:
  assumes "current m = StateWaitingForConfirmation"
  shows "handleRecord env (m, k) (SubstrateDrift (Some ''hard'')) = (m, 0)"
proof -
  have "\<not> IsLegal StateWaitingForConfirmation StateHardPaused" by (simp add: IsLegal_def TransitionTable_def state_defs)
  with assms show ?thesis
    by (auto simp: handleDrift_def Transition_def IsLegal_def split: option.splits)
qed

subsection \<open>The session as a system\<close>

text \<open>
  The steps of a session: requests, decisions, overrides, the two halves of a sweep of the watcher,
  and what other components do to the shared parts (transitions of the supervisor, the gate, rows of
  the log). The second component is what the watcher carries between its two critical sections: the
  id it will deny and the time at which it looked.
\<close>

inductive conf_step ::
  "ConfirmationPolicy \<Rightarrow> ConfirmationWatcher \<Rightarrow> session \<times> (int \<times> time) option \<Rightarrow> session \<times> (int \<times> time) option \<Rightarrow> bool"
  for cp w where
  request: "RequestConfirmation cp env s inp = (s', out) \<Longrightarrow> conf_step cp w (s, l) (s', l)"
| decide: "handle env s eid rationale uid ack = (s', err) \<Longrightarrow> conf_step cp w (s, l) (s', l)"
| override: "Authenticate peer puid appendErr gap s kind reason = (s', who) \<Longrightarrow> conf_step cp w (s, l) (s', l)"
| sweep: "sweep_check w ctx now s = Some eid \<Longrightarrow> conf_step cp w (s, None) (s, Some (eid, now))"
| expire: "sweep_deny env s eid rationale = (s', err) \<Longrightarrow> conf_step cp w (s, Some (eid, t)) (s', None)"
| others: "lastID s \<le> i \<Longrightarrow> conf_step cp w (s, l) (s\<lparr>sm := m, gate := g, slog := es, lastID := i\<rparr>, l)"

definition conf_init :: "session \<times> (int \<times> time) option \<Rightarrow> bool" where
  "conf_init st \<longleftrightarrow> pending (fst st) = None \<and> snd st = None"

definition conf_inv :: "ConfirmationWatcher \<Rightarrow> session \<times> (int \<times> time) option \<Rightarrow> bool" where
  "conf_inv w st \<longleftrightarrow>
     (\<forall>p. pending (fst st) = Some p \<longrightarrow> p_eventID p \<le> lastID (fst st))
     \<and> (\<forall>eid t. snd st = Some (eid, t) \<longrightarrow>
          eid \<le> lastID (fst st)
          \<and> (\<forall>p. pending (fst st) = Some p \<longrightarrow> p_eventID p = eid \<longrightarrow> w_timeout w \<le> tsub t (requestedAt p)))"

text \<open>A request that is settled: no pending request has its id, nor will one.\<close>

definition settled :: "int \<Rightarrow> session \<times> (int \<times> time) option \<Rightarrow> bool" where
  "settled eid st \<longleftrightarrow> eid \<le> lastID (fst st) \<and> (\<forall>p. pending (fst st) = Some p \<longrightarrow> p_eventID p \<noteq> eid)"

lemma Request_pending:
  assumes "RequestConfirmation cp env s inp = (s', out)"
  shows "lastID s \<le> lastID s' \<and> (pending s' = pending s \<or> (\<exists>p. pending s' = Some p \<and> p_eventID p = lastID s' \<and> lastID s < lastID s'))"
  using assms
  by (auto simp: RequestConfirmation_def Let_def next_id_def split: option.splits if_splits prod.splits)

lemma handle_pending:
  assumes "handle env s eid rationale uid ack = (s', err)"
  shows "lastID s \<le> lastID s' \<and> (pending s' = pending s \<or> (pending s' = None \<and> (\<exists>p. pending s = Some p \<and> p_eventID p = eid)))"
  using assms
  by (auto simp: handle_def Let_def next_id_def split: option.splits if_splits prod.splits)

lemma handle_stale:
  assumes "\<And>p. pending s = Some p \<Longrightarrow> p_eventID p \<noteq> eid"
  shows "handle env s eid rationale uid ack = (s, Some ErrConfirmationStale)"
  using assms by (auto simp: handle_def split: option.splits)

lemma Authenticate_pending:
  assumes "Authenticate peer puid appendErr gap s kind reason = (s', who)"
  shows "lastID s \<le> lastID s' \<and> pending s' = pending s"
  using assms by (auto simp: Authenticate_def Let_def next_id_def split: sum.splits option.splits if_splits)

lemma sweep_deny_session: "sweep_deny env s eid rationale = (s', err) \<Longrightarrow> \<exists>e. handle env s eid rationale 0 False = (s', e)"
  by (auto simp: sweep_deny_def HandleDeny_def Let_def split: prod.splits)

text \<open>Every step lets the id grow and either keeps the pending request, drops it, or installs a fresh one.\<close>

lemma conf_step_pending:
  assumes "conf_step cp w st st'"
  shows "lastID (fst st) \<le> lastID (fst st')
    \<and> (pending (fst st') = pending (fst st) \<or> pending (fst st') = None
       \<or> (\<exists>p. pending (fst st') = Some p \<and> p_eventID p = lastID (fst st') \<and> lastID (fst st) < lastID (fst st')))"
  using assms
proof (cases rule: conf_step.cases)
  case (request env s inp s' out l)
  then show ?thesis using Request_pending [OF request(3)] by auto
next
  case (decide env s eid rationale uid ack s' err l)
  then show ?thesis using handle_pending [OF decide(3)] by auto
next
  case (override peer puid appendErr gap s kind reason s' who l)
  then show ?thesis using Authenticate_pending [OF override(3)] by auto
next
  case (expire env s eid rationale s' err t)
  obtain e where "handle env s eid rationale 0 False = (s', e)" using sweep_deny_session [OF expire(3)] by blast
  from handle_pending [OF this] expire(1,2) show ?thesis by auto
qed auto

lemma conf_step_watch:
  assumes "conf_step cp w st st'"
  shows "snd st' = snd st \<or> snd st' = None
    \<or> (\<exists>ctx now eid. sweep_check w ctx now (fst st) = Some eid \<and> fst st' = fst st \<and> snd st' = Some (eid, now))"
  using assms by (cases rule: conf_step.cases) auto

lemma sweep_check_Some:
  "sweep_check w ctx now s = Some eid \<Longrightarrow> \<exists>p. pending s = Some p \<and> p_eventID p = eid \<and> w_timeout w \<le> tsub now (requestedAt p)"
  by (auto simp: sweep_check_def pendingSnapshot_def split: option.splits if_splits)

lemma conf_inv_step:
  assumes "conf_inv w st" "conf_step cp w st st'"
  shows "conf_inv w st'"
proof -
  note mono = conjunct1 [OF conf_step_pending [OF assms(2)]] and moves = conjunct2 [OF conf_step_pending [OF assms(2)]]
  have pend: "p_eventID p \<le> lastID (fst st')" if "pending (fst st') = Some p" for p
    using moves
  proof (elim disjE exE conjE)
    assume "pending (fst st') = pending (fst st)"
    with that mono assms(1) show ?thesis using order_trans by (fastforce simp: conf_inv_def)
  qed (use that in auto)
  have watched: "eid \<le> lastID (fst st')
      \<and> (\<forall>p. pending (fst st') = Some p \<longrightarrow> p_eventID p = eid \<longrightarrow> w_timeout w \<le> tsub t (requestedAt p))"
    if here: "snd st' = Some (eid, t)" for eid t
  proof (cases "snd st = Some (eid, t)")
    case True
    then have old: "eid \<le> lastID (fst st)"
      "\<And>p. pending (fst st) = Some p \<Longrightarrow> p_eventID p = eid \<Longrightarrow> w_timeout w \<le> tsub t (requestedAt p)"
      using assms(1) by (simp_all add: conf_inv_def)
    from moves show ?thesis using old mono by (elim disjE exE conjE) auto
  next
    case False
    then obtain ctx where c: "sweep_check w ctx t (fst st) = Some eid" "fst st' = fst st"
      using conf_step_watch [OF assms(2)] here by auto
    then show ?thesis using sweep_check_Some [OF c(1)] assms(1) by (auto simp: conf_inv_def)
  qed
  show ?thesis using pend watched by (simp add: conf_inv_def)
qed

interpretation confirm: safety conf_init "conf_step cp w" "conf_inv w" for cp w
proof
  show "conf_inv w st" if "conf_init st" for st using that by (simp add: conf_init_def conf_inv_def)
  show "conf_inv w st'" if "conf_inv w st" "conf_step cp w st st'" for st st'
    by (rule conf_inv_step [OF that])
qed

interpretation settled: safety "settled eid" "conf_step cp w" "settled eid" for eid cp w
proof
  show "settled eid st'" if "settled eid st" "conf_step cp w st st'" for st st'
    using that(1) conf_step_pending [OF that(2)] by (auto simp: settled_def)
qed

subsection \<open>Decisions\<close>

text \<open>C6: A request is decided at most once. Once a decision on the request with id \<open>eid\<close> has been
  accepted, then in every later state of the session, whatever requests, decisions, overrides and
  sweeps came between, another decision on that id, by the operator or by the timeout watcher, is
  refused as stale and changes nothing; in particular a late answer never decides a newer request.\<close>

theorem accepted_decision_is_final:
  assumes "reach conf_init (conf_step cp w) (s, l)"
    and "handle env s eid rationale uid ack = (s', None)"
    and "(conf_step cp w)\<^sup>*\<^sup>* (s', l) (s'', l')"
  shows "handle env' s'' eid rationale' uid' ack' = (s'', Some ErrConfirmationStale)"
proof -
  have "conf_inv w (s, l)" using assms(1) by (rule confirm.reach_inv)
  moreover obtain p where "pending s = Some p" "p_eventID p = eid" "pending s' = None" "lastID s \<le> lastID s'"
    using assms(2) by (auto simp: handle_def Let_def next_id_def split: option.splits if_splits prod.splits)
  ultimately have "settled eid (s', l)" by (auto simp: conf_inv_def settled_def)
  then have "settled eid (s'', l')" using assms(3) by (rule settled.steps_inv)
  then show ?thesis by (intro handle_stale) (auto simp: settled_def)
qed

text \<open>The timeout watcher only ever denies a request that had waited out its timeout. Its check and
  its denial are two critical sections, so the request it saw may have been decided and another one
  made in between; its denial then changes nothing, and if it changes the session, the pending
  request is the one it looked at, and at that moment the request was at least \<open>timeout\<close> old.\<close>

lemma watcher_denies_only_expired:
  assumes "reach conf_init (conf_step cp w) (s, Some (eid, t))"
    and "sweep_deny env s eid rationale = (s', err)" and "s' \<noteq> s"
  shows "\<exists>p. pending s = Some p \<and> p_eventID p = eid \<and> w_timeout w \<le> tsub t (requestedAt p)"
proof -
  have inv: "conf_inv w (s, Some (eid, t))" using assms(1) by (rule confirm.reach_inv)
  obtain e where "handle env s eid rationale 0 False = (s', e)" using sweep_deny_session [OF assms(2)] by blast
  then obtain p where "pending s = Some p" "p_eventID p = eid"
    using assms(3) handle_stale [of s eid env rationale 0 False] by (cases "pending s") auto
  with inv show ?thesis by (auto simp: conf_inv_def)
qed

subsection \<open>Requests\<close>

definition pauses :: "ConfirmationPolicy \<Rightarrow> string \<Rightarrow> bool" where
  "pauses cp cls \<longleftrightarrow> Evaluate cp cls \<noteq> ConfirmationActionContinue"

lemma legal_waiting [simp]:
  "IsLegal StateRunning StateWaitingForConfirmation" "IsLegal StateDegradedTier StateWaitingForConfirmation"
  "IsLegal StateHardPaused StateWaitingForConfirmation" "IsLegal StateEmergencyTier StateWaitingForConfirmation"
  "IsLegal StateWaitingForConfirmation StateRunning" "IsLegal StateWaitingForConfirmation StateDegradedTier"
  "IsLegal StateWaitingForConfirmation StateAborting"
  "\<not> IsLegal StateWaitingForConfirmation StateHardPaused" "\<not> IsLegal StateWaitingForConfirmation StateEmergencyTier"
  by (simp_all add: IsLegal_def TransitionTable_def state_defs)

definition req_live :: "req_env \<Rightarrow> bool" where
  "req_live env \<longleftrightarrow> rq_ctx env = None \<and> live (rq_sm env) \<and> rq_save env = None \<and> rq_append env = None"

definition dec_live :: "dec_env \<Rightarrow> bool" where
  "dec_live env \<longleftrightarrow> dc_append env = None \<and> live (dc_sm env) \<and> dc_save env = None"

lemma Transition_legal:
  assumes "live env" "IsLegal (current m) to"
  obtains m' where "Transition env m to reason = (m', None)" "current m' = to"
  using Transition_live [OF assms(1), of m to reason] assms(2) by (metis surj_pair)

lemma Request_opens:
  assumes "req_live env" "pauses cp (ci_Class inp)" "pending s = None"
    and "IsLegal (current (sm s)) StateWaitingForConfirmation"
  obtains s' out p where "RequestConfirmation cp env s inp = (s', Inr out)" "pending s' = Some p"
    "p_eventID p = co_EventID out" "previousState p = current (sm s)" "requestedAt p = rq_clock env 2"
    "current (sm s') = StateWaitingForConfirmation" "g_state (gate s') = PausedDescriptive"
    "co_Action out = Evaluate cp (ci_Class inp)" "lastID s < co_EventID out"
proof -
  obtain m' where "Transition (rq_sm env) (sm s) StateWaitingForConfirmation (''confirmation_requested:'' @ ci_Class inp) = (m', None)"
    "current m' = StateWaitingForConfirmation"
    using Transition_legal [OF _ assms(4)] assms(1) unfolding req_live_def by blast
  with that assms show ?thesis
    by (simp add: RequestConfirmation_def req_live_def pauses_def Let_def Gate_Pause_descriptive next_id_def)
qed

lemma handle_accepts:
  assumes "dec_live env" "pending s = Some p"
    and "IsLegal (current (sm s)) (if ack then previousState p else StateAborting)"
  shows "\<exists>s'. handle env s (p_eventID p) rationale uid ack = (s', None) \<and> pending s' = None
    \<and> current (sm s') = (if ack then previousState p else StateAborting)
    \<and> g_state (gate s') = (if ack then GateRunning else g_state (gate s))"
proof -
  obtain m' where "Transition (dc_sm env) (sm s) (if ack then previousState p else StateAborting)
      (if ack then ''confirmation_ack'' else ''confirmation_deny'') = (m', None)"
    "current m' = (if ack then previousState p else StateAborting)"
    using Transition_legal [OF _ assms(3)] assms(1) unfolding dec_live_def by blast
  moreover obtain g' where "Gate_Resume None (dc_gateNow env) (gate s) = (g', None)" "g_state g' = GateRunning"
    by (metis Gate_Resume_ok surj_pair)
  ultimately show ?thesis using assms
    by (cases ack) (simp_all add: handle_def dec_live_def Let_def)
qed

text \<open>C38: A confirmation suspends a session and an answer gives it back. With nothing failing and no
  request pending, a request of a class that pauses, made in \<open>Running\<close> or \<open>DegradedTier\<close>, puts the
  supervisor in \<open>WaitingForConfirmation\<close> and blocks every scope of the gate; acknowledging the id it
  returned brings back exactly the state the session had, with the gate running, and denying it puts
  the session in \<open>Aborting\<close> with the gate still closed.\<close>

theorem confirmation_round_trip:
  assumes "req_live env" "dec_live env'" "pauses cp (ci_Class inp)" "pending s = None"
    and "current (sm s) = StateRunning \<or> current (sm s) = StateDegradedTier"
  shows "\<exists>s1 out. RequestConfirmation cp env s inp = (s1, Inr out)
     \<and> current (sm s1) = StateWaitingForConfirmation \<and> (\<forall>scope. Gate_IsPaused (gate s1) scope)
     \<and> (\<exists>s2. HandleAck env' s1 (co_EventID out) rationale uid = (s2, None) \<and> pending s2 = None
          \<and> current (sm s2) = current (sm s) \<and> (\<forall>scope. \<not> Gate_IsPaused (gate s2) scope))
     \<and> (\<exists>s3. HandleDeny env' s1 (co_EventID out) rationale uid = (s3, None) \<and> pending s3 = None
          \<and> current (sm s3) = StateAborting \<and> (\<forall>scope. Gate_IsPaused (gate s3) scope))"
proof -
  have "IsLegal (current (sm s)) StateWaitingForConfirmation" using assms(5) by auto
  then obtain s1 out p where r: "RequestConfirmation cp env s inp = (s1, Inr out)" "pending s1 = Some p"
    "p_eventID p = co_EventID out" "previousState p = current (sm s)"
    "current (sm s1) = StateWaitingForConfirmation" "g_state (gate s1) = PausedDescriptive"
    using Request_opens [OF assms(1,3,4)] by metis
  have "IsLegal (current (sm s1)) (if ack then previousState p else StateAborting)" for ack
    using r(4,5) assms(5) by auto
  then have answer: "\<exists>s'. handle env' s1 (co_EventID out) rationale uid ack = (s', None) \<and> pending s' = None
      \<and> current (sm s') = (if ack then current (sm s) else StateAborting)
      \<and> g_state (gate s') = (if ack then GateRunning else PausedDescriptive)" for ack
    using handle_accepts [OF assms(2) r(2)] r(3,4,6) by metis
  obtain s2 where "HandleAck env' s1 (co_EventID out) rationale uid = (s2, None)" "pending s2 = None"
    "current (sm s2) = current (sm s)" "g_state (gate s2) = GateRunning"
    using answer [of True] unfolding HandleAck_def by auto
  moreover obtain s3 where "HandleDeny env' s1 (co_EventID out) rationale uid = (s3, None)" "pending s3 = None"
    "current (sm s3) = StateAborting" "g_state (gate s3) = PausedDescriptive"
    using answer [of False] unfolding HandleDeny_def by auto
  ultimately show ?thesis using r by (simp add: Gate_IsPaused_def)
qed

text \<open>A request that fails leaves nothing behind. Made in \<open>Running\<close> or \<open>DegradedTier\<close>, whatever
  failed (the context, the transition, the gate's save or the append of the request), if the
  rollback's own writes go through, the supervisor is back in the state it had, no request is
  pending, none is logged, and the gate is as it was or running; no session is left waiting for an
  answer nobody was asked for.\<close>

lemma failed_request_leaves_nothing:
  assumes "RequestConfirmation cp env s inp = (s', Inl e)"
    and "current (sm s) = StateRunning \<or> current (sm s) = StateDegradedTier"
    and "append_err (rq_undo env) = None" "rq_unsave env = None"
  shows "current (sm s') = current (sm s) \<and> pending s' = pending s \<and> slog s' = slog s
    \<and> g_state (gate s') \<in> {g_state (gate s), GateRunning}"
proof -
  have undo: "current (rollback env m (current (sm s)) cls) = current (sm s)" if "current m = StateWaitingForConfirmation" for m cls
  proof -
    have "live ((rq_undo env)\<lparr>ctx_err := None\<rparr>)" using assms(3) by (simp add: live_def)
    then show ?thesis using assms(2) that by (auto simp: rollback_def Transition_live_current)
  qed
  have moved: "current m = StateWaitingForConfirmation" if "Transition en (sm s) StateWaitingForConfirmation r = (m, None)" for en m r
    using that by (auto simp: Transition_def Let_def split: option.splits if_splits)
  have kept: "m = sm s" if "Transition en (sm s) to r = (m, Some x)" for en to r m x
    using that by (auto simp: Transition_def Let_def split: option.splits if_splits)
  show ?thesis
    using assms(1,4)
    by (auto simp: RequestConfirmation_def Let_def Gate_Pause_descriptive undo [OF moved] dest: kept Gate_Resume_ok
        split: option.splits if_splits prod.splits)
qed

text \<open>The other states a request can be made in are \<open>HardPaused\<close> and \<open>EmergencyTier\<close>, and the
  transition table has no edge from \<open>WaitingForConfirmation\<close> back to them: whatever the environment
  answers, acknowledging such a request fails and leaves it pending, so the session can only be
  denied.\<close>

lemma acknowledgement_cannot_restore_a_hard_pause:
  assumes "pending s = Some p" "current (sm s) = StateWaitingForConfirmation"
    and "previousState p = StateHardPaused \<or> previousState p = StateEmergencyTier"
  shows "\<exists>s' e. HandleAck env s (p_eventID p) rationale uid = (s', Some e)
    \<and> pending s' = Some p \<and> current (sm s') = StateWaitingForConfirmation"
proof -
  have "\<not> IsLegal (current (sm s)) (previousState p)" using assms(2,3) by auto
  then have "\<exists>e. Transition (dc_sm env) (sm s) (previousState p) ''confirmation_ack'' = (sm s, Some e)"
    by (auto simp: Transition_def IsLegal_def Let_def split: option.splits)
  then show ?thesis using assms
    by (auto simp: HandleAck_def handle_def Let_def split: option.splits)
qed

text \<open>When only the gate's save fails, the acknowledgement has already moved the supervisor and the
  request stays pending: acknowledging again is refused, and the watcher's denial aborts a session
  the operator had approved.\<close>

lemma acknowledged_session_is_aborted:
  assumes "pending s = Some p" "current (sm s) = StateWaitingForConfirmation" "previousState p = StateRunning"
    and "g_state (gate s) = PausedDescriptive"
    and "dc_append env = None" "live (dc_sm env)" "dc_save env = Some x" and "dec_live env'"
  obtains s1 where "HandleAck env s (p_eventID p) r uid = (s1, Some (GateResumeFailed (PersistFailed x)))"
    "current (sm s1) = StateRunning" "pending s1 = Some p"
    "\<And>env2. snd (HandleAck env2 s1 (p_eventID p) r uid) \<noteq> None"
    "current (sm (fst (sweep_deny env' s1 (p_eventID p) r'))) = StateAborting"
proof -
  have "IsLegal (current (sm s)) StateRunning" using assms(2) by simp
  then obtain m' where m': "Transition (dc_sm env) (sm s) StateRunning ''confirmation_ack'' = (m', None)" "current m' = StateRunning"
    using Transition_legal [OF assms(6)] by blast
  define s1 where "s1 = fst (HandleAck env s (p_eventID p) r uid)"
  have h: "HandleAck env s (p_eventID p) r uid = (s1, Some (GateResumeFailed (PersistFailed x)))"
    and s1: "current (sm s1) = StateRunning" "pending s1 = Some p"
    using assms m' unfolding s1_def
    by (simp_all add: HandleAck_def handle_def Let_def Gate_Resume_def SaveState_def)
  have nr: "\<not> IsLegal StateRunning StateRunning" by (simp add: IsLegal_def TransitionTable_def state_defs)
  have "\<exists>e. Transition en (sm s1) StateRunning ''confirmation_ack'' = (sm s1, Some e)" for en
    using s1(1) nr by (auto simp: Transition_def IsLegal_def Let_def split: option.splits)
  then have again: "snd (HandleAck env2 s1 (p_eventID p) r uid) \<noteq> None" for env2
    using s1(2) assms(3) by (auto simp: HandleAck_def handle_def Let_def split: option.splits prod.splits) (metis option.distinct(1) snd_conv)
  have "IsLegal (current (sm s1)) StateAborting" using s1(1) by (simp add: IsLegal_def TransitionTable_def state_defs)
  then obtain s2 where "handle env' s1 (p_eventID p) r' 0 False = (s2, None)" "current (sm s2) = StateAborting"
    using handle_accepts [OF assms(8) s1(2), where ack = False] by auto
  then have "current (sm (fst (sweep_deny env' s1 (p_eventID p) r'))) = StateAborting"
    by (simp add: sweep_deny_def HandleDeny_def)
  with that h s1 again show thesis by blast
qed

subsection \<open>A concrete session\<close>

definition demo_policy :: ConfirmationPolicy where
  "demo_policy = \<lparr>thresholds = Map.empty(''high_blast_radius'' \<mapsto> ''high'', ''budget_breach'' \<mapsto> ''low''), optionalEnabled = False\<rparr>"

definition demo_session :: "State \<Rightarrow> session" where
  "demo_session st =
     \<lparr>sm = \<lparr>current = st, sessionID = ''s'', projectID = ''p'', app = []\<rparr>, gate = NewOperatorGate GateRunning,
      slog = [], lastID = 10, seq = 0, pending = None\<rparr>"

definition demo_req :: req_env where
  "demo_req = \<lparr>rq_ctx = None, rq_sm = live_env, rq_save = None, rq_append = None, rq_gap = 2,
     rq_clock = (\<lambda>_. 100), rq_unsave = None, rq_undo = live_env\<rparr>"

definition demo_dec :: dec_env where
  "demo_dec = \<lparr>dc_append = None, dc_gap = 0, dc_now = 200, dc_sm = live_env, dc_save = None, dc_gateNow = 200\<rparr>"

definition demo_input :: RequestConfirmationInput where
  "demo_input = \<lparr>ci_Class = ''high_blast_radius'', ci_Summary = ''drop table'', ci_Alternatives = []\<rparr>"

lemma demo_live [simp]: "req_live demo_req" "dec_live demo_dec" "pauses demo_policy (ci_Class demo_input)"
  by (simp_all add: req_live_def dec_live_def demo_req_def demo_dec_def live_def live_env_def
      pauses_def demo_policy_def demo_input_def Evaluate_def)

lemma demo_clock [simp]: "rq_clock demo_req n = 100"
  by (simp add: demo_req_def)

lemma demo_session_simps [simp]:
  "pending (demo_session st) = None" "current (sm (demo_session st)) = st" "lastID (demo_session st) = 10"
  by (simp_all add: demo_session_def)

definition demo_waiting :: session where
  "demo_waiting = fst (RequestConfirmation demo_policy demo_req (demo_session StateRunning) demo_input)"

lemma demo_waiting_eq:
  obtains out p where "RequestConfirmation demo_policy demo_req (demo_session StateRunning) demo_input = (demo_waiting, Inr out)"
    "pending demo_waiting = Some p" "p_eventID p = 13" "previousState p = StateRunning" "requestedAt p = 100"
    "current (sm demo_waiting) = StateWaitingForConfirmation"
proof -
  obtain s' out p where *: "RequestConfirmation demo_policy demo_req (demo_session StateRunning) demo_input = (s', Inr out)"
    "pending s' = Some p" "previousState p = StateRunning" "requestedAt p = 100" "current (sm s') = StateWaitingForConfirmation"
    by (rule Request_opens [of demo_req demo_policy demo_input "demo_session StateRunning"]) auto
  moreover have "p_eventID p = 13"
    using *(1,2) by (auto simp: RequestConfirmation_def Let_def next_id_def demo_req_def split: option.splits if_splits prod.splits)
  moreover have "s' = demo_waiting" using *(1) by (simp add: demo_waiting_def)
  ultimately show thesis using that by blast
qed

lemma demo_waiting_reach: "reach conf_init (conf_step demo_policy w) (demo_waiting, None)"
proof -
  have "reach conf_init (conf_step demo_policy w) (demo_session StateRunning, None)"
    by (intro reach_init) (simp add: conf_init_def)
  moreover have "conf_step demo_policy w (demo_session StateRunning, None) (demo_waiting, None)"
    by (rule demo_waiting_eq) (rule conf_step.request)
  ultimately show ?thesis by (rule reach_step)
qed

theorem accepted_decision_is_final_witness:
  "\<exists>s'. handle demo_dec demo_waiting 13 ''ok'' 501 True = (s', None)
     \<and> handle demo_dec s' 13 ''no'' 501 False = (s', Some ErrConfirmationStale)"
proof -
  obtain p where p: "pending demo_waiting = Some p" "p_eventID p = 13" "previousState p = StateRunning"
    "current (sm demo_waiting) = StateWaitingForConfirmation" by (rule demo_waiting_eq)
  then obtain s' where s': "handle demo_dec demo_waiting 13 ''ok'' 501 True = (s', None)"
    using handle_accepts [of demo_dec demo_waiting p True "''ok''" 501] by auto
  from accepted_decision_is_final [OF demo_waiting_reach this rtranclp.rtrancl_refl] s' show ?thesis by blast
qed

definition demo_watcher :: ConfirmationWatcher where
  "demo_watcher = \<lparr>w_interval = 30 * second, w_timeout = hour\<rparr>"

theorem confirmation_round_trip_witness:
  "\<exists>s1 out s2. RequestConfirmation demo_policy demo_req (demo_session StateDegradedTier) demo_input = (s1, Inr out)
     \<and> HandleAck demo_dec s1 (co_EventID out) ''ok'' 501 = (s2, None) \<and> current (sm s2) = StateDegradedTier"
  using confirmation_round_trip [of demo_req demo_dec demo_policy demo_input "demo_session StateDegradedTier" "''ok''" 501]
  by auto

end
