(* ===== verification/Orchestrator.thy ===== *)
theory Orchestrator
  imports Confirmation
begin

text \<open>
  The build of a session: width and depth (\<open>orchestrator/depth.go\<close>), the research gate, and the
  lifecycle of the orchestrator (\<open>orchestrator/orchestrator.go\<close>: \<open>New\<close>, \<open>Init\<close>, \<open>RunStage4\<close>,
  \<open>Shutdown\<close>), over the state machine of \<open>Supervisor\<close>.

  A run is a function of what its environment answers: the context's error at each transition, the
  appends, the research gate, the operator's callback and the dispatcher. While \<open>Dispatch\<close> blocks,
  other components move the supervisor (the main loop and the confirmations do), so the dispatcher
  is a function from the supervisor at the start of the dispatch to the supervisor at its end.
\<close>

subsection \<open>Width and depth\<close>

record DoctrineBounds =
  b_Floor :: int
  MaxWidth :: int
  MaxDepth :: int

definition DoctrineBoundsFor :: "string \<Rightarrow> DoctrineBounds" where
  "DoctrineBoundsFor name =
     (if name = ''max-scope'' then \<lparr>b_Floor = 8, MaxWidth = 32, MaxDepth = 5\<rparr>
      else if name = ''capa-firewall'' then \<lparr>b_Floor = 5, MaxWidth = 15, MaxDepth = 4\<rparr>
      else \<lparr>b_Floor = 3, MaxWidth = 12, MaxDepth = 3\<rparr>)"

record Spec =
  Phases :: int
  TaskCount :: int
  ParallelizableUpperBound :: int

datatype orch_err =
    ErrInvalidConfig string
  | ErrInvalidBuildRequest string
  | ErrZeroWidth int int int
  | ErrZeroDepth int
  | ErrNotInitialized
  | ErrAlreadyInitialized
  | ErrAlreadyShutdown
  | RunCtxCancelled string
  | RunAppendFailed string
  | ErrResearchGateNotPassed string
  | TransitionFailed sm_error
  | ConfirmationDenied string
  | DispatchFailed string

definition DecideWidth :: "Spec option \<Rightarrow> int \<Rightarrow> DoctrineBounds \<Rightarrow> orch_err + int" where
  "DecideWidth spec machineCapacity bounds =
     (case spec of
        None \<Rightarrow> Inl (ErrInvalidBuildRequest ''spec required'')
      | Some sp \<Rightarrow>
          (let par = ParallelizableUpperBound sp in
           if par \<le> 0 \<or> machineCapacity \<le> 0 \<or> MaxWidth bounds \<le> 0
           then Inl (ErrZeroWidth par machineCapacity (MaxWidth bounds))
           else
             (let w0 = MaxWidth bounds;
                  w1 = (if par < w0 then par else w0);
                  w2 = (if machineCapacity < w1 then machineCapacity else w1)
              in Inr w2)))"

text \<open>The loop of \<open>DecideDepth\<close>; it leaves by its break after at most \<open>maxDepth - depth\<close> turns, the
  fuel. The ceiling division wraps around as Go's \<open>int\<close>.\<close>

fun depth_loop :: "nat \<Rightarrow> int \<Rightarrow> int \<Rightarrow> int \<Rightarrow> int" where
  "depth_loop 0 w n depth = depth"
| "depth_loop (Suc k) w n depth =
     (if n > 1 then depth_loop k w (go_quot (i64 (i64 (n + w) - 1)) w) (depth + 1) else depth)"

definition DecideDepth :: "int \<Rightarrow> int \<Rightarrow> int \<Rightarrow> orch_err + int" where
  "DecideDepth n w maxDepth =
     (if maxDepth < 1 then Inl (ErrInvalidConfig ''max_depth'')
      else if w < 1 then Inl (ErrInvalidBuildRequest ''width'')
      else if n \<le> 0 then Inl (ErrZeroDepth n)
      else if n = 1 then Inr 1
      else if w = 1 then Inr (if n > maxDepth then maxDepth else n)
      else Inr (depth_loop (nat maxDepth) w n 0))"

text \<open>The research gate: some record of the session says that the research is complete.\<close>

definition EvtResearchCompleted :: int where "EvtResearchCompleted = 37"

definition Research_Check :: "string + int list \<Rightarrow> string \<Rightarrow> string option" where
  "Research_Check records sid =
     (case records of
        Inl e \<Rightarrow> Some (''research gate query: '' @ e)
      | Inr types \<Rightarrow> (if EvtResearchCompleted \<in> set types then None else Some (''session='' @ sid)))"

subsection \<open>Lifecycle\<close>

record BuildRequest =
  br_SessionID :: string
  br_ProjectID :: string
  br_Doctrine :: string
  br_Spec :: "Spec option"
  br_Autonomy :: string
  ConfirmationCallback :: "(int \<Rightarrow> int \<Rightarrow> string option) option"

record DispatchRequest =
  dr_Width :: int
  dr_Depth :: int
  dr_Doctrine :: string

datatype orch_event =
    EvStarted string string string string
  | EvDepthWidth int int
  | EvStopped string
  | EvForcedStop string

text \<open>\<open>dispatched\<close> records the requests handed to the dispatcher, \<open>shutdowns\<close> the calls of its
  \<open>Shutdown\<close>.\<close>

record Orchestrator =
  o_sm :: StateMachine
  o_log :: "orch_event list"
  PoolCapacity :: int
  initialized :: bool
  o_shutdown :: bool
  poolPrimed :: bool
  dispatched :: "DispatchRequest list"
  shutdowns :: nat

definition New :: "StateMachine option \<Rightarrow> string \<Rightarrow> string \<Rightarrow> int \<Rightarrow> orch_err + Orchestrator" where
  "New m sid pid capacity =
     (case m of
        None \<Rightarrow> Inl (ErrInvalidConfig ''state machine is nil'')
      | Some m \<Rightarrow>
          (if trim_space sid = '''' then Inl (ErrInvalidConfig ''session id is empty'')
           else if trim_space pid = '''' then Inl (ErrInvalidConfig ''project id is empty'')
           else if capacity < 1 then Inl (ErrInvalidConfig ''pool capacity'')
           else Inr \<lparr>o_sm = m, o_log = [], PoolCapacity = capacity, initialized = False, o_shutdown = False,
                     poolPrimed = False, dispatched = [], shutdowns = 0\<rparr>))"

definition Init :: "string option \<Rightarrow> Orchestrator \<Rightarrow> Orchestrator \<times> orch_err option" where
  "Init ctx orc =
     (case ctx of
        Some e \<Rightarrow> (orc, Some (RunCtxCancelled e))
      | None \<Rightarrow>
          (if o_shutdown orc then (orc, Some ErrAlreadyShutdown)
           else if initialized orc then (orc, Some ErrAlreadyInitialized)
           else (orc\<lparr>poolPrimed := True, initialized := True\<rparr>, None)))"

definition validateBuildRequest :: "BuildRequest \<Rightarrow> orch_err option" where
  "validateBuildRequest req =
     (if trim_space (br_SessionID req) = '''' then Some (ErrInvalidBuildRequest ''session id is empty'')
      else if trim_space (br_ProjectID req) = '''' then Some (ErrInvalidBuildRequest ''project id is empty'')
      else if trim_space (br_Doctrine req) = '''' then Some (ErrInvalidBuildRequest ''doctrine is empty'')
      else case br_Spec req of
        None \<Rightarrow> Some (ErrInvalidBuildRequest ''spec is nil'')
      | Some sp \<Rightarrow> (if TaskCount sp \<le> 0 then Some (ErrInvalidBuildRequest ''task_count must be > 0'') else None))"

text \<open>
  The environment of a run. \<open>tr\<close> gives the context, clock and append of the run's transitions, in the
  order start, running, success, abort, cleanup; the appends of the started and depth/width events;
  \<open>stop\<close> the append of the stopped event, which is retried with a fresh context when the run's is
  cancelled and whose failure is ignored.
\<close>

record run_env =
  ctx0 :: "string option"
  tr :: "nat \<Rightarrow> sm_env"
  appStarted :: "string option"
  research :: "string option"
  appDepth :: "string option"
  dispatch :: "StateMachine \<Rightarrow> StateMachine \<times> string option"
  stopLands :: bool

definition transition :: "run_env \<Rightarrow> nat \<Rightarrow> Orchestrator \<Rightarrow> State \<Rightarrow> string \<Rightarrow> Orchestrator \<times> orch_err option" where
  "transition env k orc to reason =
     (let (m, err) = Transition (tr env k) (o_sm orc) to reason
      in (orc\<lparr>o_sm := m\<rparr>, map_option TransitionFailed err))"

definition recordStopped :: "run_env \<Rightarrow> Orchestrator \<Rightarrow> string \<Rightarrow> Orchestrator" where
  "recordStopped env orc outcome = (if stopLands env then orc\<lparr>o_log := o_log orc @ [EvStopped outcome]\<rparr> else orc)"

definition unwind :: "run_env \<Rightarrow> Orchestrator \<Rightarrow> string \<Rightarrow> bool \<Rightarrow> Orchestrator" where
  "unwind env orc outcome fromRunning =
     (let o1 = recordStopped env orc outcome;
          o2 = (if fromRunning
                then fst (transition env 3 (o1\<lparr>shutdowns := shutdowns o1 + 1\<rparr>) StateAborting (outcome @ ''-running-unwind''))
                else fst (transition env 3 o1 StateAborting (outcome @ ''-unwind'')))
      in fst (transition env 4 o2 StateIdle (outcome @ ''-cleanup'')))"

definition run_finish :: "run_env \<Rightarrow> Orchestrator \<Rightarrow> string option \<Rightarrow> Orchestrator \<times> orch_err option" where
  "run_finish env orc derr =
     (case derr of
        Some e \<Rightarrow> (unwind env orc ''dispatch_failed'' True, Some (DispatchFailed e))
      | None \<Rightarrow>
          (let (o3, ierr) = transition env 2 orc StateIdle ''run-stage4-success'' in
           case ierr of
             Some e \<Rightarrow> (unwind env o3 ''transition_failed'' True, Some e)
           | None \<Rightarrow> (recordStopped env o3 ''success'', None)))"

definition run_dispatch :: "run_env \<Rightarrow> Orchestrator \<Rightarrow> BuildRequest \<Rightarrow> int \<Rightarrow> int \<Rightarrow> Orchestrator \<times> orch_err option" where
  "run_dispatch env orc req width depth =
     (let (o1, err) = transition env 1 orc StateRunning ''dispatch-begin'' in
      case err of
        Some e \<Rightarrow> (unwind env o1 ''transition_failed'' False, Some e)
      | None \<Rightarrow>
          (let dr = \<lparr>dr_Width = width, dr_Depth = depth, dr_Doctrine = br_Doctrine req\<rparr>;
               (m, derr) = dispatch env (o_sm o1)
           in run_finish env (o1\<lparr>o_sm := m, dispatched := dispatched o1 @ [dr]\<rparr>) derr))"

definition run_sized :: "run_env \<Rightarrow> Orchestrator \<Rightarrow> BuildRequest \<Rightarrow> Orchestrator \<times> orch_err option" where
  "run_sized env orc req =
     (let bounds = DoctrineBoundsFor (br_Doctrine req) in
      case DecideWidth (br_Spec req) (PoolCapacity orc) bounds of
        Inl e \<Rightarrow> (unwind env orc ''decide_width_failed'' False, Some e)
      | Inr width \<Rightarrow>
          (case DecideDepth (TaskCount (the (br_Spec req))) width (MaxDepth bounds) of
             Inl e \<Rightarrow> (unwind env orc ''decide_depth_failed'' False, Some e)
           | Inr depth \<Rightarrow>
               (case appDepth env of
                  Some e \<Rightarrow> (unwind env orc ''append_depth_width_failed'' False, Some (RunAppendFailed e))
                | None \<Rightarrow>
                    (let o1 = orc\<lparr>o_log := o_log orc @ [EvDepthWidth depth width]\<rparr> in
                     case Option.bind (ConfirmationCallback req) (\<lambda>cb. cb depth width) of
                       Some e \<Rightarrow> (unwind env o1 ''confirmation_denied'' False, Some (ConfirmationDenied e))
                     | None \<Rightarrow> run_dispatch env o1 req width depth))))"

definition RunStage4 :: "run_env \<Rightarrow> Orchestrator \<Rightarrow> BuildRequest \<Rightarrow> Orchestrator \<times> orch_err option" where
  "RunStage4 env orc req =
     (case ctx0 env of
        Some e \<Rightarrow> (orc, Some (RunCtxCancelled e))
      | None \<Rightarrow>
        (case validateBuildRequest req of
           Some e \<Rightarrow> (orc, Some e)
         | None \<Rightarrow>
           (if \<not> initialized orc then (orc, Some ErrNotInitialized)
            else case appStarted env of
              Some e \<Rightarrow> (orc, Some (RunAppendFailed e))
            | None \<Rightarrow>
              (let o1 = orc\<lparr>o_log := o_log orc @
                         [EvStarted (br_SessionID req) (br_ProjectID req) (br_Autonomy req) (br_Doctrine req)]\<rparr>;
                   (o2, err) = transition env 0 o1 StateInitializing ''run-stage4-start'' in
               case err of
                 Some e \<Rightarrow> (recordStopped env o2 ''transition_failed'', Some e)
               | None \<Rightarrow>
                   (case research env of
                      Some e \<Rightarrow> (unwind env o2 ''research_gate_failed'' False, Some (ErrResearchGateNotPassed e))
                    | None \<Rightarrow> run_sized env o2 req)))))"

subsection \<open>Shutdown\<close>

definition forceUnwindToIdle :: "(nat \<Rightarrow> sm_env) \<Rightarrow> StateMachine \<Rightarrow> string \<Rightarrow> StateMachine" where
  "forceUnwindToIdle envs m outcome =
     (if current m = StateIdle then m
      else if current m = StateAborting
      then fst (Transition (envs 1) m StateIdle (outcome @ ''-force-idle''))
      else fst (Transition (envs 1) (fst (Transition (envs 0) m StateAborting (outcome @ ''-force-abort'')))
                  StateIdle (outcome @ ''-force-idle'')))"

text \<open>
  The wait loop polls the supervisor every 5 ms: each element of the list is one turn, the supervisor
  it finds and whether the context is done by then. \<open>None\<close> is a loop that still waits.
\<close>

fun shutdown_wait :: "(nat \<Rightarrow> sm_env) \<Rightarrow> (StateMachine \<times> bool) list \<Rightarrow> Orchestrator \<Rightarrow> Orchestrator option" where
  "shutdown_wait envs [] orc = None"
| "shutdown_wait envs ((m, ctxDone) # turns) orc =
     (if current m = StateIdle then Some (orc\<lparr>o_sm := m\<rparr>)
      else if ctxDone
      then Some (orc\<lparr>o_sm := forceUnwindToIdle envs m ''forced_shutdown'',
                     o_log := o_log orc @ [EvForcedStop (State_String (current m))]\<rparr>)
      else shutdown_wait envs turns orc)"

definition Shutdown :: "(nat \<Rightarrow> sm_env) \<Rightarrow> (StateMachine \<times> bool) list \<Rightarrow> Orchestrator \<Rightarrow> Orchestrator option" where
  "Shutdown envs turns orc =
     (if \<not> initialized orc \<and> \<not> o_shutdown orc then Some (orc\<lparr>o_shutdown := True\<rparr>)
      else if o_shutdown orc then Some orc
      else map_option (\<lambda>o1. o1\<lparr>o_shutdown := True\<rparr>)
             (shutdown_wait envs turns (orc\<lparr>shutdowns := shutdowns orc + 1\<rparr>)))"

subsection \<open>The depth is the logarithm, capped\<close>

lemma ceil_step:
  assumes "1 < n" "2 \<le> w" "n + w < 2 ^ 63"
  defines "n' \<equiv> go_quot (i64 (i64 (n + w) - 1)) w"
  shows "1 \<le> n'" "n' < n" "n \<le> w * n'" "w * (n' - 1) < n"
proof -
  have "in_i64 (n + w)" "in_i64 (n + w - 1)" using assms(1-3) by (auto simp: in_i64_def)
  then have n': "n' = (n + w - 1) div w" using assms(1,2) by (simp add: n'_def go_quot_nonneg)
  have q: "w * n' = n + w - 1 - (n + w - 1) mod w" unfolding n' by (simp add: minus_mod_eq_mult_div)
  have m: "0 \<le> (n + w - 1) mod w" "(n + w - 1) mod w < w" using assms(2) by simp_all
  show u: "n \<le> w * n'" using q m by simp
  show l: "w * (n' - 1) < n" using q m by (simp add: right_diff_distrib)
  show "1 \<le> n'"
  proof (rule ccontr)
    assume "\<not> 1 \<le> n'"
    then have "w * n' \<le> 0" using assms(2) by (simp add: mult_nonneg_nonpos)
    with u assms(1) show False by simp
  qed
  then have "2 * (n' - 1) \<le> w * (n' - 1)" using assms(2) by (intro mult_right_mono) simp_all
  with l assms(1) show "n' < n" by simp
qed

lemma depth_loop_log:
  assumes "1 \<le> n" "2 \<le> w" "n + w < 2 ^ 63"
  shows "\<exists>j \<le> k. depth_loop k w n d = d + int j \<and> (j < k \<longrightarrow> n \<le> w ^ j) \<and> (0 < j \<longrightarrow> w ^ (j - 1) < n)"
  using assms
proof (induction k arbitrary: n d)
  case (Suc k)
  show ?case
  proof (cases "1 < n")
    case True
    define n' where "n' = go_quot (i64 (i64 (n + w) - 1)) w"
    note c = ceil_step [OF True Suc.prems(2,3), folded n'_def]
    obtain j where j: "j \<le> k" "depth_loop k w n' (d + 1) = d + 1 + int j"
      "j < k \<longrightarrow> n' \<le> w ^ j" "0 < j \<longrightarrow> w ^ (j - 1) < n'"
      using Suc.IH [of n' "d + 1"] c Suc.prems by auto
    have up: "n \<le> w ^ Suc j" if "j < k"
    proof -
      have "w * n' \<le> w * w ^ j" using j(3) that Suc.prems(2) by (intro mult_left_mono) simp_all
      with c(3) show ?thesis by simp
    qed
    have low: "w ^ j < n"
    proof (cases j)
      case (Suc i)
      then have "w * w ^ i \<le> w * (n' - 1)" using j(4) Suc.prems(2) by (intro mult_left_mono) simp_all
      with c(4) Suc show ?thesis by simp
    qed (use True in simp)
    have "depth_loop (Suc k) w n d = d + int (Suc j)" using True j(2) by (simp add: n'_def)
    with up low j(1) show ?thesis by (intro exI [of _ "Suc j"]) simp
  qed (use Suc.prems in auto)
qed auto



text \<open>The width is the smallest of the three factors.\<close>

lemma DecideWidth_min:
  assumes "DecideWidth (Some sp) cap b = Inr w"
  shows "w = Min {MaxWidth b, ParallelizableUpperBound sp, cap} \<and> 0 < w"
  using assms by (auto simp: DecideWidth_def Let_def min_def split: if_splits)

subsection \<open>The run of a build\<close>

lemma transition_fields [simp]:
  "o_log (fst (transition env k orc to r)) = o_log orc" "dispatched (fst (transition env k orc to r)) = dispatched orc"
  "initialized (fst (transition env k orc to r)) = initialized orc" "PoolCapacity (fst (transition env k orc to r)) = PoolCapacity orc"
  by (simp_all add: transition_def split: prod.splits)

lemma transition_live:
  assumes "live (tr env k)" "transition env k orc to r = (orc', err)"
  shows "current (o_sm orc') = (if IsLegal (current (o_sm orc)) to then to else current (o_sm orc))
    \<and> (err = None \<longleftrightarrow> IsLegal (current (o_sm orc)) to)"
proof -
  obtain m e where t: "Transition (tr env k) (o_sm orc) to r = (m, e)" by (metis surj_pair)
  from Transition_live [OF assms(1) t] assms(2) t show ?thesis by (auto simp: transition_def)
qed

lemma recordStopped_fields [simp]:
  "o_sm (recordStopped env orc out) = o_sm orc" "dispatched (recordStopped env orc out) = dispatched orc"
  by (simp_all add: recordStopped_def)

lemma unwind_fields [simp]:
  "dispatched (unwind env orc out b) = dispatched orc"
  "o_log (unwind env orc out b) = o_log (recordStopped env orc out)"
  by (simp_all add: unwind_def Let_def)

lemma legal_cleanup:
  "s \<in> set ValidStates \<Longrightarrow> s \<noteq> StateIdle \<Longrightarrow> s \<noteq> StateAborting \<Longrightarrow> IsLegal s StateAborting"
  "IsLegal StateAborting StateIdle" "\<not> IsLegal StateIdle StateAborting" "\<not> IsLegal StateIdle StateIdle"
  "\<not> IsLegal StateAborting StateAborting"
  by (auto simp: ValidStates_def IsLegal_def TransitionTable_def state_defs)

text \<open>From every state of the table, aborting and then cleaning up ends in \<open>Idle\<close>.\<close>

lemma abort_then_idle:
  assumes "live e1" "live e2" "current m \<in> set ValidStates"
  shows "current (fst (Transition e2 (fst (Transition e1 m StateAborting r1)) StateIdle r2)) = StateIdle"
proof -
  consider "current m = StateIdle" | "current m = StateAborting" | "current m \<noteq> StateIdle" "current m \<noteq> StateAborting" by blast
  then show ?thesis
    by cases (use assms legal_cleanup in \<open>simp_all add: Transition_live_current\<close>)
qed

lemma unwind_idle:
  assumes "\<And>k. live (tr env k)" "current (o_sm orc) \<in> set ValidStates"
  shows "current (o_sm (unwind env orc out b)) = StateIdle"
  using abort_then_idle [of "tr env 3" "tr env 4", OF assms(1,1)] assms(2)
  by (simp add: unwind_def Let_def transition_def case_prod_beta)

definition dispatch_valid :: "run_env \<Rightarrow> bool" where
  "dispatch_valid env \<longleftrightarrow> (\<forall>m. current m \<in> set ValidStates \<longrightarrow> current (fst (dispatch env m)) \<in> set ValidStates)"

lemma valid_states [simp]:
  "StateIdle \<in> set ValidStates" "StateInitializing \<in> set ValidStates" "StateRunning \<in> set ValidStates" "StateAborting \<in> set ValidStates"
  by (simp_all add: ValidStates_def)

text \<open>What is left of a run from a given point: it ends idle, and the log grows by events that are no
  stop, and then the stop.\<close>

definition is_stop :: "orch_event \<Rightarrow> bool" where
  "is_stop e \<longleftrightarrow> (\<exists>out. e = EvStopped out)"

definition ends_well :: "Orchestrator \<Rightarrow> Orchestrator \<times> orch_err option \<Rightarrow> bool" where
  "ends_well orc r \<longleftrightarrow>
     current (o_sm (fst r)) = StateIdle
     \<and> (\<exists>mid out. o_log (fst r) = o_log orc @ mid @ [EvStopped out] \<and> list_all (Not \<circ> is_stop) mid
          \<and> (snd r = None \<longleftrightarrow> out = ''success''))"

lemma unwind_ends_well:
  assumes "\<And>k. live (tr env k)" "stopLands env" "current (o_sm orc) \<in> set ValidStates" "out \<noteq> ''success''"
  shows "ends_well orc (unwind env orc out b, Some e)"
  using unwind_idle [OF assms(1,3)] assms(2,4) unfolding ends_well_def
  by (auto simp: recordStopped_def intro!: exI [of _ "[]"])

lemma ends_well_more:
  assumes "ends_well orc1 r" "o_log orc1 = o_log orc @ mid" "list_all (Not \<circ> is_stop) mid"
  shows "ends_well orc r"
proof -
  obtain mid' out where "o_log (fst r) = o_log orc1 @ mid' @ [EvStopped out]" "list_all (Not \<circ> is_stop) mid'"
    "snd r = None \<longleftrightarrow> out = ''success''" "current (o_sm (fst r)) = StateIdle"
    using assms(1) unfolding ends_well_def by (elim conjE exE) (rule that; assumption)
  with assms(2,3) show ?thesis unfolding ends_well_def
    by (intro conjI exI [of _ "mid @ mid'"] exI [of _ out]) simp_all
qed

lemma transition_log: "transition env k orc to r = (orc', err) \<Longrightarrow> o_log orc' = o_log orc"
  by (auto simp: transition_def split: prod.splits)

lemma transition_frame:
  "transition env k orc to r = (orc', err) \<Longrightarrow> dispatched orc' = dispatched orc \<and> PoolCapacity orc' = PoolCapacity orc"
  by (auto simp: transition_def split: prod.splits)

lemma transition_valid:
  "live (tr env k) \<Longrightarrow> transition env k orc to r = (orc', err) \<Longrightarrow> current (o_sm orc) \<in> set ValidStates \<Longrightarrow> to \<in> set ValidStates
   \<Longrightarrow> current (o_sm orc') \<in> set ValidStates"
  using transition_live [of env k orc to r orc' err] by auto

lemma ends_well_same: "ends_well orc1 r \<Longrightarrow> o_log orc1 = o_log orc \<Longrightarrow> ends_well orc r"
  by (simp add: ends_well_def)

lemma run_finish_ends_well:
  assumes live: "\<And>k. live (tr env k)" and stop: "stopLands env" and st: "current (o_sm orc) \<in> set ValidStates"
  shows "ends_well orc (run_finish env orc derr)"
proof (cases derr)
  case (Some e)
  have "ends_well orc (unwind env orc ''dispatch_failed'' True, Some (DispatchFailed e))"
    by (rule unwind_ends_well) (use live stop st in auto)
  with Some show ?thesis by (simp add: run_finish_def)
next
  case None
  obtain o3 e3 where t: "transition env 2 orc StateIdle ''run-stage4-success'' = (o3, e3)" by (metis surj_pair)
  note s3 = transition_valid [OF live t st] and l3 = transition_log [OF t]
  show ?thesis
  proof (cases e3)
    case (Some e)
    have "ends_well o3 (unwind env o3 ''transition_failed'' True, Some e)"
      by (rule unwind_ends_well) (use live stop s3 in auto)
    with ends_well_same [OF this l3] None Some t show ?thesis by (simp add: run_finish_def)
  next
    case e3: None
    then have "current (o_sm o3) = StateIdle" using transition_live [OF live t] by auto
    with l3 stop have "ends_well orc (recordStopped env o3 ''success'', None)"
      by (auto simp: ends_well_def recordStopped_def intro!: exI [of _ "[]"])
    with None e3 t show ?thesis by (simp add: run_finish_def)
  qed
qed

lemma run_dispatch_ends_well:
  assumes live: "\<And>k. live (tr env k)" and stop: "stopLands env" and val: "dispatch_valid env"
    and st: "current (o_sm orc) \<in> set ValidStates"
  shows "ends_well orc (run_dispatch env orc req w d)"
proof -
  obtain o1 e1 where t: "transition env 1 orc StateRunning ''dispatch-begin'' = (o1, e1)" by (metis surj_pair)
  note s1 = transition_valid [OF live t st] and l1 = transition_log [OF t]
  show ?thesis
  proof (cases e1)
    case (Some e)
    have "ends_well o1 (unwind env o1 ''transition_failed'' False, Some e)"
      by (rule unwind_ends_well) (use live stop s1 in auto)
    with ends_well_same [OF this l1] Some t show ?thesis by (simp add: run_dispatch_def)
  next
    case None
    obtain m de where dd: "dispatch env (o_sm o1) = (m, de)" by (metis surj_pair)
    define o2 where "o2 = o1\<lparr>o_sm := m, dispatched := dispatched o1 @ [\<lparr>dr_Width = w, dr_Depth = d, dr_Doctrine = br_Doctrine req\<rparr>]\<rparr>"
    have "current m \<in> set ValidStates"
      using val [unfolded dispatch_valid_def, rule_format, of "o_sm o1"] s1 dd by simp
    then have "ends_well o2 (run_finish env o2 de)" by (intro run_finish_ends_well live stop) (simp add: o2_def)
    then have "ends_well orc (run_finish env o2 de)" by (rule ends_well_same) (simp add: o2_def l1)
    with None t dd show ?thesis by (simp add: run_dispatch_def o2_def)
  qed
qed

lemma run_sized_ends_well:
  assumes live: "\<And>k. live (tr env k)" and stop: "stopLands env" and val: "dispatch_valid env"
    and st: "current (o_sm orc) \<in> set ValidStates"
  shows "ends_well orc (run_sized env orc req)"
proof -
  have fail: "ends_well orc (unwind env orc out False, Some e)" if "out \<noteq> ''success''" for out e
    by (rule unwind_ends_well) (use live stop st that in auto)
  have denied: "ends_well orc (unwind env (orc\<lparr>o_log := o_log orc @ [EvDepthWidth d w]\<rparr>) ''confirmation_denied'' False, Some e)" for d w e
    by (rule ends_well_more [OF unwind_ends_well, where mid = "[EvDepthWidth d w]"])
      (use live stop st in \<open>auto simp: is_stop_def\<close>)
  have go: "ends_well orc (run_dispatch env (orc\<lparr>o_log := o_log orc @ [EvDepthWidth d w]\<rparr>) req w d)" for d w
    by (rule ends_well_more [OF run_dispatch_ends_well, where mid = "[EvDepthWidth d w]"])
      (use live stop val st in \<open>auto simp: is_stop_def\<close>)
  show ?thesis
    by (auto simp: run_sized_def Let_def intro: fail denied go split: sum.splits option.splits)
qed


text \<open>C14: Nothing is dispatched ungated. If \<open>RunStage4\<close> hands a request to the dispatcher, then, with no
  assumption on the environment, the orchestrator was initialised, the research gate had passed, an
  operator callback, if there is one, had accepted exactly this depth and width, and the one request
  has the least of the doctrine's maximum, the parallelism of the spec and the capacity of the pool as
  its width and the depth \<open>DecideDepth\<close> gives for it.\<close>

theorem dispatch_is_gated:
  assumes "RunStage4 env orc req = (orc', err)" "dispatched orc' \<noteq> dispatched orc"
  shows "initialized orc \<and> research env = None
    \<and> (\<exists>sp w d. br_Spec req = Some sp
         \<and> dispatched orc' = dispatched orc @ [\<lparr>dr_Width = w, dr_Depth = d, dr_Doctrine = br_Doctrine req\<rparr>]
         \<and> w = Min {MaxWidth (DoctrineBoundsFor (br_Doctrine req)), ParallelizableUpperBound sp, PoolCapacity orc} \<and> 0 < w
         \<and> DecideDepth (TaskCount sp) w (MaxDepth (DoctrineBoundsFor (br_Doctrine req))) = Inr d
         \<and> (\<forall>cb. ConfirmationCallback req = Some cb \<longrightarrow> cb d w = None))"
proof -
  have fin: "dispatched (fst (run_finish env oo de)) = dispatched oo" for oo de
    by (auto simp: run_finish_def dest: transition_frame split: option.splits prod.splits)
  have disp: "dispatched (fst (run_dispatch env oo req w d)) = dispatched oo
      \<or> dispatched (fst (run_dispatch env oo req w d)) = dispatched oo @ [\<lparr>dr_Width = w, dr_Depth = d, dr_Doctrine = br_Doctrine req\<rparr>]" for oo w d
    by (auto simp: run_dispatch_def Let_def fin dest: transition_frame split: option.splits prod.splits)
  define o1 where "o1 = orc\<lparr>o_log := o_log orc @ [EvStarted (br_SessionID req) (br_ProjectID req) (br_Autonomy req) (br_Doctrine req)]\<rparr>"
  obtain o2 e2 where t: "transition env 0 o1 StateInitializing ''run-stage4-start'' = (o2, e2)" by (metis surj_pair)
  have o2: "dispatched o2 = dispatched orc" "PoolCapacity o2 = PoolCapacity orc"
    using transition_frame [OF t] by (auto simp: o1_def)
  have init: "initialized orc" "research env = None" "validateBuildRequest req = None" "(orc', err) = run_sized env o2 req"
    using assms t o2 unfolding RunStage4_def o1_def [symmetric] by (auto split: option.splits if_splits)
  obtain sp where sp: "br_Spec req = Some sp"
    using init(3) by (auto simp: validateBuildRequest_def split: if_splits option.splits)
  let ?b = "DoctrineBoundsFor (br_Doctrine req)"
  have orc': "orc' = fst (run_sized env o2 req)" using init(4) by (metis fst_conv)
  obtain w d where wd: "DecideWidth (br_Spec req) (PoolCapacity o2) ?b = Inr w"
    "DecideDepth (TaskCount sp) w (MaxDepth ?b) = Inr d" "Option.bind (ConfirmationCallback req) (\<lambda>cb. cb d w) = None"
    "orc' = fst (run_dispatch env (o2\<lparr>o_log := o_log o2 @ [EvDepthWidth d w]\<rparr>) req w d)"
    using orc' assms(2) o2 sp by (auto simp: run_sized_def Let_def split: sum.splits option.splits)
  have "dispatched orc' = dispatched orc @ [\<lparr>dr_Width = w, dr_Depth = d, dr_Doctrine = br_Doctrine req\<rparr>]"
    using disp [of "o2\<lparr>o_log := o_log o2 @ [EvDepthWidth d w]\<rparr>" w d] wd(4) assms(2) o2(1) by auto
  moreover have "w = Min {MaxWidth ?b, ParallelizableUpperBound sp, PoolCapacity orc}" "0 < w"
    using DecideWidth_min wd(1) sp o2(2) by auto
  moreover have "\<forall>cb. ConfirmationCallback req = Some cb \<longrightarrow> cb d w = None" using wd(3) by auto
  ultimately show ?thesis using init sp wd(2) by blast
qed

lemma run_reaches_dispatch:
  assumes "RunStage4 env orc req = (orc', err)" "dispatched orc' \<noteq> dispatched orc"
  obtains oo o1 m de where "transition env 1 oo StateRunning ''dispatch-begin'' = (o1, None)" "dispatch env (o_sm o1) = (m, de)"
    "\<And>P. (\<And>o2. o_sm o2 = m \<Longrightarrow> P (run_finish env o2 de)) \<Longrightarrow> P (orc', err)"
proof -
  define o1 where "o1 = orc\<lparr>o_log := o_log orc @ [EvStarted (br_SessionID req) (br_ProjectID req) (br_Autonomy req) (br_Doctrine req)]\<rparr>"
  obtain o2 e2 where t: "transition env 0 o1 StateInitializing ''run-stage4-start'' = (o2, e2)" by (metis surj_pair)
  have o2: "dispatched o2 = dispatched orc" using transition_frame [OF t] by (auto simp: o1_def)
  have sized: "(orc', err) = run_sized env o2 req"
    using assms t o2 unfolding RunStage4_def o1_def [symmetric] by (auto split: option.splits if_splits)
  have orc': "orc' = fst (run_sized env o2 req)" using sized by (metis fst_conv)
  obtain w d where wd: "(orc', err) = run_dispatch env (o2\<lparr>o_log := o_log o2 @ [EvDepthWidth d w]\<rparr>) req w d"
    using orc' sized assms(2) o2 by (auto simp: run_sized_def Let_def split: sum.splits option.splits)
  define oo where "oo = o2\<lparr>o_log := o_log o2 @ [EvDepthWidth d w]\<rparr>"
  obtain o3 e3 where t3: "transition env 1 oo StateRunning ''dispatch-begin'' = (o3, e3)" by (metis surj_pair)
  have e3: "e3 = None"
  proof (rule ccontr)
    assume "e3 \<noteq> None"
    then have "dispatched orc' = dispatched o3" using wd t3 unfolding oo_def [symmetric] by (auto simp: run_dispatch_def)
    with transition_frame [OF t3] o2 assms(2) show False by (simp add: oo_def)
  qed
  obtain m de where dd: "dispatch env (o_sm o3) = (m, de)" by (metis surj_pair)
  have "P (orc', err)" if "\<And>o4. o_sm o4 = m \<Longrightarrow> P (run_finish env o4 de)" for P
    using that [of "o3\<lparr>o_sm := m, dispatched := dispatched o3 @ [\<lparr>dr_Width = w, dr_Depth = d, dr_Doctrine = br_Doctrine req\<rparr>]\<rparr>"]
      wd t3 e3 dd unfolding oo_def [symmetric] by (simp add: run_dispatch_def)
  with that t3 e3 dd show thesis by blast
qed

lemma transition_cancelled: "ctx_err (tr env k) \<noteq> None \<Longrightarrow> o_sm (fst (transition env k orc to r)) = o_sm orc"
  by (auto simp: transition_def Transition_def split: option.splits)

lemma run_blocked:
  assumes "\<not> IsLegal (current (o_sm orc)) StateInitializing"
  shows "o_sm (fst (RunStage4 env orc req)) = o_sm orc \<and> dispatched (fst (RunStage4 env orc req)) = dispatched orc"
proof -
  have illegal: "\<exists>e. Transition en (o_sm orc) StateInitializing r = (o_sm orc, Some e)" for en r
    using assms by (auto simp: Transition_def IsLegal_def Let_def split: option.splits)
  define o1 where "o1 = orc\<lparr>o_log := o_log orc @ [EvStarted (br_SessionID req) (br_ProjectID req) (br_Autonomy req) (br_Doctrine req)]\<rparr>"
  have o1: "o_sm o1 = o_sm orc" "dispatched o1 = dispatched orc" by (simp_all add: o1_def)
  obtain e where t: "transition env 0 o1 StateInitializing ''run-stage4-start'' = (o1, Some (TransitionFailed e))"
    using illegal [of "tr env 0" "''run-stage4-start''"] o1(1) by (auto simp: transition_def)
  show ?thesis using t o1 unfolding RunStage4_def o1_def [symmetric] by (simp split: option.splits)
qed

text \<open>A build that is cancelled while it is dispatched leaves the supervisor in \<open>Running\<close>: the
  unwinding transitions use the cancelled context and are all refused, although the log says the
  build stopped. From then on every \<open>RunStage4\<close>, under any environment, is refused without a dispatch,
  until the supervisor is moved by someone else.\<close>

lemma cancelled_build_blocks_the_supervisor:
  assumes "RunStage4 env orc req = (orc', err)" "dispatched orc' \<noteq> dispatched orc"
    and cancelled: "ctx_err (tr env 3) \<noteq> None" "ctx_err (tr env 4) \<noteq> None"
    and disp: "\<forall>m. current m = StateRunning \<longrightarrow> dispatch env m = (m, Some ''context canceled'')"
    and "stopLands env"
  shows "current (o_sm orc') = StateRunning \<and> last (o_log orc') = EvStopped ''dispatch_failed''
    \<and> (\<forall>env' req'. current (o_sm (fst (RunStage4 env' orc' req'))) = StateRunning
         \<and> dispatched (fst (RunStage4 env' orc' req')) = dispatched orc')"
proof -
  obtain oo o1 m de where d: "transition env 1 oo StateRunning ''dispatch-begin'' = (o1, None)" "dispatch env (o_sm o1) = (m, de)"
    and fin: "\<And>P. (\<And>o2. o_sm o2 = m \<Longrightarrow> P (run_finish env o2 de)) \<Longrightarrow> P (orc', err)"
    by (rule run_reaches_dispatch [OF assms(1,2)]) blast
  have "current (o_sm o1) = StateRunning"
    using d(1) by (auto simp: transition_def Transition_def Let_def split: option.splits if_splits prod.splits)
  with disp d(2) have m: "current m = StateRunning" "de = Some ''context canceled''" by auto
  have "o_sm (fst (run_finish env o2 de)) = m \<and> last (o_log (fst (run_finish env o2 de))) = EvStopped ''dispatch_failed''" if "o_sm o2 = m" for o2
    using that m(2) cancelled assms(6)
    by (simp add: run_finish_def unwind_def Let_def transition_cancelled) (simp add: recordStopped_def)
  then have fin2: "o_sm orc' = m" "last (o_log orc') = EvStopped ''dispatch_failed''"
    using fin [of "\<lambda>r. o_sm (fst r) = m \<and> last (o_log (fst r)) = EvStopped ''dispatch_failed''"] by auto
  have "\<not> IsLegal (current (o_sm orc')) StateInitializing"
    using fin2(1) m(1) by (simp add: IsLegal_def TransitionTable_def state_defs)
  then show ?thesis using run_blocked fin2 m(1) by auto
qed

text \<open>The table has no edge from \<open>DegradedTier\<close> to \<open>Idle\<close>: a dispatch that succeeds after the budget
  degraded the session is unwound and reported as failed.\<close>

lemma degraded_success_is_reported_failed:
  assumes "RunStage4 env orc req = (orc', err)" "dispatched orc' \<noteq> dispatched orc" "stopLands env"
    and disp: "\<forall>m. dispatch env m = (m\<lparr>current := StateDegradedTier\<rparr>, None)"
  shows "err \<noteq> None \<and> last (o_log orc') = EvStopped ''transition_failed''"
proof -
  obtain oo o1 m de where "transition env 1 oo StateRunning ''dispatch-begin'' = (o1, None)" and d: "dispatch env (o_sm o1) = (m, de)"
    and fin: "\<And>P. (\<And>o2. o_sm o2 = m \<Longrightarrow> P (run_finish env o2 de)) \<Longrightarrow> P (orc', err)"
    by (rule run_reaches_dispatch [OF assms(1,2)]) blast
  have m: "current m = StateDegradedTier" "de = None" using d disp by auto
  have "\<not> IsLegal StateDegradedTier StateIdle" by (simp add: IsLegal_def TransitionTable_def state_defs)
  then have tm: "\<exists>e. Transition en m StateIdle r = (m, Some e)" for en r
    using m(1) by (auto simp: Transition_def IsLegal_def Let_def split: option.splits)
  have t: "\<exists>e. transition env 2 o2 StateIdle r = (o2, Some e)" if "o_sm o2 = m" for o2 r
    using tm [of "tr env 2" r] that by (auto simp: transition_def)
  have "snd (run_finish env o2 de) \<noteq> None \<and> last (o_log (fst (run_finish env o2 de))) = EvStopped ''transition_failed''" if "o_sm o2 = m" for o2
    using t [OF that, of "''run-stage4-success''"] m(2) assms(3) by (auto simp: run_finish_def recordStopped_def)
  then show ?thesis
    using fin [of "\<lambda>r. snd r \<noteq> None \<and> last (o_log (fst r)) = EvStopped ''transition_failed''"] by auto
qed

text \<open>With every gate passed the request is dispatched, whether or not the orchestrator was shut down:
  \<open>RunStage4\<close> never reads that flag.\<close>

lemma RunStage4_dispatches:
  assumes "current (o_sm orc) = StateIdle" "initialized orc" "validateBuildRequest req = None"
    and "ctx0 env = None" "appStarted env = None" "live (tr env 0)" "live (tr env 1)" "research env = None" "appDepth env = None"
    and "ConfirmationCallback req = None" "br_Spec req = Some sp"
    and "DecideWidth (br_Spec req) (PoolCapacity orc) (DoctrineBoundsFor (br_Doctrine req)) = Inr w"
    and "DecideDepth (TaskCount sp) w (MaxDepth (DoctrineBoundsFor (br_Doctrine req))) = Inr d"
  shows "dispatched (fst (RunStage4 env orc req)) = dispatched orc @ [\<lparr>dr_Width = w, dr_Depth = d, dr_Doctrine = br_Doctrine req\<rparr>]"
proof -
  define o1 where "o1 = orc\<lparr>o_log := o_log orc @ [EvStarted (br_SessionID req) (br_ProjectID req) (br_Autonomy req) (br_Doctrine req)]\<rparr>"
  obtain o2 e2 where t: "transition env 0 o1 StateInitializing ''run-stage4-start'' = (o2, e2)" by (metis surj_pair)
  have leg: "IsLegal StateIdle StateInitializing" "IsLegal StateInitializing StateRunning"
    by (simp_all add: IsLegal_def TransitionTable_def state_defs)
  have o2: "e2 = None" "current (o_sm o2) = StateInitializing" "dispatched o2 = dispatched orc" "PoolCapacity o2 = PoolCapacity orc"
    using transition_live [OF assms(6) t] transition_frame [OF t] leg(1) assms(1) by (auto simp: o1_def)
  define oo where "oo = o2\<lparr>o_log := o_log o2 @ [EvDepthWidth d w]\<rparr>"
  obtain o3 e3 where t3: "transition env 1 oo StateRunning ''dispatch-begin'' = (o3, e3)" by (metis surj_pair)
  have oo: "dispatched oo = dispatched orc" using o2 by (simp add: oo_def)
  have o3: "e3 = None" "dispatched o3 = dispatched orc"
    using transition_live [OF assms(7) t3] transition_frame [OF t3] leg(2) o2 by (auto simp: oo_def)
  have fin: "dispatched (fst (run_finish env o4 de)) = dispatched o4" for o4 de
    by (auto simp: run_finish_def dest: transition_frame split: option.splits prod.splits)
  have "RunStage4 env orc req = run_dispatch env oo req w d"
    using assms t o2 unfolding RunStage4_def o1_def [symmetric] by (simp add: run_sized_def oo_def)
  then show ?thesis using t3 o3 oo fin by (simp add: run_dispatch_def case_prod_beta)
qed

text \<open>\<open>Shutdown\<close> ends, and ends clean: on an initialised orchestrator it returns as soon as one poll
  finds the supervisor \<open>Idle\<close> or the context done, in whatever state of the table that poll finds it,
  and then the supervisor is \<open>Idle\<close> and the orchestrator is marked shut down; the forced path reaches
  \<open>Idle\<close> from every state of the table, and is logged with the state it came from.\<close>

lemma Shutdown_ends_idle:
  assumes "initialized orc" "\<not> o_shutdown orc" "\<forall>k. live (envs k)"
    and "\<forall>(m, c) \<in> set turns. current m \<in> set ValidStates"
    and "\<exists>(m, c) \<in> set turns. current m = StateIdle \<or> c"
  shows "\<exists>orc'. Shutdown envs turns orc = Some orc' \<and> o_shutdown orc' \<and> current (o_sm orc') = StateIdle
    \<and> (o_log orc' = o_log orc \<or> (\<exists>m c. (m, c) \<in> set turns \<and> o_log orc' = o_log orc @ [EvForcedStop (State_String (current m))]))"
proof -
  have force: "current (forceUnwindToIdle envs m out) = StateIdle" if "current m \<in> set ValidStates" for m out
    using legal_cleanup(1) [OF that] legal_cleanup(2) assms(3)
    by (auto simp: forceUnwindToIdle_def Transition_live_current)
  have "\<exists>o1. shutdown_wait envs turns oo = Some o1 \<and> current (o_sm o1) = StateIdle
      \<and> (o_log o1 = o_log oo \<or> (\<exists>m c. (m, c) \<in> set turns \<and> o_log o1 = o_log oo @ [EvForcedStop (State_String (current m))]))" for oo
    using assms(4,5)
  proof (induction turns)
    case (Cons t turns)
    obtain m c where t: "t = (m, c)" by (metis surj_pair)
    show ?case
    proof (cases "current m = StateIdle \<or> c")
      case True
      with Cons.prems(1) t force [of m "''forced_shutdown''"] show ?thesis by auto
    next
      case False
      with Cons t show ?thesis by auto
    qed
  qed simp
  from this [of "orc\<lparr>shutdowns := shutdowns orc + 1\<rparr>"] assms(1,2) show ?thesis
    by (simp add: Shutdown_def) (elim exE conjE, simp)
qed

subsection \<open>A concrete build\<close>

definition demo_orc :: Orchestrator where
  "demo_orc = \<lparr>o_sm = (demo_running\<lparr>current := StateIdle\<rparr>), o_log = [], PoolCapacity = 4, initialized = True, o_shutdown = False,
     poolPrimed = True, dispatched = [], shutdowns = 0\<rparr>"

definition demo_build :: BuildRequest where
  "demo_build = \<lparr>br_SessionID = ''s'', br_ProjectID = ''p'', br_Doctrine = ''default'',
     br_Spec = Some \<lparr>Phases = 1, TaskCount = 10, ParallelizableUpperBound = 6\<rparr>, br_Autonomy = ''full'', ConfirmationCallback = None\<rparr>"

definition demo_run :: "(nat \<Rightarrow> sm_env) \<Rightarrow> (StateMachine \<Rightarrow> StateMachine \<times> string option) \<Rightarrow> run_env" where
  "demo_run trs disp = \<lparr>ctx0 = None, tr = trs, appStarted = None, research = None, appDepth = None, dispatch = disp, stopLands = True\<rparr>"

lemma demo_build_valid: "validateBuildRequest demo_build = None"
  by code_simp

lemma demo_sizes:
  "DecideWidth (br_Spec demo_build) (PoolCapacity demo_orc) (DoctrineBoundsFor (br_Doctrine demo_build)) = Inr 4"
  "DecideDepth 10 4 (MaxDepth (DoctrineBoundsFor (br_Doctrine demo_build))) = Inr 2"
  by code_simp+


text \<open>The demo build reaches the dispatcher whatever happens afterwards.\<close>

lemma demo_dispatches:
  assumes "live (trs 0)" "live (trs 1)"
  shows "dispatched (fst (RunStage4 (demo_run trs disp) demo_orc demo_build)) =
     [\<lparr>dr_Width = 4, dr_Depth = 2, dr_Doctrine = ''default''\<rparr>]"
  using RunStage4_dispatches [of demo_orc demo_build "demo_run trs disp"] assms demo_sizes demo_build_valid
  by (simp add: demo_run_def demo_orc_def demo_build_def)

theorem dispatch_is_gated_witness:
  "\<exists>w d. dispatched (fst (RunStage4 (demo_run (\<lambda>_. live_env) (\<lambda>m. (m, None))) demo_orc demo_build))
       = [\<lparr>dr_Width = w, dr_Depth = d, dr_Doctrine = ''default''\<rparr>] \<and> w = Min {12, 6, 4} \<and> d = 2"
proof -
  let ?env = "demo_run (\<lambda>_. live_env) (\<lambda>m. (m, None))"
  obtain orc' err where r: "RunStage4 ?env demo_orc demo_build = (orc', err)" by (metis surj_pair)
  have d: "dispatched orc' = [\<lparr>dr_Width = 4, dr_Depth = 2, dr_Doctrine = ''default''\<rparr>]"
    using demo_dispatches [of "\<lambda>_. live_env" "\<lambda>m. (m, None)"] r by (simp add: live_env_def live_def)
  then have "dispatched orc' \<noteq> dispatched demo_orc" by (simp add: demo_orc_def)
  from dispatch_is_gated [OF r this] d r show ?thesis
    by (auto simp: demo_build_def DoctrineBoundsFor_def demo_orc_def)
qed

end
