(* ===== verification/Auto_Revert.thy ===== *)
theory Auto_Revert
  imports Go_Float
begin

text \<open>
  Telemetry-driven reverts of doctrine amendments: the bounded per-rule session windows
  (\<open>amendment/aggregator\<close>), the revert cooldown (\<open>revert\_cooldown.go\<close>) and the subscriber that decides
  when an amendment is taken back (\<open>telemetry\_subscriber.go\<close>). The three aggregators of the code (cost,
  merge, recovery) are the same code over the same structure; one definition models them, with the
  category as data. The reverter is an input: whether \<open>AutoRevert\<close> of an ADR succeeds.
\<close>

subsection \<open>Session windows (window.go)\<close>

record SessionRecord =
  SessionID :: string
  Anomaly :: bool
  sr_time :: time
  SourceADR :: string

record WindowState =
  bound :: int
  records :: "SessionRecord list"

definition NewWindowState :: "int \<Rightarrow> WindowState" where
  "NewWindowState b = \<lparr>bound = (if b < 1 then 1 else b), records = []\<rparr>"

definition Record :: "SessionRecord \<Rightarrow> WindowState \<Rightarrow> WindowState" where
  "Record r w =
     (let rs = (if int (length (records w)) \<ge> bound w then tl (records w) else records w)
      in w\<lparr>records := rs @ [r]\<rparr>)"

text \<open>\<open>Evaluate\<close> walks the window from the newest session; the first non-empty source is the last
  amendment applied.\<close>

fun scan_window :: "SessionRecord list \<Rightarrow> int \<Rightarrow> string \<Rightarrow> int \<times> string" where
  "scan_window [] anomalous lastApplied = (anomalous, lastApplied)"
| "scan_window (r # rs) anomalous lastApplied =
     scan_window rs (if Anomaly r then anomalous + 1 else anomalous)
       (if lastApplied = [] \<and> SourceADR r \<noteq> [] then SourceADR r else lastApplied)"

definition Window_Evaluate :: "WindowState \<Rightarrow> f64 \<times> int \<times> string" where
  "Window_Evaluate w =
     (let total = int (length (records w)) in
      if total = 0 then (Fin 1, 0, [])
      else let (anomalous, lastApplied) = scan_window (rev (records w)) 0 []
           in (f_div (f_of_int (total - anomalous)) (f_of_int total), total, lastApplied))"

subsection \<open>Aggregators (cost.go, merge.go, recovery.go)\<close>

record payload_event =
  pe_type :: string
  pe_class :: string

record RuleSpec =
  RulePath :: string
  WindowSessions :: int
  ThresholdPct :: f64
  AnomalousEvents :: "string list"
  PayloadFilter :: "(payload_event \<Rightarrow> bool) option"

record SessionContext =
  sc_session :: string
  sc_time :: time
  LastAppliedADR :: string
  EventsThisSession :: "payload_event list"

record Aggregator =
  agg_rules :: "string \<rightharpoonup> RuleSpec"
  agg_states :: "string \<rightharpoonup> WindowState"

definition NewAggregator :: Aggregator where
  "NewAggregator = \<lparr>agg_rules = (\<lambda>_. None), agg_states = (\<lambda>_. None)\<rparr>"

definition sessionMatchesAnomalousEvents :: "payload_event list \<Rightarrow> string list \<Rightarrow> (payload_event \<Rightarrow> bool) option \<Rightarrow> bool" where
  "sessionMatchesAnomalousEvents events whitelist predicate \<longleftrightarrow>
     (\<exists>ev \<in> set events. pe_type ev \<in> set whitelist \<and> (case predicate of None \<Rightarrow> True | Some f \<Rightarrow> f ev))"

text \<open>\<open>RegisterRule\<close> keeps the window of a rule that is registered again.\<close>

definition RegisterRule :: "RuleSpec \<Rightarrow> Aggregator \<Rightarrow> Aggregator" where
  "RegisterRule spec a =
     a\<lparr>agg_rules := (agg_rules a)(RulePath spec \<mapsto> spec),
       agg_states := (if agg_states a (RulePath spec) = None
         then (agg_states a)(RulePath spec \<mapsto> NewWindowState (WindowSessions spec)) else agg_states a)\<rparr>"

definition RecordSession :: "SessionContext \<Rightarrow> Aggregator \<Rightarrow> Aggregator" where
  "RecordSession ctx a =
     a\<lparr>agg_states := (\<lambda>p.
        case (agg_rules a p, agg_states a p) of
          (Some spec, Some w) \<Rightarrow>
            Some (Record \<lparr>SessionID = sc_session ctx,
              Anomaly = sessionMatchesAnomalousEvents (EventsThisSession ctx) (AnomalousEvents spec) (PayloadFilter spec),
              sr_time = sc_time ctx, SourceADR = LastAppliedADR ctx\<rparr> w)
        | (_, st) \<Rightarrow> st)\<rparr>"

definition Agg_Evaluate :: "Aggregator \<Rightarrow> string \<Rightarrow> f64 \<times> int \<times> string" where
  "Agg_Evaluate a rulePath = (case agg_states a rulePath of None \<Rightarrow> (Fin 1, 0, []) | Some w \<Rightarrow> Window_Evaluate w)"

text \<open>\<open>WorkerFailureClassFilter\<close> applies the classes to the worker events only.\<close>

definition WorkerFailureClassFilter :: "string list \<Rightarrow> payload_event \<Rightarrow> bool" where
  "WorkerFailureClassFilter classes ev \<longleftrightarrow>
     (if pe_type ev = ''worker_death'' \<or> pe_type ev = ''worker_redispatched'' then pe_class ev \<in> set classes else True)"

subsection \<open>The subscriber (telemetry\_subscriber.go)\<close>

datatype tele_event =
    DoctrineRevertSuppressed string string time
  | DoctrineAmendmentApplyFailed string string
  | DoctrineAutonomousReverted string string

text \<open>A dispatched revert: when, which rule and ADR, and the cooldown in effect.\<close>

record revert_entry =
  re_when :: time
  re_rule :: string
  re_adr :: int
  re_cooldown :: duration

record TelemetrySubscriber =
  cooldowns :: "string \<rightharpoonup> time \<times> duration"
  tele_log :: "tele_event list"
  reverts :: "revert_entry list"

definition LastRevertedAt :: "string \<Rightarrow> TelemetrySubscriber \<Rightarrow> time option" where
  "LastRevertedAt rulePath t = map_option fst (cooldowns t rulePath)"

definition MarkReverted :: "string \<Rightarrow> time \<Rightarrow> duration \<Rightarrow> TelemetrySubscriber \<Rightarrow> TelemetrySubscriber" where
  "MarkReverted rulePath when cooldown t = t\<lparr>cooldowns := (cooldowns t)(rulePath \<mapsto> (when, cooldown))\<rparr>"

definition emit_tele :: "tele_event \<Rightarrow> TelemetrySubscriber \<Rightarrow> TelemetrySubscriber" where
  "emit_tele ev t = t\<lparr>tele_log := tele_log t @ [ev]\<rparr>"

record tele_config =
  CapaFirewall :: "(string \<Rightarrow> bool) option"
  Policy :: "(string \<Rightarrow> string \<Rightarrow> duration) option"
  AutoRevert :: "int \<Rightarrow> bool"

definition cooldownFor :: "tele_config \<Rightarrow> string \<Rightarrow> string \<Rightarrow> duration" where
  "cooldownFor cfg projectID rulePath =
     (case Policy cfg of
        Some f \<Rightarrow> (if f projectID rulePath > 0 then f projectID rulePath else 24 * hour)
      | None \<Rightarrow> 24 * hour)"

definition cooldownActive :: "string \<Rightarrow> time \<Rightarrow> duration \<Rightarrow> TelemetrySubscriber \<Rightarrow> bool" where
  "cooldownActive rulePath now cooldown t =
     (case LastRevertedAt rulePath t of None \<Rightarrow> False | Some when \<Rightarrow> tsub now when < cooldown)"

fun adr_digits :: "int \<Rightarrow> string \<Rightarrow> int option" where
  "adr_digits n [] = Some n"
| "adr_digits n (c # cs) =
     (if c < CHR ''0'' \<or> c > CHR ''9'' then None else adr_digits (i64 (n * 10 + (of_char c - 48))) cs)"

definition parseADRID :: "string \<Rightarrow> int option" where
  "parseADRID s =
     (if s = [] then None
      else adr_digits 0 (if length s > 4 \<and> take 4 s = ''ADR-'' then drop 4 s else s))"

text \<open>\<open>evaluateRule\<close>: the result tells whether a revert was dispatched.\<close>

definition dispatch_revert :: "tele_config \<Rightarrow> string \<Rightarrow> string \<Rightarrow> time \<Rightarrow> duration \<Rightarrow> TelemetrySubscriber \<Rightarrow> bool \<times> TelemetrySubscriber" where
  "dispatch_revert cfg rulePath lastApplied now cooldown t =
     (case parseADRID lastApplied of
        None \<Rightarrow> (False, emit_tele (DoctrineAmendmentApplyFailed lastApplied ''auto-revert-parse'') t)
      | Some adrID \<Rightarrow>
          if \<not> AutoRevert cfg adrID then (False, emit_tele (DoctrineAmendmentApplyFailed lastApplied ''auto-revert'') t)
          else (True, emit_tele (DoctrineAutonomousReverted lastApplied rulePath)
                 ((MarkReverted rulePath now cooldown t)\<lparr>reverts := reverts t @
                    [\<lparr>re_when = now, re_rule = rulePath, re_adr = adrID, re_cooldown = cooldown\<rparr>]\<rparr>)))"

definition evaluateRule :: "tele_config \<Rightarrow> string \<Rightarrow> Aggregator \<Rightarrow> time \<Rightarrow> RuleSpec \<Rightarrow> TelemetrySubscriber \<Rightarrow> bool \<times> TelemetrySubscriber" where
  "evaluateRule cfg projectID agg now rule t =
     (case Agg_Evaluate agg (RulePath rule) of (pct, sessions, lastApplied) \<Rightarrow>
        if sessions < WindowSessions rule then (False, t)
        else if f_le (ThresholdPct rule) pct then (False, t)
        else if lastApplied = [] then (False, t)
        else let cooldown = cooldownFor cfg projectID (RulePath rule) in
          if cooldownActive (RulePath rule) now cooldown t
          then (False, emit_tele (DoctrineRevertSuppressed lastApplied (RulePath rule) now) t)
          else dispatch_revert cfg (RulePath rule) lastApplied now cooldown t)"

text \<open>\<open>EvaluateProject\<close> over the rules of the aggregators, in the order of the iteration.\<close>

fun evaluate_rules :: "tele_config \<Rightarrow> string \<Rightarrow> time \<Rightarrow> (Aggregator \<times> RuleSpec) list \<Rightarrow> nat \<Rightarrow> TelemetrySubscriber
    \<Rightarrow> nat \<times> TelemetrySubscriber" where
  "evaluate_rules cfg projectID now [] n t = (n, t)"
| "evaluate_rules cfg projectID now ((agg, rule) # rs) n t =
     (case evaluateRule cfg projectID agg now rule t of
        (fired, t') \<Rightarrow> evaluate_rules cfg projectID now rs (if fired then Suc n else n) t')"

definition EvaluateProject :: "tele_config \<Rightarrow> string \<Rightarrow> time \<Rightarrow> (Aggregator \<times> RuleSpec) list \<Rightarrow> TelemetrySubscriber
    \<Rightarrow> nat \<times> TelemetrySubscriber" where
  "EvaluateProject cfg projectID now rules t =
     (if (case CapaFirewall cfg of None \<Rightarrow> False | Some probe \<Rightarrow> probe projectID) then (0, t)
      else evaluate_rules cfg projectID now rules 0 t)"

subsection \<open>Windows hold the latest sessions\<close>

fun record_all :: "SessionRecord list \<Rightarrow> WindowState \<Rightarrow> WindowState" where
  "record_all [] w = w"
| "record_all (r # rs) w = record_all rs (Record r w)"

lemma Record_records:
  assumes "1 \<le> bound w" "int (length (records w)) \<le> bound w"
  shows "records (Record r w) = drop (length (records w @ [r]) - nat (bound w)) (records w @ [r])"
    and "bound (Record r w) = bound w" and "int (length (records (Record r w))) \<le> bound w"
proof -
  show "records (Record r w) = drop (length (records w @ [r]) - nat (bound w)) (records w @ [r])"
  proof (cases "int (length (records w)) = bound w")
    case True
    then have "nat (bound w) = length (records w)" by simp
    moreover have "records w \<noteq> []" using True assms(1) by auto
    ultimately show ?thesis using True by (cases "records w") (simp_all add: Record_def Let_def)
  next
    case False
    then have "length (records w @ [r]) - nat (bound w) = 0" using assms by simp
    with False assms(2) show ?thesis by (simp add: Record_def Let_def)
  qed
  show "bound (Record r w) = bound w" "int (length (records (Record r w))) \<le> bound w"
    using assms by (auto simp: Record_def Let_def)
qed

lemma record_all_suffix:
  assumes "1 \<le> bound w" "records w = drop (length hs - nat (bound w)) hs"
  shows "records (record_all rs w) = drop (length (hs @ rs) - nat (bound w)) (hs @ rs)"
  using assms
proof (induction rs arbitrary: hs w)
  case (Cons r rs)
  have len: "int (length (records w)) \<le> bound w" using Cons.prems by simp
  have "records (Record r w) = drop (length (hs @ [r]) - nat (bound w)) (hs @ [r])"
  proof (cases "length hs < nat (bound w)")
    case True
    then show ?thesis using Record_records(1) [OF Cons.prems(1) len, of r] Cons.prems(2) by simp
  next
    case False
    then have "length (records w) = nat (bound w)" using Cons.prems by simp
    then have "records (Record r w) = drop 1 (drop (length hs - nat (bound w)) hs @ [r])"
      using Record_records(1) [OF Cons.prems(1) len, of r] Cons.prems(2) by simp
    also have "\<dots> = drop (length (hs @ [r]) - nat (bound w)) (hs @ [r])"
      using False Cons.prems(1) by (simp add: Suc_diff_le drop_append)
    finally show ?thesis .
  qed
  with Cons.IH [of "Record r w" "hs @ [r]"] Record_records(2) [OF Cons.prems(1) len, of r] Cons.prems(1)
  show ?case by simp
qed simp

lemma scan_window_eq:
  "scan_window rs n src = (n + int (length (filter Anomaly rs)),
     if src = [] then (case filter (\<lambda>r. SourceADR r \<noteq> []) rs of [] \<Rightarrow> [] | r # _ \<Rightarrow> SourceADR r) else src)"
  by (induction rs n src rule: scan_window.induct) (auto split: list.splits)

subsection \<open>Cooldown\<close>

text \<open>Consecutive reverts of a rule are at least the cooldown of the later one apart.\<close>

definition latest :: "string \<Rightarrow> revert_entry list \<Rightarrow> time option" where
  "latest p es = (case filter (\<lambda>e. re_rule e = p) (rev es) of [] \<Rightarrow> None | e # _ \<Rightarrow> Some (re_when e))"

fun spaced :: "revert_entry list \<Rightarrow> revert_entry list \<Rightarrow> bool" where
  "spaced before [] \<longleftrightarrow> True"
| "spaced before (e # es) \<longleftrightarrow>
     (case latest (re_rule e) before of None \<Rightarrow> True | Some t \<Rightarrow> re_cooldown e \<le> re_when e - t) \<and> spaced (before @ [e]) es"

definition tele_inv :: "TelemetrySubscriber \<Rightarrow> bool" where
  "tele_inv t \<longleftrightarrow> spaced [] (reverts t) \<and> (\<forall>p. LastRevertedAt p t = latest p (reverts t))
     \<and> (\<forall>e \<in> set (reverts t). 0 < re_cooldown e)"

lemma spaced_snoc: "spaced b (es @ [e]) \<longleftrightarrow> spaced b es
    \<and> (case latest (re_rule e) (b @ es) of None \<Rightarrow> True | Some t \<Rightarrow> re_cooldown e \<le> re_when e - t)"
  by (induction es arbitrary: b) auto

lemma latest_snoc: "latest p (es @ [e]) = (if re_rule e = p then Some (re_when e) else latest p es)"
  by (simp add: latest_def)

lemma tsub_ge: "d \<le> tsub a b \<Longrightarrow> - (2 ^ 63) < d \<Longrightarrow> d \<le> a - b"
  by (auto simp: tsub_def)

lemma cooldownFor_pos: "0 < cooldownFor cfg pid p"
  by (auto simp: cooldownFor_def split: option.splits)

lemma emit_tele_inv [simp]: "tele_inv (emit_tele ev t) = tele_inv t" "reverts (emit_tele ev t) = reverts t"
  by (simp_all add: tele_inv_def emit_tele_def LastRevertedAt_def)

lemma evaluateRule_inv:
  assumes "tele_inv t"
  shows "tele_inv (snd (evaluateRule cfg pid agg now rule t))"
proof -
  let ?cd = "cooldownFor cfg pid (RulePath rule)"
  have "tele_inv (snd (dispatch_revert cfg (RulePath rule) src now ?cd t))"
    if "\<not> cooldownActive (RulePath rule) now ?cd t" for src
  proof -
    have "case latest (RulePath rule) (reverts t) of None \<Rightarrow> True | Some w \<Rightarrow> ?cd \<le> now - w"
      using that assms tsub_ge [of ?cd now] cooldownFor_pos [of cfg pid "RulePath rule"]
      by (auto simp: cooldownActive_def tele_inv_def not_less split: option.splits)
    with assms cooldownFor_pos [of cfg pid "RulePath rule"] show ?thesis
      by (auto simp: dispatch_revert_def tele_inv_def spaced_snoc latest_snoc MarkReverted_def LastRevertedAt_def emit_tele_def
          split: option.splits)
  qed
  with assms show ?thesis by (auto simp: evaluateRule_def Let_def split: prod.splits)
qed

lemma evaluate_rules_inv: "tele_inv t \<Longrightarrow> tele_inv (snd (evaluate_rules cfg pid now rs n t))"
proof (induction rs arbitrary: n t)
  case (Cons x rs)
  obtain agg rule where "x = (agg, rule)" by (cases x)
  with Cons.IH evaluateRule_inv [OF Cons.prems, of cfg pid agg now rule] show ?case by (simp add: case_prod_beta)
qed simp

lemma EvaluateProject_inv: "tele_inv t \<Longrightarrow> tele_inv (snd (EvaluateProject cfg pid now rules t))"
  by (simp add: EvaluateProject_def evaluate_rules_inv)

inductive tele_step :: "tele_config \<Rightarrow> TelemetrySubscriber \<Rightarrow> TelemetrySubscriber \<Rightarrow> bool" for cfg where
  "tele_step cfg t (snd (EvaluateProject cfg projectID now rules t))"

definition tele_init :: "TelemetrySubscriber \<Rightarrow> bool" where
  "tele_init t \<longleftrightarrow> cooldowns t = (\<lambda>_. None) \<and> reverts t = []"

interpretation tele: safety tele_init "tele_step cfg" tele_inv for cfg
proof
  show "tele_init t \<Longrightarrow> tele_inv t" for t by (simp add: tele_init_def tele_inv_def LastRevertedAt_def latest_def)
  show "tele_inv t \<Longrightarrow> tele_step cfg t t' \<Longrightarrow> tele_inv t'" for t t'
    by (auto elim!: tele_step.cases intro: EvaluateProject_inv)
qed

subsection \<open>Properties\<close>

lemma spaced_nth:
  assumes "spaced b es" "j < length es" "latest (re_rule (es ! j)) (b @ take j es) = Some t"
  shows "re_cooldown (es ! j) \<le> re_when (es ! j) - t"
  using assms
proof (induction es arbitrary: b j)
  case (Cons e es)
  then show ?case by (cases j) auto
qed simp

lemma latest_at:
  assumes "i < j" "j \<le> length es" "re_rule (es ! i) = p" "\<forall>k. i < k \<longrightarrow> k < j \<longrightarrow> re_rule (es ! k) \<noteq> p"
  shows "latest p (take j es) = Some (re_when (es ! i))"
  using assms
proof (induction j)
  case (Suc j)
  then have t: "take (Suc j) es = take j es @ [es ! j]" by (simp add: take_Suc_conv_app_nth)
  show ?case
  proof (cases "i = j")
    case False
    with Suc.prems have "latest p (take j es) = Some (re_when (es ! i))" by (intro Suc.IH) auto
    with Suc.prems False show ?thesis by (simp add: t latest_snoc)
  qed (use Suc.prems in \<open>simp add: t latest_snoc\<close>)
qed simp


text \<open>A rule with one anomalous session that an amendment applied before.\<close>

definition demo_rule :: RuleSpec where
  "demo_rule = \<lparr>RulePath = ''Merge.Mode'', WindowSessions = 1, ThresholdPct = Fin (1 / 2),
     AnomalousEvents = [''worker_death''], PayloadFilter = None\<rparr>"

definition demo_agg :: Aggregator where
  "demo_agg = RecordSession \<lparr>sc_session = ''s'', sc_time = 1, LastAppliedADR = ''ADR-0020'',
     EventsThisSession = [\<lparr>pe_type = ''worker_death'', pe_class = []\<rparr>]\<rparr> (RegisterRule demo_rule NewAggregator)"

definition demo_cfg :: tele_config where
  "demo_cfg = \<lparr>CapaFirewall = Some (\<lambda>p. p = ''vault''), Policy = None, AutoRevert = (\<lambda>_. True)\<rparr>"

definition demo_sub :: TelemetrySubscriber where
  "demo_sub = \<lparr>cooldowns = (\<lambda>_. None), tele_log = [], reverts = []\<rparr>"

lemma f_zero_over_one: "f_div (f_of_int 0) (f_of_int 1) = Fin 0"
  by (simp add: f_of_int_small f_round_id)

lemma demo_evaluate: "Agg_Evaluate demo_agg ''Merge.Mode'' = (Fin 0, 1, ''ADR-0020'')"
  by (simp add: Agg_Evaluate_def demo_agg_def RecordSession_def RegisterRule_def NewAggregator_def demo_rule_def
      Window_Evaluate_def Record_def NewWindowState_def sessionMatchesAnomalousEvents_def f_zero_over_one)

lemma demo_adr: "parseADRID ''ADR-0020'' = Some 20"
  by code_simp

lemma demo_fires:
  assumes "\<not> cooldownActive ''Merge.Mode'' now (24 * hour) t"
  shows "reverts (snd (EvaluateProject demo_cfg ''p'' now [(demo_agg, demo_rule)] t))
    = reverts t @ [\<lparr>re_when = now, re_rule = ''Merge.Mode'', re_adr = 20, re_cooldown = 24 * hour\<rparr>]"
  using assms demo_adr
  by (simp add: EvaluateProject_def demo_cfg_def evaluateRule_def demo_rule_def demo_evaluate cooldownFor_def Let_def
      dispatch_revert_def MarkReverted_def)

text \<open>Once the cooldown is over, the same sessions make the subscriber revert the same amendment again:
  nothing clears a window after a revert.\<close>

lemma revert_repeats_on_stale_sessions:
  assumes "24 * hour \<le> t2 - t1" "t2 - t1 < 2 ^ 63"
  shows "map re_adr (reverts (snd (EvaluateProject demo_cfg ''p'' t2 [(demo_agg, demo_rule)]
    (snd (EvaluateProject demo_cfg ''p'' t1 [(demo_agg, demo_rule)] demo_sub))))) = [20, 20]"
proof -
  let ?t = "snd (EvaluateProject demo_cfg ''p'' t1 [(demo_agg, demo_rule)] demo_sub)"
  have first: "\<not> cooldownActive ''Merge.Mode'' t1 (24 * hour) demo_sub"
    by (simp add: cooldownActive_def LastRevertedAt_def demo_sub_def)
  have "LastRevertedAt ''Merge.Mode'' ?t = Some t1"
    using demo_adr first by (simp add: EvaluateProject_def demo_cfg_def evaluateRule_def demo_rule_def demo_evaluate cooldownFor_def Let_def
      dispatch_revert_def MarkReverted_def emit_tele_def LastRevertedAt_def)
  then have "\<not> cooldownActive ''Merge.Mode'' t2 (24 * hour) ?t"
    using assms by (simp add: cooldownActive_def tsub_def)
  from demo_fires [OF this] demo_fires [OF first] show ?thesis by (simp add: demo_sub_def)
qed


text \<open>What a rule is judged by: after any history of sessions a window of capacity \<open>b\<close> evaluates
  to the number of the latest at most \<open>b\<close> sessions, the fraction of them without anomaly as a
  \<open>float64\<close>, and the amendment named by the most recent of them that names one.\<close>

lemma window_evaluates_latest_sessions:
  fixes b :: int and history :: "SessionRecord list"
  defines "recent \<equiv> drop (length history - nat (max 1 b)) history"
  shows "Window_Evaluate (record_all history (NewWindowState b)) =
    (if history = [] then (Fin 1, 0, [])
     else (f_div (f_of_int (int (length (filter (\<lambda>r. \<not> Anomaly r) recent)))) (f_of_int (int (length recent))),
       int (length recent),
       (case filter (\<lambda>r. SourceADR r \<noteq> []) (rev recent) of [] \<Rightarrow> [] | r # _ \<Rightarrow> SourceADR r)))"
proof -
  have b: "bound (NewWindowState b) = max 1 b" by (simp add: NewWindowState_def)
  have recs: "records (record_all history (NewWindowState b)) = recent"
    using record_all_suffix [of "NewWindowState b" "[]" history] by (simp add: recent_def b) (simp add: NewWindowState_def)
  have "1 \<le> nat (max 1 b)" by simp
  then have "recent = [] \<longleftrightarrow> history = []" by (cases history) (auto simp: recent_def)
  moreover have "int (length recent) - int (length (filter Anomaly (rev recent))) = int (length (filter (\<lambda>r. \<not> Anomaly r) recent))"
    using sum_length_filter_compl [of Anomaly recent] by (simp flip: rev_filter)
  ultimately show ?thesis by (simp add: Window_Evaluate_def recs Let_def scan_window_eq)
qed

text \<open>Registering a rule again with a larger window keeps the old one, which can never hold enough
  sessions: the rule is never evaluated again.\<close>

lemma Record_bounded: "1 \<le> bound w \<Longrightarrow> int (length (records w)) \<le> bound w \<Longrightarrow>
    1 \<le> bound (Record r w) \<and> int (length (records (Record r w))) \<le> bound w \<and> bound (Record r w) = bound w"
  using Record_records(2,3) by simp

fun sessions :: "SessionContext list \<Rightarrow> Aggregator \<Rightarrow> Aggregator" where
  "sessions [] a = a"
| "sessions (c # cs) a = sessions cs (RecordSession c a)"

lemma sessions_bounded:
  assumes "\<exists>w. agg_states a p = Some w \<and> bound w = b \<and> 1 \<le> b \<and> int (length (records w)) \<le> b"
  shows "\<exists>w. agg_states (sessions cs a) p = Some w \<and> bound w = b \<and> 1 \<le> b \<and> int (length (records w)) \<le> b"
  using assms
proof (induction cs arbitrary: a)
  case (Cons c cs)
  have "\<exists>w. agg_states (RecordSession c a) p = Some w \<and> bound w = b \<and> 1 \<le> b \<and> int (length (records w)) \<le> b"
    using Cons.prems Record_bounded by (fastforce simp: RecordSession_def split: option.splits)
  with Cons.IH show ?case by simp
qed simp

lemma reregistered_rule_never_fires:
  assumes "RulePath s1 = RulePath s2" "max 1 (WindowSessions s1) < WindowSessions s2"
  shows "evaluateRule cfg pid (sessions cs (RegisterRule s2 (RegisterRule s1 NewAggregator))) now s2 t = (False, t)"
proof -
  let ?a = "RegisterRule s2 (RegisterRule s1 NewAggregator)"
  have "\<exists>w. agg_states ?a (RulePath s2) = Some w \<and> bound w = max 1 (WindowSessions s1)
      \<and> 1 \<le> max 1 (WindowSessions s1) \<and> int (length (records w)) \<le> max 1 (WindowSessions s1)"
    using assms(1) by (auto simp: RegisterRule_def NewAggregator_def NewWindowState_def)
  from sessions_bounded [OF this, of cs] obtain w where w: "agg_states (sessions cs ?a) (RulePath s2) = Some w"
    "int (length (records w)) \<le> max 1 (WindowSessions s1)" by blast
  have "fst (snd (Window_Evaluate w)) = int (length (records w))" by (simp add: Window_Evaluate_def Let_def case_prod_beta)
  with w assms(2) show ?thesis by (auto simp: evaluateRule_def Agg_Evaluate_def split: prod.splits)
qed


end
