(* ===== verification/Doctrine_Schema.thy ===== *)
theory Doctrine_Schema
  imports Hades_Prelude
begin

text \<open>
  The doctrine schema (\<open>internal/doctrine/schema/v1\<close>): the configuration values that bound the
  whole system, what makes one valid, and when a project's copy is at most as permissive as the
  baseline it overrides.

  The Go code works on the schema by reflection, so the model has Go's reflected view of it: \<open>gotype\<close>
  is a type descriptor whose struct fields carry their name, their \<open>tighten\<close> tag and their type,
  \<open>goval\<close> a value, and the struct declarations of \<open>schema.go\<close> are constants of type \<open>gotype\<close>. Values of
  a type are those of \<open>has_type\<close>; the integers among them are 64-bit. The operations read tags, split
  paths and look fields up by name as the code does. Texts of errors are kept as data (path,
  direction, values, missing elements), not as formatted strings.
\<close>

subsection \<open>Strings\<close>

text \<open>\<open>strings.CutPrefix\<close> and \<open>strconv.Atoi\<close>.\<close>

fun CutPrefix :: "string \<Rightarrow> string \<Rightarrow> string option" where
  "CutPrefix s [] = Some s"
| "CutPrefix [] (p # ps) = None"
| "CutPrefix (x # xs) (p # ps) = (if x = p then CutPrefix xs ps else None)"

definition digits :: "string \<Rightarrow> bool" where
  "digits s \<longleftrightarrow> s \<noteq> [] \<and> list_all (\<lambda>c. CHR ''0'' \<le> c \<and> c \<le> CHR ''9'') s"

definition Atoi :: "string \<Rightarrow> int option" where
  "Atoi s =
     (let neg = (s \<noteq> [] \<and> hd s = CHR ''-'');
          ds = (if s \<noteq> [] \<and> (hd s = CHR ''-'' \<or> hd s = CHR ''+'') then tl s else s);
          n = (if neg then - int (undec 0 ds) else int (undec 0 ds))
      in if digits ds \<and> in_i64 n then Some n else None)"

subsection \<open>Reflection\<close>

datatype gotype = TInt | TBool | TString | TSlice gotype
  | TStruct "(string \<times> string \<times> gotype) list"

datatype goval = VInt int | VBool bool | VString string | VSlice "goval list"
  | VStruct "(string \<times> goval) list"

fun has_type :: "goval \<Rightarrow> gotype \<Rightarrow> bool"
  and has_fields :: "(string \<times> goval) list \<Rightarrow> (string \<times> string \<times> gotype) list \<Rightarrow> bool" where
  "has_type (VInt n) TInt \<longleftrightarrow> in_i64 n"
| "has_type (VBool b) TBool \<longleftrightarrow> True"
| "has_type (VString s) TString \<longleftrightarrow> True"
| "has_type (VSlice vs) (TSlice t) \<longleftrightarrow> (\<forall>v \<in> set vs. has_type v t)"
| "has_type (VStruct fs) (TStruct ts) \<longleftrightarrow> has_fields fs ts"
| "has_type _ _ \<longleftrightarrow> False"
| "has_fields [] [] \<longleftrightarrow> True"
| "has_fields ((n, v) # fs) ((m, tag, t) # ts) \<longleftrightarrow> n = m \<and> has_type v t \<and> has_fields fs ts"
| "has_fields _ _ \<longleftrightarrow> False"

fun is_struct :: "gotype \<Rightarrow> bool" where
  "is_struct (TStruct _) \<longleftrightarrow> True" | "is_struct _ \<longleftrightarrow> False"

fun is_slice :: "gotype \<Rightarrow> bool" where
  "is_slice (TSlice _) \<longleftrightarrow> True" | "is_slice _ \<longleftrightarrow> False"

text \<open>\<open>FieldByName\<close>, and \<open>lookupField\<close> along a dotted path.\<close>

fun FieldByName :: "goval \<Rightarrow> string \<Rightarrow> goval option" where
  "FieldByName (VStruct fs) n = map_of fs n"
| "FieldByName _ n = None"

fun lookup_parts :: "goval \<Rightarrow> string list \<Rightarrow> goval option" where
  "lookup_parts v [] = Some v"
| "lookup_parts v (p # ps) = (case FieldByName v p of None \<Rightarrow> None | Some w \<Rightarrow> lookup_parts w ps)"

definition lookupField :: "goval \<Rightarrow> string \<Rightarrow> goval option" where
  "lookupField v path = lookup_parts v (Split path CHR ''.'')"

subsection \<open>The schema (schema.go)\<close>

definition WorkforceRecoveryConfig :: gotype where
  "WorkforceRecoveryConfig = TStruct
    [(''TransientRetryBudget'', ''decrease'', TInt),
     (''PermanentInfraEscalate'', ''rank:auto-restart,operator-notify,abort'', TString),
     (''DoctrineRetryBudget'', ''decrease'', TInt)]"

definition WorkforceConfig :: gotype where
  "WorkforceConfig = TStruct
    [(''MinDepth'', ''increase'', TInt),
     (''MaxDepth'', ''decrease'', TInt),
     (''MaxWidthPerLayer'', ''decrease'', TInt),
     (''Recovery'', ''-'', WorkforceRecoveryConfig)]"

definition HRAConfig :: gotype where
  "HRAConfig = TStruct
    [(''LayersEnabled'', ''add-only'', TSlice TInt),
     (''CadenceTacticalMin'', ''decrease'', TInt),
     (''CadenceStrategicMin'', ''decrease'', TInt),
     (''CadenceArchitecturalMin'', ''decrease'', TInt),
     (''ReviewerToWorkerRatio'', ''decrease'', TInt)]"

definition ResearchConfig :: gotype where
  "ResearchConfig = TStruct
    [(''Enabled'', ''truth'', TBool),
     (''MaxBudgetPerSession'', ''decrease'', TInt),
     (''SOTAOrchestratorEnforced'', ''truth'', TBool)]"

definition TestTiersConfig :: gotype where
  "TestTiersConfig = TStruct
    [(''Enabled'', ''add-only'', TSlice TString)]"

definition GatesConfig :: gotype where
  "GatesConfig = TStruct
    [(''TestTiers'', ''-'', TestTiersConfig),
     (''CoverageMinPct'', ''increase'', TInt)]"

definition ReviewConfig :: gotype where
  "ReviewConfig = TStruct
    [(''HiveCadenceMin'', ''decrease'', TInt),
     (''RotateReviewerEvery'', ''decrease'', TInt),
     (''RequireDualReview'', ''truth'', TBool)]"

definition TransverseConfig :: gotype where
  "TransverseConfig = TStruct
    [(''NoTechDebt'', ''truth'', TBool),
     (''NoStubs'', ''truth'', TBool),
     (''BuildFinalProduct'', ''truth'', TBool),
     (''NoDefer'', ''truth'', TBool)]"

definition ConfirmationPolicyConfig :: gotype where
  "ConfirmationPolicyConfig = TStruct
    [(''BudgetBreachThreshold'', ''rank:low,medium,high'', TString),
     (''SpecAmendmentProposal'', ''rank:low,medium,high'', TString),
     (''InvariantViolation'', ''rank:low,medium,high'', TString),
     (''ArchitecturalReviewEscalation'', ''rank:low,medium,high'', TString)]"

definition VotingConfig :: gotype where
  "VotingConfig = TStruct
    [(''PluralityThresholdPct'', ''increase'', TInt),
     (''FMVEnable'', ''truth'', TBool),
     (''EMSEnable'', ''bidirectional'', TBool)]"

definition CostDegradationConfig :: gotype where
  "CostDegradationConfig = TStruct
    [(''SoftCheckUSD'', ''decrease'', TInt),
     (''HardStopUSD'', ''decrease'', TInt),
     (''DegradeStrategy'', ''rank:abort,downshift-tier,fallback-summary'', TString)]"

definition AutonomyConfig :: gotype where
  "AutonomyConfig = TStruct
    [(''Mode'', ''rank:assisted,agent,pure'', TString),
     (''CheckMode'', ''rank:strict,permissive,off'', TString),
     (''ConfirmationPolicy'', ''-'', ConfirmationPolicyConfig),
     (''Voting'', ''-'', VotingConfig),
     (''CostDegradation'', ''-'', CostDegradationConfig),
     (''AmendmentCooldownH'', ''increase'', TInt)]"

definition MergeScoringWeights :: gotype where
  "MergeScoringWeights = TStruct
    [(''TestPass'', ''increase'', TInt),
     (''LintPass'', ''increase'', TInt),
     (''Coverage'', ''increase'', TInt),
     (''Diff'', ''decrease'', TInt),
     (''Duration'', ''decrease'', TInt)]"

definition MergeConfig :: gotype where
  "MergeConfig = TStruct
    [(''Mode'', ''rank:strict,balanced,lenient'', TString),
     (''ScoringWeights'', ''-'', MergeScoringWeights),
     (''AnomalyThresholdPct'', ''decrease'', TInt),
     (''AnomalyWindowMin'', ''decrease'', TInt),
     (''MaxCandidates'', ''decrease'', TInt)]"

definition CaronteConfig :: gotype where
  "CaronteConfig = TStruct
    [(''BranchPolicy'', ''rank:strict,balanced,lenient'', TString),
     (''HRAReviewEnabled'', ''truth'', TBool)]"

definition SeverityPerDoctrineConfig :: gotype where
  "SeverityPerDoctrineConfig = TStruct
    [(''ActionNeededPromotesToUrgent'', ''truth'', TBool),
     (''UrgentBypassesQuietHours'', ''truth'', TBool),
     (''InfoImmediateDuringQuiet'', ''rank:queue,deliver,drop'', TString)]"

definition NotificationsConfig :: gotype where
  "NotificationsConfig = TStruct
    [(''SeverityPerDoctrine'', ''-'', SeverityPerDoctrineConfig),
     (''QuietHoursStart'', ''bidirectional'', TString),
     (''QuietHoursEnd'', ''bidirectional'', TString)]"

definition HadesDayCadenceConfig :: gotype where
  "HadesDayCadenceConfig = TStruct
    [(''MorningBriefCron'', ''bidirectional'', TString),
     (''MorningBriefIfWithinHours'', ''decrease'', TInt),
     (''EODDigestCron'', ''bidirectional'', TString),
     (''EODDigestIfWithinHours'', ''decrease'', TInt)]"

definition QuotaConfig :: gotype where
  "QuotaConfig = TStruct
    [(''MaxConcurrentTasks'', ''decrease'', TInt),
     (''MaxDailyBudgetUSD'', ''decrease'', TInt),
     (''MaxStorageGB'', ''decrease'', TInt)]"

definition TmuxConfig :: gotype where
  "TmuxConfig = TStruct
    [(''IdleTTLMin'', ''decrease'', TInt),
     (''AutoReap'', ''truth'', TBool)]"

definition SchedulingConfig :: gotype where
  "SchedulingConfig = TStruct
    [(''MissPolicy'', ''rank:skip,catchup,catchup-bounded'', TString),
     (''MissCatchupMaxJobs'', ''decrease'', TInt)]"

definition WFQConfig :: gotype where
  "WFQConfig = TStruct
    [(''ProjectWeightDefault'', ''bidirectional'', TInt),
     (''StarvationGuardSec'', ''decrease'', TInt),
     (''OvercommitPolicy'', ''rank:reject,queue,degrade'', TString)]"

definition KnowledgeConfig :: gotype where
  "KnowledgeConfig = TStruct
    [(''HiveDocCadenceHours'', ''decrease'', TInt),
     (''ObsidianVaultPath'', ''truth'', TString),
     (''CrossProjectAggr'', ''truth'', TBool)]"

definition GatewayConfig :: gotype where
  "GatewayConfig = TStruct
    [(''DisabledTools'', ''add-only'', TSlice TString)]"

definition AugmentationConfig :: gotype where
  "AugmentationConfig = TStruct
    [(''Enable'', ''truth'', TBool),
     (''MaxKGTokens'', ''decrease'', TInt),
     (''TimeoutMs'', ''decrease'', TInt),
     (''OnTimeout'', ''truth'', TString),
     (''CrossProjectScope'', ''rank:forbidden,opt-in,open'', TString)]"

definition RenderersConfig :: gotype where
  "RenderersConfig = TStruct
    [(''EnabledPlatforms'', ''-'', TSlice TString),
     (''VoiceTTSEnabled'', ''truth'', TBool)]"

definition Schema :: gotype where
  "Schema = TStruct
    [(''SchemaVersion'', ''truth'', TString),
     (''DoctrineVersion'', ''truth'', TString),
     (''AutoUpgrade'', ''rank:none,major,minor,patch'', TString),
     (''Workforce'', ''-'', WorkforceConfig),
     (''HRA'', ''-'', HRAConfig),
     (''Research'', ''-'', ResearchConfig),
     (''Gates'', ''-'', GatesConfig),
     (''Review'', ''-'', ReviewConfig),
     (''Transverse'', ''-'', TransverseConfig),
     (''Autonomy'', ''-'', AutonomyConfig),
     (''Merge'', ''-'', MergeConfig),
     (''Caronte'', ''-'', CaronteConfig),
     (''Notifications'', ''-'', NotificationsConfig),
     (''HadesDayCadence'', ''-'', HadesDayCadenceConfig),
     (''Quota'', ''-'', QuotaConfig),
     (''Tmux'', ''-'', TmuxConfig),
     (''Scheduling'', ''-'', SchedulingConfig),
     (''WFQ'', ''-'', WFQConfig),
     (''Knowledge'', ''-'', KnowledgeConfig),
     (''Gateway'', ''-'', GatewayConfig),
     (''Augmentation'', ''-'', AugmentationConfig),
     (''Renderers'', ''-'', RenderersConfig),
     (''Validated'', ''-'', TBool)]"

lemmas schema_defs =
  WorkforceRecoveryConfig_def WorkforceConfig_def HRAConfig_def ResearchConfig_def
  TestTiersConfig_def GatesConfig_def ReviewConfig_def TransverseConfig_def
  ConfirmationPolicyConfig_def VotingConfig_def CostDegradationConfig_def AutonomyConfig_def
  MergeScoringWeights_def MergeConfig_def CaronteConfig_def SeverityPerDoctrineConfig_def
  NotificationsConfig_def HadesDayCadenceConfig_def QuotaConfig_def TmuxConfig_def
  SchedulingConfig_def WFQConfig_def KnowledgeConfig_def GatewayConfig_def
  AugmentationConfig_def RenderersConfig_def Schema_def

subsection \<open>Tighten tags (tighten.go)\<close>

datatype TightenDirection = TightenDirSkip | TightenDirDecrease | TightenDirIncrease
  | TightenDirTruth | TightenDirAddOnly | TightenDirBidirectional | TightenDirRank

record TightenRule =
  Direction :: TightenDirection
  RankList :: "string list"
  RequiresOperator :: bool
  FieldType :: gotype

abbreviation rule_of :: "TightenDirection \<Rightarrow> gotype \<Rightarrow> TightenRule" where
  "rule_of d ft \<equiv> \<lparr>Direction = d, RankList = [], RequiresOperator = False, FieldType = ft\<rparr>"

datatype tag_err = AddOnlyRequiresSlice | BidirectionalSuffix string | RankMissingValues
  | RankValueEmpty | UnknownDirection string | MissingTag

text \<open>\<open>parseTightenTag\<close>; the rule keeps the field's whole type where the code keeps its kind.\<close>

definition parseRank :: "string \<Rightarrow> gotype \<Rightarrow> tag_err + TightenRule" where
  "parseRank body ft =
     (if body = [] then Inl RankMissingValues
      else let ranks = Split body CHR '','' in
        if \<exists>r \<in> set ranks. trim_space r = [] then Inl RankValueEmpty
        else Inr ((rule_of TightenDirRank ft)\<lparr>RankList := ranks\<rparr>))"

definition parseTightenTag :: "string \<Rightarrow> gotype \<Rightarrow> tag_err + TightenRule" where
  "parseTightenTag tag ft =
     (if tag = ''-'' then Inr (rule_of TightenDirSkip ft)
      else if tag = ''decrease'' then Inr (rule_of TightenDirDecrease ft)
      else if tag = ''increase'' then Inr (rule_of TightenDirIncrease ft)
      else if tag = ''truth'' then Inr (rule_of TightenDirTruth ft)
      else if tag = ''add-only'' then
        (if is_slice ft then Inr (rule_of TightenDirAddOnly ft) else Inl AddOnlyRequiresSlice)
      else if tag = ''bidirectional'' then Inr (rule_of TightenDirBidirectional ft)
      else case CutPrefix tag ''bidirectional,'' of
        Some rest \<Rightarrow>
          (if rest = ''requires-operator''
           then Inr ((rule_of TightenDirBidirectional ft)\<lparr>RequiresOperator := True\<rparr>)
           else Inl (BidirectionalSuffix rest))
      | None \<Rightarrow>
          (case CutPrefix tag ''rank:'' of
             Some body \<Rightarrow> parseRank body ft
           | None \<Rightarrow> Inl (UnknownDirection tag)))"

text \<open>
  \<open>walkTightenFields\<close>: the leaves below a type with their dotted path, raw tag and type, in
  declaration order. A leaf without a tag makes the code panic; it is listed with its empty tag and
  refused when the registry is built.
\<close>

definition join_path :: "string \<Rightarrow> string \<Rightarrow> string" where
  "join_path path n = (if path = [] then n else path @ ''.'' @ n)"

fun walkTightenFields :: "gotype \<Rightarrow> string \<Rightarrow> (string \<times> string \<times> gotype) list"
  and walk_fields :: "(string \<times> string \<times> gotype) list \<Rightarrow> string \<Rightarrow> (string \<times> string \<times> gotype) list" where
  "walkTightenFields (TStruct fs) path = walk_fields fs path"
| "walkTightenFields _ path = []"
| "walk_fields [] path = []"
| "walk_fields ((n, tag, t) # fs) path =
     (if is_struct t then walkTightenFields t (join_path path n) else [(join_path path n, tag, t)])
     @ walk_fields fs path"

text \<open>\<open>buildTightenRegistry\<close>: \<open>Inl\<close> is the panic, with the path of the malformed tag.\<close>

fun build_rules :: "(string \<times> string \<times> gotype) list \<Rightarrow> (string \<times> tag_err) + (string \<times> TightenRule) list" where
  "build_rules [] = Inr []"
| "build_rules ((path, tag, ft) # ls) =
     (if tag = [] then Inl (path, MissingTag) else
      case parseTightenTag tag ft of
        Inl e \<Rightarrow> Inl (path, e)
      | Inr rule \<Rightarrow>
          (case build_rules ls of
             Inl e \<Rightarrow> Inl e
           | Inr reg \<Rightarrow> Inr (if Direction rule = TightenDirSkip then reg else (path, rule) # reg)))"

definition buildTightenRegistry :: "(string \<times> tag_err) + (string \<times> TightenRule) list" where
  "buildTightenRegistry = build_rules (walkTightenFields Schema [])"

definition TightenRegistry :: "(string \<times> TightenRule) list" where
  "TightenRegistry = (case buildTightenRegistry of Inl _ \<Rightarrow> [] | Inr reg \<Rightarrow> reg)"

subsection \<open>Versions (version.go)\<close>

datatype semver_err = SegmentCount nat | EmptySegment nat | SignPrefix nat | NotNumeric nat

fun semver_segment :: "nat \<Rightarrow> string \<Rightarrow> semver_err + int" where
  "semver_segment i p =
     (if p = [] then Inl (EmptySegment i)
      else if hd p = CHR ''-'' \<or> hd p = CHR ''+'' then Inl (SignPrefix i)
      else case Atoi p of None \<Rightarrow> Inl (NotNumeric i) | Some n \<Rightarrow> Inr n)"

definition parseStrictSemver :: "string \<Rightarrow> semver_err + int \<times> int \<times> int" where
  "parseStrictSemver v =
     (case Split v CHR ''.'' of
        [a, b, c] \<Rightarrow>
          (case semver_segment 0 a of Inl e \<Rightarrow> Inl e
           | Inr x \<Rightarrow> (case semver_segment 1 b of Inl e \<Rightarrow> Inl e
             | Inr y \<Rightarrow> (case semver_segment 2 c of Inl e \<Rightarrow> Inl e | Inr z \<Rightarrow> Inr (x, y, z))))
      | parts \<Rightarrow> Inl (SegmentCount (length parts)))"

definition semverGreaterOrEqualStrict :: "string \<Rightarrow> string \<Rightarrow> semver_err + bool" where
  "semverGreaterOrEqualStrict a b =
     (case parseStrictSemver a of Inl e \<Rightarrow> Inl e
      | Inr (aMaj, aMin, aPatch) \<Rightarrow>
         (case parseStrictSemver b of Inl e \<Rightarrow> Inl e
          | Inr (bMaj, bMin, bPatch) \<Rightarrow>
             Inr (if aMaj \<noteq> bMaj then aMaj > bMaj
                  else if aMin \<noteq> bMin then aMin > bMin
                  else if aPatch \<noteq> bPatch then aPatch > bPatch
                  else True)))"

subsection \<open>Tighten-only overrides (tighten\_apply.go)\<close>

datatype violation_detail = NoDetail | MalformedSemver semver_err | VersionRegress
  | MissingValues "string list" | OutsideRanks "string list" | LooserRank "string list" nat nat

datatype tighten_fault =
    TightenViolation (RulePath: string) (fault_direction: TightenDirection) (AttemptedValue: goval)
      (BaselineValue: goval) (Detail: violation_detail)
  | Unresolvable (RulePath: string)

text \<open>The error of \<open>ValidateTighten\<close>: wrapped in \<open>ErrTightenViolation\<close>, or informational only.\<close>

datatype tighten_err = NilSchema | ErrTightenViolation "tighten_fault list" "string list"
  | RequiresOperatorConfirmation "string list"

fun intValue :: "goval \<Rightarrow> int option" where
  "intValue (VInt n) = Some n" | "intValue _ = None"

fun stringValue :: "goval \<Rightarrow> string" where
  "stringValue (VString s) = s" | "stringValue _ = []"

fun sliceValue :: "goval \<Rightarrow> goval list option" where
  "sliceValue (VSlice vs) = Some vs" | "sliceValue _ = None"

fun Sprint :: "goval \<Rightarrow> string" where
  "Sprint (VInt n) = dec_int n"
| "Sprint (VString s) = s"
| "Sprint (VBool b) = (if b then ''true'' else ''false'')"
| "Sprint _ = []"

definition checkNumericDecrease :: "string \<Rightarrow> goval \<Rightarrow> goval \<Rightarrow> tighten_fault option" where
  "checkNumericDecrease path baseline override =
     (case (intValue baseline, intValue override) of
        (Some b, Some ov) \<Rightarrow>
          if ov > b then Some (TightenViolation path TightenDirDecrease (VInt ov) (VInt b) NoDetail) else None
      | _ \<Rightarrow> None)"

definition checkNumericIncrease :: "string \<Rightarrow> goval \<Rightarrow> goval \<Rightarrow> tighten_fault option" where
  "checkNumericIncrease path baseline override =
     (case (intValue baseline, intValue override) of
        (Some b, Some ov) \<Rightarrow>
          if ov < b then Some (TightenViolation path TightenDirIncrease (VInt ov) (VInt b) NoDetail) else None
      | _ \<Rightarrow> None)"

definition checkTruth :: "string \<Rightarrow> goval \<Rightarrow> goval \<Rightarrow> tighten_fault option" where
  "checkTruth path baseline override =
     (if baseline \<noteq> override then Some (TightenViolation path TightenDirTruth override baseline NoDetail) else None)"

definition checkAddOnly :: "string \<Rightarrow> goval \<Rightarrow> goval \<Rightarrow> tighten_fault option" where
  "checkAddOnly path baseline override =
     (case (sliceValue baseline, sliceValue override) of
        (Some bs, Some os) \<Rightarrow>
          (let missing = filter (\<lambda>k. k \<notin> set (map Sprint os)) (remdups (map Sprint bs)) in
           if missing = [] then None
           else Some (TightenViolation path TightenDirAddOnly override baseline (MissingValues (sort missing))))
      | _ \<Rightarrow> None)"

fun indexOf :: "string list \<Rightarrow> string \<Rightarrow> nat option" where
  "indexOf [] s = None"
| "indexOf (x # xs) s = (if x = s then Some 0 else map_option Suc (indexOf xs s))"

definition checkRank :: "string \<Rightarrow> string list \<Rightarrow> goval \<Rightarrow> goval \<Rightarrow> tighten_fault option" where
  "checkRank path ranks baseline override =
     (case (indexOf ranks (stringValue baseline), indexOf ranks (stringValue override)) of
        (Some bIdx, Some oIdx) \<Rightarrow>
          if oIdx > bIdx then Some (TightenViolation path TightenDirRank override baseline (LooserRank ranks oIdx bIdx))
          else None
      | _ \<Rightarrow> Some (TightenViolation path TightenDirRank override baseline (OutsideRanks ranks)))"

text \<open>The version of the doctrine may differ from the baseline's if it is a later one.\<close>

definition truth_case :: "string \<Rightarrow> goval \<Rightarrow> goval \<Rightarrow> tighten_fault option" where
  "truth_case path b ov =
     (case checkTruth path b ov of
        None \<Rightarrow> None
      | Some v \<Rightarrow>
          (if path = ''DoctrineVersion'' then
             (case semverGreaterOrEqualStrict (stringValue ov) (stringValue b) of
                Inl e \<Rightarrow> Some (TightenViolation path TightenDirTruth ov b (MalformedSemver e))
              | Inr ok \<Rightarrow> if ok then None else Some (TightenViolation path TightenDirTruth ov b VersionRegress))
           else Some v))"

definition field_fault :: "TightenRule \<Rightarrow> string \<Rightarrow> goval \<Rightarrow> goval \<Rightarrow> tighten_fault option" where
  "field_fault rule path b ov =
     (case Direction rule of
        TightenDirDecrease \<Rightarrow> checkNumericDecrease path b ov
      | TightenDirIncrease \<Rightarrow> checkNumericIncrease path b ov
      | TightenDirTruth \<Rightarrow> truth_case path b ov
      | TightenDirAddOnly \<Rightarrow> checkAddOnly path b ov
      | TightenDirRank \<Rightarrow> checkRank path (RankList rule) b ov
      | TightenDirBidirectional \<Rightarrow> None
      | TightenDirSkip \<Rightarrow> None)"

text \<open>One turn of the loop: the hard errors and the informational ones of a path.\<close>

definition check_path :: "goval \<Rightarrow> goval \<Rightarrow> string \<Rightarrow> tighten_fault list \<times> string list" where
  "check_path override baseline path =
     (case map_of TightenRegistry path of
        None \<Rightarrow> ([], [])
      | Some rule \<Rightarrow>
          (case (lookupField baseline path, lookupField override path) of
             (Some b, Some ov) \<Rightarrow>
               ((case field_fault rule path b ov of None \<Rightarrow> [] | Some v \<Rightarrow> [v]),
                (if Direction rule = TightenDirBidirectional \<and> RequiresOperator rule \<and> b \<noteq> ov then [path] else []))
           | _ \<Rightarrow> ([Unresolvable path], [])))"

definition ValidateTighten :: "goval option \<Rightarrow> goval option \<Rightarrow> tighten_err option" where
  "ValidateTighten override baseline =
     (case (override, baseline) of
        (Some ov, Some b) \<Rightarrow>
          (let found = map (check_path ov b) (sort (map fst TightenRegistry));
               hardErrs = concat (map fst found);
               infoErrs = concat (map snd found)
           in if hardErrs = [] \<and> infoErrs = [] then None
              else if hardErrs = [] then Some (RequiresOperatorConfirmation infoErrs)
              else Some (ErrTightenViolation hardErrs infoErrs))
      | _ \<Rightarrow> Some NilSchema)"

subsection \<open>The registry is total and well typed\<close>

text \<open>
  Field names of a struct are distinct identifiers. Under that condition every leaf the walk lists
  can be looked up, on every value of the type, by its dotted path, and has the listed type.
\<close>

definition ident :: "string \<Rightarrow> bool" where
  "ident n \<longleftrightarrow> n \<noteq> [] \<and> CHR ''.'' \<notin> set n"

fun wf_type :: "gotype \<Rightarrow> bool" and wf_fields :: "(string \<times> string \<times> gotype) list \<Rightarrow> bool" where
  "wf_type (TStruct fs) \<longleftrightarrow> distinct (map fst fs) \<and> wf_fields fs"
| "wf_type _ \<longleftrightarrow> True"
| "wf_fields [] \<longleftrightarrow> True"
| "wf_fields ((n, tag, t) # fs) \<longleftrightarrow> ident n \<and> wf_type t \<and> wf_fields fs"

fun dotted :: "string list \<Rightarrow> string" where
  "dotted [] = []"
| "dotted [p] = p"
| "dotted (p # ps) = p @ CHR ''.'' # dotted ps"

lemma Split_dotted: "ps \<noteq> [] \<Longrightarrow> list_all ident ps \<Longrightarrow> Split (dotted ps) CHR ''.'' = ps"
  by (induction ps rule: dotted.induct) (auto simp: ident_def Split_no_sep Split_append)

lemma dotted_empty: "list_all ident ps \<Longrightarrow> dotted ps = [] \<longleftrightarrow> ps = []"
  by (cases ps rule: dotted.cases) (auto simp: ident_def)

lemma dotted_snoc: "ps \<noteq> [] \<Longrightarrow> dotted (ps @ [n]) = dotted ps @ ''.'' @ n"
  by (induction ps rule: dotted.induct) auto

lemma join_dotted: "list_all ident ps \<Longrightarrow> join_path (dotted ps) n = dotted (ps @ [n])"
  by (auto simp: join_path_def dotted_empty dotted_snoc)

lemma has_fields_lookup:
  assumes "has_fields fs ts" "distinct (map fst ts)" "(n, tag, t) \<in> set ts"
  shows "\<exists>v. map_of fs n = Some v \<and> has_type v t"
  using assms
proof (induction ts arbitrary: fs)
  case (Cons x ts)
  obtain m tag' t' where x: "x = (m, tag', t')" by (cases x)
  with Cons.prems obtain v fs' where fs: "fs = (m, v) # fs'" by (cases fs) auto
  from Cons.prems have "has_type v t'" "has_fields fs' ts" "distinct (map fst ts)" "m \<notin> fst ` set ts"
    by (auto simp: x fs)
  with Cons.IH [of fs'] Cons.prems(3) show ?case by (cases "n = m") (auto simp: x fs image_iff)
qed simp

text \<open>The leaf \<open>q\<close> lies at the path \<open>ps @ segs\<close> and \<open>v\<close> resolves it.\<close>

definition leaf_at :: "string list \<Rightarrow> goval \<Rightarrow> string \<Rightarrow> gotype \<Rightarrow> bool" where
  "leaf_at ps v q ft \<longleftrightarrow> (\<exists>segs w. q = dotted (ps @ segs) \<and> segs \<noteq> [] \<and> list_all ident segs
     \<and> lookup_parts v segs = Some w \<and> has_type w ft \<and> \<not> is_struct ft)"

lemma leaf_at_field:
  assumes "leaf_at (ps @ [n]) w q ft" "map_of fs n = Some w" "ident n"
  shows "leaf_at ps (VStruct fs) q ft"
proof -
  obtain segs w' where "q = dotted (ps @ n # segs)" "list_all ident segs" "lookup_parts w segs = Some w'"
    "has_type w' ft" "\<not> is_struct ft"
    using assms(1) by (auto simp: leaf_at_def)
  then show ?thesis unfolding leaf_at_def
    by (intro exI [of _ "n # segs"] exI [of _ w']) (auto simp: assms(2,3))
qed

lemma walk_leaf:
  "wf_type t \<Longrightarrow> list_all ident ps \<Longrightarrow> has_type v t \<Longrightarrow> (q, tag, ft) \<in> set (walkTightenFields t (dotted ps))
    \<Longrightarrow> leaf_at ps v q ft"
  "wf_fields ts \<Longrightarrow> distinct (map fst ts) \<Longrightarrow> list_all ident ps \<Longrightarrow> \<forall>(n, tag, t) \<in> set ts. \<exists>w. map_of fs n = Some w \<and> has_type w t
    \<Longrightarrow> (q, tag, ft) \<in> set (walk_fields ts (dotted ps)) \<Longrightarrow> leaf_at ps (VStruct fs) q ft"
proof (induction t and ts arbitrary: ps v and ps fs rule: wf_type_wf_fields.induct)
  case (1 ts)
  then obtain fs where v: "v = VStruct fs" by (cases v) auto
  have "\<forall>(n, tag, t) \<in> set ts. \<exists>w. map_of fs n = Some w \<and> has_type w t"
    using 1 has_fields_lookup [of fs ts] by (auto simp: v)
  with 1 show ?case by (auto simp: v)
next
  case (4 n tg t ts)
  from "4.prems" obtain w where w: "map_of fs n = Some w" "has_type w t" and n: "ident n" by auto
  have j: "join_path (dotted ps) n = dotted (ps @ [n])" using "4.prems" by (simp add: join_dotted)
  have psn: "list_all ident (ps @ [n])" using "4.prems" n by simp
  show ?case
  proof (cases "(q, tag, ft) \<in> set (walk_fields ts (dotted ps))")
    case True
    with 4 show ?thesis by auto
  next
    case False
    have "leaf_at (ps @ [n]) w q ft \<or> (q, tag, ft) = (dotted (ps @ [n]), tg, t) \<and> \<not> is_struct t"
    proof (cases "is_struct t")
      case True
      have "(q, tag, ft) \<in> set (walkTightenFields t (dotted (ps @ [n])))"
        using "4.prems" False True by (simp add: j)
      with "4.IH"(1) [OF _ psn w(2)] "4.prems" show ?thesis by simp
    qed (use "4.prems" False in \<open>auto simp: j\<close>)
    then show ?thesis
    proof
      assume "(q, tag, ft) = (dotted (ps @ [n]), tg, t) \<and> \<not> is_struct t"
      then show ?thesis using w n
        by (auto simp: leaf_at_def intro!: exI [of _ "[n]"])
    qed (use w n leaf_at_field in blast)
  qed
qed auto

lemma Schema_wf: "wf_type Schema"
  by (simp add: schema_defs ident_def)

definition schema_leaves :: "(string \<times> string \<times> gotype) list" where
  "schema_leaves = walkTightenFields Schema []"

lemma schema_leaf_lookup:
  assumes "has_type s Schema" "(q, tag, ft) \<in> set schema_leaves"
  shows "\<exists>w. lookupField s q = Some w \<and> has_type w ft"
proof -
  have "leaf_at [] s q ft"
    using walk_leaf(1) [OF Schema_wf _ assms(1), of "[]" q tag ft] assms(2) by (simp add: schema_leaves_def)
  then show ?thesis by (auto simp: leaf_at_def lookupField_def Split_dotted)
qed

text \<open>
  A rule fits the type of its field: numeric directions on integers, rank lists (without repetition)
  on strings, add-only on slices of integers or strings.
\<close>

definition rule_fits :: "TightenRule \<Rightarrow> bool" where
  "rule_fits rule \<longleftrightarrow>
     (case Direction rule of
        TightenDirDecrease \<Rightarrow> FieldType rule = TInt
      | TightenDirIncrease \<Rightarrow> FieldType rule = TInt
      | TightenDirTruth \<Rightarrow> FieldType rule = TBool \<or> FieldType rule = TString
      | TightenDirAddOnly \<Rightarrow> FieldType rule = TSlice TInt \<or> FieldType rule = TSlice TString
      | TightenDirRank \<Rightarrow> FieldType rule = TString \<and> RankList rule \<noteq> [] \<and> distinct (RankList rule)
      | TightenDirBidirectional \<Rightarrow> FieldType rule \<in> {TInt, TBool, TString}
      | TightenDirSkip \<Rightarrow> False)"

definition registry_check :: bool where
  "registry_check \<longleftrightarrow> (case buildTightenRegistry of Inl _ \<Rightarrow> False
     | Inr reg \<Rightarrow> list_all (\<lambda>(p, r). rule_fits r \<and> \<not> RequiresOperator r) reg \<and> distinct (map fst reg)
         \<and> map_of reg ''DoctrineVersion'' = Some (rule_of TightenDirTruth TString))"

lemma registry_checked: "registry_check"
  by code_simp

lemma parse_FieldType: "parseTightenTag tag ft = Inr rule \<Longrightarrow> FieldType rule = ft"
  by (auto simp: parseTightenTag_def parseRank_def Let_def split: if_splits option.splits)

lemma build_rules_from:
  "build_rules ls = Inr reg \<Longrightarrow> (p, rule) \<in> set reg \<Longrightarrow> \<exists>tag. (p, tag, FieldType rule) \<in> set ls"
  by (induction ls arbitrary: reg rule: build_rules.induct)
    (fastforce split: if_splits sum.splits dest: parse_FieldType)+

lemma registry_built: "buildTightenRegistry = Inr TightenRegistry"
proof (cases buildTightenRegistry)
  case (Inl e)
  show ?thesis using registry_checked unfolding registry_check_def Inl by simp
next
  case (Inr reg)
  show ?thesis unfolding TightenRegistry_def Inr by simp
qed

lemma registry_facts:
  assumes "map_of TightenRegistry p = Some rule"
  shows "rule_fits rule" "\<not> RequiresOperator rule"
  using registry_checked map_of_SomeD [OF assms]
  by (auto simp: registry_check_def registry_built list_all_iff)

lemma registry_distinct: "distinct (map fst TightenRegistry)"
  using registry_checked by (simp add: registry_check_def registry_built)

lemma version_rule: "map_of TightenRegistry ''DoctrineVersion'' = Some (rule_of TightenDirTruth TString)"
  using registry_checked by (simp add: registry_check_def registry_built)

lemma registry_lookup:
  assumes "has_type s Schema" "map_of TightenRegistry p = Some rule"
  shows "\<exists>w. lookupField s p = Some w \<and> has_type w (FieldType rule)"
proof -
  obtain tag where "(p, tag, FieldType rule) \<in> set schema_leaves"
    using build_rules_from [of schema_leaves TightenRegistry p rule] registry_built map_of_SomeD [OF assms(2)]
    by (auto simp: buildTightenRegistry_def schema_leaves_def)
  with schema_leaf_lookup [OF assms(1)] show ?thesis by blast
qed

subsection \<open>What tighter means\<close>

text \<open>
  The specification: \<open>tighter\<close> compares the values of one field, and an override \<open>tightens\<close> a
  baseline when every registered field does. Versions are compared as triples in lexicographic
  order, rank values by their position in the list.
\<close>

definition version_order :: "(int \<times> int \<times> int) \<Rightarrow> (int \<times> int \<times> int) \<Rightarrow> bool" where
  "version_order x y \<longleftrightarrow> (case (x, y) of ((a, b, c), (a', b', c')) \<Rightarrow>
     a < a' \<or> a = a' \<and> (b < b' \<or> b = b' \<and> c \<le> c'))"

definition bumps :: "string \<Rightarrow> string \<Rightarrow> bool" where
  "bumps v w \<longleftrightarrow> (\<exists>x y. parseStrictSemver v = Inr x \<and> parseStrictSemver w = Inr y \<and> version_order x y)"

definition tighter :: "TightenRule \<Rightarrow> string \<Rightarrow> goval \<Rightarrow> goval \<Rightarrow> bool" where
  "tighter rule path b ov \<longleftrightarrow>
     (case Direction rule of
        TightenDirDecrease \<Rightarrow> \<exists>x y. b = VInt x \<and> ov = VInt y \<and> y \<le> x
      | TightenDirIncrease \<Rightarrow> \<exists>x y. b = VInt x \<and> ov = VInt y \<and> x \<le> y
      | TightenDirTruth \<Rightarrow> b = ov \<or> path = ''DoctrineVersion'' \<and> bumps (stringValue b) (stringValue ov)
      | TightenDirAddOnly \<Rightarrow> \<exists>bs os. b = VSlice bs \<and> ov = VSlice os \<and> set bs \<subseteq> set os
      | TightenDirRank \<Rightarrow> \<exists>i j. i \<le> j \<and> j < length (RankList rule)
          \<and> ov = VString (RankList rule ! i) \<and> b = VString (RankList rule ! j)
      | _ \<Rightarrow> True)"

definition field_tightens :: "goval \<Rightarrow> goval \<Rightarrow> string \<Rightarrow> bool" where
  "field_tightens ov b p \<longleftrightarrow> (case map_of TightenRegistry p of None \<Rightarrow> True
     | Some rule \<Rightarrow> \<exists>x y. lookupField b p = Some x \<and> lookupField ov p = Some y \<and> tighter rule p x y)"

definition tightens :: "goval \<Rightarrow> goval \<Rightarrow> bool" where
  "tightens ov b \<longleftrightarrow> (\<forall>p. field_tightens ov b p)"

lemma semver_ge_iff: "semverGreaterOrEqualStrict v w = Inr True \<longleftrightarrow> bumps w v"
proof (cases "parseStrictSemver v"; cases "parseStrictSemver w")
  fix x y assume xy: "parseStrictSemver v = Inr x" "parseStrictSemver w = Inr y"
  obtain a b c a' b' c' where "x = (a, b, c)" "y = (a', b', c')" by (cases x, cases y) auto
  then show ?thesis unfolding semverGreaterOrEqualStrict_def bumps_def version_order_def xy by auto
qed (simp_all add: semverGreaterOrEqualStrict_def bumps_def split: prod.splits)

lemma indexOf_Some: "distinct xs \<Longrightarrow> indexOf xs s = Some i \<longleftrightarrow> i < length xs \<and> xs ! i = s"
proof (induction xs arbitrary: i)
  case (Cons x xs)
  show ?case
  proof (cases "x = s")
    case True
    with Cons.prems show ?thesis by (cases i) (auto simp: in_set_conv_nth)
  next
    case False
    have "indexOf xs s = Some j \<longleftrightarrow> j < length xs \<and> xs ! j = s" for j using Cons by simp
    with False show ?thesis by (cases i) auto
  qed
qed simp

lemma Sprint_inj:
  assumes "has_type x t" "has_type y t" "t = TInt \<or> t = TString" "Sprint x = Sprint y"
  shows "x = y"
  using assms by (cases x; cases y) (auto dest: dec_int_inj)

text \<open>The checks of one field decide the specification, and a fault names its path.\<close>

lemma has_type_inv:
  "has_type v TInt \<Longrightarrow> \<exists>n. v = VInt n"
  "has_type v TBool \<Longrightarrow> \<exists>c. v = VBool c"
  "has_type v TString \<Longrightarrow> \<exists>s. v = VString s"
  "has_type v (TSlice t) \<Longrightarrow> \<exists>vs. v = VSlice vs \<and> (\<forall>x \<in> set vs. has_type x t)"
  by (cases v; simp)+

lemma checkAddOnly_iff:
  assumes "has_type b (TSlice t)" "has_type ov (TSlice t)" "t = TInt \<or> t = TString"
  shows "checkAddOnly p b ov = None \<longleftrightarrow> (\<exists>bs os. b = VSlice bs \<and> ov = VSlice os \<and> set bs \<subseteq> set os)"
proof -
  obtain bs os where b: "b = VSlice bs" "\<forall>x \<in> set bs. has_type x t"
    and ov: "ov = VSlice os" "\<forall>x \<in> set os. has_type x t"
    using has_type_inv(4) [OF assms(1)] has_type_inv(4) [OF assms(2)] by blast
  have "x \<in> set os \<longleftrightarrow> Sprint x \<in> Sprint ` set os" if "x \<in> set bs" for x
    using that b ov Sprint_inj [OF _ _ assms(3), of x] by blast
  then show ?thesis
    by (auto simp: checkAddOnly_def b ov Let_def filter_empty_conv subset_iff)
qed

lemma checkRank_iff:
  assumes "distinct ranks" "has_type b TString" "has_type ov TString"
  shows "checkRank p ranks b ov = None
    \<longleftrightarrow> (\<exists>i j. i \<le> j \<and> j < length ranks \<and> ov = VString (ranks ! i) \<and> b = VString (ranks ! j))"
proof -
  obtain x y where xy: "b = VString x" "ov = VString y" using has_type_inv(3) assms(2,3) by blast
  have iff: "indexOf ranks s = Some i \<longleftrightarrow> i < length ranks \<and> ranks ! i = s" for s i
    by (rule indexOf_Some [OF assms(1)])
  have none: ?thesis if "indexOf ranks x = None"
  proof -
    have "\<not> (j < length ranks \<and> ranks ! j = x)" for j using iff [of x j] that by simp
    then show ?thesis by (auto simp: checkRank_def xy that)
  qed
  show ?thesis
  proof (cases "indexOf ranks x"; cases "indexOf ranks y")
    fix j i assume ix: "indexOf ranks x = Some j" "indexOf ranks y = Some i"
    then have at: "j < length ranks" "ranks ! j = x" "i < length ranks" "ranks ! i = y" using iff by auto
    have uj: "j' = j" if "j' < length ranks" "ranks ! j' = x" for j'
      using that at nth_eq_iff_index_eq [OF assms(1)] by metis
    have ui: "i' = i" if "i' < length ranks" "ranks ! i' = y" for i'
      using that at nth_eq_iff_index_eq [OF assms(1)] by metis
    have "(\<exists>i' j'. i' \<le> j' \<and> j' < length ranks \<and> y = ranks ! i' \<and> x = ranks ! j') \<longleftrightarrow> i \<le> j" (is "?e \<longleftrightarrow> _")
    proof
      assume ?e
      then obtain i' j' where ij: "i' \<le> j'" "j' < length ranks" "ranks ! i' = y" "ranks ! j' = x" by blast
      with uj [of j'] ui [of i'] show "i \<le> j" by simp
    qed (use at in blast)
    then show ?thesis by (auto simp: checkRank_def xy ix)
  next
    fix j assume ix: "indexOf ranks x = Some j" "indexOf ranks y = None"
    then have no: "\<not> (i < length ranks \<and> ranks ! i = y)" for i using iff [of y i] by simp
    have "\<not> (i \<le> j' \<and> j' < length ranks \<and> y = ranks ! i)" for i j' using no [of i] by auto
    then show ?thesis by (auto simp: checkRank_def xy ix)
  qed (rule none, assumption)+
qed

lemma truth_case_iff: "truth_case p b ov = None
    \<longleftrightarrow> b = ov \<or> p = ''DoctrineVersion'' \<and> bumps (stringValue b) (stringValue ov)"
proof -
  have "semverGreaterOrEqualStrict (stringValue ov) (stringValue b) = Inr True
    \<longleftrightarrow> bumps (stringValue b) (stringValue ov)" by (rule semver_ge_iff)
  then show ?thesis
    by (cases "semverGreaterOrEqualStrict (stringValue ov) (stringValue b)")
      (auto simp: truth_case_def checkTruth_def)
qed

lemma field_fault_iff:
  assumes "rule_fits rule" "has_type b (FieldType rule)" "has_type ov (FieldType rule)"
  shows "field_fault rule p b ov = None \<longleftrightarrow> tighter rule p b ov"
proof (cases "Direction rule")
  case TightenDirDecrease
  with assms obtain x y where "b = VInt x" "ov = VInt y"
    using has_type_inv(1) by (fastforce simp: rule_fits_def)
  with TightenDirDecrease show ?thesis
    by (auto simp: field_fault_def tighter_def checkNumericDecrease_def)
next
  case TightenDirIncrease
  with assms obtain x y where "b = VInt x" "ov = VInt y"
    using has_type_inv(1) by (fastforce simp: rule_fits_def)
  with TightenDirIncrease show ?thesis
    by (auto simp: field_fault_def tighter_def checkNumericIncrease_def)
next
  case TightenDirAddOnly
  with assms show ?thesis using checkAddOnly_iff [of b _ ov p]
    by (auto simp: rule_fits_def field_fault_def tighter_def)
next
  case TightenDirRank
  with assms show ?thesis using checkRank_iff [of "RankList rule" b ov p]
    by (auto simp: rule_fits_def field_fault_def tighter_def)
next
  case TightenDirTruth
  then show ?thesis by (simp add: field_fault_def tighter_def truth_case_iff)
qed (simp_all add: field_fault_def tighter_def)

lemma field_fault_path: "field_fault rule p b ov = Some f \<Longrightarrow> RulePath f = p"
  by (auto simp: field_fault_def checkNumericDecrease_def checkNumericIncrease_def checkAddOnly_def
      checkRank_def truth_case_def checkTruth_def Let_def
      split: TightenDirection.splits option.splits if_splits sum.splits)

lemma check_path_eq:
  assumes "has_type ov Schema" "has_type b Schema"
  shows "snd (check_path ov b p) = []"
    and "map RulePath (fst (check_path ov b p)) = (if field_tightens ov b p then [] else [p])"
proof -
  show "snd (check_path ov b p) = []" using registry_facts(2)
    by (auto simp: check_path_def split: option.splits)
  show "map RulePath (fst (check_path ov b p)) = (if field_tightens ov b p then [] else [p])"
  proof (cases "map_of TightenRegistry p")
    case None
    then show ?thesis by (simp add: check_path_def field_tightens_def)
  next
    case (Some rule)
    obtain x y where x: "lookupField b p = Some x" "has_type x (FieldType rule)"
      and y: "lookupField ov p = Some y" "has_type y (FieldType rule)"
      using registry_lookup [OF assms(1) Some] registry_lookup [OF assms(2) Some] by blast
    have iff: "field_fault rule p x y = None \<longleftrightarrow> tighter rule p x y"
      by (rule field_fault_iff [OF registry_facts(1) [OF Some] x(2) y(2)])
    show ?thesis
      by (cases "field_fault rule p x y")
        (use iff field_fault_path [of rule p x y] in \<open>auto simp: check_path_def field_tightens_def Some x y\<close>)
  qed
qed

abbreviation tighten_paths :: "string list" where
  "tighten_paths \<equiv> sort (map fst TightenRegistry)"

lemma tightens_paths: "tightens ov b \<longleftrightarrow> (\<forall>p \<in> set tighten_paths. field_tightens ov b p)"
proof
  assume all: "\<forall>p \<in> set tighten_paths. field_tightens ov b p"
  have "field_tightens ov b p" for p
  proof (cases "map_of TightenRegistry p")
    case (Some rule)
    then have "p \<in> fst ` set TightenRegistry" by (metis domI dom_map_of_conv_image_fst)
    with all show ?thesis by auto
  qed (simp add: field_tightens_def)
  then show "tightens ov b" by (simp add: tightens_def)
qed (simp add: tightens_def)

lemma check_paths:
  assumes "has_type ov Schema" "has_type b Schema"
  shows "concat (map snd (map (check_path ov b) ps)) = []"
    and "map RulePath (concat (map fst (map (check_path ov b) ps))) = filter (\<lambda>p. \<not> field_tightens ov b p) ps"
  by (induction ps) (simp_all add: check_path_eq [OF assms])

lemma no_hard_errors:
  assumes "has_type ov Schema" "has_type b Schema"
  shows "concat (map fst (map (check_path ov b) tighten_paths)) = [] \<longleftrightarrow> tightens ov b"
  using check_paths(2) [OF assms, of tighten_paths]
  by (metis (no_types, lifting) filter_empty_conv map_is_Nil_conv tightens_paths)

lemma ValidateTighten_None_iff:
  assumes "has_type ov Schema" "has_type b Schema"
  shows "ValidateTighten (Some ov) (Some b) = None \<longleftrightarrow> tightens ov b"
  using no_hard_errors [OF assms] check_paths(1) [OF assms, of tighten_paths]
  by (simp add: ValidateTighten_def Let_def del: map_map)

subsection \<open>Chains of overrides\<close>

lemma version_order_trans: "version_order x y \<Longrightarrow> version_order y z \<Longrightarrow> version_order x z"
  by (auto simp: version_order_def split: prod.splits)

lemma bumps_trans: "bumps u v \<Longrightarrow> bumps v w \<Longrightarrow> bumps u w"
  unfolding bumps_def by (metis sum.inject(2) version_order_trans)

lemma rank_position:
  assumes "distinct ranks" "i < length ranks" "j < length ranks" "ranks ! i = ranks ! j"
  shows "i = j"
  using assms by (simp add: nth_eq_iff_index_eq)

lemma tighter_trans:
  assumes "rule_fits rule" "tighter rule p x y" "tighter rule p y z"
  shows "tighter rule p x z"
proof (cases "Direction rule")
  case TightenDirRank
  then have d: "distinct (RankList rule)" using assms(1) by (simp add: rule_fits_def)
  from assms(2) TightenDirRank obtain i j where ij: "i \<le> j" "j < length (RankList rule)"
    "y = VString (RankList rule ! i)" "x = VString (RankList rule ! j)" by (auto simp: tighter_def)
  from assms(3) TightenDirRank obtain k l where kl: "k \<le> l" "l < length (RankList rule)"
    "z = VString (RankList rule ! k)" "y = VString (RankList rule ! l)" by (auto simp: tighter_def)
  have "i = l" using rank_position [OF d, of i l] ij kl by simp
  then have "k \<le> j \<and> j < length (RankList rule) \<and> z = VString (RankList rule ! k) \<and> x = VString (RankList rule ! j)"
    using ij kl by simp
  with TightenDirRank show ?thesis unfolding tighter_def by (simp only: TightenDirection.simps) blast
next
  case TightenDirTruth
  with assms(2,3) show ?thesis using bumps_trans by (auto simp: tighter_def)
next
  case TightenDirAddOnly
  with assms(2,3) show ?thesis by (auto simp: tighter_def)
qed (use assms in \<open>auto simp: tighter_def\<close>)

lemma tightens_trans: "tightens s t \<Longrightarrow> tightens t u \<Longrightarrow> tightens s u"
  unfolding tightens_def field_tightens_def
  by (fastforce split: option.splits dest: registry_facts(1) intro: tighter_trans)

end
