(* ===== verification/Doctrine_Validate.thy ===== *)
theory Doctrine_Validate
  imports Doctrine_Schema
begin

text \<open>
  Validation of a doctrine (\<open>validate.go\<close>, \<open>crossfield.go\<close>, \<open>transverse.go\<close>, \<open>version.go\<close>) and the three
  built-in doctrines the binary embeds (\<open>builtin/*.toml\<close>), as the decoder leaves them. The reasons in
  the texts of the violations are not kept. Sums and products are Go's, at 64 bits.
\<close>

subsection \<open>Reading fields\<close>

definition int_at :: "goval \<Rightarrow> string \<Rightarrow> int" where
  "int_at s p = (case lookupField s p of Some (VInt n) \<Rightarrow> n | _ \<Rightarrow> 0)"

definition string_at :: "goval \<Rightarrow> string \<Rightarrow> string" where
  "string_at s p = (case lookupField s p of Some (VString x) \<Rightarrow> x | _ \<Rightarrow> [])"

definition slice_at :: "goval \<Rightarrow> string \<Rightarrow> goval list" where
  "slice_at s p = (case lookupField s p of Some (VSlice vs) \<Rightarrow> vs | _ \<Rightarrow> [])"

subsection \<open>Versions\<close>

definition CurrentSchemaVersion :: string where "CurrentSchemaVersion = ''1.0''"

definition SupportedSchemaVersions :: "string list" where "SupportedSchemaVersions = [''1.0'']"

definition atoiOrZero :: "string \<Rightarrow> int" where
  "atoiOrZero s = (case Atoi s of None \<Rightarrow> 0 | Some n \<Rightarrow> n)"

text \<open>\<open>splitDots\<close> keeps empty segments except a last one.\<close>

definition splitDots :: "string \<Rightarrow> string list" where
  "splitDots s = (let parts = Split s CHR ''.'' in if last parts = [] then butlast parts else parts)"

fun compare_segs :: "string list \<Rightarrow> string list \<Rightarrow> int" where
  "compare_segs [] [] = 0"
| "compare_segs as bs =
     (let av = (case as of [] \<Rightarrow> 0 | a # _ \<Rightarrow> atoiOrZero a);
          bv = (case bs of [] \<Rightarrow> 0 | b # _ \<Rightarrow> atoiOrZero b)
      in if av < bv then -1 else if av > bv then 1 else compare_segs (tl as) (tl bs))"

definition compareDottedVersion :: "string \<Rightarrow> string \<Rightarrow> int" where
  "compareDottedVersion a b = compare_segs (splitDots a) (splitDots b)"

datatype version_err = ErrSchemaVersionTooOld | ErrSchemaVersionUnsupported

definition ValidateSchemaVersion :: "string \<Rightarrow> version_err option" where
  "ValidateSchemaVersion version =
     (if version \<in> set SupportedSchemaVersions then None
      else if compareDottedVersion version (hd SupportedSchemaVersions) < 0 then Some ErrSchemaVersionTooOld
      else Some ErrSchemaVersionUnsupported)"

text \<open>The regular expression \<open>^[0-9]+.[0-9]+.[0-9]+$\<close>.\<close>

definition ValidateDoctrineVersion :: "string \<Rightarrow> bool" where
  "ValidateDoctrineVersion version \<longleftrightarrow>
     (let parts = Split version CHR ''.'' in length parts = 3 \<and> list_all digits parts)"

subsection \<open>Ranges, ranks and cross-field rules\<close>

datatype validation_err =
    RequiredFieldMissing string
  | SchemaVersionErr version_err
  | DoctrineVersionErr string
  | RangeViolation string int int int
  | EnumViolation string string "string list"
  | TransverseMutationViolation
  | CrossFieldViolation string

definition outside :: "bool \<Rightarrow> string \<Rightarrow> int \<Rightarrow> int \<Rightarrow> int \<Rightarrow> validation_err list" where
  "outside bad field got lo hi = (if bad then [RangeViolation field got lo hi] else [])"

definition at_least :: "goval \<Rightarrow> int \<Rightarrow> string \<Rightarrow> validation_err list" where
  "at_least s lo p = outside (int_at s p < lo) p (int_at s p) lo 0"

definition percent :: "goval \<Rightarrow> int \<Rightarrow> string \<Rightarrow> validation_err list" where
  "percent s lo p = outside (int_at s p < lo \<or> int_at s p > 100) p (int_at s p) lo 100"

definition weight_paths :: "string list" where
  "weight_paths = [''Merge.ScoringWeights.TestPass'', ''Merge.ScoringWeights.LintPass'',
     ''Merge.ScoringWeights.Coverage'', ''Merge.ScoringWeights.Diff'', ''Merge.ScoringWeights.Duration'']"

definition validateRanges :: "goval \<Rightarrow> validation_err list" where
  "validateRanges s = concat
    ([at_least s 1 ''Workforce.MinDepth'',
      outside (int_at s ''Workforce.MaxDepth'' < int_at s ''Workforce.MinDepth'') ''Workforce.MaxDepth''
        (int_at s ''Workforce.MaxDepth'') (int_at s ''Workforce.MinDepth'') 0,
      outside (int_at s ''Workforce.MaxDepth'' > 32) ''Workforce.MaxDepth'' (int_at s ''Workforce.MaxDepth'') 1 32,
      at_least s 1 ''Workforce.MaxWidthPerLayer'',
      at_least s 0 ''Workforce.Recovery.TransientRetryBudget'',
      at_least s 0 ''Workforce.Recovery.DoctrineRetryBudget'',
      at_least s 1 ''HRA.CadenceTacticalMin'',
      at_least s 1 ''HRA.CadenceStrategicMin'',
      at_least s 1 ''HRA.CadenceArchitecturalMin'',
      at_least s 1 ''HRA.ReviewerToWorkerRatio'',
      at_least s 0 ''Research.MaxBudgetPerSession'',
      percent s 0 ''Gates.CoverageMinPct'',
      at_least s 1 ''Review.HiveCadenceMin'',
      at_least s 1 ''Review.RotateReviewerEvery'',
      percent s 1 ''Autonomy.Voting.PluralityThresholdPct'',
      at_least s 0 ''Autonomy.AmendmentCooldownH'',
      at_least s 0 ''Autonomy.CostDegradation.SoftCheckUSD'',
      outside (int_at s ''Autonomy.CostDegradation.HardStopUSD'' < int_at s ''Autonomy.CostDegradation.SoftCheckUSD'')
        ''Autonomy.CostDegradation.HardStopUSD'' (int_at s ''Autonomy.CostDegradation.HardStopUSD'')
        (int_at s ''Autonomy.CostDegradation.SoftCheckUSD'') 0]
     @ map (percent s 0) weight_paths
     @ [percent s 0 ''Merge.AnomalyThresholdPct'',
      at_least s 1 ''Merge.AnomalyWindowMin'',
      at_least s 1 ''Merge.MaxCandidates'',
      at_least s 0 ''HadesDayCadence.MorningBriefIfWithinHours'',
      at_least s 0 ''HadesDayCadence.EODDigestIfWithinHours'',
      at_least s 1 ''Quota.MaxConcurrentTasks'',
      at_least s 0 ''Quota.MaxDailyBudgetUSD'',
      at_least s 0 ''Quota.MaxStorageGB'',
      at_least s 1 ''Tmux.IdleTTLMin'',
      at_least s 0 ''Scheduling.MissCatchupMaxJobs'',
      at_least s 1 ''WFQ.ProjectWeightDefault'',
      at_least s 1 ''WFQ.StarvationGuardSec'',
      at_least s 1 ''Knowledge.HiveDocCadenceHours''])"

text \<open>\<open>walkRankFields\<close> walks value and type together; every rank-tagged leaf must hold one of its
  values. A rank tag on a leaf that is not a string is always a violation.\<close>

fun rank_leaf :: "string \<Rightarrow> gotype \<Rightarrow> goval \<Rightarrow> (string list \<times> string) option" where
  "rank_leaf tag t v =
     (case CutPrefix tag ''rank:'' of
        None \<Rightarrow> None
      | Some vals \<Rightarrow> Some (Split vals CHR '','', case v of VString x \<Rightarrow> x | _ \<Rightarrow> ''<non-string field type>''))"

fun walkRankFields :: "goval \<Rightarrow> gotype \<Rightarrow> string \<Rightarrow> (string \<times> string list \<times> string) list"
  and rank_fields :: "(string \<times> goval) list \<Rightarrow> (string \<times> string \<times> gotype) list \<Rightarrow> string \<Rightarrow> (string \<times> string list \<times> string) list" where
  "walkRankFields (VStruct vs) (TStruct ts) path = rank_fields vs ts path"
| "walkRankFields _ _ path = []"
| "rank_fields ((m, v) # vs) ((n, tag, t) # ts) path =
     (if is_struct t then walkRankFields v t (join_path path n)
      else case rank_leaf tag t v of None \<Rightarrow> [] | Some (allowed, got) \<Rightarrow> [(join_path path n, allowed, got)])
     @ rank_fields vs ts path"
| "rank_fields _ _ path = []"

definition validateRanks :: "goval \<Rightarrow> validation_err list" where
  "validateRanks s = concat (map (\<lambda>(p, allowed, got).
     if got \<in> set allowed then [] else [EnumViolation p got (sort allowed)]) (walkRankFields s Schema []))"

fun isMonotoneFrom :: "int \<Rightarrow> goval list \<Rightarrow> bool" where
  "isMonotoneFrom i [] \<longleftrightarrow> True"
| "isMonotoneFrom i (x # xs) \<longleftrightarrow> x = VInt (i + 1) \<and> isMonotoneFrom (i + 1) xs"

abbreviation isMonotoneFromOne :: "goval list \<Rightarrow> bool" where
  "isMonotoneFromOne \<equiv> isMonotoneFrom 0"

definition weight_sum :: "goval \<Rightarrow> int" where
  "weight_sum s = foldl (\<lambda>acc p. i64 (acc + int_at s p)) 0 weight_paths"

definition capacity :: "goval \<Rightarrow> int" where
  "capacity s = i64 (int_at s ''Workforce.MaxDepth'' * int_at s ''Workforce.MaxWidthPerLayer'')"

definition crossfield :: "bool \<Rightarrow> string \<Rightarrow> validation_err list" where
  "crossfield bad invariant = (if bad then [CrossFieldViolation invariant] else [])"

definition validateCrossField :: "goval \<Rightarrow> validation_err list" where
  "validateCrossField s = concat
     [crossfield (weight_sum s \<noteq> 100) ''MergeScoringWeightsSum100'',
      crossfield (int_at s ''Workforce.Recovery.TransientRetryBudget'' > 0
          \<and> int_at s ''Workforce.MaxDepth'' \<le> int_at s ''Workforce.MinDepth'') ''WorkforceDepthHeadroomForRetries'',
      crossfield (int_at s ''Autonomy.CostDegradation.HardStopUSD'' = int_at s ''Autonomy.CostDegradation.SoftCheckUSD'')
        ''CostDegradationHardStopStrictlyGreater'',
      crossfield (\<not> isMonotoneFromOne (slice_at s ''HRA.LayersEnabled'')) ''HRALayersMonotoneFromOne'',
      crossfield (int_at s ''HadesDayCadence.MorningBriefIfWithinHours'' > 24) ''MorningBriefWithinAtMostOneDay'',
      crossfield (int_at s ''HadesDayCadence.EODDigestIfWithinHours'' > 24) ''EODDigestWithinAtMostOneDay'',
      crossfield (capacity s > 0 \<and> int_at s ''Quota.MaxConcurrentTasks'' > capacity s) ''QuotaWithinPoolCapacity'',
      crossfield (string_at s ''Notifications.QuietHoursStart'' = string_at s ''Notifications.QuietHoursEnd''
          \<and> string_at s ''Notifications.QuietHoursStart'' \<noteq> []) ''QuietHoursStartEndDistinct'',
      crossfield (string_at s ''WFQ.OvercommitPolicy'' = ''reject'' \<and> int_at s ''Quota.MaxConcurrentTasks'' > 256)
        ''RejectOvercommitImpliesBoundedQuota'',
      crossfield (slice_at s ''Gates.TestTiers.Enabled'' = []) ''TestTiersNonEmpty'']"

subsection \<open>Transverse axioms and Validate\<close>

definition TransverseExpected :: goval where
  "TransverseExpected = VStruct [(''NoTechDebt'', VBool True), (''NoStubs'', VBool True),
     (''BuildFinalProduct'', VBool True), (''NoDefer'', VBool True)]"

definition version_errors :: "goval \<Rightarrow> validation_err list" where
  "version_errors s =
     (if string_at s ''SchemaVersion'' = [] then [RequiredFieldMissing ''SchemaVersion'']
      else case ValidateSchemaVersion (string_at s ''SchemaVersion'') of
        None \<Rightarrow> [] | Some e \<Rightarrow> [SchemaVersionErr e])
     @ (if string_at s ''DoctrineVersion'' = [] then [RequiredFieldMissing ''DoctrineVersion'']
        else if ValidateDoctrineVersion (string_at s ''DoctrineVersion'') then []
        else [DoctrineVersionErr (string_at s ''DoctrineVersion'')])"

definition schema_errors :: "goval \<Rightarrow> validation_err list" where
  "schema_errors s = version_errors s @ validateRanges s @ validateRanks s
     @ (if FieldByName s ''Transverse'' = Some TransverseExpected then [] else [TransverseMutationViolation])
     @ validateCrossField s"

fun set_field :: "string \<Rightarrow> goval \<Rightarrow> goval \<Rightarrow> goval" where
  "set_field n w (VStruct fs) = VStruct (map (\<lambda>(m, v). (m, if m = n then w else v)) fs)"
| "set_field n w v = v"

text \<open>\<open>Validate\<close> records its verdict in the schema.\<close>

definition Validate :: "goval \<Rightarrow> goval \<times> validation_err list option" where
  "Validate s =
     (let errs = schema_errors s in
      (set_field ''Validated'' (VBool (errs = [])) s, if errs = [] then None else Some errs))"

subsection \<open>The built-in doctrines (builtin/*.toml)\<close>

definition max_scope_toml :: goval where
  "max_scope_toml = VStruct
    [(''SchemaVersion'', VString ''1.0''),
     (''DoctrineVersion'', VString ''1.0.0''),
     (''AutoUpgrade'', VString ''patch''),
     (''Workforce'', VStruct
      [(''MinDepth'', VInt 1),
       (''MaxDepth'', VInt 4),
       (''MaxWidthPerLayer'', VInt 8),
       (''Recovery'', VStruct
        [(''TransientRetryBudget'', VInt 5),
         (''PermanentInfraEscalate'', VString ''operator-notify''),
         (''DoctrineRetryBudget'', VInt 3)])]),
     (''HRA'', VStruct
      [(''LayersEnabled'', VSlice [VInt 1, VInt 2, VInt 3]),
       (''CadenceTacticalMin'', VInt 5),
       (''CadenceStrategicMin'', VInt 30),
       (''CadenceArchitecturalMin'', VInt 240),
       (''ReviewerToWorkerRatio'', VInt 1)]),
     (''Research'', VStruct
      [(''Enabled'', VBool True),
       (''MaxBudgetPerSession'', VInt 50),
       (''SOTAOrchestratorEnforced'', VBool True)]),
     (''Gates'', VStruct
      [(''TestTiers'', VStruct
        [(''Enabled'', VSlice [VString ''unit'', VString ''integration'', VString ''adversarial'', VString ''chaos'', VString ''realworld'', VString ''compliance'', VString ''replay'', VString ''timeaccel'', VString ''orchestrator_chaos'', VString ''analysistest''])]),
       (''CoverageMinPct'', VInt 90)]),
     (''Review'', VStruct
      [(''HiveCadenceMin'', VInt 30),
       (''RotateReviewerEvery'', VInt 1),
       (''RequireDualReview'', VBool True)]),
     (''Transverse'', VStruct
      [(''NoTechDebt'', VBool True),
       (''NoStubs'', VBool True),
       (''BuildFinalProduct'', VBool True),
       (''NoDefer'', VBool True)]),
     (''Autonomy'', VStruct
      [(''Mode'', VString ''agent''),
       (''CheckMode'', VString ''strict''),
       (''ConfirmationPolicy'', VStruct
        [(''BudgetBreachThreshold'', VString ''high''),
         (''SpecAmendmentProposal'', VString ''high''),
         (''InvariantViolation'', VString ''high''),
         (''ArchitecturalReviewEscalation'', VString ''high'')]),
       (''Voting'', VStruct
        [(''PluralityThresholdPct'', VInt 50),
         (''FMVEnable'', VBool True),
         (''EMSEnable'', VBool True)]),
       (''CostDegradation'', VStruct
        [(''SoftCheckUSD'', VInt 20),
         (''HardStopUSD'', VInt 100),
         (''DegradeStrategy'', VString ''downshift-tier'')]),
       (''AmendmentCooldownH'', VInt 24)]),
     (''Merge'', VStruct
      [(''Mode'', VString ''balanced''),
       (''ScoringWeights'', VStruct
        [(''TestPass'', VInt 40),
         (''LintPass'', VInt 15),
         (''Coverage'', VInt 25),
         (''Diff'', VInt 10),
         (''Duration'', VInt 10)]),
       (''AnomalyThresholdPct'', VInt 30),
       (''AnomalyWindowMin'', VInt 60),
       (''MaxCandidates'', VInt 5)]),
     (''Caronte'', VStruct
      [(''BranchPolicy'', VString ''balanced''),
       (''HRAReviewEnabled'', VBool True)]),
     (''Notifications'', VStruct
      [(''SeverityPerDoctrine'', VStruct
        [(''ActionNeededPromotesToUrgent'', VBool False),
         (''UrgentBypassesQuietHours'', VBool True),
         (''InfoImmediateDuringQuiet'', VString ''queue'')]),
       (''QuietHoursStart'', VString ''22:00''),
       (''QuietHoursEnd'', VString ''07:00'')]),
     (''HadesDayCadence'', VStruct
      [(''MorningBriefCron'', VString ''0 8 * * 1-5''),
       (''MorningBriefIfWithinHours'', VInt 2),
       (''EODDigestCron'', VString ''0 18 * * 1-5''),
       (''EODDigestIfWithinHours'', VInt 2)]),
     (''Quota'', VStruct
      [(''MaxConcurrentTasks'', VInt 32),
       (''MaxDailyBudgetUSD'', VInt 200),
       (''MaxStorageGB'', VInt 100)]),
     (''Tmux'', VStruct
      [(''IdleTTLMin'', VInt 1440),
       (''AutoReap'', VBool True)]),
     (''Scheduling'', VStruct
      [(''MissPolicy'', VString ''catchup-bounded''),
       (''MissCatchupMaxJobs'', VInt 24)]),
     (''WFQ'', VStruct
      [(''ProjectWeightDefault'', VInt 100),
       (''StarvationGuardSec'', VInt 600),
       (''OvercommitPolicy'', VString ''degrade'')]),
     (''Knowledge'', VStruct
      [(''HiveDocCadenceHours'', VInt 1),
       (''ObsidianVaultPath'', VString ''~/Obsidian/hades-system-max-scope''),
       (''CrossProjectAggr'', VBool True)]),
     (''Gateway'', VStruct
      [(''DisabledTools'', VSlice [])]),
     (''Augmentation'', VStruct
      [(''Enable'', VBool True),
       (''MaxKGTokens'', VInt 25000),
       (''TimeoutMs'', VInt 2000),
       (''OnTimeout'', VString ''graceful_truncate''),
       (''CrossProjectScope'', VString ''opt-in'')]),
     (''Renderers'', VStruct
      [(''EnabledPlatforms'', VSlice [VString ''ink'', VString ''telegram'', VString ''slack'', VString ''email'', VString ''voice'', VString ''web'', VString ''markdown_fallback'']),
       (''VoiceTTSEnabled'', VBool True)]),
     (''Validated'', VBool False)]"

definition default_toml :: goval where
  "default_toml = VStruct
    [(''SchemaVersion'', VString ''1.0''),
     (''DoctrineVersion'', VString ''1.0.0''),
     (''AutoUpgrade'', VString ''patch''),
     (''Workforce'', VStruct
      [(''MinDepth'', VInt 1),
       (''MaxDepth'', VInt 2),
       (''MaxWidthPerLayer'', VInt 4),
       (''Recovery'', VStruct
        [(''TransientRetryBudget'', VInt 3),
         (''PermanentInfraEscalate'', VString ''operator-notify''),
         (''DoctrineRetryBudget'', VInt 2)])]),
     (''HRA'', VStruct
      [(''LayersEnabled'', VSlice [VInt 1, VInt 2]),
       (''CadenceTacticalMin'', VInt 15),
       (''CadenceStrategicMin'', VInt 60),
       (''CadenceArchitecturalMin'', VInt 480),
       (''ReviewerToWorkerRatio'', VInt 2)]),
     (''Research'', VStruct
      [(''Enabled'', VBool True),
       (''MaxBudgetPerSession'', VInt 20),
       (''SOTAOrchestratorEnforced'', VBool True)]),
     (''Gates'', VStruct
      [(''TestTiers'', VStruct
        [(''Enabled'', VSlice [VString ''unit'', VString ''integration'', VString ''compliance'', VString ''analysistest''])]),
       (''CoverageMinPct'', VInt 85)]),
     (''Review'', VStruct
      [(''HiveCadenceMin'', VInt 60),
       (''RotateReviewerEvery'', VInt 3),
       (''RequireDualReview'', VBool False)]),
     (''Transverse'', VStruct
      [(''NoTechDebt'', VBool True),
       (''NoStubs'', VBool True),
       (''BuildFinalProduct'', VBool True),
       (''NoDefer'', VBool True)]),
     (''Autonomy'', VStruct
      [(''Mode'', VString ''assisted''),
       (''CheckMode'', VString ''permissive''),
       (''ConfirmationPolicy'', VStruct
        [(''BudgetBreachThreshold'', VString ''medium''),
         (''SpecAmendmentProposal'', VString ''medium''),
         (''InvariantViolation'', VString ''medium''),
         (''ArchitecturalReviewEscalation'', VString ''medium'')]),
       (''Voting'', VStruct
        [(''PluralityThresholdPct'', VInt 50),
         (''FMVEnable'', VBool False),
         (''EMSEnable'', VBool True)]),
       (''CostDegradation'', VStruct
        [(''SoftCheckUSD'', VInt 10),
         (''HardStopUSD'', VInt 40),
         (''DegradeStrategy'', VString ''downshift-tier'')]),
       (''AmendmentCooldownH'', VInt 72)]),
     (''Merge'', VStruct
      [(''Mode'', VString ''balanced''),
       (''ScoringWeights'', VStruct
        [(''TestPass'', VInt 35),
         (''LintPass'', VInt 20),
         (''Coverage'', VInt 25),
         (''Diff'', VInt 10),
         (''Duration'', VInt 10)]),
       (''AnomalyThresholdPct'', VInt 25),
       (''AnomalyWindowMin'', VInt 90),
       (''MaxCandidates'', VInt 3)]),
     (''Caronte'', VStruct
      [(''BranchPolicy'', VString ''balanced''),
       (''HRAReviewEnabled'', VBool True)]),
     (''Notifications'', VStruct
      [(''SeverityPerDoctrine'', VStruct
        [(''ActionNeededPromotesToUrgent'', VBool False),
         (''UrgentBypassesQuietHours'', VBool True),
         (''InfoImmediateDuringQuiet'', VString ''queue'')]),
       (''QuietHoursStart'', VString ''22:00''),
       (''QuietHoursEnd'', VString ''07:00'')]),
     (''HadesDayCadence'', VStruct
      [(''MorningBriefCron'', VString ''0 8 * * 1-5''),
       (''MorningBriefIfWithinHours'', VInt 2),
       (''EODDigestCron'', VString ''0 18 * * 1-5''),
       (''EODDigestIfWithinHours'', VInt 4)]),
     (''Quota'', VStruct
      [(''MaxConcurrentTasks'', VInt 8),
       (''MaxDailyBudgetUSD'', VInt 50),
       (''MaxStorageGB'', VInt 25)]),
     (''Tmux'', VStruct
      [(''IdleTTLMin'', VInt 480),
       (''AutoReap'', VBool True)]),
     (''Scheduling'', VStruct
      [(''MissPolicy'', VString ''skip''),
       (''MissCatchupMaxJobs'', VInt 0)]),
     (''WFQ'', VStruct
      [(''ProjectWeightDefault'', VInt 50),
       (''StarvationGuardSec'', VInt 300),
       (''OvercommitPolicy'', VString ''queue'')]),
     (''Knowledge'', VStruct
      [(''HiveDocCadenceHours'', VInt 24),
       (''ObsidianVaultPath'', VString ''~/Obsidian/hades-system-default''),
       (''CrossProjectAggr'', VBool False)]),
     (''Gateway'', VStruct
      [(''DisabledTools'', VSlice [])]),
     (''Augmentation'', VStruct
      [(''Enable'', VBool True),
       (''MaxKGTokens'', VInt 10000),
       (''TimeoutMs'', VInt 1000),
       (''OnTimeout'', VString ''graceful_truncate''),
       (''CrossProjectScope'', VString ''opt-in'')]),
     (''Renderers'', VStruct
      [(''EnabledPlatforms'', VSlice [VString ''ink'', VString ''telegram'', VString ''slack'', VString ''email'', VString ''voice'', VString ''web'', VString ''markdown_fallback'']),
       (''VoiceTTSEnabled'', VBool True)]),
     (''Validated'', VBool False)]"

definition capa_firewall_toml :: goval where
  "capa_firewall_toml = VStruct
    [(''SchemaVersion'', VString ''1.0''),
     (''DoctrineVersion'', VString ''1.0.0''),
     (''AutoUpgrade'', VString ''none''),
     (''Workforce'', VStruct
      [(''MinDepth'', VInt 1),
       (''MaxDepth'', VInt 2),
       (''MaxWidthPerLayer'', VInt 2),
       (''Recovery'', VStruct
        [(''TransientRetryBudget'', VInt 0),
         (''PermanentInfraEscalate'', VString ''abort''),
         (''DoctrineRetryBudget'', VInt 0)])]),
     (''HRA'', VStruct
      [(''LayersEnabled'', VSlice [VInt 1, VInt 2, VInt 3]),
       (''CadenceTacticalMin'', VInt 1),
       (''CadenceStrategicMin'', VInt 15),
       (''CadenceArchitecturalMin'', VInt 60),
       (''ReviewerToWorkerRatio'', VInt 1)]),
     (''Research'', VStruct
      [(''Enabled'', VBool True),
       (''MaxBudgetPerSession'', VInt 10),
       (''SOTAOrchestratorEnforced'', VBool True)]),
     (''Gates'', VStruct
      [(''TestTiers'', VStruct
        [(''Enabled'', VSlice [VString ''unit'', VString ''integration'', VString ''compliance'', VString ''adversarial'', VString ''chaos'', VString ''analysistest''])]),
       (''CoverageMinPct'', VInt 95)]),
     (''Review'', VStruct
      [(''HiveCadenceMin'', VInt 15),
       (''RotateReviewerEvery'', VInt 1),
       (''RequireDualReview'', VBool True)]),
     (''Transverse'', VStruct
      [(''NoTechDebt'', VBool True),
       (''NoStubs'', VBool True),
       (''BuildFinalProduct'', VBool True),
       (''NoDefer'', VBool True)]),
     (''Autonomy'', VStruct
      [(''Mode'', VString ''assisted''),
       (''CheckMode'', VString ''strict''),
       (''ConfirmationPolicy'', VStruct
        [(''BudgetBreachThreshold'', VString ''high''),
         (''SpecAmendmentProposal'', VString ''high''),
         (''InvariantViolation'', VString ''high''),
         (''ArchitecturalReviewEscalation'', VString ''low'')]),
       (''Voting'', VStruct
        [(''PluralityThresholdPct'', VInt 100),
         (''FMVEnable'', VBool True),
         (''EMSEnable'', VBool False)]),
       (''CostDegradation'', VStruct
        [(''SoftCheckUSD'', VInt 5),
         (''HardStopUSD'', VInt 20),
         (''DegradeStrategy'', VString ''abort'')]),
       (''AmendmentCooldownH'', VInt 168)]),
     (''Merge'', VStruct
      [(''Mode'', VString ''strict''),
       (''ScoringWeights'', VStruct
        [(''TestPass'', VInt 45),
         (''LintPass'', VInt 20),
         (''Coverage'', VInt 25),
         (''Diff'', VInt 5),
         (''Duration'', VInt 5)]),
       (''AnomalyThresholdPct'', VInt 10),
       (''AnomalyWindowMin'', VInt 30),
       (''MaxCandidates'', VInt 2)]),
     (''Caronte'', VStruct
      [(''BranchPolicy'', VString ''strict''),
       (''HRAReviewEnabled'', VBool True)]),
     (''Notifications'', VStruct
      [(''SeverityPerDoctrine'', VStruct
        [(''ActionNeededPromotesToUrgent'', VBool True),
         (''UrgentBypassesQuietHours'', VBool True),
         (''InfoImmediateDuringQuiet'', VString ''deliver'')]),
       (''QuietHoursStart'', VString ''23:00''),
       (''QuietHoursEnd'', VString ''06:00'')]),
     (''HadesDayCadence'', VStruct
      [(''MorningBriefCron'', VString ''0 9 * * 1-7''),
       (''MorningBriefIfWithinHours'', VInt 1),
       (''EODDigestCron'', VString ''0 17 * * 1-7''),
       (''EODDigestIfWithinHours'', VInt 1)]),
     (''Quota'', VStruct
      [(''MaxConcurrentTasks'', VInt 4),
       (''MaxDailyBudgetUSD'', VInt 20),
       (''MaxStorageGB'', VInt 10)]),
     (''Tmux'', VStruct
      [(''IdleTTLMin'', VInt 240),
       (''AutoReap'', VBool True)]),
     (''Scheduling'', VStruct
      [(''MissPolicy'', VString ''skip''),
       (''MissCatchupMaxJobs'', VInt 0)]),
     (''WFQ'', VStruct
      [(''ProjectWeightDefault'', VInt 30),
       (''StarvationGuardSec'', VInt 180),
       (''OvercommitPolicy'', VString ''reject'')]),
     (''Knowledge'', VStruct
      [(''HiveDocCadenceHours'', VInt 6),
       (''ObsidianVaultPath'', VString ''~/Obsidian/hades-system-capa-firewall''),
       (''CrossProjectAggr'', VBool True)]),
     (''Gateway'', VStruct
      [(''DisabledTools'', VSlice [VString ''mcp_hades-system_caronte_query'', VString ''mcp_hades-system_caronte_context'', VString ''mcp_hades-system_caronte_impact'', VString ''mcp_hades-system_research_agentic''])]),
     (''Augmentation'', VStruct
      [(''Enable'', VBool False),
       (''MaxKGTokens'', VInt 0),
       (''TimeoutMs'', VInt 500),
       (''OnTimeout'', VString ''graceful_truncate''),
       (''CrossProjectScope'', VString ''forbidden'')]),
     (''Renderers'', VStruct
      [(''EnabledPlatforms'', VSlice [VString ''ink'', VString ''email'', VString ''markdown_fallback'']),
       (''VoiceTTSEnabled'', VBool False)]),
     (''Validated'', VBool False)]"

subsection \<open>What a validated doctrine promises\<close>

lemma i64_le: "- (2 ^ 63) \<le> x \<Longrightarrow> i64 x \<le> x"
  unfolding i64_def using zmod_le_nonneg_dividend [of "x + 2 ^ 63" "2 ^ 64"] by simp

lemma capacity_check_sound:
  assumes "1 \<le> d" "1 \<le> w" "in_i64 q" "0 < i64 (d * w) \<longrightarrow> q \<le> i64 (d * w)"
  shows "q \<le> d * w"
proof -
  have pos: "1 \<le> d * w" using mult_mono [of 1 d 1 w] assms(1,2) by simp
  show ?thesis
  proof (cases "0 < i64 (d * w)")
    case True
    with assms(4) i64_le [of "d * w"] pos show ?thesis by simp
  next
    case False
    then have "\<not> in_i64 (d * w)" using i64_id [of "d * w"] pos by auto
    with pos have "2 ^ 63 \<le> d * w" by (simp add: in_i64_def)
    with assms(3) show ?thesis by (simp add: in_i64_def)
  qed
qed

lemma at_least_Nil: "at_least s lo p = [] \<longleftrightarrow> lo \<le> int_at s p"
  by (auto simp: at_least_def outside_def)

lemma percent_Nil: "percent s lo p = [] \<longleftrightarrow> lo \<le> int_at s p \<and> int_at s p \<le> 100"
  by (auto simp: percent_def outside_def)

lemma outside_Nil: "outside bad p x lo hi = [] \<longleftrightarrow> \<not> bad"
  by (simp add: outside_def)

lemma crossfield_Nil: "crossfield bad i = [] \<longleftrightarrow> \<not> bad"
  by (simp add: crossfield_def)

lemmas checks_Nil = at_least_Nil percent_Nil outside_Nil crossfield_Nil

lemma weight_sum_exact:
  assumes "\<forall>p \<in> set weight_paths. 0 \<le> int_at s p \<and> int_at s p \<le> 100"
  shows "weight_sum s = sum_list (map (int_at s) weight_paths)"
proof -
  have small: "i64 a = a" if "0 \<le> a" "a \<le> 500" for a
    by (rule i64_id) (use that in \<open>simp add: in_i64_def\<close>)
  have "foldl (\<lambda>acc p. i64 (acc + int_at s p)) a ps = a + sum_list (map (int_at s) ps)"
    if "\<forall>p \<in> set ps. 0 \<le> int_at s p \<and> int_at s p \<le> 100" "0 \<le> a" "a + 100 * int (length ps) \<le> 500" for a ps
    using that
  proof (induction ps arbitrary: a)
    case (Cons p ps)
    then have "i64 (a + int_at s p) = a + int_at s p" by (intro small) auto
    with Cons.IH [of "a + int_at s p"] Cons.prems show ?case by simp
  qed simp
  from this [OF assms, of 0] show ?thesis by (simp add: weight_sum_def weight_paths_def)
qed

lemma monotone_from: "isMonotoneFrom i xs \<Longrightarrow> xs = map VInt [i + 1..i + int (length xs)]"
proof (induction xs arbitrary: i)
  case (Cons x xs)
  then have x: "x = VInt (i + 1)" "isMonotoneFrom (i + 1) xs" by simp_all
  moreover from Cons.IH [OF x(2)] have "xs = map VInt [(i + 1) + 1..(i + 1) + int (length xs)]" .
  moreover have "[i + 1..i + int (length (x # xs))] = (i + 1) # [(i + 1) + 1..(i + 1) + int (length xs)]"
    by (simp add: upto_rec1 algebra_simps)
  ultimately show ?case by (metis list.simps(9))
qed simp

lemma int_at_i64: "has_type s Schema \<Longrightarrow> (p, tag, TInt) \<in> set schema_leaves \<Longrightarrow> in_i64 (int_at s p)"
proof -
  assume "has_type s Schema" "(p, tag, TInt) \<in> set schema_leaves"
  then obtain w where w: "lookupField s p = Some w" "has_type w TInt" using schema_leaf_lookup by blast
  then show ?thesis by (cases w) (auto simp: int_at_def)
qed

lemma quota_leaf: "(''Quota.MaxConcurrentTasks'', ''decrease'', TInt) \<in> set schema_leaves"
  by code_simp

text \<open>
  The walk of \<open>validateRanks\<close> visits every rank leaf of the registry with its value, so a validated
  doctrine is in particular a legal baseline: it is accepted against itself.
\<close>

definition rank_value :: "goval \<Rightarrow> string" where
  "rank_value v = (case v of VString x \<Rightarrow> x | _ \<Rightarrow> ''<non-string field type>'')"

definition ranked_at :: "string list \<Rightarrow> goval \<Rightarrow> string \<Rightarrow> string \<Rightarrow> (string \<times> string list \<times> string) list \<Rightarrow> bool" where
  "ranked_at ps v q vals found \<longleftrightarrow> (\<exists>segs w. q = dotted (ps @ segs) \<and> segs \<noteq> [] \<and> list_all ident segs
     \<and> lookup_parts v segs = Some w \<and> (q, Split vals CHR '','', rank_value w) \<in> set found)"

lemma ranked_at_field:
  assumes "ranked_at (ps @ [n]) w q vals found" "map_of fs n = Some w" "ident n" "set found \<subseteq> set found'"
  shows "ranked_at ps (VStruct fs) q vals found'"
proof -
  obtain segs w' where "q = dotted (ps @ n # segs)" "list_all ident segs" "lookup_parts w segs = Some w'"
    "(q, Split vals CHR '','', rank_value w') \<in> set found"
    using assms(1) by (auto simp: ranked_at_def)
  then show ?thesis unfolding ranked_at_def
    by (intro exI [of _ "n # segs"] exI [of _ w']) (use assms(2-4) in auto)
qed

lemma ranked_at_mono: "ranked_at ps v q vals found \<Longrightarrow> set found \<subseteq> set found' \<Longrightarrow> ranked_at ps v q vals found'"
  by (auto simp: ranked_at_def)

lemma has_fields_names: "has_fields vs ts \<Longrightarrow> map fst vs = map fst ts"
proof (induction ts arbitrary: vs)
  case Nil
  then show ?case by (cases vs) auto
next
  case (Cons x ts)
  then show ?case by (cases x; cases vs) auto
qed

lemma walk_ranked:
  "wf_type t \<Longrightarrow> list_all ident ps \<Longrightarrow> has_type v t \<Longrightarrow> (q, tag, ft) \<in> set (walkTightenFields t (dotted ps))
    \<Longrightarrow> CutPrefix tag ''rank:'' = Some vals \<Longrightarrow> ranked_at ps v q vals (walkRankFields v t (dotted ps))"
  "wf_fields ts \<Longrightarrow> list_all ident ps \<Longrightarrow> has_fields vs ts \<Longrightarrow> \<forall>(n, w) \<in> set vs. map_of fs n = Some w
    \<Longrightarrow> (q, tag, ft) \<in> set (walk_fields ts (dotted ps)) \<Longrightarrow> CutPrefix tag ''rank:'' = Some vals
    \<Longrightarrow> ranked_at ps (VStruct fs) q vals (rank_fields vs ts (dotted ps))"
proof (induction t and ts arbitrary: ps v and ps vs fs rule: wf_type_wf_fields.induct)
  case (1 ts)
  then obtain vs where v: "v = VStruct vs" "has_fields vs ts" by (cases v) auto
  have "map fst vs = map fst ts" using v(2) by (rule has_fields_names)
  with "1.prems" have "\<forall>(n, w) \<in> set vs. map_of vs n = Some w" by auto
  with 1 v show ?case by auto
next
  case (4 n tg t ts)
  then obtain w vs' where vs: "vs = (n, w) # vs'" "has_type w t" "has_fields vs' ts" by (cases vs) auto
  have j: "join_path (dotted ps) n = dotted (ps @ [n])" using "4.prems" by (simp add: join_dotted)
  have n: "ident n" "list_all ident (ps @ [n])" "map_of fs n = Some w" using "4.prems" by (auto simp: vs)
  show ?case
  proof (cases "(q, tag, ft) \<in> set (walk_fields ts (dotted ps))")
    case True
    with "4.IH"(2) [of ps vs' fs] "4.prems" have "ranked_at ps (VStruct fs) q vals (rank_fields vs' ts (dotted ps))"
      by (simp add: vs)
    then show ?thesis by (rule ranked_at_mono) (simp add: vs)
  next
    case False
    show ?thesis
    proof (cases "is_struct t")
      case True
      with "4.prems" False have "(q, tag, ft) \<in> set (walkTightenFields t (dotted (ps @ [n])))" by (simp add: j)
      with "4.IH"(1) [OF _ n(2) vs(2)] "4.prems"
      have "ranked_at (ps @ [n]) w q vals (walkRankFields w t (dotted (ps @ [n])))" by simp
      then show ?thesis by (rule ranked_at_field [OF _ n(3,1)]) (simp add: vs j True)
    next
      case leaf: False
      with "4.prems" False have "q = dotted (ps @ [n])" "tag = tg" by (simp_all add: j)
      then show ?thesis unfolding ranked_at_def using "4.prems" leaf n
        by (intro exI [of _ "[n]"] exI [of _ w]) (simp add: vs j rank_value_def)
    qed
  qed
qed auto

lemma build_rules_tag:
  "build_rules ls = Inr reg \<Longrightarrow> (p, rule) \<in> set reg
    \<Longrightarrow> \<exists>tag ft. (p, tag, ft) \<in> set ls \<and> parseTightenTag tag ft = Inr rule"
  by (induction ls arbitrary: reg rule: build_rules.induct)
    (fastforce split: if_splits sum.splits)+

lemma parse_rank:
  assumes "parseTightenTag tag ft = Inr rule" "Direction rule = TightenDirRank"
  obtains vals where "CutPrefix tag ''rank:'' = Some vals" "RankList rule = Split vals CHR '',''"
  using assms by (auto simp: parseTightenTag_def parseRank_def Let_def split: if_splits option.splits)

lemma rank_in_list:
  assumes "has_type s Schema" "validateRanks s = []" "map_of TightenRegistry p = Some rule"
    and "Direction rule = TightenDirRank"
  obtains x where "lookupField s p = Some (VString x)" "x \<in> set (RankList rule)"
proof -
  obtain tag ft where leaf: "(p, tag, ft) \<in> set (walkTightenFields Schema [])" and rule: "parseTightenTag tag ft = Inr rule"
    using build_rules_tag [OF registry_built [unfolded buildTightenRegistry_def] map_of_SomeD [OF assms(3)]] by blast
  from parse_rank [OF rule assms(4)] obtain vals where
    vals: "CutPrefix tag ''rank:'' = Some vals" "RankList rule = Split vals CHR '',''" .
  have "ranked_at [] s p vals (walkRankFields s Schema [])"
    using walk_ranked(1) [OF Schema_wf _ assms(1), of "[]" p tag ft vals] leaf vals by simp
  then obtain w where w: "lookupField s p = Some w" "(p, RankList rule, rank_value w) \<in> set (walkRankFields s Schema [])"
    by (auto simp: ranked_at_def lookupField_def Split_dotted vals)
  have "rank_value w \<in> set (RankList rule)"
    using assms(2) w(2) by (fastforce simp: validateRanks_def split: if_splits)
  moreover obtain x where "w = VString x"
    using registry_lookup [OF assms(1,3)] registry_facts(1) [OF assms(3)] assms(4) w(1)
    by (auto simp: rule_fits_def dest!: has_type_inv(3))
  ultimately show ?thesis using that w by (simp add: rank_value_def)
qed

lemma validated_tightens_itself:
  assumes "has_type s Schema" "snd (Validate s) = None"
  shows "tightens s s"
  unfolding tightens_def
proof
  fix p
  have ranks: "validateRanks s = []"
    using assms(2) by (simp add: Validate_def schema_errors_def Let_def split: if_splits)
  show "field_tightens s s p"
  proof (cases "map_of TightenRegistry p")
    case (Some rule)
    obtain w where w: "lookupField s p = Some w" "has_type w (FieldType rule)"
      using registry_lookup [OF assms(1) Some] by blast
    have "tighter rule p w w"
    proof (cases "Direction rule")
      case TightenDirRank
      obtain x where "lookupField s p = Some (VString x)" "x \<in> set (RankList rule)"
        by (rule rank_in_list [OF assms(1) ranks Some TightenDirRank])
      with TightenDirRank w show ?thesis by (auto simp: tighter_def in_set_conv_nth)
    qed (use registry_facts(1) [OF Some] w(2) in \<open>auto simp: tighter_def rule_fits_def dest!: has_type_inv\<close>)
    with Some w show ?thesis by (simp add: field_tightens_def)
  qed (simp add: field_tightens_def)
qed

subsection \<open>The built-in doctrines load\<close>

lemma builtins_typed: "list_all (\<lambda>s. has_type s Schema) [max_scope_toml, default_toml, capa_firewall_toml]"
  by code_simp

lemma builtins_valid: "list_all (\<lambda>s. snd (Validate s) = None) [max_scope_toml, default_toml, capa_firewall_toml]"
  by code_simp

text \<open>Two amendments of the strictest doctrine, which bump its version.\<close>

definition amended :: "string \<Rightarrow> goval" where
  "amended version = set_field ''DoctrineVersion'' (VString version) capa_firewall_toml"

lemma amended_typed: "list_all (\<lambda>s. has_type s Schema) [amended ''1.0.1'', amended ''1.2.0'']"
  by code_simp

lemma map_of_replace: "map_of (map (\<lambda>(m, v). (m, if m = n then w else v)) fs) k
    = (if k = n then map_option (\<lambda>_. w) (map_of fs k) else map_of fs k)"
  by (induction fs) auto

lemma lookup_set_field: "hd (Split p CHR ''.'') \<noteq> n \<Longrightarrow> lookupField (set_field n w s) p = lookupField s p"
  by (cases s; cases "Split p CHR ''.''") (auto simp: lookupField_def map_of_replace)

lemma version_paths: "list_all (\<lambda>(p, r). let h = hd (Split p CHR ''.'') in
    h \<noteq> ''Validated'' \<and> (p = ''DoctrineVersion'' \<or> h \<noteq> ''DoctrineVersion'')) TightenRegistry"
  by code_simp

lemma tightens_flag: "tightens (set_field ''Validated'' v s) b \<longleftrightarrow> tightens s b"
proof -
  have "field_tightens (set_field ''Validated'' v s) b p \<longleftrightarrow> field_tightens s b p" for p
  proof (cases "map_of TightenRegistry p")
    case (Some rule)
    then have "hd (Split p CHR ''.'') \<noteq> ''Validated''"
      using version_paths map_of_SomeD [OF Some] by (auto simp: list_all_iff Let_def)
    note same = lookup_set_field [OF this, of v s]
    show ?thesis unfolding field_tightens_def same ..
  qed (simp add: field_tightens_def)
  then show ?thesis by (simp add: tightens_def)
qed

lemma version_bump_tightens:
  assumes "tightens s s" "lookupField s ''DoctrineVersion'' = Some (VString u)" "bumps u v"
  shows "tightens (set_field ''DoctrineVersion'' (VString v) s) s"
  unfolding tightens_def
proof
  fix p
  show "field_tightens (set_field ''DoctrineVersion'' (VString v) s) s p"
  proof (cases "p = ''DoctrineVersion''")
    case True
    have "lookupField (set_field ''DoctrineVersion'' (VString v) s) ''DoctrineVersion'' = Some (VString v)"
      using assms(2) by (cases s) (auto simp: lookupField_def map_of_replace split: option.splits)
    with assms(2,3) show ?thesis by (simp add: True field_tightens_def version_rule tighter_def)
  next
    case False
    show ?thesis
    proof (cases "map_of TightenRegistry p")
      case (Some rule)
      have "hd (Split p CHR ''.'') \<noteq> ''DoctrineVersion''"
        using version_paths map_of_SomeD [OF Some] False by (auto simp: list_all_iff Let_def)
      note same = lookup_set_field [OF this, of "VString v" s]
      from assms(1) have "field_tightens s s p" by (simp add: tightens_def)
      then show ?thesis unfolding field_tightens_def same .
    qed (simp add: field_tightens_def)
  qed
qed

lemma amended_again: "amended v = set_field ''DoctrineVersion'' (VString v) (amended u)"
  by (simp add: amended_def capa_firewall_toml_def)

lemma amended_valid: "snd (Validate (amended ''1.0.1'')) = None"
  by code_simp

lemma amended_bumps: "semverGreaterOrEqualStrict ''1.0.1'' ''1.0.0'' = Inr True"
    "semverGreaterOrEqualStrict ''1.2.0'' ''1.0.1'' = Inr True"
  by code_simp+

lemma amended_versions: "lookupField capa_firewall_toml ''DoctrineVersion'' = Some (VString ''1.0.0'')"
    "lookupField (amended ''1.0.1'') ''DoctrineVersion'' = Some (VString ''1.0.1'')"
  by code_simp+

lemma amended_accepted:
  "ValidateTighten (Some (amended ''1.0.1'')) (Some capa_firewall_toml) = None"
  "ValidateTighten (Some (amended ''1.2.0'')) (Some (amended ''1.0.1'')) = None"
proof -
  have "tightens capa_firewall_toml capa_firewall_toml" "tightens (amended ''1.0.1'') (amended ''1.0.1'')"
    using validated_tightens_itself builtins_typed builtins_valid amended_typed amended_valid by simp_all
  then have "tightens (amended ''1.0.1'') capa_firewall_toml" "tightens (amended ''1.2.0'') (amended ''1.0.1'')"
    using version_bump_tightens [OF _ amended_versions(1) amended_bumps(1) [unfolded semver_ge_iff]]
      version_bump_tightens [OF _ amended_versions(2) amended_bumps(2) [unfolded semver_ge_iff]]
    by (simp_all add: amended_def [of "''1.0.1''"] amended_again [of "''1.2.0''" "''1.0.1''"])
  then show "ValidateTighten (Some (amended ''1.0.1'')) (Some capa_firewall_toml) = None"
    "ValidateTighten (Some (amended ''1.2.0'')) (Some (amended ''1.0.1'')) = None"
    using builtins_typed amended_typed by (simp_all add: ValidateTighten_None_iff)
qed

subsection \<open>Properties\<close>

text \<open>C25: The registry of tighten rules is total and well typed: building it does not panic, and on
  every value of type \<open>Schema\<close> each of its paths resolves to a field whose type is the one the rule
  was registered with and that its direction can compare. The branch for unresolvable paths and the
  silent passes of the comparisons on a wrong kind are unreachable.\<close>

theorem registry_well_typed:
  "buildTightenRegistry = Inr TightenRegistry
   \<and> (\<forall>s p rule. has_type s Schema \<longrightarrow> map_of TightenRegistry p = Some rule \<longrightarrow>
        rule_fits rule \<and> (\<exists>w. lookupField s p = Some w \<and> has_type w (FieldType rule)))"
  using registry_built registry_facts(1) registry_lookup by blast

theorem registry_well_typed_witness:
  "\<exists>w. lookupField capa_firewall_toml ''DoctrineVersion'' = Some w \<and> has_type w TString"
  using registry_well_typed version_rule builtins_typed by fastforce

text \<open>C10: On schemas \<open>ValidateTighten\<close> decides the specification and reports all of it: it returns
  no error iff the override tightens the baseline, and otherwise the error is the hard one and lists,
  in path order, exactly the registered fields whose value is not tighter.\<close>

theorem ValidateTighten_decides:
  assumes "has_type ov Schema" "has_type b Schema"
  shows "case ValidateTighten (Some ov) (Some b) of
      None \<Rightarrow> tightens ov b
    | Some (ErrTightenViolation faults info) \<Rightarrow> \<not> tightens ov b \<and> info = []
        \<and> map RulePath faults = filter (\<lambda>p. \<not> field_tightens ov b p) (sort (map fst TightenRegistry))
    | Some _ \<Rightarrow> False"
  using no_hard_errors [OF assms] check_paths [OF assms, of tighten_paths]
  by (simp add: ValidateTighten_def Let_def del: map_map)

theorem ValidateTighten_decides_witness:
  "case ValidateTighten (Some default_toml) (Some capa_firewall_toml) of
      None \<Rightarrow> tightens default_toml capa_firewall_toml
    | Some (ErrTightenViolation faults info) \<Rightarrow> \<not> tightens default_toml capa_firewall_toml \<and> info = []
        \<and> map RulePath faults = filter (\<lambda>p. \<not> field_tightens default_toml capa_firewall_toml p) (sort (map fst TightenRegistry))
    | Some _ \<Rightarrow> False"
  by (rule ValidateTighten_decides) (use builtins_typed in simp_all)

text \<open>C17: Amendments cannot drift: however long the chain of overrides, if each was accepted against
  the one before it, the last one is accepted against the first.\<close>

theorem override_chain_never_loosens:
  assumes "\<forall>s \<in> set (base # chain). has_type s Schema" "chain \<noteq> []"
    and "successively (\<lambda>b ov. ValidateTighten (Some ov) (Some b) = None) (base # chain)"
  shows "ValidateTighten (Some (last chain)) (Some base) = None"
  using assms
proof (induction chain arbitrary: base)
  case (Cons s chain)
  have s: "tightens s base" "has_type s Schema" "has_type base Schema"
    using Cons.prems by (auto simp: ValidateTighten_None_iff)
  show ?case
  proof (cases "chain = []")
    case False
    then have "ValidateTighten (Some (last chain)) (Some s) = None" "has_type (last chain) Schema"
      using Cons by auto
    with s False show ?thesis by (metis ValidateTighten_None_iff last_ConsR tightens_trans)
  qed (use s in \<open>simp add: ValidateTighten_None_iff\<close>)
qed simp

theorem override_chain_never_loosens_witness:
  "ValidateTighten (Some (last [amended ''1.0.1'', amended ''1.2.0''])) (Some capa_firewall_toml) = None"
  by (rule override_chain_never_loosens) (use builtins_typed amended_typed amended_accepted in simp_all)

text \<open>C32: What a validated doctrine promises, over the mathematical integers although the checks are
  64-bit: the depths are ordered and at most 32, the scoring weights are percentages that sum to 100,
  the hard stop lies above the soft check, the layers are 1, 2, ..., n, and the task quota is within
  the workforce capacity, also when the product of depth and width wraps around.\<close>

theorem validated_doctrine_bounds:
  assumes "has_type s Schema" "snd (Validate s) = None"
  shows "1 \<le> int_at s ''Workforce.MinDepth'' \<and> int_at s ''Workforce.MinDepth'' \<le> int_at s ''Workforce.MaxDepth''
      \<and> int_at s ''Workforce.MaxDepth'' \<le> 32
    \<and> (\<forall>p \<in> set weight_paths. 0 \<le> int_at s p \<and> int_at s p \<le> 100)
    \<and> sum_list (map (int_at s) weight_paths) = 100
    \<and> int_at s ''Autonomy.CostDegradation.SoftCheckUSD'' < int_at s ''Autonomy.CostDegradation.HardStopUSD''
    \<and> slice_at s ''HRA.LayersEnabled'' = map VInt [1..int (length (slice_at s ''HRA.LayersEnabled''))]
    \<and> 1 \<le> int_at s ''Quota.MaxConcurrentTasks''
    \<and> int_at s ''Quota.MaxConcurrentTasks'' \<le> int_at s ''Workforce.MaxDepth'' * int_at s ''Workforce.MaxWidthPerLayer''"
proof -
  have "validateRanges s = []" "validateCrossField s = []"
    using assms(2) by (simp_all add: Validate_def schema_errors_def Let_def split: if_splits)
  note facts = this [unfolded validateRanges_def validateCrossField_def concat_append append_is_Nil_conv concat.simps]
  have weights: "\<forall>p \<in> set weight_paths. 0 \<le> int_at s p \<and> int_at s p \<le> 100"
    using facts by (simp add: checks_Nil)
  have "1 \<le> int_at s ''Workforce.MaxDepth''" "1 \<le> int_at s ''Workforce.MaxWidthPerLayer''"
    "0 < capacity s \<longrightarrow> int_at s ''Quota.MaxConcurrentTasks'' \<le> capacity s"
    using facts by (simp_all add: checks_Nil not_less, linarith+)
  from capacity_check_sound [OF this(1,2) int_at_i64 [OF assms(1) quota_leaf] this(3) [unfolded capacity_def]]
  have "int_at s ''Quota.MaxConcurrentTasks'' \<le> int_at s ''Workforce.MaxDepth'' * int_at s ''Workforce.MaxWidthPerLayer''" .
  moreover have "slice_at s ''HRA.LayersEnabled'' = map VInt [1..int (length (slice_at s ''HRA.LayersEnabled''))]"
    using facts monotone_from [of 0 "slice_at s ''HRA.LayersEnabled''"] by (simp add: checks_Nil)
  ultimately show ?thesis
    using facts weights by (simp add: checks_Nil weight_sum_exact not_less)
qed

theorem validated_doctrine_bounds_witness:
  "int_at capa_firewall_toml ''Quota.MaxConcurrentTasks''
    \<le> int_at capa_firewall_toml ''Workforce.MaxDepth'' * int_at capa_firewall_toml ''Workforce.MaxWidthPerLayer''"
  using validated_doctrine_bounds [of capa_firewall_toml] builtins_typed builtins_valid by simp

end
