(* ===== verification/Doctrine_Reload.thy ===== *)
theory Doctrine_Reload
  imports Doctrine_Validate "HOL-Library.AList"
begin

text \<open>
  Loading, installing and hot-reloading doctrines: the strict parser (\<open>parser/parser.go\<close>), the loader of
  the built-ins (\<open>builtin/builtin.go\<close>), the accessor that resolves the doctrine of a project
  (\<open>active/active.go\<close>) and the file watcher with its debouncer, storm suppression, health monitor and
  reload action (\<open>reload/\<close>).

  The TOML decoder is third-party code and a parameter: for the bytes of a file it gives an error, or
  the decoded schema with the top-level keys that were defined and the keys that matched no field.
  File contents, clock readings and the success of system calls are inputs of the operations that use
  them. Texts of errors and the time stamps of events are not kept.
\<close>

subsection \<open>The parser (parser.go)\<close>

record decoded =
  dec_schema :: goval
  dec_defined :: "string list"
  dec_undecoded :: "string list"

datatype parse_err = ErrParseFailed | TransverseOverrideAttempt | UnknownKey string nat

type_synonym decoder = "string \<Rightarrow> decoded option"

definition ParseStrict :: "decoder \<Rightarrow> bool \<Rightarrow> string \<Rightarrow> parse_err + goval" where
  "ParseStrict decode allowTransverse data =
     (case decode data of
        None \<Rightarrow> Inl ErrParseFailed
      | Some md \<Rightarrow>
          if \<not> allowTransverse \<and> ''doctrine_transverse'' \<in> set (dec_defined md) then Inl TransverseOverrideAttempt
          else if dec_undecoded md \<noteq> [] then
            Inl (UnknownKey (hd (sort (dec_undecoded md))) (length (dec_undecoded md)))
          else Inr (dec_schema md))"

subsection \<open>The built-in registry (builtin.go)\<close>

datatype LoadStage = StageEmbed | StageParse | StageValidate

type_synonym load_err = "string \<times> LoadStage"

definition canonicalNames :: "string list" where
  "canonicalNames = [''max-scope'', ''default'', ''capa-firewall'']"

definition loadOneFromFS :: "decoder \<Rightarrow> (string \<Rightarrow> string option) \<Rightarrow> string \<Rightarrow> load_err + goval" where
  "loadOneFromFS decode efs name =
     (let source = ''embed:'' @ name @ ''.toml'' in
      case efs (name @ ''.toml'') of
        None \<Rightarrow> Inl (source, StageEmbed)
      | Some data \<Rightarrow>
          (case ParseStrict decode True data of
             Inl _ \<Rightarrow> Inl (source, StageParse)
           | Inr target \<Rightarrow>
               (case Validate target of
                  (s, None) \<Rightarrow> Inr s
                | (_, Some _) \<Rightarrow> Inl (source, StageValidate))))"

fun load_names :: "decoder \<Rightarrow> (string \<Rightarrow> string option) \<Rightarrow> string list \<Rightarrow> (string \<rightharpoonup> goval) \<Rightarrow> load_err list
    \<Rightarrow> (string \<rightharpoonup> goval) \<times> load_err list" where
  "load_names decode efs [] reg errs = (reg, sort_key fst errs)"
| "load_names decode efs (n # ns) reg errs =
     (case loadOneFromFS decode efs n of
        Inl le \<Rightarrow> load_names decode efs ns reg (errs @ [le])
      | Inr s \<Rightarrow> load_names decode efs ns (reg(n \<mapsto> s)) errs)"

definition loadAllFromFS :: "decoder \<Rightarrow> (string \<Rightarrow> string option) \<Rightarrow> (string \<rightharpoonup> goval) \<times> load_err list" where
  "loadAllFromFS decode efs = load_names decode efs canonicalNames (\<lambda>_. None) []"

text \<open>\<open>MustLoadAll\<close>: \<open>None\<close> is the panic.\<close>

definition MustLoadAll :: "decoder \<Rightarrow> (string \<Rightarrow> string option) \<Rightarrow> (string \<rightharpoonup> goval) option" where
  "MustLoadAll decode efs =
     (case loadAllFromFS decode efs of (reg, errs) \<Rightarrow> if errs = [] then Some reg else None)"

subsection \<open>The accessor (active.go)\<close>

record Accessor =
  userDefault :: "goval option"
  perProject :: "string \<rightharpoonup> goval"
  acc_registry :: "(string \<rightharpoonup> goval) option"

definition NewAccessor :: Accessor where
  "NewAccessor = \<lparr>userDefault = None, perProject = (\<lambda>_. None), acc_registry = None\<rparr>"

datatype acc_err = ErrDoctrineNotFound | AccessorPanic

definition SetRegistry :: "(string \<rightharpoonup> goval) \<Rightarrow> Accessor \<Rightarrow> Accessor" where
  "SetRegistry reg a = a\<lparr>acc_registry := Some reg\<rparr>"

definition max_scope_of :: "Accessor \<Rightarrow> goval option" where
  "max_scope_of a = (case acc_registry a of None \<Rightarrow> None | Some reg \<Rightarrow> reg ''max-scope'')"

definition Active :: "Accessor \<Rightarrow> acc_err + goval" where
  "Active a =
     (case userDefault a of
        Some s \<Rightarrow> Inr s
      | None \<Rightarrow> (case max_scope_of a of Some s \<Rightarrow> Inr s | None \<Rightarrow> Inl AccessorPanic))"

definition ByName :: "Accessor \<Rightarrow> string \<Rightarrow> acc_err + goval" where
  "ByName a name =
     (case acc_registry a of
        None \<Rightarrow> Inl ErrDoctrineNotFound
      | Some reg \<Rightarrow>
          if name = [] then Inl ErrDoctrineNotFound
          else (case reg name of None \<Rightarrow> Inl ErrDoctrineNotFound | Some s \<Rightarrow> Inr s))"

definition SetUserDefault :: "string \<Rightarrow> Accessor \<Rightarrow> acc_err option \<times> Accessor" where
  "SetUserDefault name a =
     (case acc_registry a of
        None \<Rightarrow> (Some ErrDoctrineNotFound, a)
      | Some reg \<Rightarrow>
          (case reg name of
             None \<Rightarrow> (Some ErrDoctrineNotFound, a)
           | Some s \<Rightarrow> (None, a\<lparr>userDefault := Some s\<rparr>)))"

definition SetForProject :: "string \<Rightarrow> goval option \<Rightarrow> Accessor \<Rightarrow> acc_err + Accessor" where
  "SetForProject projectID schema a =
     (case schema of
        None \<Rightarrow> Inl AccessorPanic
      | Some s \<Rightarrow>
          if projectID = [] then Inl AccessorPanic
          else Inr (a\<lparr>perProject := (perProject a)(projectID \<mapsto> s)\<rparr>))"

definition ClearForProject :: "string \<Rightarrow> Accessor \<Rightarrow> Accessor" where
  "ClearForProject projectID a = a\<lparr>perProject := (perProject a)(projectID := None)\<rparr>"

definition For :: "Accessor \<Rightarrow> string \<Rightarrow> acc_err + goval" where
  "For a projectID =
     (case perProject a projectID of
        Some s \<Rightarrow> Inr s
      | None \<Rightarrow>
          (case userDefault a of
             Some s \<Rightarrow> Inr s
           | None \<Rightarrow> (case max_scope_of a of Some s \<Rightarrow> Inr s | None \<Rightarrow> Inl AccessorPanic)))"

subsection \<open>Storm suppression (safety.go)\<close>

record failureRecord =
  failures :: "time list"
  suppressUntil :: time

definition recordFailureAt :: "time \<Rightarrow> duration \<Rightarrow> failureRecord \<Rightarrow> failureRecord \<times> nat" where
  "recordFailureAt t window r =
     (let keep = filter (\<lambda>ft. ft > t - window) (failures r) @ [t]
      in (r\<lparr>failures := keep\<rparr>, length keep))"

definition isSuppressed :: "time \<Rightarrow> failureRecord \<Rightarrow> bool" where
  "isSuppressed t r \<longleftrightarrow> t < suppressUntil r"

definition snapshotCount :: "time \<Rightarrow> duration \<Rightarrow> failureRecord \<Rightarrow> nat" where
  "snapshotCount t window r = length (filter (\<lambda>ft. ft > t - window) (failures r))"

abbreviation fresh_record :: failureRecord where
  "fresh_record \<equiv> \<lparr>failures = [], suppressUntil = 0\<rparr>"

subsection \<open>The watcher (reload.go)\<close>

datatype reload_event =
    DoctrineReloaded string string string string string
  | DoctrineReloadFailed string string string
  | DoctrineTightenViolationRejected string string string string
  | DoctrineSchemaDeprecated string string string string
  | DoctrineRevertSuppressedCooldown string nat time
  | DoctrineWatcherStalled time
  | DoctrineWatcherRestarted string
  | DoctrineWatcherOverflow nat

record WatcherOpts =
  DebounceWindow :: duration
  StormCooldown :: duration
  StormThreshold :: int
  StormWindow :: duration
  StallTimeout :: duration
  baselineProvider :: "(string \<Rightarrow> goval option) option"
  watcher_parse :: "string \<Rightarrow> parse_err + goval"

definition default_opts :: "WatcherOpts \<Rightarrow> WatcherOpts" where
  "default_opts o1 = o1
     \<lparr>DebounceWindow := (if DebounceWindow o1 = 0 then 2 * second else DebounceWindow o1),
      StormCooldown := (if StormCooldown o1 = 0 then 1 * minute else StormCooldown o1),
      StormThreshold := (if StormThreshold o1 = 0 then 5 else StormThreshold o1),
      StormWindow := (if StormWindow o1 = 0 then 60 * second else StormWindow o1),
      StallTimeout := (if StallTimeout o1 = 0 then 5 * minute else StallTimeout o1)\<rparr>"

record Watcher =
  watched :: "(string \<times> string) list"
  failureCounter :: "string \<rightharpoonup> failureRecord"
  forcedSource :: "string \<rightharpoonup> string"
  active_acc :: Accessor
  pathsCount :: nat
  lastEventAt :: time
  restartNeeded :: bool
  reload_log :: "reload_event list"
  reloadEventSubs :: "reload_event list list"
  reloadFailedEventSubs :: "reload_event list list"

definition subscriberBufferSize :: nat where "subscriberBufferSize = 8"

definition offer :: "reload_event \<Rightarrow> reload_event list \<Rightarrow> reload_event list" where
  "offer ev buf = (if length buf < subscriberBufferSize then buf @ [ev] else buf)"

definition emit :: "reload_event \<Rightarrow> Watcher \<Rightarrow> Watcher" where
  "emit ev w = w\<lparr>reload_log := reload_log w @ [ev]\<rparr>"

definition broadcastReloadEvent :: "reload_event \<Rightarrow> Watcher \<Rightarrow> Watcher" where
  "broadcastReloadEvent ev w = w\<lparr>reloadEventSubs := map (offer ev) (reloadEventSubs w)\<rparr>"

definition broadcastReloadFailedEvent :: "reload_event \<Rightarrow> Watcher \<Rightarrow> Watcher" where
  "broadcastReloadFailedEvent ev w = w\<lparr>reloadFailedEventSubs := map (offer ev) (reloadFailedEventSubs w)\<rparr>"

definition emitReloadFailed :: "reload_event \<Rightarrow> Watcher \<Rightarrow> Watcher" where
  "emitReloadFailed ev w = broadcastReloadFailedEvent ev (emit ev w)"

definition SubscribeReloadEvents :: "Watcher \<Rightarrow> Watcher" where
  "SubscribeReloadEvents w = w\<lparr>reloadEventSubs := reloadEventSubs w @ [[]]\<rparr>"

definition UnsubscribeReloadEvents :: "nat \<Rightarrow> Watcher \<Rightarrow> Watcher" where
  "UnsubscribeReloadEvents i w =
     w\<lparr>reloadEventSubs := take i (reloadEventSubs w) @ drop (Suc i) (reloadEventSubs w)\<rparr>"

definition loadOrCreateFailureRecord :: "string \<Rightarrow> Watcher \<Rightarrow> failureRecord" where
  "loadOrCreateFailureRecord path w =
     (case failureCounter w path of Some r \<Rightarrow> r | None \<Rightarrow> fresh_record)"

definition recordFailure :: "WatcherOpts \<Rightarrow> string \<Rightarrow> time \<Rightarrow> Watcher \<Rightarrow> Watcher" where
  "recordFailure opts path now w =
     (let (r, count) = recordFailureAt now (StormWindow opts) (loadOrCreateFailureRecord path w);
          r' = (if int count \<ge> StormThreshold opts then r\<lparr>suppressUntil := now + StormCooldown opts\<rparr> else r)
      in w\<lparr>failureCounter := (failureCounter w)(path \<mapsto> r')\<rparr>)"

definition clearFailures :: "string \<Rightarrow> Watcher \<Rightarrow> Watcher" where
  "clearFailures path w =
     (case failureCounter w path of
        None \<Rightarrow> w
      | Some r \<Rightarrow> w\<lparr>failureCounter := (failureCounter w)(path \<mapsto> fresh_record)\<rparr>)"

definition isStormSuppressed :: "string \<Rightarrow> time \<Rightarrow> Watcher \<Rightarrow> bool" where
  "isStormSuppressed path now w =
     (case failureCounter w path of None \<Rightarrow> False | Some r \<Rightarrow> isSuppressed now r)"

definition failureCountSnapshot :: "WatcherOpts \<Rightarrow> string \<Rightarrow> time \<Rightarrow> Watcher \<Rightarrow> nat" where
  "failureCountSnapshot opts path now w =
     (case failureCounter w path of None \<Rightarrow> 0 | Some r \<Rightarrow> snapshotCount now (StormWindow opts) r)"

definition suppressedUntil :: "string \<Rightarrow> Watcher \<Rightarrow> time" where
  "suppressedUntil path w = (case failureCounter w path of None \<Rightarrow> 0 | Some r \<Rightarrow> suppressUntil r)"

subsection \<open>Paths\<close>

text \<open>\<open>filepath.Base\<close>, the extension of a base name, and \<open>validatePath\<close>: for an absolute path without
  parent segments, being its own \<open>filepath.Clean\<close> means no empty and no dot segments.\<close>

definition Base :: "string \<Rightarrow> string" where
  "Base path =
     (if path = [] then ''.''
      else case filter (\<lambda>seg. seg \<noteq> []) (Split path CHR ''/'') of [] \<Rightarrow> ''/'' | segs \<Rightarrow> last segs)"

definition trim_ext :: "string \<Rightarrow> string" where
  "trim_ext base = (if CHR ''.'' \<in> set base then rev (tl (dropWhile (\<lambda>c. c \<noteq> CHR ''.'') (rev base))) else base)"

definition doctrineNameFromSchema :: "string \<Rightarrow> string" where
  "doctrineNameFromSchema path = trim_ext (Base path)"

datatype path_err = EmptyPath | NotAbsolute | PathTraversal | NotCanonical | StatFailed | FsAddFailed

definition validatePath :: "string \<Rightarrow> path_err option" where
  "validatePath path =
     (if path = [] then Some EmptyPath
      else if hd path \<noteq> CHR ''/'' then Some NotAbsolute
      else let segs = tl (Split path CHR ''/'') in
        if ''..'' \<in> set segs then Some PathTraversal
        else if path \<noteq> ''/'' \<and> ([] \<in> set segs \<or> ''.'' \<in> set segs) then Some NotCanonical
        else None)"

definition AddPath :: "bool \<Rightarrow> bool \<Rightarrow> string \<Rightarrow> string \<Rightarrow> Watcher \<Rightarrow> path_err option \<times> Watcher" where
  "AddPath stat_ok fsadd_ok path projectID w =
     (case validatePath path of
        Some e \<Rightarrow> (Some e, w)
      | None \<Rightarrow>
          if \<not> stat_ok then (Some StatFailed, w)
          else if \<not> fsadd_ok then (Some FsAddFailed, w)
          else (None, w\<lparr>watched := AList.update path projectID (watched w),
                  pathsCount := (if map_of (watched w) path = None then Suc (pathsCount w) else pathsCount w)\<rparr>))"

subsection \<open>The reload action (validate\_swap.go)\<close>

text \<open>What one run of the action sees: whether its context is done, the bytes of the file if it can be
  read, and the clock when it checks the suppression and when it records a failure.\<close>

record attempt =
  ctx_done :: bool
  file_bytes :: "string option"
  check_time :: time
  fail_time :: time

definition peekForcedSource :: "string \<Rightarrow> Watcher \<Rightarrow> string" where
  "peekForcedSource path w = (case forcedSource w path of Some src \<Rightarrow> src | None \<Rightarrow> ''operator-edit'')"

definition consumeForcedSource :: "string \<Rightarrow> Watcher \<Rightarrow> string \<times> Watcher" where
  "consumeForcedSource path w =
     (case forcedSource w path of
        Some src \<Rightarrow> (src, w\<lparr>forcedSource := (forcedSource w)(path := None)\<rparr>)
      | None \<Rightarrow> (''operator-edit'', w))"

definition project_of :: "string \<Rightarrow> Watcher \<Rightarrow> string" where
  "project_of path w = (case map_of (watched w) path of Some pid \<Rightarrow> pid | None \<Rightarrow> [])"

definition fail_reload :: "WatcherOpts \<Rightarrow> string \<Rightarrow> string \<Rightarrow> string \<Rightarrow> time \<Rightarrow> Watcher \<Rightarrow> Watcher" where
  "fail_reload opts path pid phase now w =
     recordFailure opts path now (emitReloadFailed (DoctrineReloadFailed path pid phase) w)"

definition reject_tighten :: "WatcherOpts \<Rightarrow> string \<Rightarrow> string \<Rightarrow> string \<Rightarrow> time \<Rightarrow> Watcher \<Rightarrow> Watcher" where
  "reject_tighten opts path pid name now w =
     recordFailure opts path now
       (broadcastReloadFailedEvent (DoctrineReloadFailed path pid ''validate'')
         (emit (DoctrineTightenViolationRejected path pid name (peekForcedSource path w)) w))"

definition install :: "string \<Rightarrow> goval \<Rightarrow> Accessor \<Rightarrow> Accessor" where
  "install pid s a =
     (if pid = [] then a\<lparr>userDefault := Some s\<rparr>
      else case SetForProject pid (Some s) a of Inr a' \<Rightarrow> a' | Inl _ \<Rightarrow> a)"

definition finish_reload :: "string \<Rightarrow> string \<Rightarrow> string \<Rightarrow> goval \<Rightarrow> Watcher \<Rightarrow> Watcher" where
  "finish_reload path pid name s w =
     (let w1 = w\<lparr>active_acc := install pid s (active_acc w)\<rparr>;
          (src, w2) = consumeForcedSource path w1;
          ev = DoctrineReloaded path pid name (string_at s ''DoctrineVersion'') src
      in broadcastReloadEvent ev (clearFailures path (emit ev w2)))"

text \<open>The part of the action after a candidate has been parsed.\<close>

definition swap_candidate :: "WatcherOpts \<Rightarrow> string \<Rightarrow> string \<Rightarrow> time \<Rightarrow> goval \<Rightarrow> Watcher \<Rightarrow> Watcher" where
  "swap_candidate opts path pid now cand w =
     (let name = doctrineNameFromSchema path;
          w1 = (if string_at cand ''SchemaVersion'' \<noteq> CurrentSchemaVersion
                then emit (DoctrineSchemaDeprecated path pid name (string_at cand ''SchemaVersion'')) w else w)
      in case Validate cand of
           (_, Some _) \<Rightarrow> fail_reload opts path pid ''validate'' now w1
         | (s, None) \<Rightarrow>
             (if pid = [] then finish_reload path pid name s w1
              else case baselineProvider opts of
                None \<Rightarrow> fail_reload opts path pid ''load'' now w1
              | Some BaselineFor \<Rightarrow>
                  (case BaselineFor name of
                     None \<Rightarrow> fail_reload opts path pid ''load'' now w1
                   | Some baseline \<Rightarrow>
                       (case ValidateTighten (Some s) (Some baseline) of
                          Some _ \<Rightarrow> reject_tighten opts path pid name now w1
                        | None \<Rightarrow> finish_reload path pid name s w1))))"

definition runReloadAction :: "WatcherOpts \<Rightarrow> attempt \<Rightarrow> string \<Rightarrow> Watcher \<Rightarrow> Watcher" where
  "runReloadAction opts at path w =
     (if ctx_done at then w
      else if isStormSuppressed path (check_time at) w then
        emit (DoctrineRevertSuppressedCooldown path (failureCountSnapshot opts path (check_time at) w)
          (suppressedUntil path w)) w
      else let pid = project_of path w in
        case file_bytes at of
          None \<Rightarrow> fail_reload opts path pid ''read'' (fail_time at) w
        | Some data \<Rightarrow>
            (case watcher_parse opts data of
               Inl _ \<Rightarrow> fail_reload opts path pid ''parse'' (fail_time at) w
             | Inr cand \<Rightarrow> swap_candidate opts path pid (fail_time at) cand w))"

subsection \<open>Forced reloads, overflow and health (notify\_force.go, health.go)\<close>

definition NotifyForce :: "WatcherOpts \<Rightarrow> attempt \<Rightarrow> string \<Rightarrow> Watcher \<Rightarrow> bool \<times> Watcher" where
  "NotifyForce opts at path w =
     (if map_of (watched w) path = None then (False, w)
      else (True, runReloadAction opts (at\<lparr>ctx_done := False\<rparr>) path
              (w\<lparr>forcedSource := (forcedSource w)(path \<mapsto> ''amendment-apply'')\<rparr>)))"

text \<open>\<open>handleOverflow\<close> re-reads every registered path, in the order of the map's iteration.\<close>

fun reload_all :: "WatcherOpts \<Rightarrow> (string \<Rightarrow> attempt) \<Rightarrow> string list \<Rightarrow> Watcher \<Rightarrow> Watcher" where
  "reload_all opts at [] w = w"
| "reload_all opts at (p # ps) w = reload_all opts at ps
     (runReloadAction opts (at p) p (w\<lparr>forcedSource := (forcedSource w)(p \<mapsto> ''force-reload-all'')\<rparr>))"

definition handleOverflow :: "WatcherOpts \<Rightarrow> (string \<Rightarrow> attempt) \<Rightarrow> string list \<Rightarrow> Watcher \<Rightarrow> Watcher" where
  "handleOverflow opts at paths w =
     (let w1 = emit (DoctrineWatcherOverflow (length paths)) (reload_all opts at paths w)
      in w1\<lparr>restartNeeded := True\<rparr>)"

definition healthCheckInterval :: "WatcherOpts \<Rightarrow> duration" where
  "healthCheckInterval opts = max (go_quot (StallTimeout opts) 5) 50000000"

text \<open>One tick of the health monitor.\<close>

definition health_tick :: "WatcherOpts \<Rightarrow> time \<Rightarrow> Watcher \<Rightarrow> Watcher" where
  "health_tick opts now w =
     (if lastEventAt w = 0 then w\<lparr>lastEventAt := now\<rparr>
      else if tsub now (lastEventAt w) > StallTimeout opts
      then (emit (DoctrineWatcherStalled (lastEventAt w)) w)\<lparr>restartNeeded := True, lastEventAt := now\<rparr>
      else w)"

text \<open>\<open>performRestart\<close> re-adds every registered path; \<open>add_ok\<close> tells which additions succeed.\<close>

fun readd :: "(string \<Rightarrow> bool) \<Rightarrow> string list \<Rightarrow> Watcher \<Rightarrow> Watcher" where
  "readd add_ok [] w = w"
| "readd add_ok (p # ps) w =
     readd add_ok ps (if add_ok p then w else emit (DoctrineReloadFailed p [] ''load'') w)"

definition performRestart :: "bool \<Rightarrow> (string \<Rightarrow> bool) \<Rightarrow> string list \<Rightarrow> string \<Rightarrow> Watcher \<Rightarrow> bool \<times> Watcher" where
  "performRestart new_ok add_ok paths reason w =
     (if \<not> new_ok then (False, w)
      else (True, emit (DoctrineWatcherRestarted reason) (readd add_ok paths w)))"

subsection \<open>What a reload can install\<close>

lemmas watcher_defs = emit_def broadcastReloadEvent_def broadcastReloadFailedEvent_def emitReloadFailed_def
  recordFailure_def clearFailures_def Let_def

lemma quiet_active [simp]:
  "active_acc (emit ev w) = active_acc w"
  "active_acc (broadcastReloadEvent ev w) = active_acc w"
  "active_acc (broadcastReloadFailedEvent ev w) = active_acc w"
  "active_acc (emitReloadFailed ev w) = active_acc w"
  "active_acc (recordFailure opts path now w) = active_acc w"
  "active_acc (clearFailures path w) = active_acc w"
  "active_acc (fail_reload opts path pid phase now w) = active_acc w"
  "active_acc (reject_tighten opts path pid name now w) = active_acc w"
  "active_acc (snd (consumeForcedSource path w)) = active_acc w"
  by (simp_all add: watcher_defs fail_reload_def reject_tighten_def consumeForcedSource_def
      split: prod.splits option.splits)

lemma finish_active: "active_acc (finish_reload path pid name s w) = install pid s (active_acc w)"
  by (simp add: finish_reload_def Let_def case_prod_beta)

text \<open>A doctrine is installable when it comes out of a successful validation and, for a project, was
  accepted against the baseline its file names.\<close>

definition validated :: "goval \<Rightarrow> bool" where
  "validated s \<longleftrightarrow> (\<exists>cand. Validate cand = (s, None))"

definition accepted :: "WatcherOpts \<Rightarrow> goval \<Rightarrow> bool" where
  "accepted opts s \<longleftrightarrow> (\<exists>BaselineFor name b. baselineProvider opts = Some BaselineFor \<and> BaselineFor name = Some b
     \<and> ValidateTighten (Some s) (Some b) = None)"

lemma swap_active:
  "active_acc (swap_candidate opts path pid now cand w) = active_acc w
   \<or> (\<exists>s. Validate cand = (s, None) \<and> (pid \<noteq> [] \<longrightarrow> accepted opts s)
        \<and> active_acc (swap_candidate opts path pid now cand w) = install pid s (active_acc w))"
  by (auto simp: swap_candidate_def Let_def finish_active accepted_def split: prod.splits option.splits if_splits)

lemma run_active:
  "active_acc (runReloadAction opts at path w) = active_acc w
   \<or> (\<exists>s pid. validated s \<and> (pid \<noteq> [] \<longrightarrow> accepted opts s) \<and> \<not> isStormSuppressed path (check_time at) w
        \<and> active_acc (runReloadAction opts at path w) = install pid s (active_acc w))"
  using swap_active [of opts path "project_of path w" "fail_time at" _ w]
  by (fastforce simp: runReloadAction_def Let_def validated_def split: option.splits sum.splits)

inductive watcher_step :: "WatcherOpts \<Rightarrow> Watcher \<Rightarrow> Watcher \<Rightarrow> bool" for opts where
  reloads: "watcher_step opts w (runReloadAction opts at path w)"
| forces: "watcher_step opts w (snd (NotifyForce opts at path w))"
| adds: "watcher_step opts w (snd (AddPath stat_ok fsadd_ok path pid w))"
| overflows: "watcher_step opts w (handleOverflow opts att paths w)"
| ticks: "watcher_step opts w (health_tick opts now w)"
| restarts: "watcher_step opts w (snd (performRestart new_ok add_ok paths reason w))"
| subscribes: "watcher_step opts w (SubscribeReloadEvents w)"
| unsubscribes: "watcher_step opts w (UnsubscribeReloadEvents i w)"

text \<open>Whatever a reload action keeps of the accessor, every step of the watcher keeps.\<close>

locale accessor_invariant =
  fixes opts :: WatcherOpts and keeps :: "Accessor \<Rightarrow> bool"
  assumes action_keeps: "keeps (active_acc w) \<Longrightarrow> keeps (active_acc (runReloadAction opts at path w))"
begin

lemma reload_all_keeps: "keeps (active_acc w) \<Longrightarrow> keeps (active_acc (reload_all opts att paths w))"
  by (induction paths arbitrary: w) (simp_all add: action_keeps)

lemma readd_active: "active_acc (readd add_ok paths w) = active_acc w"
  by (induction add_ok paths w rule: readd.induct) simp_all

lemma step_keeps: "watcher_step opts w w' \<Longrightarrow> keeps (active_acc w) \<Longrightarrow> keeps (active_acc w')"
  by (induction rule: watcher_step.induct)
    (simp_all add: action_keeps NotifyForce_def AddPath_def handleOverflow_def Let_def reload_all_keeps health_tick_def
      performRestart_def readd_active SubscribeReloadEvents_def UnsubscribeReloadEvents_def split: option.splits)

lemma steps_keep: "(watcher_step opts)\<^sup>*\<^sup>* w w' \<Longrightarrow> keeps (active_acc w) \<Longrightarrow> keeps (active_acc w')"
  by (induction rule: rtranclp_induct) (auto intro: step_keeps)

end

definition installed_ok :: "WatcherOpts \<Rightarrow> Accessor \<Rightarrow> bool" where
  "installed_ok opts a \<longleftrightarrow> (\<forall>pid s. perProject a pid = Some s \<longrightarrow> validated s \<and> accepted opts s)
     \<and> (\<forall>s. userDefault a = Some s \<longrightarrow> validated s)"

interpretation tight: accessor_invariant opts "installed_ok opts" for opts
proof
  fix w :: Watcher and at path
  assume "installed_ok opts (active_acc w)"
  with run_active [of opts at path w] show "installed_ok opts (active_acc (runReloadAction opts at path w))"
    by (auto simp: installed_ok_def install_def SetForProject_def split: if_splits)
qed


subsection \<open>Hot reload with the shipped parser and validator\<close>

text \<open>
  The decoder leaves the fields of a table that the input does not define at the values the target had,
  which are the zero values of a new schema.
\<close>

definition zero_transverse :: goval where
  "zero_transverse = VStruct [(''NoTechDebt'', VBool False), (''NoStubs'', VBool False),
     (''BuildFinalProduct'', VBool False), (''NoDefer'', VBool False)]"

definition decoder_keeps_undefined :: "decoder \<Rightarrow> bool" where
  "decoder_keeps_undefined decode \<longleftrightarrow> (\<forall>data md. decode data = Some md \<longrightarrow>
     ''doctrine_transverse'' \<notin> set (dec_defined md) \<longrightarrow>
     FieldByName (dec_schema md) ''Transverse'' = Some zero_transverse)"

lemma user_file_invalid:
  assumes "decoder_keeps_undefined decode" "ParseStrict decode False data = Inr cand"
  shows "snd (Validate cand) \<noteq> None"
proof -
  have "FieldByName cand ''Transverse'' = Some zero_transverse"
    using assms by (auto simp: ParseStrict_def decoder_keeps_undefined_def split: option.splits if_splits)
  then have "schema_errors cand \<noteq> []"
    by (simp add: schema_errors_def zero_transverse_def TransverseExpected_def)
  then show ?thesis by (simp add: Validate_def Let_def)
qed

lemma user_file_keeps_accessor:
  assumes "decoder_keeps_undefined decode" "watcher_parse opts = ParseStrict decode False"
  shows "active_acc (runReloadAction opts at path w) = active_acc w"
proof (cases "file_bytes at")
  case (Some data)
  show ?thesis
  proof (cases "watcher_parse opts data")
    case (Inr cand)
    then have "snd (Validate cand) \<noteq> None" using user_file_invalid [OF assms(1)] assms(2) by simp
    then show ?thesis using swap_active [of opts path "project_of path w" "fail_time at" cand w]
      by (auto simp: runReloadAction_def Let_def Some Inr)
  qed (simp add: runReloadAction_def Let_def Some)
qed (simp add: runReloadAction_def Let_def)


subsection \<open>Storms\<close>

text \<open>The file of an attempt is refused: it cannot be read or parsed, does not validate, or, for a
  project, has no baseline or is not tighter than it.\<close>

definition refused :: "WatcherOpts \<Rightarrow> string \<Rightarrow> string \<Rightarrow> string option \<Rightarrow> bool" where
  "refused opts path pid data =
     (case data of None \<Rightarrow> True
      | Some d \<Rightarrow> (case watcher_parse opts d of Inl _ \<Rightarrow> True
        | Inr cand \<Rightarrow> (case Validate cand of (_, Some _) \<Rightarrow> True
          | (s, None) \<Rightarrow> pid \<noteq> [] \<and>
              (case baselineProvider opts of None \<Rightarrow> True
               | Some BaselineFor \<Rightarrow> (case BaselineFor (doctrineNameFromSchema path) of None \<Rightarrow> True
                 | Some b \<Rightarrow> ValidateTighten (Some s) (Some b) \<noteq> None)))))"

lemma counter_simps [simp]:
  "failureCounter (emit ev w) = failureCounter w"
  "failureCounter (broadcastReloadFailedEvent ev w) = failureCounter w"
  "failureCounter (emitReloadFailed ev w) = failureCounter w"
  "watched (emit ev w) = watched w"
  "watched (broadcastReloadFailedEvent ev w) = watched w"
  "watched (emitReloadFailed ev w) = watched w"
  "watched (recordFailure opts path now w) = watched w"
  "forcedSource (emit ev w) = forcedSource w"
  "forcedSource (broadcastReloadFailedEvent ev w) = forcedSource w"
  "forcedSource (emitReloadFailed ev w) = forcedSource w"
  "forcedSource (recordFailure opts path now w) = forcedSource w"
  by (simp_all add: watcher_defs split: prod.splits)

lemma recordFailure_counter:
  "failureCounter w = failureCounter w' \<Longrightarrow>
    failureCounter (recordFailure opts path now w) = failureCounter (recordFailure opts path now w')"
  by (simp add: recordFailure_def loadOrCreateFailureRecord_def Let_def split: prod.splits)

lemma fail_counter [simp]:
  "failureCounter (fail_reload opts path pid phase now w) = failureCounter (recordFailure opts path now w)"
  "failureCounter (reject_tighten opts path pid name now w) = failureCounter (recordFailure opts path now w)"
  "watched (fail_reload opts path pid phase now w) = watched w"
  "watched (reject_tighten opts path pid name now w) = watched w"
  "forcedSource (fail_reload opts path pid phase now w) = forcedSource w"
  "forcedSource (reject_tighten opts path pid name now w) = forcedSource w"
  by (auto simp: fail_reload_def reject_tighten_def intro!: recordFailure_counter)

lemma refused_fails:
  assumes "\<not> ctx_done at" "\<not> isStormSuppressed path (check_time at) w" "refused opts path (project_of path w) (file_bytes at)"
  shows "failureCounter (runReloadAction opts at path w) = failureCounter (recordFailure opts path (fail_time at) w)"
    and "watched (runReloadAction opts at path w) = watched w"
    and "forcedSource (runReloadAction opts at path w) = forcedSource w"
  using assms
  by (auto simp: runReloadAction_def refused_def swap_candidate_def Let_def
      split: option.splits sum.splits prod.splits if_splits intro!: recordFailure_counter)

fun run_attempts :: "WatcherOpts \<Rightarrow> string \<Rightarrow> attempt list \<Rightarrow> Watcher \<Rightarrow> Watcher" where
  "run_attempts opts path [] w = w"
| "run_attempts opts path (at # ats) w = run_attempts opts path ats (runReloadAction opts at path w)"

text \<open>The record of a path after failures at the given times, none of them old enough to expire.\<close>

definition after_failures :: "WatcherOpts \<Rightarrow> string \<Rightarrow> time list \<Rightarrow> Watcher \<Rightarrow> bool" where
  "after_failures opts path ts w \<longleftrightarrow>
     loadOrCreateFailureRecord path w
       = \<lparr>failures = ts, suppressUntil = (if int (length ts) \<ge> StormThreshold opts then last ts + StormCooldown opts else 0)\<rparr>"

lemma not_suppressed_yet:
  assumes "after_failures opts path ts w" "int (length ts) < StormThreshold opts" "0 \<le> t"
  shows "\<not> isStormSuppressed path t w"
  using assms
  by (auto simp: after_failures_def isStormSuppressed_def isSuppressed_def loadOrCreateFailureRecord_def split: option.splits)

lemma failure_step:
  assumes "after_failures opts path ts w" "int (length ts) < StormThreshold opts" "\<forall>ft \<in> set ts. ft > t - StormWindow opts"
  shows "after_failures opts path (ts @ [t]) (recordFailure opts path t w)"
  using assms
  by (simp add: after_failures_def recordFailure_def recordFailureAt_def Let_def loadOrCreateFailureRecord_def)

lemma after_failures_cong: "failureCounter w = failureCounter w' \<Longrightarrow> after_failures opts path ts w = after_failures opts path ts w'"
  by (simp add: after_failures_def loadOrCreateFailureRecord_def)

definition storm_attempt :: "WatcherOpts \<Rightarrow> string \<Rightarrow> string \<Rightarrow> time \<Rightarrow> attempt \<Rightarrow> bool" where
  "storm_attempt opts path pid t0 at \<longleftrightarrow> \<not> ctx_done at \<and> refused opts path pid (file_bytes at) \<and> 0 \<le> check_time at
     \<and> t0 \<le> fail_time at \<and> fail_time at < t0 + StormWindow opts"

lemma storm_counts:
  assumes "after_failures opts path ts w" "int (length ts + length ats) \<le> StormThreshold opts"
    and "\<forall>ft \<in> set ts. t0 \<le> ft" "list_all (storm_attempt opts path (project_of path w) t0) ats"
  shows "after_failures opts path (ts @ map fail_time ats) (run_attempts opts path ats w)"
  using assms
proof (induction ats arbitrary: ts w)
  case (Cons at ats)
  let ?w = "runReloadAction opts at path w"
  have at: "\<not> ctx_done at" "refused opts path (project_of path w) (file_bytes at)" "0 \<le> check_time at"
    "t0 \<le> fail_time at" "fail_time at < t0 + StormWindow opts"
    using Cons.prems(4) by (simp_all add: storm_attempt_def)
  have less: "int (length ts) < StormThreshold opts" using Cons.prems(2) by simp
  note run = refused_fails [OF at(1) not_suppressed_yet [OF Cons.prems(1) less at(3)] at(2)]
  have "after_failures opts path (ts @ [fail_time at]) (recordFailure opts path (fail_time at) w)"
    using at(5) Cons.prems(3) by (intro failure_step [OF Cons.prems(1) less]) force
  then have "after_failures opts path (ts @ [fail_time at]) ?w"
    using after_failures_cong [OF run(1)] by simp
  moreover have "project_of path ?w = project_of path w" using run(2) by (simp add: project_of_def)
  ultimately show ?case using Cons.IH [of "ts @ [fail_time at]" ?w] Cons.prems at(4) by simp
qed simp

text \<open>Storm suppression works: once as many reloads of a path as the threshold have been refused
  within one window, every attempt before the cooldown has passed only reports the suppression; the
  file is not read, nothing is installed and no further failure is counted.\<close>

lemma storm_suppresses_reloads:
  assumes "1 \<le> StormThreshold opts" "length ats = nat (StormThreshold opts)" "failureCounter w path = None"
    and "list_all (storm_attempt opts path (project_of path w) t0) ats"
    and "\<not> ctx_done at" "check_time at < fail_time (last ats) + StormCooldown opts"
  shows "let w' = run_attempts opts path ats w in
    runReloadAction opts at path w' =
      emit (DoctrineRevertSuppressedCooldown path (failureCountSnapshot opts path (check_time at) w')
        (fail_time (last ats) + StormCooldown opts)) w'"
proof -
  let ?w = "run_attempts opts path ats w"
  have ne: "ats \<noteq> []" using assms(1,2) by auto
  have "after_failures opts path [] w" using assms(1,3) by (simp add: after_failures_def loadOrCreateFailureRecord_def)
  from storm_counts [OF this, of ats t0] assms(1,2,4)
  have "after_failures opts path (map fail_time ats) ?w" by simp
  then have r: "loadOrCreateFailureRecord path ?w = \<lparr>failures = map fail_time ats, suppressUntil = fail_time (last ats) + StormCooldown opts\<rparr>"
    using assms(1,2) ne by (simp add: after_failures_def last_map)
  then have "failureCounter ?w path = Some \<lparr>failures = map fail_time ats, suppressUntil = fail_time (last ats) + StormCooldown opts\<rparr>"
    using ne by (auto simp: loadOrCreateFailureRecord_def split: option.splits)
  then show ?thesis using assms(5,6)
    by (simp add: runReloadAction_def isStormSuppressed_def isSuppressed_def suppressedUntil_def)
qed

text \<open>A forced reload that is refused leaves its mark behind: the next reload of the path that
  succeeds, an operator's edit, is reported as the application of an amendment.\<close>

lemma refused_force_leaves_source:
  assumes "map_of (watched w) path \<noteq> None" "\<not> isStormSuppressed path (check_time at) w"
    and "refused opts path (project_of path w) (file_bytes at)"
  shows "forcedSource (snd (NotifyForce opts at path w)) path = Some ''amendment-apply''"
  using assms refused_fails(3) [of "at\<lparr>ctx_done := False\<rparr>" path "w\<lparr>forcedSource := (forcedSource w)(path \<mapsto> ''amendment-apply'')\<rparr>" opts]
  by (auto simp: NotifyForce_def isStormSuppressed_def project_of_def)

lemma stale_source_is_reported:
  assumes "forcedSource w path = Some ''amendment-apply''"
  shows "last (reload_log (finish_reload path pid name s w)) = DoctrineReloaded path pid name (string_at s ''DoctrineVersion'') ''amendment-apply''"
  using assms by (simp add: finish_reload_def consumeForcedSource_def watcher_defs split: option.splits)

subsection \<open>Concrete runs\<close>

text \<open>A watcher with one project file whose parser yields an amended doctrine, and the same with the
  package's parser over a decoder that reads every file as the built-in without its axioms.\<close>

definition demo_opts :: WatcherOpts where
  "demo_opts = default_opts \<lparr>DebounceWindow = 0, StormCooldown = 0, StormThreshold = 0, StormWindow = 0, StallTimeout = 0,
     baselineProvider = Some (\<lambda>_. Some capa_firewall_toml), watcher_parse = (\<lambda>_. Inr (amended ''1.0.1''))\<rparr>"

definition demo_watcher :: Watcher where
  "demo_watcher = \<lparr>watched = [(''/p/capa-firewall.toml'', ''proj'')], failureCounter = (\<lambda>_. None), forcedSource = (\<lambda>_. None),
     active_acc = NewAccessor, pathsCount = 1, lastEventAt = 0, restartNeeded = False, reload_log = [],
     reloadEventSubs = [], reloadFailedEventSubs = []\<rparr>"

definition demo_attempt :: "time \<Rightarrow> attempt" where
  "demo_attempt t = \<lparr>ctx_done = False, file_bytes = Some ''...'', check_time = t, fail_time = t\<rparr>"

definition demo_decoder :: decoder where
  "demo_decoder = (\<lambda>_. Some \<lparr>dec_schema = set_field ''Transverse'' zero_transverse capa_firewall_toml,
     dec_defined = [''workforce''], dec_undecoded = []\<rparr>)"

definition shipped_opts :: WatcherOpts where
  "shipped_opts = demo_opts\<lparr>watcher_parse := ParseStrict demo_decoder False\<rparr>"

lemma demo_reload:
  "\<exists>s. active_acc (runReloadAction demo_opts (demo_attempt 1) ''/p/capa-firewall.toml'' demo_watcher)
     = install ''proj'' s NewAccessor"
proof -
  define s where "s = set_field ''Validated'' (VBool True) (amended ''1.0.1'')"
  have v: "Validate (amended ''1.0.1'') = (s, None)"
    using amended_valid by (simp add: Validate_def Let_def s_def split: if_splits)
  have "has_type (set_field ''Validated'' (VBool True) (amended ''1.0.1'')) Schema" by code_simp
  then have "ValidateTighten (Some s) (Some capa_firewall_toml) = None"
    using amended_accepted(1) builtins_typed amended_typed by (simp add: ValidateTighten_None_iff s_def tightens_flag)
  then show ?thesis
    by (simp add: runReloadAction_def demo_attempt_def demo_watcher_def isStormSuppressed_def Let_def project_of_def
        demo_opts_def default_opts_def swap_candidate_def v finish_active split: if_splits)
      blast
qed

lemma demo_decoder_ok: "decoder_keeps_undefined demo_decoder"
  by (simp add: decoder_keeps_undefined_def demo_decoder_def capa_firewall_toml_def)



subsection \<open>The built-ins and the accessor\<close>

text \<open>When the embedded files decode to the built-in doctrines, loading does not panic and gives them
  under their names; and once such a registry is set, no lookup panics any more, whatever is set,
  cleared or reloaded later.\<close>

lemma builtins_load:
  assumes "\<forall>n \<in> set canonicalNames. \<exists>data md. efs (n @ ''.toml'') = Some data \<and> decode data = Some md \<and> dec_undecoded md = []
      \<and> map_of [(''max-scope'', max_scope_toml), (''default'', default_toml), (''capa-firewall'', capa_firewall_toml)] n
          = Some (dec_schema md)"
  shows "MustLoadAll decode efs = Some [''max-scope'' \<mapsto> fst (Validate max_scope_toml),
     ''default'' \<mapsto> fst (Validate default_toml), ''capa-firewall'' \<mapsto> fst (Validate capa_firewall_toml)]"
proof -
  have one: "loadOneFromFS decode efs n = Inr (fst (Validate s))"
    if "n \<in> set canonicalNames" "snd (Validate s) = None"
      "map_of [(''max-scope'', max_scope_toml), (''default'', default_toml), (''capa-firewall'', capa_firewall_toml)] n = Some s" for n s
  proof -
    from assms that(1) obtain data md where "efs (n @ ''.toml'') = Some data" "decode data = Some md" "dec_undecoded md = []"
      "map_of [(''max-scope'', max_scope_toml), (''default'', default_toml), (''capa-firewall'', capa_firewall_toml)] n
          = Some (dec_schema md)" by blast
    with that show ?thesis by (cases "Validate s") (simp add: loadOneFromFS_def ParseStrict_def Let_def)
  qed
  have "loadOneFromFS decode efs ''max-scope'' = Inr (fst (Validate max_scope_toml))"
    "loadOneFromFS decode efs ''default'' = Inr (fst (Validate default_toml))"
    "loadOneFromFS decode efs ''capa-firewall'' = Inr (fst (Validate capa_firewall_toml))"
    using builtins_valid by (simp_all add: one canonicalNames_def)
  then show ?thesis by (simp add: MustLoadAll_def loadAllFromFS_def canonicalNames_def)
qed

definition resolvable :: "Accessor \<Rightarrow> bool" where
  "resolvable a \<longleftrightarrow> (\<exists>s. max_scope_of a = Some s)"

lemma resolvable_no_panic: "resolvable a \<Longrightarrow> Active a \<noteq> Inl AccessorPanic \<and> For a pid \<noteq> Inl AccessorPanic"
  by (auto simp: resolvable_def Active_def For_def split: option.splits)

lemma resolvable_kept:
  "resolvable a \<Longrightarrow> resolvable (snd (SetUserDefault name a))"
  "resolvable a \<Longrightarrow> SetForProject pid s a = Inr a' \<Longrightarrow> resolvable a'"
  "resolvable a \<Longrightarrow> resolvable (ClearForProject pid a)"
  "resolvable a \<Longrightarrow> resolvable (install pid v a)"
  by (auto simp: resolvable_def max_scope_of_def SetUserDefault_def SetForProject_def ClearForProject_def install_def
      split: option.splits if_splits)

interpretation lookups: accessor_invariant opts resolvable for opts
proof
  fix w :: Watcher and at path
  assume "resolvable (active_acc w)"
  with run_active [of opts at path w] show "resolvable (active_acc (runReloadAction opts at path w))"
    using resolvable_kept(4) by auto
qed

lemma project_overrides_default:
  "SetForProject pid (Some s) a = Inr a' \<Longrightarrow> For a' pid = Inr s \<and> (q \<noteq> pid \<longrightarrow> For a' q = For a q) \<and> Active a' = Active a"
  by (auto simp: SetForProject_def For_def Active_def max_scope_of_def split: if_splits option.splits)

subsection \<open>The debouncer (debounce.go)\<close>

text \<open>
  A timer is armed with its deadline, then its function is running (\<open>firing\<close>) until it gets the mutex;
  \<open>Stop\<close> only reaches armed timers. \<open>timers\<close> is the map of the struct, from paths to timers.
\<close>

record Debouncer =
  timers :: "string \<rightharpoonup> nat"
  armed :: "(nat \<times> string \<times> time) list"
  firing :: "(nat \<times> string) list"
  next_timer :: nat
  deb_closed :: bool
  acted :: "string list"

definition NewDebouncer :: Debouncer where
  "NewDebouncer = \<lparr>timers = (\<lambda>_. None), armed = [], firing = [], next_timer = 0, deb_closed = False, acted = []\<rparr>"

definition stop_timer :: "nat option \<Rightarrow> (nat \<times> string \<times> time) list \<Rightarrow> (nat \<times> string \<times> time) list" where
  "stop_timer t xs = (case t of None \<Rightarrow> xs | Some i \<Rightarrow> filter (\<lambda>x. fst x \<noteq> i) xs)"

definition Deb_Trigger :: "duration \<Rightarrow> time \<Rightarrow> string \<Rightarrow> Debouncer \<Rightarrow> Debouncer" where
  "Deb_Trigger window now path d =
     (if deb_closed d then d
      else d\<lparr>armed := stop_timer (timers d path) (armed d) @ [(next_timer d, path, now + window)],
             timers := (timers d)(path \<mapsto> next_timer d), next_timer := Suc (next_timer d)\<rparr>)"

definition Deb_expire :: "nat \<Rightarrow> string \<Rightarrow> Debouncer \<Rightarrow> Debouncer" where
  "Deb_expire i path d = d\<lparr>armed := filter (\<lambda>x. fst x \<noteq> i) (armed d), firing := firing d @ [(i, path)]\<rparr>"

definition Deb_callback :: "nat \<Rightarrow> string \<Rightarrow> Debouncer \<Rightarrow> Debouncer" where
  "Deb_callback i path d =
     d\<lparr>firing := remove1 (i, path) (firing d), timers := (timers d)(path := None),
       acted := (if deb_closed d then acted d else acted d @ [path])\<rparr>"

definition Deb_cancel :: "string \<Rightarrow> Debouncer \<Rightarrow> Debouncer" where
  "Deb_cancel path d = d\<lparr>armed := stop_timer (timers d path) (armed d), timers := (timers d)(path := None)\<rparr>"

definition Deb_Close :: "Debouncer \<Rightarrow> Debouncer" where
  "Deb_Close d = d\<lparr>deb_closed := True, armed := filter (\<lambda>x. fst x \<notin> ran (timers d)) (armed d), timers := (\<lambda>_. None)\<rparr>"

inductive deb_step :: "duration \<Rightarrow> Debouncer \<Rightarrow> Debouncer \<Rightarrow> bool" for window where
  triggers: "deb_step window d (Deb_Trigger window now path d)"
| expires: "(i, path, t) \<in> set (armed d) \<Longrightarrow> deb_step window d (Deb_expire i path d)"
| calls_back: "(i, path) \<in> set (firing d) \<Longrightarrow> deb_step window d (Deb_callback i path d)"
| cancels: "deb_step window d (Deb_cancel path d)"
| closes: "deb_step window d (Deb_Close d)"

text \<open>A burst of events restarts the timer: when no callback is in flight, a path has one armed
  timer, due one window after the last event.\<close>

fun burst :: "duration \<Rightarrow> string \<Rightarrow> time list \<Rightarrow> Debouncer \<Rightarrow> Debouncer" where
  "burst window path [] d = d"
| "burst window path (t # ts) d = burst window path ts (Deb_Trigger window t path d)"

definition timers_tracked :: "Debouncer \<Rightarrow> bool" where
  "timers_tracked d \<longleftrightarrow> (\<forall>i p t. (i, p, t) \<in> set (armed d) \<longrightarrow> timers d p = Some i) \<and> (\<forall>p i. timers d p = Some i \<longrightarrow> i < next_timer d)
     \<and> (\<forall>p q i. timers d p = Some i \<longrightarrow> timers d q = Some i \<longrightarrow> p = q)"

lemma trigger_arms_one:
  assumes "timers_tracked d" "\<not> deb_closed d"
  shows "timers_tracked (Deb_Trigger window t path d) \<and> \<not> deb_closed (Deb_Trigger window t path d)
    \<and> filter (\<lambda>x. fst (snd x) = path) (armed (Deb_Trigger window t path d)) = [(next_timer d, path, t + window)]"
proof -
  have "filter (\<lambda>x. fst (snd x) = path) (stop_timer (timers d path) (armed d)) = []"
    using assms(1) by (fastforce simp: stop_timer_def timers_tracked_def filter_empty_conv split: option.splits)
  moreover have "timers_tracked (Deb_Trigger window t path d)"
    using assms by (fastforce simp: timers_tracked_def Deb_Trigger_def stop_timer_def split: option.splits if_splits)
  ultimately show ?thesis using assms(2) by (simp add: Deb_Trigger_def)
qed

lemma burst_fires_once:
  assumes "timers_tracked d" "\<not> deb_closed d" "ts \<noteq> []"
  shows "\<exists>i. filter (\<lambda>x. fst (snd x) = path) (armed (burst window path ts d)) = [(i, path, last ts + window)]"
  using assms
proof (induction ts arbitrary: d)
  case (Cons t ts)
  note one = trigger_arms_one [OF Cons.prems(1,2), of window t path]
  show ?case
  proof (cases "ts = []")
    case False
    with Cons.IH [of "Deb_Trigger window t path d"] one show ?thesis by simp
  qed (use one in simp)
qed simp

text \<open>But a callback that is already running when the next event comes removes the new timer from the
  map: a later cancel no longer finds it, and the action runs after the cancel.\<close>

lemma cancel_misses_restarted_timer:
  "\<exists>d d'. (deb_step window)\<^sup>*\<^sup>* NewDebouncer d \<and> d' = Deb_cancel path d \<and> acted d' = [path]
     \<and> (\<exists>d''. (deb_step window)\<^sup>*\<^sup>* d' d'' \<and> acted d'' = [path, path])"
proof -
  define d1 where "d1 = Deb_expire 0 path (Deb_Trigger window 0 path NewDebouncer)"
  define d2 where "d2 = Deb_callback 0 path (Deb_Trigger window window path d1)"
  define d3 where "d3 = Deb_callback 1 path (Deb_expire 1 path (Deb_cancel path d2))"
  note defs = d1_def d2_def d3_def NewDebouncer_def Deb_Trigger_def Deb_expire_def Deb_callback_def Deb_cancel_def stop_timer_def
  have "deb_step window NewDebouncer (Deb_Trigger window 0 path NewDebouncer)" by (rule triggers)
  moreover have "deb_step window (Deb_Trigger window 0 path NewDebouncer) d1"
    unfolding d1_def by (rule expires) (simp add: defs)
  moreover have "deb_step window d1 (Deb_Trigger window window path d1)" by (rule triggers)
  moreover have "deb_step window (Deb_Trigger window window path d1) d2"
    unfolding d2_def by (rule calls_back) (simp add: defs)
  moreover have "deb_step window (Deb_cancel path d2) (Deb_expire 1 path (Deb_cancel path d2))"
    by (rule expires [of _ _ "window + window"]) (simp add: defs)
  moreover have "deb_step window (Deb_expire 1 path (Deb_cancel path d2)) d3"
    unfolding d3_def by (rule calls_back) (simp add: defs)
  ultimately have "(deb_step window)\<^sup>*\<^sup>* NewDebouncer d2" "(deb_step window)\<^sup>*\<^sup>* (Deb_cancel path d2) d3"
    by (auto intro!: converse_rtranclp_into_rtranclp)
  moreover have "acted (Deb_cancel path d2) = [path]" "acted d3 = [path, path]" by (simp_all add: defs)
  ultimately show ?thesis by blast
qed


end
