(* ===== verification/Amendment.thy ===== *)
theory Amendment
  imports Doctrine_Reload Sha256
begin

text \<open>
  The life of a doctrine amendment (\<open>internal/orchestrator/amendment\<close>): the proposer that counts events
  in sliding windows and drafts an ADR when a pattern repeats (\<open>proposer.go\<close>, \<open>cooldown.go\<close>, \<open>range.go\<close>),
  the applier that moves an accepted ADR, appends its TOML block to the project's file and commits it
  (\<open>applier.go\<close>, \<open>applier\_validation.go\<close>), and the reverter (\<open>reverter.go\<close>).

  The drafter, git, the file system's failures, the emitter and the reload signal are inputs of the
  operations: a drafting function, and records of what succeeds. Titles are ASCII. A window keeps
  events with equal time stamps in arrival order, where Go's unstable sort may reorder them.
\<close>

subsection \<open>Events and patterns (proposer.go)\<close>

datatype amd_type = EvtOperatorOverrideApplied | EvtBudgetDegradationApplied | EvtEscalationDecision | EvtOther

text \<open>The payload keeps the entries whose value is a string.\<close>

record amd_event =
  ev_type :: amd_type
  ev_time :: time
  ev_payload :: "(string \<times> string) list"

definition payload_string :: "amd_event \<Rightarrow> string \<Rightarrow> string" where
  "payload_string e k = (case map_of (ev_payload e) k of None \<Rightarrow> [] | Some s \<Rightarrow> s)"

definition thresholds :: "string \<Rightarrow> string \<Rightarrow> nat \<times> nat" where
  "thresholds doctrine class =
     (if doctrine = ''max-scope'' then
        (if class = ''operator_override'' then (5, 24) else if class = ''cost_degradation'' then (3, 24)
         else if class = ''escalation'' then (2, 24) else (0, 0))
      else if doctrine = ''default'' then
        (if class = ''operator_override'' then (8, 72) else if class = ''cost_degradation'' then (5, 72)
         else if class = ''escalation'' then (3, 72) else (0, 0))
      else if doctrine = ''capa-firewall'' then
        (if class = ''operator_override'' then (12, 168) else if class = ''cost_degradation'' then (8, 168)
         else if class = ''escalation'' then (5, 168) else (0, 0))
      else (0, 0))"

fun classify :: "amd_event \<Rightarrow> (string \<times> string) option" where
  "classify e =
     (case ev_type e of
        EvtOperatorOverrideApplied \<Rightarrow> Some (''operator_override'', payload_string e ''override_class'')
      | EvtBudgetDegradationApplied \<Rightarrow>
          (let s = payload_string e ''severity'' in
           if s = ''medium'' \<or> s = ''hard'' \<or> s = ''emergency'' then Some (''cost_degradation'', s) else None)
      | EvtEscalationDecision \<Rightarrow>
          (let s = payload_string e ''destination'' in if s = ''L4'' then Some (''escalation'', s) else None)
      | EvtOther \<Rightarrow> None)"

definition shortPatternKey :: "string \<Rightarrow> string \<Rightarrow> string \<Rightarrow> string \<Rightarrow> string" where
  "shortPatternKey doctrine class sub projectID = doctrine @ ''|'' @ class @ ''|'' @ sub @ ''|'' @ projectID"

definition patternKey :: "string \<Rightarrow> string \<Rightarrow> string \<Rightarrow> string \<Rightarrow> string" where
  "patternKey doctrine class sub projectID =
     shortPatternKey doctrine class sub projectID @ ''#''
     @ hex_encode (take 4 (sha256 (shortPatternKey doctrine class sub projectID)))"

subsection \<open>Cooldown (cooldown.go)\<close>

definition CooldownWindowFor :: "string \<Rightarrow> duration" where
  "CooldownWindowFor doctrine =
     (if doctrine = ''default'' then 72 * hour else if doctrine = ''capa-firewall'' then 168 * hour else 24 * hour)"

type_synonym CooldownRegistry = "string \<rightharpoonup> time"

definition Cooldown_Arm :: "time \<Rightarrow> string \<Rightarrow> string \<Rightarrow> CooldownRegistry \<Rightarrow> CooldownRegistry" where
  "Cooldown_Arm now pattern doctrine r = r(pattern \<mapsto> now + CooldownWindowFor doctrine)"

definition Cooldown_Suppressed :: "time \<Rightarrow> string \<Rightarrow> CooldownRegistry \<Rightarrow> bool \<times> CooldownRegistry" where
  "Cooldown_Suppressed now pattern r =
     (case r pattern of
        None \<Rightarrow> (False, r)
      | Some d \<Rightarrow> if now < d then (True, r) else (False, r(pattern := None)))"

subsection \<open>ADR numbers (range.go)\<close>

text \<open>The file name pattern \<open>^(\d{4})-.+\.md$\<close>.\<close>

definition is_digit :: "char \<Rightarrow> bool" where
  "is_digit c \<longleftrightarrow> CHR ''0'' \<le> c \<and> c \<le> CHR ''9''"

definition adrFileRE :: "string \<Rightarrow> nat option" where
  "adrFileRE name =
     (let body = drop 5 name in
      if 9 \<le> length name \<and> list_all is_digit (take 4 name) \<and> name ! 4 = CHR ''-''
         \<and> drop (length body - 3) body = ''.md'' \<and> CHR 0x0A \<notin> set body
      then Some (undec 0 (take 4 name)) else None)"

definition Plan5MinADR :: nat where "Plan5MinADR = 20"
definition Plan5MaxADR :: nat where "Plan5MaxADR = 29"

text \<open>The regular files of \<open>docs/decisions\<close> and of its two subdirectories, each with its content.\<close>

record decisions =
  dir_accepted :: "(string \<times> string) list"
  dir_proposed :: "(string \<times> string) list"
  dir_rejected :: "(string \<times> string) list"

definition file_names :: "decisions \<Rightarrow> string list" where
  "file_names d = map fst (dir_accepted d @ dir_proposed d @ dir_rejected d)"

definition taken :: "decisions \<Rightarrow> nat list" where
  "taken d = List.map_filter adrFileRE (file_names d)"

definition NextAvailableID :: "decisions \<Rightarrow> nat option" where
  "NextAvailableID d = List.find (\<lambda>i. i \<notin> set (taken d)) [Plan5MinADR..<Suc Plan5MaxADR]"

subsection \<open>Drafting a proposal\<close>

record ADRBody =
  Title :: string
  Markdown :: string

definition lower_char :: "char \<Rightarrow> char" where
  "lower_char c = (if CHR ''A'' \<le> c \<and> c \<le> CHR ''Z'' then char_of (of_char c + 32 :: nat) else c)"

fun slug_chars :: "string \<Rightarrow> string" where
  "slug_chars [] = []"
| "slug_chars (c # cs) =
     (if CHR ''a'' \<le> c \<and> c \<le> CHR ''z'' \<or> is_digit c then c # slug_chars cs
      else if c = CHR '' '' \<or> c = CHR ''-'' \<or> c = CHR ''_'' then CHR ''-'' # slug_chars cs
      else slug_chars cs)"

definition trim_dashes :: "string \<Rightarrow> string" where
  "trim_dashes s = (let f = dropWhile (\<lambda>c. c = CHR ''-'') in rev (f (rev (f s))))"

definition slugify :: "string \<Rightarrow> string" where
  "slugify s =
     (let out = trim_dashes (slug_chars (map lower_char s));
          out' = (if out = [] then ''amendment'' else out)
      in take 60 out')"

definition pad4 :: "nat \<Rightarrow> string" where
  "pad4 n = (let s = dec_nat n in replicate (4 - length s) CHR ''0'' @ s)"

definition adr_name :: "nat \<Rightarrow> string \<Rightarrow> string" where
  "adr_name i slug = pad4 i @ ''-'' @ slug @ ''.md''"

datatype amd_log_event =
    DoctrineAmendmentProposed nat string string nat
  | AmendmentSuppressed string string
  | ADRRangeExhausted
  | DoctrineAmendmentApplied nat string
  | TightenViolationRejected nat "tighten_err"
  | DoctrineAmendmentReverted nat bool
  | DoctrineWatcherStalledOnApply nat

record Proposer =
  windows :: "string \<Rightarrow> amd_event list"
  cooldown_reg :: CooldownRegistry
  prop_dirs :: decisions
  prop_log :: "amd_log_event list"

text \<open>What an event meets: the clock (and the clock the cooldown reads), the drafter's answer, and which
  file operations succeed. An emitter failure does not change the state.\<close>

record event_env =
  now_event :: time
  now_cooldown :: time
  drafted :: "ADRBody option"
  scan_ok :: bool
  mkdir_ok :: bool
  write_ok :: bool

definition window_after :: "nat \<Rightarrow> time \<Rightarrow> amd_event \<Rightarrow> amd_event list \<Rightarrow> amd_event list" where
  "window_after hours now e old =
     filter (\<lambda>x. \<not> ev_time x < now - int hours * hour) (sort_key ev_time (old @ [e]))"

definition suppress :: "string \<Rightarrow> string \<Rightarrow> Proposer \<Rightarrow> Proposer" where
  "suppress reason key p =
     p\<lparr>windows := (windows p)(key := []), prop_log := prop_log p @ [AmendmentSuppressed reason key]\<rparr>"

definition write_proposal :: "string \<Rightarrow> nat \<Rightarrow> ADRBody \<Rightarrow> Proposer \<Rightarrow> Proposer" where
  "write_proposal key i body p =
     (let fname = adr_name i (slugify (Title body)) in
      p\<lparr>windows := (windows p)(key := []),
        prop_dirs := (prop_dirs p)\<lparr>dir_proposed := AList.update fname (Markdown body) (dir_proposed (prop_dirs p))\<rparr>,
        prop_log := prop_log p @ [DoctrineAmendmentProposed i fname key (length (windows p key))]\<rparr>)"

definition propose :: "event_env \<Rightarrow> string \<Rightarrow> Proposer \<Rightarrow> Proposer" where
  "propose env key p =
     (case drafted env of
        None \<Rightarrow> suppress ''drafter_failed'' key p
      | Some body \<Rightarrow>
          if \<not> scan_ok env then suppress ''range_exhausted'' key p
          else case NextAvailableID (prop_dirs p) of
            None \<Rightarrow> suppress ''range_exhausted'' key (p\<lparr>prop_log := prop_log p @ [ADRRangeExhausted]\<rparr>)
          | Some i \<Rightarrow>
              if \<not> mkdir_ok env \<or> \<not> write_ok env then p
              else write_proposal key i body p)"

text \<open>The part of \<open>OnEvent\<close> for an event of a pattern with a threshold.\<close>

definition on_pattern :: "event_env \<Rightarrow> nat \<Rightarrow> nat \<Rightarrow> string \<Rightarrow> amd_event \<Rightarrow> Proposer \<Rightarrow> Proposer" where
  "on_pattern env needed hours key e p =
     (let win = window_after hours (now_event env) e (windows p key);
          p1 = p\<lparr>windows := (windows p)(key := win)\<rparr>
      in if length win < needed then p1
         else let (sup, reg) = Cooldown_Suppressed (now_cooldown env) key (cooldown_reg p1);
                  p2 = p1\<lparr>cooldown_reg := reg\<rparr>
              in if sup then suppress ''cooldown'' key p2 else propose env key p2)"

definition event_key :: "string \<Rightarrow> amd_event \<Rightarrow> (string \<times> nat \<times> nat) option" where
  "event_key doctrine e =
     (case classify e of
        None \<Rightarrow> None
      | Some (class, sub) \<Rightarrow>
          (case thresholds doctrine class of (needed, hours) \<Rightarrow>
            if needed = 0 then None
            else Some (shortPatternKey doctrine class sub (payload_string e ''project_id''), needed, hours)))"

definition OnEvent :: "string \<Rightarrow> event_env \<Rightarrow> amd_event \<Rightarrow> Proposer \<Rightarrow> Proposer" where
  "OnEvent doctrine env e p =
     (case event_key doctrine e of
        None \<Rightarrow> p
      | Some (key, needed, hours) \<Rightarrow> on_pattern env needed hours key e p)"

subsection \<open>Numbers and names of proposals\<close>

definition slug_char :: "char \<Rightarrow> bool" where
  "slug_char c \<longleftrightarrow> CHR ''a'' \<le> c \<and> c \<le> CHR ''z'' \<or> is_digit c \<or> c = CHR ''-''"

lemma slug_chars_ok: "list_all slug_char (slug_chars s)"
  by (induction s) (auto simp: slug_char_def)

lemma set_trim_dashes: "set (trim_dashes s) \<subseteq> set s"
  unfolding trim_dashes_def Let_def by (auto dest!: set_dropWhileD)

lemma slugify_ok: "slugify s \<noteq> [] \<and> length (slugify s) \<le> 60 \<and> list_all slug_char (slugify s)"
proof -
  have "list_all slug_char (trim_dashes (slug_chars (map lower_char s)))"
    using set_trim_dashes [of "slug_chars (map lower_char s)"] slug_chars_ok by (auto simp: list_all_iff)
  moreover have "list_all slug_char ''amendment''" by code_simp
  moreover have "list_all slug_char (take 60 xs)" if "list_all slug_char xs" for xs
    using that by (auto simp: list_all_iff dest: in_set_takeD)
  ultimately show ?thesis by (simp add: slugify_def Let_def)
qed

lemma pad4_ok: "list_all (\<lambda>i. length (pad4 i) = 4 \<and> list_all is_digit (pad4 i) \<and> undec 0 (pad4 i) = i) [20..<30]"
  by code_simp

lemma adrFileRE_name:
  assumes "20 \<le> i" "i < 30" "slug \<noteq> []" "list_all slug_char slug"
  shows "adrFileRE (adr_name i slug) = Some i"
proof -
  have p: "length (pad4 i) = 4" "list_all is_digit (pad4 i)" "undec 0 (pad4 i) = i"
    using pad4_ok assms(1,2) unfolding list_all_iff by (metis atLeastLessThan_iff atLeastLessThan_upt)+
  have "\<not> slug_char CHR 0x0A" by code_simp
  then have "CHR 0x0A \<notin> set slug" using assms(4) by (auto simp: list_all_iff)
  moreover have "1 \<le> length slug" using assms(3) by (cases slug) auto
  ultimately show ?thesis using p by (simp add: adrFileRE_def adr_name_def Let_def nth_append)
qed

text \<open>\<open>NextAvailableID\<close> gives the least free number of the range, and none only if all ten are taken.\<close>

lemma NextAvailableID_Some:
  "NextAvailableID d = Some i \<longleftrightarrow> 20 \<le> i \<and> i < 30 \<and> i \<notin> set (taken d) \<and> (\<forall>j. 20 \<le> j \<longrightarrow> j < i \<longrightarrow> j \<in> set (taken d))"
proof -
  have "find P [a..<b] = Some i \<longleftrightarrow> a \<le> i \<and> i < b \<and> P i \<and> (\<forall>j. a \<le> j \<longrightarrow> j < i \<longrightarrow> \<not> P j)" for P and a b :: nat
  proof (induction "b - a" arbitrary: a)
    case (Suc n)
    then have cons: "[a..<b] = a # [Suc a..<b]" and ab: "a < b" by (simp_all add: upt_conv_Cons)
    have ih: "find P [Suc a..<b] = Some i \<longleftrightarrow> Suc a \<le> i \<and> i < b \<and> P i \<and> (\<forall>j. Suc a \<le> j \<longrightarrow> j < i \<longrightarrow> \<not> P j)"
      using Suc by simp
    show ?case
    proof (cases "P a")
      case True
      then show ?thesis using ab by (auto simp: cons)
    next
      case False
      then have "(\<forall>j. a \<le> j \<longrightarrow> j < i \<longrightarrow> \<not> P j) \<longleftrightarrow> (\<forall>j. Suc a \<le> j \<longrightarrow> j < i \<longrightarrow> \<not> P j)"
        by (metis Suc_le_eq le_neq_implies_less less_imp_le)
      moreover have "a \<le> i \<and> P i \<longleftrightarrow> Suc a \<le> i \<and> P i" using False by (metis Suc_leD Suc_leI le_neq_implies_less)
      ultimately show ?thesis using ih False by (auto simp: cons)
    qed
  qed auto
  from this [of "\<lambda>i. i \<notin> set (taken d)" 20 30] show ?thesis
    unfolding NextAvailableID_def Plan5MinADR_def Plan5MaxADR_def by simp
qed

lemma NextAvailableID_None: "NextAvailableID d = None \<longleftrightarrow> {20..<30} \<subseteq> set (taken d)"
proof -
  have "set [20..<Suc 29] = {20..<30}" unfolding set_upt by simp
  then show ?thesis unfolding NextAvailableID_def Plan5MinADR_def Plan5MaxADR_def find_None_iff by blast
qed

lemma set_map_filter: "set (List.map_filter f xs) = {y. \<exists>x \<in> set xs. f x = Some y}"
  by (force simp: List.map_filter_def)

lemma taken_member: "n \<in> set (taken d) \<longleftrightarrow> (\<exists>f \<in> set (file_names d). adrFileRE f = Some n)"
  by (simp add: taken_def set_map_filter)

lemma update_names: "fst ` set (AList.update k v xs) = insert k (fst ` set xs)"
  by (induction xs) auto

definition proposed_numbers :: "amd_log_event list \<Rightarrow> nat list" where
  "proposed_numbers evs = List.map_filter (\<lambda>ev. case ev of DoctrineAmendmentProposed i _ _ _ \<Rightarrow> Some i | _ \<Rightarrow> None) evs"

text \<open>Steps: an event, or any movement of ADR files that loses no number.\<close>

inductive prop_step :: "string \<Rightarrow> Proposer \<Rightarrow> Proposer \<Rightarrow> bool" for doctrine where
  observes: "prop_step doctrine p (OnEvent doctrine env e p)"
| moves: "set (taken (prop_dirs p)) \<subseteq> set (taken d) \<Longrightarrow> prop_step doctrine p (p\<lparr>prop_dirs := d\<rparr>)"

definition numbers_ok :: "Proposer \<Rightarrow> bool" where
  "numbers_ok p \<longleftrightarrow> distinct (proposed_numbers (prop_log p)) \<and> set (proposed_numbers (prop_log p)) \<subseteq> set (taken (prop_dirs p)) \<inter> {20..<30}"

lemma proposed_numbers_snoc [simp]:
  "proposed_numbers (evs @ [DoctrineAmendmentProposed i f k n]) = proposed_numbers evs @ [i]"
  "proposed_numbers (evs @ [AmendmentSuppressed a b]) = proposed_numbers evs"
  "proposed_numbers (evs @ [ADRRangeExhausted]) = proposed_numbers evs"
  by (simp_all add: proposed_numbers_def map_filter_def)

lemma suppress_numbers: "numbers_ok p \<Longrightarrow> numbers_ok (suppress reason key p)"
  by (simp add: numbers_ok_def suppress_def)

lemma write_numbers:
  assumes "numbers_ok p" "NextAvailableID (prop_dirs p) = Some i"
  shows "numbers_ok (write_proposal key i body p)"
proof -
  let ?f = "adr_name i (slugify (Title body))"
  have i: "20 \<le> i" "i < 30" "i \<notin> set (taken (prop_dirs p))" using assms(2) by (auto simp: NextAvailableID_Some)
  have re: "adrFileRE ?f = Some i" using slugify_ok i by (intro adrFileRE_name) auto
  have "set (taken (prop_dirs (write_proposal key i body p))) = insert i (set (taken (prop_dirs p)))"
  proof -
    have "set (file_names (prop_dirs (write_proposal key i body p))) = insert ?f (set (file_names (prop_dirs p)))"
      by (simp add: file_names_def write_proposal_def Let_def update_names)
    with re show ?thesis by (auto simp: taken_member)
  qed
  with assms(1) i show ?thesis by (auto simp: numbers_ok_def write_proposal_def Let_def)
qed

lemma propose_numbers: "numbers_ok p \<Longrightarrow> numbers_ok (propose env key p)"
  by (auto simp: propose_def suppress_numbers write_numbers split: option.splits intro!: suppress_numbers)
    (simp add: numbers_ok_def)

lemma numbers_windows [simp]: "numbers_ok (p\<lparr>windows := f\<rparr>) = numbers_ok p" "numbers_ok (p\<lparr>cooldown_reg := r\<rparr>) = numbers_ok p"
  by (simp_all add: numbers_ok_def)

lemma OnEvent_numbers: "numbers_ok p \<Longrightarrow> numbers_ok (OnEvent doctrine env e p)"
  by (simp add: OnEvent_def on_pattern_def Let_def suppress_numbers propose_numbers split: option.splits prod.splits)

definition prop_init :: "Proposer \<Rightarrow> bool" where
  "prop_init p \<longleftrightarrow> prop_log p = [] \<and> (\<forall>k. windows p k = [])"

interpretation numbering: safety prop_init "prop_step doctrine" numbers_ok for doctrine
proof
  show "prop_init p \<Longrightarrow> numbers_ok p" for p
    by (simp add: prop_init_def numbers_ok_def proposed_numbers_def map_filter_def)
  show "numbers_ok p \<Longrightarrow> prop_step doctrine p p' \<Longrightarrow> numbers_ok p'" for p p'
    by (auto elim!: prop_step.cases simp: OnEvent_numbers) (auto simp: numbers_ok_def)
qed

text \<open>C27: Amendment proposals get distinct numbers: over any interleaving of events and movements of
  ADR files between the directories, no two proposals carry the same number, all lie in the reserved
  range and are visible in the directories, and so there are at most ten.\<close>

theorem proposals_get_distinct_numbers:
  assumes "reach prop_init (prop_step doctrine) p"
  shows "distinct (proposed_numbers (prop_log p))
    \<and> (\<forall>i \<in> set (proposed_numbers (prop_log p)). 20 \<le> i \<and> i \<le> 29 \<and> (\<exists>f \<in> set (file_names (prop_dirs p)). adrFileRE f = Some i))
    \<and> length (proposed_numbers (prop_log p)) \<le> 10"
proof -
  have inv: "numbers_ok p" by (rule numbering.reach_inv [OF assms])
  let ?ns = "proposed_numbers (prop_log p)"
  have "card (set ?ns) \<le> card {20..<30::nat}" using inv by (intro card_mono) (auto simp: numbers_ok_def)
  with inv have "length ?ns \<le> 10" by (simp add: numbers_ok_def distinct_card)
  with inv show ?thesis by (auto simp: numbers_ok_def simp flip: taken_member)
qed

subsection \<open>Evidence for a proposal\<close>

text \<open>The classes have different first letters, so a key determines its class and its threshold.\<close>

lemma classify_class: "classify e = Some (class, sub) \<Longrightarrow> class \<in> {''operator_override'', ''cost_degradation'', ''escalation''}"
  by (auto simp: Let_def split: amd_type.splits if_splits)

lemma event_key_threshold:
  assumes "event_key doctrine e = Some (k, n, h)" "event_key doctrine e' = Some (k, n', h')"
  shows "n = n' \<and> h = h'"
proof -
  obtain c s where c: "classify e = Some (c, s)" "thresholds doctrine c = (n, h)"
    "k = shortPatternKey doctrine c s (payload_string e ''project_id'')"
    using assms(1) by (auto simp: event_key_def split: option.splits prod.splits if_splits)
  obtain c' s' where c': "classify e' = Some (c', s')" "thresholds doctrine c' = (n', h')"
    "k = shortPatternKey doctrine c' s' (payload_string e' ''project_id'')"
    using assms(2) by (auto simp: event_key_def split: option.splits prod.splits if_splits)
  have "hd c = hd c'" using c(3) c'(3) classify_class [OF c(1)] classify_class [OF c'(1)]
    by (auto simp: shortPatternKey_def)
  then have "c = c'" using classify_class [OF c(1)] classify_class [OF c'(1)] by auto
  with c c' show ?thesis by simp
qed

definition about :: "string \<Rightarrow> amd_log_event \<Rightarrow> bool" where
  "about k ev = (case ev of DoctrineAmendmentProposed _ _ k' _ \<Rightarrow> k' = k | AmendmentSuppressed _ k' \<Rightarrow> k' = k | _ \<Rightarrow> False)"

definition decisions_on :: "string \<Rightarrow> amd_log_event list \<Rightarrow> nat" where
  "decisions_on k evs = length (filter (about k) evs)"

lemma decisions_on_snoc [simp]:
  "decisions_on k (evs @ [DoctrineAmendmentProposed i f k' n]) = decisions_on k evs + (if k' = k then 1 else 0)"
  "decisions_on k (evs @ [AmendmentSuppressed r k']) = decisions_on k evs + (if k' = k then 1 else 0)"
  "decisions_on k (evs @ [ADRRangeExhausted]) = decisions_on k evs"
  "decisions_on k (evs @ [ADRRangeExhausted, AmendmentSuppressed r k']) = decisions_on k evs + (if k' = k then 1 else 0)"
  by (simp_all add: decisions_on_def about_def)

text \<open>Deciding on a pattern clears its window and logs once, or leaves both as they are.\<close>

definition settles :: "string \<Rightarrow> Proposer \<Rightarrow> Proposer \<Rightarrow> bool" where
  "settles key p p' \<longleftrightarrow> (\<forall>k. k \<noteq> key \<longrightarrow> windows p' k = windows p k \<and> decisions_on k (prop_log p') = decisions_on k (prop_log p))
     \<and> (windows p' key = [] \<and> decisions_on key (prop_log p') = Suc (decisions_on key (prop_log p))
        \<or> windows p' key = windows p key \<and> decisions_on key (prop_log p') = decisions_on key (prop_log p))"

lemma suppress_settles: "settles key p (suppress r key p)"
  by (simp add: settles_def suppress_def)

lemma propose_settles: "settles key p (propose env key p)"
  by (auto simp: propose_def settles_def suppress_def write_proposal_def Let_def split: option.splits)

lemma window_after_length: "length (window_after hours now e old) \<le> Suc (length old)"
  unfolding window_after_def using length_filter_le [of _ "sort_key ev_time (old @ [e])"] by simp

lemma on_pattern_counts:
  assumes "p' = on_pattern env needed hours key e p"
  shows "k \<noteq> key \<longrightarrow> windows p' k = windows p k \<and> decisions_on k (prop_log p') = decisions_on k (prop_log p)"
    and "needed * decisions_on key (prop_log p') + length (windows p' key)
      \<le> Suc (needed * decisions_on key (prop_log p) + length (windows p key))"
proof -
  define win where "win = window_after hours (now_event env) e (windows p key)"
  have len: "length win \<le> Suc (length (windows p key))" unfolding win_def by (rule window_after_length)
  obtain sup reg where cd: "Cooldown_Suppressed (now_cooldown env) key (cooldown_reg p) = (sup, reg)" by fastforce
  define p2 where "p2 = p\<lparr>windows := (windows p)(key := win), cooldown_reg := reg\<rparr>"
  have p2: "windows p2 = (windows p)(key := win)" "prop_log p2 = prop_log p" by (simp_all add: p2_def)
  show "k \<noteq> key \<longrightarrow> windows p' k = windows p k \<and> decisions_on k (prop_log p') = decisions_on k (prop_log p)"
  proof (cases "length win < needed")
    case False
    then have "settles key p2 p'" using assms suppress_settles propose_settles cd
      by (simp add: on_pattern_def win_def [symmetric] Let_def p2_def)
    then show ?thesis by (auto simp: settles_def p2)
  qed (use assms in \<open>simp add: on_pattern_def win_def [symmetric] Let_def\<close>)
  show "needed * decisions_on key (prop_log p') + length (windows p' key)
      \<le> Suc (needed * decisions_on key (prop_log p) + length (windows p key))"
  proof (cases "length win < needed")
    case False
    then have "settles key p2 p'" using assms suppress_settles propose_settles cd
      by (simp add: on_pattern_def win_def [symmetric] Let_def p2_def)
    with False len show ?thesis by (auto simp: settles_def p2)
  qed (use assms len in \<open>simp add: on_pattern_def win_def [symmetric] Let_def\<close>)
qed

fun observe_all :: "string \<Rightarrow> (event_env \<times> amd_event) list \<Rightarrow> Proposer \<Rightarrow> Proposer" where
  "observe_all doctrine [] p = p"
| "observe_all doctrine ((env, e) # obs) p = observe_all doctrine obs (OnEvent doctrine env e p)"

definition of_pattern :: "string \<Rightarrow> string \<Rightarrow> amd_event \<Rightarrow> bool" where
  "of_pattern doctrine k e \<longleftrightarrow> (\<exists>n h. event_key doctrine e = Some (k, n, h))"

lemma observe_counts:
  assumes "\<forall>e n' h. event_key doctrine e = Some (k, n', h) \<longrightarrow> n' = needed"
  shows "needed * decisions_on k (prop_log (observe_all doctrine obs p)) + length (windows (observe_all doctrine obs p) k)
    \<le> needed * decisions_on k (prop_log p) + length (windows p k) + length (filter (of_pattern doctrine k \<circ> snd) obs)"
proof (induction obs arbitrary: p)
  case (Cons x obs)
  obtain env e where x: "x = (env, e)" by (cases x)
  let ?p = "OnEvent doctrine env e p"
  have step: "needed * decisions_on k (prop_log ?p) + length (windows ?p k)
      \<le> needed * decisions_on k (prop_log p) + length (windows p k) + (if of_pattern doctrine k e then 1 else 0)"
  proof (cases "event_key doctrine e")
    case (Some y)
    obtain key n h where y: "y = (key, n, h)" by (cases y)
    show ?thesis
    proof (cases "key = k")
      case True
      have "n = needed" using assms Some y True by blast
      then show ?thesis using on_pattern_counts(2) [OF refl, of needed k env h e p] Some y True
        by (simp add: OnEvent_def of_pattern_def)
    next
      case False
      then show ?thesis using on_pattern_counts(1) [OF refl, of k key env n h e p] Some y
        by (simp add: OnEvent_def of_pattern_def)
    qed
  qed (simp add: OnEvent_def of_pattern_def)
  from Cons.IH [of ?p] step show ?case by (auto simp: x)
qed simp

text \<open>C36: Amendments need evidence: over any sequence of events, from empty windows, the number of
  decisions taken on a pattern (proposals and suppressions) times its threshold is at most the number
  of events of that pattern, so no event is ever evidence for two decisions.\<close>

theorem proposals_need_evidence:
  assumes "prop_init p" "event_key doctrine e = Some (k, needed, hours)"
  shows "needed * decisions_on k (prop_log (observe_all doctrine obs p))
    \<le> length (filter (\<lambda>x. \<exists>n h. event_key doctrine (snd x) = Some (k, n, h)) obs)"
proof -
  have "\<forall>e' n' h. event_key doctrine e' = Some (k, n', h) \<longrightarrow> n' = needed"
    using event_key_threshold [OF assms(2)] by blast
  from observe_counts [OF this, of obs p] assms(1) show ?thesis
    by (simp add: prop_init_def decisions_on_def of_pattern_def comp_def case_prod_unfold)
qed

text \<open>The cooldown of the proposer is never armed: nothing but \<open>Arm\<close> writes the registry and no code
  calls it, so from a new registry no event is ever suppressed for cooldown.\<close>

lemma propose_registry: "cooldown_reg (propose env key p) = cooldown_reg p"
  "AmendmentSuppressed ''cooldown'' k \<in> set (prop_log (propose env key p)) \<longleftrightarrow> AmendmentSuppressed ''cooldown'' k \<in> set (prop_log p)"
  by (auto simp: propose_def suppress_def write_proposal_def Let_def split: option.splits)

lemma cooldown_never_suppresses:
  assumes "cooldown_reg p = (\<lambda>_. None)" "\<forall>k. AmendmentSuppressed ''cooldown'' k \<notin> set (prop_log p)"
  shows "cooldown_reg (observe_all doctrine obs p) = (\<lambda>_. None)
    \<and> (\<forall>k. AmendmentSuppressed ''cooldown'' k \<notin> set (prop_log (observe_all doctrine obs p)))"
  using assms
proof (induction doctrine obs p rule: observe_all.induct)
  case (2 doctrine env e obs p)
  have "cooldown_reg (OnEvent doctrine env e p) = (\<lambda>_. None)
    \<and> (\<forall>k. AmendmentSuppressed ''cooldown'' k \<notin> set (prop_log (OnEvent doctrine env e p)))"
    using 2(2,3) by (simp add: OnEvent_def on_pattern_def Cooldown_Suppressed_def Let_def propose_registry split: option.splits)
  with 2(1) show ?case by simp
qed simp

subsection \<open>Applying an amendment (applier.go)\<close>

text \<open>The fenced block: after \<open>```toml\<close>, white space that ends in a newline (as much as possible), then
  the shortest text before a newline and three back quotes.\<close>

definition re_space :: "char \<Rightarrow> bool" where
  "re_space c \<longleftrightarrow> c \<in> {CHR 0x09, CHR 0x0A, CHR 0x0C, CHR 0x0D, CHR '' ''}"

fun before_close :: "string \<Rightarrow> string option" where
  "before_close s =
     (case CutPrefix s (CHR 0x0A # ''```'') of
        Some _ \<Rightarrow> Some []
      | None \<Rightarrow> (case s of [] \<Rightarrow> None | c # cs \<Rightarrow> map_option ((#) c) (before_close cs)))"

definition after_fence :: "string \<Rightarrow> string option" where
  "after_fence s =
     (let n = length (takeWhile re_space s);
          starts = filter (\<lambda>i. s ! i = CHR 0x0A) (rev [0..<n])
      in case List.find (\<lambda>i. before_close (drop (Suc i) s) \<noteq> None) starts of
           None \<Rightarrow> None
         | Some i \<Rightarrow> before_close (drop (Suc i) s))"

fun extractTOMLDiff :: "string \<Rightarrow> string option" where
  "extractTOMLDiff [] = None"
| "extractTOMLDiff (c # cs) =
     (case Option.bind (CutPrefix (c # cs) ''```toml'') after_fence of
        Some diff \<Rightarrow> Some diff
      | None \<Rightarrow> extractTOMLDiff cs)"

definition sha256Hex :: "string \<Rightarrow> string" where
  "sha256Hex b = hex_encode (sha256 b)"

text \<open>The repository: the decision directories, the project's file, the amendment commits (with the
  file they committed) and the log. \<open>proposed_match\<close> is the glob \<open>NNNN-*.md\<close>.\<close>

record commit =
  cm_adr :: nat
  cm_operator :: string
  cm_file :: string
  cm_prehash :: string
  cm_toml :: string

record repo =
  dirs :: decisions
  toml :: string
  commits :: "commit list"
  amd_log :: "amd_log_event list"

definition proposed_match :: "nat \<Rightarrow> string \<Rightarrow> bool" where
  "proposed_match adrID f \<longleftrightarrow> CutPrefix f (pad4 adrID @ ''-'') \<noteq> None
     \<and> length (pad4 adrID) + 4 \<le> length f \<and> drop (length f - 3) f = ''.md''"

datatype apply_err = LocateFailed | ReadFailed | ErrNoTOMLBlock | ValidateFailed | TomlReadFailed | MoveFailed
  | WriteFailed | GitAddFailed | GitCommitFailed | ReloadFailed | EmitFailed | ParseMergedFailed | NilBaseline
  | TightenRejected | NilReverter

definition findProposedADR :: "nat \<Rightarrow> repo \<Rightarrow> string option" where
  "findProposedADR adrID r =
     (case filter (proposed_match adrID) (map fst (dir_proposed (dirs r))) of [f] \<Rightarrow> Some f | _ \<Rightarrow> None)"

text \<open>Which system calls succeed during an application. A write that fails may already have truncated
  the file: \<open>left_behind\<close> is its content then.\<close>

record apply_env =
  adr_read_ok :: bool
  toml_read_ok :: bool
  move_ok :: bool
  toml_write_ok :: bool
  left_behind :: string
  git_add_ok :: bool
  git_commit_ok :: bool
  reload_ok :: bool
  emit_ok :: bool
  undo_write_ok :: bool
  undo_move_ok :: bool
  reject_mkdir_ok :: bool
  reject_move_ok :: bool

definition move_adr :: "string \<Rightarrow> decisions \<Rightarrow> decisions" where
  "move_adr f d = (case map_of (dir_proposed d) f of
     None \<Rightarrow> d
   | Some body \<Rightarrow> d\<lparr>dir_proposed := AList.delete f (dir_proposed d), dir_accepted := AList.update f body (dir_accepted d)\<rparr>)"

definition unmove_adr :: "string \<Rightarrow> decisions \<Rightarrow> decisions" where
  "unmove_adr f d = (case map_of (dir_accepted d) f of
     None \<Rightarrow> d
   | Some body \<Rightarrow> d\<lparr>dir_accepted := AList.delete f (dir_accepted d), dir_proposed := AList.update f body (dir_proposed d)\<rparr>)"

definition rejectADR :: "apply_env \<Rightarrow> nat \<Rightarrow> string \<Rightarrow> string \<Rightarrow> repo \<Rightarrow> repo" where
  "rejectADR env adrID f reason r =
     (if \<not> reject_mkdir_ok env \<or> \<not> reject_move_ok env then r
      else let d = dirs r;
               body = (case map_of (dir_proposed d) f of None \<Rightarrow> [] | Some b \<Rightarrow> b);
               r1 = r\<lparr>dirs := d\<lparr>dir_proposed := AList.delete f (dir_proposed d),
                        dir_rejected := AList.update f body (dir_rejected d)\<rparr>\<rparr>
           in if emit_ok env then r1\<lparr>amd_log := amd_log r1 @ [AmendmentSuppressed reason (pad4 adrID)]\<rparr> else r1)"

definition undo :: "apply_env \<Rightarrow> string \<Rightarrow> string \<Rightarrow> repo \<Rightarrow> repo" where
  "undo env pre f r =
     (let r1 = (if undo_write_ok env then r\<lparr>toml := pre\<rparr> else r)
      in if undo_move_ok env then r1\<lparr>dirs := unmove_adr f (dirs r1)\<rparr> else r1)"

text \<open>The part \<open>Apply\<close> and \<open>ApplyTransacted\<close> share: up to and including the commit.\<close>

definition write_and_commit :: "apply_env \<Rightarrow> nat \<Rightarrow> string \<Rightarrow> string \<Rightarrow> string \<Rightarrow> repo \<Rightarrow> apply_err option \<times> repo" where
  "write_and_commit env adrID operator f diff r =
     (let pre = toml r;
          r1 = r\<lparr>dirs := move_adr f (dirs r)\<rparr>;
          merged = pre @ [CHR 0x0A] @ diff
      in if \<not> move_ok env then (Some MoveFailed, r)
         else if \<not> toml_write_ok env then
           (Some WriteFailed, let w = r1\<lparr>toml := left_behind env\<rparr> in
              if undo_move_ok env then w\<lparr>dirs := unmove_adr f (dirs w)\<rparr> else w)
         else let r2 = r1\<lparr>toml := merged\<rparr> in
           if \<not> git_add_ok env then (Some GitAddFailed, undo env pre f r2)
           else if \<not> git_commit_ok env then (Some GitCommitFailed, undo env pre f r2)
           else (None, r2\<lparr>commits := \<lparr>cm_adr = adrID, cm_operator = operator, cm_file = f,
                            cm_prehash = sha256Hex pre, cm_toml = merged\<rparr> # commits r2\<rparr>))"

definition apply_commit :: "(string \<Rightarrow> bool) \<Rightarrow> apply_env \<Rightarrow> nat \<Rightarrow> string \<Rightarrow> repo \<Rightarrow> apply_err option \<times> repo" where
  "apply_commit ValidateTOML env adrID operator r =
     (case findProposedADR adrID r of
        None \<Rightarrow> (Some LocateFailed, r)
      | Some f \<Rightarrow>
          if \<not> adr_read_ok env then (Some ReadFailed, r)
          else case extractTOMLDiff (the (map_of (dir_proposed (dirs r)) f)) of
            None \<Rightarrow> (Some ErrNoTOMLBlock, rejectADR env adrID f ''no_toml_block'' r)
          | Some diff \<Rightarrow>
              if \<not> ValidateTOML diff then (Some ValidateFailed, rejectADR env adrID f ''validate_failed'' r)
              else if \<not> toml_read_ok env then (Some TomlReadFailed, r)
              else write_and_commit env adrID operator f diff r)"

definition log_applied :: "apply_env \<Rightarrow> nat \<Rightarrow> string \<Rightarrow> repo \<Rightarrow> apply_err option \<times> repo" where
  "log_applied env adrID operator r =
     (if emit_ok env then (None, r\<lparr>amd_log := amd_log r @ [DoctrineAmendmentApplied adrID operator]\<rparr>)
      else (Some EmitFailed, r))"

text \<open>\<open>Apply\<close> ignores the outcome of the reload signal.\<close>

definition Apply :: "(string \<Rightarrow> bool) \<Rightarrow> apply_env \<Rightarrow> nat \<Rightarrow> string \<Rightarrow> repo \<Rightarrow> apply_err option \<times> repo" where
  "Apply ValidateTOML env adrID operator r =
     (case apply_commit ValidateTOML env adrID operator r of
        (Some e, r') \<Rightarrow> (Some e, r')
      | (None, r') \<Rightarrow> log_applied env adrID operator r')"

subsection \<open>Reverting (reverter.go)\<close>

text \<open>What git answers a revert of an amendment: whether it succeeds, and the project's file then.\<close>

record revert_env =
  revert_ok :: bool
  reverted_toml :: string
  revert_read_ok :: bool
  revert_reload_ok :: bool
  revert_emit_ok :: bool

datatype revert_err = NoCommit | GitRevertFailed | PostReadFailed | HashMismatch | ReloadAfterRevert | RevertEmitFailed

definition Revert :: "revert_env \<Rightarrow> nat \<Rightarrow> repo \<Rightarrow> revert_err option \<times> repo" where
  "Revert env adrID r =
     (if \<not> (\<exists>c \<in> set (commits r). cm_adr c = adrID) then (Some NoCommit, r)
      else if \<not> revert_ok env then (Some GitRevertFailed, r)
      else let r1 = r\<lparr>toml := reverted_toml env\<rparr> in
        if \<not> revert_reload_ok env then (Some ReloadAfterRevert, r1)
        else if \<not> revert_emit_ok env then (Some RevertEmitFailed, r1)
        else (None, r1\<lparr>amd_log := amd_log r1 @ [DoctrineAmendmentReverted adrID False]\<rparr>))"

definition Rollback :: "revert_env \<Rightarrow> nat \<Rightarrow> string \<Rightarrow> repo \<Rightarrow> revert_err option \<times> repo" where
  "Rollback env adrID expectedPreHash r =
     (if \<not> (\<exists>c \<in> set (commits r). cm_adr c = adrID) then (Some NoCommit, r)
      else if \<not> revert_ok env then (Some GitRevertFailed, r)
      else let r1 = r\<lparr>toml := reverted_toml env\<rparr> in
        if \<not> revert_read_ok env then (Some PostReadFailed, r1)
        else if sha256Hex (toml r1) \<noteq> expectedPreHash then
          (Some HashMismatch, if revert_emit_ok env
             then r1\<lparr>amd_log := amd_log r1 @ [AmendmentSuppressed ''rollback_hash_mismatch'' (pad4 adrID)]\<rparr> else r1)
        else if \<not> revert_reload_ok env then (Some ReloadAfterRevert, r1)
        else if \<not> revert_emit_ok env then (Some RevertEmitFailed, r1)
        else (None, r1\<lparr>amd_log := amd_log r1 @ [DoctrineAmendmentReverted adrID True]\<rparr>))"

definition ApplyTransacted :: "(string \<Rightarrow> bool) \<Rightarrow> apply_env \<Rightarrow> revert_env \<Rightarrow> nat \<Rightarrow> string \<Rightarrow> repo \<Rightarrow> apply_err option \<times> repo" where
  "ApplyTransacted ValidateTOML env renv adrID operator r =
     (case apply_commit ValidateTOML env adrID operator r of
        (Some e, r') \<Rightarrow> (Some e, r')
      | (None, r') \<Rightarrow>
          (let (err, r'') = (if \<not> reload_ok env then (Some ReloadFailed, r') else log_applied env adrID operator r')
           in case err of
                None \<Rightarrow> (None, r'')
              | Some e \<Rightarrow> (Some e, snd (Rollback renv adrID (sha256Hex (toml r)) r''))))"

subsection \<open>The tighten gate (applier\_validation.go)\<close>

definition ApplyWithValidation :: "(string \<Rightarrow> parse_err + goval) \<Rightarrow> (unit \<Rightarrow> goval option) \<Rightarrow> (string \<Rightarrow> bool) \<Rightarrow> (bool option)
    \<Rightarrow> apply_env \<Rightarrow> nat \<Rightarrow> string \<Rightarrow> repo \<Rightarrow> apply_err option \<times> repo" where
  "ApplyWithValidation schemaParser baselineFn ValidateTOML awaiter env adrID operator r =
     (case findProposedADR adrID r of
        None \<Rightarrow> (Some LocateFailed, r)
      | Some f \<Rightarrow>
          if \<not> adr_read_ok env then (Some ReadFailed, r)
          else case extractTOMLDiff (the (map_of (dir_proposed (dirs r)) f)) of
            None \<Rightarrow> (Some ErrNoTOMLBlock, r)
          | Some diff \<Rightarrow>
              if \<not> toml_read_ok env then (Some TomlReadFailed, r)
              else case schemaParser (toml r @ [CHR 0x0A] @ diff) of
                Inl _ \<Rightarrow> (Some ParseMergedFailed, r)
              | Inr candidate \<Rightarrow>
                  (case baselineFn () of
                     None \<Rightarrow> (Some NilBaseline, r)
                   | Some baseline \<Rightarrow>
                       (case ValidateTighten (Some candidate) (Some baseline) of
                          Some vErr \<Rightarrow>
                            (let r1 = (if emit_ok env
                                       then r\<lparr>amd_log := amd_log r @ [TightenViolationRejected adrID vErr]\<rparr> else r)
                             in (Some TightenRejected, rejectADR env adrID f ''tighten_violation'' r1))
                        | None \<Rightarrow>
                            (case Apply ValidateTOML env adrID operator r of
                               (Some e, r') \<Rightarrow> (Some e, r')
                             | (None, r') \<Rightarrow>
                                 (None, if awaiter = Some False
                                    then r'\<lparr>amd_log := amd_log r' @ [DoctrineWatcherStalledOnApply adrID]\<rparr> else r')))))"

subsection \<open>All or nothing\<close>

declare before_close.simps [simp del]

definition same_dirs :: "decisions \<Rightarrow> decisions \<Rightarrow> bool" where
  "same_dirs d d' \<longleftrightarrow> map_of (dir_accepted d') = map_of (dir_accepted d) \<and> map_of (dir_proposed d') = map_of (dir_proposed d)
     \<and> map_of (dir_rejected d') = map_of (dir_rejected d)"

lemma same_dirs_refl [simp]: "same_dirs d d"
  by (simp add: same_dirs_def)

lemma unmove_move:
  assumes "map_of (dir_accepted d) f = None" "map_of (dir_proposed d) f = Some body"
  shows "same_dirs d (unmove_adr f (move_adr f d))"
  using assms by (auto simp: same_dirs_def move_adr_def unmove_adr_def update_conv' delete_conv' fun_eq_iff)

lemma found_proposed: "findProposedADR adrID r = Some f \<Longrightarrow> \<exists>body. map_of (dir_proposed (dirs r)) f = Some body"
proof -
  assume "findProposedADR adrID r = Some f"
  then have "filter (proposed_match adrID) (map fst (dir_proposed (dirs r))) = [f]"
    by (auto simp: findProposedADR_def split: list.splits)
  then have "f \<in> set (filter (proposed_match adrID) (map fst (dir_proposed (dirs r))))" by (metis list.set_intros(1))
  then have "f \<in> fst ` set (dir_proposed (dirs r))" by simp
  then show ?thesis by (metis dom_map_of_conv_image_fst domD)
qed

text \<open>The rollbacks of a failed application succeed, a failed write left the file as it was, and no
  accepted ADR has the name of a proposed one.\<close>

definition clean_failures :: "apply_env \<Rightarrow> repo \<Rightarrow> bool" where
  "clean_failures env r \<longleftrightarrow> undo_write_ok env \<and> undo_move_ok env \<and> (toml_write_ok env \<or> left_behind env = toml r)
     \<and> (\<forall>f. map_of (dir_proposed (dirs r)) f \<noteq> None \<longrightarrow> map_of (dir_accepted (dirs r)) f = None)"

definition untouched :: "repo \<Rightarrow> repo \<Rightarrow> bool" where
  "untouched r r' \<longleftrightarrow> toml r' = toml r \<and> commits r' = commits r \<and> amd_log r' = amd_log r \<and> same_dirs (dirs r) (dirs r')"

definition only_rejected :: "string \<Rightarrow> repo \<Rightarrow> repo \<Rightarrow> bool" where
  "only_rejected f r r' \<longleftrightarrow> toml r' = toml r \<and> commits r' = commits r
     \<and> map_of (dir_accepted (dirs r')) = map_of (dir_accepted (dirs r))
     \<and> map_of (dir_proposed (dirs r')) = (map_of (dir_proposed (dirs r)))(f := None)
     \<and> map_of (dir_rejected (dirs r')) f = map_of (dir_proposed (dirs r)) f"

definition applied :: "string \<Rightarrow> string \<Rightarrow> repo \<Rightarrow> repo \<Rightarrow> bool" where
  "applied f diff r r' \<longleftrightarrow> toml r' = toml r @ [CHR 0x0A] @ diff
     \<and> (\<exists>c. commits r' = c # commits r \<and> cm_toml c = toml r' \<and> cm_file c = f \<and> cm_prehash c = sha256Hex (toml r))
     \<and> map_of (dir_proposed (dirs r')) = (map_of (dir_proposed (dirs r)))(f := None)
     \<and> map_of (dir_accepted (dirs r')) = (map_of (dir_accepted (dirs r)))(f := map_of (dir_proposed (dirs r)) f)"

lemma rejectADR_effect:
  "map_of (dir_proposed (dirs r)) f = Some body \<Longrightarrow>
    untouched r (rejectADR env adrID f reason r) \<or> only_rejected f r (rejectADR env adrID f reason r)"
  by (auto simp: rejectADR_def Let_def untouched_def only_rejected_def delete_conv' update_conv')

lemma write_and_commit_effect:
  assumes "clean_failures env r" "map_of (dir_proposed (dirs r)) f = Some body"
  shows "case write_and_commit env adrID operator f diff r of
      (None, r') \<Rightarrow> applied f diff r r' \<and> amd_log r' = amd_log r
    | (Some e, r') \<Rightarrow> untouched r r' \<and> e \<in> {MoveFailed, WriteFailed, GitAddFailed, GitCommitFailed}"
proof -
  have new: "map_of (dir_accepted (dirs r)) f = None" using assms by (simp add: clean_failures_def)
  note undone = unmove_move [OF new assms(2)]
  show ?thesis using assms undone new
    by (auto simp: write_and_commit_def Let_def undo_def untouched_def clean_failures_def applied_def move_adr_def delete_conv' update_conv')
qed

lemma apply_commit_effect:
  assumes "clean_failures env r"
  shows "case apply_commit V env adrID operator r of
      (None, r') \<Rightarrow> (\<exists>f diff body. findProposedADR adrID r = Some f \<and> map_of (dir_proposed (dirs r)) f = Some body
          \<and> extractTOMLDiff body = Some diff \<and> V diff \<and> applied f diff r r' \<and> amd_log r' = amd_log r)
    | (Some e, r') \<Rightarrow> e \<noteq> EmitFailed \<and> (untouched r r' \<or> (\<exists>f. findProposedADR adrID r = Some f \<and> only_rejected f r r'))"
proof (cases "findProposedADR adrID r")
  case (Some f)
  obtain body where body: "map_of (dir_proposed (dirs r)) f = Some body" using found_proposed [OF Some] by blast
  show ?thesis
  proof (cases "adr_read_ok env")
    case True
    show ?thesis
    proof (cases "extractTOMLDiff body")
      case None
      with rejectADR_effect [OF body, of env adrID "''no_toml_block''"] True Some body show ?thesis
        by (auto simp: apply_commit_def)
    next
      case diff: (Some diff)
      consider "\<not> V diff" | "V diff" "\<not> toml_read_ok env" | "V diff" "toml_read_ok env" by blast
      then show ?thesis
      proof cases
        case 1
        with rejectADR_effect [OF body, of env adrID "''validate_failed''"] True Some body diff show ?thesis
          by (auto simp: apply_commit_def)
      next
        case 3
        obtain e r' where w: "write_and_commit env adrID operator f diff r = (e, r')" by fastforce
        with write_and_commit_effect [OF assms body, where adrID = adrID and operator = operator and diff = diff]
        show ?thesis using 3 True Some body diff by (cases e) (auto simp: apply_commit_def)
      qed (use True Some body diff in \<open>auto simp: apply_commit_def untouched_def\<close>)
    qed
  qed (use Some in \<open>simp add: apply_commit_def untouched_def\<close>)
qed (simp add: apply_commit_def untouched_def)


subsection \<open>Only tighter doctrines are written\<close>

lemma rejectADR_keeps [simp]: "toml (rejectADR env adrID f reason r) = toml r" "commits (rejectADR env adrID f reason r) = commits r"
  by (simp_all add: rejectADR_def Let_def)

lemma Apply_toml:
  assumes "clean_failures env r" "findProposedADR adrID r = Some f" "map_of (dir_proposed (dirs r)) f = Some body"
    and "extractTOMLDiff body = Some diff"
  shows "toml (snd (Apply V env adrID operator r)) \<in> {toml r, toml r @ [CHR 0x0A] @ diff}"
proof -
  obtain e r' where ac: "apply_commit V env adrID operator r = (e, r')" by fastforce
  note eff = apply_commit_effect [OF assms(1), where V = V and adrID = adrID and operator = operator, unfolded ac]
  have "toml r' = (case e of None \<Rightarrow> toml r @ [CHR 0x0A] @ diff | Some _ \<Rightarrow> toml r)"
    using eff assms(2-4) by (cases e) (auto simp: applied_def untouched_def only_rejected_def)
  then show ?thesis using ac by (cases e) (auto simp: Apply_def log_applied_def)
qed

text \<open>The tighten gate holds: when an application with validation changes the project's file, the
  new content is the merged text, it parses, and the parsed doctrine was accepted by
  \<open>ValidateTighten\<close> against the baseline.\<close>

lemma amendment_writes_only_tighter:
  assumes "clean_failures env r"
    and "toml (snd (ApplyWithValidation schemaParser baselineFn V awaiter env adrID operator r)) \<noteq> toml r"
  shows "\<exists>diff candidate baseline.
    toml (snd (ApplyWithValidation schemaParser baselineFn V awaiter env adrID operator r)) = toml r @ [CHR 0x0A] @ diff
    \<and> schemaParser (toml r @ [CHR 0x0A] @ diff) = Inr candidate \<and> baselineFn () = Some baseline
    \<and> ValidateTighten (Some candidate) (Some baseline) = None"
proof -
  let ?res = "ApplyWithValidation schemaParser baselineFn V awaiter env adrID operator r"
  obtain f where f: "findProposedADR adrID r = Some f"
    using assms(2) by (cases "findProposedADR adrID r") (auto simp: ApplyWithValidation_def)
  obtain body where body: "map_of (dir_proposed (dirs r)) f = Some body" using found_proposed [OF f] by blast
  obtain diff where diff: "extractTOMLDiff body = Some diff" and ok: "adr_read_ok env" "toml_read_ok env"
    using assms(2) by (auto simp: ApplyWithValidation_def f body split: option.splits if_splits)
  obtain cand where cand: "schemaParser (toml r @ [CHR 0x0A] @ diff) = Inr cand"
    using assms(2) by (cases "schemaParser (toml r @ [CHR 0x0A] @ diff)") (auto simp: ApplyWithValidation_def f body diff ok)
  obtain b where b: "baselineFn () = Some b"
    using assms(2) cand by (cases "baselineFn ()") (auto simp: ApplyWithValidation_def f body diff ok)
  have v: "ValidateTighten (Some cand) (Some b) = None"
    using assms(2) cand b by (cases "ValidateTighten (Some cand) (Some b)") (auto simp: ApplyWithValidation_def f body diff ok Let_def split: if_splits)
  have "toml (snd ?res) = toml (snd (Apply V env adrID operator r))"
    using cand b v by (cases "Apply V env adrID operator r") (auto simp: ApplyWithValidation_def f body diff ok split: option.splits)
  with Apply_toml [OF assms(1) f body diff, of V operator] assms(2) cand b v show ?thesis by auto
qed

subsection \<open>With the default parser every amendment is rejected\<close>

lemma axiom_rule: "map_of TightenRegistry ''Transverse.NoTechDebt'' = Some (rule_of TightenDirTruth TBool)"
  by code_simp

lemma axiom_path: "FieldByName s ''Transverse'' = Some t \<Longrightarrow> lookupField s ''Transverse.NoTechDebt'' = FieldByName t ''NoTechDebt''"
  by (simp add: lookupField_def split: option.splits)

lemma axiom_violation:
  assumes "FieldByName cand ''Transverse'' = Some zero_transverse" "FieldByName b ''Transverse'' = Some TransverseExpected"
  shows "\<exists>faults info. ValidateTighten (Some cand) (Some b) = Some (ErrTightenViolation faults info)"
proof -
  have "lookupField cand ''Transverse.NoTechDebt'' = Some (VBool False)" "lookupField b ''Transverse.NoTechDebt'' = Some (VBool True)"
    using axiom_path [OF assms(1)] axiom_path [OF assms(2)] by (simp_all add: zero_transverse_def TransverseExpected_def)
  then have "fst (check_path cand b ''Transverse.NoTechDebt'') \<noteq> []"
    by (simp add: check_path_def axiom_rule field_fault_def truth_case_def checkTruth_def)
  moreover have "''Transverse.NoTechDebt'' \<in> set (sort (map fst TightenRegistry))"
    using imageI [OF map_of_SomeD [OF axiom_rule], of fst] by simp
  moreover have "concat (map fst (map g ps)) \<noteq> []" if "p \<in> set ps" "fst (g p) \<noteq> []" for p ps and g :: "string \<Rightarrow> tighten_fault list \<times> string list"
    using that by auto
  ultimately have "concat (map fst (map (check_path cand b) (sort (map fst TightenRegistry)))) \<noteq> []" by blast
  then show ?thesis by (simp add: ValidateTighten_def Let_def del: map_map)
qed

text \<open>With the package's default parser no amendment can be applied: the merged text must not
  declare the transverse axioms, so the candidate has them false, and against any baseline that holds
  them the tighten check fails. The project's file and the commits never change, and a proposal that
  is found, readable and parsed is always answered with the tighten rejection.\<close>

lemma amendments_always_rejected:
  assumes "decoder_keeps_undefined decode" "baselineFn () = Some b" "FieldByName b ''Transverse'' = Some TransverseExpected"
  shows "case ApplyWithValidation (ParseStrict decode False) baselineFn V awaiter env adrID operator r of (e, r') \<Rightarrow>
    e \<noteq> None \<and> toml r' = toml r \<and> commits r' = commits r
    \<and> (findProposedADR adrID r = Some f \<and> map_of (dir_proposed (dirs r)) f = Some body \<and> adr_read_ok env \<and> toml_read_ok env
       \<and> extractTOMLDiff body = Some diff \<and> ParseStrict decode False (toml r @ [CHR 0x0A] @ diff) = Inr cand
       \<longrightarrow> e = Some TightenRejected)"
proof -
  have rej: "ValidateTighten (Some c) (Some b) \<noteq> None" if "ParseStrict decode False data = Inr c" for c data
  proof -
    have "FieldByName c ''Transverse'' = Some zero_transverse"
      using that assms(1) by (auto simp: ParseStrict_def decoder_keeps_undefined_def split: option.splits if_splits)
    with axiom_violation [OF _ assms(3)] show ?thesis by fastforce
  qed
  show ?thesis
    by (auto simp: ApplyWithValidation_def assms(2) Let_def rej split: option.splits sum.splits prod.splits)
qed

subsection \<open>What failures can leave behind\<close>

text \<open>A write that fails after truncating the file is not undone, unlike a failed \<open>git\<close>: the ADR goes
  back to proposed but the project's doctrine is gone.\<close>

lemma failed_write_loses_doctrine:
  assumes "move_ok env" "\<not> toml_write_ok env"
  shows "fst (write_and_commit env adrID operator f diff r) = Some WriteFailed
    \<and> toml (snd (write_and_commit env adrID operator f diff r)) = left_behind env"
  using assms by (simp add: write_and_commit_def Let_def)

text \<open>An amendment that is rolled back because the reload failed stays among the accepted ADRs: the
  revert of the commit restores the project's file, but the move of the ADR was never part of it.\<close>

lemma rolled_back_stays_accepted:
  assumes "apply_commit V env adrID operator r = (None, r')" "clean_failures env r" "\<not> reload_ok env"
  obtains f body where "fst (ApplyTransacted V env renv adrID operator r) = Some ReloadFailed"
    "map_of (dir_accepted (dirs (snd (ApplyTransacted V env renv adrID operator r)))) f = Some body"
    "map_of (dir_proposed (dirs r)) f = Some body"
    "map_of (dir_proposed (dirs (snd (ApplyTransacted V env renv adrID operator r)))) f = None"
proof -
  from apply_commit_effect [OF assms(2), where V = V and adrID = adrID and operator = operator] assms(1)
  obtain f diff body where f: "map_of (dir_proposed (dirs r)) f = Some body" "applied f diff r r'" by auto
  have "dirs (snd (Rollback renv adrID h r')) = dirs r'" for h by (simp add: Rollback_def Let_def)
  with f assms(1,3) show ?thesis
    by (intro that [of f body]) (auto simp: ApplyTransacted_def applied_def)
qed

subsection \<open>Concrete runs\<close>

definition demo_adr_body :: string where
  "demo_adr_body = ''# ADR'' @ [CHR 0x0A] @ ''```toml'' @ [CHR 0x0A] @ ''a = 1'' @ [CHR 0x0A] @ ''```'' @ [CHR 0x0A]"

definition demo_repo :: repo where
  "demo_repo = \<lparr>dirs = \<lparr>dir_accepted = [], dir_proposed = [(''0020-x.md'', demo_adr_body)], dir_rejected = []\<rparr>,
     toml = ''b = 2'', commits = [], amd_log = []\<rparr>"

definition all_ok :: apply_env where
  "all_ok = \<lparr>adr_read_ok = True, toml_read_ok = True, move_ok = True, toml_write_ok = True, left_behind = [],
     git_add_ok = True, git_commit_ok = True, reload_ok = True, emit_ok = True, undo_write_ok = True, undo_move_ok = True,
     reject_mkdir_ok = True, reject_move_ok = True\<rparr>"

lemma demo_facts: "findProposedADR 20 demo_repo = Some ''0020-x.md''" "extractTOMLDiff demo_adr_body = Some ''a = 1''"
  by code_simp+

lemma demo_clean: "clean_failures all_ok demo_repo"
  by (simp add: clean_failures_def all_ok_def demo_repo_def)


definition demo_override :: "time \<Rightarrow> amd_event" where
  "demo_override t = \<lparr>ev_type = EvtEscalationDecision, ev_time = t, ev_payload = [(''destination'', ''L4'')]\<rparr>"

definition demo_env :: "time \<Rightarrow> event_env" where
  "demo_env t = \<lparr>now_event = t, now_cooldown = t, drafted = Some \<lparr>Title = ''Amend'', Markdown = []\<rparr>,
     scan_ok = True, mkdir_ok = True, write_ok = True\<rparr>"

definition demo_proposer :: Proposer where
  "demo_proposer = \<lparr>windows = (\<lambda>_. []), cooldown_reg = (\<lambda>_. None),
     prop_dirs = \<lparr>dir_accepted = [], dir_proposed = [], dir_rejected = []\<rparr>, prop_log = []\<rparr>"

definition demo_run :: Proposer where
  "demo_run = observe_all ''max-scope'' [(demo_env 1, demo_override 1), (demo_env 2, demo_override 2)] demo_proposer"

lemma demo_run_log: "prop_log demo_run = [DoctrineAmendmentProposed 20 ''0020-amend.md'' ''max-scope|escalation|L4|'' 2]"
  by code_simp

lemma demo_run_reach: "reach prop_init (prop_step ''max-scope'') demo_run"
proof -
  have "reach prop_init (prop_step ''max-scope'') demo_proposer"
    by (rule reach_init) (simp add: prop_init_def demo_proposer_def)
  then have "reach prop_init (prop_step ''max-scope'') (OnEvent ''max-scope'' (demo_env 1) (demo_override 1) demo_proposer)"
    by (rule reach_step) (rule observes)
  then show ?thesis unfolding demo_run_def observe_all.simps by (rule reach_step) (rule observes)
qed

theorem proposals_get_distinct_numbers_witness:
  "proposed_numbers (prop_log demo_run) = [20] \<and> (\<exists>f \<in> set (file_names (prop_dirs demo_run)). adrFileRE f = Some 20)"
  using proposals_get_distinct_numbers [OF demo_run_reach] by (simp add: demo_run_log proposed_numbers_def map_filter_def)

theorem proposals_need_evidence_witness:
  "2 * decisions_on ''max-scope|escalation|L4|'' (prop_log demo_run)
     \<le> length (filter (\<lambda>x. \<exists>n h. event_key ''max-scope'' (snd x) = Some (''max-scope|escalation|L4|'', n, h))
         [(demo_env 1, demo_override 1), (demo_env 2, demo_override 2)])"
proof -
  have "event_key ''max-scope'' (demo_override 1) = Some (''max-scope|escalation|L4|'', 2, 24)" by code_simp
  moreover have "prop_init demo_proposer" by (simp add: prop_init_def demo_proposer_def)
  ultimately show ?thesis unfolding demo_run_def by (intro proposals_need_evidence)
qed


end
