(* ===== verification/Adr.thy ===== *)
theory Adr
  imports Hades_Prelude "HOL-Library.Product_Lexorder"
begin

text \<open>
  Architecture decision records (\<open>internal/adr\<close>): the front matter of a record and its parser, the
  status machine and the transitions that rewrite a file (\<open>status.go\<close>, \<open>parser.go\<close>, \<open>transitions.go\<close>,
  \<open>events.go\<close>), the validation of a corpus with its unique numbers and the search for supersede
  cycles (\<open>validator.go\<close>), and the generated index and graph (\<open>index.go\<close>, \<open>graph.go\<close>, \<open>indexer.go\<close>).

  The YAML codec and the JSON schema are arguments. A file is its bytes; what the file system answers
  is part of the environment of an operation.
\<close>

subsection \<open>Records (types.go, status.go)\<close>

type_synonym Status = string

definition StatusProposed :: Status where "StatusProposed = ''proposed''"
definition StatusAccepted :: Status where "StatusAccepted = ''accepted''"
definition StatusRejected :: Status where "StatusRejected = ''rejected''"
definition StatusSuperseded :: Status where "StatusSuperseded = ''superseded''"
definition StatusDeprecated :: Status where "StatusDeprecated = ''deprecated''"
definition StatusReserved :: Status where "StatusReserved = ''Reserved''"

lemmas status_defs = StatusProposed_def StatusAccepted_def StatusRejected_def StatusSuperseded_def
  StatusDeprecated_def StatusReserved_def

definition AllStatuses :: "Status list" where
  "AllStatuses = [StatusProposed, StatusAccepted, StatusRejected, StatusSuperseded, StatusDeprecated, StatusReserved]"

definition Status_IsValid :: "Status \<Rightarrow> bool" where
  "Status_IsValid s \<longleftrightarrow> s \<in> {StatusProposed, StatusAccepted, StatusRejected, StatusSuperseded, StatusDeprecated, StatusReserved}"

record Frontmatter =
  ID :: string
  Title :: string
  fm_Status :: Status
  Date :: string
  Plan :: string
  Tags :: "string list"
  SupersededBy :: string
  Supersedes :: "string list"
  RelatesTo :: "string list"
  Deciders :: "string list"
  Consulted :: "string list"
  Informed :: "string list"
  RiskLevel :: string

definition zero_fm :: Frontmatter where
  "zero_fm = \<lparr>ID = [], Title = [], fm_Status = [], Date = [], Plan = [], Tags = [], SupersededBy = [],
     Supersedes = [], RelatesTo = [], Deciders = [], Consulted = [], Informed = [], RiskLevel = []\<rparr>"

record ADR =
  adr_fm :: Frontmatter
  Body :: string
  Path :: string

definition HasFrontmatter :: "ADR \<Rightarrow> bool" where
  "HasFrontmatter a \<longleftrightarrow> ID (adr_fm a) \<noteq> []"

subsection \<open>Parsing (parser.go)\<close>

datatype adr_err = ErrFileNotFound | OpenFailed | ScanFailed | ErrInvalidFrontmatter | CtxDone | ErrEmptyReason
  | ErrReservedStatusNotTransitionable | ErrInvalidTransition Status Status | MarshalFailed | WriteTmpFailed
  | RenameFailed | EmitEventFailed | BadNewID | ErrSchemaViolation "string list" | ErrIDCollision string
  | ErrSupersedeCycle "string list list" | ReadDirFailed | Panicked

abbreviation newline :: char where "newline \<equiv> CHR 0x0A"

text \<open>\<open>bufio.Scanner\<close> over lines: a carriage return before the newline is dropped, nothing follows the
  last newline, and a line that fills the buffer of 65536 bytes ends the scan with an error.\<close>

definition drop_CR :: "string \<Rightarrow> string" where
  "drop_CR l = (if l \<noteq> [] \<and> last l = CHR 0x0D then butlast l else l)"

definition Scan :: "string \<Rightarrow> string list \<times> bool" where
  "Scan s =
     (let raw = Split s newline;
          ls = (if last raw = [] then butlast raw else raw);
          fits = (\<lambda>l. length l < 65536)
      in (map drop_CR (takeWhile fits ls), \<not> list_all fits ls))"

definition TrimRight :: "string \<Rightarrow> string" where
  "TrimRight s = rev (dropWhile (\<lambda>c. c \<in> {CHR '' '', CHR 0x09, CHR 0x0D}) (rev s))"

abbreviation unlines :: "string list \<Rightarrow> string" where
  "unlines ls \<equiv> concat (map (\<lambda>l. l @ [newline]) ls)"

text \<open>\<open>decode\<close> is the strict YAML decoder; the end of input without a document leaves the front matter
  empty.\<close>

definition Parse :: "(string \<Rightarrow> Frontmatter option) \<Rightarrow> string \<Rightarrow> adr_err + ADR" where
  "Parse decode text =
     (case Scan text of (ls, scan_err) \<Rightarrow>
       (case dropWhile (\<lambda>l. TrimRight l = []) ls of
          [] \<Rightarrow> if scan_err then Inl ScanFailed else Inr \<lparr>adr_fm = zero_fm, Body = [], Path = []\<rparr>
        | first # rest \<Rightarrow>
            if TrimRight first \<noteq> ''---'' then
              (if scan_err then Inl ScanFailed else Inr \<lparr>adr_fm = zero_fm, Body = unlines ls, Path = []\<rparr>)
            else let yamlLines = takeWhile (\<lambda>l. TrimRight l \<noteq> ''---'') rest in
              (case dropWhile (\<lambda>l. TrimRight l \<noteq> ''---'') rest of
                 [] \<Rightarrow> if scan_err then Inl ScanFailed else Inl ErrInvalidFrontmatter
               | _ # body \<Rightarrow>
                   (case (if yamlLines = [] then Some zero_fm else decode (unlines yamlLines)) of
                      None \<Rightarrow> Inl ErrInvalidFrontmatter
                    | Some fm \<Rightarrow>
                        if scan_err then Inl ScanFailed
                        else Inr \<lparr>adr_fm = fm, Body = unlines body, Path = []\<rparr>))))"

text \<open>A file that can be opened or not; \<open>None\<close> is a file that does not exist.\<close>

definition ParseFile :: "(string \<Rightarrow> Frontmatter option) \<Rightarrow> string \<Rightarrow> string option \<Rightarrow> adr_err + ADR" where
  "ParseFile decode path content =
     (case content of
        None \<Rightarrow> Inl ErrFileNotFound
      | Some text \<Rightarrow> map_sum id (\<lambda>a. a\<lparr>Path := path\<rparr>) (Parse decode text))"

subsection \<open>Transitions (transitions.go, events.go)\<close>

definition IsValidTransition :: "Status \<Rightarrow> Status \<Rightarrow> bool" where
  "IsValidTransition src dst =
     (if src = dst then False
      else if src = StatusReserved \<or> dst = StatusReserved then False
      else if src = StatusProposed then dst = StatusAccepted \<or> dst = StatusRejected
      else if src = StatusAccepted then dst = StatusSuperseded \<or> dst = StatusDeprecated
      else False)"

datatype adr_event_type = EvtADRProposed | EvtADRAccepted | EvtADRRejected | EvtADRSuperseded | EvtADRDeprecated

definition EventTypeForTransition :: "Status \<Rightarrow> Status \<Rightarrow> adr_event_type option" where
  "EventTypeForTransition src dst =
     (if src = StatusProposed \<and> dst = StatusAccepted then Some EvtADRAccepted
      else if src = StatusProposed \<and> dst = StatusRejected then Some EvtADRRejected
      else if src = StatusAccepted \<and> dst = StatusSuperseded then Some EvtADRSuperseded
      else if src = StatusAccepted \<and> dst = StatusDeprecated then Some EvtADRDeprecated
      else None)"

record EventPayload =
  ADRID :: string
  StatusFrom :: Status
  StatusTo :: Status
  OperatorID :: string
  Reason :: string

text \<open>What an operation finds around it: its context, the codec, the date, and which steps succeed.\<close>

record adr_env =
  adr_ctx_done :: bool
  yaml_marshal :: "Frontmatter \<Rightarrow> string option"
  yaml_decode :: "string \<Rightarrow> Frontmatter option"
  today :: string
  write_tmp_ok :: bool
  rename_ok :: bool
  sink_ok :: bool

record adr_file =
  content :: "string option"
  emitted :: "(adr_event_type option \<times> EventPayload) list"

definition rewritten :: "adr_env \<Rightarrow> Status \<Rightarrow> string \<Rightarrow> Frontmatter \<Rightarrow> Frontmatter" where
  "rewritten env target supersededBy fm =
     (let fm1 = fm\<lparr>fm_Status := target, Date := today env\<rparr>
      in if supersededBy \<noteq> [] then fm1\<lparr>SupersededBy := supersededBy\<rparr> else fm1)"

definition applyTransition :: "adr_env \<Rightarrow> Status \<Rightarrow> string \<Rightarrow> string \<Rightarrow> string \<Rightarrow> adr_file \<Rightarrow> adr_err option \<times> adr_file" where
  "applyTransition env target supersededBy operatorID reason f =
     (if adr_ctx_done env then (Some CtxDone, f)
      else if reason = [] then (Some ErrEmptyReason, f)
      else case ParseFile (yaml_decode env) [] (content f) of
        Inl e \<Rightarrow> (Some e, f)
      | Inr a \<Rightarrow>
          (let fromStatus = fm_Status (adr_fm a) in
           if fromStatus = StatusReserved then (Some ErrReservedStatusNotTransitionable, f)
           else if \<not> IsValidTransition fromStatus target then (Some (ErrInvalidTransition fromStatus target), f)
           else case yaml_marshal env (rewritten env target supersededBy (adr_fm a)) of
             None \<Rightarrow> (Some MarshalFailed, f)
           | Some fmBytes \<Rightarrow>
               if \<not> write_tmp_ok env then (Some WriteTmpFailed, f)
               else if \<not> rename_ok env then (Some RenameFailed, f)
               else let f1 = f\<lparr>content := Some (''---'' @ [newline] @ fmBytes @ ''---'' @ [newline] @ Body a)\<rparr>;
                        p = \<lparr>ADRID = ID (adr_fm a), StatusFrom = fromStatus, StatusTo = target,
                             OperatorID = operatorID, Reason = reason\<rparr>
                    in if \<not> sink_ok env then (Some EmitEventFailed, f1)
                       else (None, f1\<lparr>emitted := emitted f1 @ [(EventTypeForTransition fromStatus target, p)]\<rparr>)))"

definition Accept :: "adr_env \<Rightarrow> string \<Rightarrow> string \<Rightarrow> adr_file \<Rightarrow> adr_err option \<times> adr_file" where
  "Accept env operatorID reason f = applyTransition env StatusAccepted [] operatorID reason f"

definition Reject :: "adr_env \<Rightarrow> string \<Rightarrow> string \<Rightarrow> adr_file \<Rightarrow> adr_err option \<times> adr_file" where
  "Reject env operatorID reason f = applyTransition env StatusRejected [] operatorID reason f"

text \<open>The pattern \<open>^ADR-[0-9]{4}$\<close>.\<close>

definition reADRID :: "string \<Rightarrow> bool" where
  "reADRID s \<longleftrightarrow> length s = 8 \<and> take 4 s = ''ADR-'' \<and> list_all (\<lambda>c. CHR ''0'' \<le> c \<and> c \<le> CHR ''9'') (drop 4 s)"

definition Supersede :: "adr_env \<Rightarrow> string \<Rightarrow> string \<Rightarrow> string \<Rightarrow> adr_file \<Rightarrow> adr_err option \<times> adr_file" where
  "Supersede env newID operatorID reason f =
     (if \<not> reADRID newID then (Some BadNewID, f)
      else applyTransition env StatusSuperseded newID operatorID reason f)"

definition Deprecate :: "adr_env \<Rightarrow> string \<Rightarrow> string \<Rightarrow> adr_file \<Rightarrow> adr_err option \<times> adr_file" where
  "Deprecate env operatorID reason f = applyTransition env StatusDeprecated [] operatorID reason f"

subsection \<open>Validation of a corpus (validator.go)\<close>

text \<open>\<open>checkIDUniqueness\<close> keeps the paths seen so far by number.\<close>

fun unique_from :: "(string \<times> string) list \<Rightarrow> ADR list \<Rightarrow> adr_err option" where
  "unique_from seen [] = None"
| "unique_from seen (a # as) =
     (if ID (adr_fm a) = [] then unique_from seen as
      else if map_of seen (ID (adr_fm a)) \<noteq> None then Some (ErrIDCollision (ID (adr_fm a)))
      else unique_from ((ID (adr_fm a), Path a) # seen) as)"

definition checkIDUniqueness :: "ADR list \<Rightarrow> adr_err option" where
  "checkIDUniqueness adrs = unique_from [] adrs"

text \<open>
  \<open>detectSupersedeCycle\<close>: Tarjan's search over the edges to the superseding record. The stack has its
  top first; popping an empty stack would panic (\<open>None\<close>). A record has at most one outgoing edge, so a
  call of \<open>strongconnect\<close> calls itself at most once.
\<close>

type_synonym corpus = "(string \<times> ADR) list"

definition byID :: "ADR list \<Rightarrow> corpus" where
  "byID adrs = rev (map (\<lambda>a. (ID (adr_fm a), a)) (filter HasFrontmatter adrs))"

record tarjan =
  index :: nat
  stack :: "string list"
  onStack :: "string \<Rightarrow> bool"
  indices :: "string \<rightharpoonup> nat"
  lowlink :: "string \<Rightarrow> nat"
  cycles :: "string list list"

definition visit :: "string \<Rightarrow> tarjan \<Rightarrow> tarjan" where
  "visit i s = s\<lparr>indices := (indices s)(i \<mapsto> index s), lowlink := (lowlink s)(i := index s), index := Suc (index s),
     stack := i # stack s, onStack := (onStack s)(i := True)\<rparr>"

fun pop_scc :: "string \<Rightarrow> string list \<Rightarrow> (string list \<times> string list) option" where
  "pop_scc i [] = None"
| "pop_scc i (w # ws) = (if w = i then Some ([w], ws) else map_option (apfst ((#) w)) (pop_scc i ws))"

definition is_cycle :: "corpus \<Rightarrow> string list \<Rightarrow> bool" where
  "is_cycle corp scc \<longleftrightarrow> length scc > 1
     \<or> length scc = 1 \<and> (case map_of corp (hd scc) of None \<Rightarrow> False | Some node \<Rightarrow> SupersededBy (adr_fm node) = hd scc)"

definition close_scc :: "corpus \<Rightarrow> string \<Rightarrow> tarjan \<Rightarrow> tarjan option" where
  "close_scc corp i s =
     (if indices s i \<noteq> Some (lowlink s i) then Some s
      else case pop_scc i (stack s) of
        None \<Rightarrow> None
      | Some (scc, rest) \<Rightarrow>
          (let s1 = s\<lparr>stack := rest, onStack := (\<lambda>w. onStack s w \<and> w \<notin> set scc)\<rparr>
           in Some (if is_cycle corp scc then s1\<lparr>cycles := cycles s1 @ [scc]\<rparr> else s1)))"

text \<open>The edge of a record, if it is superseded by a record of the corpus.\<close>

definition target :: "corpus \<Rightarrow> string \<Rightarrow> string option" where
  "target corp i =
     (case map_of corp i of
        None \<Rightarrow> None
      | Some a \<Rightarrow> if SupersededBy (adr_fm a) \<noteq> [] \<and> map_of corp (SupersededBy (adr_fm a)) \<noteq> None
                  then Some (SupersededBy (adr_fm a)) else None)"

definition lower :: "string \<Rightarrow> nat \<Rightarrow> tarjan \<Rightarrow> tarjan" where
  "lower i n s = (if n < lowlink s i then s\<lparr>lowlink := (lowlink s)(i := n)\<rparr> else s)"

function strongconnect :: "corpus \<Rightarrow> string \<Rightarrow> tarjan \<Rightarrow> tarjan option" where
  "strongconnect corp i s =
     (let s1 = visit i s in
      case target corp i of
        None \<Rightarrow> close_scc corp i s1
      | Some t \<Rightarrow>
          (case indices s1 t of
             None \<Rightarrow>
               (case strongconnect corp t s1 of
                  None \<Rightarrow> None
                | Some s2 \<Rightarrow> close_scc corp i (lower i (lowlink s2 t) s2))
           | Some n \<Rightarrow> close_scc corp i (if onStack s1 t then lower i n s1 else s1)))"
  by pat_completeness auto

definition unseen :: "corpus \<Rightarrow> string \<Rightarrow> tarjan \<Rightarrow> string set" where
  "unseen corp i s = {t. map_of corp t \<noteq> None \<and> indices s t = None \<and> t \<noteq> i}"

lemma finite_unseen: "finite (unseen corp i s)"
  by (rule finite_subset [OF _ finite_dom_map_of [of corp]]) (auto simp: unseen_def)

lemma target_known: "target corp i = Some t \<Longrightarrow> map_of corp t \<noteq> None"
  by (auto simp: target_def split: option.splits if_splits)

termination strongconnect
proof (relation "measure (\<lambda>(corp, i, s). card (unseen corp i s))")
  fix corp i s s1 t
  assume "s1 = visit i s" "target corp i = Some t" "indices s1 t = None"
  then have "t \<in> unseen corp i s - unseen corp t s1" "unseen corp t s1 \<subseteq> unseen corp i s"
    by (auto simp: unseen_def visit_def dest: target_known split: if_splits)
  then have "unseen corp t s1 \<subset> unseen corp i s" by blast
  then show "((corp, t, s1), (corp, i, s)) \<in> measure (\<lambda>(corp, i, s). card (unseen corp i s))"
    by (simp add: psubset_card_mono [OF finite_unseen])
qed simp

declare strongconnect.simps [simp del]

fun connect_all :: "corpus \<Rightarrow> string list \<Rightarrow> tarjan \<Rightarrow> tarjan option" where
  "connect_all corp [] s = Some s"
| "connect_all corp (i # ids) s =
     (if indices s i \<noteq> None then connect_all corp ids s
      else case strongconnect corp i s of None \<Rightarrow> None | Some s' \<Rightarrow> connect_all corp ids s')"

definition tarjan_start :: tarjan where
  "tarjan_start = \<lparr>index = 0, stack = [], onStack = (\<lambda>_. False), indices = (\<lambda>_. None), lowlink = (\<lambda>_. 0), cycles = []\<rparr>"

definition detectSupersedeCycle :: "ADR list \<Rightarrow> adr_err option" where
  "detectSupersedeCycle adrs =
     (case connect_all (byID adrs) (map (ID \<circ> adr_fm) (filter HasFrontmatter adrs)) tarjan_start of
        None \<Rightarrow> Some Panicked
      | Some s \<Rightarrow> if cycles s = [] then None else Some (ErrSupersedeCycle (cycles s)))"

text \<open>The schema check of one record is the argument \<open>schema_ok\<close>.\<close>

definition ValidateAll :: "(Frontmatter \<Rightarrow> bool) \<Rightarrow> ADR list \<Rightarrow> adr_err option" where
  "ValidateAll schema_ok adrs =
     (if adrs = [] then None
      else let bad = map Path (filter (\<lambda>a. \<not> schema_ok (adr_fm a)) adrs)
           in if bad \<noteq> [] then Some (ErrSchemaViolation bad)
              else case checkIDUniqueness adrs of
                Some e \<Rightarrow> Some e
              | None \<Rightarrow> detectSupersedeCycle adrs)"

subsection \<open>Index and graph (index.go, graph.go, indexer.go)\<close>

text \<open>An entry of the directory: its name, whether it is a regular file, and its bytes if it can be read.\<close>

record dir_entry =
  de_name :: string
  de_regular :: bool
  de_content :: "string option"

definition md_suffix :: "string \<Rightarrow> bool" where
  "md_suffix name \<longleftrightarrow> 3 \<le> length name \<and>
     (let x = drop (length name - 3) name in hd x = CHR ''.'' \<and> x ! 1 \<in> set ''mM'' \<and> x ! 2 \<in> set ''dD'')"

definition record_file :: "dir_entry \<Rightarrow> bool" where
  "record_file e \<longleftrightarrow> de_regular e \<and> md_suffix (de_name e) \<and> (de_name e = [] \<or> hd (de_name e) \<noteq> CHR ''_'')"

text \<open>The three walks read the same files and skip those without front matter.\<close>

fun walkAndParse :: "(string \<Rightarrow> Frontmatter option) \<Rightarrow> string \<Rightarrow> dir_entry list \<Rightarrow> adr_err + ADR list" where
  "walkAndParse decode root [] = Inr []"
| "walkAndParse decode root (e # es) =
     (if \<not> record_file e then walkAndParse decode root es
      else case ParseFile decode (root @ ''/'' @ de_name e) (de_content e) of
        Inl err \<Rightarrow> Inl err
      | Inr a \<Rightarrow> map_sum id (\<lambda>as. if HasFrontmatter a then a # as else as) (walkAndParse decode root es))"

record IndexEntry =
  ie_ID :: string
  ie_Title :: string
  ie_Status :: Status
  ie_Path :: string
  ie_Frontmatter :: Frontmatter

definition WalkAndEmitIndex :: "(string \<Rightarrow> Frontmatter option) \<Rightarrow> string \<Rightarrow> dir_entry list \<Rightarrow> adr_err + IndexEntry list" where
  "WalkAndEmitIndex decode root es =
     map_sum id (\<lambda>adrs. sort_key ie_ID (map (\<lambda>a. \<lparr>ie_ID = ID (adr_fm a), ie_Title = Title (adr_fm a),
       ie_Status = fm_Status (adr_fm a), ie_Path = Path a, ie_Frontmatter = adr_fm a\<rparr>) adrs))
       (walkAndParse decode root es)"

record GraphNode =
  gn_ID :: string
  gn_Title :: string
  gn_Status :: Status
  gn_Plan :: string

definition EdgeSupersedes :: string where "EdgeSupersedes = ''supersedes''"
definition EdgeRelatesTo :: string where "EdgeRelatesTo = ''relates-to''"

record GraphEdge =
  ge_From :: string
  ge_To :: string
  ge_Kind :: string

text \<open>The related pairs are stored with the smaller number first, once per key.\<close>

fun relates_edges :: "string \<Rightarrow> string list \<Rightarrow> string list \<Rightarrow> GraphEdge list \<times> string list" where
  "relates_edges i [] seen = ([], seen)"
| "relates_edges i (ref # refs) seen =
     (let lo = min i ref; hi = max i ref; key = lo @ ''|'' @ hi in
      if key \<in> set seen then relates_edges i refs seen
      else let (es, seen') = relates_edges i refs (key # seen)
           in (\<lparr>ge_From = lo, ge_To = hi, ge_Kind = EdgeRelatesTo\<rparr> # es, seen'))"

fun graph_edges :: "ADR list \<Rightarrow> string list \<Rightarrow> GraphEdge list" where
  "graph_edges [] seen = []"
| "graph_edges (a # as) seen =
     (let fm = adr_fm a; (es, seen') = relates_edges (ID fm) (RelatesTo fm) seen
      in (if SupersededBy fm \<noteq> [] then [\<lparr>ge_From = ID fm, ge_To = SupersededBy fm, ge_Kind = EdgeSupersedes\<rparr>] else [])
         @ es @ graph_edges as seen')"

definition WalkAndEmitGraph :: "(string \<Rightarrow> Frontmatter option) \<Rightarrow> string \<Rightarrow> dir_entry list \<Rightarrow> adr_err + (GraphNode list \<times> GraphEdge list)" where
  "WalkAndEmitGraph decode root es =
     map_sum id (\<lambda>adrs.
       (sort_key gn_ID (map (\<lambda>a. \<lparr>gn_ID = ID (adr_fm a), gn_Title = Title (adr_fm a), gn_Status = fm_Status (adr_fm a),
          gn_Plan = Plan (adr_fm a)\<rparr>) adrs),
        sort_key (\<lambda>e. (ge_From e, ge_Kind e, ge_To e)) (graph_edges adrs [])))
       (walkAndParse decode root es)"

definition Generate :: "(string \<Rightarrow> Frontmatter option) \<Rightarrow> (Frontmatter \<Rightarrow> bool) \<Rightarrow> string \<Rightarrow> dir_entry list
    \<Rightarrow> adr_err + (IndexEntry list \<times> GraphNode list \<times> GraphEdge list)" where
  "Generate decode schema_ok root es =
     (case walkAndParse decode root es of
        Inl e \<Rightarrow> Inl e
      | Inr adrs \<Rightarrow>
          (case ValidateAll schema_ok adrs of
             Some e \<Rightarrow> Inl e
           | None \<Rightarrow>
               (case WalkAndEmitIndex decode root es of
                  Inl e \<Rightarrow> Inl e
                | Inr idx \<Rightarrow> map_sum id (\<lambda>g. (idx, g)) (WalkAndEmitGraph decode root es))))"

subsection \<open>What the search finds\<close>

text \<open>A list is a path when every record is superseded by the next one.\<close>

definition path :: "corpus \<Rightarrow> string list \<Rightarrow> bool" where
  "path corp xs \<longleftrightarrow> successively (\<lambda>a b. target corp a = Some b) xs"

definition edges :: "corpus \<Rightarrow> (string \<times> string) set" where
  "edges corp = {(a, b). target corp a = Some b}"

text \<open>The state in which \<open>strongconnect\<close> is called: the stack is the path that led to the record, with
  consecutive indices, and the visited records below it are closed under the edges.\<close>

definition finished :: "tarjan \<Rightarrow> string set" where
  "finished s = dom (indices s) - set (stack s)"

definition closed_under :: "corpus \<Rightarrow> string set \<Rightarrow> bool" where
  "closed_under corp V \<longleftrightarrow> (\<forall>v \<in> V. \<forall>w. target corp v = Some w \<longrightarrow> w \<in> V)"

definition search_inv :: "corpus \<Rightarrow> tarjan \<Rightarrow> bool" where
  "search_inv corp s \<longleftrightarrow> distinct (stack s) \<and> onStack s = (\<lambda>w. w \<in> set (stack s)) \<and> length (stack s) \<le> index s
     \<and> (\<forall>k < length (stack s). indices s (stack s ! k) = Some (index s - Suc k))
     \<and> closed_under corp (finished s)"

text \<open>What a call does: it visits a path \<open>xs\<close> of new records from \<open>i\<close>; where the path ends decides.
  It ends at a record without successor or at a finished one: nothing is left on the stack and no cycle
  is reported. It closes on itself: that cycle is reported. It runs into the old stack: the new records
  stay on the stack and the low link says where.\<close>

definition search_result :: "corpus \<Rightarrow> string \<Rightarrow> tarjan \<Rightarrow> tarjan \<Rightarrow> string list \<Rightarrow> bool" where
  "search_result corp i s s' xs \<longleftrightarrow> path corp xs \<and> distinct xs \<and> xs \<noteq> [] \<and> hd xs = i
     \<and> set xs \<inter> dom (indices s) = {} \<and> dom (indices s') = dom (indices s) \<union> set xs
     \<and> (\<forall>v \<in> dom (indices s). indices s' v = indices s v \<and> lowlink s' v = lowlink s v)
     \<and> indices s' i = Some (index s)"

definition ends_clear :: "corpus \<Rightarrow> tarjan \<Rightarrow> tarjan \<Rightarrow> string list \<Rightarrow> bool" where
  "ends_clear corp s s' xs \<longleftrightarrow> (case target corp (last xs) of None \<Rightarrow> True | Some t \<Rightarrow> t \<in> finished s)
     \<and> stack s' = stack s \<and> onStack s' = onStack s \<and> cycles s' = cycles s \<and> lowlink s' (hd xs) = index s"

definition ends_cycle :: "corpus \<Rightarrow> tarjan \<Rightarrow> tarjan \<Rightarrow> string list \<Rightarrow> bool" where
  "ends_cycle corp s s' xs \<longleftrightarrow> (\<exists>j < length xs. target corp (last xs) = Some (xs ! j)
     \<and> cycles s' = cycles s @ [rev (drop j xs)])
     \<and> stack s' = stack s \<and> onStack s' = onStack s \<and> lowlink s' (hd xs) = index s"

definition ends_open :: "corpus \<Rightarrow> tarjan \<Rightarrow> tarjan \<Rightarrow> string list \<Rightarrow> bool" where
  "ends_open corp s s' xs \<longleftrightarrow> (\<exists>k < length (stack s). target corp (last xs) = Some (stack s ! k)
       \<and> lowlink s' (hd xs) = index s - Suc k)
     \<and> stack s' = rev xs @ stack s \<and> onStack s' = (\<lambda>w. w \<in> set (stack s')) \<and> cycles s' = cycles s"

lemmas ends_defs = ends_clear_def ends_cycle_def ends_open_def

lemma pop_scc_at: "i \<notin> set ys \<Longrightarrow> pop_scc i (ys @ i # zs) = Some (ys @ [i], zs)"
  by (induction ys) auto

lemma search_inv_visit:
  assumes "search_inv corp s" "indices s i = None"
  shows "search_inv corp (visit i s)"
proof -
  have stacked: "\<exists>n. indices s w = Some n" if "w \<in> set (stack s)" for w
    using assms(1) that by (auto simp: search_inv_def in_set_conv_nth)
  then have fin: "finished (visit i s) = finished s" using assms(2) by (auto simp: finished_def visit_def)
  have "indices (visit i s) (stack (visit i s) ! k) = Some (index (visit i s) - Suc k)" if "k < length (stack (visit i s))" for k
    using that assms stacked by (cases k) (auto simp: search_inv_def visit_def dest: nth_mem)
  moreover have "i \<notin> set (stack s)" using stacked [of i] assms(2) by auto
  ultimately show ?thesis using assms(1) fin by (auto simp: search_inv_def visit_def fun_eq_iff)
qed

lemma path_simps [simp]: "path corp [x]" "path corp (x # y # ys) \<longleftrightarrow> target corp x = Some y \<and> path corp (y # ys)"
  by (simp_all add: path_def)

lemma path_Cons: "xs \<noteq> [] \<Longrightarrow> path corp (x # xs) \<longleftrightarrow> target corp x = Some (hd xs) \<and> path corp xs"
  by (cases xs) auto

lemma is_cycle_single: "i \<noteq> [] \<Longrightarrow> is_cycle corp [i] \<longleftrightarrow> target corp i = Some i"
  by (auto simp: is_cycle_def target_def split: option.splits)

lemma visit_simps [simp]:
  "index (visit i s) = Suc (index s)" "stack (visit i s) = i # stack s" "cycles (visit i s) = cycles s"
  "indices (visit i s) = (indices s)(i \<mapsto> index s)" "lowlink (visit i s) = (lowlink s)(i := index s)"
  "onStack (visit i s) = (onStack s)(i := True)"
  by (simp_all add: visit_def)

lemma lower_simps [simp]:
  "index (lower i n s) = index s" "stack (lower i n s) = stack s" "cycles (lower i n s) = cycles s"
  "indices (lower i n s) = indices s" "onStack (lower i n s) = onStack s"
  "lowlink (lower i n s) = (lowlink s)(i := min n (lowlink s i))"
  by (auto simp: lower_def)

text \<open>Closing a record: it stays when its low link is lower, and is popped with what lies above it
  otherwise.\<close>

lemma close_open: "indices s i = Some n \<Longrightarrow> lowlink s i \<noteq> n \<Longrightarrow> close_scc corp i s = Some s"
  by (simp add: close_scc_def)

lemma close_pop:
  assumes "indices s i = Some (lowlink s i)" "stack s = ys @ i # zs" "i \<notin> set ys"
  obtains s' where "close_scc corp i s = Some s'" "stack s' = zs" "indices s' = indices s" "lowlink s' = lowlink s"
    "onStack s' = (\<lambda>w. onStack s w \<and> w \<notin> set (ys @ [i]))"
    "cycles s' = (if is_cycle corp (ys @ [i]) then cycles s @ [ys @ [i]] else cycles s)"
  using that assms pop_scc_at [OF assms(3), of zs] by (simp add: close_scc_def Let_def)

lemma search_fields:
  assumes "search_inv corp s" "indices s i = None"
  shows "i \<notin> set (stack s)" "onStack s w \<longleftrightarrow> w \<in> set (stack s)" "finished (visit i s) = finished s"
    "indices s t = Some n \<Longrightarrow> t \<in> set (stack s) \<Longrightarrow> \<exists>k < length (stack s). t = stack s ! k \<and> n = index s - Suc k \<and> n < index s"
proof -
  have stacked: "indices s w \<noteq> None" if "w \<in> set (stack s)" for w
    using assms(1) that by (auto simp: search_inv_def in_set_conv_nth)
  then show new: "i \<notin> set (stack s)" using assms(2) by blast
  then show "finished (visit i s) = finished s" using assms(2) by (auto simp: finished_def)
  show "onStack s w \<longleftrightarrow> w \<in> set (stack s)" using assms(1) by (simp add: search_inv_def)
  show "\<exists>k < length (stack s). t = stack s ! k \<and> n = index s - Suc k \<and> n < index s"
    if n: "indices s t = Some n" and t: "t \<in> set (stack s)"
  proof -
    obtain k where k: "k < length (stack s)" "t = stack s ! k" using t by (metis in_set_conv_nth)
    moreover have "n = index s - Suc k" using assms(1) k n by (auto simp: search_inv_def)
    moreover have "length (stack s) \<le> index s" using assms(1) by (simp add: search_inv_def)
    ultimately show ?thesis by (intro exI [of _ k]) auto
  qed
qed

definition search_ends :: "corpus \<Rightarrow> string \<Rightarrow> tarjan \<Rightarrow> tarjan option \<Rightarrow> bool" where
  "search_ends corp i s r \<longleftrightarrow> (\<exists>s' xs. r = Some s' \<and> search_result corp i s s' xs
     \<and> (ends_clear corp s s' xs \<or> ends_cycle corp s s' xs \<or> ends_open corp s s' xs))"

lemma search_endsI:
  assumes "r = Some s'" "search_result corp i s s' xs"
    and "ends_clear corp s s' xs \<or> ends_cycle corp s s' xs \<or> ends_open corp s s' xs"
  shows "search_ends corp i s r"
  using assms unfolding search_ends_def by blast

lemma leaf_ends:
  assumes inv: "search_inv corp s" "indices s i = None" "i \<noteq> []"
    and leaf: "\<And>t. target corp i = Some t \<Longrightarrow> indices (visit i s) t \<noteq> None"
  shows "search_ends corp i s (strongconnect corp i s)"
proof -
  note f = search_fields [OF inv(1,2)]
  define s1 where "s1 = visit i s"
  obtain s' where pop: "close_scc corp i s1 = Some s'" and res: "search_result corp i s s' [i]"
    and s': "stack s' = stack s" "onStack s' = onStack s" "lowlink s' i = index s"
      "cycles s' = (if target corp i = Some i then cycles s @ [[i]] else cycles s)"
  proof -
    obtain s' where c: "close_scc corp i s1 = Some s'" "stack s' = stack s" "indices s' = indices s1" "lowlink s' = lowlink s1"
      "onStack s' = (\<lambda>w. onStack s1 w \<and> w \<notin> set ([] @ [i]))"
      "cycles s' = (if is_cycle corp ([] @ [i]) then cycles s1 @ [[] @ [i]] else cycles s1)"
      by (rule close_pop [of s1 i "[]" "stack s" corp]) (auto simp: s1_def)
    have "search_result corp i s s' [i]" using c inv(2) by (auto simp: search_result_def s1_def)
    moreover have "onStack s' = onStack s" using c(5) f(1,2) by (auto simp: s1_def fun_eq_iff)
    ultimately show thesis using that [of s'] c inv(3) by (simp add: s1_def is_cycle_single)
  qed
  show ?thesis
  proof (cases "target corp i")
    case None
    then have "strongconnect corp i s = close_scc corp i s1" by (simp add: strongconnect.simps [of corp i s] s1_def)
    then show ?thesis using pop None s' by (intro search_endsI [OF _ res]) (simp_all add: ends_clear_def)
  next
    case (Some t)
    then obtain n where n: "indices s1 t = Some n" using leaf s1_def by blast
    have eq: "strongconnect corp i s = close_scc corp i (if onStack s1 t then lower i n s1 else s1)"
      using Some n by (simp add: strongconnect.simps [of corp i s] Let_def flip: s1_def)
    consider "t = i" | "t \<noteq> i" "t \<in> set (stack s)" | "t \<noteq> i" "t \<notin> set (stack s)" by blast
    then show ?thesis
    proof cases
      case 1
      then have "lower i n s1 = s1" using n by (simp add: lower_def s1_def)
      with eq pop Some 1 s' show ?thesis by (intro search_endsI [OF _ res]) (simp_all add: ends_cycle_def split: if_splits)
    next
      case 2
      then obtain k where k: "k < length (stack s)" "t = stack s ! k" "n = index s - Suc k" "n < index s"
        using f(4) [of t n] n by (auto simp: s1_def)
      have "strongconnect corp i s = Some (lower i n s1)"
        using eq 2 f(2) k(4) close_open [of "lower i n s1" i "index s" corp] by (simp add: s1_def)
      moreover have "search_result corp i s (lower i n s1) [i]" using inv(2) by (auto simp: search_result_def s1_def)
      moreover have "ends_open corp s (lower i n s1) [i]"
        using Some k f(2) by (auto simp: ends_open_def s1_def fun_eq_iff)
      ultimately show ?thesis by (auto simp: search_ends_def)
    next
      case 3
      then have "t \<in> finished s" using n by (auto simp: finished_def s1_def)
      moreover have "\<not> onStack s1 t" using 3 f(2) by (simp add: s1_def)
      ultimately show ?thesis using eq pop Some 3 s' by (intro search_endsI [OF _ res]) (simp_all add: ends_clear_def)
    qed
  qed
qed

text \<open>The recursive case: what the call has after its successor's call, in \<open>s2\<close>.\<close>

definition after_inner :: "corpus \<Rightarrow> string \<Rightarrow> string \<Rightarrow> tarjan \<Rightarrow> tarjan \<Rightarrow> string list \<Rightarrow> bool" where
  "after_inner corp i t s s2 xs \<longleftrightarrow> strongconnect corp i s = close_scc corp i (lower i (lowlink s2 t) s2)
     \<and> indices s2 i = Some (index s) \<and> lowlink s2 i = index s \<and> i \<notin> set xs \<and> xs \<noteq> [] \<and> hd xs = t
     \<and> set xs \<inter> set (stack s) = {} \<and> i \<notin> set (stack s) \<and> onStack s = (\<lambda>w. w \<in> set (stack s)) \<and> length (stack s) \<le> index s
     \<and> (\<forall>s'. indices s' = indices s2 \<and> (\<forall>v. v \<noteq> i \<longrightarrow> lowlink s' v = lowlink s2 v) \<longrightarrow> search_result corp i s s' (i # xs))"

lemma inner_enter:
  assumes "search_inv corp s" "indices s i = None" "target corp i = Some t" "indices (visit i s) t = None"
    and "strongconnect corp t (visit i s) = Some s2" "search_result corp t (visit i s) s2 xs"
  shows "after_inner corp i t s s2 xs"
proof -
  note f = search_fields [OF assms(1,2)]
  have i2: "indices s2 i = Some (index s)" "lowlink s2 i = index s" "i \<notin> set xs"
    using assms(6) by (auto simp: search_result_def)
  have "set (stack s) \<subseteq> dom (indices s)" using assms(1) by (auto simp: search_inv_def in_set_conv_nth)
  then have dis: "set xs \<inter> set (stack s) = {}" using assms(6) by (auto simp: search_result_def)
  have "search_result corp i s s' (i # xs)" if "indices s' = indices s2" "\<And>v. v \<noteq> i \<Longrightarrow> lowlink s' v = lowlink s2 v" for s'
    using assms(2,3,6) that i2 by (auto simp: search_result_def path_Cons)
  moreover have "strongconnect corp i s = close_scc corp i (lower i (lowlink s2 t) s2)"
    using assms(3-5) by (simp add: strongconnect.simps [of corp i s])
  moreover have "length (stack s) \<le> index s" "onStack s = (\<lambda>w. w \<in> set (stack s))" using assms(1) by (auto simp: search_inv_def)
  ultimately show ?thesis using assms(6) i2 dis f(1) unfolding after_inner_def search_result_def by blast
qed

lemma inner_pop:
  assumes a: "after_inner corp i t s s2 xs" and st: "stack s2 = ys @ i # stack s" "onStack s2 = (\<lambda>w. w \<in> set (stack s2))"
    and ys: "set ys \<subseteq> set xs" and low: "lowlink s2 t \<ge> index s"
  obtains s' where "strongconnect corp i s = Some s'" "search_result corp i s s' (i # xs)" "stack s' = stack s"
    "onStack s' = onStack s" "lowlink s' i = index s"
    "cycles s' = (if is_cycle corp (ys @ [i]) then cycles s2 @ [ys @ [i]] else cycles s2)"
proof -
  have l: "lower i (lowlink s2 t) s2 = s2" using low a by (simp add: lower_def after_inner_def)
  have new: "i \<notin> set ys" "set ys \<inter> set (stack s) = {}" "i \<notin> set (stack s)" using a ys by (auto simp: after_inner_def)
  obtain s' where s': "close_scc corp i s2 = Some s'" "stack s' = stack s" "indices s' = indices s2" "lowlink s' = lowlink s2"
    "onStack s' = (\<lambda>w. onStack s2 w \<and> w \<notin> set (ys @ [i]))"
    "cycles s' = (if is_cycle corp (ys @ [i]) then cycles s2 @ [ys @ [i]] else cycles s2)"
    by (rule close_pop [of s2 i ys "stack s" corp]) (use a st new in \<open>auto simp: after_inner_def\<close>)
  moreover have "onStack s' = onStack s" using s'(5) st new a by (auto simp: after_inner_def fun_eq_iff)
  ultimately show thesis using that [of s'] a l by (simp add: after_inner_def)
qed

lemma inner_closed:
  assumes a: "after_inner corp i t s s2 xs" and "is_cycle corp [i] = False" "finished (visit i s) = finished s"
    and "ends_clear corp (visit i s) s2 xs \<or> ends_cycle corp (visit i s) s2 xs"
  shows "search_ends corp i s (strongconnect corp i s)"
proof -
  have xs: "xs \<noteq> []" "hd xs = t" using a by (auto simp: after_inner_def)
  have st: "stack s2 = [] @ i # stack s" "onStack s2 = (\<lambda>w. w \<in> set (stack s2))" "lowlink s2 t \<ge> index s"
    using assms(4) a xs by (auto simp: ends_defs after_inner_def fun_eq_iff)
  obtain s' where s': "strongconnect corp i s = Some s'" "search_result corp i s s' (i # xs)"
    "stack s' = stack s" "onStack s' = onStack s" "lowlink s' i = index s" "cycles s' = cycles s2"
    by (rule inner_pop [OF a st(1,2) _ st(3)]) (use assms(2) in auto)
  have "ends_clear corp s s' (i # xs)" if "ends_clear corp (visit i s) s2 xs"
    using that s' xs unfolding ends_clear_def assms(3) by simp
  moreover have "ends_cycle corp s s' (i # xs)" if c: "ends_cycle corp (visit i s) s2 xs"
  proof -
    from c obtain j where "j < length xs" "target corp (last xs) = Some (xs ! j)" "cycles s2 = cycles s @ [rev (drop j xs)]"
      by (auto simp: ends_cycle_def)
    then show ?thesis using s' xs by (auto simp: ends_cycle_def intro!: exI [of _ "Suc j"])
  qed
  ultimately show ?thesis using assms(4) s'(1,2) unfolding search_ends_def by blast
qed

lemma inner_open:
  assumes a: "after_inner corp i t s s2 xs" and "ends_open corp (visit i s) s2 xs"
  shows "search_ends corp i s (strongconnect corp i s)"
proof -
  have xs: "xs \<noteq> []" "hd xs = t" using a by (auto simp: after_inner_def)
  obtain k where k: "k < length (i # stack s)" "target corp (last xs) = Some ((i # stack s) ! k)" "lowlink s2 t = index s - k"
    and st: "stack s2 = rev xs @ i # stack s" "onStack s2 = (\<lambda>w. w \<in> set (stack s2))" "cycles s2 = cycles s"
    using assms(2) xs by (auto simp: ends_open_def)
  show ?thesis
  proof (cases k)
    case 0
    then have low: "lowlink s2 t \<ge> index s" using k by simp
    obtain s' where s': "strongconnect corp i s = Some s'" "search_result corp i s s' (i # xs)" "stack s' = stack s"
      "onStack s' = onStack s" "lowlink s' i = index s"
      "cycles s' = (if is_cycle corp (rev xs @ [i]) then cycles s2 @ [rev xs @ [i]] else cycles s2)"
      by (rule inner_pop [OF a st(1,2) _ low]) auto
    moreover have "is_cycle corp (rev xs @ [i])" using xs by (simp add: is_cycle_def)
    ultimately have "ends_cycle corp s s' (i # xs)" using k 0 st(3) xs by (auto simp: ends_cycle_def intro!: exI [of _ 0])
    with s'(1,2) show ?thesis unfolding search_ends_def by blast
  next
    case (Suc k')
    let ?s' = "lower i (lowlink s2 t) s2"
    have low: "lowlink s2 t = index s - Suc k'" "index s - Suc k' < index s" using k Suc a by (auto simp: after_inner_def)
    then have "strongconnect corp i s = Some ?s'" using close_open [of ?s' i "index s" corp] a by (simp add: after_inner_def)
    moreover have "search_result corp i s ?s' (i # xs)" using a by (simp add: after_inner_def)
    moreover have "ends_open corp s ?s' (i # xs)" using k Suc st low a xs by (auto simp: ends_open_def after_inner_def)
    ultimately show ?thesis unfolding search_ends_def by blast
  qed
qed

lemma strongconnect_ends:
  assumes "search_inv corp s" "indices s i = None" "i \<noteq> []"
  shows "search_ends corp i s (strongconnect corp i s)"
  using assms
proof (induction corp i s rule: strongconnect.induct)
  case (1 corp i s)
  show ?case
  proof (cases "\<exists>t. target corp i = Some t \<and> indices (visit i s) t = None")
    case False
    then show ?thesis by (intro leaf_ends [OF "1.prems"]) (auto simp del: visit_simps)
  next
    case True
    then obtain t where t: "target corp i = Some t" "indices (visit i s) t = None" by blast
    have "t \<noteq> []" "t \<noteq> i" using t by (auto simp: target_def split: option.splits if_splits)
    from "1.IH" [OF refl t search_inv_visit [OF "1.prems"(1,2)] t(2) this(1)]
    obtain s2 xs where s2: "strongconnect corp t (visit i s) = Some s2" "search_result corp t (visit i s) s2 xs"
      and ends: "ends_clear corp (visit i s) s2 xs \<or> ends_cycle corp (visit i s) s2 xs \<or> ends_open corp (visit i s) s2 xs"
      unfolding search_ends_def by blast
    note a = inner_enter [OF "1.prems"(1,2) t s2]
    have "is_cycle corp [i] = False" using is_cycle_single [OF "1.prems"(3)] t(1) \<open>t \<noteq> i\<close> by simp
    from inner_closed [OF a this search_fields(3) [OF "1.prems"(1,2)]] inner_open [OF a] ends show ?thesis by blast
  qed
qed

text \<open>Cycles of the edge relation: a set that the edges do not leave contains what its members reach.\<close>

abbreviation reaches :: "corpus \<Rightarrow> string \<Rightarrow> string set" where
  "reaches corp x \<equiv> {y. (x, y) \<in> (edges corp)\<^sup>+}"

lemma closed_reaches:
  assumes "(x, y) \<in> (edges corp)\<^sup>+" "closed_under corp V" "x \<in> V"
  shows "y \<in> V"
  using assms(1) by induction (use assms(2,3) in \<open>auto simp: closed_under_def edges_def\<close>)

lemma off_cycle:
  assumes "closed_under corp V" "x \<notin> V" "\<And>y. target corp x = Some y \<Longrightarrow> y \<in> V"
  shows "(x, x) \<notin> (edges corp)\<^sup>+"
proof
  assume "(x, x) \<in> (edges corp)\<^sup>+"
  then obtain y where "(x, y) \<in> edges corp" "(y, x) \<in> (edges corp)\<^sup>*" by (meson tranclD)
  then have "y \<in> V" "y \<noteq> x" using assms(2,3) by (auto simp: edges_def)
  with \<open>(y, x) \<in> (edges corp)\<^sup>*\<close> have "(y, x) \<in> (edges corp)\<^sup>+" by (metis rtrancl_eq_or_trancl)
  from closed_reaches [OF this assms(1) \<open>y \<in> V\<close>] assms(2) show False by blast
qed

lemma path_nth: "path corp xs \<Longrightarrow> Suc k < length xs \<Longrightarrow> target corp (xs ! k) = Some (xs ! Suc k)"
  by (auto simp: path_def successively_conv_nth)

lemma path_walk: "path corp xs \<Longrightarrow> k \<le> m \<Longrightarrow> m < length xs \<Longrightarrow> (xs ! k, xs ! m) \<in> (edges corp)\<^sup>*"
proof (induction m)
  case (Suc m)
  show ?case
  proof (cases "k = Suc m")
    case False
    then have "(xs ! k, xs ! m) \<in> (edges corp)\<^sup>*" using Suc by simp
    moreover have "(xs ! m, xs ! Suc m) \<in> edges corp" using path_nth [OF Suc.prems(1,3)] by (simp add: edges_def)
    ultimately show ?thesis by (rule rtrancl_into_rtrancl)
  qed simp
qed simp

lemma path_closed:
  assumes "path corp xs" "xs \<noteq> []" "\<And>t. target corp (last xs) = Some t \<Longrightarrow> t \<in> set xs \<union> V" "closed_under corp V"
  shows "closed_under corp (set xs \<union> V)"
proof (unfold closed_under_def, intro ballI allI impI)
  fix v w assume v: "v \<in> set xs \<union> V" and w: "target corp v = Some w"
  show "w \<in> set xs \<union> V"
  proof (cases "v \<in> V")
    case True
    then show ?thesis using assms(4) w by (auto simp: closed_under_def)
  next
    case False
    then obtain k where k: "k < length xs" "v = xs ! k" using v by (auto simp: in_set_conv_nth)
    show ?thesis
    proof (cases "Suc k < length xs")
      case True
      then show ?thesis using path_nth [OF assms(1) True] w k by auto
    next
      case False
      then have "k = length xs - 1" using k by simp
      then have "v = last xs" using k assms(2) by (simp add: last_conv_nth)
      then show ?thesis using assms(3) w by blast
    qed
  qed
qed

lemma cycle_reaches:
  assumes "path corp ys" "ys \<noteq> []" "target corp (last ys) = Some (hd ys)" "x \<in> set ys"
  shows "reaches corp x = set ys"
proof (intro equalityI subsetI)
  have "closed_under corp (set ys \<union> {})"
    by (rule path_closed [OF assms(1,2)]) (use assms(2,3) in \<open>auto simp: closed_under_def\<close>)
  then show "y \<in> set ys" if "y \<in> reaches corp x" for y using closed_reaches [of x y corp "set ys"] that assms(4) by simp
  show "y \<in> reaches corp x" if y: "y \<in> set ys" for y
  proof -
    obtain k m where km: "k < length ys" "x = ys ! k" "m < length ys" "y = ys ! m"
      using assms(4) y by (auto simp: in_set_conv_nth)
    have "(x, last ys) \<in> (edges corp)\<^sup>*" "(hd ys, y) \<in> (edges corp)\<^sup>*"
      using path_walk [OF assms(1), of k "length ys - 1"] path_walk [OF assms(1), of 0 m] km assms(2)
      by (auto simp: last_conv_nth hd_conv_nth)
    moreover have "(last ys, hd ys) \<in> edges corp" using assms(3) by (simp add: edges_def)
    ultimately have "(x, y) \<in> (edges corp)\<^sup>+" by (meson rtrancl_into_trancl1 trancl_rtrancl_trancl)
    then show ?thesis by simp
  qed
qed

lemma path_drop: "path corp xs \<Longrightarrow> path corp (drop k xs)"
  by (simp add: path_def successively_conv_nth)

lemma tail_off_cycle:
  assumes "path corp xs" "distinct xs" "set xs \<inter> D = {}" "closed_under corp D" "k < length xs"
    and last: "\<And>t. target corp (last xs) = Some t \<Longrightarrow> t \<in> set (drop (Suc k) xs) \<union> D"
  shows "(xs ! k, xs ! k) \<notin> (edges corp)\<^sup>+"
proof (rule off_cycle)
  let ?V = "set (drop (Suc k) xs) \<union> D"
  show "closed_under corp ?V"
  proof (cases "Suc k < length xs")
    case True
    then show ?thesis by (intro path_closed [OF path_drop [OF assms(1)]]) (use last assms(4) in auto)
  qed (use assms(4) in simp)
  have "xs ! k \<notin> D" using assms(3) nth_mem [OF assms(5)] by blast
  then show "xs ! k \<notin> ?V" using assms(2,5) by (auto simp: in_set_conv_nth nth_eq_iff_index_eq)
  show "y \<in> ?V" if "target corp (xs ! k) = Some y" for y
  proof (cases "Suc k < length xs")
    case True
    then have "y = drop (Suc k) xs ! 0" "drop (Suc k) xs \<noteq> []" using path_nth [OF assms(1) True] that by simp_all
    then show ?thesis by (metis UnI1 length_greater_0_conv nth_mem)
  next
    case False
    then have "k = length xs - 1" "xs \<noteq> []" using assms(5) by auto
    then have "xs ! k = last xs" by (simp add: last_conv_nth)
    with last that show ?thesis by simp
  qed
qed

text \<open>Between two calls from the loop: nothing is on the stack, the visited records are closed, and the
  reported cycles are those of the visited records.\<close>

definition cycles_within :: "corpus \<Rightarrow> string set \<Rightarrow> string set set" where
  "cycles_within corp V = {reaches corp x |x. x \<in> V \<and> (x, x) \<in> (edges corp)\<^sup>+}"

definition loop_inv :: "corpus \<Rightarrow> tarjan \<Rightarrow> bool" where
  "loop_inv corp s \<longleftrightarrow> stack s = [] \<and> onStack s = (\<lambda>_. False) \<and> closed_under corp (dom (indices s))
     \<and> list_all distinct (cycles s) \<and> distinct (map set (cycles s)) \<and> set ` set (cycles s) = cycles_within corp (dom (indices s))"

lemma cycles_within_Un: "cycles_within corp (V \<union> W) = cycles_within corp V \<union> cycles_within corp W"
  by (auto simp: cycles_within_def)

lemma cycles_within_none: "(\<And>x. x \<in> W \<Longrightarrow> (x, x) \<notin> (edges corp)\<^sup>+) \<Longrightarrow> cycles_within corp W = {}"
  by (auto simp: cycles_within_def)

lemma cycles_within_path:
  assumes p: "path corp xs" "distinct xs" "set xs \<inter> D = {}" "closed_under corp D"
    and j: "j < length xs" "target corp (last xs) = Some (xs ! j)"
  shows "cycles_within corp (set xs) = {set (drop j xs)}"
proof -
  have cyc: "reaches corp x = set (drop j xs)" if "x \<in> set (drop j xs)" for x
    by (rule cycle_reaches [OF path_drop [OF p(1)]]) (use j that in \<open>auto simp: hd_drop_conv_nth\<close>)
  have "cycles_within corp (set (take j xs)) = {}"
  proof (rule cycles_within_none)
    fix x assume "x \<in> set (take j xs)"
    then obtain k where k: "k < j" "x = xs ! k" using j(1) by (auto simp: in_set_conv_nth)
    have "xs ! j \<in> set (drop (Suc k) xs)"
      using k(1) j(1) by (auto simp: in_set_conv_nth intro!: exI [of _ "j - Suc k"])
    then show "(x, x) \<notin> (edges corp)\<^sup>+"
      using tail_off_cycle [OF p, of k] j k by auto
  qed
  moreover have "cycles_within corp (set (drop j xs)) = {set (drop j xs)}"
  proof -
    have "xs ! j \<in> set (drop j xs)" using j(1) by (metis drop_eq_Nil hd_drop_conv_nth hd_in_set not_le)
    with cyc show ?thesis unfolding cycles_within_def by blast
  qed
  moreover have "set xs = set (take j xs) \<union> set (drop j xs)" by (metis append_take_drop_id set_append)
  ultimately show ?thesis by (simp add: cycles_within_Un)
qed

lemma connect_keeps:
  assumes inv: "loop_inv corp s" and i: "indices s i = None" "i \<noteq> []"
  obtains s' where "strongconnect corp i s = Some s'" "loop_inv corp s'" "insert i (dom (indices s)) \<subseteq> dom (indices s')"
proof -
  let ?D = "dom (indices s)"
  have search: "search_inv corp s" using inv by (simp add: loop_inv_def search_inv_def finished_def)
  have fin: "finished s = ?D" and closed: "closed_under corp ?D" and no_stack: "stack s = []"
    using inv by (simp_all add: loop_inv_def finished_def)
  from strongconnect_ends [OF search i] obtain s' xs where s': "strongconnect corp i s = Some s'" "search_result corp i s s' xs"
    and ends: "ends_clear corp s s' xs \<or> ends_cycle corp s s' xs"
    using no_stack by (auto simp: search_ends_def ends_open_def)
  have p: "path corp xs" "distinct xs" "set xs \<inter> ?D = {}" and xs: "xs \<noteq> []" "hd xs = i" and dom: "dom (indices s') = ?D \<union> set xs"
    using s'(2) by (auto simp: search_result_def)
  have st: "stack s' = []" "onStack s' = (\<lambda>_. False)" using ends inv by (auto simp: ends_defs loop_inv_def)
  have old: "c \<subseteq> ?D" if "c \<in> set ` set (cycles s)" for c
  proof -
    from that inv have "c \<in> cycles_within corp ?D" unfolding loop_inv_def by blast
    then obtain x where "c = reaches corp x" "x \<in> ?D" unfolding cycles_within_def by blast
    then show ?thesis using closed_reaches [OF _ closed] by blast
  qed
  have found: "closed_under corp (set xs \<union> ?D) \<and> list_all distinct (cycles s') \<and> distinct (map set (cycles s')) \<and>
      set ` set (cycles s') = set ` set (cycles s) \<union> cycles_within corp (set xs)"
    using ends
  proof
    assume c: "ends_clear corp s s' xs"
    then have "\<And>t. target corp (last xs) = Some t \<Longrightarrow> t \<in> ?D" using fin by (auto simp: ends_clear_def)
    then have "closed_under corp (set xs \<union> ?D)" "cycles_within corp (set xs) = {}"
      using path_closed [OF p(1) xs(1) _ closed] tail_off_cycle [OF p closed]
      by (auto intro!: cycles_within_none simp: in_set_conv_nth)
    with c inv show ?thesis by (simp add: ends_clear_def loop_inv_def)
  next
    assume "ends_cycle corp s s' xs"
    then obtain j where j: "j < length xs" "target corp (last xs) = Some (xs ! j)" "cycles s' = cycles s @ [rev (drop j xs)]"
      by (auto simp: ends_cycle_def)
    have "xs ! j \<in> set (drop j xs)" "xs ! j \<notin> ?D"
      using j(1) p(3) nth_mem [OF j(1)] by (metis drop_eq_Nil hd_drop_conv_nth hd_in_set not_le, blast)
    then have "set (drop j xs) \<notin> set ` set (cycles s)" using old by blast
    then show ?thesis using path_closed [OF p(1) xs(1) _ closed] cycles_within_path [OF p closed j(1,2)] inv p(2) j
      by (auto simp: loop_inv_def)
  qed
  have "loop_inv corp s'"
    using found inv by (simp add: loop_inv_def st dom cycles_within_Un Un_commute)
  moreover have "i \<in> set xs" using xs by (metis hd_in_set)
  ultimately show thesis using that [of s'] s'(1) dom by auto
qed

lemma connect_all_keeps:
  assumes "loop_inv corp s" "[] \<notin> set ids"
  obtains s' where "connect_all corp ids s = Some s'" "loop_inv corp s'" "set ids \<union> dom (indices s) \<subseteq> dom (indices s')"
  using assms
proof (induction ids arbitrary: s thesis)
  case (Cons i ids)
  show ?case
  proof (cases "indices s i = None")
    case True
    obtain s1 where s1: "strongconnect corp i s = Some s1" "loop_inv corp s1" "insert i (dom (indices s)) \<subseteq> dom (indices s1)"
      by (rule connect_keeps [OF Cons.prems(2) True]) (use Cons.prems(3) in auto)
    obtain s' where s': "connect_all corp ids s1 = Some s'" "loop_inv corp s'" "set ids \<union> dom (indices s1) \<subseteq> dom (indices s')"
      by (rule Cons.IH [of s1]) (use s1(2) Cons.prems(3) in auto)
    have "set (i # ids) \<union> dom (indices s) \<subseteq> dom (indices s')" using s1(3) s'(3) by (simp add: subset_iff)
    then show ?thesis by (intro Cons.prems(1) [of s']) (use s1 s' True in auto)
  next
    case False
    obtain s' where s': "connect_all corp ids s = Some s'" "loop_inv corp s'" "set ids \<union> dom (indices s) \<subseteq> dom (indices s')"
      by (rule Cons.IH [of s]) (use Cons.prems in auto)
    show ?thesis by (rule Cons.prems(1) [of s']) (use s' False in auto)
  qed
qed simp

text \<open>What the search reports is exactly the cycles of the corpus, and it never pops an empty stack.\<close>

lemma byID_ids: "map_of (byID adrs) i \<noteq> None \<longleftrightarrow> i \<in> set (map (ID \<circ> adr_fm) (filter HasFrontmatter adrs))"
  by (simp add: byID_def map_of_eq_None_iff image_image comp_def)

lemma supersede_search:
  fixes adrs :: "ADR list"
  defines "corp \<equiv> byID adrs"
  shows "case detectSupersedeCycle adrs of
      None \<Rightarrow> acyclic (edges corp)
    | Some (ErrSupersedeCycle cs) \<Rightarrow> \<not> acyclic (edges corp) \<and> list_all distinct cs \<and> distinct (map set cs) \<and> set ` set cs = cycles_within corp UNIV
    | Some _ \<Rightarrow> False"
proof -
  let ?ids = "map (ID \<circ> adr_fm) (filter HasFrontmatter adrs)"
  have "loop_inv corp tarjan_start"
    by (simp add: loop_inv_def tarjan_start_def closed_under_def cycles_within_def)
  moreover have "[] \<notin> set ?ids" by (auto simp: HasFrontmatter_def)
  ultimately obtain s' where s': "connect_all corp ?ids tarjan_start = Some s'" "loop_inv corp s'" "set ?ids \<subseteq> dom (indices s')"
    by (metis connect_all_keeps le_sup_iff)
  have "x \<in> dom (indices s')" if "(x, x) \<in> (edges corp)\<^sup>+" for x
  proof -
    from that obtain y where "target corp x = Some y" by (auto simp: edges_def dest: tranclD)
    then have "map_of corp x \<noteq> None" by (auto simp: target_def split: option.splits)
    then show ?thesis using s'(3) byID_ids [of adrs x] by (auto simp: corp_def)
  qed
  then have "cycles_within corp (dom (indices s')) = cycles_within corp UNIV" unfolding cycles_within_def by blast
  then have all: "set ` set (cycles s') = cycles_within corp UNIV" using s'(2) by (simp add: loop_inv_def)
  have "acyclic (edges corp) \<longleftrightarrow> cycles_within corp UNIV = {}" by (auto simp: acyclic_def cycles_within_def)
  also have "\<dots> \<longleftrightarrow> cycles s' = []" unfolding all [symmetric] by simp
  finally have "acyclic (edges corp) \<longleftrightarrow> cycles s' = []" .
  then show ?thesis using s' all by (simp add: detectSupersedeCycle_def loop_inv_def flip: corp_def)
qed

lemma unique_from_iff:
  "unique_from seen adrs = None \<longleftrightarrow> distinct (map (ID \<circ> adr_fm) (filter HasFrontmatter adrs))
     \<and> set (map (ID \<circ> adr_fm) (filter HasFrontmatter adrs)) \<inter> fst ` set seen = {}"
  by (induction adrs arbitrary: seen) (auto simp: HasFrontmatter_def map_of_eq_None_iff)

lemma unique_from_error: "unique_from seen adrs = Some e \<Longrightarrow> \<exists>i. e = ErrIDCollision i"
  by (induction adrs arbitrary: seen) (auto split: if_splits)

subsection \<open>Rewriting a record\<close>

text \<open>What the codec owes: the lines it writes for a front matter fit the scanner, none of them looks
  like a delimiter, and they decode to the same front matter.\<close>

definition plain_line :: "string \<Rightarrow> bool" where
  "plain_line l \<longleftrightarrow> newline \<notin> set l \<and> length l < 65536 \<and> drop_CR l = l \<and> TrimRight l \<noteq> ''---''"

definition yaml_faithful :: "adr_env \<Rightarrow> Frontmatter \<Rightarrow> bool" where
  "yaml_faithful env fm \<longleftrightarrow> (\<exists>ls. ls \<noteq> [] \<and> list_all plain_line ls
     \<and> yaml_marshal env fm = Some (unlines ls) \<and> yaml_decode env (unlines ls) = Some fm)"

lemma Scan_unlines:
  assumes "\<forall>l \<in> set ls. newline \<notin> set l \<and> length l < 65536"
  shows "Scan (unlines ls) = (map drop_CR ls, False)"
proof -
  have tw: "takeWhile (\<lambda>l. length l < 65536) ls = ls" using assms by (simp add: takeWhile_eq_all_conv)
  have "Split (unlines ls) newline = ls @ [[]]" using assms Split_lines [of ls newline "[]"] by simp
  then show ?thesis using assms by (auto simp: Scan_def Let_def list_all_iff tw)
qed

lemma Scan_lines: "l \<in> set (fst (Scan s)) \<Longrightarrow> newline \<notin> set l \<and> length l < 65536"
  using Split_parts [of _ s newline]
  by (fastforce simp: Scan_def Let_def drop_CR_def dest: set_takeWhileD in_set_butlastD split: if_splits)

lemma Parse_body:
  assumes "Parse decode text = Inr a"
  obtains bs where "Body a = unlines bs" "\<forall>l \<in> set bs. newline \<notin> set l \<and> length l < 65536"
proof -
  obtain ls err where sc: "Scan text = (ls, err)" by fastforce
  then have ls: "\<forall>l \<in> set ls. newline \<notin> set l \<and> length l < 65536" using Scan_lines [of _ "text"] by simp
  have "\<exists>bs. Body a = unlines bs \<and> set bs \<subseteq> set ls"
  proof (cases "dropWhile (\<lambda>l. TrimRight l = []) ls")
    case Nil
    show ?thesis using assms unfolding Parse_def sc prod.case Nil list.case
      by (intro exI [of _ "[]"]) (auto split: if_splits)
  next
    case (Cons first rest)
    then have rest: "set rest \<subseteq> set ls" by (metis list.set_intros(2) set_dropWhileD subsetI)
    show ?thesis
    proof (cases "dropWhile (\<lambda>l. TrimRight l \<noteq> ''---'') rest")
      case Nil
      show ?thesis using assms unfolding Parse_def sc prod.case Cons list.case Nil Let_def
        by (intro exI [of _ ls]) (auto split: if_splits)
    next
      case body: (Cons d bs)
      then have "set bs \<subseteq> set ls" using rest by (metis list.set_intros(2) set_dropWhileD subset_iff)
      then show ?thesis using assms unfolding Parse_def sc prod.case Cons list.case body Let_def
        by (auto split: if_splits option.splits)
    qed
  qed
  with ls show thesis using that by blast
qed

lemma Parse_composed:
  assumes "ls \<noteq> []" "list_all plain_line ls" "decode (unlines ls) = Some fm"
    and "\<forall>l \<in> set bs. newline \<notin> set l \<and> length l < 65536 \<and> drop_CR l = l"
  shows "Parse decode (''---'' @ [newline] @ unlines ls @ ''---'' @ [newline] @ unlines bs)
     = Inr \<lparr>adr_fm = fm, Body = unlines bs, Path = []\<rparr>"
proof -
  have delim: "TrimRight ''---'' = ''---''" "drop_CR ''---'' = ''---''" by (simp_all add: TrimRight_def drop_CR_def)
  have plain: "\<forall>l \<in> set ls. newline \<notin> set l \<and> length l < 65536 \<and> drop_CR l = l \<and> TrimRight l \<noteq> ''---''"
    using assms(2) by (auto simp: plain_line_def list_all_iff)
  have "map drop_CR ls = ls" "map drop_CR bs = bs" using plain assms(4) by (auto intro: map_idI)
  then have "Scan (unlines (''---'' # ls @ ''---'' # bs)) = (''---'' # ls @ ''---'' # bs, False)"
    using plain assms(4) by (subst Scan_unlines) (auto simp: delim)
  moreover have "takeWhile (\<lambda>l. TrimRight l \<noteq> ''---'') (ls @ ''---'' # bs) = ls"
    "dropWhile (\<lambda>l. TrimRight l \<noteq> ''---'') (ls @ ''---'' # bs) = ''---'' # bs"
    using plain by (auto simp: takeWhile_append2 dropWhile_append2 delim)
  ultimately show ?thesis using assms(1,3) by (simp add: Parse_def delim)
qed

lemma valid_not_reserved: "IsValidTransition src dst \<Longrightarrow> src \<noteq> StatusReserved \<and> dst \<noteq> StatusReserved"
  by (auto simp: IsValidTransition_def split: if_splits)

lemma rewritten_status [simp]: "fm_Status (rewritten env dst sb fm) = dst"
  by (simp add: rewritten_def Let_def)

lemma transition_writes:
  assumes "content f = Some text" "Parse (yaml_decode env) text = Inr a" "IsValidTransition (fm_Status (adr_fm a)) dst"
    and "\<not> adr_ctx_done env" "reason \<noteq> []" "write_tmp_ok env" "rename_ok env"
    and "yaml_faithful env (rewritten env dst supersededBy (adr_fm a))" "CHR 0x0D \<notin> set (Body a)"
  obtains e f' text' where "applyTransition env dst supersededBy operatorID reason f = (e, f')" "content f' = Some text'"
    "Parse (yaml_decode env) text' = Inr \<lparr>adr_fm = rewritten env dst supersededBy (adr_fm a), Body = Body a, Path = []\<rparr>"
    "e = (if sink_ok env then None else Some EmitEventFailed)"
    "emitted f' = emitted f @ (if sink_ok env then [(EventTypeForTransition (fm_Status (adr_fm a)) dst,
       \<lparr>ADRID = ID (adr_fm a), StatusFrom = fm_Status (adr_fm a), StatusTo = dst, OperatorID = operatorID, Reason = reason\<rparr>)] else [])"
proof -
  obtain ls where ls: "ls \<noteq> []" "list_all plain_line ls"
    "yaml_marshal env (rewritten env dst supersededBy (adr_fm a)) = Some (unlines ls)"
    "yaml_decode env (unlines ls) = Some (rewritten env dst supersededBy (adr_fm a))"
    using assms(8) by (auto simp: yaml_faithful_def)
  obtain bs where bs: "Body a = unlines bs" "\<forall>l \<in> set bs. newline \<notin> set l \<and> length l < 65536"
    by (rule Parse_body [OF assms(2)])
  then have "\<forall>l \<in> set bs. newline \<notin> set l \<and> length l < 65536 \<and> drop_CR l = l"
  proof (intro ballI conjI)
    fix l assume l: "l \<in> set bs"
    then show "newline \<notin> set l" "length l < 65536" using bs(2) by auto
    have "CHR 0x0D \<notin> set l" using assms(9) l by (auto simp: bs(1) split: if_splits)
    then show "drop_CR l = l" by (metis drop_CR_def last_in_set)
  qed
  note parsed = Parse_composed [of ls "yaml_decode env" "rewritten env dst supersededBy (adr_fm a)" bs, OF ls(1,2,4) this]
  have "fm_Status (adr_fm a) \<noteq> StatusReserved" using valid_not_reserved [OF assms(3)] by simp
  then have "content (snd (applyTransition env dst supersededBy operatorID reason f))
      = Some (''---'' @ [newline] @ unlines ls @ ''---'' @ [newline] @ unlines bs)"
    "fst (applyTransition env dst supersededBy operatorID reason f) = (if sink_ok env then None else Some EmitEventFailed)"
    "emitted (snd (applyTransition env dst supersededBy operatorID reason f)) = emitted f @ (if sink_ok env
       then [(EventTypeForTransition (fm_Status (adr_fm a)) dst, \<lparr>ADRID = ID (adr_fm a), StatusFrom = fm_Status (adr_fm a),
         StatusTo = dst, OperatorID = operatorID, Reason = reason\<rparr>)] else [])"
    using assms(1-7) ls(3) bs(1) by (auto simp: applyTransition_def ParseFile_def Let_def)
  then show thesis using that [OF surjective_pairing] parsed bs(1) by metis
qed

text \<open>Any other outcome leaves the file and the log alone, and a record passes through at most two
  transitions.\<close>

lemma failed_transition_keeps:
  "fst (applyTransition env dst sb op reason f) \<notin> {None, Some EmitEventFailed} \<Longrightarrow> snd (applyTransition env dst sb op reason f) = f"
  by (auto simp: applyTransition_def Let_def split: sum.splits option.splits if_splits)

lemma transitions_end: "successively IsValidTransition ss \<Longrightarrow> length ss \<le> 3"
proof (rule ccontr)
  assume ss: "successively IsValidTransition ss" and "\<not> length ss \<le> 3"
  then have "IsValidTransition (ss ! 0) (ss ! 1)" "IsValidTransition (ss ! 1) (ss ! 2)" "IsValidTransition (ss ! 2) (ss ! 3)"
    by (auto simp: successively_conv_nth numeral_2_eq_2 numeral_3_eq_3)
  then show False by (auto simp: IsValidTransition_def status_defs split: if_splits)
qed

subsection \<open>Properties\<close>

text \<open>C11: Validation of a corpus decides what it promises: it succeeds exactly when every record fits the
  schema, the numbers are distinct and no record supersedes itself over any number of steps; and when
  it fails with a cycle error, the lists it reports are exactly the cycles of the corpus, each once and
  without repetition. The search never panics.\<close>

theorem ValidateAll_decides:
  "(ValidateAll schema_ok adrs = None \<longleftrightarrow>
      list_all (schema_ok \<circ> adr_fm) adrs \<and> distinct (map (ID \<circ> adr_fm) (filter HasFrontmatter adrs))
      \<and> acyclic (edges (byID adrs)))
    \<and> (case ValidateAll schema_ok adrs of
         Some (ErrSupersedeCycle cs) \<Rightarrow> list_all distinct cs \<and> distinct (map set cs)
           \<and> set ` set cs = {{y. (x, y) \<in> (edges (byID adrs))\<^sup>+} |x. (x, x) \<in> (edges (byID adrs))\<^sup>+}
       | Some Panicked \<Rightarrow> False
       | _ \<Rightarrow> True)"
proof (cases "adrs = []")
  case True
  then have "edges (byID adrs) = {}" by (auto simp: edges_def target_def byID_def)
  with True show ?thesis by (simp add: ValidateAll_def acyclic_def)
next
  case False
  have bad: "map Path (filter (\<lambda>a. \<not> schema_ok (adr_fm a)) adrs) = [] \<longleftrightarrow> list_all (schema_ok \<circ> adr_fm) adrs"
    by (auto simp: filter_empty_conv list_all_iff)
  show ?thesis
  proof (cases "list_all (schema_ok \<circ> adr_fm) adrs \<and> distinct (map (ID \<circ> adr_fm) (filter HasFrontmatter adrs))")
    case True
    then have "ValidateAll schema_ok adrs = detectSupersedeCycle adrs"
      using False bad unique_from_iff [of "[]" adrs] by (simp add: ValidateAll_def checkIDUniqueness_def)
    with supersede_search [of adrs] True show ?thesis
      by (auto simp: cycles_within_def split: option.splits adr_err.splits)
  next
    case other: False
    then show ?thesis
      using False bad unique_from_iff [of "[]" adrs] unique_from_error [of "[]" adrs]
      by (auto simp: ValidateAll_def checkIDUniqueness_def split: option.splits adr_err.splits)
  qed
qed


text \<open>A codec for the status alone, and a record with one line of body.\<close>

definition demo_fm :: Frontmatter where
  "demo_fm = zero_fm\<lparr>ID := ''ADR-0001'', fm_Status := StatusProposed\<rparr>"

definition demo_yaml :: adr_env where
  "demo_yaml = \<lparr>adr_ctx_done = False, yaml_marshal = (\<lambda>fm. Some (unlines [fm_Status fm])),
     yaml_decode = (\<lambda>s. Some (demo_fm\<lparr>fm_Status := butlast s\<rparr>)), today = [], write_tmp_ok = True, rename_ok = True, sink_ok = True\<rparr>"

definition demo_text :: string where
  "demo_text = unlines [''---'', ''proposed'', ''---'', ''Decided.'']"

lemma demo_parses: "Parse (yaml_decode demo_yaml) demo_text = Inr \<lparr>adr_fm = demo_fm, Body = unlines [''Decided.''], Path = []\<rparr>"
proof -
  have "Parse (yaml_decode demo_yaml) (''---'' @ [newline] @ unlines [''proposed''] @ ''---'' @ [newline] @ unlines [''Decided.''])
      = Inr \<lparr>adr_fm = demo_fm, Body = unlines [''Decided.''], Path = []\<rparr>"
    by (rule Parse_composed)
      (simp_all add: plain_line_def demo_yaml_def demo_fm_def StatusProposed_def drop_CR_def TrimRight_def)
  then show ?thesis by (simp add: demo_text_def)
qed


text \<open>A sink that fails loses the event for ever: the file is already rewritten, so the step cannot be
  repeated. And a record may be superseded by itself, after which the corpus no longer validates.\<close>

lemma lost_event_is_not_repeated:
  assumes "content f = Some text" "Parse (yaml_decode env) text = Inr a" "IsValidTransition (fm_Status (adr_fm a)) dst"
    and "\<not> adr_ctx_done env" "reason \<noteq> []" "write_tmp_ok env" "rename_ok env" "\<not> sink_ok env"
    and "yaml_faithful env (rewritten env dst sb (adr_fm a))" "CHR 0x0D \<notin> set (Body a)"
  shows "case applyTransition env dst sb operatorID reason f of (e, f') \<Rightarrow> emitted f' = emitted f
    \<and> applyTransition (env\<lparr>sink_ok := True\<rparr>) dst sb operatorID reason f' = (Some (ErrInvalidTransition dst dst), f')"
proof -
  obtain e f' text' where r: "applyTransition env dst sb operatorID reason f = (e, f')" "content f' = Some text'"
    "Parse (yaml_decode env) text' = Inr \<lparr>adr_fm = rewritten env dst sb (adr_fm a), Body = Body a, Path = []\<rparr>" "emitted f' = emitted f"
    using transition_writes [OF assms(1-7,9,10), where operatorID = operatorID] assms(8) by (metis append_Nil2)
  with r assms(4,5) valid_not_reserved [OF assms(3)] show ?thesis by (simp add: applyTransition_def ParseFile_def IsValidTransition_def Let_def)
qed

lemma self_superseded_corpus_fails:
  assumes "ID fm = i" "SupersededBy fm = i" "i \<noteq> []"
  shows "\<exists>cs. detectSupersedeCycle [\<lparr>adr_fm = fm, Body = b, Path = p\<rparr>] = Some (ErrSupersedeCycle cs)"
proof -
  let ?adrs = "[\<lparr>adr_fm = fm, Body = b, Path = p\<rparr>]"
  have "target (byID ?adrs) i = Some i" using assms by (simp add: target_def byID_def HasFrontmatter_def)
  then have "(i, i) \<in> edges (byID ?adrs)" by (simp add: edges_def)
  then have "\<not> acyclic (edges (byID ?adrs))" unfolding acyclic_def by blast
  with supersede_search [of ?adrs] show ?thesis by (auto split: option.splits adr_err.splits)
qed

subsection \<open>The generated manifests\<close>

text \<open>The index of a valid corpus is strictly ordered, and the graph has each related pair once,
  whichever side declares it, as long as no number contains the separator of the keys.\<close>

lemma walk_has_ids: "walkAndParse decode root es = Inr adrs \<Longrightarrow> list_all HasFrontmatter adrs"
proof (induction es arbitrary: adrs)
  case (Cons e es)
  then show ?case
    by (cases "walkAndParse decode root es") (auto split: if_splits sum.splits)
qed simp

lemma index_strictly_ordered:
  assumes "Generate decode schema_ok root es = Inr (idx, g)"
  shows "sorted_wrt (<) (map ie_ID idx)"
proof -
  obtain adrs where w: "walkAndParse decode root es = Inr adrs"
    using assms by (cases "walkAndParse decode root es") (auto simp: Generate_def)
  have valid: "ValidateAll schema_ok adrs = None"
    using assms w by (auto simp: Generate_def split: option.splits)
  have "distinct (map (ID \<circ> adr_fm) adrs)"
  proof (cases "adrs = []")
    case False
    then have "checkIDUniqueness adrs = None"
      using valid by (auto simp: ValidateAll_def Let_def split: if_splits option.splits)
    moreover have "filter HasFrontmatter adrs = adrs" using walk_has_ids [OF w] by (simp add: filter_id_conv list_all_iff)
    ultimately show ?thesis using unique_from_iff [of "[]" adrs] by (simp add: checkIDUniqueness_def)
  qed simp
  moreover have idx: "idx = sort_key ie_ID (map (\<lambda>a. \<lparr>ie_ID = ID (adr_fm a), ie_Title = Title (adr_fm a),
       ie_Status = fm_Status (adr_fm a), ie_Path = Path a, ie_Frontmatter = adr_fm a\<rparr>) adrs)" (is "_ = sort_key _ ?es")
    using assms w valid by (auto simp: Generate_def WalkAndEmitIndex_def WalkAndEmitGraph_def)
  have "mset (map ie_ID idx) = mset (map (ID \<circ> adr_fm) adrs)" by (simp add: idx comp_def multiset.map_comp)
  then have "distinct (map ie_ID idx) \<longleftrightarrow> distinct (map (ID \<circ> adr_fm) adrs)" by (metis mset_eq_imp_distinct_iff)
  ultimately show ?thesis using sorted_sort_key [of ie_ID ?es] by (simp add: idx strict_sorted_iff)
qed

definition pair_key :: "string \<Rightarrow> string \<Rightarrow> string" where
  "pair_key i ref = min i ref @ ''|'' @ max i ref"

definition edge_key :: "GraphEdge \<Rightarrow> string" where
  "edge_key e = ge_From e @ ''|'' @ ge_To e"

lemma relates_edges_keys:
  assumes "relates_edges i refs seen = (es, seen')"
  shows "distinct (map edge_key es) \<and> set (map edge_key es) = pair_key i ` set refs - set seen
    \<and> set seen' = set seen \<union> pair_key i ` set refs \<and> (\<forall>e \<in> set es. ge_Kind e = EdgeRelatesTo \<and> (\<exists>ref \<in> set refs. ge_From e = min i ref \<and> ge_To e = max i ref))"
  using assms
proof (induction refs arbitrary: seen es)
  case (Cons ref refs)
  show ?case
  proof (cases "pair_key i ref \<in> set seen")
    case True
    then have "relates_edges i refs seen = (es, seen')" using Cons.prems by (simp add: pair_key_def Let_def)
    from Cons.IH [OF this] True show ?thesis by auto
  next
    case False
    obtain es1 where es1: "relates_edges i refs (pair_key i ref # seen) = (es1, seen')"
      "es = \<lparr>ge_From = min i ref, ge_To = max i ref, ge_Kind = EdgeRelatesTo\<rparr> # es1"
      using Cons.prems False by (auto simp: pair_key_def Let_def split: prod.splits)
    from Cons.IH [OF es1(1)] False show ?thesis by (auto simp: es1(2) edge_key_def pair_key_def)
  qed
qed simp

abbreviation relates_of :: "GraphEdge list \<Rightarrow> GraphEdge list" where
  "relates_of es \<equiv> filter (\<lambda>e. ge_Kind e = EdgeRelatesTo) es"

lemma graph_relates_once:
  "distinct (map edge_key (relates_of (graph_edges adrs seen)))
   \<and> set (map edge_key (relates_of (graph_edges adrs seen)))
     = {pair_key (ID (adr_fm a)) ref |a ref. a \<in> set adrs \<and> ref \<in> set (RelatesTo (adr_fm a))} - set seen"
proof (induction adrs arbitrary: seen)
  case (Cons a adrs)
  obtain es seen' where es: "relates_edges (ID (adr_fm a)) (RelatesTo (adr_fm a)) seen = (es, seen')" by fastforce
  note k = relates_edges_keys [OF es]
  have "relates_of (graph_edges (a # adrs) seen) = es @ relates_of (graph_edges adrs seen')"
    using k by (auto simp: es EdgeSupersedes_def EdgeRelatesTo_def Let_def filter_id_conv)
  with k Cons.IH [of seen'] show ?case by auto
qed simp


end
