(* ===== verification/Pool_GC.thy ===== *)
theory Pool_GC
  imports Pool
begin

text \<open>
  Garbage collection of the worktree pool (\<open>orchestrator/worktreepool/gc.go\<close> and the listing of
  \<open>subprocess.go\<close>): the periodic \<open>git worktree prune\<close> (layer A), the sweep of leaked directories
  (layer B) and \<open>PruneOrphans\<close>.

  The sweep takes the pool's mutex once per directory, so each check sees its own state of the pool,
  given by \<open>at\<close>; between two checks the pool may take any of its steps. What git prints and which
  removals succeed are arguments.
\<close>

subsection \<open>Paths\<close>

text \<open>\<open>filepath.Clean\<close> and \<open>filepath.Join\<close>: the kept segments are on the stack, innermost first.\<close>

fun clean_segs :: "bool \<Rightarrow> string list \<Rightarrow> string list \<Rightarrow> string list" where
  "clean_segs rooted acc [] = rev acc"
| "clean_segs rooted acc (s # segs) =
     (if s = [] \<or> s = ''.'' then clean_segs rooted acc segs
      else if s = ''..'' then
        (if acc \<noteq> [] \<and> hd acc \<noteq> ''..'' then clean_segs rooted (tl acc) segs
         else if rooted then clean_segs rooted acc segs
         else clean_segs rooted (''..'' # acc) segs)
      else clean_segs rooted (s # acc) segs)"

fun join_segs :: "string list \<Rightarrow> string" where
  "join_segs [] = []"
| "join_segs [s] = s"
| "join_segs (s # segs) = s @ ''/'' @ join_segs segs"

definition Clean :: "string \<Rightarrow> string" where
  "Clean path =
     (let rooted = IsAbs path;
          segs = clean_segs rooted [] (Split path CHR ''/'')
      in if rooted then ''/'' @ join_segs segs else if segs = [] then ''.'' else join_segs segs)"

definition Join :: "string \<Rightarrow> string \<Rightarrow> string" where
  "Join a b = (if a = [] \<and> b = [] then [] else if a = [] then Clean b else Clean (a @ ''/'' @ b))"

definition worktree_path :: "concretePool \<Rightarrow> int \<Rightarrow> string" where
  "worktree_path p i = Join (WorktreeDir (cfg p)) (dir_name p i)"

subsection \<open>Listing the worktrees (subprocess.go)\<close>

record worktreeEntry =
  we_path :: string
  we_head :: string
  we_branch :: string
  detached :: bool
  bare :: bool

definition no_entry :: worktreeEntry where
  "no_entry = \<lparr>we_path = [], we_head = [], we_branch = [], detached = False, bare = False\<rparr>"

definition starts_with :: "string \<Rightarrow> string \<Rightarrow> bool" where
  "starts_with pre s \<longleftrightarrow> take (length pre) s = pre"

definition list_line :: "string \<Rightarrow> worktreeEntry \<Rightarrow> worktreeEntry" where
  "list_line line cur =
     (if starts_with ''worktree '' line then cur\<lparr>we_path := drop 9 line\<rparr>
      else if starts_with ''HEAD '' line then cur\<lparr>we_head := drop 5 line\<rparr>
      else if starts_with ''branch '' line then cur\<lparr>we_branch := drop 7 line\<rparr>
      else if line = ''detached'' then cur\<lparr>detached := True\<rparr>
      else if line = ''bare'' then cur\<lparr>bare := True\<rparr>
      else cur)"

definition flush :: "worktreeEntry \<Rightarrow> worktreeEntry list" where
  "flush cur = (if we_path cur \<noteq> [] then [cur] else [])"

fun list_entries :: "string list \<Rightarrow> worktreeEntry \<Rightarrow> worktreeEntry list" where
  "list_entries [] cur = flush cur"
| "list_entries (l # ls) cur =
     (let line = rev (dropWhile (\<lambda>c. c = CHR 0x0D) (rev l)) in
      if line = [] then flush cur @ list_entries ls no_entry
      else list_entries ls (list_line line cur))"

text \<open>The output of git, or \<open>None\<close> when it fails.\<close>

definition gitWorktreeList :: "string option \<Rightarrow> worktreeEntry list option" where
  "gitWorktreeList out = map_option (\<lambda>s. list_entries (Split s CHR 0x0A) no_entry) out"

subsection \<open>Layer B and PruneOrphans (gc.go)\<close>

datatype prune_fault = LayerAFailed | LayerBList | LayerBReadDir | LayerBRemove string

record PruneReport =
  GitPruned :: int
  FilesystemSwept :: int
  AdminOnlyCleared :: int
  prune_errors :: "prune_fault list"

definition empty_report :: PruneReport where
  "empty_report = \<lparr>GitPruned = 0, FilesystemSwept = 0, AdminOnlyCleared = 0, prune_errors = []\<rparr>"

definition isLeased :: "concretePool \<Rightarrow> string \<Rightarrow> bool" where
  "isLeased p path \<longleftrightarrow> (\<exists>i \<in> leased p. Clean (worktree_path p i) = Clean path)
     \<or> (\<exists>i \<in> set (warm p). Clean (worktree_path p i) = Clean path)"

definition pool_prefixed :: "PoolConfig \<Rightarrow> string \<Rightarrow> bool" where
  "pool_prefixed c name \<longleftrightarrow> starts_with (PoolID c @ ''-'') name \<or> starts_with (''hades-pool-'' @ PoolID c @ ''-'') name"

text \<open>The loop over the directory; the second component lists the directories it removed.\<close>

fun sweep :: "PoolConfig \<Rightarrow> string list \<Rightarrow> (string \<Rightarrow> concretePool) \<Rightarrow> (string \<Rightarrow> bool) \<Rightarrow> (string \<times> bool) list
    \<Rightarrow> PruneReport \<Rightarrow> PruneReport \<times> string list" where
  "sweep c known at rm_ok [] rep = (rep, [])"
| "sweep c known at rm_ok ((name, is_dir) # des) rep =
     (let clean = Clean (Join (WorktreeDir c) name) in
      if \<not> is_dir \<or> \<not> pool_prefixed c name \<or> clean \<in> set known \<or> isLeased (at name) clean
      then sweep c known at rm_ok des rep
      else if \<not> rm_ok clean
      then sweep c known at rm_ok des (rep\<lparr>prune_errors := prune_errors rep @ [LayerBRemove clean]\<rparr>)
      else let (rep', gone) = sweep c known at rm_ok des (rep\<lparr>FilesystemSwept := FilesystemSwept rep + 1\<rparr>)
           in (rep', clean # gone))"

definition runLayerB :: "PoolConfig \<Rightarrow> string option \<Rightarrow> (string \<times> bool) list option \<Rightarrow> (string \<Rightarrow> concretePool) \<Rightarrow> (string \<Rightarrow> bool)
    \<Rightarrow> PruneReport \<Rightarrow> PruneReport \<times> string list" where
  "runLayerB c list_out dir_out at rm_ok rep =
     (case gitWorktreeList list_out of
        None \<Rightarrow> (rep\<lparr>prune_errors := prune_errors rep @ [LayerBList]\<rparr>, [])
      | Some entries \<Rightarrow>
          (case dir_out of
             None \<Rightarrow> (rep\<lparr>prune_errors := prune_errors rep @ [LayerBReadDir]\<rparr>, [])
           | Some des \<Rightarrow> sweep c (map (Clean \<circ> we_path) entries) at rm_ok des rep))"

text \<open>What one call of \<open>PruneOrphans\<close> meets: the three listings, the prune, the directory, the checks.\<close>

record prune_env =
  pre_list :: "string option"
  prune_ok :: bool
  post_list :: "string option"
  sweep_list :: "string option"
  dir_list :: "(string \<times> bool) list option"
  pool_at :: "string \<Rightarrow> concretePool"
  remove_ok :: "string \<Rightarrow> bool"

definition entry_count :: "string option \<Rightarrow> int" where
  "entry_count out = (case gitWorktreeList out of None \<Rightarrow> 0 | Some es \<Rightarrow> int (length es))"

definition layer_a :: "prune_env \<Rightarrow> PruneReport \<Rightarrow> PruneReport" where
  "layer_a env rep =
     (if \<not> prune_ok env then rep\<lparr>prune_errors := prune_errors rep @ [LayerAFailed]\<rparr>
      else let delta = entry_count (pre_list env) - entry_count (post_list env)
           in if delta > 0 then rep\<lparr>GitPruned := delta, AdminOnlyCleared := delta\<rparr> else rep)"

definition PruneOrphans :: "prune_env \<Rightarrow> concretePool \<Rightarrow> (PruneReport \<times> string list) option \<times> concretePool" where
  "PruneOrphans env p =
     (if closed p then (None, p)
      else let r = runLayerB (cfg p) (sweep_list env) (dir_list env) (pool_at env) (remove_ok env) (layer_a env empty_report)
           in (Some r, if prune_errors (fst r) \<noteq> []
                then p\<lparr>pool_log := pool_log p @ [EvtWorktreePoolDegraded ''prune-orphans-partial'']\<rparr> else p))"

text \<open>One tick of \<open>gcLoop\<close>.\<close>

definition gc_tick :: "bool \<Rightarrow> concretePool \<Rightarrow> concretePool" where
  "gc_tick pruned p =
     (if pruned then p else p\<lparr>pool_log := pool_log p @ [EvtWorktreePoolDegraded ''gc-prune-failed'']\<rparr>)"

subsection \<open>Cleaned paths\<close>

definition plain_seg :: "string \<Rightarrow> bool" where
  "plain_seg s \<longleftrightarrow> s \<noteq> [] \<and> s \<noteq> ''.'' \<and> s \<noteq> ''..'' \<and> CHR ''/'' \<notin> set s"

lemma clean_segs_plain: "list_all plain_seg segs \<Longrightarrow> clean_segs rooted acc segs = rev acc @ segs"
  by (induction segs arbitrary: acc) (auto simp: plain_seg_def)

lemma plain_clean_segs:
  "list_all plain_seg acc \<Longrightarrow> list_all (\<lambda>s. CHR ''/'' \<notin> set s) segs \<Longrightarrow> list_all plain_seg (clean_segs True acc segs)"
proof (induction segs arbitrary: acc)
  case (Cons s segs)
  have "list_all plain_seg (tl acc)" using Cons.prems(1) by (cases acc) auto
  moreover have "plain_seg s" if "s \<noteq> []" "s \<noteq> ''.''" "s \<noteq> ''..''" using that Cons.prems(2) by (simp add: plain_seg_def)
  ultimately show ?case using Cons by simp
qed (simp add: list_all_rev)

lemma Split_join_segs: "segs \<noteq> [] \<Longrightarrow> list_all plain_seg segs \<Longrightarrow> Split (join_segs segs) CHR ''/'' = segs"
  by (induction segs rule: join_segs.induct) (auto simp: plain_seg_def Split_no_sep Split_append)

lemma Clean_idem:
  assumes "IsAbs path"
  shows "Clean (Clean path) = Clean path"
proof -
  let ?segs = "clean_segs True [] (Split path CHR ''/'')"
  have "list_all (\<lambda>s. CHR ''/'' \<notin> set s) (Split path CHR ''/'')" by (auto simp: list_all_iff dest: Split_parts)
  then have plain: "list_all plain_seg ?segs" by (intro plain_clean_segs) auto
  have eq: "Clean path = ''/'' @ join_segs ?segs" using assms by (simp add: Clean_def)
  then have "Split (Clean path) CHR ''/'' = [] # (if ?segs = [] then [[]] else ?segs)"
    using plain by (simp add: Split_join_segs)
  then have "clean_segs True [] (Split (Clean path) CHR ''/'') = ?segs" using plain by (simp add: clean_segs_plain)
  moreover have "IsAbs (Clean path)" using eq by (simp add: IsAbs_def)
  ultimately have "Clean (Clean path) = ''/'' @ join_segs ?segs" by (simp add: Clean_def [of "Clean path"])
  with eq show ?thesis by simp
qed

lemma Clean_Join: "IsAbs a \<Longrightarrow> Clean (Join a b) = Join a b"
  by (cases "a = []") (auto simp: IsAbs_def Join_def intro!: Clean_idem)

subsection \<open>What a sweep removes\<close>

text \<open>A directory the sweep may remove: it carries the pool's prefix, git did not list it, and at its
  check it belonged to no leased and no warm worktree.\<close>

definition orphan :: "PoolConfig \<Rightarrow> string list \<Rightarrow> (string \<Rightarrow> concretePool) \<Rightarrow> string \<times> bool \<Rightarrow> bool" where
  "orphan c known at de \<longleftrightarrow> snd de \<and> pool_prefixed c (fst de) \<and> Clean (Join (WorktreeDir c) (fst de)) \<notin> set known
     \<and> \<not> isLeased (at (fst de)) (Clean (Join (WorktreeDir c) (fst de)))"

lemma sweep_exact:
  "sweep c known at rm_ok des rep =
     (let found = map (\<lambda>de. Clean (Join (WorktreeDir c) (fst de))) (filter (orphan c known at) des);
          gone = filter rm_ok found
      in (rep\<lparr>FilesystemSwept := FilesystemSwept rep + int (length gone),
            prune_errors := prune_errors rep @ map LayerBRemove (filter (\<lambda>d. \<not> rm_ok d) found)\<rparr>, gone))"
proof (induction des arbitrary: rep)
  case (Cons de des)
  obtain name is_dir where de: "de = (name, is_dir)" by fastforce
  show ?case by (simp add: de Cons.IH orphan_def Let_def split: prod.splits)
qed simp

lemma isLeased_own:
  assumes "IsAbs (WorktreeDir (cfg p))" "i \<in> leased p \<union> set (warm p)"
  shows "isLeased p (worktree_path p i)"
  using assms by (auto simp: isLeased_def)

subsection \<open>Properties\<close>


text \<open>A pool with one leased worktree, its own directory listed by git and one leaked directory.\<close>

definition demo_gc :: PoolConfig where
  "demo_gc = cfg demo_busy"

definition demo_listing :: string where
  "demo_listing = ''worktree /wt/p-1'' @ [CHR 0x0A] @ ''branch hades-pool-p-1'' @ [CHR 0x0A]"


text \<open>
  The check does not cover worktrees that are being spawned. Between the listing and the check a lease
  may have created its directory: it is in no list, is removed, and the pool then hands it out.
\<close>

lemma sweep_removes_inflight_worktree:
  assumes p: "reach pool_init pool_step p" "i \<in> inflight_lease p" "\<not> closed p" "leased p = {}" "warm p = []" "IsAbs (WorktreeDir (cfg p))"
    and listed: "gitWorktreeList list_out = Some entries" "worktree_path p i \<notin> set (map (Clean \<circ> we_path) entries)"
  shows "worktree_path p i \<in> set (snd (runLayerB (cfg p) list_out (Some [(dir_name p i, True)]) (\<lambda>_. p) (\<lambda>_. True) empty_report))
    \<and> (\<exists>p'. reach pool_init pool_step p' \<and> i \<in> leased p' \<and> cfg p' = cfg p)"
proof
  have "starts_with (PoolID (cfg p) @ ''-'') (dir_name p i)" by (simp add: starts_with_def dir_name_def)
  then have "orphan (cfg p) (map (Clean \<circ> we_path) entries) (\<lambda>_. p) (dir_name p i, True)"
    using p(4-6) listed(2) by (simp add: orphan_def pool_prefixed_def isLeased_def Clean_Join worktree_path_def)
  then show "worktree_path p i \<in> set (snd (runLayerB (cfg p) list_out (Some [(dir_name p i, True)]) (\<lambda>_. p) (\<lambda>_. True) empty_report))"
    using listed(1) p(6) by (simp add: runLayerB_def sweep_exact Let_def Clean_Join worktree_path_def)
  have "reach pool_init pool_step (fst (lease_publish p i))" by (rule reach_step [OF p(1)]) (rule pool_step.publish [OF p(2)])
  moreover have "i \<in> leased (fst (lease_publish p i))" "cfg (fst (lease_publish p i)) = cfg p"
    using p(3) by (simp_all add: lease_publish_def Let_def)
  ultimately show "\<exists>p'. reach pool_init pool_step p' \<and> i \<in> leased p' \<and> cfg p' = cfg p" by blast
qed

text \<open>
  The prefix does not separate pools: the directories of a pool named \<open>x-y\<close> carry the prefix of the
  pool named \<open>x\<close>. Where two such pools of different repositories share the directory, the sweep of one
  removes the leased worktrees of the other.
\<close>

lemma sweep_removes_other_pools_worktree:
  assumes "PoolID (cfg q) = PoolID (cfg p) @ ''-'' @ y" "WorktreeDir (cfg q) = WorktreeDir (cfg p)" "IsAbs (WorktreeDir (cfg p))"
    and "gitWorktreeList list_out = Some entries" "worktree_path q i \<notin> set (map (Clean \<circ> we_path) entries)"
    and "\<not> isLeased p (worktree_path q i)"
  shows "worktree_path q i \<in> set (snd (runLayerB (cfg p) list_out (Some [(dir_name q i, True)]) (\<lambda>_. p) (\<lambda>_. True) empty_report))"
proof -
  have path: "worktree_path q i = Join (WorktreeDir (cfg p)) (dir_name q i)" by (simp add: worktree_path_def assms(2))
  have "starts_with (PoolID (cfg p) @ ''-'') (dir_name q i)" by (simp add: starts_with_def dir_name_def assms(1))
  then have "orphan (cfg p) (map (Clean \<circ> we_path) entries) (\<lambda>_. p) (dir_name q i, True)"
    using assms(3,5,6) by (simp add: orphan_def pool_prefixed_def Clean_Join path)
  then show ?thesis using assms(3,4) by (simp add: runLayerB_def sweep_exact Let_def Clean_Join path)
qed


end
