(* ===== verification/Inbox.thy ===== *)
theory Inbox
  imports Hades_Prelude "HOL-Library.AList"
begin

text \<open>
  The notification inbox (\<open>internal/inbox\<close>) and its storage (\<open>daemon/inboxadapter\<close>): severities and the
  deduplication bucket, the batches a notification waits in, quiet hours, the collapse of the same
  event in several projects, the tables of the projects with the cache the daemon reads, and the
  outbox that fills the cache.

  A table is its rows with the next automatic number; an SQL statement that may fail takes its outcome
  as an argument. A Go map that is iterated is an association list whose order is the one of the
  iteration.
\<close>

subsection \<open>Notifications (inbox.go, severity.go, dedup.go)\<close>

type_synonym Severity = string

definition SeverityUrgent :: Severity where "SeverityUrgent = ''urgent''"
definition SeverityActionNeeded :: Severity where "SeverityActionNeeded = ''action-needed''"
definition SeverityInfoImmediate :: Severity where "SeverityInfoImmediate = ''info-immediate''"
definition SeverityInfoDigest :: Severity where "SeverityInfoDigest = ''info-digest''"

lemmas severity_defs = SeverityUrgent_def SeverityActionNeeded_def SeverityInfoImmediate_def SeverityInfoDigest_def

definition AllSeverities :: "Severity list" where
  "AllSeverities = [SeverityUrgent, SeverityActionNeeded, SeverityInfoImmediate, SeverityInfoDigest]"

definition ValidSeverity :: "string \<Rightarrow> bool" where
  "ValidSeverity s \<longleftrightarrow> s \<in> {SeverityUrgent, SeverityActionNeeded, SeverityInfoImmediate, SeverityInfoDigest}"

record Notification =
  n_ID :: int
  ProjectID :: string
  n_Severity :: Severity
  EventType :: string
  ContentHash :: string
  Payload :: string
  CreatedAt :: time
  AckedAt :: "time option"
  SnoozedUntil :: "time option"

definition BucketSeconds :: int where "BucketSeconds = 300"

definition DedupBucket :: "time \<Rightarrow> int" where
  "DedupBucket t = go_quot (unix_sec t) BucketSeconds"

definition ComputeDedupKey :: "string \<Rightarrow> string \<Rightarrow> time \<Rightarrow> string" where
  "ComputeDedupKey eventType contentHash t = eventType @ ''|'' @ contentHash @ ''|'' @ dec_int (DedupBucket t)"

record ListFilter =
  lf_ProjectID :: string
  lf_Severity :: "Severity option"
  lf_Since :: "time option"
  lf_Limit :: int
  IncludeAcked :: bool

datatype inbox_err = InboxCtx | ErrInvalidProjectID | ErrInvalidSeverity | ErrDedupViolation | InsertFailed
  | ErrNotFound | StatementFailed | EmptyEventType | BadContentHash | ZeroCreatedAt

definition validateNotificationForInsert :: "Notification \<Rightarrow> inbox_err option" where
  "validateNotificationForInsert n =
     (if length (ProjectID n) \<noteq> 64 then Some ErrInvalidProjectID
      else if \<not> ValidSeverity (n_Severity n) then Some ErrInvalidSeverity
      else if EventType n = [] then Some EmptyEventType
      else if length (ContentHash n) \<noteq> 64 then Some BadContentHash
      else if CreatedAt n = 0 then Some ZeroCreatedAt
      else None)"

subsection \<open>Batches (batch.go)\<close>

record BatchWindow =
  bw_Severity :: Severity
  Idle :: duration
  MaxCount :: nat
  MaxWait :: duration

definition DefaultBatchWindow :: "Severity \<Rightarrow> BatchWindow" where
  "DefaultBatchWindow s =
     (if s = SeverityActionNeeded then \<lparr>bw_Severity = s, Idle = 30 * second, MaxCount = 10, MaxWait = 5 * minute\<rparr>
      else if s = SeverityInfoDigest then \<lparr>bw_Severity = s, Idle = 5 * minute, MaxCount = 50, MaxWait = 30 * minute\<rparr>
      else \<lparr>bw_Severity = s, Idle = 0, MaxCount = 1, MaxWait = 0\<rparr>)"

record Batcher =
  window :: BatchWindow
  pending :: "Notification list"
  firstAddAt :: time
  lastAddAt :: time

definition NewBatcher :: "Severity \<Rightarrow> Batcher" where
  "NewBatcher s = \<lparr>window = DefaultBatchWindow s, pending = [], firstAddAt = 0, lastAddAt = 0\<rparr>"

definition Batcher_Add :: "Notification \<Rightarrow> Batcher \<Rightarrow> Batcher" where
  "Batcher_Add n b =
     (let b1 = (if pending b = [] then b\<lparr>firstAddAt := CreatedAt n\<rparr> else b)
      in b1\<lparr>lastAddAt := CreatedAt n, pending := pending b1 @ [n]\<rparr>)"

definition ReadyToEmit :: "time \<Rightarrow> Batcher \<Rightarrow> Notification list \<times> Batcher" where
  "ReadyToEmit now b =
     (if pending b = [] then ([], b)
      else let idleReached = (Idle (window b) = 0 \<or> tsub now (lastAddAt b) \<ge> Idle (window b));
               countReached = (length (pending b) \<ge> MaxCount (window b));
               maxWaitReached = (MaxWait (window b) > 0 \<and> tsub now (firstAddAt b) \<ge> MaxWait (window b))
           in if \<not> idleReached \<and> \<not> countReached \<and> \<not> maxWaitReached then ([], b)
              else (pending b, b\<lparr>pending := [], firstAddAt := 0, lastAddAt := 0\<rparr>))"

type_synonym BatchManager = "((string \<times> Severity) \<times> Batcher) list"

definition BM_Add :: "Notification \<Rightarrow> BatchManager \<Rightarrow> BatchManager" where
  "BM_Add n m =
     (let k = (ProjectID n, n_Severity n);
          b = (case map_of m k of Some b \<Rightarrow> b | None \<Rightarrow> NewBatcher (n_Severity n))
      in AList.update k (Batcher_Add n b) m)"

definition BM_Tick :: "time \<Rightarrow> BatchManager \<Rightarrow> Notification list \<times> BatchManager" where
  "BM_Tick now m = (concat (map (\<lambda>(k, b). fst (ReadyToEmit now b)) m), map (\<lambda>(k, b). (k, snd (ReadyToEmit now b))) m)"

definition BM_Pending :: "BatchManager \<Rightarrow> nat" where
  "BM_Pending m = sum_list (map (\<lambda>(k, b). length (pending b)) m)"

subsection \<open>Quiet hours (quiet\_hours.go)\<close>

record QuietHours =
  qh_Start :: duration
  qh_End :: duration
  WeekendExtended :: bool
  UrgentBypass :: bool

record QuietConfig =
  qc_Default :: QuietHours
  PerProject :: "(string \<times> QuietHours) list"
  UrgentPauseUntil :: "time option"

text \<open>What the code asks the local time for: the weekday (Sunday is 0) and the time of day in seconds.\<close>

record local_time =
  instant :: time
  weekday :: nat
  day_seconds :: int

definition InQuietHours :: "QuietHours \<Rightarrow> local_time \<Rightarrow> bool" where
  "InQuietHours hours now =
     (if WeekendExtended hours \<and> (weekday now = 6 \<or> weekday now = 0) then True
      else if qh_Start hours = qh_End hours then False
      else let dayDur = day_seconds now * second in
        if qh_Start hours < qh_End hours then dayDur \<ge> qh_Start hours \<and> dayDur < qh_End hours
        else dayDur \<ge> qh_Start hours \<or> dayDur < qh_End hours)"

definition ShouldEmit :: "Notification \<Rightarrow> QuietConfig \<Rightarrow> local_time \<Rightarrow> bool" where
  "ShouldEmit n cfg now =
     (let hours = (case map_of (PerProject cfg) (ProjectID n) of Some h \<Rightarrow> h | None \<Rightarrow> qc_Default cfg) in
      if n_Severity n = SeverityUrgent then
        (if \<not> UrgentBypass hours then \<not> InQuietHours hours now
         else case UrgentPauseUntil cfg of
           Some u \<Rightarrow> \<not> instant now < u
         | None \<Rightarrow> True)
      else \<not> InQuietHours hours now)"

subsection \<open>Collapse (collapse.go)\<close>

record CollapseRule =
  cr_EventType :: string
  cr_Window :: duration
  MinProjects :: int

definition DefaultCollapseRule :: "string \<Rightarrow> CollapseRule" where
  "DefaultCollapseRule eventType = \<lparr>cr_EventType = eventType, cr_Window = 60 * second, MinProjects = 3\<rparr>"

definition severityRank :: "Severity \<Rightarrow> nat" where
  "severityRank s =
     (if s = SeverityUrgent then 4 else if s = SeverityActionNeeded then 3
      else if s = SeverityInfoImmediate then 2 else if s = SeverityInfoDigest then 1 else 0)"

record SimpleAlert =
  sa_EventType :: string
  ProjectIDs :: "string list"
  sa_Severity :: Severity
  WindowEnd :: time

definition collapse_add :: "CollapseRule \<Rightarrow> time \<Rightarrow> Notification \<Rightarrow> (string \<times> Severity) list \<Rightarrow> (string \<times> Severity) list" where
  "collapse_add rule now e projects =
     (if EventType e \<noteq> cr_EventType rule \<or> CreatedAt e < now - cr_Window rule \<or> CreatedAt e > now then projects
      else case map_of projects (ProjectID e) of
        Some prev \<Rightarrow> if severityRank (n_Severity e) > severityRank prev
          then AList.update (ProjectID e) (n_Severity e) projects else projects
      | None \<Rightarrow> AList.update (ProjectID e) (n_Severity e) projects)"

fun max_severity :: "int \<Rightarrow> Severity \<Rightarrow> Severity list \<Rightarrow> Severity" where
  "max_severity maxRank maxSev [] = maxSev"
| "max_severity maxRank maxSev (s # ss) =
     (if int (severityRank s) > maxRank then max_severity (int (severityRank s)) s ss else max_severity maxRank maxSev ss)"

definition DetectCollapse :: "Notification list \<Rightarrow> CollapseRule \<Rightarrow> time \<Rightarrow> SimpleAlert option" where
  "DetectCollapse events rule now =
     (let projects = fold (collapse_add rule now) events [] in
      if int (length projects) < MinProjects rule then None
      else Some \<lparr>sa_EventType = cr_EventType rule, ProjectIDs = sort (map fst projects),
        sa_Severity = max_severity (- 1) [] (map snd projects), WindowEnd = now\<rparr>)"

record inbox_table =
  rows :: "Notification list"
  next_id :: int

definition dedup_key :: "Notification \<Rightarrow> string \<times> string \<times> int" where
  "dedup_key n = (EventType n, ContentHash n, DedupBucket (CreatedAt n))"

definition limit :: "int \<Rightarrow> 'a list \<Rightarrow> 'a list" where
  "limit k xs = (if k > 0 then take (nat k) xs else xs)"

subsection \<open>The store in memory (inbox.go)\<close>

text \<open>\<open>memStore\<close>. \<open>sort.Slice\<close> leaves the order of equal times open; here it is that of the rows.\<close>

definition NewMemStore :: inbox_table where
  "NewMemStore = \<lparr>rows = [], next_id = 1\<rparr>"

definition mem_Insert :: "Notification \<Rightarrow> inbox_table \<Rightarrow> (inbox_err + Notification) \<times> inbox_table" where
  "mem_Insert n t =
     (case validateNotificationForInsert n of
        Some e \<Rightarrow> (Inl e, t)
      | None \<Rightarrow>
          if dedup_key n \<in> dedup_key ` set (rows t) then (Inl ErrDedupViolation, t)
          else let n1 = n\<lparr>n_ID := next_id t\<rparr> in (Inr n1, \<lparr>rows = rows t @ [n1], next_id = next_id t + 1\<rparr>))"

fun update_row :: "int \<Rightarrow> (Notification \<Rightarrow> Notification) \<Rightarrow> Notification list \<Rightarrow> Notification list option" where
  "update_row i upd [] = None"
| "update_row i upd (n # ns) = (if n_ID n = i then Some (upd n # ns) else map_option ((#) n) (update_row i upd ns))"

definition mem_Ack :: "time \<Rightarrow> int \<Rightarrow> inbox_table \<Rightarrow> inbox_err option \<times> inbox_table" where
  "mem_Ack now i t =
     (case update_row i (\<lambda>n. n\<lparr>AckedAt := Some now\<rparr>) (rows t) of
        None \<Rightarrow> (Some ErrNotFound, t)
      | Some rs \<Rightarrow> (None, t\<lparr>rows := rs\<rparr>))"

definition mem_Snooze :: "time \<Rightarrow> int \<Rightarrow> inbox_table \<Rightarrow> inbox_err option \<times> inbox_table" where
  "mem_Snooze until i t =
     (case update_row i (\<lambda>n. n\<lparr>SnoozedUntil := Some until\<rparr>) (rows t) of
        None \<Rightarrow> (Some ErrNotFound, t)
      | Some rs \<Rightarrow> (None, t\<lparr>rows := rs\<rparr>))"

definition mem_List :: "ListFilter \<Rightarrow> inbox_table \<Rightarrow> Notification list" where
  "mem_List f t = limit (lf_Limit f) (sort_key (\<lambda>n. - CreatedAt n) (filter (\<lambda>n.
     \<not> (lf_ProjectID f \<noteq> [] \<and> ProjectID n \<noteq> lf_ProjectID f)
     \<and> (case lf_Severity f of None \<Rightarrow> True | Some s \<Rightarrow> n_Severity n = s)
     \<and> (case lf_Since f of None \<Rightarrow> True | Some u \<Rightarrow> \<not> CreatedAt n < u)
     \<and> \<not> (\<not> IncludeAcked f \<and> AckedAt n \<noteq> None)) (rows t)))"

definition mem_Delete :: "string \<Rightarrow> inbox_table \<Rightarrow> inbox_table" where
  "mem_Delete projectID t = t\<lparr>rows := filter (\<lambda>n. ProjectID n \<noteq> projectID) (rows t)\<rparr>"

subsection \<open>Storage (inboxadapter/adapter.go)\<close>

text \<open>
  Every database file (numbered, and always present) has a table \<open>inbox\<close> with automatic numbers and the constraint that event type,
  content hash and bucket are unique; the daemon's file also has the cache, unique in project and
  number. A project that is not registered is stored in the daemon's file.
\<close>

record CacheRow =
  CacheID :: int
  c_ProjectID :: string
  ProjectAlias :: string
  NotificationID :: int
  c_Severity :: Severity
  c_EventType :: string
  c_ContentHash :: string
  c_CreatedAt :: int
  c_AckedAt :: "int option"

record Adapter =
  perProject :: "(string \<times> nat) list"
  aliases :: "string \<rightharpoonup> string"
  daemonStore :: nat
  tables :: "nat \<Rightarrow> inbox_table"
  cache :: "CacheRow list"
  next_cache :: int

definition NewAdapter :: "nat \<Rightarrow> Adapter" where
  "NewAdapter d = \<lparr>perProject = [], aliases = (\<lambda>_. None), daemonStore = d, tables = (\<lambda>_. \<lparr>rows = [], next_id = 1\<rparr>),
     cache = [], next_cache = 1\<rparr>"

definition RegisterProject :: "string \<Rightarrow> string \<Rightarrow> nat \<Rightarrow> Adapter \<Rightarrow> Adapter" where
  "RegisterProject projectID als s a = a\<lparr>perProject := AList.update projectID s (perProject a),
     aliases := (aliases a)(projectID \<mapsto> als)\<rparr>"

definition routeStore :: "string \<Rightarrow> Adapter \<Rightarrow> nat" where
  "routeStore projectID a = (case map_of (perProject a) projectID of Some s \<Rightarrow> s | None \<Rightarrow> daemonStore a)"

definition alias_of :: "string \<Rightarrow> Adapter \<Rightarrow> string" where
  "alias_of projectID a = (case aliases a projectID of Some x \<Rightarrow> x | None \<Rightarrow> [])"

fun keep_first :: "nat list \<Rightarrow> nat list \<Rightarrow> nat list" where
  "keep_first seen [] = rev seen"
| "keep_first seen (s # ss) = (if s \<in> set seen then keep_first seen ss else keep_first (s # seen) ss)"

definition uniqueStores :: "Adapter \<Rightarrow> nat list" where
  "uniqueStores a =
     (let ss = keep_first [] (map snd (perProject a))
      in if daemonStore a \<in> set ss then ss else ss @ [daemonStore a])"

definition Adapter_Insert :: "bool \<Rightarrow> bool \<Rightarrow> Notification \<Rightarrow> Adapter \<Rightarrow> (inbox_err + Notification) \<times> Adapter" where
  "Adapter_Insert ctx_done sql_ok n a =
     (if ctx_done then (Inl InboxCtx, a)
      else if length (ProjectID n) \<noteq> 64 then (Inl ErrInvalidProjectID, a)
      else if \<not> ValidSeverity (n_Severity n) then (Inl ErrInvalidSeverity, a)
      else let s = routeStore (ProjectID n) a; t = tables a s in
        if dedup_key n \<in> dedup_key ` set (rows t) then (Inl ErrDedupViolation, a)
        else if \<not> sql_ok then (Inl InsertFailed, a)
        else let n1 = n\<lparr>n_ID := next_id t\<rparr>;
                 row = n1\<lparr>CreatedAt := of_unix (unix_sec (CreatedAt n)), AckedAt := None, SnoozedUntil := None\<rparr>
             in (Inr n1, a\<lparr>tables := (tables a)(s := \<lparr>rows = rows t @ [row], next_id = next_id t + 1\<rparr>)\<rparr>))"

text \<open>The loop of \<open>Ack\<close> and \<open>Snooze\<close>: the stores in turn until the number is found in one; \<open>ok s\<close> is the outcome
  of the statement at store \<open>s\<close>.\<close>

fun update_first :: "(nat \<Rightarrow> bool) \<Rightarrow> int \<Rightarrow> (Notification \<Rightarrow> Notification) \<Rightarrow> nat list \<Rightarrow> (nat \<Rightarrow> inbox_table) \<Rightarrow>
    inbox_err option \<times> (nat \<Rightarrow> inbox_table)" where
  "update_first ok i upd [] ts = (Some ErrNotFound, ts)"
| "update_first ok i upd (s # ss) ts =
     (if \<not> ok s then (Some StatementFailed, ts)
      else if i \<in> n_ID ` set (rows (ts s))
        then (None, ts(s := (ts s)\<lparr>rows := map (\<lambda>n. if n_ID n = i then upd n else n) (rows (ts s))\<rparr>))
      else update_first ok i upd ss ts)"

text \<open>\<open>Ack\<close> also updates the cache, wherever the number occurs, and ignores a failure of that statement.\<close>

definition Adapter_Ack :: "bool \<Rightarrow> (nat \<Rightarrow> bool) \<Rightarrow> bool \<Rightarrow> time \<Rightarrow> time \<Rightarrow> int \<Rightarrow> Adapter \<Rightarrow> inbox_err option \<times> Adapter" where
  "Adapter_Ack ctx_done ok cache_ok now now' i a =
     (if ctx_done then (Some InboxCtx, a)
      else case update_first ok i (\<lambda>n. n\<lparr>AckedAt := Some (of_unix (unix_sec now))\<rparr>) (uniqueStores a) (tables a) of
        (Some e, _) \<Rightarrow> (Some e, a)
      | (None, ts) \<Rightarrow> (None, a\<lparr>tables := ts,
          cache := (if cache_ok then map (\<lambda>r. if NotificationID r = i then r\<lparr>c_AckedAt := Some (unix_sec now')\<rparr> else r) (cache a)
            else cache a)\<rparr>))"

definition Adapter_Snooze :: "bool \<Rightarrow> (nat \<Rightarrow> bool) \<Rightarrow> time \<Rightarrow> int \<Rightarrow> Adapter \<Rightarrow> inbox_err option \<times> Adapter" where
  "Adapter_Snooze ctx_done ok until i a =
     (if ctx_done then (Some InboxCtx, a)
      else case update_first ok i (\<lambda>n. n\<lparr>SnoozedUntil := Some (of_unix (unix_sec until))\<rparr>) (uniqueStores a) (tables a) of
        (Some e, _) \<Rightarrow> (Some e, a)
      | (None, ts) \<Rightarrow> (None, a\<lparr>tables := ts\<rparr>))"

definition matches :: "ListFilter \<Rightarrow> string \<Rightarrow> Severity \<Rightarrow> int \<Rightarrow> bool \<Rightarrow> bool" where
  "matches f pid sev created acked \<longleftrightarrow> (lf_ProjectID f = [] \<or> pid = lf_ProjectID f)
     \<and> (case lf_Severity f of None \<Rightarrow> True | Some s \<Rightarrow> sev = s)
     \<and> (case lf_Since f of None \<Rightarrow> True | Some t \<Rightarrow> created \<ge> unix_sec t)
     \<and> (IncludeAcked f \<or> \<not> acked)"

definition queryStoreInbox :: "inbox_table \<Rightarrow> ListFilter \<Rightarrow> Notification list" where
  "queryStoreInbox t f = limit (lf_Limit f) (sort_key (\<lambda>n. - unix_sec (CreatedAt n))
     (filter (\<lambda>n. matches f (ProjectID n) (n_Severity n) (unix_sec (CreatedAt n)) (AckedAt n \<noteq> None)) (rows t)))"

definition Adapter_List :: "bool \<Rightarrow> (nat \<Rightarrow> bool) \<Rightarrow> ListFilter \<Rightarrow> Adapter \<Rightarrow> inbox_err + Notification list" where
  "Adapter_List ctx_done ok f a =
     (if ctx_done then Inl InboxCtx
      else if lf_ProjectID f \<noteq> [] then
        (let s = routeStore (lf_ProjectID f) a in if ok s then Inr (queryStoreInbox (tables a s) f) else Inl StatementFailed)
      else if list_all ok (uniqueStores a)
        then Inr (limit (lf_Limit f) (concat (map (\<lambda>s. queryStoreInbox (tables a s) f) (uniqueStores a))))
      else Inl StatementFailed)"

definition DeleteByProject :: "bool \<Rightarrow> bool \<Rightarrow> bool \<Rightarrow> string \<Rightarrow> Adapter \<Rightarrow> inbox_err option \<times> Adapter" where
  "DeleteByProject ctx_done sql_ok cache_ok projectID a =
     (if ctx_done then (Some InboxCtx, a)
      else if \<not> sql_ok then (Some StatementFailed, a)
      else let s = routeStore projectID a;
               a1 = a\<lparr>tables := (tables a)(s := (tables a s)\<lparr>rows := filter (\<lambda>n. ProjectID n \<noteq> projectID) (rows (tables a s))\<rparr>)\<rparr>
           in if \<not> cache_ok then (Some StatementFailed, a1)
              else (None, a1\<lparr>cache := filter (\<lambda>r. c_ProjectID r \<noteq> projectID) (cache a1),
                perProject := AList.delete projectID (perProject a1), aliases := (aliases a1)(projectID := None)\<rparr>))"

definition cache_key :: "CacheRow \<Rightarrow> string \<times> int" where
  "cache_key r = (c_ProjectID r, NotificationID r)"

definition InsertCache :: "bool \<Rightarrow> CacheRow \<Rightarrow> Adapter \<Rightarrow> bool \<times> Adapter" where
  "InsertCache sql_ok r a =
     (if \<not> sql_ok \<or> cache_key r \<in> cache_key ` set (cache a) then (False, a)
      else (True, a\<lparr>cache := cache a @ [r\<lparr>CacheID := next_cache a\<rparr>], next_cache := next_cache a + 1\<rparr>))"

definition Adapter_Query :: "ListFilter \<Rightarrow> Adapter \<Rightarrow> CacheRow list" where
  "Adapter_Query f a = limit (lf_Limit f) (sort_key (\<lambda>r. - c_CreatedAt r)
     (filter (\<lambda>r. matches f (c_ProjectID r) (c_Severity r) (c_CreatedAt r) (c_AckedAt r \<noteq> None)) (cache a)))"

definition row_of :: "string \<Rightarrow> Notification \<Rightarrow> CacheRow" where
  "row_of als n = \<lparr>CacheID = 0, c_ProjectID = ProjectID n, ProjectAlias = als, NotificationID = n_ID n,
     c_Severity = n_Severity n, c_EventType = EventType n, c_ContentHash = ContentHash n,
     c_CreatedAt = unix_sec (CreatedAt n), c_AckedAt = map_option unix_sec (AckedAt n)\<rparr>"

fun rebuild_rows :: "(Notification \<Rightarrow> bool) \<Rightarrow> Adapter \<Rightarrow> Notification list \<Rightarrow> Adapter option" where
  "rebuild_rows row_ok a [] = Some a"
| "rebuild_rows row_ok a (n # ns) =
     (case InsertCache (row_ok n) (row_of (alias_of (ProjectID n) a) n) a of
        (False, _) \<Rightarrow> None
      | (True, a') \<Rightarrow> rebuild_rows row_ok a' ns)"

fun rebuild_from :: "(Notification \<Rightarrow> bool) \<Rightarrow> Adapter \<Rightarrow> (inbox_err + Notification list) list \<Rightarrow> Adapter option" where
  "rebuild_from row_ok a [] = Some a"
| "rebuild_from row_ok a (Inl e # srcs) = None"
| "rebuild_from row_ok a (Inr ns # srcs) =
     (case rebuild_rows row_ok a ns of None \<Rightarrow> None | Some a' \<Rightarrow> rebuild_from row_ok a' srcs)"

text \<open>\<open>Rebuild\<close> is one transaction: the cache is replaced by the rows of all sources or left alone. A source is
  given by what its \<open>List\<close> with \<open>IncludeAcked\<close> returns.\<close>

definition everything :: ListFilter where
  "everything = \<lparr>lf_ProjectID = [], lf_Severity = None, lf_Since = None, lf_Limit = 0, IncludeAcked = True\<rparr>"

definition Rebuild :: "bool \<Rightarrow> bool \<Rightarrow> (Notification \<Rightarrow> bool) \<Rightarrow> bool \<Rightarrow> (inbox_err + Notification list) list \<Rightarrow> Adapter \<Rightarrow>
    bool \<times> Adapter" where
  "Rebuild ctx_done clear_ok row_ok commit_ok sources a =
     (if ctx_done \<or> \<not> clear_ok then (False, a)
      else case rebuild_from row_ok (a\<lparr>cache := []\<rparr>) sources of
        None \<Rightarrow> (False, a)
      | Some a' \<Rightarrow> if commit_ok then (True, a') else (False, a))"

subsection \<open>Outbox and aggregator (outbox.go)\<close>

record inbox_state =
  adapter :: Adapter
  queue :: "(Notification \<times> string) list"
  cap :: nat
  enqueued :: nat
  drained :: nat
  rejected :: nat
  cacheError :: nat

definition Enqueue :: "Notification \<times> string \<Rightarrow> inbox_state \<Rightarrow> bool \<times> inbox_state" where
  "Enqueue w o1 =
     (if length (queue o1) < cap o1 then (True, o1\<lparr>queue := queue o1 @ [w], enqueued := enqueued o1 + 1\<rparr>)
      else (False, o1\<lparr>rejected := rejected o1 + 1\<rparr>))"

text \<open>One turn of \<open>Run\<close> that receives a write.\<close>

definition drain :: "bool \<Rightarrow> inbox_state \<Rightarrow> inbox_state" where
  "drain sql_ok o1 =
     (case queue o1 of
        [] \<Rightarrow> o1
      | (n, als) # ws \<Rightarrow>
          (case InsertCache sql_ok (row_of als n) (adapter o1) of
             (False, _) \<Rightarrow> o1\<lparr>queue := ws, cacheError := cacheError o1 + 1\<rparr>
           | (True, a) \<Rightarrow> o1\<lparr>queue := ws, adapter := a, drained := drained o1 + 1\<rparr>))"

definition NewAggregator :: "Adapter \<Rightarrow> inbox_state" where
  "NewAggregator a = \<lparr>adapter = a, queue = [], cap = 1024, enqueued = 0, drained = 0, rejected = 0, cacheError = 0\<rparr>"

definition Aggregator_Insert :: "bool \<Rightarrow> bool \<Rightarrow> Notification \<Rightarrow> inbox_state \<Rightarrow> inbox_err option \<times> inbox_state" where
  "Aggregator_Insert ctx_done sql_ok n o1 =
     (case Adapter_Insert ctx_done sql_ok n (adapter o1) of
        (Inl e, _) \<Rightarrow> (Some e, o1)
      | (Inr n1, a) \<Rightarrow> (None, snd (Enqueue (n1, []) (o1\<lparr>adapter := a\<rparr>))))"

subsection \<open>Numbers and keys of a table\<close>

definition numbered :: "inbox_table \<Rightarrow> bool" where
  "numbered t \<longleftrightarrow> distinct (map n_ID (rows t)) \<and> (\<forall>n \<in> set (rows t). n_ID n < next_id t)
     \<and> distinct (map dedup_key (rows t))"

lemma numbered_append:
  assumes "numbered t" "dedup_key r = k" "k \<notin> dedup_key ` set (rows t)" "n_ID r = next_id t"
  shows "numbered \<lparr>rows = rows t @ [r], next_id = next_id t + 1\<rparr>"
  using assms by (auto simp: numbered_def intro: less_trans)

lemma numbered_filter: "numbered t \<Longrightarrow> numbered (t\<lparr>rows := filter P (rows t)\<rparr>)"
  by (auto simp: numbered_def distinct_map inj_on_def)

lemma numbered_map:
  assumes "numbered t" "\<And>n. n_ID (f n) = n_ID n" "\<And>n. dedup_key (f n) = dedup_key n"
  shows "numbered (t\<lparr>rows := map f (rows t)\<rparr>)"
  using assms by (simp add: numbered_def comp_def)

lemma dedup_key_simps [simp]:
  "dedup_key (n\<lparr>n_ID := i\<rparr>) = dedup_key n" "dedup_key (n\<lparr>AckedAt := x\<rparr>) = dedup_key n"
  "dedup_key (n\<lparr>SnoozedUntil := y\<rparr>) = dedup_key n"
  "dedup_key (n\<lparr>CreatedAt := of_unix (unix_sec (CreatedAt n))\<rparr>) = dedup_key n"
  "dedup_key (n\<lparr>n_ID := i, CreatedAt := of_unix (unix_sec (CreatedAt n))\<rparr>) = dedup_key n"
  by (simp_all add: dedup_key_def DedupBucket_def)

lemma dedup_key_row [simp]:
  "dedup_key (n\<lparr>n_ID := i, CreatedAt := of_unix (unix_sec (CreatedAt n)), AckedAt := x, SnoozedUntil := y\<rparr>) = dedup_key n"
  by (simp add: dedup_key_def DedupBucket_def)

lemma update_row_map:
  "distinct (map n_ID ns) \<Longrightarrow> update_row i upd ns =
     (if i \<in> n_ID ` set ns then Some (map (\<lambda>n. if n_ID n = i then upd n else n) ns) else None)"
  by (induction ns) (auto simp: image_iff intro!: map_idI [symmetric])

subsection \<open>The store in memory stands for the adapter\<close>

text \<open>The operations of the interface \<open>Store\<close>, for both stores. The adapter is the one without registered
  projects, which is how the daemon starts it, and its statements succeed.\<close>

datatype store_op = OpInsert Notification | OpAck time int | OpSnooze time int | OpList ListFilter | OpDelete string
datatype store_answer = Inserted "inbox_err + Notification" | Answered "inbox_err option" | Listed "inbox_err + Notification list"

fun mem_op :: "inbox_table \<Rightarrow> store_op \<Rightarrow> inbox_table \<times> store_answer" where
  "mem_op t (OpInsert n) = (case mem_Insert n t of (x, t') \<Rightarrow> (t', Inserted x))"
| "mem_op t (OpAck now i) = (case mem_Ack now i t of (x, t') \<Rightarrow> (t', Answered x))"
| "mem_op t (OpSnooze u i) = (case mem_Snooze u i t of (x, t') \<Rightarrow> (t', Answered x))"
| "mem_op t (OpList f) = (t, Listed (Inr (mem_List f t)))"
| "mem_op t (OpDelete p) = (mem_Delete p t, Answered None)"

fun adapter_op :: "Adapter \<Rightarrow> store_op \<Rightarrow> Adapter \<times> store_answer" where
  "adapter_op a (OpInsert n) = (case Adapter_Insert False True n a of (x, a') \<Rightarrow> (a', Inserted x))"
| "adapter_op a (OpAck now i) = (case Adapter_Ack False (\<lambda>_. True) True now now i a of (x, a') \<Rightarrow> (a', Answered x))"
| "adapter_op a (OpSnooze u i) = (case Adapter_Snooze False (\<lambda>_. True) u i a of (x, a') \<Rightarrow> (a', Answered x))"
| "adapter_op a (OpList f) = (a, Listed (Adapter_List False (\<lambda>_. True) f a))"
| "adapter_op a (OpDelete p) = (case DeleteByProject False True True p a of (x, a') \<Rightarrow> (a', Answered x))"

text \<open>The table keeps whole seconds, and the adapter checks neither the event type nor the hash.\<close>

definition whole :: "time \<Rightarrow> bool" where "whole t \<longleftrightarrow> of_unix (unix_sec t) = t"

fun op_ok :: "store_op \<Rightarrow> bool" where
  "op_ok (OpInsert n) \<longleftrightarrow> EventType n \<noteq> [] \<and> length (ContentHash n) = 64 \<and> CreatedAt n \<noteq> 0 \<and> whole (CreatedAt n)
     \<and> AckedAt n = None \<and> SnoozedUntil n = None"
| "op_ok (OpAck now i) \<longleftrightarrow> whole now"
| "op_ok (OpSnooze u i) \<longleftrightarrow> whole u"
| "op_ok (OpList f) \<longleftrightarrow> (case lf_Since f of None \<Rightarrow> True | Some t \<Rightarrow> whole t)"
| "op_ok (OpDelete p) \<longleftrightarrow> True"

definition unregistered :: "Adapter \<Rightarrow> bool" where
  "unregistered a \<longleftrightarrow> perProject a = [] \<and> numbered (tables a (daemonStore a))
     \<and> (\<forall>n \<in> set (rows (tables a (daemonStore a))). whole (CreatedAt n))"

definition daemon_table :: "Adapter \<Rightarrow> inbox_table" where
  "daemon_table a = tables a (daemonStore a)"

lemmas route_simps = routeStore_def uniqueStores_def unregistered_def daemon_table_def

lemma whole_le: "whole s \<Longrightarrow> whole t \<Longrightarrow> unix_sec s \<le> unix_sec t \<longleftrightarrow> s \<le> t"
  unfolding whole_def of_unix_def by linarith

lemma limit_limit [simp]: "limit k (limit k xs) = limit k xs"
  by (simp add: limit_def)

lemma set_limit: "set (limit k xs) \<subseteq> set xs"
  by (auto simp: limit_def dest: in_set_takeD)

lemma sort_key_mono:
  fixes f :: "'a \<Rightarrow> 'b::linorder" and g :: "'a \<Rightarrow> 'c::linorder"
  assumes "\<And>x y. x \<in> set xs \<Longrightarrow> y \<in> set xs \<Longrightarrow> f x \<le> f y \<longleftrightarrow> g x \<le> g y"
  shows "sort_key f xs = sort_key g xs"
proof -
  have ins: "insort_key f x ys = insort_key g x ys" if "set (x # ys) \<subseteq> set xs" for x ys
    using that by (induction ys) (auto simp: assms)
  have "sort_key f ys = sort_key g ys" if "set ys \<subseteq> set xs" for ys
    using that by (induction ys) (auto simp: ins)
  then show ?thesis by simp
qed

lemma queryStoreInbox_mem:
  assumes "\<forall>n \<in> set (rows t). whole (CreatedAt n)" "op_ok (OpList f)"
  shows "queryStoreInbox t f = mem_List f t"
proof -
  have "filter (\<lambda>n. matches f (ProjectID n) (n_Severity n) (unix_sec (CreatedAt n)) (AckedAt n \<noteq> None)) (rows t) =
    filter (\<lambda>n. \<not> (lf_ProjectID f \<noteq> [] \<and> ProjectID n \<noteq> lf_ProjectID f)
     \<and> (case lf_Severity f of None \<Rightarrow> True | Some s \<Rightarrow> n_Severity n = s)
     \<and> (case lf_Since f of None \<Rightarrow> True | Some u \<Rightarrow> \<not> CreatedAt n < u)
     \<and> \<not> (\<not> IncludeAcked f \<and> AckedAt n \<noteq> None)) (rows t)"
    using assms by (intro filter_cong) (auto simp: matches_def whole_le not_less split: option.splits)
  then show ?thesis unfolding queryStoreInbox_def mem_List_def
    using assms(1) by (auto intro!: arg_cong [where f = "limit (lf_Limit f)"] sort_key_mono simp: whole_le)
qed

lemma adapter_op_refines:
  assumes "unregistered a" "op_ok x"
  shows "unregistered (fst (adapter_op a x))
    \<and> mem_op (daemon_table a) x = (daemon_table (fst (adapter_op a x)), snd (adapter_op a x))"
proof -
  have ids: "distinct (map n_ID (rows (tables a (daemonStore a))))"
    using assms(1) by (simp add: unregistered_def numbered_def)
  show ?thesis
  proof (cases x)
    case (OpInsert n)
    then have "of_unix (unix_sec (CreatedAt n)) = CreatedAt n"
      "AckedAt n = None" "SnoozedUntil n = None" using assms(2) by (simp_all add: whole_def)
    moreover have "n\<lparr>n_ID := i, CreatedAt := CreatedAt n, AckedAt := None, SnoozedUntil := None\<rparr> = n\<lparr>n_ID := i\<rparr>" for i
      using calculation by (cases n) simp
    ultimately show ?thesis using assms OpInsert
      by (auto simp: route_simps Adapter_Insert_def mem_Insert_def validateNotificationForInsert_def Let_def
        intro!: numbered_append [OF _ refl])
  next
    case (OpAck now i)
    with assms show ?thesis
      by (auto simp: route_simps Adapter_Ack_def mem_Ack_def update_row_map ids whole_def intro!: numbered_map)
  next
    case (OpSnooze u i)
    with assms show ?thesis
      by (auto simp: route_simps Adapter_Snooze_def mem_Snooze_def update_row_map ids whole_def intro!: numbered_map)
  next
    case (OpList f)
    with assms queryStoreInbox_mem [of "daemon_table a" f] show ?thesis
      by (auto simp: route_simps Adapter_List_def mem_List_def)
  next
    case (OpDelete p)
    with assms show ?thesis
      by (auto simp: route_simps DeleteByProject_def mem_Delete_def numbered_filter Let_def)
  qed
qed

interpretation mem: refinement adapter_op mem_op daemon_table unregistered op_ok
  by unfold_locales (rule adapter_op_refines)


definition demo_note :: Notification where
  "demo_note = \<lparr>n_ID = 0, ProjectID = replicate 64 CHR ''a'', n_Severity = SeverityUrgent, EventType = ''hra.l4_alert'',
     ContentHash = replicate 64 CHR ''0'', Payload = ''{}'', CreatedAt = of_unix 600, AckedAt = None, SnoozedUntil = None\<rparr>"

definition demo_ops :: "store_op list" where
  "demo_ops = [OpInsert demo_note, OpInsert (demo_note\<lparr>CreatedAt := of_unix 899\<rparr>), OpInsert (demo_note\<lparr>CreatedAt := of_unix 900\<rparr>),
     OpAck (of_unix 1000) 1, OpAck (of_unix 1000) 3, OpList (everything\<lparr>IncludeAcked := False\<rparr>)]"

lemmas demo_note_simps = demo_note_def severity_defs ValidSeverity_def validateNotificationForInsert_def


subsection \<open>The cache mirrors the projects\<close>

text \<open>\<open>same_event\<close>: what a notification keeps from its insertion on.\<close>

definition same_event :: "Notification \<Rightarrow> Notification \<Rightarrow> bool" where
  "same_event m n \<longleftrightarrow> n_ID m = n_ID n \<and> ProjectID m = ProjectID n \<and> n_Severity m = n_Severity n \<and> EventType m = EventType n
     \<and> ContentHash m = ContentHash n \<and> unix_sec (CreatedAt m) = unix_sec (CreatedAt n)"

definition mirrors :: "CacheRow \<Rightarrow> Notification \<Rightarrow> bool" where
  "mirrors r n \<longleftrightarrow> c_ProjectID r = ProjectID n \<and> NotificationID r = n_ID n \<and> c_Severity r = n_Severity n
     \<and> c_EventType r = EventType n \<and> c_ContentHash r = ContentHash n \<and> c_CreatedAt r = unix_sec (CreatedAt n)"

text \<open>The turns of the inbox, with the notifications accepted so far: an insert through the aggregator,
  a turn of the outbox, a registration, an acknowledgement, a snooze, a deletion of a project, a rebuild.\<close>

inductive inbox_step :: "inbox_state \<times> Notification list \<Rightarrow> inbox_state \<times> Notification list \<Rightarrow> bool" where
  st_insert: "Adapter_Insert c ok n (adapter o1) = (Inr n1, a) \<Longrightarrow>
    inbox_step (o1, H) (snd (Aggregator_Insert c ok n o1), H @ [n1])"
| st_refused: "Adapter_Insert c ok n (adapter o1) = (Inl e, a) \<Longrightarrow>
    inbox_step (o1, H) (snd (Aggregator_Insert c ok n o1), H)"
| st_drain: "inbox_step (o1, H) (drain ok o1, H)"
| st_register: "inbox_step (o1, H) (o1\<lparr>adapter := RegisterProject p x s (adapter o1)\<rparr>, H)"
| st_ack: "inbox_step (o1, H) (o1\<lparr>adapter := snd (Adapter_Ack c okf cok now now' i (adapter o1))\<rparr>, H)"
| st_snooze: "inbox_step (o1, H) (o1\<lparr>adapter := snd (Adapter_Snooze c okf u i (adapter o1))\<rparr>, H)"
| st_delete: "inbox_step (o1, H) (o1\<lparr>adapter := snd (DeleteByProject c ok cok p (adapter o1))\<rparr>, H)"
| st_rebuild: "inbox_step (o1, H) (o1\<lparr>adapter := snd (Rebuild c ok rok mok [Adapter_List c' okf everything (adapter o1)]
    (adapter o1))\<rparr>, H)"

definition tables_ok :: "Adapter \<Rightarrow> Notification list \<Rightarrow> bool" where
  "tables_ok a H \<longleftrightarrow> (\<forall>s. numbered (tables a s) \<and> (\<forall>m \<in> set (rows (tables a s)). \<exists>n \<in> set H. same_event m n))"

definition cache_ok :: "Adapter \<Rightarrow> Notification list \<Rightarrow> bool" where
  "cache_ok a H \<longleftrightarrow> distinct (map cache_key (cache a)) \<and> (\<forall>r \<in> set (cache a). \<exists>n \<in> set H. mirrors r n)"

definition outbox_ok :: "inbox_state \<Rightarrow> Notification list \<Rightarrow> bool" where
  "outbox_ok o1 H \<longleftrightarrow> fst ` set (queue o1) \<subseteq> set H \<and> length (queue o1) \<le> cap o1
     \<and> enqueued o1 = drained o1 + cacheError o1 + length (queue o1) \<and> enqueued o1 + rejected o1 = length H"

fun inbox_inv :: "inbox_state \<times> Notification list \<Rightarrow> bool" where
  "inbox_inv (o1, H) \<longleftrightarrow> tables_ok (adapter o1) H \<and> cache_ok (adapter o1) H \<and> outbox_ok o1 H"

fun inbox_init :: "inbox_state \<times> Notification list \<Rightarrow> bool" where
  "inbox_init (o1, H) \<longleftrightarrow> (\<exists>d. o1 = NewAggregator (NewAdapter d)) \<and> H = []"

lemma same_event_updates [simp]:
  "same_event (m\<lparr>AckedAt := x\<rparr>) n = same_event m n" "same_event (m\<lparr>SnoozedUntil := x\<rparr>) n = same_event m n"
  by (simp_all add: same_event_def)

lemma mirrors_row_of: "same_event m n \<Longrightarrow> mirrors (row_of als m) n"
  by (simp add: mirrors_def same_event_def row_of_def)

lemma mirrors_updates [simp]:
  "mirrors (r\<lparr>c_AckedAt := x\<rparr>) n = mirrors r n" "mirrors (r\<lparr>CacheID := c\<rparr>) n = mirrors r n"
  by (simp_all add: mirrors_def)

lemma cache_key_updates [simp]: "cache_key (r\<lparr>c_AckedAt := x\<rparr>) = cache_key r" "cache_key (r\<lparr>CacheID := c\<rparr>) = cache_key r"
  by (simp_all add: cache_key_def)

lemma Adapter_Insert_Inr:
  assumes "Adapter_Insert c ok n a = (Inr n1, a')"
  obtains s row where "n1 = n\<lparr>n_ID := next_id (tables a s)\<rparr>" "same_event row n1" "dedup_key row \<notin> dedup_key ` set (rows (tables a s))"
    "a' = a\<lparr>tables := (tables a)(s := \<lparr>rows = rows (tables a s) @ [row], next_id = next_id (tables a s) + 1\<rparr>)\<rparr>"
proof (rule that [of "routeStore (ProjectID n) a" "n1\<lparr>CreatedAt := of_unix (unix_sec (CreatedAt n)), AckedAt := None, SnoozedUntil := None\<rparr>"])
qed (use assms in \<open>auto simp: Adapter_Insert_def Let_def same_event_def split: if_splits\<close>)

lemma Adapter_Insert_Inl: "Adapter_Insert c ok n a = (Inl e, a') \<Longrightarrow> a' = a"
  by (auto simp: Adapter_Insert_def Let_def split: if_splits)

lemma tables_ok_insert:
  assumes "Adapter_Insert c ok n a = (Inr n1, a')" "tables_ok a H"
  shows "tables_ok a' (H @ [n1])"
proof -
  from assms(1) obtain s row where i: "n1 = n\<lparr>n_ID := next_id (tables a s)\<rparr>" "same_event row n1"
    "dedup_key row \<notin> dedup_key ` set (rows (tables a s))"
    "a' = a\<lparr>tables := (tables a)(s := \<lparr>rows = rows (tables a s) @ [row], next_id = next_id (tables a s) + 1\<rparr>)\<rparr>"
    by (rule Adapter_Insert_Inr)
  have "n_ID row = next_id (tables a s)" using i(1,2) by (simp add: same_event_def)
  then have "numbered (tables a' t)" for t
    using assms(2) i(3,4) by (auto simp: tables_ok_def intro!: numbered_append [OF _ refl])
  then show ?thesis using assms(2) i(2,4) by (auto simp: tables_ok_def)
qed

lemma update_first_tables_ok:
  assumes "update_first ok i upd ss ts = (None, ts')"
    and keep: "\<And>n. n_ID (upd n) = n_ID n" "\<And>n. dedup_key (upd n) = dedup_key n" "\<And>m n. same_event (upd m) n = same_event m n"
    and "\<forall>s. numbered (ts s) \<and> (\<forall>m \<in> set (rows (ts s)). \<exists>n \<in> set H. same_event m n)"
  shows "\<forall>s. numbered (ts' s) \<and> (\<forall>m \<in> set (rows (ts' s)). \<exists>n \<in> set H. same_event m n)"
  using assms(1,5)
  by (induction ss) (auto simp: keep split: if_splits intro!: numbered_map)

lemma tables_ok_update:
  assumes "tables_ok a H" "update_first ok i upd ss (tables a) = (None, ts')" "tables a' = ts'"
    and "\<And>n. n_ID (upd n) = n_ID n" "\<And>n. dedup_key (upd n) = dedup_key n" "\<And>m n. same_event (upd m) n = same_event m n"
  shows "tables_ok a' H"
  using assms(1) update_first_tables_ok [OF assms(2,4-6), of H] by (simp add: tables_ok_def assms(3))

lemma tables_ok_ack: "tables_ok a H \<Longrightarrow> tables_ok (snd (Adapter_Ack c ok cok now now' i a)) H"
  unfolding Adapter_Ack_def by (auto split: prod.split option.split intro: tables_ok_update)

lemma tables_ok_snooze: "tables_ok a H \<Longrightarrow> tables_ok (snd (Adapter_Snooze c ok u i a)) H"
  unfolding Adapter_Snooze_def by (auto split: prod.split option.split intro: tables_ok_update)

lemma tables_ok_delete: "tables_ok a H \<Longrightarrow> tables_ok (snd (DeleteByProject c ok cok p a)) H"
  unfolding DeleteByProject_def tables_ok_def Let_def by (auto intro: numbered_filter)

lemma InsertCache_result:
  "InsertCache ok r a = (True, a') \<Longrightarrow> cache_key r \<notin> cache_key ` set (cache a)
     \<and> a' = a\<lparr>cache := cache a @ [r\<lparr>CacheID := next_cache a\<rparr>], next_cache := next_cache a + 1\<rparr>"
  "InsertCache ok r a = (False, a') \<Longrightarrow> a' = a"
  by (auto simp: InsertCache_def split: if_splits)

lemma cache_ok_insert:
  assumes "InsertCache ok r a = (True, a')" "cache_ok a H" "mirrors r n" "n \<in> set H"
  shows "cache_ok a' H"
  using assms InsertCache_result(1) [OF assms(1)] by (auto simp: cache_ok_def)

lemma cache_ok_ack: "cache_ok a H \<Longrightarrow> cache_ok (snd (Adapter_Ack c ok cok now now' i a)) H"
proof -
  assume a: "cache_ok a H"
  let ?f = "\<lambda>r. if NotificationID r = i then r\<lparr>c_AckedAt := Some (unix_sec now')\<rparr> else r"
  have "cache_key \<circ> ?f = cache_key" by (auto simp: fun_eq_iff)
  then have "cache_ok (a'\<lparr>cache := map ?f (cache a)\<rparr>) H" for a'
    using a by (auto simp: cache_ok_def)
  with a show ?thesis by (auto simp: Adapter_Ack_def cache_ok_def split: prod.split option.split)
qed

lemma cache_ok_snooze: "cache_ok a H \<Longrightarrow> cache_ok (snd (Adapter_Snooze c ok u i a)) H"
  by (auto simp: Adapter_Snooze_def cache_ok_def split: prod.split option.split)

lemma cache_ok_delete: "cache_ok a H \<Longrightarrow> cache_ok (snd (DeleteByProject c ok cok p a)) H"
  by (auto simp: DeleteByProject_def cache_ok_def Let_def distinct_map inj_on_def)

lemma rebuild_rows_ok:
  assumes "rebuild_rows rok a ns = Some a'" "cache_ok a H" "\<forall>m \<in> set ns. \<exists>n \<in> set H. same_event m n"
  shows "cache_ok a' H \<and> tables a' = tables a"
  using assms
proof (induction ns arbitrary: a)
  case (Cons m ns)
  from Cons.prems obtain a1 where a1: "InsertCache (rok m) (row_of (alias_of (ProjectID m) a) m) a = (True, a1)"
    "rebuild_rows rok a1 ns = Some a'"
    by (auto split: prod.splits bool.splits)
  obtain n where "n \<in> set H" "same_event m n" using Cons.prems(3) by auto
  with a1(1) Cons.prems(2) have "cache_ok a1 H" using cache_ok_insert mirrors_row_of by blast
  moreover have "tables a1 = tables a" using InsertCache_result(1) [OF a1(1)] by simp
  ultimately show ?case using Cons.IH [OF a1(2)] Cons.prems(3) by simp
qed simp

lemma rebuild_from_ok:
  assumes "rebuild_from rok a srcs = Some a'" "cache_ok a H"
    and "\<forall>ns. Inr ns \<in> set srcs \<longrightarrow> (\<forall>m \<in> set ns. \<exists>n \<in> set H. same_event m n)"
  shows "cache_ok a' H \<and> tables a' = tables a"
  using assms
proof (induction rok a srcs rule: rebuild_from.induct)
  case (3 rok a ns srcs)
  then obtain a1 where a1: "rebuild_rows rok a ns = Some a1" "rebuild_from rok a1 srcs = Some a'"
    by (auto split: option.splits)
  have "\<forall>m \<in> set ns. \<exists>n \<in> set H. same_event m n" using "3.prems"(3) by simp
  with rebuild_rows_ok [OF a1(1) "3.prems"(2)] "3.IH" [OF a1] "3.prems"(3) show ?case by simp
qed auto

lemma Adapter_List_rows:
  assumes "Adapter_List c okf f a = Inr ns" "m \<in> set ns"
  shows "\<exists>s. m \<in> set (rows (tables a s))"
proof -
  have q: "n \<in> set (queryStoreInbox t f) \<Longrightarrow> n \<in> set (rows t)" for n t
    using set_limit [of "lf_Limit f"] by (force simp: queryStoreInbox_def)
  show ?thesis
  proof (cases "lf_ProjectID f = []")
    case True
    let ?all = "concat (map (\<lambda>s. queryStoreInbox (tables a s) f) (uniqueStores a))"
    have "ns = limit (lf_Limit f) ?all" using assms(1) True by (simp add: Adapter_List_def split: if_splits)
    then have "m \<in> set ?all" using assms(2) set_limit [of "lf_Limit f" ?all] by blast
    then show ?thesis using q by auto
  next
    case False
    then have "ns = queryStoreInbox (tables a (routeStore (lf_ProjectID f) a)) f"
      using assms(1) by (simp add: Adapter_List_def Let_def split: if_splits)
    with assms(2) q show ?thesis by blast
  qed
qed

lemma Rebuild_ok:
  assumes "tables_ok a H" "cache_ok a H"
  shows "tables_ok (snd (Rebuild c ok rok mok [Adapter_List c' okf f a] a)) H
    \<and> cache_ok (snd (Rebuild c ok rok mok [Adapter_List c' okf f a] a)) H"
proof (cases "rebuild_from rok (a\<lparr>cache := []\<rparr>) [Adapter_List c' okf f a]")
  case (Some a')
  have "\<forall>ns. Inr ns \<in> set [Adapter_List c' okf f a] \<longrightarrow> (\<forall>m \<in> set ns. \<exists>n \<in> set H. same_event m n)"
  proof (intro allI impI ballI)
    fix ns m assume ns: "Inr ns \<in> set [Adapter_List c' okf f a]" and m: "m \<in> set ns"
    from ns have "Adapter_List c' okf f a = Inr ns" by simp
    from Adapter_List_rows [OF this m] obtain s where "m \<in> set (rows (tables a s))" ..
    with assms(1) show "\<exists>n \<in> set H. same_event m n" unfolding tables_ok_def by blast
  qed
  then have "cache_ok a' H \<and> tables a' = tables a" using rebuild_from_ok [OF Some] by (simp add: cache_ok_def)
  with Some assms show ?thesis by (auto simp: Rebuild_def tables_ok_def)
qed (use assms in \<open>simp add: Rebuild_def\<close>)

lemma outbox_adapter [simp]: "outbox_ok (o1\<lparr>adapter := a\<rparr>) H = outbox_ok o1 H"
  by (simp add: outbox_ok_def)

lemma inv_insert:
  assumes "Adapter_Insert c ok n (adapter o1) = (Inr n1, a)" "inbox_inv (o1, H)"
  shows "inbox_inv (snd (Aggregator_Insert c ok n o1), H @ [n1])"
proof -
  have "cache a = cache (adapter o1)" using assms(1) by (auto elim!: Adapter_Insert_Inr)
  then have "cache_ok a (H @ [n1])" using assms(2) by (auto simp: cache_ok_def)
  with tables_ok_insert [OF assms(1)] assms show ?thesis
    by (auto simp: Aggregator_Insert_def Enqueue_def outbox_ok_def)
qed

lemma inv_drain:
  assumes "inbox_inv (o1, H)"
  shows "inbox_inv (drain ok o1, H)"
proof (cases "queue o1")
  case (Cons w ws)
  obtain n als where w: "w = (n, als)" by (cases w)
  obtain b a where ins: "InsertCache ok (row_of als n) (adapter o1) = (b, a)" by fastforce
  have "n \<in> set H" using assms Cons w by (simp add: outbox_ok_def)
  moreover have "mirrors (row_of als n) n" by (rule mirrors_row_of) (simp add: same_event_def)
  ultimately have "b \<Longrightarrow> cache_ok a H \<and> tables a = tables (adapter o1)"
    using assms ins cache_ok_insert [of ok "row_of als n" "adapter o1" a H n] InsertCache_result(1) [of ok "row_of als n" "adapter o1" a]
    by simp
  then show ?thesis using assms Cons w ins
    by (cases b) (auto simp: drain_def outbox_ok_def tables_ok_def)
qed (use assms in \<open>simp add: drain_def\<close>)

interpretation inbox: safety inbox_init inbox_step inbox_inv
proof
  show "inbox_inv s" if "inbox_init s" for s
    using that by (cases s) (auto simp: NewAggregator_def NewAdapter_def tables_ok_def cache_ok_def outbox_ok_def numbered_def)
  show "inbox_inv t" if i: "inbox_inv s" and st: "inbox_step s t" for s t
    using st
  proof cases
    case (st_insert c ok n o1 n1 a H)
    with i inv_insert show ?thesis by simp
  next
    case (st_refused c ok n o1 e a H)
    with i show ?thesis by (simp add: Aggregator_Insert_def)
  next
    case (st_drain o1 H ok)
    with i inv_drain show ?thesis by simp
  next
    case (st_register o1 H p x s)
    with i show ?thesis by (simp add: RegisterProject_def tables_ok_def cache_ok_def)
  next
    case (st_ack o1 H c okf cok now now' j)
    with i show ?thesis by (simp add: tables_ok_ack cache_ok_ack)
  next
    case (st_snooze o1 H c okf u j)
    with i show ?thesis by (simp add: tables_ok_snooze cache_ok_snooze)
  next
    case (st_delete o1 H c ok cok p)
    with i show ?thesis by (simp add: tables_ok_delete cache_ok_delete)
  next
    case (st_rebuild o1 H c ok rok mok c' okf)
    with i have "tables_ok (adapter o1) H" "cache_ok (adapter o1) H" "outbox_ok o1 H" by simp_all
    with Rebuild_ok [OF this(1,2), of c ok rok mok c' okf everything] show ?thesis
      unfolding st_rebuild(2) by simp
  qed
qed

text \<open>C15: The inbox keeps projects apart: over any interleaving of inserts, turns of the outbox,
  registrations, acknowledgements, snoozes, deletions and rebuilds, with any failures, a row the cache
  gives for a project is a copy of a notification that was accepted for that project, no notification
  is cached twice, every table has distinct numbers and deduplication keys, and every accepted
  notification was counted once: rejected by a full queue, waiting, drained, or a failed cache write.\<close>

theorem inbox_keeps_projects_apart:
  assumes "reach inbox_init inbox_step (o1, H)"
  shows "(\<forall>r \<in> set (Adapter_Query f (adapter o1)). \<exists>n \<in> set H. mirrors r n \<and> (lf_ProjectID f \<noteq> [] \<longrightarrow> ProjectID n = lf_ProjectID f))
    \<and> distinct (map cache_key (Adapter_Query f (adapter o1)))
    \<and> (\<forall>s. numbered (tables (adapter o1) s))
    \<and> length H = rejected o1 + length (queue o1) + drained o1 + cacheError o1"
proof -
  from inbox.reach_inv [OF assms] have inv: "tables_ok (adapter o1) H" "cache_ok (adapter o1) H" "outbox_ok o1 H" by simp_all
  let ?l = "sort_key (\<lambda>r. - c_CreatedAt r)
     (filter (\<lambda>r. matches f (c_ProjectID r) (c_Severity r) (c_CreatedAt r) (c_AckedAt r \<noteq> None)) (cache (adapter o1)))"
  have q: "r \<in> set (cache (adapter o1)) \<and> (lf_ProjectID f \<noteq> [] \<longrightarrow> c_ProjectID r = lf_ProjectID f)"
    if "r \<in> set (Adapter_Query f (adapter o1))" for r
    using that set_limit [of "lf_Limit f" ?l] by (auto simp: Adapter_Query_def matches_def)
  have "distinct (map cache_key ?l)" using inv(2) by (auto simp: cache_ok_def distinct_map inj_on_def)
  then have "distinct (map cache_key (Adapter_Query f (adapter o1)))"
    by (auto simp: Adapter_Query_def limit_def simp flip: take_map)
  moreover have "\<exists>n \<in> set H. mirrors r n \<and> (lf_ProjectID f \<noteq> [] \<longrightarrow> ProjectID n = lf_ProjectID f)"
    if r: "r \<in> set (Adapter_Query f (adapter o1))" for r
  proof -
    obtain n where "n \<in> set H" "mirrors r n" using q [OF r] inv(2) unfolding cache_ok_def by blast
    with q [OF r] show ?thesis by (auto simp: mirrors_def)
  qed
  ultimately show ?thesis using inv(1,3) by (simp add: tables_ok_def outbox_ok_def)
qed

definition projA :: string where "projA = replicate 64 CHR ''a''"
definition projB :: string where "projB = replicate 64 CHR ''b''"

definition sample :: "string \<Rightarrow> string \<Rightarrow> Notification" where
  "sample p e = \<lparr>n_ID = 0, ProjectID = p, n_Severity = SeverityUrgent, EventType = e, ContentHash = replicate 64 CHR ''0'',
     Payload = ''{}'', CreatedAt = of_unix 600, AckedAt = None, SnoozedUntil = None\<rparr>"

definition unacked :: "string \<Rightarrow> ListFilter" where
  "unacked p = \<lparr>lf_ProjectID = p, lf_Severity = None, lf_Since = None, lf_Limit = 0, IncludeAcked = False\<rparr>"

lemma projA_projB [simp]: "projA \<noteq> projB" "projB \<noteq> projA" "length projA = 64" "length projB = 64" "projA \<noteq> []" "projB \<noteq> []"
  by (simp_all add: projA_def projB_def)

lemma sample_simps [simp]:
  "ProjectID (sample p e) = p" "ValidSeverity (n_Severity (sample p e))" "EventType (sample p e) = e" "CreatedAt (sample p e) = of_unix 600"
  "AckedAt (sample p e) = None" "SnoozedUntil (sample p e) = None" "dedup_key (sample p e) = (e, replicate 64 CHR ''0'', 2)"
  "dedup_key ((sample p e)\<lparr>n_ID := i, CreatedAt := of_unix 600\<rparr>) = (e, replicate 64 CHR ''0'', 2)"
  by (simp_all add: sample_def ValidSeverity_def dedup_key_def DedupBucket_def BucketSeconds_def go_quot_def)

lemmas inbox_run_simps = Adapter_Insert_def Aggregator_Insert_def Enqueue_def drain_def InsertCache_def NewAggregator_def NewAdapter_def
  routeStore_def RegisterProject_def row_of_def cache_key_def Let_def

definition inbox_one :: inbox_state where
  "inbox_one = drain True (snd (Aggregator_Insert False True (sample projA ''alert'') (NewAggregator (NewAdapter 0))))"

theorem inbox_keeps_projects_apart_witness:
  "(\<exists>H. reach inbox_init inbox_step (inbox_one, H) \<and> length H = 1
     \<and> (\<forall>r \<in> set (Adapter_Query (unacked projA) (adapter inbox_one)). \<exists>n \<in> set H. mirrors r n \<and> ProjectID n = projA))
   \<and> map NotificationID (Adapter_Query (unacked projA) (adapter inbox_one)) = [1]
   \<and> Adapter_Query (unacked projB) (adapter inbox_one) = []"
proof -
  obtain a where a: "Adapter_Insert False True (sample projA ''alert'') (adapter (NewAggregator (NewAdapter 0))) =
      (Inr ((sample projA ''alert'')\<lparr>n_ID := 1\<rparr>), a)"
    by (simp add: inbox_run_simps)
  let ?o = "snd (Aggregator_Insert False True (sample projA ''alert'') (NewAggregator (NewAdapter 0)))"
  let ?H = "[(sample projA ''alert'')\<lparr>n_ID := 1\<rparr>]"
  have "reach inbox_init inbox_step (NewAggregator (NewAdapter 0), [])" by (rule reach_init) auto
  moreover have "inbox_step (NewAggregator (NewAdapter 0), []) (?o, ?H)" using st_insert [OF a, of "[]"] by simp
  ultimately have "reach inbox_init inbox_step (?o, ?H)" by (rule reach_step)
  moreover have "inbox_step (?o, ?H) (inbox_one, ?H)" unfolding inbox_one_def by (rule st_drain)
  ultimately have r: "reach inbox_init inbox_step (inbox_one, ?H)" by (rule reach_step)
  moreover have "map NotificationID (Adapter_Query (unacked projA) (adapter inbox_one)) = [1] \<and> Adapter_Query (unacked projB) (adapter inbox_one) = []"
    by (simp add: inbox_one_def inbox_run_simps Adapter_Query_def unacked_def matches_def limit_def)
  ultimately show ?thesis using inbox_keeps_projects_apart [OF r, of "unacked projA"]
    by (intro conjI exI [of _ ?H]) (simp_all add: unacked_def)
qed

subsection \<open>Where projects meet\<close>

text \<open>The daemon registers no project, so all share its table, and the key that must be unique there does not name
  the project: an event of one project suppresses the same event of another.\<close>

lemma other_project_suppresses:
  assumes "Adapter_Insert False True (sample projA e) (NewAdapter d) = (r, a)"
  shows "fst (Adapter_Insert False True (sample projB e) a) = Inl ErrDedupViolation"
    and "Adapter_List False (\<lambda>_. True) (unacked projB) a = Inr []"
  using assms by (auto simp: inbox_run_simps Adapter_List_def queryStoreInbox_def unacked_def matches_def limit_def)

text \<open>Two registered projects with one notification each, both number 1 of their tables.\<close>

definition two_projects :: inbox_state where
  "two_projects = (let o0 = NewAggregator (RegisterProject projB ''b'' 2 (RegisterProject projA ''a'' 1 (NewAdapter 0)));
     ins = (\<lambda>p o1. drain True (snd (Aggregator_Insert False True (sample p ''alert'') o1)))
   in ins projB (ins projA o0))"

text \<open>Acknowledging number 1 takes the first table that has it and marks the cache rows of both projects: the
  other project's notification leaves the cached view although its own table still has it open.\<close>

lemma ack_hides_other_project:
  assumes "Adapter_Ack False (\<lambda>_. True) True t t' 1 (adapter two_projects) = (e, a)"
  shows "e = None" "map NotificationID (Adapter_Query (unacked projB) (adapter two_projects)) = [1]"
    and "Adapter_Query (unacked projB) a = []"
    and "\<exists>n. Adapter_List False (\<lambda>_. True) (unacked projB) a = Inr [n] \<and> AckedAt n = None"
  using assms
  by (auto simp: two_projects_def inbox_run_simps Adapter_Ack_def Adapter_Query_def Adapter_List_def uniqueStores_def
    queryStoreInbox_def unacked_def matches_def limit_def)

text \<open>A project whose first notification went to the daemon's table and the next, after its registration, to
  its own has two with number 1: the cache takes only one of them and no rebuild succeeds again.\<close>

lemma rerouted_project_blocks_rebuild:
  assumes "Adapter_Insert False True (sample projA e) (NewAdapter 0) = (r, a1)"
    and "Adapter_Insert False True (sample projA e') (RegisterProject projA ''a'' 1 a1) = (r', a)"
  shows "\<not> fst (Rebuild c ok rok mok [Adapter_List False (\<lambda>_. True) everything a] a)"
  using assms
  by (auto simp: inbox_run_simps Adapter_List_def uniqueStores_def queryStoreInbox_def everything_def matches_def limit_def Rebuild_def
    split: option.splits if_split_asm)

text \<open>A deletion does not reach the queue: the write that waits there brings the deleted project's row back.\<close>

lemma deleted_project_returns:
  assumes "o1 = snd (Aggregator_Insert False True (sample projA e) (NewAggregator (NewAdapter d)))"
    and "DeleteByProject False True True projA (adapter o1) = (None, a)"
  shows "Adapter_List False (\<lambda>_. True) everything a = Inr []"
    and "map c_ProjectID (cache (adapter (drain True (o1\<lparr>adapter := a\<rparr>)))) = [projA]"
  using assms
  by (auto simp: inbox_run_simps DeleteByProject_def Adapter_List_def uniqueStores_def queryStoreInbox_def limit_def)

text \<open>The same event two seconds apart is stored twice when a bucket ends between.\<close>

lemma bucket_boundary_stores_twice:
  assumes "Adapter_Insert False True ((sample projA e)\<lparr>CreatedAt := of_unix 899\<rparr>) (NewAdapter d) = (r, a)"
  shows "\<exists>n a'. Adapter_Insert False True ((sample projA e)\<lparr>CreatedAt := of_unix 901\<rparr>) a = (Inr n, a')"
  using assms by (auto simp: inbox_run_simps) (simp add: dedup_key_def DedupBucket_def BucketSeconds_def go_quot_def)+

subsection \<open>Batches lose nothing\<close>

datatype batch_op = BatchAdd Notification | BatchTick time

definition waiting :: "BatchManager \<Rightarrow> Notification list" where
  "waiting m = concat (map (\<lambda>(k, b). pending b) m)"

fun batch_run :: "BatchManager \<Rightarrow> batch_op list \<Rightarrow> BatchManager \<times> Notification list" where
  "batch_run m [] = (m, [])"
| "batch_run m (BatchAdd n # ops) = batch_run (BM_Add n m) ops"
| "batch_run m (BatchTick now # ops) =
     (let (batch, m1) = BM_Tick now m; (m2, out) = batch_run m1 ops in (m2, batch @ out))"

fun added :: "batch_op list \<Rightarrow> Notification list" where
  "added [] = []"
| "added (BatchAdd n # ops) = n # added ops"
| "added (BatchTick now # ops) = added ops"

definition batcher_ok :: "string \<times> Severity \<Rightarrow> Batcher \<Rightarrow> bool" where
  "batcher_ok k b \<longleftrightarrow> window b = DefaultBatchWindow (snd k) \<and> (\<forall>n \<in> set (pending b). (ProjectID n, n_Severity n) = k)
     \<and> (pending b \<noteq> [] \<longrightarrow> firstAddAt b = CreatedAt (hd (pending b)) \<and> lastAddAt b = CreatedAt (last (pending b)))"

definition batches_ok :: "BatchManager \<Rightarrow> bool" where
  "batches_ok m \<longleftrightarrow> list_all (\<lambda>(k, b). batcher_ok k b) m"

lemma Batcher_Add_ok:
  "batcher_ok k b \<Longrightarrow> (ProjectID n, n_Severity n) = k \<Longrightarrow> batcher_ok k (Batcher_Add n b)"
  by (simp add: batcher_ok_def Batcher_Add_def Let_def)

lemma pending_Add [simp]: "pending (Batcher_Add n b) = pending b @ [n]"
  by (simp add: Batcher_Add_def Let_def)

lemma NewBatcher_ok: "batcher_ok (p, s) (NewBatcher s)" "pending (NewBatcher s) = []"
  by (simp_all add: batcher_ok_def NewBatcher_def)

lemma ReadyToEmit_parts: "fst (ReadyToEmit now b) @ pending (snd (ReadyToEmit now b)) = pending b"
  by (simp add: ReadyToEmit_def Let_def)

lemma ReadyToEmit_ok: "batcher_ok k b \<Longrightarrow> batcher_ok k (snd (ReadyToEmit now b))"
  by (simp add: ReadyToEmit_def Let_def batcher_ok_def)

lemma update_batches_ok: "batches_ok m \<Longrightarrow> batcher_ok k b \<Longrightarrow> batches_ok (AList.update k b m)"
  by (induction m) (auto simp: batches_ok_def)

lemma map_of_batches_ok: "batches_ok m \<Longrightarrow> map_of m k = Some b \<Longrightarrow> batcher_ok k b"
  by (auto simp: batches_ok_def list_all_iff dest!: map_of_SomeD)

lemma BM_Add_ok: "batches_ok m \<Longrightarrow> batches_ok (BM_Add n m)"
  unfolding BM_Add_def Let_def
  by (rule update_batches_ok, assumption, rule Batcher_Add_ok)
    (simp_all add: NewBatcher_ok map_of_batches_ok split: option.split)

lemma waiting_update:
  "mset (waiting (AList.update k (Batcher_Add n (case map_of m k of Some b \<Rightarrow> b | None \<Rightarrow> NewBatcher s)) m)) =
     add_mset n (mset (waiting m))"
  by (induction m) (auto simp: waiting_def NewBatcher_ok split: prod.splits)

lemma waiting_Add: "mset (waiting (BM_Add n m)) = add_mset n (mset (waiting m))"
  by (simp add: BM_Add_def Let_def waiting_update)

lemma BM_Tick_ok: "batches_ok m \<Longrightarrow> batches_ok (snd (BM_Tick now m))"
  by (auto simp: BM_Tick_def batches_ok_def list_all_iff ReadyToEmit_ok)

lemma waiting_Tick: "mset (fst (BM_Tick now m)) + mset (waiting (snd (BM_Tick now m))) = mset (waiting m)"
proof (induction m)
  case (Cons x m)
  obtain k b where x: "x = (k, b)" by (cases x)
  have "mset (fst (ReadyToEmit now b)) + mset (pending (snd (ReadyToEmit now b))) = mset (pending b)"
    using ReadyToEmit_parts [of now b] by (metis mset_append)
  with Cons show ?case by (simp add: BM_Tick_def waiting_def x comp_def case_prod_beta add_ac)
qed (simp add: BM_Tick_def waiting_def)

lemma batch_run_ok:
  assumes "batches_ok m" "batch_run m ops = (m', out)"
  shows "batches_ok m' \<and> mset out + mset (waiting m') = mset (waiting m) + mset (added ops)"
  using assms
proof (induction m ops arbitrary: out rule: batch_run.induct)
  case (2 m n ops)
  then show ?case by (simp add: BM_Add_ok waiting_Add)
next
  case (3 m now ops)
  obtain batch m1 where t: "BM_Tick now m = (batch, m1)" by fastforce
  obtain m2 out' where u: "batch_run m1 ops = (m2, out')" by fastforce
  have "batches_ok m1" "mset batch + mset (waiting m1) = mset (waiting m)"
    using BM_Tick_ok [OF "3.prems"(1), of now] waiting_Tick [of now m] t by simp_all
  moreover have "m2 = m'" "out = batch @ out'" using "3.prems"(2) t u by simp_all
  ultimately show ?case using "3.IH" [OF t [symmetric] refl, of out'] u
    by (simp add: ac_simps)
qed simp

lemma Tick_leaves_young:
  assumes "batches_ok m" "(k, b) \<in> set (snd (BM_Tick now m))" "pending b \<noteq> []"
  shows "snd k \<in> {SeverityActionNeeded, SeverityInfoDigest} \<and> length (pending b) < MaxCount (DefaultBatchWindow (snd k))
    \<and> now - CreatedAt (hd (pending b)) < MaxWait (DefaultBatchWindow (snd k))
    \<and> now - CreatedAt (last (pending b)) < Idle (DefaultBatchWindow (snd k))"
proof -
  obtain b0 where b0: "(k, b0) \<in> set m" "b = snd (ReadyToEmit now b0)" using assms(2) by (auto simp: BM_Tick_def)
  have ok: "batcher_ok k b0" using assms(1) b0(1) by (auto simp: batches_ok_def list_all_iff)
  have b: "b = b0" "Idle (window b) \<noteq> 0" "tsub now (lastAddAt b) < Idle (window b)" "length (pending b) < MaxCount (window b)"
    "\<not> (MaxWait (window b) > 0 \<and> tsub now (firstAddAt b) \<ge> MaxWait (window b))"
    using assms(3) b0(2) by (auto simp: ReadyToEmit_def Let_def split: if_splits)
  have w: "window b = DefaultBatchWindow (snd k)" "firstAddAt b = CreatedAt (hd (pending b))" "lastAddAt b = CreatedAt (last (pending b))"
    using ok assms(3) b(1) by (simp_all add: batcher_ok_def)
  consider "snd k = SeverityActionNeeded" | "snd k = SeverityInfoDigest" | "Idle (DefaultBatchWindow (snd k)) = 0"
    unfolding DefaultBatchWindow_def by fastforce
  then show ?thesis
    using b(2-5) by cases (simp_all add: w DefaultBatchWindow_def severity_defs tsub_def not_le min_less_iff_disj)
qed

text \<open>C31: Batches lose nothing and hold nothing back: over any sequence of additions and ticks, what was
  emitted and what still waits is together what was added, each notification as often as it was added; and
  a tick leaves only action-needed and info-digest notifications waiting, in the batch of their project
  and severity, which is not full, whose first is younger than the maximal wait and whose last is
  younger than the idle time.\<close>

theorem batches_lose_nothing:
  assumes "batch_run [] ops = (m, out)"
  shows "mset out + mset (waiting m) = mset (added ops) \<and> BM_Pending m + length out = length (added ops)
    \<and> (\<forall>(k, b) \<in> set (snd (BM_Tick now m)). \<forall>n \<in> set (pending b). k = (ProjectID n, n_Severity n)
        \<and> n_Severity n \<in> {SeverityActionNeeded, SeverityInfoDigest}
        \<and> length (pending b) < MaxCount (DefaultBatchWindow (n_Severity n))
        \<and> now - CreatedAt (hd (pending b)) < MaxWait (DefaultBatchWindow (n_Severity n))
        \<and> now - CreatedAt (last (pending b)) < Idle (DefaultBatchWindow (n_Severity n)))"
proof -
  from batch_run_ok [OF _ assms] have ok: "batches_ok m" and ms: "mset out + mset (waiting m) = mset (added ops)"
    by (simp_all add: batches_ok_def waiting_def)
  have "BM_Pending m = length (waiting m)"
    by (induction m) (auto simp: BM_Pending_def waiting_def)
  with arg_cong [OF ms, of size] have n: "BM_Pending m + length out = length (added ops)" by simp
  have "k = (ProjectID n, n_Severity n)" if "(k, b) \<in> set (snd (BM_Tick now m))" "n \<in> set (pending b)" for k b n
    using BM_Tick_ok [OF ok, of now] that unfolding batches_ok_def list_all_iff batcher_ok_def by fast
  then show ?thesis using ms n Tick_leaves_young [OF ok, of _ _ now] by fastforce
qed

definition demo_batch_ops :: "batch_op list" where
  "demo_batch_ops = [BatchAdd (sample projA ''alert''), BatchAdd ((sample projA ''fix'')\<lparr>n_Severity := SeverityActionNeeded\<rparr>),
     BatchTick (of_unix 610)]"

theorem batches_lose_nothing_witness:
  "map EventType (snd (batch_run [] demo_batch_ops)) = [''alert''] \<and> BM_Pending (fst (batch_run [] demo_batch_ops)) = 1
   \<and> BM_Pending (fst (batch_run [] demo_batch_ops)) + length (snd (batch_run [] demo_batch_ops)) = length (added demo_batch_ops)"
  using batches_lose_nothing [OF prod.collapse [symmetric], of demo_batch_ops]
  by (simp add: demo_batch_ops_def BM_Add_def BM_Tick_def BM_Pending_def NewBatcher_def DefaultBatchWindow_def Batcher_Add_def
    ReadyToEmit_def sample_def severity_defs tsub_def of_unix_def Let_def)

subsection \<open>Collapse counts projects\<close>

definition in_window :: "CollapseRule \<Rightarrow> time \<Rightarrow> Notification \<Rightarrow> bool" where
  "in_window rule now e \<longleftrightarrow> EventType e = cr_EventType rule \<and> now - cr_Window rule \<le> CreatedAt e \<and> CreatedAt e \<le> now"

text \<open>What the map of projects says of the events read so far.\<close>

definition worst_of :: "Notification list \<Rightarrow> string \<Rightarrow> Severity option \<Rightarrow> bool" where
  "worst_of es p v = (case v of
     None \<Rightarrow> \<forall>e \<in> set es. ProjectID e \<noteq> p
   | Some s \<Rightarrow> (\<exists>e \<in> set es. ProjectID e = p \<and> n_Severity e = s)
       \<and> (\<forall>e \<in> set es. ProjectID e = p \<longrightarrow> severityRank (n_Severity e) \<le> severityRank s))"

definition collapsed :: "Notification list \<Rightarrow> (string \<times> Severity) list \<Rightarrow> bool" where
  "collapsed es P \<longleftrightarrow> distinct (map fst P) \<and> (\<forall>p. worst_of es p (map_of P p))"

lemma worst_of_other: "ProjectID e \<noteq> p \<Longrightarrow> worst_of es p v \<Longrightarrow> worst_of (es @ [e]) p v"
  by (auto simp: worst_of_def split: option.splits)

lemma worst_of_new: "worst_of es p None \<Longrightarrow> ProjectID e = p \<Longrightarrow> worst_of (es @ [e]) p (Some (n_Severity e))"
  by (auto simp: worst_of_def)

lemma worst_of_old:
  "worst_of es p (Some s) \<Longrightarrow> ProjectID e = p \<Longrightarrow>
   worst_of (es @ [e]) p (Some (if severityRank (n_Severity e) > severityRank s then n_Severity e else s))"
  by (fastforce simp: worst_of_def)

lemma collapsed_add:
  assumes "collapsed es P"
  shows "collapsed (es @ filter (in_window rule now) [e]) (collapse_add rule now e P)"
proof (cases "in_window rule now e")
  case True
  from assms have P: "distinct (map fst P)" "\<And>p. worst_of es p (map_of P p)" by (simp_all add: collapsed_def)
  have u: "collapsed (es @ [e]) Q" if "distinct (map fst Q)" "\<And>p. p \<noteq> ProjectID e \<Longrightarrow> map_of Q p = map_of P p"
    "worst_of (es @ [e]) (ProjectID e) (map_of Q (ProjectID e))" for Q
    unfolding collapsed_def using that P(2) by (metis worst_of_other)
  show ?thesis
  proof (cases "map_of P (ProjectID e)")
    case None
    with P(2) [of "ProjectID e"] have "worst_of (es @ [e]) (ProjectID e) (Some (n_Severity e))" by (simp add: worst_of_new)
    with True None P(1) show ?thesis
      by (auto simp: collapse_add_def in_window_def update_conv' distinct_update intro!: u)
  next
    case (Some prev)
    with P(2) [of "ProjectID e"] have "worst_of (es @ [e]) (ProjectID e)
      (Some (if severityRank (n_Severity e) > severityRank prev then n_Severity e else prev))" by (simp add: worst_of_old)
    with True Some P(1) show ?thesis
      by (auto simp: collapse_add_def in_window_def update_conv' distinct_update intro!: u split: if_splits)
  qed
qed (use assms in \<open>auto simp: collapse_add_def in_window_def\<close>)

lemma collapsed_fold: "collapsed es P \<Longrightarrow> collapsed (es @ filter (in_window rule now) ns) (fold (collapse_add rule now) ns P)"
proof (induction ns arbitrary: es P)
  case (Cons e ns)
  from Cons.IH [OF collapsed_add [OF Cons.prems, of rule now e]] show ?case by (cases "in_window rule now e") simp_all
qed simp

lemma collapsed_keys: "collapsed es P \<Longrightarrow> set (map fst P) = ProjectID ` set es"
  unfolding collapsed_def worst_of_def
  by (auto simp: map_of_eq_None_iff split: option.splits) (metis (no_types) image_eqI map_of_eq_None_iff option.exhaust fst_conv)+

lemma max_severity_from:
  "r = int (severityRank m) \<Longrightarrow> max_severity r m ss \<in> set (m # ss)
     \<and> (\<forall>s \<in> set (m # ss). severityRank s \<le> severityRank (max_severity r m ss))"
proof (induction ss arbitrary: r m)
  case (Cons a ss)
  show ?case
  proof (cases "int (severityRank a) > r")
    case True
    with Cons.IH [OF refl, of a] Cons.prems show ?thesis by auto
  next
    case False
    with Cons.IH [OF Cons.prems] Cons.prems show ?thesis by auto
  qed
qed simp

lemma max_severity_max:
  "ss \<noteq> [] \<Longrightarrow> max_severity (- 1) [] ss \<in> set ss \<and> (\<forall>s \<in> set ss. severityRank s \<le> severityRank (max_severity (- 1) [] ss))"
  using max_severity_from [OF refl] by (cases ss) auto

text \<open>\<open>DetectCollapse\<close> raises an alert exactly when the event occurred in enough projects within the window; the
  alert names those projects in order, once each, and has the highest severity among the events.\<close>

lemma DetectCollapse_decides:
  assumes "MinProjects rule \<ge> 1"
  shows "case DetectCollapse events rule now of
     None \<Rightarrow> int (card (ProjectID ` set (filter (in_window rule now) events))) < MinProjects rule
   | Some al \<Rightarrow> int (length (ProjectIDs al)) \<ge> MinProjects rule \<and> sorted (ProjectIDs al) \<and> distinct (ProjectIDs al)
       \<and> set (ProjectIDs al) = ProjectID ` set (filter (in_window rule now) events)
       \<and> sa_Severity al \<in> n_Severity ` set (filter (in_window rule now) events)
       \<and> (\<forall>e \<in> set (filter (in_window rule now) events). severityRank (n_Severity e) \<le> severityRank (sa_Severity al))"
proof -
  let ?P = "fold (collapse_add rule now) events []" and ?es = "filter (in_window rule now) events"
  have c: "collapsed ?es ?P" using collapsed_fold [of "[]" "[]" rule now events] by (simp add: collapsed_def worst_of_def)
  then have d: "distinct (map fst ?P)" "set (map fst ?P) = ProjectID ` set ?es" by (simp add: collapsed_def) (rule collapsed_keys [OF c])
  then have n: "length ?P = card (ProjectID ` set ?es)" by (metis distinct_card length_map)
  have in_es: "s \<in> n_Severity ` set ?es" if "(p, s) \<in> set ?P" for p s
  proof -
    have "map_of ?P p = Some s" using d(1) that by simp
    with c have "worst_of ?es p (Some s)" unfolding collapsed_def by metis
    then show ?thesis unfolding worst_of_def by auto
  qed
  show ?thesis
  proof (cases "int (length ?P) < MinProjects rule")
    case False
    let ?m = "max_severity (- 1) [] (map snd ?P)"
    have "map snd ?P \<noteq> []" using False assms by auto
    note m = max_severity_max [OF this]
    have up: "severityRank (n_Severity e) \<le> severityRank ?m" if e: "e \<in> set ?es" for e
    proof -
      have "ProjectID e \<in> set (map fst ?P)" unfolding d(2) using e by (rule imageI)
      then obtain s where s: "map_of ?P (ProjectID e) = Some s" by (auto simp: map_of_eq_None_iff dest: weak_map_of_SomeI)
      have "worst_of ?es (ProjectID e) (map_of ?P (ProjectID e))" using c unfolding collapsed_def by blast
      then have "severityRank (n_Severity e) \<le> severityRank s" unfolding s worst_of_def using e by simp
      also have "\<dots> \<le> severityRank ?m" 
      proof -
        have "s \<in> set (map snd ?P)" using map_of_SomeD [OF s] by force
        with m show ?thesis by blast
      qed
      finally show ?thesis .
    qed
    have "?m \<in> snd ` set ?P" using m by simp
    then have "?m \<in> n_Severity ` set ?es" using in_es by auto
    with False d n up show ?thesis by (simp add: DetectCollapse_def Let_def)
  qed (use n in \<open>simp add: DetectCollapse_def Let_def\<close>)
qed

subsection \<open>Quiet hours\<close>

text \<open>An urgent notification of a project that lets urgent ones through is held back only by the operator's
  pause, and another only by the quiet hours of its own project.\<close>

lemma ShouldEmit_cases:
  assumes "hours = (case map_of (PerProject cfg) (ProjectID n) of Some h \<Rightarrow> h | None \<Rightarrow> qc_Default cfg)"
  shows "n_Severity n = SeverityUrgent \<Longrightarrow> UrgentBypass hours \<Longrightarrow> ShouldEmit n cfg now \<or> (\<exists>u. UrgentPauseUntil cfg = Some u \<and> instant now < u)"
    and "n_Severity n \<noteq> SeverityUrgent \<or> \<not> UrgentBypass hours \<Longrightarrow> ShouldEmit n cfg now = (\<not> InQuietHours hours now)"
  using assms by (auto simp: ShouldEmit_def Let_def split: option.splits)

text \<open>A window that wraps midnight and one that does not are complementary: with start and end swapped,
  exactly one of the two holds at any time of a weekday.\<close>

lemma quiet_hours_complement:
  assumes "qh_Start h \<noteq> qh_End h" "\<not> WeekendExtended h"
  shows "InQuietHours (h\<lparr>qh_Start := qh_End h, qh_End := qh_Start h\<rparr>) now = (\<not> InQuietHours h now)"
  using assms by (auto simp: InQuietHours_def Let_def)

end
