(* ===== verification/Workforce.thy ===== *)
theory Workforce
  imports Hades_Prelude "HOL-Library.Product_Lexorder"
begin

text \<open>
  The durable queues of the workforce (\<open>workforce/queue\<close>, \<open>daemon/workforceadapter\<close>): the shared task list
  with its board of states, the checkpoint queue and the queue of fix prompts, each unscoped and scoped
  to a project, and the calls by which a worker and a team lead take and finish tasks
  (\<open>workforce/worker\<close>).

  A table is the list of its rows in the order of their numbers, with the columns as the database has
  them (status texts, seconds). A transaction is one step: SQLite serialises writers, and a
  transaction that read before another one wrote fails at its own write. Whether its statements succeed
  is an argument.
\<close>

subsection \<open>The board (shared\_task\_list.go)\<close>

type_synonym Status = int

definition StatusPending :: Status where "StatusPending = 1"
definition StatusInProgress :: Status where "StatusInProgress = 2"
definition StatusReview :: Status where "StatusReview = 3"
definition StatusDone :: Status where "StatusDone = 4"
definition StatusFailed :: Status where "StatusFailed = 5"

lemmas status_defs = StatusPending_def StatusInProgress_def StatusReview_def StatusDone_def StatusFailed_def

definition Status_String :: "Status \<Rightarrow> string" where
  "Status_String s =
     (if s = StatusPending then ''pending'' else if s = StatusInProgress then ''in_progress''
      else if s = StatusReview then ''review'' else if s = StatusDone then ''done''
      else if s = StatusFailed then ''failed'' else ''unknown_status('' @ dec_int s @ '')'')"

definition ParseStatus :: "string \<Rightarrow> Status option" where
  "ParseStatus s =
     (if s = ''pending'' then Some StatusPending else if s = ''in_progress'' then Some StatusInProgress
      else if s = ''review'' then Some StatusReview else if s = ''done'' then Some StatusDone
      else if s = ''failed'' then Some StatusFailed else None)"

definition IsValidTransition :: "Status \<Rightarrow> Status \<Rightarrow> bool" where
  "IsValidTransition cur new \<longleftrightarrow>
     (if cur = StatusPending then new = StatusInProgress \<or> new = StatusFailed
      else if cur = StatusInProgress then new = StatusReview \<or> new = StatusFailed
      else if cur = StatusReview then new = StatusDone \<or> new = StatusFailed \<or> new = StatusInProgress
      else False)"

datatype wf_err = ErrTaskNotFound | ErrTaskNotPending | ErrDuplicateTask | ErrInvalidTransition | ErrProjectIDMismatch
  | BadStatus | StatementFault

record TaskRow =
  TaskID :: string
  ProjectID :: string
  Title :: string
  Description :: string
  tr_Status :: Status
  ThreadID :: string
  Priority :: int
  ErrorDetail :: string
  CreatedAt :: time
  UpdatedAt :: time

text \<open>A row of \<open>workforce_tasks\<close>. Its status is one of the five texts, and project and task are a unique key.\<close>

record task_rec =
  k_task :: string
  k_project :: string
  k_title :: string
  k_description :: string
  k_status :: string
  k_thread :: string
  k_priority :: int
  k_error :: string
  k_created :: int
  k_updated :: int

type_synonym board = "task_rec list"

definition known_status :: "string \<Rightarrow> bool" where
  "known_status s \<longleftrightarrow> s \<in> {''pending'', ''in_progress'', ''review'', ''done'', ''failed''}"

definition task_key :: "task_rec \<Rightarrow> string \<times> string" where
  "task_key r = (k_project r, k_task r)"

subsection \<open>The task list (queue\_adapter.go)\<close>

definition scan_task :: "task_rec \<Rightarrow> TaskRow option" where
  "scan_task r = map_option (\<lambda>st. \<lparr>TaskID = k_task r, ProjectID = k_project r, Title = k_title r, Description = k_description r,
     tr_Status = st, ThreadID = k_thread r, Priority = k_priority r, ErrorDetail = k_error r,
     CreatedAt = of_unix (k_created r), UpdatedAt = of_unix (k_updated r)\<rparr>) (ParseStatus (k_status r))"

fun scanTaskRows :: "task_rec list \<Rightarrow> wf_err + TaskRow list" where
  "scanTaskRows [] = Inr []"
| "scanTaskRows (r # rs) = (case scan_task r of None \<Rightarrow> Inl BadStatus | Some t \<Rightarrow> map_sum id ((#) t) (scanTaskRows rs))"

text \<open>\<open>Enqueue\<close>; \<open>now\<close> and \<open>now'\<close> are its two readings of the clock.\<close>

definition task_values :: "time \<Rightarrow> time \<Rightarrow> TaskRow \<Rightarrow> task_rec" where
  "task_values now now' row = \<lparr>k_task = TaskID row, k_project = ProjectID row, k_title = Title row, k_description = Description row,
     k_status = Status_String (tr_Status row), k_thread = ThreadID row, k_priority = Priority row, k_error = ErrorDetail row,
     k_created = unix_sec (if CreatedAt row = 0 then now' else CreatedAt row), k_updated = unix_sec now\<rparr>"

definition Enqueue :: "bool \<Rightarrow> time \<Rightarrow> time \<Rightarrow> TaskRow \<Rightarrow> board \<Rightarrow> wf_err option \<times> board" where
  "Enqueue ok now now' row b =
     (let r = task_values now now' row in
      if \<not> known_status (k_status r) then (Some StatementFault, b)
      else if task_key r \<in> task_key ` set b then (Some ErrDuplicateTask, b)
      else if \<not> ok then (Some StatementFault, b)
      else (None, b @ [r]))"

text \<open>\<open>Claim\<close> and \<open>Advance\<close> read the status of the first row their \<open>WHERE\<close> clause selects and update every row it
  selects; \<open>read_ok\<close> covers the begin and the query, \<open>write_ok\<close> the update and the commit.\<close>

definition claim_where :: "(task_rec \<Rightarrow> bool) \<Rightarrow> bool \<Rightarrow> bool \<Rightarrow> string \<Rightarrow> time \<Rightarrow> board \<Rightarrow> wf_err option \<times> board" where
  "claim_where sel read_ok write_ok threadID now b =
     (if \<not> read_ok then (Some StatementFault, b)
      else case List.find sel b of
        None \<Rightarrow> (Some ErrTaskNotFound, b)
      | Some r \<Rightarrow>
          (case ParseStatus (k_status r) of
             None \<Rightarrow> (Some BadStatus, b)
           | Some st \<Rightarrow>
               if st \<noteq> StatusPending then (Some ErrTaskNotPending, b)
               else if \<not> write_ok then (Some StatementFault, b)
               else (None, map (\<lambda>x. if sel x then x\<lparr>k_status := ''in_progress'', k_thread := threadID, k_updated := unix_sec now\<rparr> else x) b)))"

definition advance_where :: "(task_rec \<Rightarrow> bool) \<Rightarrow> bool \<Rightarrow> bool \<Rightarrow> Status \<Rightarrow> time \<Rightarrow> board \<Rightarrow> wf_err option \<times> board" where
  "advance_where sel read_ok write_ok newStatus now b =
     (if \<not> read_ok then (Some StatementFault, b)
      else case List.find sel b of
        None \<Rightarrow> (Some ErrTaskNotFound, b)
      | Some r \<Rightarrow>
          (case ParseStatus (k_status r) of
             None \<Rightarrow> (Some BadStatus, b)
           | Some cur \<Rightarrow>
               if \<not> IsValidTransition cur newStatus then (Some ErrInvalidTransition, b)
               else if \<not> write_ok then (Some StatementFault, b)
               else (None, map (\<lambda>x. if sel x then x\<lparr>k_status := Status_String newStatus, k_updated := unix_sec now\<rparr> else x) b)))"

definition get_where :: "(task_rec \<Rightarrow> bool) \<Rightarrow> bool \<Rightarrow> board \<Rightarrow> wf_err + TaskRow" where
  "get_where sel ok b =
     (if \<not> ok then Inl StatementFault
      else case List.find sel b of
        None \<Rightarrow> Inl ErrTaskNotFound
      | Some r \<Rightarrow> (case scan_task r of None \<Rightarrow> Inl BadStatus | Some t \<Rightarrow> Inr t))"

definition Claim :: "string \<Rightarrow> bool \<Rightarrow> bool \<Rightarrow> string \<Rightarrow> time \<Rightarrow> board \<Rightarrow> wf_err option \<times> board" where
  "Claim taskID = claim_where (\<lambda>r. k_task r = taskID)"

definition Advance :: "string \<Rightarrow> bool \<Rightarrow> bool \<Rightarrow> Status \<Rightarrow> time \<Rightarrow> board \<Rightarrow> wf_err option \<times> board" where
  "Advance taskID = advance_where (\<lambda>r. k_task r = taskID)"

definition Get :: "string \<Rightarrow> bool \<Rightarrow> board \<Rightarrow> wf_err + TaskRow" where
  "Get taskID = get_where (\<lambda>r. k_task r = taskID)"

definition ListByStatus :: "bool \<Rightarrow> string \<Rightarrow> Status \<Rightarrow> board \<Rightarrow> wf_err + TaskRow list" where
  "ListByStatus ok projectID status b =
     (if \<not> ok then Inl StatementFault
      else scanTaskRows (sort_key (\<lambda>r. (k_priority r, k_created r))
        (filter (\<lambda>r. k_project r = projectID \<and> k_status r = Status_String status) b)))"

definition ByThread :: "bool \<Rightarrow> string \<Rightarrow> board \<Rightarrow> wf_err + TaskRow list" where
  "ByThread ok threadID b =
     (if \<not> ok then Inl StatementFault else scanTaskRows (sort_key k_created (filter (\<lambda>r. k_thread r = threadID) b)))"

subsection \<open>The task list of one project (scoped.go)\<close>

definition Scoped_Enqueue :: "string \<Rightarrow> bool \<Rightarrow> time \<Rightarrow> time \<Rightarrow> TaskRow \<Rightarrow> board \<Rightarrow> wf_err option \<times> board" where
  "Scoped_Enqueue p ok now now' row b =
     (if ProjectID row = [] then Enqueue ok now now' (row\<lparr>ProjectID := p\<rparr>) b
      else if ProjectID row \<noteq> p then (Some ErrProjectIDMismatch, b)
      else Enqueue ok now now' row b)"

definition in_scope :: "string \<Rightarrow> string \<Rightarrow> task_rec \<Rightarrow> bool" where
  "in_scope p taskID r \<longleftrightarrow> k_project r = p \<and> k_task r = taskID"

definition Scoped_Claim :: "string \<Rightarrow> string \<Rightarrow> bool \<Rightarrow> bool \<Rightarrow> string \<Rightarrow> time \<Rightarrow> board \<Rightarrow> wf_err option \<times> board" where
  "Scoped_Claim p taskID = claim_where (in_scope p taskID)"

definition Scoped_Advance :: "string \<Rightarrow> string \<Rightarrow> bool \<Rightarrow> bool \<Rightarrow> Status \<Rightarrow> time \<Rightarrow> board \<Rightarrow> wf_err option \<times> board" where
  "Scoped_Advance p taskID = advance_where (in_scope p taskID)"

definition Scoped_Get :: "string \<Rightarrow> string \<Rightarrow> bool \<Rightarrow> board \<Rightarrow> wf_err + TaskRow" where
  "Scoped_Get p taskID = get_where (in_scope p taskID)"

definition Scoped_ListByStatus :: "string \<Rightarrow> bool \<Rightarrow> string \<Rightarrow> Status \<Rightarrow> board \<Rightarrow> wf_err + TaskRow list" where
  "Scoped_ListByStatus p ok projectID status b =
     (if projectID \<noteq> [] \<and> projectID \<noteq> p then Inr [] else ListByStatus ok p status b)"

definition Scoped_ByThread :: "string \<Rightarrow> bool \<Rightarrow> string \<Rightarrow> board \<Rightarrow> wf_err + TaskRow list" where
  "Scoped_ByThread p ok threadID b =
     (if \<not> ok then Inl StatementFault
      else scanTaskRows (sort_key k_created (filter (\<lambda>r. k_project r = p \<and> k_thread r = threadID) b)))"

subsection \<open>Workers and team leads take tasks (openclaude\_worker.go, teamlead.go)\<close>

datatype worker_err = WorkerTaskNotFound | ErrTaskAlreadyClaimed | WorkerFault

definition worker_err_of :: "wf_err \<Rightarrow> worker_err" where
  "worker_err_of e = (case e of ErrTaskNotFound \<Rightarrow> WorkerTaskNotFound | ErrTaskNotPending \<Rightarrow> ErrTaskAlreadyClaimed | _ \<Rightarrow> WorkerFault)"

text \<open>The outcomes of the calls: the \<open>k\<close>-th call reads if \<open>reads k\<close> and writes if \<open>writes k\<close>, and between two calls
  the others make \<open>mid k\<close> of the board.\<close>

record calls =
  reads :: "nat \<Rightarrow> bool"
  writes :: "nat \<Rightarrow> bool"
  mid :: "nat \<Rightarrow> board \<Rightarrow> board"
  clock :: "nat \<Rightarrow> time"

definition claimTask :: "calls \<Rightarrow> string \<Rightarrow> string \<Rightarrow> string \<Rightarrow> board \<Rightarrow> worker_err option \<times> board" where
  "claimTask c p taskID thread b =
     (case Scoped_Get p taskID (reads c 0) b of
        Inl ErrTaskNotFound \<Rightarrow> (Some WorkerTaskNotFound, b)
      | Inl e \<Rightarrow> (Some WorkerFault, b)
      | Inr row \<Rightarrow>
          if tr_Status row = StatusInProgress \<and> ThreadID row \<noteq> thread then (Some ErrTaskAlreadyClaimed, b)
          else if tr_Status row = StatusInProgress \<and> ThreadID row = thread then (None, b)
          else case Scoped_Claim p taskID (reads c 1) (writes c 1) thread (clock c 1) (mid c 1 b) of
            (Some e, b1) \<Rightarrow> (Some (worker_err_of e), b1)
          | (None, b1) \<Rightarrow> (None, b1))"

definition markFailed :: "calls \<Rightarrow> string \<Rightarrow> string \<Rightarrow> board \<Rightarrow> board" where
  "markFailed c p taskID b = snd (Scoped_Advance p taskID (reads c 0) (writes c 0) StatusFailed (clock c 0) b)"

definition finalizeTask :: "calls \<Rightarrow> string \<Rightarrow> string \<Rightarrow> bool \<Rightarrow> bool \<Rightarrow> board \<Rightarrow> wf_err option \<times> board" where
  "finalizeTask c p taskID run_ok success b =
     (if run_ok \<and> success then Scoped_Advance p taskID (reads c 0) (writes c 0) StatusReview (clock c 0) b
      else (None, markFailed c p taskID b))"

definition claimParent :: "calls \<Rightarrow> string \<Rightarrow> string \<Rightarrow> string \<Rightarrow> board \<Rightarrow> worker_err option \<times> board" where
  "claimParent c p parentID thread b =
     (case Scoped_Get p parentID (reads c 0) b of
        Inl ErrTaskNotFound \<Rightarrow> (Some WorkerTaskNotFound, b)
      | Inl e \<Rightarrow> (Some WorkerFault, b)
      | Inr row \<Rightarrow>
          if tr_Status row = StatusInProgress then (None, b)
          else case Scoped_Claim p parentID (reads c 1) (writes c 1) thread (clock c 1) (mid c 1 b) of
            (Some e, b1) \<Rightarrow> (Some (worker_err_of e), b1)
          | (None, b1) \<Rightarrow> (None, b1))"

definition finalizeParent :: "calls \<Rightarrow> string \<Rightarrow> string \<Rightarrow> string \<Rightarrow> bool \<Rightarrow> board \<Rightarrow> board" where
  "finalizeParent c p parentID thread success b =
     (case Scoped_Get p parentID (reads c 0) b of
        Inl _ \<Rightarrow> b
      | Inr row \<Rightarrow>
          let target = (if success then StatusReview else StatusFailed);
              (st, b1) = (if tr_Status row = StatusPending then
                let b' = mid c 2 (snd (Scoped_Claim p parentID (reads c 1) (writes c 1) thread (clock c 1) (mid c 1 b)))
                in ((case Scoped_Get p parentID (reads c 2) b' of Inl _ \<Rightarrow> 0 | Inr row2 \<Rightarrow> tr_Status row2), b')
               else (tr_Status row, b))
          in if st = StatusInProgress then snd (Scoped_Advance p parentID (reads c 3) (writes c 3) target (clock c 3) (mid c 3 b1)) else b1)"

definition markParentFailed :: "calls \<Rightarrow> string \<Rightarrow> string \<Rightarrow> board \<Rightarrow> board" where
  "markParentFailed c p parentID b =
     (case Scoped_Get p parentID (reads c 0) b of
        Inl _ \<Rightarrow> b
      | Inr row \<Rightarrow>
          if tr_Status row = StatusPending \<or> tr_Status row = StatusInProgress
            then snd (Scoped_Advance p parentID (reads c 1) (writes c 1) StatusFailed (clock c 1) (mid c 1 b))
          else b)"

subsection \<open>Moves of the board\<close>

inductive board_move :: "board \<Rightarrow> board \<Rightarrow> bool" where
  mv_enqueue: "board_move b (snd (Scoped_Enqueue p ok now now' row b))"
| mv_claim: "board_move b (snd (Scoped_Claim p t r w x now b))"
| mv_advance: "board_move b (snd (Scoped_Advance p t r w st now b))"

definition board_ok :: "board \<Rightarrow> bool" where
  "board_ok b \<longleftrightarrow> distinct (map task_key b) \<and> (\<forall>r \<in> set b. known_status (k_status r))"

text \<open>Every move either adds a row with a new key or updates the rows of one key, whose first it found.\<close>

lemma Enqueue_cases:
  "snd (Enqueue ok now now' row b) = b
   \<or> (\<exists>r. snd (Enqueue ok now now' row b) = b @ [r] \<and> task_key r \<notin> task_key ` set b \<and> known_status (k_status r))"
  by (simp add: Enqueue_def Let_def)

lemma Scoped_Enqueue_cases:
  "snd (Scoped_Enqueue p ok now now' row b) = b
   \<or> (\<exists>r. snd (Scoped_Enqueue p ok now now' row b) = b @ [r] \<and> task_key r \<notin> task_key ` set b \<and> known_status (k_status r))"
  using Enqueue_cases [of ok now now' row b] Enqueue_cases [of ok now now' "row\<lparr>ProjectID := p\<rparr>" b]
  by (simp add: Scoped_Enqueue_def)

lemma in_scope_key: "in_scope p t r \<longleftrightarrow> task_key r = (p, t)"
  by (simp add: in_scope_def task_key_def)

definition claimed :: "string \<Rightarrow> time \<Rightarrow> task_rec \<Rightarrow> task_rec" where
  "claimed x now r = r\<lparr>k_status := ''in_progress'', k_thread := x, k_updated := unix_sec now\<rparr>"

definition advanced :: "Status \<Rightarrow> time \<Rightarrow> task_rec \<Rightarrow> task_rec" where
  "advanced st now r = r\<lparr>k_status := Status_String st, k_updated := unix_sec now\<rparr>"

lemma Scoped_Claim_cases:
  "(\<exists>e. Scoped_Claim p t r w x now b = (Some e, b))
   \<or> Scoped_Claim p t r w x now b = (None, map (\<lambda>y. if in_scope p t y then claimed x now y else y) b)
     \<and> (\<exists>r0 \<in> set b. task_key r0 = (p, t) \<and> k_status r0 = ''pending'')"
proof (cases "List.find (in_scope p t) b")
  case (Some r0)
  then have "r0 \<in> set b" "task_key r0 = (p, t)" by (auto simp: find_Some_iff in_scope_key)
  moreover have "ParseStatus (k_status r0) = Some StatusPending \<Longrightarrow> k_status r0 = ''pending''"
    by (auto simp: ParseStatus_def status_defs split: if_splits)
  ultimately show ?thesis using Some
    by (auto simp: Scoped_Claim_def claim_where_def claimed_def split: option.split)
qed (simp add: Scoped_Claim_def claim_where_def)

lemma Scoped_Advance_cases:
  "(\<exists>e. Scoped_Advance p t r w st now b = (Some e, b))
   \<or> Scoped_Advance p t r w st now b = (None, map (\<lambda>y. if in_scope p t y then advanced st now y else y) b)
     \<and> (\<exists>r0 \<in> set b. \<exists>cur. task_key r0 = (p, t) \<and> ParseStatus (k_status r0) = Some cur \<and> IsValidTransition cur st)"
proof (cases "List.find (in_scope p t) b")
  case (Some r0)
  then have "r0 \<in> set b" "task_key r0 = (p, t)" by (auto simp: find_Some_iff in_scope_key)
  then show ?thesis using Some
    by (auto simp: Scoped_Advance_def advance_where_def advanced_def split: option.split)
qed (simp add: Scoped_Advance_def advance_where_def)

lemma valid_target: "IsValidTransition cur st \<Longrightarrow> known_status (Status_String st) \<and> Status_String st \<noteq> ''pending''"
  by (auto simp: IsValidTransition_def Status_String_def known_status_def status_defs split: if_splits)

lemma terminal_stays: "ParseStatus s = Some cur \<Longrightarrow> s \<in> {''done'', ''failed''} \<Longrightarrow> \<not> IsValidTransition cur st"
  by (auto simp: IsValidTransition_def ParseStatus_def status_defs)

lemma task_key_updates [simp]: "task_key (claimed x now r) = task_key r" "task_key (advanced st now r) = task_key r"
  by (simp_all add: task_key_def claimed_def advanced_def)

lemma map_keys: "(\<And>y. task_key (f y) = task_key y) \<Longrightarrow> map task_key (map (\<lambda>y. if P y then f y else y) b) = map task_key b"
  by simp

lemma board_ok_keys: "board_ok b \<Longrightarrow> r \<in> set b \<Longrightarrow> r' \<in> set b \<Longrightarrow> task_key r = task_key r' \<Longrightarrow> r = r'"
  by (auto simp: board_ok_def distinct_map inj_on_def)

lemma move_ok:
  assumes "board_ok b" "board_move b b'"
  shows "board_ok b'"
  using assms(2)
proof cases
  case (mv_enqueue p ok now now' row)
  then show ?thesis using assms(1) Scoped_Enqueue_cases [of p ok now now' row b] by (auto simp: board_ok_def)
next
  case (mv_claim p t r w x now)
  then show ?thesis using assms(1) Scoped_Claim_cases [of p t r w x now b]
    by (auto simp: board_ok_def map_keys simp del: map_map) (auto simp: claimed_def known_status_def)
next
  case (mv_advance p t r w st now)
  then show ?thesis using assms(1) Scoped_Advance_cases [of p t r w st now b] valid_target
    by (auto simp: board_ok_def map_keys simp del: map_map) (auto simp: advanced_def)
qed

text \<open>Who holds a task, and a finished task.\<close>

definition held :: "string \<Rightarrow> string \<Rightarrow> string \<Rightarrow> board \<Rightarrow> bool" where
  "held p t x b \<longleftrightarrow> board_ok b \<and> (\<exists>r \<in> set b. task_key r = (p, t) \<and> k_thread r = x \<and> k_status r \<noteq> ''pending'')"

definition finished :: "task_rec \<Rightarrow> board \<Rightarrow> bool" where
  "finished r b \<longleftrightarrow> board_ok b \<and> r \<in> set b \<and> k_status r \<in> {''done'', ''failed''}"

lemma held_unique: "held p t x b \<Longrightarrow> held p t y b \<Longrightarrow> x = y"
  unfolding held_def using board_ok_keys by metis

lemma held_move:
  assumes "held p t x b" "board_move b b'"
  shows "held p t x b'"
proof -
  obtain r where r: "r \<in> set b" "task_key r = (p, t)" "k_thread r = x" "k_status r \<noteq> ''pending''" and ok: "board_ok b"
    using assms(1) unfolding held_def by blast
  have "\<exists>r' \<in> set b'. task_key r' = (p, t) \<and> k_thread r' = x \<and> k_status r' \<noteq> ''pending''"
    using assms(2)
  proof cases
    case (mv_enqueue q ok now now' row)
    then show ?thesis using r Scoped_Enqueue_cases [of q ok now now' row b] by auto
  next
    case (mv_claim q u rd w y now)
    from Scoped_Claim_cases [of q u rd w y now b] show ?thesis
    proof (elim disjE conjE bexE)
      fix r0
      assume c: "Scoped_Claim q u rd w y now b = (None, map (\<lambda>z. if in_scope q u z then claimed y now z else z) b)"
        and r0: "r0 \<in> set b" "task_key r0 = (q, u)" "k_status r0 = ''pending''"
      have "\<not> in_scope q u r" using board_ok_keys [OF ok r(1) r0(1)] r r0 by (auto simp: in_scope_key)
      then show ?thesis using r mv_claim c by (auto intro!: bexI [of _ r])
    qed (use r mv_claim in auto)
  next
    case (mv_advance q u rd w st now)
    from Scoped_Advance_cases [of q u rd w st now b] show ?thesis
    proof (elim disjE conjE bexE exE)
      fix r0 cur
      assume c: "Scoped_Advance q u rd w st now b = (None, map (\<lambda>z. if in_scope q u z then advanced st now z else z) b)"
        and "IsValidTransition cur st"
      then have "Status_String st \<noteq> ''pending''" using valid_target by blast
      then show ?thesis using r mv_advance c
        by (intro bexI [of _ "if in_scope q u r then advanced st now r else r"]) (auto simp: advanced_def task_key_def)
    qed (use r mv_advance in auto)
  qed
  then show ?thesis using move_ok [OF ok assms(2)] by (simp add: held_def)
qed

lemma finished_move:
  assumes "finished r b" "board_move b b'"
  shows "finished r b'"
proof -
  have r: "r \<in> set b" "k_status r \<in> {''done'', ''failed''}" "board_ok b" using assms(1) by (simp_all add: finished_def)
  have "r \<in> set b'" using assms(2)
  proof cases
    case (mv_enqueue q ok now now' row)
    then show ?thesis using r Scoped_Enqueue_cases [of q ok now now' row b] by auto
  next
    case (mv_claim q u rd w y now)
    from Scoped_Claim_cases [of q u rd w y now b] show ?thesis
    proof (elim disjE conjE bexE)
      fix r0
      assume c: "Scoped_Claim q u rd w y now b = (None, map (\<lambda>z. if in_scope q u z then claimed y now z else z) b)"
        and r0: "r0 \<in> set b" "task_key r0 = (q, u)" "k_status r0 = ''pending''"
      have "\<not> in_scope q u r" using board_ok_keys [OF r(3,1) r0(1)] r r0 by (auto simp: in_scope_key)
      then show ?thesis using r mv_claim c by (auto intro: rev_image_eqI)
    qed (use r mv_claim in auto)
  next
    case (mv_advance q u rd w st now)
    from Scoped_Advance_cases [of q u rd w st now b] show ?thesis
    proof (elim disjE conjE bexE exE)
      fix r0 cur
      assume c: "Scoped_Advance q u rd w st now b = (None, map (\<lambda>z. if in_scope q u z then advanced st now z else z) b)"
        and r0: "r0 \<in> set b" "task_key r0 = (q, u)" "ParseStatus (k_status r0) = Some cur" "IsValidTransition cur st"
      have "\<not> in_scope q u r"
        using board_ok_keys [OF r(3,1) r0(1)] terminal_stays [OF _ r(2), of cur st] r0 by (auto simp: in_scope_key)
      then show ?thesis using r mv_advance c by (auto intro: rev_image_eqI)
    qed (use r mv_advance in auto)
  qed
  then show ?thesis using move_ok [OF r(3) assms(2)] r(2) by (simp add: finished_def)
qed

definition empty_board :: "board \<Rightarrow> bool" where
  "empty_board b \<longleftrightarrow> b = []"

interpretation board: safety empty_board board_move board_ok
proof
  show "empty_board b \<Longrightarrow> board_ok b" for b by (simp add: empty_board_def board_ok_def)
qed (rule move_ok)

interpretation holder: safety "held p t x" board_move "held p t x" for p t x
  by unfold_locales (simp, rule held_move)

interpretation terminal: safety "finished r" board_move "finished r" for r
  by unfold_locales (simp, rule finished_move)

text \<open>A worker that got a task holds it.\<close>

lemma Scoped_Get_row:
  assumes "Scoped_Get p t ok b = Inr row"
  obtains r where "r \<in> set b" "task_key r = (p, t)" "ThreadID row = k_thread r" "ParseStatus (k_status r) = Some (tr_Status row)"
proof -
  obtain r where r: "List.find (in_scope p t) b = Some r" "scan_task r = Some row"
    using assms by (auto simp: Scoped_Get_def get_where_def split: if_splits option.splits)
  then have "r \<in> set b" "task_key r = (p, t)" by (auto simp: find_Some_iff in_scope_key)
  moreover have "ThreadID row = k_thread r" "ParseStatus (k_status r) = Some (tr_Status row)"
    using r(2) by (auto simp: scan_task_def)
  ultimately show thesis by (rule that)
qed

lemma claimTask_holds:
  assumes "board_ok b" "board_move\<^sup>*\<^sup>* b (mid c 1 b)" "claimTask c p t x b = (None, b')"
  shows "held p t x b' \<and> board_move\<^sup>*\<^sup>* b b'"
proof -
  obtain row where get: "Scoped_Get p t (reads c 0) b = Inr row"
    using assms(3) by (cases "Scoped_Get p t (reads c 0) b") (auto simp: claimTask_def split: wf_err.splits)
  obtain r where r: "r \<in> set b" "task_key r = (p, t)" "ThreadID row = k_thread r" "ParseStatus (k_status r) = Some (tr_Status row)"
    using Scoped_Get_row [OF get] .
  show ?thesis
  proof (cases "tr_Status row = StatusInProgress")
    case True
    then have "b' = b" "k_thread r = x" using assms(3) get r(3) by (auto simp: claimTask_def split: if_splits)
    moreover have "k_status r \<noteq> ''pending''" using r(4) True by (auto simp: ParseStatus_def status_defs)
    ultimately show ?thesis using assms(1) r(1,2) by (auto simp: held_def)
  next
    case False
    let ?b = "mid c 1 b"
    have ok: "board_ok ?b" using board.steps_inv [OF assms(1,2)] .
    have cl: "Scoped_Claim p t (reads c 1) (writes c 1) x (clock c 1) ?b = (None, b')"
      using assms(3) get False by (auto simp: claimTask_def split: prod.splits option.splits)
    then have mv: "board_move ?b b'" using mv_claim [of ?b p t "reads c 1" "writes c 1" x "clock c 1"] by simp
    obtain r0 where "r0 \<in> set ?b" "task_key r0 = (p, t)" "b' = map (\<lambda>y. if in_scope p t y then claimed x (clock c 1) y else y) ?b"
      using Scoped_Claim_cases [of p t "reads c 1" "writes c 1" x "clock c 1" ?b] cl by auto
    then have "claimed x (clock c 1) r0 \<in> set b'" "task_key (claimed x (clock c 1) r0) = (p, t)"
      by (auto simp: in_scope_key intro: rev_image_eqI)
    then show ?thesis using move_ok [OF ok mv] assms(2) mv
      by (auto simp: held_def claimed_def intro: rtranclp.rtrancl_into_rtrancl)
  qed
qed

text \<open>C9: A task has one worker: whatever workers of any project do to the board, and however their calls interleave,
  when a worker's \<open>claimTask\<close> succeeds for a task and later, after any moves, another's does, both are the
  same thread; and a task that is done or failed stays as it is.\<close>

theorem claimTask_exclusive:
  assumes "reach empty_board board_move b0"
    and "claimTask c p t x b0 = (None, b1)" "board_move\<^sup>*\<^sup>* b0 (mid c 1 b0)"
    and "board_move\<^sup>*\<^sup>* b1 b2"
    and "claimTask c' p t y b2 = (None, b3)" "board_move\<^sup>*\<^sup>* b2 (mid c' 1 b2)"
  shows "x = y \<and> (\<forall>r \<in> set b1. k_status r \<in> {''done'', ''failed''} \<longrightarrow> r \<in> set b3)"
proof -
  have h1: "held p t x b1" using claimTask_holds [OF board.reach_inv [OF assms(1)] assms(3,2)] by simp
  have h2: "held p t x b2" using holder.steps_inv [OF h1 assms(4)] .
  then have ok2: "board_ok b2" by (simp add: held_def)
  from claimTask_holds [OF ok2 assms(6,5)] have h3: "held p t y b3" "board_move\<^sup>*\<^sup>* b2 b3" by simp_all
  with holder.steps_inv [OF h2 h3(2)] have "x = y" using held_unique by blast
  moreover have "r \<in> set b3" if "r \<in> set b1" "k_status r \<in> {''done'', ''failed''}" for r
  proof -
    have "finished r b1" using h1 that by (simp add: finished_def held_def)
    from terminal.steps_inv [OF terminal.steps_inv [OF this assms(4)] h3(2)] show ?thesis by (simp add: finished_def)
  qed
  ultimately show ?thesis by blast
qed

definition demo_calls :: calls where
  "demo_calls = \<lparr>reads = (\<lambda>_. True), writes = (\<lambda>_. True), mid = (\<lambda>_ b. b), clock = (\<lambda>_. of_unix 700)\<rparr>"

definition demo_task :: TaskRow where
  "demo_task = \<lparr>TaskID = ''t1'', ProjectID = [], Title = ''fix'', Description = [], tr_Status = StatusPending, ThreadID = [],
     Priority = 0, ErrorDetail = [], CreatedAt = of_unix 600, UpdatedAt = 0\<rparr>"

definition demo_board :: board where
  "demo_board = snd (Scoped_Enqueue ''p'' True (of_unix 650) (of_unix 650) demo_task [])"

definition demo_claimed :: board where
  "demo_claimed = snd (claimTask demo_calls ''p'' ''t1'' ''worker-1'' demo_board)"

lemmas demo_board_simps = demo_board_def demo_claimed_def demo_calls_def demo_task_def claimTask_def Scoped_Enqueue_def Enqueue_def Let_def
  task_values_def Status_String_def status_defs known_status_def Scoped_Get_def get_where_def in_scope_def scan_task_def
  ParseStatus_def Scoped_Claim_def claim_where_def of_unix_def

theorem claimTask_exclusive_witness:
  "fst (claimTask demo_calls ''p'' ''t1'' ''worker-1'' demo_board) = None
   \<and> fst (claimTask demo_calls ''p'' ''t1'' ''worker-1'' demo_claimed) = None
   \<and> fst (claimTask demo_calls ''p'' ''t1'' ''worker-2'' demo_claimed) \<noteq> None"
proof -
  have a: "claimTask demo_calls ''p'' ''t1'' ''worker-1'' demo_board = (None, demo_claimed)" by (simp add: demo_board_simps)
  have "reach empty_board board_move []" by (rule reach_init) (simp add: empty_board_def)
  then have r: "reach empty_board board_move demo_board" unfolding demo_board_def by (rule reach_step) (rule mv_enqueue)
  have m: "board_move\<^sup>*\<^sup>* b (mid demo_calls 1 b)" for b by (simp add: demo_calls_def)
  have "b3 \<noteq> (None, snd b3)" if "b3 = claimTask demo_calls ''p'' ''t1'' ''worker-2'' demo_claimed" for b3
    using claimTask_exclusive [OF r a m rtranclp.rtrancl_refl, of demo_calls "''worker-2''" "snd b3"] m that by auto
  then have "fst (claimTask demo_calls ''p'' ''t1'' ''worker-2'' demo_claimed) \<noteq> None" by (metis prod.collapse)
  moreover have "fst (claimTask demo_calls ''p'' ''t1'' ''worker-1'' demo_claimed) = None" by (simp add: demo_board_simps)
  ultimately show ?thesis using a by simp
qed

text \<open>What \<open>Enqueue\<close> stored is what \<open>Get\<close> returns, up to whole seconds and the time of the update.\<close>

lemma enqueued_task_is_found:
  assumes "Scoped_Enqueue p True now now' row b = (None, b')" "p \<noteq> []" "CreatedAt row \<noteq> 0"
  shows "Scoped_Get p (TaskID row) True b' =
    Inr (row\<lparr>ProjectID := p, CreatedAt := of_unix (unix_sec (CreatedAt row)), UpdatedAt := of_unix (unix_sec now)\<rparr>)"
proof -
  have pr: "ParseStatus (Status_String s) = (if known_status (Status_String s) then Some s else None)" for s
    by (auto simp: ParseStatus_def Status_String_def known_status_def)
  have fresh: "List.find (in_scope p (TaskID row)) b = None" if "(p, TaskID row) \<notin> task_key ` set b"
    using that by (auto simp: find_None_iff in_scope_key image_iff)
  have f: "List.find P (b @ [r]) = (case List.find P b of None \<Rightarrow> if P r then Some r else None | Some z \<Rightarrow> Some z)" for P r
    by (induction b) auto
  show ?thesis using assms fresh
    by (cases row)
      (auto simp: Scoped_Enqueue_def Enqueue_def Let_def task_values_def task_key_def Scoped_Get_def get_where_def f
        scan_task_def pr in_scope_def split: if_splits)
qed

text \<open>Without a scope, \<open>Claim\<close> reads one project's row and updates the rows of all: a finished task of
  another project with the same name is in progress again.\<close>

lemma unscoped_claim_reopens_other_project:
  assumes "b = [r1, r2]" "k_task r1 = t" "k_task r2 = t" "k_status r1 = ''pending''" "k_status r2 = ''done''"
  shows "\<exists>b'. Claim t True True x now b = (None, b') \<and> k_status (b' ! 1) = ''in_progress'' \<and> k_project (b' ! 1) = k_project r2"
  using assms by (simp add: Claim_def claim_where_def ParseStatus_def)

text \<open>A team lead does not compare the thread: it goes on with a task that another one holds.\<close>

lemma team_leads_share_parent:
  "fst (claimParent demo_calls ''p'' ''t1'' ''lead-2'' demo_claimed) = None \<and> held ''p'' ''t1'' ''worker-1'' demo_claimed"
  by (simp add: claimParent_def demo_board_simps held_def board_ok_def task_key_def)

end
