(* ===== verification/Workforce_Queues.thy ===== *)
theory Workforce_Queues
  imports Workforce
begin

text \<open>
  The two channels of the workforce (\<open>workforce/queue\<close>, \<open>daemon/workforceadapter\<close>): checkpoints from a worker
  to its reviewers and fix prompts back to the worker. Both are tables whose rows are consumed by a
  transaction that reads them in order, marks them in batches and commits. The contract of a channel is
  the locale \<open>channel\<close>; a table with a faithful encoding of its rows (\<open>row_codec\<close>) is one, and the four
  queues, scoped and not, are such tables.
\<close>

subsection \<open>Tables of consumable rows (queue\_adapter.go)\<close>

record 'r qrow =
  q_id :: int
  q_item :: 'r
  q_consumed :: bool

record 'r qtable =
  q_rows :: "'r qrow list"
  q_next :: int

definition put_row :: "bool \<Rightarrow> 'r option \<Rightarrow> 'r qtable \<Rightarrow> bool \<times> 'r qtable" where
  "put_row ok r t =
     (case r of
        Some x \<Rightarrow> if ok then (True, t\<lparr>q_rows := q_rows t @ [\<lparr>q_id = q_next t, q_item = x, q_consumed = False\<rparr>], q_next := q_next t + 1\<rparr>)
          else (False, t)
      | None \<Rightarrow> (False, t))"

definition drainBatchSize :: nat where "drainBatchSize = 1000"

definition mark :: "int list \<Rightarrow> 'r qrow list \<Rightarrow> 'r qrow list" where
  "mark ids rs = map (\<lambda>r. if q_id r \<in> set ids then r\<lparr>q_consumed := True\<rparr> else r) rs"

text \<open>\<open>exec k\<close> is the outcome of the \<open>k\<close>-th statement.\<close>

function updateConsumedInBatches :: "(nat \<Rightarrow> bool) \<Rightarrow> nat \<Rightarrow> int list \<Rightarrow> 'r qrow list \<Rightarrow> 'r qrow list option" where
  "updateConsumedInBatches exec k ids rs =
     (if ids = [] then Some rs
      else if \<not> exec k then None
      else updateConsumedInBatches exec (Suc k) (drop drainBatchSize ids) (mark (take drainBatchSize ids) rs))"
  by pat_completeness auto
termination
  by (relation "measure (\<lambda>(exec, k, ids, rs). length ids)") (auto simp: drainBatchSize_def)

declare updateConsumedInBatches.simps [simp del]

lemma update_none [simp]: "updateConsumedInBatches exec k [] rs = Some rs"
  by (simp add: updateConsumedInBatches.simps)

definition open_rows :: "('r \<Rightarrow> bool) \<Rightarrow> ('r \<Rightarrow> int) \<Rightarrow> 'r qtable \<Rightarrow> 'r qrow list" where
  "open_rows sel ord t = sort_key (\<lambda>r. ord (q_item r)) (filter (\<lambda>r. sel (q_item r) \<and> \<not> q_consumed r) (q_rows t))"

fun scan_all :: "('r \<Rightarrow> 'i option) \<Rightarrow> 'r list \<Rightarrow> 'i list option" where
  "scan_all parse [] = Some []"
| "scan_all parse (r # rs) = (case parse r of None \<Rightarrow> None | Some i \<Rightarrow> map_option ((#) i) (scan_all parse rs))"

text \<open>The outcomes of a transaction: begin and query, the updates, the commit.\<close>

record tx =
  tx_read :: bool
  tx_exec :: "nat \<Rightarrow> bool"
  tx_commit :: bool

definition peek_rows :: "('r \<Rightarrow> bool) \<Rightarrow> ('r \<Rightarrow> int) \<Rightarrow> ('r \<Rightarrow> 'i option) \<Rightarrow> bool \<Rightarrow> 'r qtable \<Rightarrow> wf_err + 'i list" where
  "peek_rows sel ord parse ok t =
     (if \<not> ok then Inl StatementFault
      else case scan_all parse (map q_item (open_rows sel ord t)) of None \<Rightarrow> Inl BadStatus | Some xs \<Rightarrow> Inr xs)"

definition drain_rows :: "('r \<Rightarrow> bool) \<Rightarrow> ('r \<Rightarrow> int) \<Rightarrow> ('r \<Rightarrow> 'i option) \<Rightarrow> tx \<Rightarrow> 'r qtable \<Rightarrow> (wf_err + 'i list) \<times> 'r qtable" where
  "drain_rows sel ord parse x t =
     (if \<not> tx_read x then (Inl StatementFault, t)
      else let rs = open_rows sel ord t in
        case scan_all parse (map q_item rs) of
          None \<Rightarrow> (Inl BadStatus, t)
        | Some xs \<Rightarrow>
            if rs = [] then (if tx_commit x then (Inr [], t) else (Inl StatementFault, t))
            else case updateConsumedInBatches (tx_exec x) 0 (map q_id rs) (q_rows t) of
              None \<Rightarrow> (Inl StatementFault, t)
            | Some rows' \<Rightarrow> if tx_commit x then (Inr xs, t\<lparr>q_rows := rows'\<rparr>) else (Inl StatementFault, t))"

subsection \<open>Checkpoints\<close>

record Checkpoint =
  cp_TaskID :: string
  cp_ProjectID :: string
  cp_ThreadID :: string
  StateJSON :: string
  SeqNum :: int
  DeadlineAt :: time
  cp_Consumed :: bool
  cp_CreatedAt :: time

record checkpoint_rec =
  c_task :: string
  c_project :: string
  c_thread :: string
  c_state :: string
  c_seq :: int
  c_deadline :: "int option"
  c_created :: int

definition checkpoint_values :: "Checkpoint \<Rightarrow> checkpoint_rec" where
  "checkpoint_values cp = \<lparr>c_task = cp_TaskID cp, c_project = cp_ProjectID cp, c_thread = cp_ThreadID cp, c_state = StateJSON cp,
     c_seq = SeqNum cp, c_deadline = (if DeadlineAt cp = 0 then None else Some (unix_sec (DeadlineAt cp))),
     c_created = unix_sec (cp_CreatedAt cp)\<rparr>"

text \<open>\<open>scanCheckpoints\<close>, with the flag that \<open>Drain\<close> sets afterwards.\<close>

definition scan_checkpoint :: "bool \<Rightarrow> checkpoint_rec \<Rightarrow> Checkpoint" where
  "scan_checkpoint consumed r = \<lparr>cp_TaskID = c_task r, cp_ProjectID = c_project r, cp_ThreadID = c_thread r, StateJSON = c_state r,
     SeqNum = c_seq r, DeadlineAt = (case c_deadline r of None \<Rightarrow> 0 | Some u \<Rightarrow> of_unix u), cp_Consumed = consumed,
     cp_CreatedAt = of_unix (c_created r)\<rparr>"

definition Checkpoint_Put :: "bool \<Rightarrow> Checkpoint \<Rightarrow> checkpoint_rec qtable \<Rightarrow> bool \<times> checkpoint_rec qtable" where
  "Checkpoint_Put ok cp = put_row ok (Some (checkpoint_values cp))"

definition Checkpoint_Drain :: "string \<Rightarrow> tx \<Rightarrow> checkpoint_rec qtable \<Rightarrow> (wf_err + Checkpoint list) \<times> checkpoint_rec qtable" where
  "Checkpoint_Drain taskID = drain_rows (\<lambda>r. c_task r = taskID) c_seq (\<lambda>r. Some (scan_checkpoint True r))"

definition Checkpoint_Peek :: "string \<Rightarrow> bool \<Rightarrow> checkpoint_rec qtable \<Rightarrow> wf_err + Checkpoint list" where
  "Checkpoint_Peek taskID = peek_rows (\<lambda>r. c_task r = taskID) c_seq (\<lambda>r. Some (scan_checkpoint False r))"

definition Checkpoint_ByThread :: "string \<Rightarrow> bool \<Rightarrow> checkpoint_rec qtable \<Rightarrow> wf_err + Checkpoint list" where
  "Checkpoint_ByThread threadID ok t =
     (if \<not> ok then Inl StatementFault
      else Inr (map (scan_checkpoint False) (sort_key c_seq (filter (\<lambda>r. c_thread r = threadID) (map q_item (q_rows t))))))"

definition Scoped_Checkpoint_Put :: "string \<Rightarrow> bool \<Rightarrow> Checkpoint \<Rightarrow> checkpoint_rec qtable \<Rightarrow> wf_err option \<times> checkpoint_rec qtable" where
  "Scoped_Checkpoint_Put p ok cp t =
     (if cp_ProjectID cp \<noteq> [] \<and> cp_ProjectID cp \<noteq> p then (Some ErrProjectIDMismatch, t)
      else case Checkpoint_Put ok (cp\<lparr>cp_ProjectID := p\<rparr>) t of (True, t') \<Rightarrow> (None, t') | (False, t') \<Rightarrow> (Some StatementFault, t'))"

definition Scoped_Checkpoint_Drain :: "string \<Rightarrow> string \<Rightarrow> tx \<Rightarrow> checkpoint_rec qtable \<Rightarrow> (wf_err + Checkpoint list) \<times> checkpoint_rec qtable" where
  "Scoped_Checkpoint_Drain p taskID =
     drain_rows (\<lambda>r. c_project r = p \<and> c_task r = taskID) c_seq (\<lambda>r. Some (scan_checkpoint True r))"

definition Scoped_Checkpoint_Peek :: "string \<Rightarrow> string \<Rightarrow> bool \<Rightarrow> checkpoint_rec qtable \<Rightarrow> wf_err + Checkpoint list" where
  "Scoped_Checkpoint_Peek p taskID =
     peek_rows (\<lambda>r. c_project r = p \<and> c_task r = taskID) c_seq (\<lambda>r. Some (scan_checkpoint False r))"

definition Scoped_Checkpoint_ByThread :: "string \<Rightarrow> string \<Rightarrow> bool \<Rightarrow> checkpoint_rec qtable \<Rightarrow> wf_err + Checkpoint list" where
  "Scoped_Checkpoint_ByThread p threadID ok t =
     (if \<not> ok then Inl StatementFault
      else Inr (map (scan_checkpoint False) (sort_key c_seq (filter (\<lambda>r. c_project r = p \<and> c_thread r = threadID) (map q_item (q_rows t))))))"

subsection \<open>Fix prompts (fix\_prompt\_queue.go)\<close>

type_synonym ReviewerTier = int
type_synonym Severity = int

definition ReviewerTier_String :: "ReviewerTier \<Rightarrow> string" where
  "ReviewerTier_String rt = (if rt = 2 then ''l2'' else if rt = 3 then ''l3'' else if rt = 4 then ''l4''
     else ''unknown_reviewer_tier('' @ dec_int rt @ '')'')"

definition ParseReviewerTier :: "string \<Rightarrow> ReviewerTier option" where
  "ParseReviewerTier s = (if s = ''l2'' then Some 2 else if s = ''l3'' then Some 3 else if s = ''l4'' then Some 4 else None)"

definition Severity_String :: "Severity \<Rightarrow> string" where
  "Severity_String s = (if s = 1 then ''minor'' else if s = 2 then ''major'' else if s = 3 then ''reject''
     else ''unknown_severity('' @ dec_int s @ '')'')"

definition ParseSeverity :: "string \<Rightarrow> Severity option" where
  "ParseSeverity s = (if s = ''minor'' then Some 1 else if s = ''major'' then Some 2 else if s = ''reject'' then Some 3 else None)"

record FixPrompt =
  fp_TaskID :: string
  fp_ProjectID :: string
  WorkerID :: string
  fp_ReviewerTier :: ReviewerTier
  PromptText :: string
  CriteriaName :: string
  fp_Severity :: Severity
  fp_Consumed :: bool
  fp_CreatedAt :: time

record fix_rec =
  f_task :: string
  f_project :: string
  f_worker :: string
  f_tier :: string
  f_prompt :: string
  f_criteria :: string
  f_severity :: string
  f_created :: int

text \<open>The table admits three tiers and three severities.\<close>

definition fix_values :: "FixPrompt \<Rightarrow> fix_rec option" where
  "fix_values fp =
     (if ReviewerTier_String (fp_ReviewerTier fp) \<in> {''l2'', ''l3'', ''l4''} \<and> Severity_String (fp_Severity fp) \<in> {''minor'', ''major'', ''reject''}
      then Some \<lparr>f_task = fp_TaskID fp, f_project = fp_ProjectID fp, f_worker = WorkerID fp,
        f_tier = ReviewerTier_String (fp_ReviewerTier fp), f_prompt = PromptText fp, f_criteria = CriteriaName fp,
        f_severity = Severity_String (fp_Severity fp), f_created = unix_sec (fp_CreatedAt fp)\<rparr>
      else None)"

definition scan_fix :: "bool \<Rightarrow> fix_rec \<Rightarrow> FixPrompt option" where
  "scan_fix consumed r =
     (case ParseReviewerTier (f_tier r) of
        None \<Rightarrow> None
      | Some tier \<Rightarrow>
          (case ParseSeverity (f_severity r) of
             None \<Rightarrow> None
           | Some sev \<Rightarrow> Some \<lparr>fp_TaskID = f_task r, fp_ProjectID = f_project r, WorkerID = f_worker r, fp_ReviewerTier = tier,
               PromptText = f_prompt r, CriteriaName = f_criteria r, fp_Severity = sev, fp_Consumed = consumed,
               fp_CreatedAt = of_unix (f_created r)\<rparr>))"

definition FixPrompt_Put :: "bool \<Rightarrow> FixPrompt \<Rightarrow> fix_rec qtable \<Rightarrow> bool \<times> fix_rec qtable" where
  "FixPrompt_Put ok fp = put_row ok (fix_values fp)"

definition DrainByWorker :: "string \<Rightarrow> tx \<Rightarrow> fix_rec qtable \<Rightarrow> (wf_err + FixPrompt list) \<times> fix_rec qtable" where
  "DrainByWorker workerID = drain_rows (\<lambda>r. f_worker r = workerID) f_created (scan_fix True)"

definition PendingByWorker :: "string \<Rightarrow> bool \<Rightarrow> fix_rec qtable \<Rightarrow> wf_err + FixPrompt list" where
  "PendingByWorker workerID = peek_rows (\<lambda>r. f_worker r = workerID) f_created (scan_fix False)"

definition Scoped_FixPrompt_Put :: "string \<Rightarrow> bool \<Rightarrow> FixPrompt \<Rightarrow> fix_rec qtable \<Rightarrow> wf_err option \<times> fix_rec qtable" where
  "Scoped_FixPrompt_Put p ok fp t =
     (if fp_ProjectID fp \<noteq> [] \<and> fp_ProjectID fp \<noteq> p then (Some ErrProjectIDMismatch, t)
      else case FixPrompt_Put ok (fp\<lparr>fp_ProjectID := p\<rparr>) t of (True, t') \<Rightarrow> (None, t') | (False, t') \<Rightarrow> (Some StatementFault, t'))"

definition Scoped_DrainByWorker :: "string \<Rightarrow> string \<Rightarrow> tx \<Rightarrow> fix_rec qtable \<Rightarrow> (wf_err + FixPrompt list) \<times> fix_rec qtable" where
  "Scoped_DrainByWorker p workerID = drain_rows (\<lambda>r. f_project r = p \<and> f_worker r = workerID) f_created (scan_fix True)"

definition Scoped_PendingByWorker :: "string \<Rightarrow> string \<Rightarrow> bool \<Rightarrow> fix_rec qtable \<Rightarrow> wf_err + FixPrompt list" where
  "Scoped_PendingByWorker p workerID = peek_rows (\<lambda>r. f_project r = p \<and> f_worker r = workerID) f_created (scan_fix False)"

subsection \<open>The contract of a channel\<close>

datatype ('i, 'k) channel_op = PutOp bool 'i | DrainOp 'k tx

text \<open>A run: what was accepted, what each drain delivered, and the final table.\<close>

fun channel_run :: "(bool \<Rightarrow> 'i \<Rightarrow> 's \<Rightarrow> bool \<times> 's) \<Rightarrow> ('k \<Rightarrow> tx \<Rightarrow> 's \<Rightarrow> (wf_err + 'o list) \<times> 's) \<Rightarrow> ('i, 'k) channel_op list \<Rightarrow> 's
    \<Rightarrow> 'i list \<times> ('k \<times> 'o list) list \<times> 's" where
  "channel_run put drain [] s = ([], [], s)"
| "channel_run put drain (PutOp ok i # ops) s =
     (let (b, s1) = put ok i s; (acc, dl, s2) = channel_run put drain ops s1 in (if b then i # acc else acc, dl, s2))"
| "channel_run put drain (DrainOp k x # ops) s =
     (let (r, s1) = drain k x s; (acc, dl, s2) = channel_run put drain ops s1
      in (acc, (case r of Inl _ \<Rightarrow> dl | Inr os \<Rightarrow> (k, os) # dl), s2))"

definition delivered_to :: "'k \<Rightarrow> ('k \<times> 'o list) list \<Rightarrow> 'o list" where
  "delivered_to k dl = concat (map snd (filter (\<lambda>d. fst d = k) dl))"

locale channel =
  fixes inv :: "'s \<Rightarrow> bool"
    and put :: "bool \<Rightarrow> 'i \<Rightarrow> 's \<Rightarrow> bool \<times> 's"
    and drain :: "'k \<Rightarrow> tx \<Rightarrow> 's \<Rightarrow> (wf_err + 'o list) \<times> 's"
    and waiting :: "'k \<Rightarrow> 's \<Rightarrow> 'o list"
    and key :: "'i \<Rightarrow> 'k"
    and out :: "'i \<Rightarrow> 'o"
  assumes put_accepts: "inv s \<Longrightarrow> put ok i s = (True, s') \<Longrightarrow>
      inv s' \<and> mset (waiting k s') = mset (waiting k s) + (if key i = k then {#out i#} else {#})"
    and put_refuses: "put ok i s = (False, s') \<Longrightarrow> s' = s"
    and drain_delivers: "inv s \<Longrightarrow> drain k x s = (Inr os, s') \<Longrightarrow>
      inv s' \<and> os = waiting k s \<and> waiting k s' = [] \<and> (k' \<noteq> k \<longrightarrow> waiting k' s' = waiting k' s)"
    and drain_fails: "drain k x s = (Inl e, s') \<Longrightarrow> s' = s"
begin

lemma exactly_once:
  assumes "inv s" "channel_run put drain ops s = (acc, dl, s')"
  shows "inv s' \<and> mset (delivered_to k dl) + mset (waiting k s') = mset (waiting k s) + mset (map out (filter (\<lambda>i. key i = k) acc))"
  using assms
proof (induction ops arbitrary: s acc dl)
  case (Cons x ops)
  show ?case
  proof (cases x)
    case (PutOp ok i)
    obtain b s1 where p: "put ok i s = (b, s1)" by fastforce
    obtain acc1 dl1 s2 where r: "channel_run put drain ops s1 = (acc1, dl1, s2)" using prod_cases3 by blast
    have e: "acc = (if b then i # acc1 else acc1)" "dl = dl1" "s' = s2" using Cons.prems(2) PutOp p r by auto
    show ?thesis
    proof (cases b)
      case True
      with put_accepts [OF Cons.prems(1), of ok i s1 k] p Cons.IH [of s1 acc1 dl1] r e show ?thesis by auto
    next
      case False
      then have "s1 = s" using put_refuses p by simp
      with Cons.IH [of s acc1 dl1] r e Cons.prems(1) False show ?thesis by simp
    qed
  next
    case (DrainOp j f)
    obtain d s1 where p: "drain j f s = (d, s1)" by fastforce
    obtain acc1 dl1 s2 where r: "channel_run put drain ops s1 = (acc1, dl1, s2)" using prod_cases3 by blast
    have e: "acc = acc1" "dl = (case d of Inl _ \<Rightarrow> dl1 | Inr os \<Rightarrow> (j, os) # dl1)" "s' = s2" using Cons.prems(2) DrainOp p r by auto
    show ?thesis
    proof (cases d)
      case (Inl err)
      then have "s1 = s" using drain_fails p by simp
      with Cons.IH [of s acc1 dl1] r e Cons.prems(1) Inl show ?thesis by simp
    next
      case (Inr os)
      with drain_delivers [OF Cons.prems(1), of j f os s1 k] p have d: "inv s1" "os = waiting j s" "waiting j s1 = []"
        "k \<noteq> j \<Longrightarrow> waiting k s1 = waiting k s" by auto
      from Cons.IH [OF d(1) r [folded e(3)]] e Inr d(2-4) show ?thesis by (cases "j = k") (auto simp: delivered_to_def)
    qed
  qed
qed (simp add: delivered_to_def)

end

subsection \<open>A table with a faithful encoding is a channel\<close>

definition waiting_rows :: "('r \<Rightarrow> bool) \<Rightarrow> ('r \<Rightarrow> int) \<Rightarrow> ('r \<Rightarrow> 'o option) \<Rightarrow> 'r qtable \<Rightarrow> 'o list" where
  "waiting_rows sel ord parse t = map (\<lambda>r. the (parse (q_item r))) (open_rows sel ord t)"

definition table_ok :: "('r \<Rightarrow> 'o option) \<Rightarrow> 'r qtable \<Rightarrow> bool" where
  "table_ok parse t \<longleftrightarrow> distinct (map q_id (q_rows t)) \<and> (\<forall>r \<in> set (q_rows t). q_id r < q_next t \<and> parse (q_item r) \<noteq> None)"

lemma mark_append: "mark ids (mark ids' rs) = mark (ids' @ ids) rs"
  by (auto simp: mark_def)

lemma update_all:
  "updateConsumedInBatches exec k ids rs = Some rs' \<Longrightarrow> rs' = mark ids rs"
proof (induction exec k ids rs rule: updateConsumedInBatches.induct)
  case (1 exec k ids rs)
  show ?case
  proof (cases "ids = []")
    case True
    with "1.prems" show ?thesis by (simp add: mark_def)
  next
    case False
    with "1.prems" have e: "exec k" "updateConsumedInBatches exec (Suc k) (drop drainBatchSize ids) (mark (take drainBatchSize ids) rs) = Some rs'"
      by (simp_all add: updateConsumedInBatches.simps [of exec k ids rs] split: if_splits)
    from "1.IH" [OF False _ e(2)] e(1) show ?thesis by (simp add: mark_append)
  qed
qed

text \<open>Enough statements that succeed mark every row: one for each started batch of a thousand.\<close>

lemma update_succeeds:
  "(\<And>j. exec j) \<Longrightarrow> updateConsumedInBatches exec k ids rs = Some (mark ids rs)"
proof (induction exec k ids rs rule: updateConsumedInBatches.induct)
  case (1 exec k ids rs)
  show ?case
  proof (cases "ids = []")
    case True
    then show ?thesis by (simp add: mark_def)
  next
    case False
    have "updateConsumedInBatches exec k ids rs =
      updateConsumedInBatches exec (Suc k) (drop drainBatchSize ids) (mark (take drainBatchSize ids) rs)"
      using False "1.prems" by (subst updateConsumedInBatches.simps) simp
    also have "\<dots> = Some (mark (drop drainBatchSize ids) (mark (take drainBatchSize ids) rs))"
      by (rule "1.IH") (use False "1.prems" in simp_all)
    finally show ?thesis by (simp add: mark_append)
  qed
qed

lemma scan_all_Some: "(\<forall>r \<in> set rs. parse r \<noteq> None) \<Longrightarrow> scan_all parse rs = Some (map (\<lambda>r. the (parse r)) rs)"
  by (induction rs) auto

lemma set_open_rows: "set (open_rows sel ord t) = {r \<in> set (q_rows t). sel (q_item r) \<and> \<not> q_consumed r}"
  by (auto simp: open_rows_def)

lemma open_rows_scan:
  "table_ok parse t \<Longrightarrow> scan_all parse (map q_item (open_rows sel ord t)) = Some (waiting_rows sel ord parse t)"
  by (subst scan_all_Some) (auto simp: table_ok_def waiting_rows_def set_open_rows comp_def)

lemma open_rows_mark:
  assumes "distinct (map q_id (q_rows t))"
  shows "open_rows sel' ord (t\<lparr>q_rows := mark (map q_id (open_rows sel ord t)) (q_rows t)\<rparr>) =
    sort_key (\<lambda>r. ord (q_item r)) (filter (\<lambda>r. sel' (q_item r) \<and> \<not> q_consumed r \<and> \<not> sel (q_item r)) (q_rows t))"
proof -
  let ?ids = "q_id ` {r \<in> set (q_rows t). sel (q_item r) \<and> \<not> q_consumed r}"
  have "filter (\<lambda>r. sel' (q_item r) \<and> \<not> q_consumed r) (map (\<lambda>r. if q_id r \<in> ?ids then r\<lparr>q_consumed := True\<rparr> else r) rs)
    = filter (\<lambda>r. sel' (q_item r) \<and> \<not> q_consumed r \<and> \<not> sel (q_item r)) rs" if "set rs \<subseteq> set (q_rows t)" for rs
    using that
  proof (induction rs)
    case (Cons r rs)
    have "q_id r \<in> ?ids \<longleftrightarrow> sel (q_item r) \<and> \<not> q_consumed r"
      using Cons.prems assms by (auto simp: distinct_map inj_on_def)
    with Cons show ?case by auto
  qed simp
  then show ?thesis by (simp add: open_rows_def mark_def set_open_rows [unfolded open_rows_def])
qed

lemma table_ok_mark: "table_ok parse t \<Longrightarrow> table_ok parse (t\<lparr>q_rows := mark ids (q_rows t)\<rparr>)"
proof -
  assume t: "table_ok parse t"
  have "map q_id (mark ids (q_rows t)) = map q_id (q_rows t)" by (simp add: mark_def)
  with t show ?thesis by (auto simp: table_ok_def) (auto simp: mark_def)
qed

lemma table_ok_put: "table_ok parse t \<Longrightarrow> parse x \<noteq> None \<Longrightarrow> put_row ok (Some x) t = (True, t') \<Longrightarrow> table_ok parse t'"
  by (auto simp: put_row_def table_ok_def split: if_splits) force+

lemma drain_rows_delivers:
  assumes "table_ok parse t" "drain_rows sel ord parse x t = (Inr os, t')"
  shows "os = waiting_rows sel ord parse t \<and> table_ok parse t'
    \<and> open_rows sel' ord t' = sort_key (\<lambda>r. ord (q_item r)) (filter (\<lambda>r. sel' (q_item r) \<and> \<not> q_consumed r \<and> \<not> sel (q_item r)) (q_rows t))"
proof (cases "open_rows sel ord t = []")
  case True
  then have o: "os = []" "t' = t" using assms(2) by (auto simp: drain_rows_def Let_def split: if_splits)
  have "\<not> (sel (q_item r) \<and> \<not> q_consumed r)" if "r \<in> set (q_rows t)" for r
    using True set_open_rows [of sel ord t] that by auto
  then have "filter (\<lambda>r. sel' (q_item r) \<and> \<not> q_consumed r) (q_rows t)
      = filter (\<lambda>r. sel' (q_item r) \<and> \<not> q_consumed r \<and> \<not> sel (q_item r)) (q_rows t)"
    by (intro filter_cong) auto
  then show ?thesis using o True assms(1) by (simp add: waiting_rows_def) (simp add: open_rows_def)
next
  case False
  let ?rs = "open_rows sel ord t"
  obtain rows' where u: "updateConsumedInBatches (tx_exec x) 0 (map q_id ?rs) (q_rows t) = Some rows'"
    "os = waiting_rows sel ord parse t" "t' = t\<lparr>q_rows := rows'\<rparr>"
    using assms False open_rows_scan [OF assms(1), of sel ord]
    by (auto simp: drain_rows_def Let_def split: if_splits option.splits)
  then have "t' = t\<lparr>q_rows := mark (map q_id ?rs) (q_rows t)\<rparr>" using update_all [OF u(1)] by simp
  with u(2) show ?thesis using table_ok_mark [OF assms(1)] open_rows_mark [of t sel' ord sel] assms(1) by (simp add: table_ok_def)
qed

lemma drain_rows_fails: "drain_rows sel ord parse x t = (Inl e, t') \<Longrightarrow> t' = t"
  by (auto simp: drain_rows_def Let_def split: if_splits option.splits)

locale row_codec =
  fixes store :: "'i \<Rightarrow> 'r option"
    and parse :: "'r \<Rightarrow> 'o option"
    and rkey :: "'r \<Rightarrow> 'k"
    and ord :: "'r \<Rightarrow> int"
    and ikey :: "'i \<Rightarrow> 'k"
    and out :: "'i \<Rightarrow> 'o"
  assumes store_parse: "store i = Some r \<Longrightarrow> parse r = Some (out i) \<and> rkey r = ikey i"
begin

lemma put_waiting:
  assumes "table_ok parse t" "put_row ok (store i) t = (True, t')"
  shows "table_ok parse t' \<and> mset (waiting_rows (\<lambda>r. rkey r = k) ord parse t') =
    mset (waiting_rows (\<lambda>r. rkey r = k) ord parse t) + (if ikey i = k then {#out i#} else {#})"
proof -
  obtain x where x: "store i = Some x" using assms(2) by (auto simp: put_row_def split: option.splits)
  then have p: "parse x = Some (out i)" "rkey x = ikey i" using store_parse by auto
  have t': "t' = t\<lparr>q_rows := q_rows t @ [\<lparr>q_id = q_next t, q_item = x, q_consumed = False\<rparr>], q_next := q_next t + 1\<rparr>"
    using assms(2) x by (auto simp: put_row_def split: if_splits)
  have "table_ok parse t'" using table_ok_put [OF assms(1)] assms(2) x p(1) by auto
  then show ?thesis using p by (simp add: t' waiting_rows_def open_rows_def mset_filter)
qed

end

sublocale row_codec \<subseteq> channel "table_ok parse" "\<lambda>ok i. put_row ok (store i)" "\<lambda>k. drain_rows (\<lambda>r. rkey r = k) ord parse"
    "\<lambda>k. waiting_rows (\<lambda>r. rkey r = k) ord parse" ikey out
proof
  fix s s' :: "'r qtable" and ok i k k' x os e
  show "table_ok parse s \<Longrightarrow> put_row ok (store i) s = (True, s') \<Longrightarrow> table_ok parse s' \<and>
      mset (waiting_rows (\<lambda>r. rkey r = k) ord parse s') =
      mset (waiting_rows (\<lambda>r. rkey r = k) ord parse s) + (if ikey i = k then {#out i#} else {#})"
    by (rule put_waiting)
  show "put_row ok (store i) s = (False, s') \<Longrightarrow> s' = s" by (auto simp: put_row_def split: option.splits if_splits)
  show "drain_rows (\<lambda>r. rkey r = k) ord parse x s = (Inl e, s') \<Longrightarrow> s' = s" by (rule drain_rows_fails)
  assume t: "table_ok parse s" and d: "drain_rows (\<lambda>r. rkey r = k) ord parse x s = (Inr os, s')"
  from drain_rows_delivers [OF t d, of "\<lambda>r. rkey r = k"] drain_rows_delivers [OF t d, of "\<lambda>r. rkey r = k'"]
  show "table_ok parse s' \<and> os = waiting_rows (\<lambda>r. rkey r = k) ord parse s \<and> waiting_rows (\<lambda>r. rkey r = k) ord parse s' = []
      \<and> (k' \<noteq> k \<longrightarrow> waiting_rows (\<lambda>r. rkey r = k') ord parse s' = waiting_rows (\<lambda>r. rkey r = k') ord parse s)"
  proof (intro conjI impI)
    assume "k' \<noteq> k"
    then have "filter (\<lambda>r. rkey (q_item r) = k' \<and> \<not> q_consumed r \<and> rkey (q_item r) \<noteq> k) (q_rows s)
        = filter (\<lambda>r. rkey (q_item r) = k' \<and> \<not> q_consumed r) (q_rows s)"
      by (intro filter_cong) auto
    then show "waiting_rows (\<lambda>r. rkey r = k') ord parse s' = waiting_rows (\<lambda>r. rkey r = k') ord parse s"
      using drain_rows_delivers [OF t d, of "\<lambda>r. rkey r = k'"] by (simp add: waiting_rows_def) (simp add: open_rows_def)
  qed (auto simp: waiting_rows_def)
qed

subsection \<open>The four queues\<close>

definition seen_checkpoint :: "Checkpoint \<Rightarrow> Checkpoint" where
  "seen_checkpoint cp = scan_checkpoint True (checkpoint_values cp)"

definition seen_fix :: "FixPrompt \<Rightarrow> FixPrompt" where
  "seen_fix fp = fp\<lparr>fp_Consumed := True, fp_CreatedAt := of_unix (unix_sec (fp_CreatedAt fp))\<rparr>"

lemma tier_round_trip: "ParseReviewerTier (ReviewerTier_String rt) = (if ReviewerTier_String rt \<in> {''l2'', ''l3'', ''l4''} then Some rt else None)"
  by (auto simp: ParseReviewerTier_def ReviewerTier_String_def)

lemma severity_round_trip: "ParseSeverity (Severity_String s) = (if Severity_String s \<in> {''minor'', ''major'', ''reject''} then Some s else None)"
  by (auto simp: ParseSeverity_def Severity_String_def)

lemma fix_round_trip: "fix_values fp = Some r \<Longrightarrow> scan_fix True r = Some (seen_fix fp) \<and> f_worker r = WorkerID fp \<and> f_project r = fp_ProjectID fp"
proof -
  assume f: "fix_values fp = Some r"
  then have p: "ParseReviewerTier (ReviewerTier_String (fp_ReviewerTier fp)) = Some (fp_ReviewerTier fp)"
    "ParseSeverity (Severity_String (fp_Severity fp)) = Some (fp_Severity fp)"
    unfolding fix_values_def tier_round_trip severity_round_trip by (simp_all split: if_splits)
  have "f_task r = fp_TaskID fp" "f_project r = fp_ProjectID fp" "f_worker r = WorkerID fp" "f_prompt r = PromptText fp"
    "f_criteria r = CriteriaName fp" "f_created r = unix_sec (fp_CreatedAt fp)"
    "f_tier r = ReviewerTier_String (fp_ReviewerTier fp)" "f_severity r = Severity_String (fp_Severity fp)"
    using f unfolding fix_values_def by (auto split: if_splits)
  then show ?thesis by (cases fp) (use p in \<open>simp add: scan_fix_def seen_fix_def\<close>)
qed

definition scoped_checkpoint :: "string \<times> Checkpoint \<Rightarrow> checkpoint_rec option" where
  "scoped_checkpoint i = (if cp_ProjectID (snd i) \<noteq> [] \<and> cp_ProjectID (snd i) \<noteq> fst i then None
     else Some (checkpoint_values ((snd i)\<lparr>cp_ProjectID := fst i\<rparr>)))"

definition scoped_fix :: "string \<times> FixPrompt \<Rightarrow> fix_rec option" where
  "scoped_fix i = (if fp_ProjectID (snd i) \<noteq> [] \<and> fp_ProjectID (snd i) \<noteq> fst i then None
     else fix_values ((snd i)\<lparr>fp_ProjectID := fst i\<rparr>))"

interpretation checkpoints: row_codec "\<lambda>cp. Some (checkpoint_values cp)" "\<lambda>r. Some (scan_checkpoint True r)" c_task c_seq cp_TaskID seen_checkpoint
  by unfold_locales (auto simp: seen_checkpoint_def checkpoint_values_def)

interpretation scoped_checkpoints: row_codec scoped_checkpoint "\<lambda>r. Some (scan_checkpoint True r)" "\<lambda>r. (c_project r, c_task r)" c_seq
    "\<lambda>i. (fst i, cp_TaskID (snd i))" "\<lambda>i. seen_checkpoint ((snd i)\<lparr>cp_ProjectID := fst i\<rparr>)"
  by unfold_locales (auto simp: scoped_checkpoint_def seen_checkpoint_def checkpoint_values_def split: if_splits)

interpretation prompts: row_codec fix_values "scan_fix True" f_worker f_created WorkerID seen_fix
  by unfold_locales (auto dest: fix_round_trip)

interpretation scoped_prompts: row_codec scoped_fix "scan_fix True" "\<lambda>r. (f_project r, f_worker r)" f_created
    "\<lambda>i. (fst i, WorkerID (snd i))" "\<lambda>i. seen_fix ((snd i)\<lparr>fp_ProjectID := fst i\<rparr>)"
  by unfold_locales (auto simp: scoped_fix_def dest: fix_round_trip split: if_splits)

text \<open>The scoped operations as a channel whose keys are project and task, or project and worker.\<close>

definition checkpoint_put :: "bool \<Rightarrow> string \<times> Checkpoint \<Rightarrow> checkpoint_rec qtable \<Rightarrow> bool \<times> checkpoint_rec qtable" where
  "checkpoint_put ok i t = (case Scoped_Checkpoint_Put (fst i) ok (snd i) t of (e, t') \<Rightarrow> (e = None, t'))"

definition fix_put :: "bool \<Rightarrow> string \<times> FixPrompt \<Rightarrow> fix_rec qtable \<Rightarrow> bool \<times> fix_rec qtable" where
  "fix_put ok i t = (case Scoped_FixPrompt_Put (fst i) ok (snd i) t of (e, t') \<Rightarrow> (e = None, t'))"

lemma checkpoint_put_row: "checkpoint_put ok i t = put_row ok (scoped_checkpoint i) t"
  by (auto simp: checkpoint_put_def Scoped_Checkpoint_Put_def Checkpoint_Put_def scoped_checkpoint_def put_row_def)

lemma fix_put_row: "fix_put ok i t = put_row ok (scoped_fix i) t"
  by (auto simp: fix_put_def Scoped_FixPrompt_Put_def FixPrompt_Put_def scoped_fix_def put_row_def split: option.splits)

definition checkpoint_drain :: "string \<times> string \<Rightarrow> tx \<Rightarrow> checkpoint_rec qtable \<Rightarrow> (wf_err + Checkpoint list) \<times> checkpoint_rec qtable" where
  "checkpoint_drain k = Scoped_Checkpoint_Drain (fst k) (snd k)"

definition fix_drain :: "string \<times> string \<Rightarrow> tx \<Rightarrow> fix_rec qtable \<Rightarrow> (wf_err + FixPrompt list) \<times> fix_rec qtable" where
  "fix_drain k = Scoped_DrainByWorker (fst k) (snd k)"

lemma checkpoint_drain_rows:
  "checkpoint_drain k = drain_rows (\<lambda>r. (c_project r, c_task r) = k) c_seq (\<lambda>r. Some (scan_checkpoint True r))"
  by (cases k) (simp add: checkpoint_drain_def Scoped_Checkpoint_Drain_def)

lemma fix_drain_rows: "fix_drain k = drain_rows (\<lambda>r. (f_project r, f_worker r) = k) f_created (scan_fix True)"
  by (cases k) (simp add: fix_drain_def Scoped_DrainByWorker_def)

definition empty_table :: "'r qtable" where
  "empty_table = \<lparr>q_rows = [], q_next = 1\<rparr>"

lemma empty_table_ok: "table_ok parse empty_table" "waiting_rows sel ord parse empty_table = []"
  by (simp_all add: table_ok_def empty_table_def waiting_rows_def open_rows_def)

lemma checkpoints_delivered:
  assumes "channel_run checkpoint_put checkpoint_drain ops empty_table = (acc, dl, t)"
  shows "\<exists>w. Scoped_Checkpoint_Peek p task True t = Inr w
    \<and> mset (delivered_to (p, task) dl) + mset (map (\<lambda>cp. cp\<lparr>cp_Consumed := True\<rparr>) w)
      = mset (map (\<lambda>i. seen_checkpoint ((snd i)\<lparr>cp_ProjectID := fst i\<rparr>)) (filter (\<lambda>i. (fst i, cp_TaskID (snd i)) = (p, task)) acc))"
proof -
  have puts: "checkpoint_put = (\<lambda>ok i. put_row ok (scoped_checkpoint i))" by (intro ext) (rule checkpoint_put_row)
  have drains: "checkpoint_drain = (\<lambda>k. drain_rows (\<lambda>r. (c_project r, c_task r) = k) c_seq (\<lambda>r. Some (scan_checkpoint True r)))"
    by (rule ext) (rule checkpoint_drain_rows)
  let ?sel = "\<lambda>r. (c_project r, c_task r) = (p, task)"
  let ?w = "map (\<lambda>r. scan_checkpoint False (q_item r)) (open_rows ?sel c_seq t)"
  from scoped_checkpoints.exactly_once [OF empty_table_ok(1) assms [unfolded puts drains], of "(p, task)"]
  have "mset (delivered_to (p, task) dl) + mset (waiting_rows ?sel c_seq (\<lambda>r. Some (scan_checkpoint True r)) t)
      = mset (map (\<lambda>i. seen_checkpoint ((snd i)\<lparr>cp_ProjectID := fst i\<rparr>)) (filter (\<lambda>i. (fst i, cp_TaskID (snd i)) = (p, task)) acc))"
    unfolding empty_table_ok(2) by simp
  moreover have "map (\<lambda>cp. cp\<lparr>cp_Consumed := True\<rparr>) ?w = waiting_rows ?sel c_seq (\<lambda>r. Some (scan_checkpoint True r)) t"
    by (simp add: waiting_rows_def scan_checkpoint_def comp_def)
  moreover have "Scoped_Checkpoint_Peek p task True t = Inr ?w"
    by (simp add: Scoped_Checkpoint_Peek_def peek_rows_def scan_all_Some comp_def)
  ultimately show ?thesis by (intro exI [of _ ?w]) (simp only:)
qed

lemma scan_fix_flag: "scan_fix False r = map_option (\<lambda>fp. fp\<lparr>fp_Consumed := False\<rparr>) (scan_fix True r)"
  by (auto simp: scan_fix_def split: option.splits)

lemma prompts_delivered:
  assumes "channel_run fix_put fix_drain ops empty_table = (acc, dl, t)"
  shows "\<exists>w. Scoped_PendingByWorker p worker True t = Inr w
    \<and> mset (delivered_to (p, worker) dl) + mset (map (\<lambda>fp. fp\<lparr>fp_Consumed := True\<rparr>) w)
      = mset (map (\<lambda>i. seen_fix ((snd i)\<lparr>fp_ProjectID := fst i\<rparr>)) (filter (\<lambda>i. (fst i, WorkerID (snd i)) = (p, worker)) acc))"
proof -
  have puts: "fix_put = (\<lambda>ok i. put_row ok (scoped_fix i))" by (intro ext) (rule fix_put_row)
  have drains: "fix_drain = (\<lambda>k. drain_rows (\<lambda>r. (f_project r, f_worker r) = k) f_created (scan_fix True))"
    by (rule ext) (rule fix_drain_rows)
  let ?sel = "\<lambda>r. (f_project r, f_worker r) = (p, worker)"
  let ?w = "map (\<lambda>r. the (scan_fix False (q_item r))) (open_rows ?sel f_created t)"
  from scoped_prompts.exactly_once [OF empty_table_ok(1) assms [unfolded puts drains], of "(p, worker)"]
  have ok: "table_ok (scan_fix True) t" and
    m: "mset (delivered_to (p, worker) dl) + mset (waiting_rows ?sel f_created (scan_fix True) t)
      = mset (map (\<lambda>i. seen_fix ((snd i)\<lparr>fp_ProjectID := fst i\<rparr>)) (filter (\<lambda>i. (fst i, WorkerID (snd i)) = (p, worker)) acc))"
    unfolding empty_table_ok(2) by simp_all
  have parsed: "\<exists>fp. scan_fix True (q_item r) = Some fp \<and> fp_Consumed fp" if "r \<in> set (open_rows ?sel f_created t)" for r
    using ok that by (auto simp: table_ok_def set_open_rows scan_fix_def split: option.splits)
  have "map (\<lambda>fp. fp\<lparr>fp_Consumed := True\<rparr>) ?w = waiting_rows ?sel f_created (scan_fix True) t"
    unfolding waiting_rows_def map_map using parsed by (intro map_cong refl) (fastforce simp: scan_fix_flag)
  moreover have "Scoped_PendingByWorker p worker True t = Inr ?w"
    unfolding Scoped_PendingByWorker_def peek_rows_def
    by (subst scan_all_Some) (use parsed in \<open>auto simp: scan_fix_flag comp_def\<close>)
  ultimately show ?thesis using m by (intro exI [of _ ?w]) (simp only:)
qed

text \<open>C16: Messages are delivered once: over any sequence of puts and drains by any projects, with any failing
  statements, what the drains of a project's task (or worker) returned, together with what is still
  waiting for it, is exactly what was accepted for it, each message as often as it was put; nothing
  reaches another project, and a failed drain consumes nothing.\<close>

theorem messages_delivered_once:
  "(case channel_run checkpoint_put checkpoint_drain cops empty_table of (acc, dl, t) \<Rightarrow>
     \<exists>w. Scoped_Checkpoint_Peek p task True t = Inr w
       \<and> mset (delivered_to (p, task) dl) + mset (map (\<lambda>cp. cp\<lparr>cp_Consumed := True\<rparr>) w)
         = mset (map (\<lambda>i. seen_checkpoint ((snd i)\<lparr>cp_ProjectID := fst i\<rparr>)) (filter (\<lambda>i. (fst i, cp_TaskID (snd i)) = (p, task)) acc)))
   \<and> (case channel_run fix_put fix_drain fops empty_table of (acc, dl, t) \<Rightarrow>
     \<exists>w. Scoped_PendingByWorker p worker True t = Inr w
       \<and> mset (delivered_to (p, worker) dl) + mset (map (\<lambda>fp. fp\<lparr>fp_Consumed := True\<rparr>) w)
         = mset (map (\<lambda>i. seen_fix ((snd i)\<lparr>fp_ProjectID := fst i\<rparr>)) (filter (\<lambda>i. (fst i, WorkerID (snd i)) = (p, worker)) acc)))"
  using checkpoints_delivered [of cops _ _ _ p task] prompts_delivered [of fops _ _ _ p worker]
  by (auto split: prod.split)

end
