(* ===== verification/Apply_Fix.thy ===== *)
theory Apply_Fix
  imports Hades_Prelude
begin

text \<open>
  The live correction of a worker's branch (\<open>orchestrator/apply/apply_engine.go\<close>): a fix is applied as a
  patch, committed, tested, and reset when the tests fail, all under one deadline. The repository is
  what the commands act on: the tips of its branches, the one checked out, whether a change is
  staged and whether the tree is otherwise dirty. A command runs
  only while the context is alive, and a failed one has no effect; on success it has its documented
  effect.
\<close>

datatype apply_event = EventApplyAttempted | EventApplySucceeded | EventApplyReverted

datatype apply_err = ApplyCtx | ErrPatchRejected | ErrWorkingTreeDirty | ErrCheckoutFailed | ErrCommitFailed | ErrTestsFailed
  | ErrRevertFailed

record Result =
  CommitSHA :: string
  FilesTouched :: "string list"
  TestsPassed :: bool
  Reverted :: bool

definition no_result :: Result where
  "no_result = \<lparr>CommitSHA = [], FilesTouched = [], TestsPassed = False, Reverted = False\<rparr>"

text \<open>\<open>alive k\<close>: the context when the \<open>k\<close>-th command runs; \<open>exits k\<close>: whether the command succeeds if it runs to its
  end. The commands are status, checkout, rev-parse, apply, diff, commit, rev-parse, the tests and reset.\<close>

record apply_env =
  alive :: "nat \<Rightarrow> bool"
  exits :: "nat \<Rightarrow> bool"
  new_sha :: string
  diff_out :: string
  test_cmd :: "string list"

record repo =
  tip :: "string \<Rightarrow> string"
  branch :: string
  staged :: bool
  dirty :: bool
  events :: "apply_event list"

definition runs :: "apply_env \<Rightarrow> nat \<Rightarrow> bool" where
  "runs env k \<longleftrightarrow> alive env k \<and> exits env k"

definition emitDetached :: "apply_event \<Rightarrow> repo \<Rightarrow> repo" where
  "emitDetached ev r = r\<lparr>events := events r @ [ev]\<rparr>"

definition splitLines :: "string \<Rightarrow> string list" where
  "splitLines s = (let s1 = trim_space s in if s1 = [] then [] else Split s1 (CHR 0x0A))"

definition run_tests :: "apply_env \<Rightarrow> string \<Rightarrow> string \<Rightarrow> Result \<Rightarrow> repo \<Rightarrow> (Result \<times> apply_err option) \<times> repo" where
  "run_tests env b priorSHA res r =
     (if test_cmd env \<noteq> [] \<and> \<not> runs env 7 then
        let res1 = res\<lparr>TestsPassed := False, Reverted := True\<rparr> in
        if \<not> runs env 8 then ((res1, Some ErrRevertFailed), emitDetached EventApplyReverted r)
        else ((res1, Some ErrTestsFailed), emitDetached EventApplyReverted (r\<lparr>tip := (tip r)(b := priorSHA), staged := False\<rparr>))
      else ((res, None), emitDetached EventApplySucceeded r))"

definition ApplyFix :: "apply_env \<Rightarrow> bool \<Rightarrow> string \<Rightarrow> repo \<Rightarrow> (Result \<times> apply_err option) \<times> repo" where
  "ApplyFix env ctx_done workerBranch r =
     (if ctx_done then ((no_result, Some ApplyCtx), r)
      else if \<not> runs env 0 \<or> staged r \<or> dirty r then ((no_result, Some ErrWorkingTreeDirty), r)
      else if \<not> runs env 1 then ((no_result, Some ErrCheckoutFailed), r)
      else let r1 = r\<lparr>branch := workerBranch\<rparr> in
      if \<not> runs env 2 then ((no_result, Some ErrCheckoutFailed), r1)
      else let priorSHA = tip r1 workerBranch; r2 = emitDetached EventApplyAttempted r1 in
      if \<not> runs env 3 then ((no_result, Some ErrPatchRejected), r2)
      else let r3 = r2\<lparr>staged := True\<rparr>; files = splitLines (if runs env 4 then diff_out env else []) in
      if \<not> runs env 5 then ((no_result, Some ErrCommitFailed), r3)
      else let r4 = r3\<lparr>tip := (tip r3)(workerBranch := new_sha env), staged := False\<rparr> in
      if \<not> runs env 6 then ((no_result, Some ErrCommitFailed), r4)
      else run_tests env workerBranch priorSHA
        \<lparr>CommitSHA = new_sha env, FilesTouched = files, TestsPassed = True, Reverted = False\<rparr> r4)"

subsection \<open>Properties\<close>

lemma run_tests_outcome:
  assumes "run_tests env b prior res r = ((res', e), r')" "TestsPassed res" "\<not> Reverted res"
  shows "e = None \<and> res' = res \<and> tip r' = tip r \<and> staged r' = staged r \<and> events r' = events r @ [EventApplySucceeded]
    \<or> e = Some ErrTestsFailed \<and> \<not> TestsPassed res' \<and> Reverted res' \<and> tip r' = (tip r)(b := prior) \<and> \<not> staged r'
        \<and> events r' = events r @ [EventApplyReverted]
    \<or> e = Some ErrRevertFailed \<and> \<not> TestsPassed res' \<and> tip r' = tip r \<and> events r' = events r @ [EventApplyReverted]"
  using assms by (auto simp: run_tests_def emitDetached_def Let_def split: if_splits)


definition demo_env :: apply_env where
  "demo_env = \<lparr>alive = (\<lambda>_. True), exits = (\<lambda>k. k \<noteq> 7), new_sha = ''c1'', diff_out = ''a.go'', test_cmd = [''go'', ''test'']\<rparr>"

definition demo_repo :: repo where
  "demo_repo = \<lparr>tip = (\<lambda>_. ''c0''), branch = ''main'', staged = False, dirty = False, events = []\<rparr>"


text \<open>Tests that the deadline kills are not taken back: the reset runs under the same context, so it
  fails too. The failing commit stays on the branch, and the log and the result say it was reverted.\<close>

lemma timed_out_tests_keep_fix:
  assumes "ApplyFix env False b r = ((res, e), r')" "test_cmd env \<noteq> []" "\<not> staged r" "\<not> dirty r"
    and "\<forall>k < 7. runs env k" "\<not> alive env 7" "alive env 8 \<longrightarrow> alive env 7"
  shows "e = Some ErrRevertFailed \<and> tip r' b = new_sha env \<and> Reverted res \<and> last (events r') = EventApplyReverted"
proof -
  have "runs env 0" "runs env 1" "runs env 2" "runs env 3" "runs env 5" "runs env 6" using assms(5) by simp_all
  moreover have "\<not> runs env 7" "\<not> runs env 8" using assms(6,7) by (auto simp: runs_def)
  ultimately show ?thesis using assms(1-4) by (auto simp: ApplyFix_def run_tests_def Let_def emitDetached_def)
qed

text \<open>A commit that fails leaves the patch staged, and every later fix in that repository is refused.\<close>

lemma failed_commit_blocks_later_fixes:
  assumes "ApplyFix env False b r = ((res, e), r')" "\<not> staged r" "\<not> dirty r" "\<forall>k < 5. runs env k" "\<not> runs env 5"
  shows "e = Some ErrCommitFailed \<and> fst (ApplyFix env' False b' r') = (no_result, Some ErrWorkingTreeDirty)"
proof -
  have "runs env 0" "runs env 1" "runs env 2" "runs env 3" using assms(4) by simp_all
  then show ?thesis using assms(1,2,3,5) by (auto simp: ApplyFix_def Let_def emitDetached_def)
qed

end
