(* ===== verification/Autonomy.thy ===== *)
theory Autonomy
  imports Hades_Prelude
begin

text \<open>
  The autonomy policy (\<open>orchestrator/autonomy\<close>): the mode a build runs in (build flag over project over
  doctrine, with the hard guard of capa-firewall), the tier of each prerequisite check per doctrine with
  overrides that may only tighten, and the check engine that decides whether a build proceeds. The
  checks themselves are arguments of the engine.
\<close>

subsection \<open>Strings\<close>

text \<open>\<open>strings.ToLower\<close> as far as a comparison with ASCII text sees it: besides the ASCII letters, the only
  letters whose lower case is ASCII are U+0130 and U+212A. \<open>strings.EqualFold\<close> with a text without \<open>k\<close> and
  \<open>s\<close> compares ASCII letters only.\<close>

definition ascii_lower :: "char \<Rightarrow> char" where
  "ascii_lower c = (if CHR ''A'' \<le> c \<and> c \<le> CHR ''Z'' then char_of (of_char c + 32 :: nat) else c)"

fun to_lower :: "string \<Rightarrow> string" where
  "to_lower (a # b # c # s) =
     (if a = CHR 0xC4 \<and> b = CHR 0xB0 then CHR ''i'' # to_lower (c # s)
      else if a = CHR 0xE2 \<and> b = CHR 0x84 \<and> c = CHR 0xAA then CHR ''k'' # to_lower s
      else ascii_lower a # to_lower (b # c # s))"
| "to_lower [a, b] = (if a = CHR 0xC4 \<and> b = CHR 0xB0 then [CHR ''i''] else [ascii_lower a, ascii_lower b])"
| "to_lower [a] = [ascii_lower a]"
| "to_lower [] = []"

definition equal_fold :: "string \<Rightarrow> string \<Rightarrow> bool" where
  "equal_fold s t \<longleftrightarrow> map ascii_lower s = map ascii_lower t"

subsection \<open>Modes (mode.go)\<close>

type_synonym Mode = nat

definition ModeManual :: Mode where "ModeManual = 1"
definition ModeSemi :: Mode where "ModeSemi = 2"
definition ModeFull :: Mode where "ModeFull = 3"

definition ParseMode :: "string \<Rightarrow> Mode option" where
  "ParseMode s = (let x = to_lower (trim_space s) in
     if x = ''manual'' then Some ModeManual else if x = ''semi'' then Some ModeSemi else if x = ''full'' then Some ModeFull else None)"

datatype Source = SourceDoctrineDefault | SourceProjectConfig | SourceBuildFlag | SourceCapaFirewallGuard

record ResolveInput =
  ri_Doctrine :: string
  ProjectConfig :: "Mode option"
  BuildFlag :: "Mode option"

record Resolution =
  res_Mode :: Mode
  res_Source :: Source
  RejectedOverride :: "(Mode \<times> Source) option"

definition doctrineDefault :: "string \<Rightarrow> Mode" where
  "doctrineDefault d = (if to_lower (trim_space d) = ''max-scope'' then ModeSemi else ModeManual)"

definition rejected_override :: "ResolveInput \<Rightarrow> (Mode \<times> Source) option" where
  "rejected_override i =
     (case BuildFlag i of
        Some m \<Rightarrow> if m \<noteq> ModeManual then Some (m, SourceBuildFlag)
          else (case ProjectConfig i of Some m' \<Rightarrow> if m' \<noteq> ModeManual then Some (m', SourceProjectConfig) else None | None \<Rightarrow> None)
      | None \<Rightarrow> (case ProjectConfig i of Some m' \<Rightarrow> if m' \<noteq> ModeManual then Some (m', SourceProjectConfig) else None | None \<Rightarrow> None))"

definition Resolve :: "ResolveInput \<Rightarrow> Resolution" where
  "Resolve i =
     (if equal_fold (trim_space (ri_Doctrine i)) ''capa-firewall''
        then \<lparr>res_Mode = ModeManual, res_Source = SourceCapaFirewallGuard, RejectedOverride = rejected_override i\<rparr>
      else case BuildFlag i of
        Some m \<Rightarrow> \<lparr>res_Mode = m, res_Source = SourceBuildFlag, RejectedOverride = None\<rparr>
      | None \<Rightarrow>
          (case ProjectConfig i of
             Some m \<Rightarrow> \<lparr>res_Mode = m, res_Source = SourceProjectConfig, RejectedOverride = None\<rparr>
           | None \<Rightarrow> \<lparr>res_Mode = doctrineDefault (ri_Doctrine i), res_Source = SourceDoctrineDefault, RejectedOverride = None\<rparr>))"

subsection \<open>Tiers (tiers.go)\<close>

type_synonym Tier = nat

definition TierHard :: Tier where "TierHard = 1"
definition TierSoft :: Tier where "TierSoft = 2"
definition TierInformational :: Tier where "TierInformational = 3"

lemmas tier_defs = TierHard_def TierSoft_def TierInformational_def

definition AllCheckNames :: "string list" where
  "AllCheckNames = [''research_mcp_up'', ''verify_docs'', ''caronte_index_currency'', ''system_state_toml'', ''caronte_engine_up'',
     ''adrs_valid'', ''watcher_running'', ''amendment_dry_run_approved'', ''lint_clean'', ''plans_4_9_green'', ''ci_consecutive_green'']"

definition AllDoctrineNames :: "string list" where
  "AllDoctrineNames = [''max-scope'', ''default'', ''capa-firewall'']"

text \<open>The row of a check: the tiers for max-scope, default and capa-firewall.\<close>

definition tierTable :: "string \<Rightarrow> (string \<rightharpoonup> Tier) option" where
  "tierTable c =
     (let row = (\<lambda>a b d. Some [''max-scope'' \<mapsto> a, ''default'' \<mapsto> b, ''capa-firewall'' \<mapsto> d]) in
      if c \<in> {''research_mcp_up'', ''verify_docs'', ''caronte_engine_up'', ''adrs_valid'', ''lint_clean'', ''plans_4_9_green''}
        then row TierHard TierHard TierHard
      else if c \<in> {''caronte_index_currency'', ''system_state_toml'', ''watcher_running'', ''ci_consecutive_green''}
        then row TierHard TierSoft TierHard
      else if c = ''amendment_dry_run_approved'' then row TierHard TierInformational TierHard
      else None)"

definition tierStrictness :: "Tier \<Rightarrow> nat" where
  "tierStrictness t = (if t = TierInformational then 1 else if t = TierSoft then 2 else if t = TierHard then 3 else 0)"

definition ApplyOverride :: "Tier \<Rightarrow> Tier \<Rightarrow> Tier" where
  "ApplyOverride baseline override =
     (if override = 0 then baseline
      else if tierStrictness override > tierStrictness baseline then override else baseline)"

datatype tier_err = UnknownCheck string | UnknownDoctrine string string | InvalidTier string Tier | Loosens string Tier Tier

definition TierForCheck :: "string \<Rightarrow> string \<Rightarrow> tier_err + Tier" where
  "TierForCheck check doctrine =
     (case tierTable (trim_space check) of
        None \<Rightarrow> Inl (UnknownCheck check)
      | Some row \<Rightarrow> (case row (to_lower (trim_space doctrine)) of None \<Rightarrow> Inl (UnknownDoctrine doctrine check) | Some t \<Rightarrow> Inr t))"

text \<open>The overrides in the order the map is iterated.\<close>

fun ValidateOverrides :: "string \<Rightarrow> (string \<times> Tier) list \<Rightarrow> tier_err option" where
  "ValidateOverrides doctrine [] = None"
| "ValidateOverrides doctrine ((name, override) # os) =
     (case TierForCheck name doctrine of
        Inl e \<Rightarrow> Some e
      | Inr base \<Rightarrow>
          if tierStrictness override = 0 then Some (InvalidTier name override)
          else if tierStrictness override < tierStrictness base then Some (Loosens name base override)
          else ValidateOverrides doctrine os)"

subsection \<open>The check engine (check.go, softwarn.go)\<close>

datatype CheckStatus = CheckPass | CheckFail | CheckSkip

record CheckEnv =
  ce_Doctrine :: string
  ce_ProjectRoot :: string
  ce_Now :: time

text \<open>What a check answers: its status, its reason and the text of an error.\<close>

record Check =
  chk_name :: string
  chk_run :: "CheckEnv \<Rightarrow> CheckStatus \<times> string \<times> string option"

record CheckResult =
  cr_Name :: string
  cr_Status :: CheckStatus
  cr_Reason :: string
  cr_Tier :: Tier
  cr_Err :: "string option"

record RunInput =
  in_Doctrine :: string
  in_ProjectRoot :: string
  AllowSoftWarnings :: bool
  PerProjectTiers :: "string \<rightharpoonup> Tier"

record RunOutcome =
  Proceed :: bool
  Results :: "CheckResult list"
  BypassedSoft :: "CheckResult list"

definition HardFailures :: "RunOutcome \<Rightarrow> CheckResult list" where
  "HardFailures o1 = filter (\<lambda>r. cr_Tier r = TierHard \<and> cr_Status r = CheckFail) (Results o1)"

definition SoftWarnings :: "RunOutcome \<Rightarrow> CheckResult list" where
  "SoftWarnings o1 = filter (\<lambda>r. cr_Tier r = TierSoft \<and> cr_Status r = CheckFail) (Results o1)"

datatype engine_err = NilCheck | DuplicateCheck string | MissingCheck string

fun index_checks :: "(string \<rightharpoonup> Check) \<Rightarrow> Check option list \<Rightarrow> engine_err + (string \<rightharpoonup> Check)" where
  "index_checks idx [] = Inr idx"
| "index_checks idx (None # cs) = Inl NilCheck"
| "index_checks idx (Some c # cs) =
     (if idx (chk_name c) \<noteq> None then Inl (DuplicateCheck (chk_name c)) else index_checks (idx(chk_name c \<mapsto> c)) cs)"

definition NewCheckEngine :: "Check option list \<Rightarrow> engine_err + (string \<rightharpoonup> Check)" where
  "NewCheckEngine checks =
     (case index_checks (\<lambda>_. None) checks of
        Inl e \<Rightarrow> Inl e
      | Inr idx \<Rightarrow>
          (case List.find (\<lambda>want. idx want = None) AllCheckNames of
             Some want \<Rightarrow> Inl (MissingCheck want)
           | None \<Rightarrow> Inr idx))"

definition check_result :: "CheckEnv \<Rightarrow> RunInput \<Rightarrow> Check \<Rightarrow> string \<Rightarrow> Tier \<Rightarrow> CheckResult" where
  "check_result env i c name baseline =
     (let tier = ApplyOverride baseline (case PerProjectTiers i name of Some t \<Rightarrow> t | None \<Rightarrow> 0);
          (status, reason, runErr) = chk_run c env
      in case runErr of
        None \<Rightarrow> \<lparr>cr_Name = name, cr_Status = status, cr_Reason = reason, cr_Tier = tier, cr_Err = None\<rparr>
      | Some msg \<Rightarrow> \<lparr>cr_Name = name, cr_Status = CheckFail, cr_Reason = (if reason = [] then msg else reason),
          cr_Tier = tier, cr_Err = Some msg\<rparr>)"

fun run_checks :: "(string \<rightharpoonup> Check) \<Rightarrow> CheckEnv \<Rightarrow> RunInput \<Rightarrow> string list \<Rightarrow> tier_err + CheckResult list" where
  "run_checks e env i [] = Inr []"
| "run_checks e env i (name # names) =
     (case TierForCheck name (in_Doctrine i) of
        Inl err \<Rightarrow> Inl err
      | Inr baseline \<Rightarrow> map_sum id ((#) (check_result env i (the (e name)) name baseline)) (run_checks e env i names))"

fun index_from :: "nat \<Rightarrow> string list \<Rightarrow> string \<Rightarrow> nat" where
  "index_from k [] name = k"
| "index_from k (n # ns) name = (if n = name then k else index_from (Suc k) ns name)"

definition canonicalIndex :: "string \<Rightarrow> nat" where
  "canonicalIndex name = index_from 0 AllCheckNames name"

definition run_outcome :: "(string \<rightharpoonup> Check) \<Rightarrow> time \<Rightarrow> RunInput \<Rightarrow> tier_err + RunOutcome" where
  "run_outcome e now i =
     (case run_checks e \<lparr>ce_Doctrine = in_Doctrine i, ce_ProjectRoot = in_ProjectRoot i, ce_Now = now\<rparr> i AllCheckNames of
        Inl err \<Rightarrow> Inl err
      | Inr rs \<Rightarrow>
          let results = sort_key (\<lambda>r. canonicalIndex (cr_Name r)) rs
          in Inr \<lparr>Proceed = list_all (\<lambda>r. \<not> (cr_Tier r = TierHard \<and> cr_Status r = CheckFail)) results, Results = results,
            BypassedSoft = filter (\<lambda>r. cr_Tier r = TierSoft \<and> cr_Status r = CheckFail \<and> AllowSoftWarnings i) results\<rparr>)"

text \<open>The event of a bypassed check: its name, the doctrine and the reason.\<close>

definition emitBypassedSoft :: "string \<Rightarrow> CheckResult list \<Rightarrow> (string \<times> string \<times> string) list" where
  "emitBypassedSoft doctrine bypassed = map (\<lambda>r. (cr_Name r, doctrine, cr_Reason r)) bypassed"

text \<open>\<open>emitter\<close>: whether the engine has one; its answers are ignored.\<close>

definition RunCheck :: "(string \<rightharpoonup> Check) \<Rightarrow> bool \<Rightarrow> time \<Rightarrow> RunInput \<Rightarrow> tier_err + (RunOutcome \<times> (string \<times> string \<times> string) list)" where
  "RunCheck e emitter now i =
     (case run_outcome e now i of
        Inl err \<Rightarrow> Inl err
      | Inr out \<Rightarrow> Inr (out, if emitter then emitBypassedSoft (in_Doctrine i) (BypassedSoft out) else []))"

subsection \<open>Properties\<close>

lemma trim_names: "map trim_space AllCheckNames = AllCheckNames"
  by code_simp

lemma known_tier:
  assumes "name \<in> set AllCheckNames" "to_lower (trim_space d) \<in> set AllDoctrineNames"
  shows "\<exists>t. TierForCheck name d = Inr t \<and> t \<in> {TierHard, TierSoft, TierInformational}"
proof -
  have "trim_space name = name" using trim_names assms(1) by (metis map_eq_conv map_ident)
  then show ?thesis using assms
    by (auto simp: TierForCheck_def tierTable_def AllCheckNames_def AllDoctrineNames_def Let_def)
qed

lemma ApplyOverride_strict: "tierStrictness baseline \<le> tierStrictness (ApplyOverride baseline override)"
  by (simp add: ApplyOverride_def)

lemma hard_stays_hard: "ApplyOverride TierHard override = TierHard"
  by (simp add: ApplyOverride_def tierStrictness_def tier_defs)

lemma run_checks_map:
  "(\<And>n. n \<in> set names \<Longrightarrow> TierForCheck n (in_Doctrine i) = Inr (tier n)) \<Longrightarrow>
   run_checks e env i names = Inr (map (\<lambda>n. check_result env i (the (e n)) n (tier n)) names)"
  by (induction names) simp_all

lemma check_result_simps:
  "cr_Name (check_result env i c n t) = n"
  "cr_Tier (check_result env i c n t) = ApplyOverride t (case PerProjectTiers i n of Some u \<Rightarrow> u | None \<Rightarrow> 0)"
  "cr_Status (check_result env (i\<lparr>PerProjectTiers := m\<rparr>) c n t) = cr_Status (check_result env i c n t)"
  by (simp_all add: check_result_def Let_def split: prod.split option.split)

lemma sorted_names: "sorted_wrt (\<lambda>a b. canonicalIndex a \<le> canonicalIndex b) AllCheckNames"
  by (simp add: canonicalIndex_def AllCheckNames_def)

lemma outcome_results:
  assumes "\<And>n. n \<in> set AllCheckNames \<Longrightarrow> TierForCheck n (in_Doctrine i) = Inr (tier n)"
    and env: "env = \<lparr>ce_Doctrine = in_Doctrine i, ce_ProjectRoot = in_ProjectRoot i, ce_Now = now\<rparr>"
  shows "\<exists>out. run_outcome e now i = Inr out \<and> Results out = map (\<lambda>n. check_result env i (the (e n)) n (tier n)) AllCheckNames
    \<and> (Proceed out \<longleftrightarrow> HardFailures out = [])
    \<and> BypassedSoft out = (if AllowSoftWarnings i then SoftWarnings out else [])"
proof -
  let ?rs = "map (\<lambda>n. check_result env i (the (e n)) n (tier n)) AllCheckNames"
  have "sorted (map (\<lambda>r. canonicalIndex (cr_Name r)) ?rs)"
    using sorted_names by (simp add: check_result_simps(1) comp_def sorted_wrt_map)
  then have "sort_key (\<lambda>r. canonicalIndex (cr_Name r)) ?rs = ?rs" by (rule sort_key_id_if_sorted)
  moreover have "run_checks e env i AllCheckNames = Inr ?rs" using assms(1) by (rule run_checks_map)
  ultimately have "run_outcome e now i = Inr \<lparr>Proceed = list_all (\<lambda>r. \<not> (cr_Tier r = TierHard \<and> cr_Status r = CheckFail)) ?rs, Results = ?rs,
      BypassedSoft = filter (\<lambda>r. cr_Tier r = TierSoft \<and> cr_Status r = CheckFail \<and> AllowSoftWarnings i) ?rs\<rparr>" (is "_ = Inr ?out")
    unfolding run_outcome_def env [symmetric] by (simp only: sum.case Let_def)
  then show ?thesis
    by (intro exI [of _ ?out]) (auto simp: HardFailures_def SoftWarnings_def list_all_iff filter_empty_conv)
qed

text \<open>C18: Overrides never unblock a build: for a known doctrine the engine runs the eleven checks in their
  order and lets the build proceed exactly when no check of a hard tier failed, an error counting as a
  failure; every check that blocks without project overrides blocks with any overrides too, so a build
  that proceeds with them proceeds without; and soft failures are recorded as bypassed, and reported one event each,
  only on consent.\<close>

theorem overrides_never_unblock:
  assumes "to_lower (trim_space (in_Doctrine i)) \<in> set AllDoctrineNames"
  shows "\<exists>out out0 evs evs0. RunCheck e emitter now i = Inr (out, evs)
    \<and> RunCheck e emitter now (i\<lparr>PerProjectTiers := (\<lambda>_. None)\<rparr>) = Inr (out0, evs0)
    \<and> map cr_Name (Results out) = AllCheckNames
    \<and> (Proceed out \<longleftrightarrow> HardFailures out = [])
    \<and> cr_Name ` set (HardFailures out0) \<subseteq> cr_Name ` set (HardFailures out)
    \<and> (Proceed out \<longrightarrow> Proceed out0)
    \<and> BypassedSoft out = (if AllowSoftWarnings i then SoftWarnings out else [])
    \<and> evs = (if emitter then map (\<lambda>r. (cr_Name r, in_Doctrine i, cr_Reason r)) (BypassedSoft out) else [])"
proof -
  obtain tier where t: "\<And>n. n \<in> set AllCheckNames \<Longrightarrow> TierForCheck n (in_Doctrine i) = Inr (tier n)"
    using known_tier [OF _ assms] by metis
  let ?i0 = "i\<lparr>PerProjectTiers := (\<lambda>_. None)\<rparr>"
  let ?env = "\<lparr>ce_Doctrine = in_Doctrine i, ce_ProjectRoot = in_ProjectRoot i, ce_Now = now\<rparr>"
  obtain out where o: "run_outcome e now i = Inr out" "Results out = map (\<lambda>n. check_result ?env i (the (e n)) n (tier n)) AllCheckNames"
    "Proceed out \<longleftrightarrow> HardFailures out = []" "BypassedSoft out = (if AllowSoftWarnings i then SoftWarnings out else [])"
    using outcome_results [OF t refl] by blast
  obtain out0 where o0: "run_outcome e now ?i0 = Inr out0"
    "Results out0 = map (\<lambda>n. check_result ?env ?i0 (the (e n)) n (tier n)) AllCheckNames" "Proceed out0 \<longleftrightarrow> HardFailures out0 = []"
    using outcome_results [of ?i0 tier ?env now e] t by auto
  have sub: "cr_Name ` set (HardFailures out0) \<subseteq> cr_Name ` set (HardFailures out)"
  proof
    fix n assume "n \<in> cr_Name ` set (HardFailures out0)"
    then have n: "n \<in> set AllCheckNames" "tier n = TierHard" "cr_Status (check_result ?env i (the (e n)) n (tier n)) = CheckFail"
      by (auto simp: HardFailures_def o0(2) check_result_simps ApplyOverride_def)
    then have "check_result ?env i (the (e n)) n (tier n) \<in> set (HardFailures out)"
      by (auto simp: HardFailures_def o(2) check_result_simps hard_stays_hard intro: rev_image_eqI)
    then show "n \<in> cr_Name ` set (HardFailures out)" by (rule rev_image_eqI) (simp add: check_result_simps)
  qed
  have "map cr_Name (Results out) = AllCheckNames" by (simp add: o(2) comp_def check_result_simps)
  moreover have "Proceed out \<longrightarrow> Proceed out0" using sub o(3) o0(3) by auto
  ultimately show ?thesis using o o0 sub by (simp add: RunCheck_def emitBypassedSoft_def)
qed

definition demo_check :: "string \<Rightarrow> Check" where
  "demo_check n = \<lparr>chk_name = n, chk_run = (\<lambda>_. if n = ''watcher_running'' then (CheckFail, ''down'', None) else (CheckPass, [], None))\<rparr>"

definition demo_input :: RunInput where
  "demo_input = \<lparr>in_Doctrine = '' Default'', in_ProjectRoot = ''/p'', AllowSoftWarnings = True,
     PerProjectTiers = [''watcher_running'' \<mapsto> TierHard]\<rparr>"

theorem overrides_never_unblock_witness:
  "\<exists>out out0 evs evs0. RunCheck (Some \<circ> demo_check) True 0 demo_input = Inr (out, evs)
     \<and> RunCheck (Some \<circ> demo_check) True 0 (demo_input\<lparr>PerProjectTiers := (\<lambda>_. None)\<rparr>) = Inr (out0, evs0)
     \<and> length (Results out) = 11 \<and> (Proceed out \<longrightarrow> Proceed out0)"
proof -
  have "to_lower (trim_space '' Default'') = ''default''" by code_simp
  then have "to_lower (trim_space (in_Doctrine demo_input)) \<in> set AllDoctrineNames"
    by (simp add: demo_input_def AllDoctrineNames_def)
  from overrides_never_unblock [OF this, of "Some \<circ> demo_check" True 0] obtain out out0 evs evs0 where
    o: "RunCheck (Some \<circ> demo_check) True 0 demo_input = Inr (out, evs)"
      "RunCheck (Some \<circ> demo_check) True 0 (demo_input\<lparr>PerProjectTiers := (\<lambda>_. None)\<rparr>) = Inr (out0, evs0)"
      "map cr_Name (Results out) = AllCheckNames" "Proceed out \<longrightarrow> Proceed out0" by blast
  moreover have "length (Results out) = 11" using arg_cong [OF o(3), of length] by (simp add: AllCheckNames_def)
  ultimately show ?thesis by blast
qed

text \<open>Under capa-firewall every build is manual, whatever the flags say, and an attempt is reported.\<close>

lemma capa_firewall_is_manual:
  assumes "equal_fold (trim_space (ri_Doctrine i)) ''capa-firewall''"
  shows "res_Mode (Resolve i) = ModeManual"
    and "BuildFlag i = Some m \<Longrightarrow> m \<noteq> ModeManual \<Longrightarrow> RejectedOverride (Resolve i) = Some (m, SourceBuildFlag)"
  using assms by (simp_all add: Resolve_def rejected_override_def)

text \<open>Validated overrides are taken as they are: each is at least as strict as the baseline.\<close>

lemma validated_override_applies:
  assumes "ValidateOverrides d os = None" "(name, t) \<in> set os"
  shows "\<exists>base. TierForCheck name d = Inr base \<and> tierStrictness (ApplyOverride base t) = tierStrictness t"
proof -
  have applies: "tierStrictness (ApplyOverride base t) = tierStrictness t"
    if "tierStrictness t \<noteq> 0" "\<not> tierStrictness t < tierStrictness base" for base
    using that by (auto simp: ApplyOverride_def tierStrictness_def [of 0] tier_defs)
  show ?thesis using assms
    by (induction d os rule: ValidateOverrides.induct) (auto simp: applies split: sum.splits if_splits)
qed

text \<open>Validation trims the name of a check and the engine does not: an override written with a space around
  the name passes validation and has no effect.\<close>

lemma spaced_override_is_ignored:
  "ValidateOverrides ''default'' [('' watcher_running'', TierHard)] = None
   \<and> ApplyOverride TierSoft (case [('' watcher_running'' :: string) \<mapsto> TierHard] ''watcher_running'' of Some t \<Rightarrow> t | None \<Rightarrow> 0) = TierSoft"
proof
  have t: "trim_space '' watcher_running'' = ''watcher_running''" "to_lower (trim_space ''default'') = ''default''" by code_simp+
  show "ValidateOverrides ''default'' [('' watcher_running'', TierHard)] = None"
    by (simp add: TierForCheck_def t tierTable_def tierStrictness_def tier_defs Let_def)
qed (simp add: ApplyOverride_def)

end
