(* ===== verification/Spec2Isabelle.thy ===== *)
theory Spec2Isabelle
  imports Composition AuditChain Review Pool Merge Budget CostGating Dispatch Orchestrator
    Auto_Revert Amendment Adr Pool_GC Inbox Workforce_Queues Apply_Fix Autonomy
begin

text \<open>
  HADES is a daemon that runs autonomous software builds: a supervisor takes a build request through
  research, sizing and dispatch, workers edit git worktrees leased from a pool, reviewers vote, a
  merge engine integrates the best candidate, and around them stand the policies that bound the
  whole: budgets and quotas, schedules, operator confirmations, recovery after a crash, an audit log
  chained by hashes, and the doctrines, files of limits that projects and autonomous amendments may
  only tighten. This library models that core, from the Go sources under \<open>src/internal\<close>.

  \<^bold>\<open>Conventions.\<close> A struct is a \<open>record\<close>, an enumeration a \<open>datatype\<close>, an \<open>error\<close> a value of the
  component's error type (\<open>Inl\<close>, or \<open>Some\<close> beside an updated state), strings are byte lists, times and
  durations are nanoseconds, 64-bit integers are \<open>int\<close> with \<open>i64\<close> where they can overflow, floats are
  IEEE doubles with their rounding (\<open>Go_Float\<close>; no fused multiply-add). An operation under a mutex is
  one step; code that gives its lock up between two critical sections is several steps, and its
  interleavings with the other goroutines are an inductive step relation. Whatever is not under
  \<open>src\<close> (git, SQLite, the cron parser, the transparency log, model providers) or only does I/O (the
  clock, contexts, the event appender of a call) is an argument: a function or a record of the answers
  it gives, so each theorem holds for every behaviour of it that its hypotheses allow.

  \<^bold>\<open>Theories, in the order of the imports.\<close>
  \<^item> \<open>Hades_Prelude\<close>: Go integers, time, decimal numerals, trimming; the locales \<open>safety\<close> (invariant of a
    step relation) and \<open>refinement\<close> (simulation of an abstract machine) every component interprets.
  \<^item> \<open>Supervisor\<close> (\<open>orchestrator/state_machine.go\<close>): the nine states, the transition table and the
    logged transition; the log always replays to the current state.
  \<^item> \<open>Confirmation\<close> (\<open>orchestrator/confirmation_*.go\<close>, \<open>main_loop.go\<close>, \<open>workforce/gate/gate.go\<close>): the
    operator gate, requests for confirmation, the timeout watcher and the main loop. A decision is
    final, a timeout only hits what expired, requests round-trip or leave nothing, and the main loop
    reaches the worst state asked for.
  \<^item> \<open>Orchestrator\<close> (\<open>orchestrator/orchestrator.go\<close>, \<open>depth.go\<close>): sizing, \<open>RunStage4\<close>, \<open>Shutdown\<close>. A
    build ends idle on every path unless its context is cancelled, and nothing is dispatched ungated.
  \<^item> \<open>Pool\<close> (\<open>orchestrator/worktreepool\<close>): the elastic pool as an interleaving of its critical
    sections: bounded, exclusive, no lost wake-up.
  \<^item> \<open>Pool_GC\<close> (\<open>worktreepool/gc.go\<close>): the listing of worktrees and the sweep of orphaned directories, which
    spares what the pool holds.
  \<^item> \<open>Dispatch\<close> (\<open>orchestrator/dispatcher.go\<close>): leases, drain loop and shutdown over the interface
    \<open>worktree_api\<close>, a locale interpreted on the pool; leases are given back on every branch.
  \<^item> \<open>Recovery\<close> (\<open>orchestrator/recovery*.go\<close>, \<open>eventlog/replay.go\<close>): classification of failures, retry
    and tier fallback, replay with its corruption budget of five rows, reconstruction of the work
    in flight.
  \<^item> \<open>Sha256\<close>, \<open>AuditChain\<close> (\<open>audit/chain\<close> and its store): SHA-256, the hash chain over the audit
    events, live emission, backfill, the integrity walk and partition seals.
  \<^item> \<open>Go_Float\<close>, \<open>Quota\<close> (\<open>quota\<close>): thresholds, the pre-flight layers, weighted fair queueing and
    starvation.
  \<^item> \<open>Scheduler\<close> (\<open>scheduler\<close>): cron and one-shot schedules, missed fires, fire attempts, git polling,
    jitter and bearer tokens.
  \<^item> \<open>Review\<close> (\<open>orchestrator/hra\<close>): votes, escalation, the fix-merge-verify race and the cadence loops.
  \<^item> \<open>Merge_Run\<close>, \<open>Merge\<close> (\<open>orchestrator/merge\<close>): baseline and candidate runs with flaky reruns, ranking,
    fast-forward integration with rollback, and the outcome cache rebuilt from the log.
  \<^item> \<open>Budget\<close> (\<open>budget\<close>): scopes, pauses with deadlines, the gate and the tagging of spend.
  \<^item> \<open>CostGating\<close> (\<open>orchestrator/cost_gating*.go\<close>): threshold tables, evaluation, ticks and the
    recovery walk.
  \<^item> \<open>Doctrine_Schema\<close>, \<open>Doctrine_Validate\<close> (\<open>doctrine/schema\<close>, \<open>doctrine/builtin\<close>): the schema as a typed
    struct that the code walks by reflection, the registry of tighten rules read from its tags, the
    tighten check against a baseline, and validation. The registry is well typed, the check decides a
    declarative order, and chains of accepted overrides never loosen.
  \<^item> \<open>Doctrine_Reload\<close> (\<open>doctrine/parser\<close>, \<open>builtin\<close>, \<open>active\<close>, \<open>reload\<close>): loading, the accessor and the file
    watcher with forced reloads, failure storms, restarts and the debouncer. Whatever the watcher
    sees, only validated and tighter doctrines are installed; and, as the code stands, none is.
  \<^item> \<open>Auto_Revert\<close>, \<open>Amendment\<close> (\<open>orchestrator/amendment\<close>): telemetry windows and the autonomous reverts with
    their cooldown; proposals from patterns of events, numbering, application with its undo, rollback
    and the tighten gate.
  \<^item> \<open>Adr\<close> (\<open>adr\<close>): decision records, their lifecycle, the validation of a corpus with its search for
    cycles (proved against reachability in the supersede relation), index and graph.
  \<^item> \<open>Inbox\<close> (\<open>inbox\<close>, \<open>daemon/inboxadapter\<close>): notifications with their deduplication, batches, quiet
    hours, collapse, the tables and the cache behind an outbox. Projects are kept apart in the cache,
    the in-memory store refines to the database, and batches lose nothing; a group of lemmas shows
    where projects do meet (numbers, keys and deletions).
  \<^item> \<open>Workforce\<close>, \<open>Workforce_Queues\<close> (\<open>workforce/queue\<close>, \<open>daemon/workforceadapter\<close>, \<open>workforce/worker\<close>): the
    board of tasks with the calls that claim and finish them (a task has one worker, finished tasks
    stay), and the checkpoint and fix prompt queues as instances of the locale \<open>channel\<close> (every accepted
    message is delivered once).
  \<^item> \<open>Apply_Fix\<close> (\<open>orchestrator/apply\<close>): a fix on a worker's branch under its deadline is kept or taken back.
  \<^item> \<open>Autonomy\<close> (\<open>orchestrator/autonomy\<close>): mode resolution, check tiers with tighten-only overrides and the
    check engine.
  \<^item> \<open>Composition\<close>: a restart finds the supervisor's state in the log; a schedule obeys the quota.

  \<^bold>\<open>Termination and bounds.\<close> Loops are structural recursion or carry a measure. Loops that may not
  end are \<open>partial_function (option)\<close> (the walk over cron ticks) or follow a schedule given as a list
  (the drain and shutdown loops, where \<open>None\<close> is a loop still blocked); theorems then prove that they
  return. The depth loop has the maximum depth as fuel, which is what its own break allows; a
  recovery walk ends within five firings because the table has five rows.

  \<^bold>\<open>Not modelled.\<close> HTTP handlers, the command line and terminal interface, SQL storage and
  migrations, the code graph, retrieval and ranking over external services, protocol adapters to
  model providers, onboarding and packaging: they are I/O around the core, or rest on libraries the
  sources only call. Within the modelled files, message texts, payload encodings and the nil checks of
  constructors are left out unless another operation reads them.
\<close>

end
